(* ===== verification/Prelude.thy ===== *)
theory Prelude
  imports Complex_Main "HOL-Library.Monad_Syntax"
begin

text \<open>
  What every component shares: the named collections that carry the proofs, the error type and
  the error monad the fallible operations return, whole-cent amounts, and list lemmas about
  tables (a table of the database is a list of rows, a primary key is a distinctness fact).
\<close>

named_theorems guards "definitions unfolded when an operation's guards are evaluated"
named_theorems cents "closure of the whole-cent amounts"

subsection \<open>Results of fallible operations\<close>

text \<open>
  Python exceptions raised by the modelled code or by the database under it. The string of a
  \<open>ValueError\<close> or an \<open>AssertionError\<close> is not modelled; what a caller can catch is.
\<close>

datatype exc =
    ValueError
  | InvalidOperation
  | TypeError
  | AttributeError
  | ZeroDivisionError
  | AssertionError
  | IdempotencyKeyConflict string string string
  | InsufficientFunds int rat
  | CheckViolation
  | UniqueViolation
  | ForeignKeyViolation
  | TriggerViolation int
  | KeyError
  | IndexError
  | RuntimeError
  | OverflowError
  | SelfExclusionTooShort
  | KenoError
  | TicketRejected string
  | AutoplayError string
  | DepositRejected string
  | WithdrawalRejected string
  | BonusNotFound
  | SameAdminCannotProvideSecondApproval
  | InvalidEvidenceTransition

type_synonym 'a result = "exc + 'a"

definition bind_result :: "'e + 'a \<Rightarrow> ('a \<Rightarrow> 'e + 'b) \<Rightarrow> 'e + 'b" where
  "bind_result r f = (case r of Inl e \<Rightarrow> Inl e | Inr x \<Rightarrow> f x)"

lemma bind_result_simps [simp]:
  "bind_result (Inl e) f = Inl e"
  "bind_result (Inr x) f = f x"
  by (simp_all add: bind_result_def)

lemma bind_result_Inr_iff:
  "bind_result r f = Inr y \<longleftrightarrow> (\<exists>x. r = Inr x \<and> f x = Inr y)"
  by (cases r) auto

lemma bind_result_Inl_iff:
  "bind_result r f = Inl e \<longleftrightarrow> r = Inl e \<or> (\<exists>x. r = Inr x \<and> f x = Inl e)"
  by (cases r) auto

text \<open>A loop that may raise: the state is threaded through the elements, the first error ends it.\<close>

fun fold_result :: "('a \<Rightarrow> 's \<Rightarrow> 'e + 's) \<Rightarrow> 'a list \<Rightarrow> 's \<Rightarrow> 'e + 's" where
  "fold_result f [] s = Inr s"
| "fold_result f (x # xs) s = bind_result (f x s) (fold_result f xs)"

lemma fold_result_append:
  "fold_result f (xs @ ys) s = bind_result (fold_result f xs s) (fold_result f ys)"
  by (induction xs arbitrary: s) (auto simp: bind_result_def split: sum.splits)

lemma fold_result_invariant:
  assumes "fold_result f xs s = Inr t" "P s"
    and "\<And>x u v. x \<in> set xs \<Longrightarrow> P u \<Longrightarrow> f x u = Inr v \<Longrightarrow> P v"
  shows "P t"
  using assms
proof (induction xs arbitrary: s)
  case Nil
  then show ?case by simp
next
  case (Cons x xs)
  then obtain u where u: "f x s = Inr u" "fold_result f xs u = Inr t"
    by (auto simp: bind_result_Inr_iff)
  show ?case
    by (rule Cons.IH [OF u(2)]) (use Cons.prems u in auto)
qed

subsection \<open>Money\<close>

text \<open>
  An amount is an exact decimal, read as a rational. The columns that hold money are
  \<open>numeric(18,2)\<close>: a whole number of cents.
\<close>

type_synonym money = rat

definition whole_cents :: "money \<Rightarrow> bool" where
  "whole_cents x \<longleftrightarrow> of_int \<lfloor>x * 100\<rfloor> = x * 100"

text \<open>What storing an amount in a \<open>numeric(18,2)\<close> column does: round half away from zero.\<close>

definition numeric2 :: "rat \<Rightarrow> money" where
  "numeric2 x = sgn x * of_int \<lfloor>\<bar>x\<bar> * 100 + 1/2\<rfloor> / 100"

lemma whole_centsI: "x * 100 = of_int k \<Longrightarrow> whole_cents x"
  by (simp add: whole_cents_def)

lemma whole_centsE:
  assumes "whole_cents x" obtains k where "x = of_int k / 100"
  using assms by (metis whole_cents_def nonzero_mult_div_cancel_right zero_neq_numeral)

lemma whole_cents_cent [cents, simp]: "whole_cents (of_int k / 100)"
  by (rule whole_centsI [of _ k]) simp

lemma whole_cents_0 [cents, simp]: "whole_cents 0"
  by (simp add: whole_cents_def)

lemma whole_cents_numeral [cents, simp]: "whole_cents (numeral k)"
  by (rule whole_centsI [of _ "numeral k * 100"]) simp

lemma whole_cents_uminus [cents, simp]: "whole_cents (- x) \<longleftrightarrow> whole_cents x"
proof -
  have "whole_cents x \<Longrightarrow> whole_cents (- x)" for x
    by (erule whole_centsE, rule whole_centsI [of _ "- k" for k]) simp
  from this [of x] this [of "- x"] show ?thesis by auto
qed

lemma whole_cents_add [cents]: "whole_cents x \<Longrightarrow> whole_cents y \<Longrightarrow> whole_cents (x + y)"
  by (elim whole_centsE, rule whole_centsI [of _ "a + b" for a b]) (simp add: algebra_simps)

lemma whole_cents_diff [cents]: "whole_cents x \<Longrightarrow> whole_cents y \<Longrightarrow> whole_cents (x - y)"
  using whole_cents_add [of x "- y"] by simp

lemma whole_cents_of_int_mult [cents]:
  assumes "whole_cents x" shows "whole_cents (of_int n * x)"
proof -
  obtain k where "x = of_int k / 100" using assms by (rule whole_centsE)
  then show ?thesis by (intro whole_centsI [of _ "n * k"]) simp
qed

lemma whole_cents_of_nat_mult [cents]: "whole_cents x \<Longrightarrow> whole_cents (of_nat n * x)"
  using whole_cents_of_int_mult [of x "int n"] by simp

lemma whole_cents_sum_list [cents]:
  "(\<And>x. x \<in> set xs \<Longrightarrow> whole_cents (f x)) \<Longrightarrow> whole_cents (sum_list (map f xs))"
  by (induction xs) (auto intro: whole_cents_add)

lemma numeric2_whole [simp]: assumes "whole_cents x" shows "numeric2 x = x"
proof -
  obtain k where k: "x = of_int k / 100" using assms by (rule whole_centsE)
  have "\<lfloor>\<bar>x\<bar> * 100 + 1/2\<rfloor> = \<lfloor>of_int \<bar>k\<bar> + (1/2::rat)\<rfloor>"
    by (simp add: k)
  also have "\<dots> = \<bar>k\<bar>" by linarith
  finally have "numeric2 x = sgn x * of_int \<bar>k\<bar> / 100" by (simp add: numeric2_def)
  also have "\<dots> = sgn x * \<bar>x\<bar>" by (simp add: k)
  also have "\<dots> = x" by (simp add: sgn_mult_abs)
  finally show ?thesis .
qed

lemma whole_cents_numeric2 [cents, simp]: "whole_cents (numeric2 x)"
proof -
  define s :: int where "s = (if x < 0 then -1 else if x = 0 then 0 else 1)"
  then have s: "sgn x = of_int s" by (simp add: sgn_if)
  show ?thesis
    by (rule whole_centsI [of _ "s * \<lfloor>\<bar>x\<bar> * 100 + 1/2\<rfloor>"]) (simp add: numeric2_def s)
qed

text \<open>\<open>numeric(18,2)\<close>: 16 digits before the point, or the update raises.\<close>

definition numeric18_2 :: "rat \<Rightarrow> money result" where
  "numeric18_2 x = (if \<bar>numeric2 x\<bar> < 10 ^ 16 then Inr (numeric2 x) else Inl OverflowError)"

text \<open>The same for a \<open>numeric(24,6)\<close> column, which holds a variance.\<close>

definition numeric6 :: "rat \<Rightarrow> rat" where
  "numeric6 x = sgn x * of_int \<lfloor>\<bar>x\<bar> * 10 ^ 6 + 1/2\<rfloor> / 10 ^ 6"

definition numeric24_6 :: "rat \<Rightarrow> rat result" where
  "numeric24_6 x = (if \<bar>numeric6 x\<bar> < 10 ^ 18 then Inr (numeric6 x) else Inl OverflowError)"

subsection \<open>Integer roots\<close>

text \<open>The integer \<open>k\<close>-th root of \<open>n\<close>, found bit by bit from bit \<open>b\<close> down.\<close>

fun root_bits :: "nat \<Rightarrow> nat \<Rightarrow> nat \<Rightarrow> nat \<Rightarrow> nat" where
  "root_bits k n r 0 = r"
| "root_bits k n r (Suc b) = root_bits k n (if (r + 2 ^ b) ^ k \<le> n then r + 2 ^ b else r) b"

lemma root_bits_power:
  assumes "r ^ k \<le> n" shows "root_bits k n r b ^ k \<le> n"
  using assms by (induction b arbitrary: r) auto

lemma root_bits_below:
  assumes "n < (r + 2 ^ b) ^ k" shows "n < (root_bits k n r b + 1) ^ k"
  using assms
proof (induction b arbitrary: r)
  case (Suc b)
  show ?case
  proof (cases "(r + 2 ^ b) ^ k \<le> n")
    case True
    with Suc.prems Suc.IH [of "r + 2 ^ b"] show ?thesis by (simp add: mult_2 add.assoc)
  next
    case False
    with Suc.IH [of r] show ?thesis by simp
  qed
qed simp

definition isqrt :: "nat \<Rightarrow> nat \<Rightarrow> nat" where
  "isqrt b n = root_bits 2 n 0 b"

lemma isqrt_bounds:
  assumes "n < 2 ^ (2 * b)"
  shows "isqrt b n ^ 2 \<le> n" "n < (isqrt b n + 1) ^ 2"
  unfolding isqrt_def
  by (rule root_bits_power, simp)
    (rule root_bits_below, use assms in \<open>simp add: power_even_eq mult.commute flip: power_mult\<close>)

end
