(* ===== verification/Decimal_Arith.thy ===== *)
theory Decimal_Arith
  imports Prelude
begin

text \<open>
  Python's \<open>decimal\<close> arithmetic, by value: an operation is exact and then rounded half-even to the
  context's precision in significant digits (28 in the default context, 40 in the local contexts
  of \<open>keno.py\<close>). The exponent range is not modelled. \<open>quantize\<close> to the cent raises
  \<open>InvalidOperation\<close> when the result needs more digits than the context has.
\<close>

abbreviation pow10 :: "int \<Rightarrow> rat" where
  "pow10 k \<equiv> 10 powi k"

text \<open>The number of decimal digits of a natural number, and the exponent of a number's leading digit.\<close>

fun ndigits :: "nat \<Rightarrow> nat" where
  "ndigits n = (if n < 10 then 1 else Suc (ndigits (n div 10)))"

declare ndigits.simps [simp del]

definition adjusted :: "rat \<Rightarrow> int" where
  "adjusted x =
     (let (n, d) = quotient_of \<bar>x\<bar>; k = int (ndigits (nat n)) - int (ndigits (nat d))
      in if pow10 k \<le> \<bar>x\<bar> then k else k - 1)"

definition half_even :: "rat \<Rightarrow> int" where
  "half_even x =
     (let f = \<lfloor>x\<rfloor>; d = x - of_int f
      in if d < 1/2 then f else if 1/2 < d then f + 1 else if even f then f else f + 1)"

definition ctx_round :: "nat \<Rightarrow> rat \<Rightarrow> rat" where
  "ctx_round p x =
     (if x = 0 then 0
      else let u = pow10 (adjusted x - int p + 1) in of_int (half_even (x / u)) * u)"

definition dadd :: "rat \<Rightarrow> rat \<Rightarrow> rat" where "dadd x y = ctx_round 28 (x + y)"
definition dsub :: "rat \<Rightarrow> rat \<Rightarrow> rat" where "dsub x y = ctx_round 28 (x - y)"
definition dmul :: "rat \<Rightarrow> rat \<Rightarrow> rat" where "dmul x y = ctx_round 28 (x * y)"
definition ddiv :: "rat \<Rightarrow> rat \<Rightarrow> rat" where "ddiv x y = ctx_round 28 (x / y)"
definition dneg :: "rat \<Rightarrow> rat" where "dneg x = ctx_round 28 (- x)"

definition trunc :: "rat \<Rightarrow> int" where
  "trunc x = (if 0 \<le> x then \<lfloor>x\<rfloor> else \<lceil>x\<rceil>)"

text \<open>\<open>x.quantize(Decimal("0.01"), rounding=ROUND_DOWN)\<close> and, half-even, \<open>x.quantize(Decimal("0.01"))\<close>.\<close>

definition quantize_with :: "(rat \<Rightarrow> int) \<Rightarrow> rat \<Rightarrow> money result" where
  "quantize_with rnd x =
     (let k = rnd (x * 100) in if 10 ^ 28 \<le> \<bar>k\<bar> then Inl InvalidOperation else Inr (of_int k / 100))"

definition quantize_down :: "rat \<Rightarrow> money result" where
  "quantize_down = quantize_with trunc"

definition quantize_cent :: "rat \<Rightarrow> money result" where
  "quantize_cent = quantize_with half_even"

definition quantize_basis :: "rat \<Rightarrow> rat result" where
  "quantize_basis x =
     (let k = half_even (x * 10 ^ 4) in if 10 ^ 28 \<le> \<bar>k\<bar> then Inl InvalidOperation else Inr (of_int k / 10 ^ 4))"

text \<open>\<open>x.sqrt()\<close> of a positive number in a context of \<open>p\<close> digits, rounded half-even.\<close>

definition sqrt_unit :: "nat \<Rightarrow> rat \<Rightarrow> rat" where
  "sqrt_unit p x = pow10 (adjusted x div 2 - int p + 1)"

definition dec_sqrt :: "nat \<Rightarrow> rat \<Rightarrow> rat" where
  "dec_sqrt p x =
     (let u = sqrt_unit p x; q = x / (u * u); n = isqrt (4 * p) (nat \<lfloor>q\<rfloor>); h = (of_nat n + 1/2) ^ 2;
          r = (if q < h then n else if h < q then n + 1 else if even n then n else n + 1)
      in of_nat r * u)"

subsection \<open>Evaluation\<close>

text \<open>Code equations on integers for the functions above that count on naturals, so that examples can be evaluated.\<close>

function int_digits :: "int \<Rightarrow> int" where
  "int_digits n = (if n < 10 then 1 else int_digits (n div 10) + 1)"
  by auto
termination by (relation "measure nat") auto

declare int_digits.simps [simp del]

lemma int_digits_ndigits: "int (ndigits (nat n)) = int_digits n"
proof (induction n rule: int_digits.induct)
  case (1 n)
  show ?case
  proof (cases "n < 10")
    case False
    have "nat n div 10 = nat (n div 10)" using False by (simp add: nat_div_distrib)
    moreover have "\<not> nat n < 10" using False by simp
    ultimately show ?thesis using 1 False by (simp add: ndigits.simps [of "nat n"] int_digits.simps [of n])
  next
    case True
    then have "nat n < 10" by linarith
    then show ?thesis using True by (simp add: ndigits.simps [of "nat n"] int_digits.simps [of n])
  qed
qed

lemma adjusted_code [code]:
  "adjusted x = (let (n, d) = quotient_of \<bar>x\<bar>; k = int_digits n - int_digits d in if pow10 k \<le> \<bar>x\<bar> then k else k - 1)"
  by (simp add: adjusted_def int_digits_ndigits)

fun int_root_bits :: "int \<Rightarrow> int \<Rightarrow> nat \<Rightarrow> int" where
  "int_root_bits n r 0 = r"
| "int_root_bits n r (Suc b) = (let s = r + 2 ^ b in int_root_bits n (if s * s \<le> n then s else r) b)"

lemma int_root_bits: "int (root_bits 2 n r b) = int_root_bits (int n) (int r) b"
proof (induction b arbitrary: r)
  case (Suc b)
  have "(r + 2 ^ b) ^ 2 \<le> n \<longleftrightarrow> (int r + 2 ^ b) * (int r + 2 ^ b) \<le> int n"
    unfolding of_nat_le_iff [where 'a = int, symmetric] by (simp add: power2_eq_square)
  then show ?case using Suc by (simp add: Let_def)
qed simp

lemma dec_sqrt_code [code]:
  "dec_sqrt p x =
     (let u = sqrt_unit p x; q = x / (u * u); n = int_root_bits (max 0 \<lfloor>q\<rfloor>) 0 (4 * p); h = (of_int n + 1/2) ^ 2;
          r = (if q < h then n else if h < q then n + 1 else if even n then n else n + 1)
      in of_int r * u)"
proof -
  have n: "int_root_bits (max 0 k) 0 b = int (isqrt b (nat k))" for k b
    using int_root_bits [of "nat k" 0 b] by (simp add: isqrt_def max.commute)
  show ?thesis unfolding dec_sqrt_def n Let_def by simp
qed

subsection \<open>Exactness and error of a rounding\<close>

lemma ndigits_bounds: "n < 10 ^ ndigits n \<and> (n \<noteq> 0 \<longrightarrow> 10 ^ (ndigits n - 1) \<le> n)"
proof (induction n rule: ndigits.induct)
  case (1 n)
  show ?case
  proof (cases "n < 10")
    case True
    then show ?thesis by (subst (1 2) ndigits.simps) simp
  next
    case False
    with 1 have ih: "n div 10 < 10 ^ ndigits (n div 10)" "10 ^ (ndigits (n div 10) - 1) \<le> n div 10"
      by auto
    have p: "0 < ndigits (n div 10)" by (subst ndigits.simps) simp
    then have "(10::nat) ^ ndigits (n div 10) = 10 * 10 ^ (ndigits (n div 10) - 1)"
      by (metis Suc_diff_1 power_Suc)
    then have "10 ^ ndigits (n div 10) \<le> n" using ih(2) by linarith
    moreover have "n < 10 * 10 ^ ndigits (n div 10)" using ih(1) by linarith
    ultimately show ?thesis using False by (subst (1 2) ndigits.simps) simp
  qed
qed

lemma pow10_pos [simp]: "0 < pow10 k"
  by simp

lemma pow10_add: "pow10 (a + b) = pow10 a * pow10 b"
  by (rule power_int_add) simp

lemma pow10_diff: "pow10 (a - b) = pow10 a / pow10 b"
  by (rule power_int_diff) simp

lemma pow10_of_nat: "pow10 (int n) = 10 ^ n"
  by simp

lemma pow10_27: "pow10 (1 - int 28) = 1 / 10 ^ 27"
proof -
  have "1 - int 28 = - int 27" by simp
  then show ?thesis by (simp only: power_int_minus pow10_of_nat divide_inverse mult_1)
qed

lemma pow10_less_imp: "pow10 a < pow10 b \<Longrightarrow> a < b"
  by (metis linorder_not_less one_le_numeral power_int_increasing)

text \<open>The leading digit's exponent is at most the one of any power of ten below the number.\<close>

lemma adjusted_le: assumes "x \<noteq> 0" shows "pow10 (adjusted x) \<le> \<bar>x\<bar>"
proof -
  obtain n d where q: "quotient_of \<bar>x\<bar> = (n, d)" by fastforce
  have d: "0 < d" using q by (rule quotient_of_denom_pos)
  have xd: "\<bar>x\<bar> = of_int n / of_int d" using q by (rule quotient_of_div)
  with assms d have n: "0 < n" by (metis abs_le_zero_iff divide_nonpos_pos of_int_0_less_iff of_int_le_0_iff linorder_not_le)
  define k where "k = int (ndigits (nat n)) - int (ndigits (nat d))"
  have adj: "adjusted x = (if pow10 k \<le> \<bar>x\<bar> then k else k - 1)"
    by (simp add: adjusted_def q k_def)
  have p: "0 < ndigits (nat n)" by (subst ndigits.simps) simp
  have "10 ^ (ndigits (nat n) - 1) \<le> nat n" using ndigits_bounds [of "nat n"] n by simp
  then have n': "(10::rat) ^ (ndigits (nat n) - 1) \<le> of_int n"
    by (metis (mono_tags) n nat_0_le less_imp_le of_int_of_nat_eq of_nat_le_iff of_nat_numeral of_nat_power)
  have "nat d < 10 ^ ndigits (nat d)" using ndigits_bounds [of "nat d"] by simp
  then have d': "of_int d \<le> (10::rat) ^ ndigits (nat d)"
    by (metis d nat_0_le less_imp_le of_int_of_nat_eq of_nat_le_iff of_nat_numeral of_nat_power)
  have "pow10 (k - 1) = 10 ^ (ndigits (nat n) - 1) / 10 ^ ndigits (nat d)"
  proof -
    have "k - 1 = int (ndigits (nat n) - 1) - int (ndigits (nat d))" using p by (simp add: k_def)
    then show ?thesis by (simp only: pow10_diff pow10_of_nat)
  qed
  also have "\<dots> \<le> of_int n / of_int d"
    using n' d' d n by (intro frac_le) auto
  finally show ?thesis using adj xd by simp
qed

lemma half_even_of_int [simp]: "half_even (of_int k) = k"
  by (simp add: half_even_def)

lemma half_even_error: "\<bar>of_int (half_even x) - x\<bar> \<le> 1/2"
proof -
  have "of_int \<lfloor>x\<rfloor> \<le> x" "x < of_int \<lfloor>x\<rfloor> + 1" by linarith+
  then show ?thesis by (simp add: half_even_def Let_def abs_if) linarith
qed

lemma half_even_nonneg: "0 \<le> x \<Longrightarrow> 0 \<le> half_even x"
  by (simp add: half_even_def Let_def)

lemma ctx_round_nonneg: "0 \<le> x \<Longrightarrow> 0 \<le> ctx_round p x"
  by (simp add: ctx_round_def Let_def half_even_nonneg)

lemma ctx_round_0 [simp]: "ctx_round p 0 = 0"
  by (simp add: ctx_round_def)

text \<open>A value of at most \<open>p\<close> digits is a fixed point of the rounding.\<close>

lemma ctx_round_exact:
  assumes x: "x = of_int m / 10 ^ j" and m: "\<bar>m\<bar> < 10 ^ p"
  shows "ctx_round p x = x"
proof (cases "x = 0")
  case False
  define u where "u = pow10 (adjusted x - int p + 1)"
  have "pow10 (adjusted x) \<le> \<bar>x\<bar>" using False by (rule adjusted_le)
  also have "\<bar>x\<bar> < pow10 (int p - int j)"
  proof -
    have "(of_int \<bar>m\<bar> :: rat) < of_int (10 ^ p)" using m by (simp only: of_int_less_iff)
    then show ?thesis by (simp add: x pow10_diff divide_strict_right_mono)
  qed
  finally have "adjusted x < int p - int j" by (rule pow10_less_imp)
  then obtain i where i: "- int j = adjusted x - int p + 1 + int i"
    by (metis add.commute diff_add_cancel zle_iff_zadd zless_imp_add1_zle add_diff_eq diff_diff_eq2 diff_0 minus_diff_eq uminus_add_conv_diff)
  have "1 / 10 ^ j = pow10 (- int j)" by (simp add: power_int_minus divide_inverse)
  also have "\<dots> = u * 10 ^ i" unfolding i u_def by (simp add: pow10_add)
  finally have "x = of_int (m * 10 ^ i) * u" by (simp add: x divide_inverse)
  moreover have "u \<noteq> 0" by (simp add: u_def)
  ultimately have "x / u = of_int (m * 10 ^ i)" by (metis nonzero_mult_div_cancel_right)
  then have "ctx_round p x = of_int (m * 10 ^ i) * u"
    using False by (simp only: ctx_round_def Let_def u_def [symmetric] half_even_of_int if_False)
  then show ?thesis using \<open>x = of_int (m * 10 ^ i) * u\<close> by simp
qed simp

text \<open>The relative error of a rounding to \<open>p\<close> digits.\<close>

lemma ctx_round_error: "\<bar>ctx_round p x - x\<bar> \<le> \<bar>x\<bar> * pow10 (1 - int p) / 2"
proof (cases "x = 0")
  case False
  define u where "u = pow10 (adjusted x - int p + 1)"
  have u: "0 < u" by (simp add: u_def)
  have "u = pow10 (adjusted x) * pow10 (1 - int p)"
    by (simp add: u_def flip: pow10_add) (simp add: algebra_simps)
  also have "\<dots> \<le> \<bar>x\<bar> * pow10 (1 - int p)"
    using adjusted_le [OF False] by (intro mult_right_mono) auto
  finally have ux: "u \<le> \<bar>x\<bar> * pow10 (1 - int p)" .
  have "ctx_round p x = of_int (half_even (x / u)) * u"
    using False by (simp only: ctx_round_def Let_def u_def if_False)
  then have "ctx_round p x - x = (of_int (half_even (x / u)) - x / u) * u"
    using u by (simp add: algebra_simps)
  then have "\<bar>ctx_round p x - x\<bar> = \<bar>of_int (half_even (x / u)) - x / u\<bar> * u"
    using u by (simp add: abs_mult)
  also have "\<dots> \<le> 1/2 * u"
    using u half_even_error by (intro mult_right_mono) auto
  finally show ?thesis using ux by simp
qed simp

text \<open>Arithmetic on whole-cent amounts of money size is exact in the default context.\<close>

lemma ctx_round_cents:
  assumes "whole_cents x" "\<bar>x\<bar> < 10 ^ 26" shows "ctx_round 28 x = x"
proof -
  obtain k where k: "x = of_int k / 100" using assms(1) by (rule whole_centsE)
  have "of_int \<bar>k\<bar> < (of_int (10 ^ 28) :: rat)" using assms(2) by (simp add: k)
  then have "\<bar>k\<bar> < 10 ^ 28" by (simp only: of_int_less_iff)
  then show ?thesis by (intro ctx_round_exact [of _ k 2]) (simp add: k)
qed

lemma quantize_with_Inr:
  "quantize_with rnd x = Inr y \<longleftrightarrow> \<bar>rnd (x * 100)\<bar> < 10 ^ 28 \<and> y = of_int (rnd (x * 100)) / 100"
  by (auto simp: quantize_with_def Let_def)

lemma quantize_whole_cents: "quantize_with rnd x = Inr y \<Longrightarrow> whole_cents y"
  by (metis quantize_with_Inr whole_cents_cent)

lemma quantize_down_Inr: "0 \<le> x \<Longrightarrow> quantize_down x = Inr y \<longleftrightarrow> \<lfloor>x * 100\<rfloor> < 10 ^ 28 \<and> y = of_int \<lfloor>x * 100\<rfloor> / 100"
  by (simp add: quantize_down_def quantize_with_Inr trunc_def)

subsection \<open>Square roots\<close>

lemma adjusted_less: assumes "x \<noteq> 0" shows "\<bar>x\<bar> < pow10 (adjusted x + 1)"
proof -
  obtain n d where q: "quotient_of \<bar>x\<bar> = (n, d)" by fastforce
  have d: "0 < d" using q by (rule quotient_of_denom_pos)
  have xd: "\<bar>x\<bar> = of_int n / of_int d" using q by (rule quotient_of_div)
  with assms d have n: "0 < n" by (metis abs_le_zero_iff divide_nonpos_pos of_int_0_less_iff of_int_le_0_iff linorder_not_le)
  define k where "k = int (ndigits (nat n)) - int (ndigits (nat d))"
  have adj: "adjusted x = (if pow10 k \<le> \<bar>x\<bar> then k else k - 1)"
    by (simp add: adjusted_def q k_def)
  have p: "0 < ndigits (nat d)" by (subst ndigits.simps) simp
  have "nat n < 10 ^ ndigits (nat n)" using ndigits_bounds [of "nat n"] by simp
  then have "of_nat (nat n) < (of_nat (10 ^ ndigits (nat n)) :: rat)" by (simp only: of_nat_less_iff)
  then have n': "of_int n < (10::rat) ^ ndigits (nat n)" using n by simp
  have "10 ^ (ndigits (nat d) - 1) \<le> nat d" using ndigits_bounds [of "nat d"] d by simp
  then have "(of_nat (10 ^ (ndigits (nat d) - 1)) :: rat) \<le> of_nat (nat d)" by (simp only: of_nat_le_iff)
  then have d': "(10::rat) ^ (ndigits (nat d) - 1) \<le> of_int d" using d by simp
  have "\<bar>x\<bar> < 10 ^ ndigits (nat n) / 10 ^ (ndigits (nat d) - 1)"
    unfolding xd using n' d' n by (intro frac_less) auto
  also have "\<dots> = pow10 (k + 1)"
  proof -
    have "k + 1 = int (ndigits (nat n)) - int (ndigits (nat d) - 1)" using p by (simp add: k_def)
    then show ?thesis by (simp only: pow10_diff pow10_of_nat)
  qed
  finally show ?thesis using adj by (auto split: if_splits)
qed

lemma sqrt_unit_pos [simp]: "0 < sqrt_unit p x"
  by (simp add: sqrt_unit_def)

text \<open>The argument, in units of the result's last place, has at least \<open>2 p - 1\<close> digits and at most \<open>2 p\<close>.\<close>

lemma sqrt_scaled:
  assumes "0 < x" "0 < p"
  shows "10 ^ (2 * p - 2) \<le> x / (sqrt_unit p x * sqrt_unit p x)" "x / (sqrt_unit p x * sqrt_unit p x) < 10 ^ (2 * p)"
proof -
  define e where "e = adjusted x"
  have x: "pow10 e \<le> x" "x < pow10 (e + 1)"
    using adjusted_le [of x] adjusted_less [of x] assms by (auto simp: e_def)
  have uu: "sqrt_unit p x * sqrt_unit p x = pow10 (2 * (e div 2) - int (2 * p - 2))"
  proof -
    have "2 * (e div 2) - int (2 * p - 2) = (e div 2 - int p + 1) + (e div 2 - int p + 1)" using assms(2) by simp
    then show ?thesis unfolding sqrt_unit_def e_def [symmetric] by (simp only: pow10_add)
  qed
  have "pow10 (2 * (e div 2)) \<le> x"
    by (rule order_trans [OF power_int_increasing x(1)]) auto
  then show "10 ^ (2 * p - 2) \<le> x / (sqrt_unit p x * sqrt_unit p x)"
    unfolding uu pow10_diff pow10_of_nat by (simp add: le_divide_eq mult.commute)
  have "pow10 (e + 1) \<le> pow10 (2 * (e div 2) + 2)"
    by (rule power_int_increasing) (use mult_div_mod_eq [of 2 e] in presburger, simp)
  with x(2) have "x < pow10 (2 * (e div 2) + 2)" by simp
  also have "\<dots> = 10 ^ (2 * p) * pow10 (2 * (e div 2) - int (2 * p - 2))"
  proof -
    have "2 * (e div 2) + 2 = int (2 * p) + (2 * (e div 2) - int (2 * p - 2))" using assms(2) by simp
    then show ?thesis by (simp only: pow10_add pow10_of_nat)
  qed
  finally show "x / (sqrt_unit p x * sqrt_unit p x) < 10 ^ (2 * p)"
    unfolding uu by (simp add: divide_less_eq)
qed

text \<open>A square root is off by at most half a unit of its last place.\<close>

lemma dec_sqrt_bounds:
  assumes x: "0 < x" and p: "0 < p"
  obtains r where "dec_sqrt p x = of_nat r * sqrt_unit p x" "10 ^ (p - 1) \<le> r"
    "((of_nat r - 1/2) * sqrt_unit p x) ^ 2 \<le> x" "x \<le> ((of_nat r + 1/2) * sqrt_unit p x) ^ 2"
proof -
  define u where "u = sqrt_unit p x"
  define q where "q = x / (u * u)"
  define n where "n = isqrt (4 * p) (nat \<lfloor>q\<rfloor>)"
  have u: "0 < u" by (simp add: u_def)
  have q: "10 ^ (2 * p - 2) \<le> q" "q < 10 ^ (2 * p)" using sqrt_scaled [OF x p] by (simp_all add: q_def u_def)
  have q0: "0 < q" using x u by (simp add: q_def)
  have fq: "of_nat (nat \<lfloor>q\<rfloor>) \<le> q" "q < of_nat (nat \<lfloor>q\<rfloor>) + 1" using q0 by (simp_all add: of_nat_nat, linarith)
  have "(of_nat (nat \<lfloor>q\<rfloor>) :: rat) < of_nat (10 ^ (2 * p))"
    by (rule le_less_trans [OF fq(1)]) (use q(2) in simp)
  then have "nat \<lfloor>q\<rfloor> < 10 ^ (2 * p)" by (simp only: of_nat_less_iff)
  also have "(10::nat) ^ (2 * p) = 100 ^ p" by (simp add: power_mult)
  also have "\<dots> \<le> 256 ^ p" by (rule power_mono) auto
  also have "\<dots> = 2 ^ (2 * (4 * p))" by (simp add: power_mult)
  finally have n: "n ^ 2 \<le> nat \<lfloor>q\<rfloor>" "nat \<lfloor>q\<rfloor> < (n + 1) ^ 2"
    unfolding n_def by (rule isqrt_bounds)+
  have "(of_nat (n ^ 2) :: rat) \<le> of_nat (nat \<lfloor>q\<rfloor>)" "(of_nat (nat \<lfloor>q\<rfloor> + 1) :: rat) \<le> of_nat ((n + 1) ^ 2)"
    using n by (simp_all only: of_nat_le_iff)
  then have nq: "of_nat n ^ 2 \<le> q" "q < (of_nat n + 1) ^ 2" using fq by (simp_all add: add.commute)
  have low: "10 ^ (p - 1) \<le> n"
  proof -
    have "((10::rat) ^ (p - 1)) ^ 2 = 10 ^ (2 * p - 2)" by (simp add: power_mult [symmetric] diff_mult_distrib)
    also have "\<dots> \<le> q" by (rule q(1))
    finally have "((10::rat) ^ (p - 1)) ^ 2 < (of_nat n + 1) ^ 2" using nq(2) by simp
    then have "(10::rat) ^ (p - 1) < of_nat n + 1" by (rule power_less_imp_less_base) simp
    then have "(of_nat (10 ^ (p - 1)) :: rat) < of_nat (n + 1)" by simp
    then show ?thesis by (simp only: of_nat_less_iff)
  qed
  have "1 \<le> (10::nat) ^ (p - 1)" by simp
  with low have "1 \<le> n" by (rule order_trans [rotated])
  then have n1: "1 \<le> (of_nat n :: rat)" by simp
  define h :: rat where "h = (of_nat n + 1/2) ^ 2"
  define r where "r = (if q < h then n else if h < q then n + 1 else if even n then n else n + 1)"
  have eq: "dec_sqrt p x = of_nat r * u"
    by (simp add: dec_sqrt_def Let_def u_def q_def n_def h_def r_def)
  have mono: "a \<le> b \<Longrightarrow> 0 \<le> a \<Longrightarrow> a ^ 2 \<le> b ^ 2" for a b :: rat by (rule power_mono)
  have m: "(of_nat n - 1/2 :: rat) ^ 2 \<le> of_nat n ^ 2" "(of_nat n + 1 :: rat) ^ 2 \<le> (of_nat n + 3/2) ^ 2"
      "of_nat n ^ 2 \<le> h" "h \<le> (of_nat n + 1) ^ 2"
    unfolding h_def using n1 by (intro mono; linarith)+
  have r: "(of_nat r - 1/2) ^ 2 \<le> q" "q \<le> (of_nat r + 1/2) ^ 2"
  proof -
    have "r = n \<and> q \<le> h \<or> r = n + 1 \<and> h \<le> q" by (auto simp: r_def)
    then show "(of_nat r - 1/2) ^ 2 \<le> q" "q \<le> (of_nat r + 1/2) ^ 2"
    proof (atomize (full), elim disjE conjE, goal_cases)
      case 1
      have "(of_nat n - 1/2) ^ 2 \<le> q" using m(1) nq(1) by (rule order_trans)
      with 1 show ?case by (simp add: h_def)
    next
      case 2
      have e: "of_nat r - 1/2 = (of_nat n + 1/2 :: rat)" "of_nat r + 1/2 = (of_nat n + 3/2 :: rat)" using 2 by simp_all
      have "q \<le> (of_nat n + 3/2) ^ 2" using nq(2) m(2) by linarith
      with 2 show ?case unfolding e by (simp add: h_def)
    qed
  qed
  have xq: "x = q * u ^ 2" using u by (simp add: q_def power2_eq_square)
  show ?thesis
  proof (rule that)
    show "dec_sqrt p x = of_nat r * sqrt_unit p x" using eq by (simp add: u_def)
    show "10 ^ (p - 1) \<le> r" using low by (simp add: r_def)
    show "((of_nat r - 1/2) * sqrt_unit p x) ^ 2 \<le> x" "x \<le> ((of_nat r + 1/2) * sqrt_unit p x) ^ 2"
      using r u unfolding u_def [symmetric] power_mult_distrib by (simp_all add: xq mult_right_mono)
  qed
qed

end
