(* ===== verification/Ledger.thy ===== *)
theory Ledger
  imports Decimal_Arith
begin

text \<open>
  The double-entry ledger, \<open>packages/core/ledger.py\<close>, over the tables of the migrations
  \<open>81d041ff4513_ledger_foundation\<close> and \<open>b8e4a1f0c3d7_ledger_append_only\<close>. A table is a list of rows in
  the order of insertion; the balance cache is a map on account ids. The ids of these tables are
  never reused and no row of them is deleted, so the next id is one more than the number of rows
  (the gaps a real sequence leaves are not modelled). Row locks are not modelled: an operation is
  one step on the tables.
\<close>

subsection \<open>Tables\<close>

definition USER_BALANCE_KINDS :: "string set" where
  "USER_BALANCE_KINDS = {''user_cash'', ''user_bonus'', ''user_locked''}"

record account =
  acc_id :: int
  acc_user :: "int option"
  acc_kind :: string
  acc_currency :: string

record entry =
  ent_account :: int
  ent_amount :: money

record ledger_txn =
  txn_id :: int
  txn_kind :: string
  txn_key :: string
  txn_round :: "int option"
  txn_payment :: "int option"
  txn_created_by :: string
  txn_memo :: "string option"

record entry_row =
  er_id :: int
  er_txn :: int
  er_account :: int
  er_amount :: money
  er_created_at :: int

record balance_row =
  bal_kind :: string
  bal_balance :: money
  bal_last_entry :: "int option"

record ledger =
  accounts :: "account list"
  balances :: "int \<rightharpoonup> balance_row"
  txns :: "ledger_txn list"
  entry_rows :: "entry_row list"

definition empty_ledger :: ledger where
  "empty_ledger = \<lparr>accounts = [], balances = Map.empty, txns = [], entry_rows = []\<rparr>"

subsection \<open>Accounts\<close>

definition find_account :: "ledger \<Rightarrow> int option \<Rightarrow> string \<Rightarrow> string \<Rightarrow> account option" where
  "find_account l user kind currency =
     find (\<lambda>a. acc_user a = user \<and> acc_kind a = kind \<and> acc_currency a = currency) (accounts l)"

definition account_by_id :: "ledger \<Rightarrow> int \<Rightarrow> account option" where
  "account_by_id l i = find (\<lambda>a. acc_id a = i) (accounts l)"

text \<open>Insert, and on a conflict select; both branches of the code (system and user account) do this.\<close>

definition get_or_create_account :: "ledger \<Rightarrow> int option \<Rightarrow> string \<Rightarrow> string \<Rightarrow> account \<times> ledger" where
  "get_or_create_account l user kind currency =
     (case find_account l user kind currency of
        Some a \<Rightarrow> (a, l)
      | None \<Rightarrow>
          (let a = \<lparr>acc_id = int (length (accounts l)) + 1, acc_user = user, acc_kind = kind,
                    acc_currency = currency\<rparr>
           in (a, l\<lparr>accounts := accounts l @ [a]\<rparr>)))"

subsection \<open>Posting\<close>

definition find_txn :: "ledger \<Rightarrow> string \<Rightarrow> ledger_txn option" where
  "find_txn l key = find (\<lambda>t. txn_key t = key) (txns l)"

text \<open>The balance row of an account, created at zero the first time it is locked.\<close>

definition lock_balance :: "int \<Rightarrow> ledger \<Rightarrow> ledger result" where
  "lock_balance a l =
     (case balances l a of
        Some b \<Rightarrow> Inr l
      | None \<Rightarrow>
          (case account_by_id l a of
             None \<Rightarrow> Inl AssertionError
           | Some acct \<Rightarrow>
               Inr (l\<lparr>balances := (balances l)(a \<mapsto>
                 \<lparr>bal_kind = acc_kind acct, bal_balance = 0, bal_last_entry = None\<rparr>)\<rparr>)))"

text \<open>The \<open>deltas\<close> dict: one item per account, in the order of its first entry.\<close>

fun add_delta :: "entry \<Rightarrow> (int \<times> money) list \<Rightarrow> (int \<times> money) list" where
  "add_delta e [] = [(ent_account e, ent_amount e)]"
| "add_delta e ((a, d) # ds) =
     (if a = ent_account e then (a, d + ent_amount e) # ds else (a, d) # add_delta e ds)"

definition deltas_of :: "entry list \<Rightarrow> (int \<times> money) list" where
  "deltas_of es = fold add_delta es []"

definition check_delta :: "ledger \<Rightarrow> int \<times> money \<Rightarrow> unit \<Rightarrow> unit result" where
  "check_delta l = (\<lambda>(a, d) _.
     (case balances l a of
        None \<Rightarrow> Inl KeyError
      | Some b \<Rightarrow>
          (let new_balance = bal_balance b + d
           in if bal_kind b \<in> USER_BALANCE_KINDS \<and> new_balance < 0
              then Inl (InsufficientFunds a new_balance) else Inr ())))"

definition entry_rows_of :: "int \<Rightarrow> int \<Rightarrow> nat \<Rightarrow> entry list \<Rightarrow> entry_row list" where
  "entry_rows_of now tid n es =
     map (\<lambda>(i, e). \<lparr>er_id = int i + 1, er_txn = tid, er_account = ent_account e,
                    er_amount = numeric2 (ent_amount e), er_created_at = now\<rparr>) (enumerate n es)"

text \<open>\<open>UPDATE account_balances\<close>, with its \<open>chk_nonneg_user_balance\<close> constraint.\<close>

definition apply_delta :: "int option \<Rightarrow> int \<times> money \<Rightarrow> ledger \<Rightarrow> ledger result" where
  "apply_delta last_id = (\<lambda>(a, d) l.
     (case balances l a of
        None \<Rightarrow> Inr l
      | Some b \<Rightarrow>
          (let nb = numeric2 (bal_balance b + d)
           in if bal_kind b \<in> USER_BALANCE_KINDS \<and> nb < 0 then Inl CheckViolation
              else Inr (l\<lparr>balances := (balances l)(a \<mapsto> b\<lparr>bal_balance := nb, bal_last_entry := last_id\<rparr>)\<rparr>))))"

definition replay_conflict :: "ledger_txn \<Rightarrow> string \<Rightarrow> int option \<Rightarrow> int option \<Rightarrow> bool" where
  "replay_conflict existing kind round_id payment_id \<longleftrightarrow>
     txn_kind existing \<noteq> kind
     \<or> round_id \<noteq> None \<and> txn_round existing \<noteq> round_id
     \<or> payment_id \<noteq> None \<and> txn_payment existing \<noteq> payment_id"

record post_args =
  pa_kind :: string
  pa_entries :: "entry list"
  pa_key :: string
  pa_round :: "int option"
  pa_payment :: "int option"
  pa_memo :: "string option"
  pa_by :: string

definition post_fresh :: "int \<Rightarrow> post_args \<Rightarrow> ledger \<Rightarrow> (ledger_txn \<times> ledger) result" where
  "post_fresh now p l =
     (let t = \<lparr>txn_id = int (length (txns l)) + 1, txn_kind = pa_kind p, txn_key = pa_key p,
               txn_round = pa_round p, txn_payment = pa_payment p,
               txn_created_by = pa_by p, txn_memo = pa_memo p\<rparr>;
          es = pa_entries p;
          deltas = deltas_of es
      in bind_result (fold_result lock_balance (sort (remdups (map ent_account es))) (l\<lparr>txns := txns l @ [t]\<rparr>)) (\<lambda>l1.
         bind_result (fold_result (check_delta l1) deltas ()) (\<lambda>_.
         let l2 = l1\<lparr>entry_rows := entry_rows l1 @ entry_rows_of now (txn_id t) (length (entry_rows l1)) es\<rparr>;
             last_id = Some (int (length (entry_rows l2)))
         in bind_result (fold_result (apply_delta last_id) deltas l2) (\<lambda>l3. Inr (t, l3)))))"

definition post :: "int \<Rightarrow> post_args \<Rightarrow> ledger \<Rightarrow> (ledger_txn \<times> ledger) result" where
  "post now p l =
     (if pa_entries p = [] then Inl ValueError
      else case find_txn l (pa_key p) of
             Some existing \<Rightarrow>
               (if replay_conflict existing (pa_kind p) (pa_round p) (pa_payment p)
                then Inl (IdempotencyKeyConflict (pa_key p) (txn_kind existing) (pa_kind p))
                else Inr (existing, l))
           | None \<Rightarrow> post_fresh now p l)"

text \<open>
  The deferred constraint trigger \<open>check_ledger_transaction_balance\<close>, which runs for every entry
  inserted since the transaction began (\<open>old\<close>) when it commits.
\<close>

definition txn_sum :: "ledger \<Rightarrow> int \<Rightarrow> money" where
  "txn_sum l tid = sum_list (map er_amount (filter (\<lambda>r. er_txn r = tid) (entry_rows l)))"

definition commit :: "ledger \<Rightarrow> ledger \<Rightarrow> ledger result" where
  "commit old l =
     (case find (\<lambda>r. txn_sum l (er_txn r) \<noteq> 0) (drop (length (entry_rows old)) (entry_rows l)) of
        Some r \<Rightarrow> Inl (TriggerViolation (er_txn r))
      | None \<Rightarrow> Inr l)"

subsection \<open>Reading\<close>

definition raw_balance :: "ledger \<Rightarrow> int \<Rightarrow> money" where
  "raw_balance l a = (case balances l a of None \<Rightarrow> 0 | Some b \<Rightarrow> bal_balance b)"

definition ledger_balance :: "ledger \<Rightarrow> int \<Rightarrow> money result" where
  "ledger_balance l a = quantize_cent (raw_balance l a)"

definition sum_of_kinds :: "ledger \<Rightarrow> int \<Rightarrow> string set \<Rightarrow> money" where
  "sum_of_kinds l user kinds =
     sum_list (map (\<lambda>a. raw_balance l (acc_id a))
       (filter (\<lambda>a. acc_user a = Some user \<and> acc_kind a \<in> kinds) (accounts l)))"

definition available :: "ledger \<Rightarrow> int \<Rightarrow> money result" where
  "available l user =
     quantize_cent (sum_of_kinds l user {''user_cash'', ''user_bonus''} - sum_of_kinds l user {''user_locked''})"

definition computed_balance :: "ledger \<Rightarrow> int \<Rightarrow> money" where
  "computed_balance l a = sum_list (map er_amount (filter (\<lambda>r. er_account r = a) (entry_rows l)))"

text \<open>Every row of \<open>account_balances\<close> belongs to a row of \<open>accounts\<close> (its foreign key), which is how it is listed.\<close>

definition reconcile :: "ledger \<Rightarrow> (int \<times> money \<times> money) list" where
  "reconcile l =
     concat (map (\<lambda>a. case balances l (acc_id a) of
         None \<Rightarrow> []
       | Some b \<Rightarrow>
           (let computed = computed_balance l (acc_id a)
            in if bal_balance b \<noteq> computed then [(acc_id a, bal_balance b, computed)] else []))
       (accounts l))"

definition kind_balance :: "ledger \<Rightarrow> int \<Rightarrow> string \<Rightarrow> money result" where
  "kind_balance l user kind =
     (case find (\<lambda>a. acc_user a = Some user \<and> acc_kind a = kind) (accounts l) of
        None \<Rightarrow> Inr 0
      | Some a \<Rightarrow> quantize_cent (raw_balance l (acc_id a)))"

record balance_snapshot =
  snap_cash :: money
  snap_bonus :: money
  snap_locked :: money

definition user_balance_snapshot :: "ledger \<Rightarrow> int \<Rightarrow> balance_snapshot result" where
  "user_balance_snapshot l user =
     bind_result (kind_balance l user ''user_cash'') (\<lambda>cash.
     bind_result (kind_balance l user ''user_bonus'') (\<lambda>bonus.
     bind_result (kind_balance l user ''user_locked'') (\<lambda>locked.
       Inr \<lparr>snap_cash = cash, snap_bonus = bonus, snap_locked = locked\<rparr>)))"

subsection \<open>The invariant\<close>

definition accounts_ok :: "ledger \<Rightarrow> bool" where
  "accounts_ok l \<longleftrightarrow>
     map acc_id (accounts l) = map (\<lambda>i. int i + 1) [0..<length (accounts l)]
     \<and> distinct (map (\<lambda>a. (acc_user a, acc_kind a, acc_currency a)) (accounts l))"

definition txns_ok :: "ledger \<Rightarrow> bool" where
  "txns_ok l \<longleftrightarrow>
     map txn_id (txns l) = map (\<lambda>i. int i + 1) [0..<length (txns l)]
     \<and> distinct (map txn_key (txns l))
     \<and> (\<forall>r\<in>set (entry_rows l). er_txn r \<in> txn_id ` set (txns l))"

definition balances_ok :: "ledger \<Rightarrow> bool" where
  "balances_ok l \<longleftrightarrow>
     (\<forall>a b. balances l a = Some b \<longrightarrow>
        (\<exists>acct. account_by_id l a = Some acct \<and> acc_kind acct = bal_kind b)
        \<and> (bal_kind b \<in> USER_BALANCE_KINDS \<longrightarrow> 0 \<le> bal_balance b))
     \<and> (\<forall>a. raw_balance l a = computed_balance l a)
     \<and> (\<forall>r\<in>set (entry_rows l). whole_cents (er_amount r))"

definition sums_ok :: "ledger \<Rightarrow> bool" where
  "sums_ok l \<longleftrightarrow> (\<forall>tid. txn_sum l tid = 0)"

definition entries_fk :: "ledger \<Rightarrow> bool" where
  "entries_fk l \<longleftrightarrow> (\<forall>r\<in>set (entry_rows l). er_account r \<in> acc_id ` set (accounts l))"

definition ledger_ok :: "ledger \<Rightarrow> bool" where
  "ledger_ok l \<longleftrightarrow> accounts_ok l \<and> txns_ok l \<and> balances_ok l \<and> sums_ok l \<and> entries_fk l"

lemma ledger_ok_empty: "ledger_ok empty_ledger"
  by (simp add: ledger_ok_def accounts_ok_def txns_ok_def balances_ok_def sums_ok_def empty_ledger_def
      entries_fk_def raw_balance_def computed_balance_def txn_sum_def)

subsection \<open>Deltas\<close>

definition delta :: "entry list \<Rightarrow> int \<Rightarrow> money" where
  "delta es a = sum_list (map ent_amount (filter (\<lambda>e. ent_account e = a) es))"

lemma delta_Nil [simp]: "delta [] a = 0"
  and delta_Cons [simp]: "delta (e # es) a = (if ent_account e = a then ent_amount e else 0) + delta es a"
  and delta_append [simp]: "delta (es @ fs) a = delta es a + delta fs a"
  by (simp_all add: delta_def)

lemma delta_notin: "a \<notin> ent_account ` set es \<Longrightarrow> delta es a = 0"
  by (induction es) auto

lemma whole_cents_delta [cents]: "\<forall>e\<in>set es. whole_cents (ent_amount e) \<Longrightarrow> whole_cents (delta es a)"
  unfolding delta_def by (rule whole_cents_sum_list) auto

lemma add_delta_keys: "fst ` set (add_delta e ds) = insert (ent_account e) (fst ` set ds)"
  by (induction e ds rule: add_delta.induct) auto

lemma add_delta_distinct: "distinct (map fst ds) \<Longrightarrow> distinct (map fst (add_delta e ds))"
proof (induction e ds rule: add_delta.induct)
  case (2 e a d ds)
  then show ?case using add_delta_keys [of e ds] by auto
qed simp

lemma map_of_add_delta:
  "map_of (add_delta e ds) a =
     (if a = ent_account e then Some ((case map_of ds a of None \<Rightarrow> 0 | Some x \<Rightarrow> x) + ent_amount e)
      else map_of ds a)"
  by (induction e ds rule: add_delta.induct) auto

lemma deltas_of_snoc: "deltas_of (es @ [e]) = add_delta e (deltas_of es)"
  by (simp add: deltas_of_def)

lemma map_of_deltas_of:
  "map_of (deltas_of es) a = (if a \<in> ent_account ` set es then Some (delta es a) else None)"
proof (induction es rule: rev_induct)
  case (snoc e es)
  then show ?case by (auto simp: deltas_of_snoc map_of_add_delta delta_notin)
qed (simp add: deltas_of_def)

lemma deltas_of_distinct: "distinct (map fst (deltas_of es))"
  by (induction es rule: rev_induct) (auto simp: deltas_of_snoc add_delta_distinct deltas_of_def)

lemma deltas_of_keys: "fst ` set (deltas_of es) = ent_account ` set es"
  by (induction es rule: rev_induct) (auto simp: deltas_of_snoc add_delta_keys deltas_of_def)

lemma deltas_of_value: "(a, d) \<in> set (deltas_of es) \<Longrightarrow> d = delta es a"
  using map_of_is_SomeI [OF deltas_of_distinct] map_of_deltas_of [of es a] by (fastforce split: if_splits)

subsection \<open>What a post does\<close>

definition locked_row :: "ledger \<Rightarrow> int \<Rightarrow> balance_row option" where
  "locked_row l a =
     (case balances l a of
        Some b \<Rightarrow> Some b
      | None \<Rightarrow> map_option (\<lambda>acct. \<lparr>bal_kind = acc_kind acct, bal_balance = 0, bal_last_entry = None\<rparr>)
          (account_by_id l a))"

lemma account_by_id_update [simp]:
  "account_by_id (l\<lparr>txns := ts\<rparr>) = account_by_id l"
  "account_by_id (l\<lparr>balances := bs\<rparr>) = account_by_id l"
  "account_by_id (l\<lparr>entry_rows := rs\<rparr>) = account_by_id l"
  by (auto simp: account_by_id_def)

lemma lock_balance_Inr:
  "lock_balance a l = Inr m \<longleftrightarrow>
     locked_row l a \<noteq> None \<and> m = l\<lparr>balances := (balances l)(a := locked_row l a)\<rparr>"
proof -
  have "balances l a = Some b \<Longrightarrow> l\<lparr>balances := (balances l)(a \<mapsto> b)\<rparr> = l" for b
    by (cases l) (simp add: fun_upd_idem)
  then show ?thesis by (auto simp: lock_balance_def locked_row_def split: option.splits)
qed

lemma fold_lock_balance:
  assumes "fold_result lock_balance as l = Inr l'"
  shows "l' = l\<lparr>balances := (\<lambda>a. if a \<in> set as then locked_row l a else balances l a)\<rparr>
    \<and> (\<forall>a\<in>set as. locked_row l a \<noteq> None)"
  using assms
proof (induction as arbitrary: l)
  case (Cons a as)
  from Cons.prems obtain m where m: "lock_balance a l = Inr m" "fold_result lock_balance as m = Inr l'"
    by (auto simp: bind_result_Inr_iff)
  have m': "m = l\<lparr>balances := (balances l)(a := locked_row l a)\<rparr>" "locked_row l a \<noteq> None"
    using m(1) by (auto simp: lock_balance_Inr)
  have "locked_row m x = locked_row l x" for x
    using m'(2) by (auto simp: m'(1) locked_row_def account_by_id_def split: option.splits)
  then show ?case using Cons.IH [OF m(2)] m' by (auto simp: fun_eq_iff)
qed simp

lemma fold_lock_balance_total:
  "(\<And>a. a \<in> set as \<Longrightarrow> locked_row l a \<noteq> None) \<Longrightarrow>
     \<exists>l'. fold_result lock_balance as l = Inr l'"
proof (induction as arbitrary: l)
  case (Cons a as)
  let ?m = "l\<lparr>balances := (balances l)(a := locked_row l a)\<rparr>"
  have m: "lock_balance a l = Inr ?m" using Cons.prems by (simp add: lock_balance_Inr)
  have "locked_row ?m x = locked_row l x" for x
    using Cons.prems [of a] by (auto simp: locked_row_def account_by_id_def split: option.splits)
  with Cons.IH [of ?m] Cons.prems m show ?case by simp
qed simp

lemma raw_balance_locked_row:
  "(case locked_row l a of None \<Rightarrow> 0 | Some b \<Rightarrow> bal_balance b) = raw_balance l a"
  by (auto simp: locked_row_def raw_balance_def split: option.splits)

lemma fold_check_delta:
  "fold_result (check_delta l) ds () = Inr () \<longleftrightarrow>
     (\<forall>(a, d)\<in>set ds. \<exists>b. balances l a = Some b \<and> (bal_kind b \<in> USER_BALANCE_KINDS \<longrightarrow> 0 \<le> bal_balance b + d))"
  by (induction ds) (auto simp: bind_result_Inr_iff check_delta_def Let_def not_less split: option.splits if_splits)

lemma fold_apply_delta:
  assumes "fold_result (apply_delta n) ds l = Inr l'" "distinct (map fst ds)"
  shows "accounts l' = accounts l \<and> txns l' = txns l \<and> entry_rows l' = entry_rows l
    \<and> (\<forall>a. balances l' a = (case map_of ds a of None \<Rightarrow> balances l a
          | Some d \<Rightarrow> map_option (\<lambda>b. b\<lparr>bal_balance := numeric2 (bal_balance b + d), bal_last_entry := n\<rparr>) (balances l a)))"
  using assms
proof (induction ds arbitrary: l)
  case (Cons x ds)
  obtain a d where x: "x = (a, d)" by force
  from Cons.prems obtain m where m: "apply_delta n (a, d) l = Inr m" "fold_result (apply_delta n) ds m = Inr l'"
    by (auto simp: x bind_result_Inr_iff)
  have one: "accounts m = accounts l \<and> txns m = txns l \<and> entry_rows m = entry_rows l
      \<and> (\<forall>c. balances m c = (if c = a then map_option (\<lambda>b. b\<lparr>bal_balance := numeric2 (bal_balance b + d), bal_last_entry := n\<rparr>) (balances l a)
            else balances l c))"
    using m(1) by (auto simp: apply_delta_def Let_def split: option.splits if_splits)
  have "a \<notin> fst ` set ds" using Cons.prems(2) by (simp add: x)
  then have "map_of ds a = None" by (simp add: map_of_eq_None_iff)
  with Cons.IH [OF m(2)] Cons.prems(2) one show ?case by (auto simp: x split: option.splits)
qed simp

lemma fold_apply_delta_total:
  assumes "\<And>a d b. (a, d) \<in> set ds \<Longrightarrow> balances l a = Some b \<Longrightarrow> bal_kind b \<in> USER_BALANCE_KINDS \<Longrightarrow>
      0 \<le> numeric2 (bal_balance b + d)"
    and "distinct (map fst ds)"
  shows "\<exists>l'. fold_result (apply_delta n) ds l = Inr l'"
  using assms
proof (induction ds arbitrary: l)
  case (Cons x ds)
  obtain a d where x: "x = (a, d)" by force
  show ?case
  proof (cases "balances l a")
    case None
    then have "apply_delta n (a, d) l = Inr l" by (simp add: apply_delta_def)
    with Cons.IH [of l] Cons.prems show ?thesis by (simp add: x) blast
  next
    case (Some b)
    let ?m = "l\<lparr>balances := (balances l)(a \<mapsto> b\<lparr>bal_balance := numeric2 (bal_balance b + d), bal_last_entry := n\<rparr>)\<rparr>"
    have "\<not> (bal_kind b \<in> USER_BALANCE_KINDS \<and> numeric2 (bal_balance b + d) < 0)"
      using Cons.prems(1) [of a d b] Some by (auto simp: x)
    then have m: "apply_delta n (a, d) l = Inr ?m" using Some by (simp add: apply_delta_def Let_def)
    have "\<exists>l'. fold_result (apply_delta n) ds ?m = Inr l'"
    proof (rule Cons.IH)
      fix c e b' assume c: "(c, e) \<in> set ds" "balances ?m c = Some b'" "bal_kind b' \<in> USER_BALANCE_KINDS"
      then have "c \<noteq> a" using Cons.prems(2) by (force simp: x)
      with c show "0 \<le> numeric2 (bal_balance b' + e)" using Cons.prems(1) [of c e b'] by simp
    qed (use Cons.prems in simp)
    with m show ?thesis by (simp add: x)
  qed
qed simp

lemma post_fresh_Inr:
  assumes "post_fresh now p l = Inr (t, l')"
  defines "es \<equiv> pa_entries p"
  shows "t = \<lparr>txn_id = int (length (txns l)) + 1, txn_kind = pa_kind p, txn_key = pa_key p,
      txn_round = pa_round p, txn_payment = pa_payment p, txn_created_by = pa_by p, txn_memo = pa_memo p\<rparr>"
    and "accounts l' = accounts l" and "txns l' = txns l @ [t]"
    and "entry_rows l' = entry_rows l @ entry_rows_of now (txn_id t) (length (entry_rows l)) es"
    and "\<exists>n. \<forall>a. balances l' a = (if a \<in> ent_account ` set es
        then map_option (\<lambda>b. b\<lparr>bal_balance := numeric2 (bal_balance b + delta es a), bal_last_entry := n\<rparr>) (locked_row l a)
        else balances l a)"
    and "\<And>a. a \<in> ent_account ` set es \<Longrightarrow>
       \<exists>b. locked_row l a = Some b \<and> (bal_kind b \<in> USER_BALANCE_KINDS \<longrightarrow> 0 \<le> bal_balance b + delta es a)"
proof -
  define t0 where "t0 = \<lparr>txn_id = int (length (txns l)) + 1, txn_kind = pa_kind p, txn_key = pa_key p,
      txn_round = pa_round p, txn_payment = pa_payment p, txn_created_by = pa_by p, txn_memo = pa_memo p\<rparr>"
  obtain l1 l2 n where
      l1: "fold_result lock_balance (sort (remdups (map ent_account es))) (l\<lparr>txns := txns l @ [t0]\<rparr>) = Inr l1"
    and chk: "fold_result (check_delta l1) (deltas_of es) () = Inr ()"
    and l2: "l2 = l1\<lparr>entry_rows := entry_rows l1 @ entry_rows_of now (txn_id t0) (length (entry_rows l1)) es\<rparr>"
    and l3: "fold_result (apply_delta n) (deltas_of es) l2 = Inr l'" and t: "t = t0"
    using assms(1) unfolding post_fresh_def es_def Let_def t0_def [symmetric]
    by (auto simp: bind_result_Inr_iff)
  show "t = \<lparr>txn_id = int (length (txns l)) + 1, txn_kind = pa_kind p, txn_key = pa_key p,
      txn_round = pa_round p, txn_payment = pa_payment p, txn_created_by = pa_by p, txn_memo = pa_memo p\<rparr>"
    by (simp add: t t0_def)
  have lr: "locked_row (l\<lparr>txns := txns l @ [t0]\<rparr>) a = locked_row l a" for a
    by (simp add: locked_row_def cong: option.case_cong)
  note k = fold_lock_balance [OF l1, unfolded lr set_sort set_remdups set_map]
  note ap = fold_apply_delta [OF l3 deltas_of_distinct]
  show "accounts l' = accounts l" "txns l' = txns l @ [t]"
    "entry_rows l' = entry_rows l @ entry_rows_of now (txn_id t) (length (entry_rows l)) es"
    using k ap by (simp_all add: l2 t)
  show "\<exists>n. \<forall>a. balances l' a = (if a \<in> ent_account ` set es
        then map_option (\<lambda>b. b\<lparr>bal_balance := numeric2 (bal_balance b + delta es a), bal_last_entry := n\<rparr>) (locked_row l a)
        else balances l a)"
    using k ap by (intro exI [of _ n]) (simp add: l2 map_of_deltas_of)
  show "\<exists>b. locked_row l a = Some b \<and> (bal_kind b \<in> USER_BALANCE_KINDS \<longrightarrow> 0 \<le> bal_balance b + delta es a)"
    if a: "a \<in> ent_account ` set es" for a
  proof -
    have "(a, delta es a) \<in> set (deltas_of es)"
      using a map_of_deltas_of [of es a] by (auto dest: map_of_SomeD)
    then obtain b where "balances l1 a = Some b" "bal_kind b \<in> USER_BALANCE_KINDS \<longrightarrow> 0 \<le> bal_balance b + delta es a"
      using chk unfolding fold_check_delta by blast
    with k a show ?thesis by auto
  qed
qed

text \<open>On whole-cent amounts a post moves each balance by exactly its delta.\<close>

lemma raw_balance_whole: "balances_ok l \<Longrightarrow> whole_cents (raw_balance l a)"
  unfolding balances_ok_def computed_balance_def by (auto intro!: whole_cents_sum_list)

lemma bal_balance_raw: "balances l a = Some b \<Longrightarrow> bal_balance b = raw_balance l a"
  by (simp add: raw_balance_def)

lemma locked_row_raw: "locked_row l a = Some b \<Longrightarrow> bal_balance b = raw_balance l a"
  using raw_balance_locked_row [of l a] by simp

lemma post_fresh_balance:
  assumes "post_fresh now p l = Inr (t, l')" "balances_ok l" "\<forall>e\<in>set (pa_entries p). whole_cents (ent_amount e)"
  shows "raw_balance l' a = raw_balance l a + delta (pa_entries p) a"
proof -
  obtain n where n: "balances l' a = (if a \<in> ent_account ` set (pa_entries p)
        then map_option (\<lambda>b. b\<lparr>bal_balance := numeric2 (bal_balance b + delta (pa_entries p) a), bal_last_entry := n\<rparr>) (locked_row l a)
        else balances l a)"
    using post_fresh_Inr(5) [OF assms(1)] by blast
  show ?thesis
  proof (cases "a \<in> ent_account ` set (pa_entries p)")
    case True
    then obtain b where b: "locked_row l a = Some b" using post_fresh_Inr(6) [OF assms(1)] by blast
    have "whole_cents (raw_balance l a + delta (pa_entries p) a)"
      by (intro cents raw_balance_whole assms)
    then show ?thesis using n True b locked_row_raw [OF b] by (simp add: raw_balance_def [of l'])
  next
    case False
    then show ?thesis using n by (simp add: raw_balance_def delta_notin)
  qed
qed

lemma entry_rows_of_simps [simp]:
  "entry_rows_of now tid n [] = []"
  "entry_rows_of now tid n (e # es) =
     \<lparr>er_id = int n + 1, er_txn = tid, er_account = ent_account e, er_amount = numeric2 (ent_amount e),
      er_created_at = now\<rparr> # entry_rows_of now tid (Suc n) es"
  by (simp_all add: entry_rows_of_def)

lemma entry_rows_of_account:
  "\<forall>e\<in>set es. whole_cents (ent_amount e) \<Longrightarrow>
     sum_list (map er_amount (filter (\<lambda>r. er_account r = a) (entry_rows_of now tid n es))) = delta es a"
  by (induction es arbitrary: n) auto

lemma entry_rows_of_sum:
  "\<forall>e\<in>set es. whole_cents (ent_amount e) \<Longrightarrow>
     sum_list (map er_amount (filter (\<lambda>r. er_txn r = tid) (entry_rows_of now tid n es))) = sum_list (map ent_amount es)"
  by (induction es arbitrary: n) auto

lemma entry_rows_of_other:
  "tid' \<noteq> tid \<Longrightarrow> filter (\<lambda>r. er_txn r = tid') (entry_rows_of now tid n es) = []"
  by (induction es arbitrary: n) auto

lemma entry_rows_of_elem:
  "r \<in> set (entry_rows_of now tid n es) \<Longrightarrow>
     er_txn r = tid \<and> er_account r \<in> ent_account ` set es \<and> whole_cents (er_amount r)"
  by (induction es arbitrary: n) auto

subsection \<open>Posting keeps the invariant\<close>

lemma find_txn_None: "find_txn l key = None \<longleftrightarrow> key \<notin> txn_key ` set (txns l)"
  by (auto simp: find_txn_def find_None_iff)

lemma find_txn_Some: "find_txn l key = Some t \<Longrightarrow> t \<in> set (txns l) \<and> txn_key t = key"
  by (auto simp: find_txn_def find_Some_iff)

lemma txns_ok_append:
  assumes "txns_ok l" "find_txn l (txn_key t) = None" "txn_id t = int (length (txns l)) + 1"
    "txns l' = txns l @ [t]" "entry_rows l' = entry_rows l @ rs" "\<forall>r\<in>set rs. er_txn r = txn_id t"
  shows "txns_ok l'"
  using assms by (auto simp: txns_ok_def find_txn_None)

lemma txns_ok_new_id: "txns_ok l \<Longrightarrow> r \<in> set (entry_rows l) \<Longrightarrow> er_txn r \<noteq> int (length (txns l)) + 1"
proof
  assume a: "txns_ok l" "r \<in> set (entry_rows l)" "er_txn r = int (length (txns l)) + 1"
  then have "txn_id ` set (txns l) = (\<lambda>i. int i + 1) ` {0..<length (txns l)}"
    unfolding txns_ok_def by (metis set_map set_upt)
  then show False using a by (auto simp: txns_ok_def)
qed

lemma locked_row_kind:
  "balances_ok l \<Longrightarrow> locked_row l a = Some b \<Longrightarrow> \<exists>acct. account_by_id l a = Some acct \<and> acc_kind acct = bal_kind b"
  by (cases "balances l a") (auto simp: locked_row_def balances_ok_def)

lemma post_fresh_fk:
  assumes post: "post_fresh now p l = Inr (t, l')" and bo: "balances_ok l" and fk: "entries_fk l"
  shows "entries_fk l'"
proof -
  note s = post_fresh_Inr [OF post]
  have "a \<in> acc_id ` set (accounts l)" if a: "a \<in> ent_account ` set (pa_entries p)" for a
  proof -
    obtain b where "locked_row l a = Some b" using s(6) [OF a] by blast
    then obtain acct where "account_by_id l a = Some acct" using locked_row_kind [OF bo] by blast
    then show ?thesis by (auto simp: account_by_id_def find_Some_iff)
  qed
  then show ?thesis
    using fk entry_rows_of_elem by (auto simp: entries_fk_def s(2,4))
qed

lemma post_fresh_ok:
  assumes post: "post_fresh now p l = Inr (t, l')" and ok: "ledger_ok l"
    and fresh: "find_txn l (pa_key p) = None" and whole: "\<forall>e\<in>set (pa_entries p). whole_cents (ent_amount e)"
  shows "accounts_ok l' \<and> txns_ok l' \<and> balances_ok l'"
    "txn_sum l' tid = (if tid = txn_id t then sum_list (map ent_amount (pa_entries p)) else 0)"
proof -
  note s = post_fresh_Inr [OF post]
  have bo: "balances_ok l" and to: "txns_ok l" using ok by (auto simp: ledger_ok_def)
  have comp: "computed_balance l' a = computed_balance l a + delta (pa_entries p) a" for a
    by (simp add: computed_balance_def s(4) entry_rows_of_account [OF whole])
  have "balances_ok l'"
    unfolding balances_ok_def
  proof (intro conjI allI impI ballI)
    fix a b assume b: "balances l' a = Some b"
    from s(5) obtain n where n: "balances l' a = (if a \<in> ent_account ` set (pa_entries p)
        then map_option (\<lambda>b. b\<lparr>bal_balance := numeric2 (bal_balance b + delta (pa_entries p) a), bal_last_entry := n\<rparr>) (locked_row l a)
        else balances l a)" by blast
    have id: "account_by_id l' a = account_by_id l a" by (simp add: account_by_id_def s(2))
    have "\<exists>c. (locked_row l a = Some c \<or> balances l a = Some c) \<and> bal_kind c = bal_kind b"
    proof (cases "a \<in> ent_account ` set (pa_entries p)")
      case True
      then show ?thesis using n b by (cases "locked_row l a") auto
    next
      case False
      then have "balances l a = Some b" using n b by metis
      then show ?thesis by blast
    qed
    then show "\<exists>acct. account_by_id l' a = Some acct \<and> acc_kind acct = bal_kind b"
      using bo locked_row_kind [OF bo] unfolding id balances_ok_def by metis
    assume u: "bal_kind b \<in> USER_BALANCE_KINDS"
    show "0 \<le> bal_balance b"
    proof (cases "a \<in> ent_account ` set (pa_entries p)")
      case True
      then obtain c where c: "locked_row l a = Some c" "bal_kind c \<in> USER_BALANCE_KINDS \<longrightarrow> 0 \<le> bal_balance c + delta (pa_entries p) a"
        using s(6) by blast
      have "bal_kind c = bal_kind b" using n b True c by auto
      moreover have "bal_balance b = raw_balance l a + delta (pa_entries p) a"
        using post_fresh_balance [OF post bo whole, of a] b by (simp add: raw_balance_def [of l'])
      ultimately show ?thesis using c u locked_row_raw [OF c(1)] by simp
    next
      case False
      then show ?thesis using n b u bo by (simp add: balances_ok_def)
    qed
  next
    fix a show "raw_balance l' a = computed_balance l' a"
      using bo by (simp add: post_fresh_balance [OF post bo whole] comp balances_ok_def)
  next
    fix r assume "r \<in> set (entry_rows l')"
    then show "whole_cents (er_amount r)" using bo entry_rows_of_elem by (auto simp: s(4) balances_ok_def)
  qed
  moreover have "accounts_ok l'" using ok by (simp add: ledger_ok_def accounts_ok_def s(2))
  moreover have "txns_ok l'"
    by (rule txns_ok_append [OF to _ _ s(3,4)]) (use fresh entry_rows_of_elem in \<open>auto simp: s(1)\<close>)
  ultimately show "accounts_ok l' \<and> txns_ok l' \<and> balances_ok l'" by blast
  have old: "filter (\<lambda>r. er_txn r = txn_id t) (entry_rows l) = []"
    using txns_ok_new_id [OF to] by (auto simp: filter_empty_conv s(1))
  show "txn_sum l' tid = (if tid = txn_id t then sum_list (map ent_amount (pa_entries p)) else 0)"
    using ok old by (auto simp: ledger_ok_def sums_ok_def txn_sum_def s(4) entry_rows_of_sum [OF whole] entry_rows_of_other)
qed

text \<open>When a fresh post goes through: every account exists and no user account would go negative.\<close>

lemma post_fresh_total:
  assumes ok: "balances_ok l" and whole: "\<forall>e\<in>set (pa_entries p). whole_cents (ent_amount e)"
    and ex: "\<And>a. a \<in> ent_account ` set (pa_entries p) \<Longrightarrow> \<exists>acct. account_by_id l a = Some acct
        \<and> (acc_kind acct \<in> USER_BALANCE_KINDS \<longrightarrow> 0 \<le> raw_balance l a + delta (pa_entries p) a)"
  shows "\<exists>t l'. post_fresh now p l = Inr (t, l')"
proof -
  define es where "es = pa_entries p"
  define t where "t = \<lparr>txn_id = int (length (txns l)) + 1, txn_kind = pa_kind p, txn_key = pa_key p,
      txn_round = pa_round p, txn_payment = pa_payment p, txn_created_by = pa_by p, txn_memo = pa_memo p\<rparr>"
  have row: "\<exists>b. locked_row l a = Some b \<and> bal_balance b = raw_balance l a
      \<and> (bal_kind b \<in> USER_BALANCE_KINDS \<longrightarrow> 0 \<le> raw_balance l a + delta es a)"
    if a: "a \<in> ent_account ` set es" for a
  proof -
    obtain acct where acct: "account_by_id l a = Some acct"
        "acc_kind acct \<in> USER_BALANCE_KINDS \<longrightarrow> 0 \<le> raw_balance l a + delta es a"
      using ex a unfolding es_def by blast
    then obtain b where b: "locked_row l a = Some b" by (cases "balances l a") (auto simp: locked_row_def)
    then show ?thesis using acct locked_row_raw [OF b] locked_row_kind [OF ok b] by auto
  qed
  have lr: "locked_row (l\<lparr>txns := txns l @ [t]\<rparr>) a = locked_row l a" for a
    by (simp add: locked_row_def cong: option.case_cong)
  have "\<exists>l1. fold_result lock_balance (sort (remdups (map ent_account es))) (l\<lparr>txns := txns l @ [t]\<rparr>) = Inr l1"
  proof (rule fold_lock_balance_total)
    fix a assume "a \<in> set (sort (remdups (map ent_account es)))"
    then show "locked_row (l\<lparr>txns := txns l @ [t]\<rparr>) a \<noteq> None" using row [of a] by (auto simp: lr)
  qed
  then obtain l1 where l1: "fold_result lock_balance (sort (remdups (map ent_account es))) (l\<lparr>txns := txns l @ [t]\<rparr>) = Inr l1" ..
  note k = fold_lock_balance [OF l1, unfolded lr set_sort set_remdups set_map]
  have b1: "\<exists>b. balances l1 a = Some b \<and> bal_balance b = raw_balance l a \<and> d = delta es a
      \<and> (bal_kind b \<in> USER_BALANCE_KINDS \<longrightarrow> 0 \<le> raw_balance l a + delta es a)"
    if "(a, d) \<in> set (deltas_of es)" for a d
  proof -
    have "a \<in> ent_account ` set es" using that deltas_of_keys [of es] by force
    then show ?thesis using row [of a] k deltas_of_value [OF that] by auto
  qed
  then have chk: "fold_result (check_delta l1) (deltas_of es) () = Inr ()"
    unfolding fold_check_delta by fastforce
  define l2 where "l2 = l1\<lparr>entry_rows := entry_rows l1 @ entry_rows_of now (txn_id t) (length (entry_rows l1)) es\<rparr>"
  have "\<exists>l3. fold_result (apply_delta n) (deltas_of es) l2 = Inr l3" for n
  proof (rule fold_apply_delta_total [OF _ deltas_of_distinct])
    fix a d b assume a: "(a, d) \<in> set (deltas_of es)" "balances l2 a = Some b" "bal_kind b \<in> USER_BALANCE_KINDS"
    have "whole_cents (raw_balance l a + delta es a)"
      using whole by (intro cents raw_balance_whole ok) (simp add: es_def)
    then show "0 \<le> numeric2 (bal_balance b + d)" using b1 [OF a(1)] a by (auto simp: l2_def)
  qed
  then show ?thesis
    unfolding post_fresh_def Let_def es_def [symmetric] t_def [symmetric] l1 bind_result_simps chk l2_def [symmetric]
    by (auto simp: bind_result_def split: sum.splits) (metis Inl_Inr_False)
qed

subsection \<open>Balances by owner\<close>

text \<open>
  Callers name an account by its owner (a user or the house) and kind; the currency is always the
  default one.
\<close>

type_synonym owner = "int option \<times> string"

definition acct_of :: "ledger \<Rightarrow> owner \<Rightarrow> int option" where
  "acct_of l ow = map_option acc_id (find_account l (fst ow) (snd ow) ''ETB'')"

definition obal :: "ledger \<Rightarrow> owner \<Rightarrow> money" where
  "obal l ow = (case acct_of l ow of None \<Rightarrow> 0 | Some i \<Rightarrow> raw_balance l i)"

definition tkeys :: "ledger \<Rightarrow> string set" where
  "tkeys l = txn_key ` set (txns l)"

definition odelta :: "(owner \<times> money) list \<Rightarrow> owner \<Rightarrow> money" where
  "odelta ms ow = sum_list (map snd (filter (\<lambda>m. fst m = ow) ms))"

lemma odelta_simps [simp]:
  "odelta [] ow = 0"
  "odelta ((o', m) # ms) ow = (if o' = ow then m else 0) + odelta ms ow"
  "odelta (ms @ ns) ow = odelta ms ow + odelta ns ow"
  by (auto simp: odelta_def)

lemma find_account_in:
  "find_account l u k c = Some a \<Longrightarrow> a \<in> set (accounts l) \<and> acc_user a = u \<and> acc_kind a = k \<and> acc_currency a = c"
  by (auto simp: find_account_def find_Some_iff)

lemma accounts_ok_ids: "accounts_ok l \<Longrightarrow> distinct (map acc_id (accounts l))"
  by (simp add: accounts_ok_def distinct_map inj_on_def)

lemma account_by_id_in:
  assumes "accounts_ok l" "a \<in> set (accounts l)" shows "account_by_id l (acc_id a) = Some a"
proof -
  have "inj_on acc_id (set (accounts l))" using accounts_ok_ids [OF assms(1)] by (simp add: distinct_map)
  then have eq: "x \<in> set (accounts l) \<Longrightarrow> acc_id x = acc_id a \<Longrightarrow> x = a" for x
    using assms(2) by (meson inj_onD)
  obtain y where y: "account_by_id l (acc_id a) = Some y"
    using assms(2) by (cases "account_by_id l (acc_id a)") (auto simp: account_by_id_def find_None_iff)
  then have "y \<in> set (accounts l)" "acc_id y = acc_id a" by (auto simp: account_by_id_def find_Some_iff)
  then show ?thesis using y eq by simp
qed

lemma acct_of_by_id:
  assumes "accounts_ok l" "acct_of l ow = Some i"
  shows "\<exists>a. account_by_id l i = Some a \<and> acc_kind a = snd ow"
  using assms account_by_id_in [OF assms(1)] by (auto simp: acct_of_def dest!: find_account_in)

lemma acct_of_inj:
  assumes ok: "accounts_ok l" and a: "acct_of l ow = Some i" "acct_of l ow' = Some i"
  shows "ow = ow'"
proof -
  obtain a where a1: "find_account l (fst ow) (snd ow) ''ETB'' = Some a" "acc_id a = i"
    using a(1) by (auto simp: acct_of_def)
  obtain b where b1: "find_account l (fst ow') (snd ow') ''ETB'' = Some b" "acc_id b = i"
    using a(2) by (auto simp: acct_of_def)
  have "account_by_id l i = Some a"
    using account_by_id_in [OF ok, of a] find_account_in [OF a1(1)] a1(2) by simp
  moreover have "account_by_id l i = Some b"
    using account_by_id_in [OF ok, of b] find_account_in [OF b1(1)] b1(2) by simp
  ultimately have "a = b" by simp
  then show ?thesis using find_account_in [OF a1(1)] find_account_in [OF b1(1)] by (auto simp: prod_eq_iff)
qed

subsection \<open>The contract callers use\<close>

definition same_money :: "ledger \<Rightarrow> ledger \<Rightarrow> bool" where
  "same_money l l' \<longleftrightarrow> obal l' = obal l \<and> txns l' = txns l \<and> entry_rows l' = entry_rows l
     \<and> balances l' = balances l \<and> (\<forall>ow i. acct_of l ow = Some i \<longrightarrow> acct_of l' ow = Some i)"

lemma same_money_refl [simp]: "same_money l l"
  by (simp add: same_money_def)

lemma same_money_trans: "same_money l m \<Longrightarrow> same_money m n \<Longrightarrow> same_money l n"
  by (simp add: same_money_def)

lemma account_by_id_new:
  assumes "accounts_ok l" shows "account_by_id l (int (length (accounts l)) + 1) = None"
proof -
  have "acc_id ` set (accounts l) = (\<lambda>i. int i + 1) ` {0..<length (accounts l)}"
    using assms unfolding accounts_ok_def by (metis set_map set_upt)
  then have "int (length (accounts l)) + 1 \<notin> acc_id ` set (accounts l)" by auto
  then have "\<forall>x\<in>set (accounts l). acc_id x \<noteq> int (length (accounts l)) + 1" by (metis imageI)
  then show ?thesis by (simp add: account_by_id_def find_None_iff)
qed

lemma find_append: "find P (xs @ ys) = (case find P xs of None \<Rightarrow> find P ys | Some x \<Rightarrow> Some x)"
  by (induction xs) auto

lemma get_or_create_account_spec:
  assumes goc: "get_or_create_account l u k ''ETB'' = (a, l')" and ok: "ledger_ok l"
  shows "ledger_ok l'" "same_money l l'" "acct_of l' (u, k) = Some (acc_id a)"
proof -
  have "ledger_ok l' \<and> same_money l l' \<and> acct_of l' (u, k) = Some (acc_id a)"
  proof (cases "find_account l u k ''ETB''")
    case (Some b)
    then show ?thesis using goc ok by (simp add: get_or_create_account_def acct_of_def)
  next
    case None
    define i where "i = int (length (accounts l)) + 1"
    have a: "a = \<lparr>acc_id = i, acc_user = u, acc_kind = k, acc_currency = ''ETB''\<rparr>"
      and l': "l' = l\<lparr>accounts := accounts l @ [a]\<rparr>"
      using goc None by (auto simp: get_or_create_account_def Let_def i_def)
    have acc: "accounts_ok l" and bo: "balances_ok l" using ok by (auto simp: ledger_ok_def)
    have fa: "find_account l' (fst ow) (snd ow) ''ETB'' =
        (case find_account l (fst ow) (snd ow) ''ETB'' of None \<Rightarrow> if ow = (u, k) then Some a else None | Some x \<Rightarrow> Some x)" for ow
      by (cases ow) (auto simp: find_account_def l' find_append a split: option.splits)
    have new: "account_by_id l i = None" using account_by_id_new [OF acc] by (simp add: i_def)
    then have "balances l i = None" using bo unfolding balances_ok_def by (metis option.exhaust option.distinct(1))
    then have raw: "raw_balance l i = 0" by (simp add: raw_balance_def)
    have rb: "raw_balance l' = raw_balance l" by (auto simp: raw_balance_def l')
    have ob: "obal l' ow = obal l ow" for ow
      using raw by (auto simp: obal_def acct_of_def fa rb a split: option.splits)
    have ids: "account_by_id l' x = Some y" if "account_by_id l x = Some y" for x y
      using that by (simp add: account_by_id_def l' find_append)
    have "accounts_ok l'"
      using acc None by (auto simp: accounts_ok_def l' a i_def find_account_def find_None_iff)
    moreover have "balances_ok l'"
    proof -
      have "\<forall>a b. balances l a = Some b \<longrightarrow>
        (\<exists>acct. account_by_id l' a = Some acct \<and> acc_kind acct = bal_kind b)
        \<and> (bal_kind b \<in> USER_BALANCE_KINDS \<longrightarrow> 0 \<le> bal_balance b)"
        using bo ids unfolding balances_ok_def by meson
      then show ?thesis using bo by (simp add: balances_ok_def rb) (simp add: l' computed_balance_def)
    qed
    ultimately have "ledger_ok l'" using ok by (simp add: ledger_ok_def txns_ok_def sums_ok_def txn_sum_def entries_fk_def l')
    moreover have "same_money l l'"
      using ob by (auto simp: same_money_def l' acct_of_def fa [unfolded l'] split: option.splits)
    ultimately show ?thesis using None by (simp add: acct_of_def fa [of "(u, k)", simplified])
  qed
  then show "ledger_ok l'" "same_money l l'" "acct_of l' (u, k) = Some (acc_id a)" by auto
qed

definition entries_for :: "ledger \<Rightarrow> (owner \<times> money) list \<Rightarrow> entry list \<Rightarrow> bool" where
  "entries_for l ms es \<longleftrightarrow> list_all2 (\<lambda>m e. acct_of l (fst m) = Some (ent_account e) \<and> snd m = ent_amount e) ms es"

lemma entries_for_delta:
  assumes "accounts_ok l" "entries_for l ms es" "acct_of l ow = Some i"
  shows "delta es i = odelta ms ow"
  using assms(2) unfolding entries_for_def
proof (induction ms es rule: list_all2_induct)
  case (Cons m ms e es)
  have "fst m = ow \<longleftrightarrow> ent_account e = i"
    using Cons(1) assms(3) acct_of_inj [OF assms(1)] by fastforce
  with Cons show ?case by (cases m) simp
qed simp

lemma entries_for_sum: "entries_for l ms es \<Longrightarrow> sum_list (map ent_amount es) = sum_list (map snd ms)"
  unfolding entries_for_def by (induction ms es rule: list_all2_induct) auto

lemma entries_for_whole: "entries_for l ms es \<Longrightarrow> \<forall>m\<in>set ms. whole_cents (snd m) \<Longrightarrow> \<forall>e\<in>set es. whole_cents (ent_amount e)"
  unfolding entries_for_def by (induction ms es rule: list_all2_induct) auto

lemma entries_for_accounts: "entries_for l ms es \<Longrightarrow> e \<in> set es \<Longrightarrow> \<exists>m\<in>set ms. acct_of l (fst m) = Some (ent_account e)"
  unfolding entries_for_def by (induction ms es rule: list_all2_induct) auto

lemma entries_for_owners: "entries_for l ms es \<Longrightarrow> m \<in> set ms \<Longrightarrow> acct_of l (fst m) \<noteq> None"
  unfolding entries_for_def by (induction ms es rule: list_all2_induct) auto

text \<open>A balanced post under a new key: the invariant is kept, balances move by their deltas, the key is taken.\<close>

definition posted :: "ledger \<Rightarrow> (owner \<times> money) list \<Rightarrow> string \<Rightarrow> ledger \<Rightarrow> bool" where
  "posted l ms k l' \<longleftrightarrow> ledger_ok l' \<and> (\<forall>ow. obal l' ow = obal l ow + odelta ms ow) \<and> tkeys l' = insert k (tkeys l)"

lemma post_posted:
  assumes ok: "ledger_ok l" and es: "entries_for l ms (pa_entries p)" and whole: "\<forall>m\<in>set ms. whole_cents (snd m)"
    and sum: "sum_list (map snd ms) = 0" and fresh: "pa_key p \<notin> tkeys l"
    and post: "post now p l = Inr (t, l')"
  shows "posted l ms (pa_key p) l'" "txns l' = txns l @ [t]" "txn_kind t = pa_kind p" "txn_key t = pa_key p"
    "txn_round t = pa_round p"
proof -
  have fr: "find_txn l (pa_key p) = None" using fresh by (simp add: find_txn_None tkeys_def)
  then have pf: "post_fresh now p l = Inr (t, l')" using post by (auto simp: post_def split: if_splits)
  note s = post_fresh_Inr [OF pf]
  have acc: "accounts_ok l" and bo: "balances_ok l" using ok by (auto simp: ledger_ok_def)
  have w: "\<forall>e\<in>set (pa_entries p). whole_cents (ent_amount e)" using entries_for_whole [OF es whole] .
  have ac: "acct_of l' = acct_of l" by (simp add: acct_of_def find_account_def s(2) fun_eq_iff)
  have "obal l' ow = obal l ow + odelta ms ow" for ow
  proof (cases "acct_of l ow")
    case None
    have "\<forall>m\<in>set ms. fst m \<noteq> ow"
      using entries_for_owners [OF es] None by force
    then have "odelta ms ow = 0" by (simp add: odelta_def filter_empty_conv)
    with None show ?thesis by (simp add: obal_def ac)
  next
    case (Some i)
    then show ?thesis
      using post_fresh_balance [OF pf bo w] entries_for_delta [OF acc es Some] by (simp add: obal_def ac)
  qed
  moreover have "ledger_ok l'"
    using post_fresh_ok [OF pf ok fr w] post_fresh_fk [OF pf bo] ok sum entries_for_sum [OF es]
    by (simp add: ledger_ok_def sums_ok_def)
  ultimately show "posted l ms (pa_key p) l'" by (auto simp: posted_def tkeys_def s(1,3))
  show "txns l' = txns l @ [t]" "txn_kind t = pa_kind p" "txn_key t = pa_key p" "txn_round t = pa_round p"
    by (simp_all add: s(1,3))
qed

lemma commit_ok: "ledger_ok l' \<Longrightarrow> commit l l' = Inr l'"
  by (auto simp: commit_def ledger_ok_def sums_ok_def find_None_iff split: option.splits dest!: find_Some_iff [THEN iffD1])

lemma post_total:
  assumes ok: "ledger_ok l" and es: "entries_for l ms (pa_entries p)" and whole: "\<forall>m\<in>set ms. whole_cents (snd m)"
    and ne: "ms \<noteq> []" and fresh: "pa_key p \<notin> tkeys l"
    and funds: "\<And>ow. ow \<in> fst ` set ms \<Longrightarrow> snd ow \<in> USER_BALANCE_KINDS \<Longrightarrow> 0 \<le> obal l ow + odelta ms ow"
  shows "\<exists>t l'. post now p l = Inr (t, l')"
proof -
  have acc: "accounts_ok l" and bo: "balances_ok l" using ok by (auto simp: ledger_ok_def)
  have w: "\<forall>e\<in>set (pa_entries p). whole_cents (ent_amount e)" using entries_for_whole [OF es whole] .
  have "\<exists>t l'. post_fresh now p l = Inr (t, l')"
  proof (rule post_fresh_total [OF bo w])
    fix a assume "a \<in> ent_account ` set (pa_entries p)"
    then obtain m where m: "m \<in> set ms" "acct_of l (fst m) = Some a" using entries_for_accounts [OF es] by blast
    obtain acct where "account_by_id l a = Some acct" "acc_kind acct = snd (fst m)"
      using acct_of_by_id [OF acc m(2)] by blast
    then show "\<exists>acct. account_by_id l a = Some acct
        \<and> (acc_kind acct \<in> USER_BALANCE_KINDS \<longrightarrow> 0 \<le> raw_balance l a + delta (pa_entries p) a)"
      using funds [of "fst m"] m entries_for_delta [OF acc es m(2)] by (auto simp: obal_def)
  qed
  moreover have "pa_entries p \<noteq> []" using es ne by (auto simp: entries_for_def)
  ultimately show ?thesis using fresh by (simp add: post_def find_txn_None [unfolded tkeys_def [symmetric], THEN iffD2])
qed

end
