(* ===== verification/Wallet.thy ===== *)
theory Wallet
  imports Ledger
begin

text \<open>
  The interface the games use of the ledger. A client names an account by its owner and kind, asks for
  its id (creating it when it does not exist), and posts entries that sum to zero under an
  idempotency key. The locale states what it may rely on; the lemmas in it are what every client
  needs: one transfer between two owners, and a loop of transfers out of one account. \<open>rest\<close> is the
  part of the client's state the ledger does not touch.
\<close>

locale wallet =
  fixes ok :: "'s \<Rightarrow> bool"
    and bal :: "'s \<Rightarrow> owner \<Rightarrow> money"
    and keys :: "'s \<Rightarrow> string set"
    and acct :: "'s \<Rightarrow> owner \<Rightarrow> int option"
    and rest :: "'s \<Rightarrow> 'r"
    and get_account :: "owner \<Rightarrow> 's \<Rightarrow> account \<times> 's"
    and post_in :: "post_args \<Rightarrow> 's \<Rightarrow> (ledger_txn \<times> 's) result"
  assumes get_account_ok: "get_account ow s = (a, s') \<Longrightarrow> ok s \<Longrightarrow> ok s'"
    and get_account_bal: "get_account ow s = (a, s') \<Longrightarrow> ok s \<Longrightarrow> bal s' = bal s"
    and get_account_keys: "get_account ow s = (a, s') \<Longrightarrow> ok s \<Longrightarrow> keys s' = keys s"
    and get_account_acct: "get_account ow s = (a, s') \<Longrightarrow> ok s \<Longrightarrow> acct s' ow = Some (acc_id a)"
    and get_account_keeps: "get_account ow s = (a, s') \<Longrightarrow> ok s \<Longrightarrow> acct s o' = Some i \<Longrightarrow> acct s' o' = Some i"
    and get_account_rest: "get_account ow s = (a, s') \<Longrightarrow> ok s \<Longrightarrow> rest s' = rest s"
    and post_law: "ok s \<Longrightarrow> list_all2 (\<lambda>m e. acct s (fst m) = Some (ent_account e) \<and> snd m = ent_amount e) ms (pa_entries p)
      \<Longrightarrow> \<forall>m\<in>set ms. whole_cents (snd m) \<Longrightarrow> sum_list (map snd ms) = 0 \<Longrightarrow> pa_key p \<notin> keys s
      \<Longrightarrow> post_in p s = Inr (t, s')
      \<Longrightarrow> ok s' \<and> (\<forall>ow. bal s' ow = bal s ow + odelta ms ow) \<and> keys s' = insert (pa_key p) (keys s)
        \<and> acct s' = acct s \<and> rest s' = rest s"
    and post_returns: "ok s \<Longrightarrow> list_all2 (\<lambda>m e. acct s (fst m) = Some (ent_account e) \<and> snd m = ent_amount e) ms (pa_entries p)
      \<Longrightarrow> \<forall>m\<in>set ms. whole_cents (snd m) \<Longrightarrow> ms \<noteq> [] \<Longrightarrow> pa_key p \<notin> keys s
      \<Longrightarrow> (\<And>ow. ow \<in> fst ` set ms \<Longrightarrow> snd ow \<in> USER_BALANCE_KINDS \<Longrightarrow> 0 \<le> bal s ow + odelta ms ow)
      \<Longrightarrow> \<exists>t s'. post_in p s = Inr (t, s')"
    and nonneg: "ok s \<Longrightarrow> snd ow \<in> USER_BALANCE_KINDS \<Longrightarrow> 0 \<le> bal s ow"
begin

lemma get_account_spec:
  assumes "get_account ow s = (a, s')" "ok s"
  shows "ok s'" "bal s' = bal s" "keys s' = keys s" "acct s' ow = Some (acc_id a)" "rest s' = rest s"
    "\<And>o' i. acct s o' = Some i \<Longrightarrow> acct s' o' = Some i"
  using get_account_ok [OF assms] get_account_bal [OF assms] get_account_keys [OF assms]
    get_account_acct [OF assms] get_account_rest [OF assms] get_account_keeps [OF assms] by simp_all

text \<open>A transfer of \<open>x\<close> from \<open>src\<close> to \<open>dst\<close>.\<close>

lemma transfer:
  assumes "ok s" "acct s src = Some i" "acct s dst = Some j" "src \<noteq> dst" "whole_cents x" "pa_key p \<notin> keys s"
    and "pa_entries p = [\<lparr>ent_account = i, ent_amount = - x\<rparr>, \<lparr>ent_account = j, ent_amount = x\<rparr>]"
    and "post_in p s = Inr (t, s')"
  shows "ok s'" "bal s' = (bal s)(src := bal s src - x, dst := bal s dst + x)"
    "keys s' = insert (pa_key p) (keys s)" "acct s' = acct s" "rest s' = rest s"
proof -
  have l: "ok s' \<and> (\<forall>ow. bal s' ow = bal s ow + odelta [(src, - x), (dst, x)] ow)
      \<and> keys s' = insert (pa_key p) (keys s) \<and> acct s' = acct s \<and> rest s' = rest s"
    by (rule post_law [OF assms(1) _ _ _ assms(6,8)]) (use assms in auto)
  then show "ok s'" "keys s' = insert (pa_key p) (keys s)" "acct s' = acct s" "rest s' = rest s" by simp_all
  show "bal s' = (bal s)(src := bal s src - x, dst := bal s dst + x)"
    using l assms(4) by (auto simp: fun_eq_iff)
qed

lemma transfer_returns:
  assumes "ok s" "acct s src = Some i" "acct s dst = Some j" "src \<noteq> dst" "whole_cents x" "pa_key p \<notin> keys s" "0 \<le> x"
    and "pa_entries p = [\<lparr>ent_account = i, ent_amount = - x\<rparr>, \<lparr>ent_account = j, ent_amount = x\<rparr>]"
    and "snd src \<in> USER_BALANCE_KINDS \<Longrightarrow> x \<le> bal s src"
  shows "\<exists>t s'. post_in p s = Inr (t, s')"
proof (rule post_returns [OF assms(1), of "[(src, - x), (dst, x)]"])
  fix ow assume "ow \<in> fst ` set [(src, - x), (dst, x)]" "snd ow \<in> USER_BALANCE_KINDS"
  then show "0 \<le> bal s ow + odelta [(src, - x), (dst, x)] ow"
    using assms(4,7,9) nonneg [OF assms(1), of ow] by auto
qed (use assms in auto)

text \<open>A loop that transfers an amount to one account after another out of the same account.\<close>

lemma transfers:
  fixes dst :: "'i \<Rightarrow> owner" and amt :: "'i \<Rightarrow> money" and key :: "'i \<Rightarrow> string"
    and body :: "'i \<Rightarrow> 's \<Rightarrow> 's result"
  assumes step: "\<And>it u v. it \<in> set items \<Longrightarrow> body it u = Inr v \<Longrightarrow>
      \<exists>a w p t. get_account (dst it) u = (a, w) \<and> post_in p w = Inr (t, v) \<and> pa_key p = key it
        \<and> pa_entries p = [\<lparr>ent_account = i, ent_amount = - amt it\<rparr>, \<lparr>ent_account = acc_id a, ent_amount = amt it\<rparr>]"
    and run: "fold_result body items s = Inr s'"
    and s: "ok s" "acct s src = Some i" "src \<notin> dst ` set items"
    and keys: "distinct (map key items)" "key ` set items \<inter> keys s = {}"
    and whole: "\<And>it. it \<in> set items \<Longrightarrow> whole_cents (amt it)"
  shows "ok s' \<and> bal s' src = bal s src - sum_list (map amt items)
    \<and> (\<forall>ow. ow \<noteq> src \<longrightarrow> bal s' ow = bal s ow + sum_list (map amt (filter (\<lambda>it. dst it = ow) items)))
    \<and> keys s' = keys s \<union> key ` set items \<and> rest s' = rest s
    \<and> (\<forall>ow j. acct s ow = Some j \<longrightarrow> acct s' ow = Some j)"
  using run s keys step whole
proof (induction items arbitrary: s)
  case Nil
  then show ?case by simp
next
  case (Cons it its)
  then obtain v where v: "body it s = Inr v" "fold_result body its v = Inr s'"
    by (auto simp: bind_result_Inr_iff)
  obtain a w p t where b: "get_account (dst it) s = (a, w)" "post_in p w = Inr (t, v)" "pa_key p = key it"
      "pa_entries p = [\<lparr>ent_account = i, ent_amount = - amt it\<rparr>, \<lparr>ent_account = acc_id a, ent_amount = amt it\<rparr>]"
    using Cons.prems(7) [OF _ v(1)] by auto
  note g = get_account_spec [OF b(1) Cons.prems(2)]
  have ne: "src \<noteq> dst it" using Cons.prems(4) by auto
  have fresh: "pa_key p \<notin> keys w" using Cons.prems(6) b(3) g(3) by auto
  have wh: "whole_cents (amt it)" using Cons.prems(8) by simp
  note tr = transfer [OF g(1) g(6) [OF Cons.prems(3)] g(4) ne wh fresh b(4,2)]
  have "ok s' \<and> bal s' src = bal v src - sum_list (map amt its)
    \<and> (\<forall>ow. ow \<noteq> src \<longrightarrow> bal s' ow = bal v ow + sum_list (map amt (filter (\<lambda>it. dst it = ow) its)))
    \<and> keys s' = keys v \<union> key ` set its \<and> rest s' = rest v
    \<and> (\<forall>ow j. acct v ow = Some j \<longrightarrow> acct s' ow = Some j)"
  proof (rule Cons.IH [OF v(2) tr(1)])
    show "acct v src = Some i" using g(6) Cons.prems(3) by (simp add: tr(4))
    show "src \<notin> dst ` set its" using Cons.prems(4) by simp
    show "distinct (map key its)" using Cons.prems(5) by simp
    show "key ` set its \<inter> keys v = {}" using Cons.prems(5,6) b(3) g(3) by (auto simp: tr(3))
  qed (use Cons.prems in auto)
  then show ?case
    using g(2,3,5,6) ne b(3) tr(2,3,4,5) by auto
qed

lemma transfers_return:
  fixes dst :: "'i \<Rightarrow> owner" and amt :: "'i \<Rightarrow> money" and key :: "'i \<Rightarrow> string"
    and body :: "'i \<Rightarrow> 's \<Rightarrow> 's result"
  assumes step: "\<And>it u. it \<in> set items \<Longrightarrow> \<exists>a w p. get_account (dst it) u = (a, w) \<and> pa_key p = key it
        \<and> pa_entries p = [\<lparr>ent_account = i, ent_amount = - amt it\<rparr>, \<lparr>ent_account = acc_id a, ent_amount = amt it\<rparr>]
        \<and> (\<forall>t v. post_in p w = Inr (t, v) \<longrightarrow> body it u = Inr v)"
    and s: "ok s" "acct s src = Some i" "src \<notin> dst ` set items" "snd src \<notin> USER_BALANCE_KINDS"
    and keys: "distinct (map key items)" "key ` set items \<inter> keys s = {}"
    and whole: "\<And>it. it \<in> set items \<Longrightarrow> whole_cents (amt it) \<and> 0 \<le> amt it"
  shows "\<exists>s'. fold_result body items s = Inr s'"
  using s keys step whole
proof (induction items arbitrary: s)
  case Nil
  then show ?case by simp
next
  case (Cons it its)
  obtain a w p where b: "get_account (dst it) s = (a, w)" "pa_key p = key it"
      "pa_entries p = [\<lparr>ent_account = i, ent_amount = - amt it\<rparr>, \<lparr>ent_account = acc_id a, ent_amount = amt it\<rparr>]"
      "\<And>t v. post_in p w = Inr (t, v) \<Longrightarrow> body it s = Inr v"
    using Cons.prems(7) [of it s] by auto
  note g = get_account_spec [OF b(1) Cons.prems(1)]
  have ne: "src \<noteq> dst it" using Cons.prems(3) by auto
  have fresh: "pa_key p \<notin> keys w" using Cons.prems(6) b(2) g(3) by auto
  have wh: "whole_cents (amt it)" "0 \<le> amt it" using Cons.prems(8) by auto
  obtain t v where v: "post_in p w = Inr (t, v)"
    using transfer_returns [OF g(1) g(6) [OF Cons.prems(2)] g(4) ne wh(1) fresh wh(2) b(3)] Cons.prems(4) by auto
  note tr = transfer [OF g(1) g(6) [OF Cons.prems(2)] g(4) ne wh(1) fresh b(3) v]
  have "\<exists>s'. fold_result body its v = Inr s'"
  proof (rule Cons.IH [OF tr(1)])
    show "acct v src = Some i" using g(6) Cons.prems(2) by (simp add: tr(4))
    show "src \<notin> dst ` set its" using Cons.prems(3) by simp
    show "distinct (map key its)" using Cons.prems(5) by simp
    show "key ` set its \<inter> keys v = {}" using Cons.prems(5,6) b(2) g(3) by (auto simp: tr(3))
  qed (use Cons.prems in auto)
  then show ?case using b(4) [OF v] by auto
qed

end

end
