(* ===== verification/Bingo.thy ===== *)
theory Bingo
  imports Prelude
begin

text \<open>
  The cards and the win rule of \<open>packages/core/bingo.py\<close>. A grid is a list of rows, as in the code;
  reading a cell of a grid that is too small is the \<open>IndexError\<close> it raises. The lemmas show that on
  a 5 by 5 grid no error arises, that the win verdict counts exactly the enabled complete lines, and
  that it can only turn from lost to won as numbers are called.
\<close>

type_synonym grid = "int list list"

definition FREE_ROW :: nat where "FREE_ROW = 2"
definition FREE_COL :: nat where "FREE_COL = 2"
definition MIN_WINNING_LINES :: int where "MIN_WINNING_LINES = 2"

definition COLUMN_RANGES :: "(string \<times> int list) list" where
  "COLUMN_RANGES = [(''B'', [1..15]), (''I'', [16..30]), (''N'', [31..45]), (''G'', [46..60]), (''O'', [61..75])]"

fun letter_in :: "(string \<times> int list) list \<Rightarrow> int \<Rightarrow> string result" where
  "letter_in [] n = Inl ValueError"
| "letter_in ((letter, rng) # rest) n = (if n \<in> set rng then Inr letter else letter_in rest n)"

definition letter_for :: "int \<Rightarrow> string result" where
  "letter_for n = letter_in COLUMN_RANGES n"

subsection \<open>Marking\<close>

fun map_result :: "('a \<Rightarrow> 'b result) \<Rightarrow> 'a list \<Rightarrow> 'b list result" where
  "map_result f [] = Inr []"
| "map_result f (x # xs) = bind_result (f x) (\<lambda>y. bind_result (map_result f xs) (\<lambda>ys. Inr (y # ys)))"

definition list_get :: "'a list \<Rightarrow> nat \<Rightarrow> 'a result" where
  "list_get xs i = (if i < length xs then Inr (xs ! i) else Inl IndexError)"

definition mark_cell :: "grid \<Rightarrow> int set \<Rightarrow> nat \<Rightarrow> nat \<Rightarrow> bool result" where
  "mark_cell grid called r c =
     (if r = FREE_ROW \<and> c = FREE_COL then Inr True
      else bind_result (list_get grid r) (\<lambda>row. bind_result (list_get row c) (\<lambda>n. Inr (n \<in> called))))"

definition mark_grid :: "grid \<Rightarrow> int set \<Rightarrow> bool list list result" where
  "mark_grid grid called = map_result (\<lambda>r. map_result (\<lambda>c. mark_cell grid called r c) [0..<5]) [0..<5]"

record pattern =
  pat_name :: string
  pat_kind :: string
  pat_cells :: "(nat \<times> nat) list"

definition digit :: "nat \<Rightarrow> string" where
  "digit n = [char_of (48 + n)]"

definition ALL_PATTERNS :: "pattern list" where
  "ALL_PATTERNS =
     map (\<lambda>r. \<lparr>pat_name = ''row_'' @ digit r, pat_kind = ''row'', pat_cells = map (\<lambda>c. (r, c)) [0..<5]\<rparr>) [0..<5] @
     map (\<lambda>c. \<lparr>pat_name = ''col_'' @ digit c, pat_kind = ''col'', pat_cells = map (\<lambda>r. (r, c)) [0..<5]\<rparr>) [0..<5] @
     [\<lparr>pat_name = ''diag_main'', pat_kind = ''diag'', pat_cells = map (\<lambda>i. (i, i)) [0..<5]\<rparr>,
      \<lparr>pat_name = ''diag_anti'', pat_kind = ''diag'', pat_cells = map (\<lambda>i. (i, 4 - i)) [0..<5]\<rparr>]"

definition winning_patterns :: "grid \<Rightarrow> int set \<Rightarrow> string list \<Rightarrow> pattern list result" where
  "winning_patterns grid called enabled =
     bind_result (mark_grid grid called) (\<lambda>marks.
       Inr (filter (\<lambda>p. pat_kind p \<in> set enabled \<and> list_all (\<lambda>(r, c). marks ! r ! c) (pat_cells p)) ALL_PATTERNS))"

definition has_won :: "grid \<Rightarrow> int set \<Rightarrow> string list \<Rightarrow> int \<Rightarrow> bool result" where
  "has_won grid called enabled min_winning_lines =
     bind_result (winning_patterns grid called enabled) (\<lambda>won. Inr (min_winning_lines \<le> int (length won)))"

subsection \<open>Facts\<close>

lemma map_result_Inr: "(\<And>x. x \<in> set xs \<Longrightarrow> f x = Inr (g x)) \<Longrightarrow> map_result f xs = Inr (map g xs)"
  by (induction xs) auto

lemma letter_for_Inr: "(\<exists>l. letter_for n = Inr l) \<longleftrightarrow> 1 \<le> n \<and> n \<le> 75"
  unfolding letter_for_def COLUMN_RANGES_def letter_in.simps set_upto atLeastAtMost_iff by auto

text \<open>A 5 by 5 grid, and the declarative reading of "marked" and "complete line".\<close>

definition wf_grid :: "grid \<Rightarrow> bool" where
  "wf_grid g \<longleftrightarrow> length g = 5 \<and> list_all (\<lambda>row. length row = 5) g"

definition marked :: "grid \<Rightarrow> int set \<Rightarrow> nat \<Rightarrow> nat \<Rightarrow> bool" where
  "marked g called r c \<longleftrightarrow> r = 2 \<and> c = 2 \<or> g ! r ! c \<in> called"

definition complete :: "grid \<Rightarrow> int set \<Rightarrow> pattern \<Rightarrow> bool" where
  "complete g called p \<longleftrightarrow> list_all (\<lambda>(r, c). marked g called r c) (pat_cells p)"

lemma mark_cell_wf:
  "wf_grid g \<Longrightarrow> r < 5 \<Longrightarrow> c < 5 \<Longrightarrow> mark_cell g called r c = Inr (marked g called r c)"
  by (auto simp: mark_cell_def marked_def wf_grid_def list_get_def FREE_ROW_def FREE_COL_def list_all_length)

lemma mark_grid_wf:
  assumes "wf_grid g"
  shows "mark_grid g called = Inr (map (\<lambda>r. map (marked g called r) [0..<5]) [0..<5])"
  unfolding mark_grid_def
proof (rule map_result_Inr)
  fix r assume "r \<in> set [0..<5]"
  then show "map_result (\<lambda>c. mark_cell g called r c) [0..<5] = Inr (map (marked g called r) [0..<5])"
    by (intro map_result_Inr) (simp add: mark_cell_wf [OF assms])
qed

lemma ALL_PATTERNS_cells: "p \<in> set ALL_PATTERNS \<Longrightarrow> (r, c) \<in> set (pat_cells p) \<Longrightarrow> r < 5 \<and> c < 5"
  by (auto simp: ALL_PATTERNS_def)

lemma winning_patterns_wf:
  assumes "wf_grid g"
  shows "winning_patterns g called enabled =
    Inr (filter (\<lambda>p. pat_kind p \<in> set enabled \<and> complete g called p) ALL_PATTERNS)"
proof -
  let ?m = "map (\<lambda>r. map (marked g called r) [0..<5]) [0..<5]"
  have "list_all (\<lambda>(r, c). ?m ! r ! c) (pat_cells p) = complete g called p" if "p \<in> set ALL_PATTERNS" for p
    using ALL_PATTERNS_cells [OF that] unfolding complete_def list_all_iff
    by (auto simp: nth_map [where n = "_ :: nat"] simp del: upt_Suc upt_rec_numeral)
  then show ?thesis
    unfolding winning_patterns_def mark_grid_wf [OF assms] bind_result_simps
    by (intro arg_cong [where f = Inr] filter_cong) auto
qed

lemma has_won_wf:
  assumes "wf_grid g"
  shows "has_won g called enabled n =
    Inr (n \<le> int (length (filter (\<lambda>p. pat_kind p \<in> set enabled \<and> complete g called p) ALL_PATTERNS)))"
  by (simp add: has_won_def winning_patterns_wf [OF assms])

lemma complete_mono: "called \<subseteq> called' \<Longrightarrow> complete g called p \<Longrightarrow> complete g called' p"
  by (auto simp: complete_def marked_def list_all_iff split: prod.splits)

lemma length_filter_mono:
  "(\<And>x. x \<in> set xs \<Longrightarrow> P x \<Longrightarrow> Q x) \<Longrightarrow> length (filter P xs) \<le> length (filter Q xs)"
  by (induction xs) (auto simp: le_SucI)

lemma has_won_mono:
  assumes "wf_grid g" "called \<subseteq> called'" "has_won g called enabled n = Inr True"
  shows "has_won g called' enabled n = Inr True"
proof -
  have "length (filter (\<lambda>p. pat_kind p \<in> set enabled \<and> complete g called p) ALL_PATTERNS)
      \<le> length (filter (\<lambda>p. pat_kind p \<in> set enabled \<and> complete g called' p) ALL_PATTERNS)"
    by (rule length_filter_mono) (use complete_mono [OF assms(2)] in auto)
  with assms(3) show ?thesis by (simp add: has_won_wf [OF assms(1)])
qed

text \<open>The number of lines a room's enabled kinds offer; all of them are complete once every number is called.\<close>

definition lines_offered :: "string list \<Rightarrow> nat" where
  "lines_offered enabled = length (filter (\<lambda>p. pat_kind p \<in> set enabled) ALL_PATTERNS)"

definition numbers_ok :: "grid \<Rightarrow> bool" where
  "numbers_ok g \<longleftrightarrow> (\<forall>r<5. \<forall>c<5. r = 2 \<and> c = 2 \<or> 1 \<le> g ! r ! c \<and> g ! r ! c \<le> 75)"

lemma has_won_all_called:
  assumes "wf_grid g" "numbers_ok g" "{1..75} \<subseteq> called" "n \<le> int (lines_offered enabled)"
  shows "has_won g called enabled n = Inr True"
proof -
  have "complete g called p" if p: "p \<in> set ALL_PATTERNS" for p
    unfolding complete_def list_all_iff
  proof clarify
    fix r c assume "(r, c) \<in> set (pat_cells p)"
    then have "r < 5" "c < 5" using ALL_PATTERNS_cells [OF p] by auto
    then have "r = 2 \<and> c = 2 \<or> g ! r ! c \<in> {1..75}" using assms(2) by (auto simp: numbers_ok_def)
    then show "marked g called r c" using assms(3) unfolding marked_def by blast
  qed
  then have "filter (\<lambda>p. pat_kind p \<in> set enabled \<and> complete g called p) ALL_PATTERNS
      = filter (\<lambda>p. pat_kind p \<in> set enabled) ALL_PATTERNS"
    by (intro filter_cong) auto
  with assms(4) show ?thesis by (simp add: has_won_wf [OF assms(1)] lines_offered_def)
qed

end
