(* ===== verification/Sha256.thy ===== *)
theory Sha256
  imports Prelude "HOL-Library.Word"
begin

text \<open>
  The part of Python's \<open>hashlib\<close> and \<open>hmac\<close> the fairness code calls: SHA-256 (FIPS 180-4) and
  HMAC over it (RFC 2104), on lists of bytes. No cryptographic property is claimed of them; the
  development uses that they are functions and that a digest has 32 bytes.
\<close>

unbundle bit_operations_syntax

type_synonym byte = "8 word"
type_synonym bytes = "byte list"
type_synonym w32 = "32 word"

text \<open>The standard's constants, by their definition: the first 32 bits of the fractional part of the
  square root (initial state) and of the cube root (round constants) of the first primes.\<close>

definition root_fraction :: "nat \<Rightarrow> nat \<Rightarrow> w32" where
  "root_fraction k p = of_nat (root_bits k (p * 2 ^ (32 * k)) 0 38)"

definition small_primes :: "nat \<Rightarrow> nat list" where
  "small_primes b = filter (\<lambda>n. list_all (\<lambda>d. n mod d \<noteq> 0) [2..<n]) [2..<b]"

definition sha_k :: "w32 list" where
  "sha_k = map (root_fraction 3) (small_primes 312)"

definition sha_init :: "w32 list" where
  "sha_init = map (root_fraction 2) (small_primes 20)"

lemma length_sha_init [simp]: "length sha_init = 8"
proof -
  have "length (small_primes 20) = 8" unfolding small_primes_def by code_simp
  then show ?thesis by (simp add: sha_init_def)
qed

text \<open>Big-endian integers: \<open>int.to_bytes(n, "big")\<close> and \<open>int.from_bytes(bs, "big")\<close>.\<close>

fun to_bytes :: "nat \<Rightarrow> nat \<Rightarrow> bytes" where
  "to_bytes 0 x = []"
| "to_bytes (Suc n) x = to_bytes n (x div 256) @ [of_nat (x mod 256)]"

definition from_bytes :: "bytes \<Rightarrow> nat" where
  "from_bytes bs = foldl (\<lambda>acc b. acc * 256 + unat b) 0 bs"

definition sha_pad :: "bytes \<Rightarrow> bytes" where
  "sha_pad m = m @ [0x80] @ replicate ((55 + 63 * length m) mod 64) 0 @ to_bytes 8 (8 * length m)"

fun chunks :: "nat \<Rightarrow> nat \<Rightarrow> 'a list \<Rightarrow> 'a list list" where
  "chunks 0 k xs = []"
| "chunks (Suc n) k xs = take k xs # chunks n k (drop k xs)"

definition rotr :: "nat \<Rightarrow> w32 \<Rightarrow> w32" where
  "rotr n w = drop_bit n w OR push_bit (32 - n) w"

fun sha_schedule :: "nat \<Rightarrow> w32 list \<Rightarrow> w32 list" where
  "sha_schedule 0 w = w"
| "sha_schedule (Suc n) w =
     (let i = length w; w15 = w ! (i - 15); w2 = w ! (i - 2);
          s0 = rotr 7 w15 XOR rotr 18 w15 XOR drop_bit 3 w15;
          s1 = rotr 17 w2 XOR rotr 19 w2 XOR drop_bit 10 w2
      in sha_schedule n (w @ [w ! (i - 16) + s0 + w ! (i - 7) + s1]))"

fun sha_rounds :: "(w32 \<times> w32) list \<Rightarrow> w32 list \<Rightarrow> w32 list" where
  "sha_rounds ((k, w) # kws) [a, b, c, d, e, f, g, h] =
     (let s1 = rotr 6 e XOR rotr 11 e XOR rotr 25 e; ch = (e AND f) XOR (NOT e AND g);
          t1 = h + s1 + ch + k + w;
          s0 = rotr 2 a XOR rotr 13 a XOR rotr 22 a; maj = (a AND b) XOR (a AND c) XOR (b AND c)
      in sha_rounds kws [t1 + (s0 + maj), a, b, c, d + t1, e, f, g])"
| "sha_rounds _ v = v"

definition sha_block :: "w32 list \<Rightarrow> bytes \<Rightarrow> w32 list" where
  "sha_block h blk =
     (let w = sha_schedule 48 (map (\<lambda>bs. of_nat (from_bytes bs)) (chunks 16 4 blk))
      in map2 (+) h (sha_rounds (zip sha_k w) h))"

definition sha256 :: "bytes \<Rightarrow> bytes" where
  "sha256 m =
     (let p = sha_pad m; hs = foldl sha_block sha_init (chunks (length p div 64) 64 p)
      in concat (map (\<lambda>w. to_bytes 4 (unat w)) hs))"

definition hmac_sha256 :: "bytes \<Rightarrow> bytes \<Rightarrow> bytes" where
  "hmac_sha256 key msg =
     (let k0 = if 64 < length key then sha256 key else key; k = k0 @ replicate (64 - length k0) 0
      in sha256 (map ((XOR) 0x5c) k @ sha256 (map ((XOR) 0x36) k @ msg)))"

text \<open>A digest has 32 bytes.\<close>

lemma length_to_bytes [simp]: "length (to_bytes n x) = n"
  by (induction n arbitrary: x) auto

lemma length_sha_rounds [simp]: "length (sha_rounds kws v) = length v"
  by (induction kws v rule: sha_rounds.induct) (auto simp: Let_def)

lemma length_sha_block: "length h = 8 \<Longrightarrow> length (sha_block h blk) = 8"
  by (simp add: sha_block_def)

lemma length_sha256 [simp]: "length (sha256 m) = 32"
proof -
  have "length (foldl sha_block h bs) = 8" if "length h = 8" for h bs
    using that by (induction bs arbitrary: h) (auto simp: length_sha_block)
  then have "length (foldl sha_block sha_init bs) = 8" for bs
    by simp
  then show ?thesis
    by (simp add: sha256_def Let_def length_concat comp_def sum_list_triv)
qed

lemma length_hmac_sha256 [simp]: "length (hmac_sha256 key msg) = 32"
  by (simp add: hmac_sha256_def Let_def)

lemma from_bytes_snoc: "from_bytes (bs @ [b]) = from_bytes bs * 256 + unat b"
  by (simp add: from_bytes_def)

lemma from_bytes_bound: "from_bytes bs < 256 ^ length bs"
proof (induction bs rule: rev_induct)
  case (snoc b bs)
  have "unat b < 256" using unsigned_less [of b, where 'a = nat] by simp
  with snoc show ?case by (simp add: from_bytes_snoc)
qed (simp add: from_bytes_def)

lemma from_to_bytes: "x < 256 ^ n \<Longrightarrow> from_bytes (to_bytes n x) = x"
proof (induction n arbitrary: x)
  case (Suc n)
  then have "x div 256 < 256 ^ n" by (simp add: less_mult_imp_div_less mult.commute)
  with Suc.IH [of "x div 256"] show ?case
    by (simp add: from_bytes_snoc unat_of_nat)
qed (simp add: from_bytes_def)

lemma to_bytes_inject: "x < 256 ^ n \<Longrightarrow> y < 256 ^ n \<Longrightarrow> to_bytes n x = to_bytes n y \<longleftrightarrow> x = y"
  by (metis from_to_bytes)

definition hex_digit :: "nat \<Rightarrow> char" where
  "hex_digit n = (if n < 10 then char_of (48 + n) else char_of (87 + n))"

definition hexdigest :: "bytes \<Rightarrow> string" where
  "hexdigest bs = concat (map (\<lambda>b. [hex_digit (unat b div 16), hex_digit (unat b mod 16)]) bs)"

definition ascii :: "string \<Rightarrow> bytes" where
  "ascii s = map (\<lambda>c. of_nat (of_char c)) s"

end
