(* ===== verification/Database.thy ===== *)
theory Database
  imports Wallet Bingo Sha256
begin

text \<open>
  The tables the components share, as the migrations create them (\<open>88556f01eaf8_game_tables\<close>,
  \<open>35986afdada5_responsible_gaming\<close>, \<open>a3f7c2e91b04_keno_core_schema\<close> and the later ones that widen them):
  one record type per table with the columns the code reads or writes, one record for the database, and
  the lookups and updates by primary key. A timestamp is a count of microseconds. A serial id is one
  more than the number of rows, as for the ledger.
\<close>

subsection \<open>Users and limits\<close>

record user_row =
  us_id :: int
  us_status :: string
  us_is_simulated :: bool
  us_display_name :: string

record limits =
  lim_user_id :: int
  daily_deposit_cap :: "money option"
  pending_daily_deposit_cap :: "money option"
  pending_daily_deposit_cap_effective_at :: "int option"
  daily_loss_cap :: "money option"
  pending_daily_loss_cap :: "money option"
  pending_daily_loss_cap_effective_at :: "int option"
  cooloff_until :: "int option"
  self_excluded_until :: "int option"

subsection \<open>Bingo\<close>

record room_row =
  rm_id :: int
  rm_code :: string
  rm_stake :: money
  rm_house_cut_bps :: int
  rm_min_players :: int
  rm_max_players :: int
  rm_lobby_seconds :: int
  rm_call_interval_ms :: int
  rm_result_seconds :: int
  rm_win_patterns :: "string list"
  rm_is_active :: bool
  rm_max_cards_per_player :: int
  rm_no_player_next_round_delay_seconds :: int
  rm_min_winning_lines :: int

record round_row =
  rd_id :: int
  rd_room :: int
  rd_seq :: int
  rd_status :: string
  rd_stake :: money
  rd_house_cut_bps :: int
  rd_player_count :: int
  rd_pot :: money
  rd_derash :: money
  rd_server_seed :: "bytes option"
  rd_server_seed_hash :: string
  rd_client_seed :: "string option"
  rd_draw_order :: "int list option"
  rd_call_index :: int
  rd_lobby_deadline :: "int option"
  rd_started_at :: "int option"
  rd_ended_at :: "int option"

record entry_state_row =
  en_round :: int
  en_card :: int
  en_user :: int
  en_auto :: bool
  en_stake_txn :: "int option"

record winner_row =
  wn_round :: int
  wn_user :: int
  wn_card :: int
  wn_pattern :: string
  wn_on_call :: int
  wn_amount :: money
  wn_payout_txn :: "int option"

record claim_row =
  cl_round :: int
  cl_user :: int
  cl_card :: "int option"
  cl_call_index :: int
  cl_valid :: bool

subsection \<open>Keno\<close>

record keno_config =
  kc_id :: int
  kc_version :: int
  kc_number_pool_size :: int
  kc_draw_count :: int
  kc_min_picks :: int
  kc_max_picks :: int
  kc_round_cycle_seconds :: int
  kc_betting_seconds :: int
  kc_draw_seconds :: int
  kc_result_seconds :: int
  kc_max_tickets_per_user_per_round :: int
  kc_per_user_round_capacity_share_bps :: int
  kc_jackpot_diversion_bps :: int
  kc_rtp_floor_bps :: int
  kc_rtp_ceiling_bps :: int
  kc_daily_payout_circuit_breaker_multiple :: rat
  kc_keno_enabled :: bool
  kc_beta_restricted :: bool
  kc_effective_from :: int

record keno_paytable =
  kp_id :: int
  kp_pick_count :: int
  kp_version :: int
  kp_profile :: string
  kp_multipliers :: "(int \<times> rat) list"
  kp_effective_from :: int

record keno_tier =
  kt_id :: int
  kt_tier_number :: int
  kt_version :: int
  kt_min_reserve :: money
  kt_max_pick_count :: int
  kt_max_top_multiplier :: rat
  kt_stake_options :: "money list"
  kt_max_win_per_ticket :: money
  kt_max_round_exposure_pct :: rat
  kt_paytable_profile :: string
  kt_effective_from :: int

record keno_tier_state =
  ts_current_tier :: int
  ts_candidate_tier :: "int option"
  ts_candidate_since :: "int option"

record keno_round =
  kr_id :: int
  kr_seq :: int
  kr_status :: string
  kr_config :: int
  kr_tier :: int
  kr_server_seed :: "bytes option"
  kr_server_seed_hash :: string
  kr_public_seed :: "string option"
  kr_ticket_ids_hash :: "string option"
  kr_drawn_numbers :: "int list option"
  kr_reveal_index :: int
  kr_total_stake :: money
  kr_total_payout :: money
  kr_ticket_count :: int
  kr_total_expected_payout :: money
  kr_total_payout_variance :: rat
  kr_projected_exposure :: "money option"
  kr_jackpot_hit :: bool
  kr_worker :: "string option"
  kr_failure_reason :: "string option"
  kr_scheduled_at :: int
  kr_betting_opened_at :: "int option"
  kr_betting_closed_at :: "int option"
  kr_draw_started_at :: "int option"
  kr_draw_completed_at :: "int option"
  kr_settled_at :: "int option"
  kr_completed_at :: "int option"

record keno_event =
  ke_round :: int
  ke_from_status :: "string option"
  ke_to_status :: string
  ke_worker :: "string option"
  ke_reason :: "string option"

record keno_ticket =
  tk_id :: int
  tk_round :: int
  tk_user :: int
  tk_paytable :: int
  tk_pick_count :: int
  tk_stake :: money
  tk_expected_payout_contribution :: money
  tk_payout_variance_contribution :: rat
  tk_status :: string
  tk_matches :: "int option"
  tk_payout :: "money option"
  tk_jackpot_payout :: "money option"
  tk_idempotency_key :: string
  tk_stake_txn :: "int option"
  tk_payout_txn :: "int option"
  tk_autoplay_session :: "int option"
  tk_settled_at :: "int option"

record tier_change =
  tc_from_tier :: "int option"
  tc_to_tier :: int
  tc_trigger :: string
  tc_reserve_balance :: "money option"

record autoplay_session =
  as_id :: int
  as_user :: int
  as_picks :: "int list"
  as_stake :: money
  as_rounds_total :: "int option"
  as_rounds_placed :: int
  as_stop_on_win :: "money option"
  as_stop_on_loss :: "money option"
  as_net_position :: money
  as_status :: string
  as_stop_reason :: "string option"
  as_last_round :: "int option"

record jackpot_pool =
  jp_account :: int
  jp_cap :: "money option"

subsection \<open>The database\<close>

record db =
  led :: ledger
  users :: "user_row list"
  rg_limits :: "int \<rightharpoonup> limits"
  rooms :: "room_row list"
  cards :: "int \<rightharpoonup> grid"
  rounds :: "round_row list"
  round_entries :: "entry_state_row list"
  round_winners :: "winner_row list"
  claim_attempts :: "claim_row list"
  keno_configs :: "keno_config list"
  keno_paytables :: "keno_paytable list"
  keno_tiers :: "keno_tier list"
  keno_tier_state :: "keno_tier_state option"
  keno_tier_changes :: "tier_change list"
  keno_rounds :: "keno_round list"
  keno_events :: "keno_event list"
  keno_tickets :: "keno_ticket list"
  keno_selections :: "(int \<times> int) list"
  keno_allowlist :: "int set"
  keno_sessions :: "autoplay_session list"
  keno_jackpot :: "jackpot_pool option"

definition empty_db :: db where
  "empty_db = \<lparr>led = empty_ledger, users = [], rg_limits = Map.empty, rooms = [], cards = Map.empty, rounds = [],
     round_entries = [], round_winners = [], claim_attempts = [], keno_configs = [], keno_paytables = [],
     keno_tiers = [], keno_tier_state = None, keno_tier_changes = [], keno_rounds = [], keno_events = [], keno_tickets = [],
     keno_selections = [], keno_allowlist = {}, keno_sessions = [], keno_jackpot = None\<rparr>"

definition user_by_id :: "db \<Rightarrow> int \<Rightarrow> user_row option" where
  "user_by_id d u = find (\<lambda>r. us_id r = u) (users d)"

definition round_by_id :: "db \<Rightarrow> int \<Rightarrow> round_row option" where
  "round_by_id d i = find (\<lambda>r. rd_id r = i) (rounds d)"

definition round_status :: "db \<Rightarrow> int \<Rightarrow> string option" where
  "round_status d i = map_option rd_status (round_by_id d i)"

definition update_round :: "int \<Rightarrow> (round_row \<Rightarrow> round_row) \<Rightarrow> db \<Rightarrow> db" where
  "update_round i f d = d\<lparr>rounds := map (\<lambda>r. if rd_id r = i then f r else r) (rounds d)\<rparr>"

definition entries_of :: "db \<Rightarrow> int \<Rightarrow> entry_state_row list" where
  "entries_of d i = filter (\<lambda>e. en_round e = i) (round_entries d)"

text \<open>\<open>PRIMARY KEY (round_id, card_no)\<close> and the three foreign keys.\<close>

definition insert_entry :: "entry_state_row \<Rightarrow> db \<Rightarrow> db result" where
  "insert_entry e d =
     (if \<exists>f\<in>set (round_entries d). en_round f = en_round e \<and> en_card f = en_card e then Inl UniqueViolation
      else if round_by_id d (en_round e) = None \<or> user_by_id d (en_user e) = None \<or> cards d (en_card e) = None
        then Inl ForeignKeyViolation
      else Inr (d\<lparr>round_entries := round_entries d @ [e]\<rparr>))"

text \<open>\<open>PRIMARY KEY (round_id, user_id, card_no)\<close> and the foreign keys.\<close>

definition insert_winner :: "winner_row \<Rightarrow> db \<Rightarrow> db result" where
  "insert_winner w d =
     (if \<exists>v\<in>set (round_winners d). wn_round v = wn_round w \<and> wn_user v = wn_user w \<and> wn_card v = wn_card w
        then Inl UniqueViolation
      else if round_by_id d (wn_round w) = None \<or> user_by_id d (wn_user w) = None then Inl ForeignKeyViolation
      else Inr (d\<lparr>round_winners := round_winners d @ [w]\<rparr>))"

definition insert_claim :: "claim_row \<Rightarrow> db \<Rightarrow> db result" where
  "insert_claim c d =
     (if round_by_id d (cl_round c) = None \<or> user_by_id d (cl_user c) = None
         \<or> (case cl_card c of None \<Rightarrow> False | Some k \<Rightarrow> cards d k = None) then Inl ForeignKeyViolation
      else Inr (d\<lparr>claim_attempts := claim_attempts d @ [c]\<rparr>))"

text \<open>A ledger call made inside a transaction on the whole database.\<close>

definition db_account :: "int option \<Rightarrow> string \<Rightarrow> db \<Rightarrow> account \<times> db" where
  "db_account u k d = (let (a, l) = get_or_create_account (led d) u k ''ETB'' in (a, d\<lparr>led := l\<rparr>))"

definition db_post :: "int \<Rightarrow> post_args \<Rightarrow> db \<Rightarrow> (ledger_txn \<times> db) result" where
  "db_post now p d = bind_result (post now p (led d)) (\<lambda>(t, l). Inr (t, d\<lparr>led := l\<rparr>))"

text \<open>\<open>COMMIT\<close>: the deferred trigger runs; when it raises, the whole transaction is rolled back.\<close>

definition db_commit :: "db \<Rightarrow> db \<Rightarrow> db result" where
  "db_commit old d = bind_result (commit (led old) (led d)) (\<lambda>l. Inr d)"

subsection \<open>Lookups after updates\<close>

lemma find_map_key:
  assumes "\<And>x. key (g x) = key x"
  shows "find (\<lambda>x. key x = i) (map g xs) = map_option g (find (\<lambda>x. key x = i) xs)"
  using assms by (induction xs) auto

lemma round_by_id_update:
  assumes "\<And>r. rd_id (f r) = rd_id r"
  shows "round_by_id (update_round i f d) j = (if i = j then map_option f (round_by_id d j) else round_by_id d j)"
proof -
  have "round_by_id (update_round i f d) j
      = map_option (\<lambda>r. if rd_id r = i then f r else r) (find (\<lambda>r. rd_id r = j) (rounds d))"
    unfolding round_by_id_def update_round_def
    by (simp, rule find_map_key) (simp add: assms)
  note up = this [folded round_by_id_def]
  show ?thesis
  proof (cases "round_by_id d j")
    case (Some r)
    then have "rd_id r = j" by (auto simp: round_by_id_def find_Some_iff)
    then show ?thesis using up Some by simp
  qed (simp add: up)
qed

lemma update_round_fields [simp]:
  "led (update_round i f d) = led d"
  "users (update_round i f d) = users d"
  "rg_limits (update_round i f d) = rg_limits d"
  "rooms (update_round i f d) = rooms d"
  "cards (update_round i f d) = cards d"
  "round_entries (update_round i f d) = round_entries d"
  "round_winners (update_round i f d) = round_winners d"
  "claim_attempts (update_round i f d) = claim_attempts d"
  "keno_tickets (update_round i f d) = keno_tickets d"
  by (simp_all add: update_round_def)

lemma round_by_id_in: "round_by_id d i = Some r \<Longrightarrow> r \<in> set (rounds d) \<and> rd_id r = i"
  by (auto simp: round_by_id_def find_Some_iff)

lemma round_by_id_None: "round_by_id d i = None \<longleftrightarrow> i \<notin> rd_id ` set (rounds d)"
  by (auto simp: round_by_id_def find_None_iff)

lemma db_account_spec:
  assumes "db_account u k d = (a, d')" "ledger_ok (led d)"
  shows "ledger_ok (led d')" "same_money (led d) (led d')" "acct_of (led d') (u, k) = Some (acc_id a)"
    "d' = d\<lparr>led := led d'\<rparr>"
proof -
  obtain l where l: "get_or_create_account (led d) u k ''ETB'' = (a, l)" "d' = d\<lparr>led := l\<rparr>"
    using assms(1) by (auto simp: db_account_def Let_def split: prod.splits)
  note s = get_or_create_account_spec [OF l(1) assms(2)]
  show "ledger_ok (led d')" "same_money (led d) (led d')" "acct_of (led d') (u, k) = Some (acc_id a)"
    "d' = d\<lparr>led := led d'\<rparr>"
    using s l(2) by simp_all
qed

lemma db_post_Inr: "db_post now p d = Inr (t, d') \<longleftrightarrow> (\<exists>l. post now p (led d) = Inr (t, l) \<and> d' = d\<lparr>led := l\<rparr>)"
  by (auto simp: db_post_def bind_result_Inr_iff)

lemma db_commit_Inr: "db_commit old d = Inr d' \<Longrightarrow> d' = d"
  by (auto simp: db_commit_def bind_result_Inr_iff)

lemma db_commit_ok: "ledger_ok (led d) \<Longrightarrow> db_commit old d = Inr d"
  by (simp add: db_commit_def commit_ok)

subsection \<open>The database as a wallet\<close>

definition tables_of :: "db \<Rightarrow> db" where
  "tables_of d = d\<lparr>led := empty_ledger\<rparr>"

lemma tables_of_led [simp]: "tables_of (d\<lparr>led := l\<rparr>) = tables_of d"
  by (simp add: tables_of_def)

lemma obal_nonneg:
  assumes "ledger_ok l" "snd ow \<in> USER_BALANCE_KINDS" shows "0 \<le> obal l ow"
proof (cases "acct_of l ow")
  case (Some i)
  have acc: "accounts_ok l" and bo: "balances_ok l" using assms(1) by (auto simp: ledger_ok_def)
  obtain a where a: "account_by_id l i = Some a" "acc_kind a = snd ow" using acct_of_by_id [OF acc Some] by blast
  show ?thesis
  proof (cases "balances l i")
    case None
    then show ?thesis by (simp add: obal_def Some raw_balance_def)
  next
    case (Some b)
    then have "bal_kind b = snd ow" "bal_kind b \<in> USER_BALANCE_KINDS \<longrightarrow> 0 \<le> bal_balance b"
      using bo a unfolding balances_ok_def by force+
    then show ?thesis using assms(2) Some \<open>acct_of l ow = Some i\<close> by (simp add: obal_def raw_balance_def)
  qed
qed (simp add: obal_def)

lemma db_post_posted:
  assumes "ledger_ok (led d)" "entries_for (led d) ms (pa_entries p)" "\<forall>m\<in>set ms. whole_cents (snd m)"
    "sum_list (map snd ms) = 0" "pa_key p \<notin> tkeys (led d)" "db_post now p d = Inr (t, d')"
  shows "ledger_ok (led d')" "obal (led d') ow = obal (led d) ow + odelta ms ow"
    "tkeys (led d') = insert (pa_key p) (tkeys (led d))" "acct_of (led d') = acct_of (led d)" "tables_of d' = tables_of d"
    "txns (led d') = txns (led d) @ [t]" "txn_id t = int (length (txns (led d))) + 1"
proof -
  obtain l where l: "post now p (led d) = Inr (t, l)" "d' = d\<lparr>led := l\<rparr>"
    using assms(6) by (auto simp: db_post_Inr)
  note pp = post_posted [OF assms(1-5) l(1)]
  have fr: "find_txn (led d) (pa_key p) = None" using assms(5) by (simp add: find_txn_None tkeys_def)
  then have pf: "post_fresh now p (led d) = Inr (t, l)" using l(1) by (auto simp: post_def split: if_splits)
  show "ledger_ok (led d')" "obal (led d') ow = obal (led d) ow + odelta ms ow"
    "tkeys (led d') = insert (pa_key p) (tkeys (led d))" "tables_of d' = tables_of d" "txns (led d') = txns (led d) @ [t]"
    using pp l(2) by (cases ow, simp_all add: posted_def)+
  show "acct_of (led d') = acct_of (led d)"
    using post_fresh_Inr(2) [OF pf] l(2) by (simp add: acct_of_def find_account_def fun_eq_iff)
  show "txn_id t = int (length (txns (led d))) + 1" by (simp add: post_fresh_Inr(1) [OF pf])
qed

interpretation dbw: wallet "\<lambda>d. ledger_ok (led d)" "\<lambda>d. obal (led d)" "\<lambda>d. tkeys (led d)" "\<lambda>d. acct_of (led d)"
  tables_of "\<lambda>ow. db_account (fst ow) (snd ow)" "db_post now" for now
proof
  fix ow d a d' o' i
  assume g: "db_account (fst ow) (snd ow) d = (a, d')" and ok: "ledger_ok (led d)"
  note s = db_account_spec [OF g ok]
  show "ledger_ok (led d')" "obal (led d') = obal (led d)" "tkeys (led d') = tkeys (led d)"
    "acct_of (led d') ow = Some (acc_id a)"
    using s(1,2,3) by (simp_all add: same_money_def tkeys_def)
  show "acct_of (led d) o' = Some i \<Longrightarrow> acct_of (led d') o' = Some i" using s(2) by (cases o') (simp add: same_money_def)
  show "tables_of d' = tables_of d" using s(4) tables_of_led by metis
next
  fix d ms p t d'
  assume a: "ledger_ok (led d)"
    "list_all2 (\<lambda>m e. acct_of (led d) (fst m) = Some (ent_account e) \<and> snd m = ent_amount e) ms (pa_entries p)"
    "\<forall>m\<in>set ms. whole_cents (snd m)" "sum_list (map snd ms) = 0" "pa_key p \<notin> tkeys (led d)"
    "db_post now p d = Inr (t, d')"
  then show "ledger_ok (led d') \<and> (\<forall>ow. obal (led d') ow = obal (led d) ow + odelta ms ow)
      \<and> tkeys (led d') = insert (pa_key p) (tkeys (led d)) \<and> acct_of (led d') = acct_of (led d) \<and> tables_of d' = tables_of d"
    using db_post_posted [OF a(1) a(2) [folded entries_for_def] a(3-6)] by blast
next
  fix d :: db and ms and p :: post_args
  assume a: "ledger_ok (led d)"
    "list_all2 (\<lambda>m e. acct_of (led d) (fst m) = Some (ent_account e) \<and> snd m = ent_amount e) ms (pa_entries p)"
    "\<forall>m\<in>set ms. whole_cents (snd m)" "ms \<noteq> []" "pa_key p \<notin> tkeys (led d)"
    "\<And>ow. ow \<in> fst ` set ms \<Longrightarrow> snd ow \<in> USER_BALANCE_KINDS \<Longrightarrow> 0 \<le> obal (led d) ow + odelta ms ow"
  obtain t l where "post now p (led d) = Inr (t, l)"
    using post_total [OF a(1) a(2) [folded entries_for_def] a(3,4,5,6)] by blast
  then show "\<exists>t d'. db_post now p d = Inr (t, d')" by (auto simp: db_post_Inr)
next
  fix d :: db and ow :: owner
  assume "ledger_ok (led d)" "snd ow \<in> USER_BALANCE_KINDS"
  then show "0 \<le> obal (led d) ow" by (rule obal_nonneg)
qed

end
