(* ===== verification/Keys.thy ===== *)
theory Keys
  imports Prelude
begin

text \<open>
  The idempotency keys. Every key of the ledger is a string formatted from ids and lives in one
  namespace, so the whole exactly-once argument of the program rests on these formats never
  producing the same string for two operations.
\<close>

subsection \<open>Decimal numerals: Python's \<open>str(int)\<close>\<close>

definition digit_char :: "nat \<Rightarrow> char" where
  "digit_char d = char_of (48 + d)"

fun str_nat :: "nat \<Rightarrow> string" where
  "str_nat n = (if n < 10 then [digit_char n] else str_nat (n div 10) @ [digit_char (n mod 10)])"

declare str_nat.simps [simp del]

definition str_int :: "int \<Rightarrow> string" where
  "str_int i = (if i < 0 then ''-'' @ str_nat (nat (- i)) else str_nat (nat i))"

definition is_digit :: "char \<Rightarrow> bool" where
  "is_digit c \<longleftrightarrow> 48 \<le> (of_char c :: nat) \<and> (of_char c :: nat) \<le> 57"

lemma of_char_digit: "d < 10 \<Longrightarrow> (of_char (digit_char d) :: nat) = 48 + d"
  by (simp add: digit_char_def of_char_of)

lemma digit_char_inj: "c < 10 \<Longrightarrow> d < 10 \<Longrightarrow> digit_char c = digit_char d \<longleftrightarrow> c = d"
  by (metis add_left_cancel of_char_digit)

lemma str_nat_digits: "c \<in> set (str_nat n) \<Longrightarrow> is_digit c"
proof (induction n rule: str_nat.induct)
  case (1 n)
  then show ?case
    using str_nat.simps [of n] by (auto simp: is_digit_def of_char_digit split: if_splits)
qed

lemma str_nat_not_Nil [simp]: "str_nat n \<noteq> []"
  by (subst str_nat.simps) simp

lemma str_nat_inj: "str_nat m = str_nat n \<Longrightarrow> m = n"
proof (induction m arbitrary: n rule: str_nat.induct)
  case (1 m)
  have u: "str_nat k = (if k < 10 then [digit_char k] else str_nat (k div 10) @ [digit_char (k mod 10)])" for k
    by (rule str_nat.simps)
  have ne: "[digit_char i] \<noteq> str_nat k @ [digit_char j]" for i j k
    using str_nat_not_Nil [of k] by (cases "str_nat k") auto
  show ?case
  proof (cases "m < 10")
    case True
    then have n: "n < 10" using "1.prems" u [of m] u [of n] ne by (metis not_less)
    then show ?thesis using True "1.prems" u [of m] u [of n] by (simp add: digit_char_inj)
  next
    case False
    then have n: "\<not> n < 10" using "1.prems" u [of m] u [of n] ne by metis
    have "str_nat (m div 10) @ [digit_char (m mod 10)] = str_nat (n div 10) @ [digit_char (n mod 10)]"
      using False n "1.prems" u [of m] u [of n] by simp
    then have "str_nat (m div 10) = str_nat (n div 10)" "digit_char (m mod 10) = digit_char (n mod 10)"
      by simp_all
    then have "m div 10 = n div 10" "m mod 10 = n mod 10"
      using "1.IH" [OF False] by (auto simp: digit_char_inj)
    then show ?thesis by (metis div_mult_mod_eq)
  qed
qed

lemma str_int_inj: "str_int i = str_int j \<longleftrightarrow> i = j"
proof
  assume a: "str_int i = str_int j"
  have nd: "hd (str_nat n) \<noteq> CHR ''-''" for n
    using str_nat_digits [of "hd (str_nat n)" n] by (auto simp: is_digit_def)
  from a nd [of "nat i"] nd [of "nat j"] show "i = j"
    by (auto simp: str_int_def split: if_splits dest!: str_nat_inj) (metis list.sel(1))+
qed simp

text \<open>A numeral followed by a character that is no digit can be read back from the front.\<close>

lemma append_sep_inj:
  assumes "a @ c # x = b @ c # y" "\<forall>z\<in>set a. is_digit z" "\<forall>z\<in>set b. is_digit z" "\<not> is_digit c"
  shows "a = b \<and> x = y"
proof -
  have t: "takeWhile is_digit (a @ c # x) = a" "takeWhile is_digit (b @ c # y) = b"
    using assms(2-4) by (auto simp: takeWhile_append)
  then have "a = b" using assms(1) by simp
  then show ?thesis using assms(1) by simp
qed

lemma str_int_sep:
  assumes "\<not> is_digit c" "str_int i @ c # x = str_int j @ c # y"
  shows "i = j \<and> x = y"
proof -
  have ne: "str_nat n @ z \<noteq> CHR ''-'' # w" for n z w
  proof -
    obtain d ds where d: "str_nat n = d # ds" using str_nat_not_Nil [of n] by (cases "str_nat n") simp_all
    have "is_digit d" using str_nat_digits [of d n] d by simp
    then show ?thesis using d by (auto simp: is_digit_def)
  qed
  have sep: "str_nat m @ c # x = str_nat n @ c # y \<Longrightarrow> m = n \<and> x = y" for m n
    using append_sep_inj [of "str_nat m" c x "str_nat n" y] assms(1) str_nat_digits str_nat_inj by blast
  consider "i < 0" "j < 0" | "i < 0" "\<not> j < 0" | "\<not> i < 0" "j < 0" | "\<not> i < 0" "\<not> j < 0" by blast
  then show ?thesis
  proof cases
    case 1
    then have "str_nat (nat (- i)) @ c # x = str_nat (nat (- j)) @ c # y" using assms(2) by (simp add: str_int_def)
    from sep [OF this] 1 show ?thesis by auto
  next
    case 2
    then show ?thesis using assms(2) ne [of "nat j" "c # y" "str_nat (nat (- i)) @ c # x"] by (simp add: str_int_def)
  next
    case 3
    then show ?thesis using assms(2) ne [of "nat i" "c # x"] by (simp add: str_int_def)
  next
    case 4
    then have "str_nat (nat i) @ c # x = str_nat (nat j) @ c # y" using assms(2) by (simp add: str_int_def)
    from sep [OF this] 4 show ?thesis by auto
  qed
qed

subsection \<open>The formats\<close>

definition stake_key :: "int \<Rightarrow> int \<Rightarrow> int \<Rightarrow> string" where
  "stake_key round_id user_id card_no =
     ''stake-'' @ str_int round_id @ ''-'' @ str_int user_id @ ''-'' @ str_int card_no"

definition drop_key :: "int \<Rightarrow> int \<Rightarrow> int \<Rightarrow> string" where
  "drop_key round_id user_id card_no =
     ''drop-'' @ str_int round_id @ ''-'' @ str_int user_id @ ''-'' @ str_int card_no"

definition refund_key :: "int \<Rightarrow> int \<Rightarrow> int \<Rightarrow> string" where
  "refund_key round_id user_id card_no =
     ''refund-'' @ str_int round_id @ ''-'' @ str_int user_id @ ''-'' @ str_int card_no"

definition settle_key :: "int \<Rightarrow> string" where
  "settle_key round_id = ''settle-'' @ str_int round_id"

definition keno_stake_key :: "int \<Rightarrow> string \<Rightarrow> string" where
  "keno_stake_key user_id client_key = ''keno:stake:'' @ str_int user_id @ '':'' @ client_key"

definition keno_settle_key :: "int \<Rightarrow> int \<Rightarrow> string" where
  "keno_settle_key round_id ticket_id = ''keno:settle:'' @ str_int round_id @ '':'' @ str_int ticket_id"

definition keno_jackpot_key :: "int \<Rightarrow> int \<Rightarrow> string" where
  "keno_jackpot_key round_id ticket_id = ''keno:jackpot:'' @ str_int round_id @ '':'' @ str_int ticket_id"

definition keno_refund_key :: "int \<Rightarrow> int \<Rightarrow> string" where
  "keno_refund_key round_id ticket_id = ''keno:refund:'' @ str_int round_id @ '':'' @ str_int ticket_id"

lemma not_digit_sep [simp]: "\<not> is_digit (CHR ''-'')" "\<not> is_digit (CHR '':'')"
  by (simp_all add: is_digit_def)

lemma dash3_inj:
  "str_int r @ ''-'' @ str_int u @ ''-'' @ str_int c = str_int r' @ ''-'' @ str_int u' @ ''-'' @ str_int c'
    \<longleftrightarrow> r = r' \<and> u = u' \<and> c = c'"
  using str_int_sep [of "CHR ''-''" r "str_int u @ ''-'' @ str_int c" r' "str_int u' @ ''-'' @ str_int c'"]
    str_int_sep [of "CHR ''-''" u "str_int c" u' "str_int c'"] str_int_inj by auto

lemma colon2_inj: "str_int r @ '':'' @ str_int t = str_int r' @ '':'' @ str_int t' \<longleftrightarrow> r = r' \<and> t = t'"
  using str_int_sep [of "CHR '':''" r "str_int t" r' "str_int t'"] str_int_inj by auto

lemma key_inj [simp]:
  "stake_key r u c = stake_key r' u' c' \<longleftrightarrow> r = r' \<and> u = u' \<and> c = c'"
  "drop_key r u c = drop_key r' u' c' \<longleftrightarrow> r = r' \<and> u = u' \<and> c = c'"
  "refund_key r u c = refund_key r' u' c' \<longleftrightarrow> r = r' \<and> u = u' \<and> c = c'"
  "settle_key r = settle_key r' \<longleftrightarrow> r = r'"
  "keno_settle_key r t = keno_settle_key r' t' \<longleftrightarrow> r = r' \<and> t = t'"
  "keno_jackpot_key r t = keno_jackpot_key r' t' \<longleftrightarrow> r = r' \<and> t = t'"
  "keno_refund_key r t = keno_refund_key r' t' \<longleftrightarrow> r = r' \<and> t = t'"
  by (simp_all only: stake_key_def drop_key_def refund_key_def settle_key_def keno_settle_key_def
      keno_jackpot_key_def keno_refund_key_def append_same_eq same_append_eq dash3_inj colon2_inj str_int_inj)

lemma keno_stake_key_inj [simp]: "keno_stake_key u k = keno_stake_key u' k' \<longleftrightarrow> u = u' \<and> k = k'"
  using str_int_sep [of "CHR '':''" u k u' k'] by (auto simp: keno_stake_key_def)

lemma key_kinds_distinct [simp]:
  "stake_key r u c \<noteq> drop_key r' u' c'" "stake_key r u c \<noteq> refund_key r' u' c'" "stake_key r u c \<noteq> settle_key r'"
  "drop_key r u c \<noteq> stake_key r' u' c'" "drop_key r u c \<noteq> refund_key r' u' c'" "drop_key r u c \<noteq> settle_key r'"
  "refund_key r u c \<noteq> stake_key r' u' c'" "refund_key r u c \<noteq> drop_key r' u' c'" "refund_key r u c \<noteq> settle_key r'"
  "settle_key r \<noteq> stake_key r' u' c'" "settle_key r \<noteq> drop_key r' u' c'" "settle_key r \<noteq> refund_key r' u' c'"
  by (simp_all add: stake_key_def drop_key_def refund_key_def settle_key_def)

lemma keno_key_kinds_distinct [simp]:
  "keno_stake_key v k \<noteq> stake_key r u c" "keno_stake_key v k \<noteq> drop_key r u c"
  "keno_stake_key v k \<noteq> refund_key r u c" "keno_stake_key v k \<noteq> settle_key r"
  "keno_stake_key v k \<noteq> keno_settle_key r t" "keno_stake_key v k \<noteq> keno_jackpot_key r t"
  "keno_stake_key v k \<noteq> keno_refund_key r t"
  "keno_settle_key r t \<noteq> keno_stake_key v k" "keno_settle_key r t \<noteq> keno_jackpot_key r' t'"
  "keno_settle_key r t \<noteq> keno_refund_key r' t'" "keno_jackpot_key r t \<noteq> keno_settle_key r' t'"
  "keno_jackpot_key r t \<noteq> keno_stake_key v k" "keno_jackpot_key r t \<noteq> keno_refund_key r' t'"
  "keno_refund_key r t \<noteq> keno_settle_key r' t'" "keno_refund_key r t \<noteq> keno_jackpot_key r' t'"
  "keno_refund_key r t \<noteq> keno_stake_key v k"
  by (simp_all add: stake_key_def drop_key_def refund_key_def settle_key_def keno_stake_key_def
      keno_settle_key_def keno_jackpot_key_def keno_refund_key_def)

end
