(* ===== verification/Responsible_Gaming.thy ===== *)
theory Responsible_Gaming
  imports Database Keys
begin

text \<open>
  The responsible-gaming controls, \<open>packages/core/responsible_gaming.py\<close>: the parser of the
  \<open>/limits\<close> command, deposit and loss caps (a decrease at once, an increase after 24 hours), cool-off,
  self-exclusion, and the gates a stake goes through. The clock is an argument (\<open>datetime.now(UTC)\<close> and
  the database's \<open>now()\<close> are one clock), in microseconds. Strings are Latin-1.
\<close>

subsection \<open>The \<open>/limits\<close> command\<close>

datatype limits_action = SET_DEPOSIT | SET_LOSS | COOL_OFF | SELF_EXCLUDE

definition SELF_EXCLUSION_MINIMUM_DAYS :: int where "SELF_EXCLUSION_MINIMUM_DAYS = 180"
definition LIMIT_INCREASE_DELAY_HOURS :: int where "LIMIT_INCREASE_DELAY_HOURS = 24"

definition hours_us :: "int \<Rightarrow> int" where
  "hours_us h = h * 3600000000"

definition COOLOFF_DURATIONS_HOURS :: "(string \<times> int) list" where
  "COOLOFF_DURATIONS_HOURS = [(''24h'', 24), (''7d'', 24 * 7), (''30d'', 24 * 30)]"

definition LIMITS_SUBCOMMANDS :: "(string \<times> limits_action) list" where
  "LIMITS_SUBCOMMANDS = [(''deposit'', SET_DEPOSIT), (''loss'', SET_LOSS), (''cooloff'', COOL_OFF),
     (''selfexclude'', SELF_EXCLUDE)]"

text \<open>Python's \<open>str.split()\<close> and \<open>str.lower()\<close> on Latin-1.\<close>

definition is_space :: "char \<Rightarrow> bool" where
  "is_space c = (of_char c \<in> {9, 10, 11, 12, 13, 28, 29, 30, 31, 32, 133, 160 :: nat})"

fun split_ws :: "string \<Rightarrow> string \<Rightarrow> string list" where
  "split_ws [] w = (if w = [] then [] else [rev w])"
| "split_ws (c # cs) w =
     (if is_space c then (if w = [] then split_ws cs [] else rev w # split_ws cs []) else split_ws cs (c # w))"

definition lower_char :: "char \<Rightarrow> char" where
  "lower_char c =
     (let n = of_char c :: nat
      in if 65 \<le> n \<and> n \<le> 90 \<or> 192 \<le> n \<and> n \<le> 222 \<and> n \<noteq> 215 then char_of (n + 32) else c)"

definition parse_limits_command :: "string \<Rightarrow> limits_action option \<times> string option" where
  "parse_limits_command raw_args =
     (case split_ws raw_args [] of
        [cmd, arg] \<Rightarrow>
          (case map_of LIMITS_SUBCOMMANDS (map lower_char cmd) of
             None \<Rightarrow> (None, None)
           | Some action \<Rightarrow> (Some action, Some arg))
      | _ \<Rightarrow> (None, None))"

subsection \<open>Limits\<close>

definition fresh_limits :: "int \<Rightarrow> limits" where
  "fresh_limits u = \<lparr>lim_user_id = u, daily_deposit_cap = None, pending_daily_deposit_cap = None,
     pending_daily_deposit_cap_effective_at = None, daily_loss_cap = None, pending_daily_loss_cap = None,
     pending_daily_loss_cap_effective_at = None, cooloff_until = None, self_excluded_until = None\<rparr>"

definition get_or_create_limits :: "int \<Rightarrow> db \<Rightarrow> (limits \<times> db) result" where
  "get_or_create_limits u d =
     (case rg_limits d u of
        Some lm \<Rightarrow> Inr (lm, d)
      | None \<Rightarrow>
          (if user_by_id d u = None then Inl ForeignKeyViolation
           else Inr (fresh_limits u, d\<lparr>rg_limits := (rg_limits d)(u \<mapsto> fresh_limits u)\<rparr>)))"

definition effective :: "money option \<Rightarrow> money option \<Rightarrow> int option \<Rightarrow> int \<Rightarrow> money option" where
  "effective current pending pending_effective_at now =
     (case (pending, pending_effective_at) of
        (Some p, Some due) \<Rightarrow> (if due \<le> now then Some p else current)
      | _ \<Rightarrow> current)"

definition effective_deposit_cap :: "limits \<Rightarrow> int \<Rightarrow> money option" where
  "effective_deposit_cap lm now =
     effective (daily_deposit_cap lm) (pending_daily_deposit_cap lm) (pending_daily_deposit_cap_effective_at lm) now"

definition effective_loss_cap :: "limits \<Rightarrow> int \<Rightarrow> money option" where
  "effective_loss_cap lm now =
     effective (daily_loss_cap lm) (pending_daily_loss_cap lm) (pending_daily_loss_cap_effective_at lm) now"

definition update_limits :: "int \<Rightarrow> (limits \<Rightarrow> limits) \<Rightarrow> db \<Rightarrow> db" where
  "update_limits u f d = d\<lparr>rg_limits := (\<lambda>v. if v = u then map_option f (rg_limits d v) else rg_limits d v)\<rparr>"

definition set_deposit_limit :: "int \<Rightarrow> int \<Rightarrow> money \<Rightarrow> db \<Rightarrow> (bool \<times> db) result" where
  "set_deposit_limit now u new_cap d =
     bind_result (get_or_create_limits u d) (\<lambda>(lm, d1).
       (case effective_deposit_cap lm now of
          Some current \<Rightarrow>
            (if new_cap \<le> current
             then Inr (True, update_limits u (\<lambda>l. l\<lparr>daily_deposit_cap := Some (numeric2 new_cap),
                pending_daily_deposit_cap := None, pending_daily_deposit_cap_effective_at := None\<rparr>) d1)
             else Inr (False, update_limits u (\<lambda>l. l\<lparr>pending_daily_deposit_cap := Some (numeric2 new_cap),
                pending_daily_deposit_cap_effective_at := Some (now + hours_us LIMIT_INCREASE_DELAY_HOURS)\<rparr>) d1))
        | None \<Rightarrow> Inr (True, update_limits u (\<lambda>l. l\<lparr>daily_deposit_cap := Some (numeric2 new_cap),
                pending_daily_deposit_cap := None, pending_daily_deposit_cap_effective_at := None\<rparr>) d1)))"

definition set_loss_limit :: "int \<Rightarrow> int \<Rightarrow> money \<Rightarrow> db \<Rightarrow> (bool \<times> db) result" where
  "set_loss_limit now u new_cap d =
     bind_result (get_or_create_limits u d) (\<lambda>(lm, d1).
       (case effective_loss_cap lm now of
          Some current \<Rightarrow>
            (if new_cap \<le> current
             then Inr (True, update_limits u (\<lambda>l. l\<lparr>daily_loss_cap := Some (numeric2 new_cap),
                pending_daily_loss_cap := None, pending_daily_loss_cap_effective_at := None\<rparr>) d1)
             else Inr (False, update_limits u (\<lambda>l. l\<lparr>pending_daily_loss_cap := Some (numeric2 new_cap),
                pending_daily_loss_cap_effective_at := Some (now + hours_us LIMIT_INCREASE_DELAY_HOURS)\<rparr>) d1))
        | None \<Rightarrow> Inr (True, update_limits u (\<lambda>l. l\<lparr>daily_loss_cap := Some (numeric2 new_cap),
                pending_daily_loss_cap := None, pending_daily_loss_cap_effective_at := None\<rparr>) d1)))"

definition cool_off :: "int \<Rightarrow> int \<Rightarrow> int \<Rightarrow> db \<Rightarrow> db result" where
  "cool_off now u duration_hours d =
     bind_result (get_or_create_limits u d) (\<lambda>(_, d1).
       Inr (update_limits u (\<lambda>l. l\<lparr>cooloff_until := Some (now + hours_us duration_hours)\<rparr>) d1))"

definition self_exclude :: "int \<Rightarrow> int \<Rightarrow> int \<Rightarrow> db \<Rightarrow> db result" where
  "self_exclude now u days d =
     (if days < SELF_EXCLUSION_MINIMUM_DAYS then Inl SelfExclusionTooShort
      else bind_result (get_or_create_limits u d) (\<lambda>(_, d1).
        let d2 = d1\<lparr>users := map (\<lambda>r. if us_id r = u then r\<lparr>us_status := ''self_excluded''\<rparr> else r) (users d1)\<rparr>
        in Inr (update_limits u (\<lambda>l. l\<lparr>self_excluded_until := Some (now + hours_us (24 * days))\<rparr>) d2)))"

subsection \<open>The gates\<close>

record play_block =
  blocked :: bool
  block_reason :: "string option"

definition no_block :: play_block where
  "no_block = \<lparr>blocked = False, block_reason = None\<rparr>"

definition play_block_from_row :: "int \<Rightarrow> (string \<times> int option) option \<Rightarrow> play_block" where
  "play_block_from_row now row =
     (case row of
        None \<Rightarrow> no_block
      | Some (status, cooloff) \<Rightarrow>
          (if status = ''self_excluded'' then \<lparr>blocked = True, block_reason = Some ''self_excluded''\<rparr>
           else if status = ''banned'' then \<lparr>blocked = True, block_reason = Some ''banned''\<rparr>
           else case cooloff of
                  Some until \<Rightarrow> (if now < until then \<lparr>blocked = True, block_reason = Some ''cooling_off''\<rparr> else no_block)
                | None \<Rightarrow> no_block))"

definition play_row :: "db \<Rightarrow> int \<Rightarrow> (string \<times> int option) option" where
  "play_row d u = map_option (\<lambda>r. (us_status r, Option.bind (rg_limits d u) cooloff_until)) (user_by_id d u)"

definition check_play_allowed :: "int \<Rightarrow> db \<Rightarrow> int \<Rightarrow> play_block" where
  "check_play_allowed now d u = play_block_from_row now (play_row d u)"

definition STAKE_KINDS :: "string set" where "STAKE_KINDS = {''stake'', ''keno_stake''}"
definition PAYOUT_KINDS :: "string set" where "PAYOUT_KINDS = {''payout'', ''keno_payout'', ''keno_jackpot_payout''}"
definition REFUND_KINDS :: "string set" where "REFUND_KINDS = {''refund'', ''keno_refund''}"

text \<open>Midnight in Addis Ababa (three hours ahead of UTC all year), as a timestamp.\<close>

definition day_start :: "int \<Rightarrow> int" where
  "day_start now = (now + hours_us 3) div hours_us 24 * hours_us 24 - hours_us 3"

text \<open>\<open>regexp_replace(key, '^(drop|refund)-', 'stake-')\<close>\<close>

definition stake_key_of_refund :: "string \<Rightarrow> string" where
  "stake_key_of_refund key =
     (if take 5 key = ''drop-'' then ''stake-'' @ drop 5 key
      else if take 7 key = ''refund-'' then ''stake-'' @ drop 7 key
      else key)"

text \<open>\<open>substring(key FROM '^keno:refund:[0-9]+:([0-9]+)$')::bigint\<close>\<close>

definition digits_value :: "string \<Rightarrow> int" where
  "digits_value ds = foldl (\<lambda>acc c. acc * 10 + (int (of_char c) - 48)) 0 ds"

definition keno_refund_ticket :: "string \<Rightarrow> int option" where
  "keno_refund_ticket key =
     (if take 12 key = ''keno:refund:'' then
        (let rest = drop 12 key; a = takeWhile is_digit rest; tl1 = dropWhile is_digit rest
         in if a \<noteq> [] \<and> take 1 tl1 = '':'' \<and> tl1 \<noteq> '':'' \<and> list_all is_digit (drop 1 tl1)
            then Some (digits_value (drop 1 tl1)) else None)
      else None)"

text \<open>An entry of the stake's own transaction, on the same account, posted today.\<close>

definition has_entry_today :: "int \<Rightarrow> ledger \<Rightarrow> int \<Rightarrow> int \<Rightarrow> bool" where
  "has_entry_today now l tid acct =
     list_ex (\<lambda>e. er_txn e = tid \<and> er_account e = acct \<and> day_start now \<le> er_created_at e) (entry_rows l)"

definition returns_a_stake_from_today :: "int \<Rightarrow> db \<Rightarrow> ledger_txn \<Rightarrow> int \<Rightarrow> bool" where
  "returns_a_stake_from_today now d t acct =
     (if txn_kind t = ''refund'' then
        txn_round t \<noteq> None
        \<and> list_ex (\<lambda>st. txn_key st = stake_key_of_refund (txn_key t) \<and> txn_kind st = ''stake''
             \<and> has_entry_today now (led d) (txn_id st) acct) (txns (led d))
      else if txn_kind t = ''keno_refund'' then
        list_ex (\<lambda>kt. Some (tk_id kt) = keno_refund_ticket (txn_key t)
             \<and> (case tk_stake_txn kt of None \<Rightarrow> False | Some s \<Rightarrow> has_entry_today now (led d) s acct)) (keno_tickets d)
      else False)"

text \<open>The rows of \<open>mine\<close>: today's entries of the user's cash account, each with its transaction.\<close>

definition loss_rows :: "int \<Rightarrow> db \<Rightarrow> int \<Rightarrow> (entry_row \<times> ledger_txn) list" where
  "loss_rows now d u =
     concat (map (\<lambda>e. map (\<lambda>t. (e, t))
         (filter (\<lambda>t. txn_id t = er_txn e \<and> txn_kind t \<in> STAKE_KINDS \<union> PAYOUT_KINDS \<union> REFUND_KINDS) (txns (led d))))
       (filter (\<lambda>e. day_start now \<le> er_created_at e
           \<and> (\<exists>a\<in>set (accounts (led d)). acc_id a = er_account e \<and> acc_user a = Some u \<and> acc_kind a = ''user_cash''))
         (entry_rows (led d))))"

definition today_net_loss :: "int \<Rightarrow> db \<Rightarrow> int \<Rightarrow> money" where
  "today_net_loss now d u =
     (let rows = loss_rows now d u;
          staked = sum_list (map (\<lambda>(e, t). - er_amount e) (filter (\<lambda>(e, t). txn_kind t \<in> STAKE_KINDS) rows));
          won = sum_list (map (\<lambda>(e, t). er_amount e) (filter (\<lambda>(e, t). txn_kind t \<in> PAYOUT_KINDS) rows));
          refunded = sum_list (map (\<lambda>(e, t). er_amount e)
            (filter (\<lambda>(e, t). txn_kind t \<in> REFUND_KINDS \<and> returns_a_stake_from_today now d t (er_account e)) rows))
      in staked - won - refunded)"

definition check_stake_allowed :: "int \<Rightarrow> db \<Rightarrow> int \<Rightarrow> money \<Rightarrow> play_block" where
  "check_stake_allowed now d u stake =
     (let row = play_row d u; block = play_block_from_row now row
      in if blocked block \<or> row = None then block
         else case Option.bind (rg_limits d u) (\<lambda>lm. effective_loss_cap lm now) of
                Some loss_cap \<Rightarrow>
                  (if loss_cap < today_net_loss now d u + stake
                   then \<lparr>blocked = True, block_reason = Some ''loss_limit_reached''\<rparr> else no_block)
              | None \<Rightarrow> no_block)"

definition marketing_eligible_user_ids :: "int \<Rightarrow> db \<Rightarrow> int list" where
  "marketing_eligible_user_ids now d =
     map us_id (filter (\<lambda>r. us_status r \<notin> {''self_excluded'', ''banned''}
        \<and> (case Option.bind (rg_limits d (us_id r)) cooloff_until of None \<Rightarrow> True | Some c \<Rightarrow> c \<le> now)) (users d))"

subsection \<open>Net loss as one sum\<close>

definition is_cash_of :: "ledger \<Rightarrow> int \<Rightarrow> int \<Rightarrow> bool" where
  "is_cash_of l u acct \<longleftrightarrow> (\<exists>a\<in>set (accounts l). acc_id a = acct \<and> acc_user a = Some u \<and> acc_kind a = ''user_cash'')"

definition counted_kinds :: "string set" where
  "counted_kinds = STAKE_KINDS \<union> PAYOUT_KINDS \<union> REFUND_KINDS"

definition loss_weight :: "int \<Rightarrow> db \<Rightarrow> entry_row \<times> ledger_txn \<Rightarrow> money" where
  "loss_weight now d = (\<lambda>(e, t).
     if txn_kind t \<in> STAKE_KINDS \<union> PAYOUT_KINDS
       \<or> txn_kind t \<in> REFUND_KINDS \<and> returns_a_stake_from_today now d t (er_account e)
     then - er_amount e else 0)"

lemma loss_rows_alt:
  "loss_rows now d u =
     concat (map (\<lambda>e. map (Pair e) (filter (\<lambda>t. txn_id t = er_txn e \<and> txn_kind t \<in> counted_kinds) (txns (led d))))
       (filter (\<lambda>e. day_start now \<le> er_created_at e \<and> is_cash_of (led d) u (er_account e)) (entry_rows (led d))))"
  by (simp add: loss_rows_def is_cash_of_def counted_kinds_def)

lemma kinds_disjoint:
  "k \<in> STAKE_KINDS \<Longrightarrow> k \<notin> PAYOUT_KINDS" "k \<in> STAKE_KINDS \<Longrightarrow> k \<notin> REFUND_KINDS"
  "k \<in> PAYOUT_KINDS \<Longrightarrow> k \<notin> REFUND_KINDS"
  by (auto simp: STAKE_KINDS_def PAYOUT_KINDS_def REFUND_KINDS_def)

lemma sum_list_split3:
  fixes f :: "'a \<Rightarrow> rat"
  assumes "\<And>x. \<not> (P x \<and> Q x)" "\<And>x. \<not> (P x \<and> R x)" "\<And>x. \<not> (Q x \<and> R x)"
  shows "sum_list (map (\<lambda>x. - f x) (filter P xs)) - sum_list (map f (filter Q xs)) - sum_list (map f (filter R xs))
    = sum_list (map (\<lambda>x. if P x \<or> Q x \<or> R x then - f x else 0) xs)"
  using assms by (induction xs) auto

lemma today_net_loss_sum: "today_net_loss now d u = sum_list (map (loss_weight now d) (loss_rows now d u))"
proof -
  let ?rs = "loss_rows now d u" and ?ret = "\<lambda>x. returns_a_stake_from_today now d (snd x) (er_account (fst x))"
  let ?st = "\<lambda>x. txn_kind (snd x) \<in> STAKE_KINDS" and ?pay = "\<lambda>x. txn_kind (snd x) \<in> PAYOUT_KINDS"
  let ?re = "\<lambda>x. txn_kind (snd x) \<in> REFUND_KINDS \<and> ?ret x"
  have "today_net_loss now d u = sum_list (map (\<lambda>x. - er_amount (fst x)) (filter ?st ?rs))
      - sum_list (map (\<lambda>x. er_amount (fst x)) (filter ?pay ?rs)) - sum_list (map (\<lambda>x. er_amount (fst x)) (filter ?re ?rs))"
    by (simp add: today_net_loss_def Let_def case_prod_unfold)
  also have "\<dots> = sum_list (map (\<lambda>x. if ?st x \<or> ?pay x \<or> ?re x then - er_amount (fst x) else 0) ?rs)"
    by (rule sum_list_split3) (use kinds_disjoint in blast)+
  also have "(\<lambda>x. if ?st x \<or> ?pay x \<or> ?re x then - er_amount (fst x) else 0) = loss_weight now d"
    by (auto simp: loss_weight_def fun_eq_iff)
  finally show ?thesis .
qed

text \<open>Creating an account leaves the net loss alone: no entry of it exists yet.\<close>

lemma net_loss_cong:
  assumes "txns (led d') = txns (led d)" "entry_rows (led d') = entry_rows (led d)" "keno_tickets d' = keno_tickets d"
    and "\<And>r. r \<in> set (entry_rows (led d)) \<Longrightarrow> is_cash_of (led d') u (er_account r) = is_cash_of (led d) u (er_account r)"
  shows "today_net_loss now d' u = today_net_loss now d u"
proof -
  have "loss_rows now d' u = loss_rows now d u"
    unfolding loss_rows_alt assms(1,2) using assms(4) by (metis (no_types, lifting) filter_cong)
  moreover have "returns_a_stake_from_today now d' = returns_a_stake_from_today now d"
    by (intro ext) (simp only: returns_a_stake_from_today_def has_entry_today_def assms)
  then have "loss_weight now d' = loss_weight now d" by (simp only: loss_weight_def)
  ultimately show ?thesis by (simp add: today_net_loss_sum)
qed

lemma is_cash_of_account:
  assumes ok: "ledger_ok (led d)" and goc: "db_account v k d = (a, d')" and r: "r \<in> set (entry_rows (led d))"
  shows "is_cash_of (led d') u (er_account r) = is_cash_of (led d) u (er_account r)"
proof -
  have fk: "er_account r \<in> acc_id ` set (accounts (led d))" using ok r by (simp add: ledger_ok_def entries_fk_def)
  have acc: "accounts_ok (led d)" using ok by (simp add: ledger_ok_def)
  have new: "int (length (accounts (led d))) + 1 \<notin> acc_id ` set (accounts (led d))"
    using account_by_id_new [OF acc] by (auto simp: account_by_id_def find_None_iff)
  have l: "led d' = snd (get_or_create_account (led d) v k ''ETB'')" "a = fst (get_or_create_account (led d) v k ''ETB'')"
    using goc by (auto simp: db_account_def Let_def split: prod.splits)
  show ?thesis
  proof (cases "find_account (led d) v k ''ETB''")
    case None
    then have "accounts (led d') = accounts (led d) @ [a] \<and> acc_id a = int (length (accounts (led d))) + 1"
      using l by (simp add: get_or_create_account_def Let_def)
    then show ?thesis using fk new by (auto simp: is_cash_of_def)
  next
    case (Some b)
    then show ?thesis using l by (simp add: get_or_create_account_def)
  qed
qed

lemma net_loss_account:
  assumes "ledger_ok (led d)" "db_account v k d = (a, d')"
  shows "today_net_loss now d' u = today_net_loss now d u"
proof (rule net_loss_cong)
  note s = db_account_spec [OF assms(2,1)]
  show "txns (led d') = txns (led d)" "entry_rows (led d') = entry_rows (led d)"
    using s(2) by (simp_all add: same_money_def)
  show "keno_tickets d' = keno_tickets d" by (subst s(4)) simp
qed (rule is_cash_of_account [OF assms])

lemma is_cash_of_owner:
  assumes "accounts_ok l" "acct_of l ow = Some i"
  shows "is_cash_of l u i \<longleftrightarrow> ow = (Some u, ''user_cash'')"
proof -
  obtain a where a: "find_account l (fst ow) (snd ow) ''ETB'' = Some a" "acc_id a = i"
    using assms(2) by (auto simp: acct_of_def)
  note b = find_account_in [OF a(1)]
  have "x = a" if "x \<in> set (accounts l)" "acc_id x = i" for x
    using accounts_ok_ids [OF assms(1)] that b a(2) by (auto simp: distinct_map dest: inj_onD)
  then show ?thesis using a b by (cases ow) (auto simp: is_cash_of_def)
qed

lemma day_start_le: "day_start now \<le> now"
proof -
  have "(now + hours_us 3) div hours_us 24 * hours_us 24 \<le> now + hours_us 3"
    unfolding hours_us_def by (simp add: div_times_less_eq_dividend)
  then show ?thesis by (simp add: day_start_def)
qed

subsection \<open>What a post does to the net loss\<close>

lemma filter_append_new_txn:
  assumes "txns_ok l" "txns l' = txns l @ [t]" "txn_id t = int (length (txns l)) + 1" "e \<in> set (entry_rows l)"
  shows "filter (\<lambda>x. txn_id x = er_txn e \<and> P x) (txns l') = filter (\<lambda>x. txn_id x = er_txn e \<and> P x) (txns l)"
  using txns_ok_new_id [OF assms(1,4)] assms(2,3) by auto

lemma txns_ok_ids:
  assumes "txns_ok l" "t \<in> set (txns l)" shows "txn_id t \<le> int (length (txns l))"
proof -
  have "txn_id t \<in> (\<lambda>i. int i + 1) ` {0..<length (txns l)}"
    using assms unfolding txns_ok_def by (metis image_eqI set_map set_upt)
  then show ?thesis by auto
qed

text \<open>The rows a post adds, each paired with its own transaction only.\<close>

lemma concat_single_txn:
  assumes "\<forall>e\<in>set es. er_txn e = tid" "\<forall>x\<in>set old. txn_id x \<noteq> tid" "txn_id t = tid"
  shows "concat (map (\<lambda>e. map (Pair e) (filter (\<lambda>x. txn_id x = er_txn e \<and> P x) (old @ [t]))) es)
    = (if P t then map (\<lambda>e. (e, t)) es else [])"
proof -
  have "filter (\<lambda>x. txn_id x = tid \<and> P x) old = []" using assms(2) by (auto simp: filter_empty_conv)
  with assms show ?thesis by (induction es) auto
qed

lemma loss_rows_post:
  assumes ok: "txns_ok l" and l: "l = led d" and l': "l' = led d'"
    and t: "txns l' = txns l @ [t]" "txn_id t = int (length (txns l)) + 1"
    and acc: "accounts l' = accounts l" and rs: "entry_rows l' = entry_rows l @ rs" "\<forall>r\<in>set rs. er_txn r = txn_id t"
  shows "loss_rows now d' u = loss_rows now d u @
    (if txn_kind t \<in> counted_kinds
     then map (\<lambda>e. (e, t)) (filter (\<lambda>e. day_start now \<le> er_created_at e \<and> is_cash_of l u (er_account e)) rs) else [])"
proof -
  let ?m = "\<lambda>e. day_start now \<le> er_created_at e \<and> is_cash_of l u (er_account e)"
  let ?f = "\<lambda>ts e. map (Pair e) (filter (\<lambda>x. txn_id x = er_txn e \<and> txn_kind x \<in> counted_kinds) ts)"
  have cash: "is_cash_of l' u = is_cash_of l u" by (simp add: is_cash_of_def acc fun_eq_iff)
  have old: "concat (map (?f (txns l')) (filter ?m (entry_rows l))) = concat (map (?f (txns l)) (filter ?m (entry_rows l)))"
    using filter_append_new_txn [OF ok t] by (intro arg_cong [where f = concat] map_cong) auto
  have "\<forall>x\<in>set (txns l). txn_id x \<noteq> txn_id t" using txns_ok_ids [OF ok] t(2) by fastforce
  then have new: "concat (map (?f (txns l')) (filter ?m rs))
      = (if txn_kind t \<in> counted_kinds then map (\<lambda>e. (e, t)) (filter ?m rs) else [])"
    unfolding t(1) by (intro concat_single_txn) (use rs(2) in auto)
  show ?thesis
    unfolding loss_rows_alt l [symmetric] l' [symmetric] cash rs(1) filter_append map_append concat_append old new ..
qed

text \<open>A transaction posted earlier keeps its classification, if no earlier refund was waiting for this stake.\<close>

lemma returns_old:
  assumes ok: "txns_ok (led d)" and t0: "t0 \<in> set (txns (led d))"
    and t: "txns (led d') = txns (led d) @ [t]" "txn_id t = int (length (txns (led d))) + 1"
    and rs: "entry_rows (led d') = entry_rows (led d) @ rs" "\<forall>r\<in>set rs. er_txn r = txn_id t"
    and tk: "keno_tickets d' = keno_tickets d" "\<forall>kt\<in>set (keno_tickets d). tk_stake_txn kt \<noteq> Some (txn_id t)"
    and early: "txn_kind t = ''stake'' \<Longrightarrow> txn_kind t0 = ''refund'' \<Longrightarrow> stake_key_of_refund (txn_key t0) \<noteq> txn_key t"
  shows "returns_a_stake_from_today now d' t0 a = returns_a_stake_from_today now d t0 a"
proof -
  have he: "has_entry_today now (led d') i a = has_entry_today now (led d) i a" if "i \<noteq> txn_id t" for i
    using that rs(2) by (auto simp: has_entry_today_def rs(1) list_ex_iff)
  have "txn_id x \<noteq> txn_id t" if "x \<in> set (txns (led d))" for x using txns_ok_ids [OF ok that] t(2) by simp
  then have 1: "(\<exists>st\<in>set (txns (led d')). txn_key st = stake_key_of_refund (txn_key t0) \<and> txn_kind st = ''stake''
        \<and> has_entry_today now (led d') (txn_id st) a)
      \<longleftrightarrow> (\<exists>st\<in>set (txns (led d)). txn_key st = stake_key_of_refund (txn_key t0) \<and> txn_kind st = ''stake''
        \<and> has_entry_today now (led d) (txn_id st) a)" if "txn_kind t0 = ''refund''"
    using he early that unfolding t(1) by auto
  have 2: "(\<exists>kt\<in>set (keno_tickets d). Some (tk_id kt) = keno_refund_ticket (txn_key t0)
        \<and> (case tk_stake_txn kt of None \<Rightarrow> False | Some s \<Rightarrow> has_entry_today now (led d') s a))
      \<longleftrightarrow> (\<exists>kt\<in>set (keno_tickets d). Some (tk_id kt) = keno_refund_ticket (txn_key t0)
        \<and> (case tk_stake_txn kt of None \<Rightarrow> False | Some s \<Rightarrow> has_entry_today now (led d) s a))"
    using tk(2) he by (intro bex_cong conj_cong refl) (auto split: option.splits)
  show ?thesis
    unfolding returns_a_stake_from_today_def list_ex_iff tk(1) using 1 2 by simp
qed

lemma entry_rows_of_created: "r \<in> set (entry_rows_of now tid n es) \<Longrightarrow> er_created_at r = now"
  by (induction es arbitrary: n) auto

lemma loss_rows_txn:
  "(e, t) \<in> set (loss_rows now d u) \<Longrightarrow> e \<in> set (entry_rows (led d)) \<and> t \<in> set (txns (led d)) \<and> txn_id t = er_txn e"
  by (auto simp: loss_rows_alt)

lemma net_loss_post:
  assumes ok: "ledger_ok (led d)" and post: "post now p (led d) = Inr (t, led d')"
    and fresh: "pa_key p \<notin> tkeys (led d)"
    and es: "entries_for (led d) ms (pa_entries p)" and whole: "\<forall>m\<in>set ms. whole_cents (snd m)"
    and acct: "acct_of (led d) (Some u, ''user_cash'') = Some acct"
    and tk: "keno_tickets d' = keno_tickets d"
      "\<forall>kt\<in>set (keno_tickets d). tk_stake_txn kt \<noteq> Some (int (length (txns (led d))) + 1)"
    and early: "\<And>t0. pa_kind p = ''stake'' \<Longrightarrow> t0 \<in> set (txns (led d)) \<Longrightarrow> txn_kind t0 = ''refund''
      \<Longrightarrow> stake_key_of_refund (txn_key t0) \<noteq> pa_key p"
  shows "today_net_loss now d' u = today_net_loss now d u -
    (if pa_kind p \<in> STAKE_KINDS \<union> PAYOUT_KINDS \<or> pa_kind p \<in> REFUND_KINDS \<and> returns_a_stake_from_today now d' t acct
     then odelta ms (Some u, ''user_cash'') else 0)"
proof -
  have acc: "accounts_ok (led d)" and to: "txns_ok (led d)" using ok by (auto simp: ledger_ok_def)
  have fr: "find_txn (led d) (pa_key p) = None" using fresh by (simp add: find_txn_None tkeys_def)
  then have pf: "post_fresh now p (led d) = Inr (t, led d')" using post by (auto simp: post_def split: if_splits)
  note s = post_fresh_Inr [OF pf]
  define rs where "rs = entry_rows_of now (txn_id t) (length (entry_rows (led d))) (pa_entries p)"
  have rs: "\<forall>r\<in>set rs. er_txn r = txn_id t" using entry_rows_of_elem by (auto simp: rs_def)
  have tid: "txn_id t = int (length (txns (led d))) + 1" by (simp add: s(1))
  have cash: "is_cash_of (led d) u i \<longleftrightarrow> i = acct" if i: "i \<in> ent_account ` set (pa_entries p)" for i
  proof -
    obtain e where e: "e \<in> set (pa_entries p)" "i = ent_account e" using i by auto
    obtain m where m: "acct_of (led d) (fst m) = Some i" using entries_for_accounts [OF es e(1)] e(2) by auto
    then show ?thesis using is_cash_of_owner [OF acc m] is_cash_of_owner [OF acc acct] acct_of_inj [OF acc m, of "(Some u, ''user_cash'')"] acct by auto
  qed
  have mine: "filter (\<lambda>e. day_start now \<le> er_created_at e \<and> is_cash_of (led d) u (er_account e)) rs
      = filter (\<lambda>e. er_account e = acct) rs"
    by (rule filter_cong) (use entry_rows_of_created entry_rows_of_elem day_start_le cash in \<open>auto simp: rs_def\<close>)
  note lr = loss_rows_post [OF to refl refl s(3) tid s(2) s(4) [folded rs_def] rs, of now u, unfolded mine]
  have same: "loss_weight now d' x = loss_weight now d x" if x: "x \<in> set (loss_rows now d u)" for x
  proof -
    have xin: "snd x \<in> set (txns (led d))" using x loss_rows_txn [of "fst x" "snd x"] by simp
    then have "returns_a_stake_from_today now d' (snd x) a = returns_a_stake_from_today now d (snd x) a" for a
      by (rule returns_old [OF to _ s(3) tid s(4) [folded rs_def] rs tk(1)]) (use tk(2) tid early [OF _ xin] s(1) in auto)
    then show ?thesis by (simp add: loss_weight_def case_prod_unfold)
  qed
  let ?counts = "txn_kind t \<in> STAKE_KINDS \<union> PAYOUT_KINDS \<or> txn_kind t \<in> REFUND_KINDS \<and> returns_a_stake_from_today now d' t acct"
  have sumrs: "sum_list (map er_amount (filter (\<lambda>e. er_account e = acct) rs)) = odelta ms (Some u, ''user_cash'')"
    unfolding rs_def
    using entry_rows_of_account [OF entries_for_whole [OF es whole]] entries_for_delta [OF acc es acct] by simp
  have "sum_list (map (loss_weight now d') (map (\<lambda>e. (e, t)) (filter (\<lambda>e. er_account e = acct) rs)))
      = (if ?counts then - odelta ms (Some u, ''user_cash'') else 0)"
  proof -
    have eq: "map (loss_weight now d') (map (\<lambda>e. (e, t)) (filter (\<lambda>e. er_account e = acct) rs))
        = map (\<lambda>e. if ?counts then - er_amount e else 0) (filter (\<lambda>e. er_account e = acct) rs)"
      by (auto simp: loss_weight_def)
    have neg: "sum_list (map (\<lambda>e. - er_amount e) xs) = - sum_list (map er_amount xs)" for xs
      by (induction xs) auto
    show ?thesis unfolding eq sumrs [symmetric] by (cases ?counts) (simp_all only: if_True if_False neg, simp)
  qed
  moreover have "?counts \<Longrightarrow> txn_kind t \<in> counted_kinds" by (auto simp: counted_kinds_def)
  moreover have "sum_list (map (loss_weight now d') (loss_rows now d u)) = today_net_loss now d u"
    unfolding today_net_loss_sum using same by (metis map_cong)
  moreover have "txn_kind t = pa_kind p" by (simp add: s(1))
  ultimately show ?thesis
    unfolding today_net_loss_sum [of now d'] lr by (auto simp: counted_kinds_def)
qed

subsection \<open>Refund keys lead back to their stake\<close>

lemma stake_key_of_drop [simp]: "stake_key_of_refund (drop_key r u c) = stake_key r u c"
  and stake_key_of_refund_key [simp]: "stake_key_of_refund (refund_key r u c) = stake_key r u c"
  by (simp_all add: stake_key_of_refund_def drop_key_def refund_key_def stake_key_def)

lemma of_char_less_10: "is_digit c \<Longrightarrow> int (of_char c) - 48 < 10 \<and> 0 \<le> int (of_char c) - 48"
  by (simp add: is_digit_def)

lemma digits_value_snoc: "digits_value (ds @ [c]) = digits_value ds * 10 + (int (of_char c) - 48)"
  by (simp add: digits_value_def)

lemma digits_value_str_nat: "digits_value (str_nat n) = int n"
proof (induction n rule: str_nat.induct)
  case (1 n)
  show ?case
  proof (cases "n < 10")
    case True
    then show ?thesis by (subst str_nat.simps) (simp add: digits_value_def of_char_digit)
  next
    case False
    then have "digits_value (str_nat n) = int (n div 10) * 10 + int (n mod 10)"
      using 1 [OF False] by (subst str_nat.simps) (simp add: digits_value_snoc of_char_digit)
    then show ?thesis by (metis div_mult_mod_eq of_nat_add of_nat_mult of_nat_numeral)
  qed
qed

lemma keno_refund_ticket_key:
  assumes "0 \<le> r" "0 \<le> t" shows "keno_refund_ticket (keno_refund_key r t) = Some t"
proof -
  have d: "\<forall>c\<in>set (str_nat n). is_digit c" for n using str_nat_digits by blast
  have tw: "takeWhile is_digit (str_nat n @ CHR '':'' # x) = str_nat n" for n x
    using d [of n] by (simp add: takeWhile_append)
  have dw: "dropWhile is_digit (str_nat n @ CHR '':'' # x) = CHR '':'' # x" for n x
    using d [of n] by (simp add: dropWhile_append)
  have e: "keno_refund_key r t = ''keno:refund:'' @ str_nat (nat r) @ CHR '':'' # str_nat (nat t)"
    using assms by (simp add: keno_refund_key_def str_int_def)
  show ?thesis
    unfolding keno_refund_ticket_def e using d assms tw dw
    by (simp add: Let_def list_all_iff digits_value_str_nat)
qed

subsection \<open>Caps\<close>

definition pending_ok :: "money option \<Rightarrow> money option \<Rightarrow> int option \<Rightarrow> bool" where
  "pending_ok cap pend due \<longleftrightarrow>
     (case pend of None \<Rightarrow> True | Some p \<Rightarrow> due \<noteq> None \<and> (case cap of None \<Rightarrow> False | Some c \<Rightarrow> c < p))"

definition limits_ok :: "db \<Rightarrow> bool" where
  "limits_ok d \<longleftrightarrow> (\<forall>u lm. rg_limits d u = Some lm \<longrightarrow>
     pending_ok (daily_deposit_cap lm) (pending_daily_deposit_cap lm) (pending_daily_deposit_cap_effective_at lm)
     \<and> pending_ok (daily_loss_cap lm) (pending_daily_loss_cap lm) (pending_daily_loss_cap_effective_at lm))"

definition loss_cap_at :: "db \<Rightarrow> int \<Rightarrow> int \<Rightarrow> money option" where
  "loss_cap_at d u now = Option.bind (rg_limits d u) (\<lambda>lm. effective_loss_cap lm now)"

definition deposit_cap_at :: "db \<Rightarrow> int \<Rightarrow> int \<Rightarrow> money option" where
  "deposit_cap_at d u now = Option.bind (rg_limits d u) (\<lambda>lm. effective_deposit_cap lm now)"

lemma get_or_create_limits_Inr:
  assumes "get_or_create_limits u d = Inr (lm, d1)"
  shows "rg_limits d1 = (rg_limits d)(u \<mapsto> lm)" "d1 = d\<lparr>rg_limits := (rg_limits d)(u \<mapsto> lm)\<rparr>"
    "rg_limits d u = Some lm \<or> rg_limits d u = None \<and> lm = fresh_limits u"
  using assms by (auto simp: get_or_create_limits_def fun_upd_idem split: option.splits if_splits)

lemma effective_None: "effective c None due now = c"
  by (simp add: effective_def)

lemma effective_at_most:
  assumes "pending_ok cap pend due" "effective cap pend due now = Some c"
  shows "\<exists>x. cap = Some x \<and> x \<le> c"
  using assms by (auto simp: pending_ok_def effective_def split: option.splits if_splits)

text \<open>Both setters have one shape: a cap, a pending cap and its due time, and a new value.\<close>

definition next_cap :: "int \<Rightarrow> money \<Rightarrow> money option \<Rightarrow> money option \<Rightarrow> int option
    \<Rightarrow> bool \<times> money option \<times> money option \<times> int option" where
  "next_cap now new_cap cap pend due =
     (case effective cap pend due now of
        Some current \<Rightarrow>
          (if new_cap \<le> current then (True, Some (numeric2 new_cap), None, None)
           else (False, cap, Some (numeric2 new_cap), Some (now + hours_us LIMIT_INCREASE_DELAY_HOURS)))
      | None \<Rightarrow> (True, Some (numeric2 new_cap), None, None))"

lemma next_cap_ok:
  assumes "pending_ok cap pend due" "whole_cents new_cap" "next_cap now new_cap cap pend due = (b, cap', pend', due')"
  shows "pending_ok cap' pend' due'"
proof (cases "effective cap pend due now")
  case (Some c)
  then obtain x where "cap = Some x" "x \<le> c" using effective_at_most [OF assms(1)] by blast
  then show ?thesis using assms(2,3) Some by (auto simp: next_cap_def pending_ok_def split: if_splits)
qed (use assms in \<open>auto simp: next_cap_def pending_ok_def\<close>)

lemma next_cap_delays:
  assumes "pending_ok cap pend due" "whole_cents new_cap" "next_cap now new_cap cap pend due = (b, cap', pend', due')"
    and c: "effective cap pend due now = Some c"
  shows "b \<longleftrightarrow> new_cap \<le> c"
    "now \<le> t \<Longrightarrow> t < now + hours_us LIMIT_INCREASE_DELAY_HOURS \<Longrightarrow> \<exists>x\<le>c. effective cap' pend' due' t = Some x"
    "now + hours_us LIMIT_INCREASE_DELAY_HOURS \<le> t \<Longrightarrow> effective cap' pend' due' t = Some new_cap"
    "b \<Longrightarrow> effective cap' pend' due' t = Some new_cap"
proof -
  obtain x where x: "cap = Some x" "x \<le> c" using effective_at_most [OF assms(1) c] by blast
  show "b \<longleftrightarrow> new_cap \<le> c"
    "now \<le> t \<Longrightarrow> t < now + hours_us LIMIT_INCREASE_DELAY_HOURS \<Longrightarrow> \<exists>x\<le>c. effective cap' pend' due' t = Some x"
    "now + hours_us LIMIT_INCREASE_DELAY_HOURS \<le> t \<Longrightarrow> effective cap' pend' due' t = Some new_cap"
    "b \<Longrightarrow> effective cap' pend' due' t = Some new_cap"
    using assms(2,3) c x by (auto simp: next_cap_def effective_def split: if_splits)
qed

lemma set_loss_limit_next:
  assumes "set_loss_limit now u new_cap d = Inr (b, d')"
  obtains lm cap' pend' due' where
    "rg_limits d u = Some lm \<or> rg_limits d u = None \<and> lm = fresh_limits u"
    "next_cap now new_cap (daily_loss_cap lm) (pending_daily_loss_cap lm) (pending_daily_loss_cap_effective_at lm) = (b, cap', pend', due')"
    "d' = d\<lparr>rg_limits := (rg_limits d)(u \<mapsto> lm\<lparr>daily_loss_cap := cap', pending_daily_loss_cap := pend',
       pending_daily_loss_cap_effective_at := due'\<rparr>)\<rparr>"
proof -
  obtain lm d1 where g: "get_or_create_limits u d = Inr (lm, d1)"
    using assms by (auto simp: set_loss_limit_def bind_result_Inr_iff)
  note s = get_or_create_limits_Inr [OF g]
  obtain cap' pend' due' where n:
    "next_cap now new_cap (daily_loss_cap lm) (pending_daily_loss_cap lm) (pending_daily_loss_cap_effective_at lm) = (b, cap', pend', due')
     \<and> d' = d\<lparr>rg_limits := (rg_limits d)(u \<mapsto> lm\<lparr>daily_loss_cap := cap', pending_daily_loss_cap := pend',
         pending_daily_loss_cap_effective_at := due'\<rparr>)\<rparr>"
    using assms unfolding set_loss_limit_def g bind_result_simps prod.case effective_loss_cap_def next_cap_def
    by (auto simp: update_limits_def s(2) fun_eq_iff intro!: db.equality split: option.splits if_splits)
  show thesis using that s(3) n by blast
qed

lemma set_deposit_limit_next:
  assumes "set_deposit_limit now u new_cap d = Inr (b, d')"
  obtains lm cap' pend' due' where
    "rg_limits d u = Some lm \<or> rg_limits d u = None \<and> lm = fresh_limits u"
    "next_cap now new_cap (daily_deposit_cap lm) (pending_daily_deposit_cap lm) (pending_daily_deposit_cap_effective_at lm) = (b, cap', pend', due')"
    "d' = d\<lparr>rg_limits := (rg_limits d)(u \<mapsto> lm\<lparr>daily_deposit_cap := cap', pending_daily_deposit_cap := pend',
       pending_daily_deposit_cap_effective_at := due'\<rparr>)\<rparr>"
proof -
  obtain lm d1 where g: "get_or_create_limits u d = Inr (lm, d1)"
    using assms by (auto simp: set_deposit_limit_def bind_result_Inr_iff)
  note s = get_or_create_limits_Inr [OF g]
  obtain cap' pend' due' where n:
    "next_cap now new_cap (daily_deposit_cap lm) (pending_daily_deposit_cap lm) (pending_daily_deposit_cap_effective_at lm) = (b, cap', pend', due')
     \<and> d' = d\<lparr>rg_limits := (rg_limits d)(u \<mapsto> lm\<lparr>daily_deposit_cap := cap', pending_daily_deposit_cap := pend',
         pending_daily_deposit_cap_effective_at := due'\<rparr>)\<rparr>"
    using assms unfolding set_deposit_limit_def g bind_result_simps prod.case effective_deposit_cap_def next_cap_def
    by (auto simp: update_limits_def s(2) fun_eq_iff intro!: db.equality split: option.splits if_splits)
  show thesis using that s(3) n by blast
qed

lemma fresh_pending_ok [simp]: "pending_ok c None due"
  by (simp add: pending_ok_def)

lemma limits_ok_upd:
  assumes "limits_ok d" "rg_limits d' = (rg_limits d)(u \<mapsto> lm)"
    "pending_ok (daily_deposit_cap lm) (pending_daily_deposit_cap lm) (pending_daily_deposit_cap_effective_at lm)"
    "pending_ok (daily_loss_cap lm) (pending_daily_loss_cap lm) (pending_daily_loss_cap_effective_at lm)"
  shows "limits_ok d'"
  using assms by (auto simp: limits_ok_def)

lemma limits_ok_row:
  assumes "limits_ok d" "rg_limits d u = Some lm \<or> rg_limits d u = None \<and> lm = fresh_limits u"
  shows "pending_ok (daily_deposit_cap lm) (pending_daily_deposit_cap lm) (pending_daily_deposit_cap_effective_at lm)"
    "pending_ok (daily_loss_cap lm) (pending_daily_loss_cap lm) (pending_daily_loss_cap_effective_at lm)"
  using assms by (auto simp: limits_ok_def fresh_limits_def)

lemma set_loss_limit_ok:
  assumes "set_loss_limit now u new_cap d = Inr (b, d')" "limits_ok d" "whole_cents new_cap"
  shows "limits_ok d'"
proof -
  obtain lm cap' pend' due' where
    n: "rg_limits d u = Some lm \<or> rg_limits d u = None \<and> lm = fresh_limits u"
    "next_cap now new_cap (daily_loss_cap lm) (pending_daily_loss_cap lm) (pending_daily_loss_cap_effective_at lm) = (b, cap', pend', due')"
    "d' = d\<lparr>rg_limits := (rg_limits d)(u \<mapsto> lm\<lparr>daily_loss_cap := cap', pending_daily_loss_cap := pend',
       pending_daily_loss_cap_effective_at := due'\<rparr>)\<rparr>"
    using set_loss_limit_next [OF assms(1)] by blast
  show ?thesis
    by (rule limits_ok_upd [OF assms(2), where u = u and lm = "lm\<lparr>daily_loss_cap := cap', pending_daily_loss_cap := pend',
        pending_daily_loss_cap_effective_at := due'\<rparr>"])
      (use n(3) limits_ok_row [OF assms(2) n(1)] next_cap_ok [OF _ assms(3) n(2)] in auto)
qed

lemma set_deposit_limit_ok:
  assumes "set_deposit_limit now u new_cap d = Inr (b, d')" "limits_ok d" "whole_cents new_cap"
  shows "limits_ok d'"
proof -
  obtain lm cap' pend' due' where
    n: "rg_limits d u = Some lm \<or> rg_limits d u = None \<and> lm = fresh_limits u"
    "next_cap now new_cap (daily_deposit_cap lm) (pending_daily_deposit_cap lm) (pending_daily_deposit_cap_effective_at lm) = (b, cap', pend', due')"
    "d' = d\<lparr>rg_limits := (rg_limits d)(u \<mapsto> lm\<lparr>daily_deposit_cap := cap', pending_daily_deposit_cap := pend',
       pending_daily_deposit_cap_effective_at := due'\<rparr>)\<rparr>"
    using set_deposit_limit_next [OF assms(1)] by blast
  show ?thesis
    by (rule limits_ok_upd [OF assms(2), where u = u and lm = "lm\<lparr>daily_deposit_cap := cap', pending_daily_deposit_cap := pend',
        pending_daily_deposit_cap_effective_at := due'\<rparr>"])
      (use n(3) limits_ok_row [OF assms(2) n(1)] next_cap_ok [OF _ assms(3) n(2)] in auto)
qed

subsection \<open>Sequences of the module's operations\<close>

datatype rg_op =
    GetLimits int
  | SetDepositLimit int money
  | SetLossLimit int money
  | CoolOff int int
  | SelfExclude int int

text \<open>An operation that raises leaves the database as it was.\<close>

definition or_same :: "db \<Rightarrow> db result \<Rightarrow> db" where
  "or_same d r = (case r of Inl e \<Rightarrow> d | Inr d' \<Rightarrow> d')"

fun rg_step :: "int \<times> rg_op \<Rightarrow> db \<Rightarrow> db" where
  "rg_step (now, GetLimits u) d = or_same d (bind_result (get_or_create_limits u d) (\<lambda>(_, d1). Inr d1))"
| "rg_step (now, SetDepositLimit u c) d = or_same d (bind_result (set_deposit_limit now u c d) (\<lambda>(_, d1). Inr d1))"
| "rg_step (now, SetLossLimit u c) d = or_same d (bind_result (set_loss_limit now u c d) (\<lambda>(_, d1). Inr d1))"
| "rg_step (now, CoolOff u h) d = or_same d (cool_off now u h d)"
| "rg_step (now, SelfExclude u n) d = or_same d (self_exclude now u n d)"

definition rg_run :: "(int \<times> rg_op) list \<Rightarrow> db \<Rightarrow> db" where
  "rg_run ops d = fold rg_step ops d"

definition all_excluded :: "db \<Rightarrow> int \<Rightarrow> bool" where
  "all_excluded d u \<longleftrightarrow> (\<forall>r\<in>set (users d). us_id r = u \<longrightarrow> us_status r = ''self_excluded'') \<and> u \<in> us_id ` set (users d)"

lemma get_or_create_limits_users: "get_or_create_limits u d = Inr (lm, d1) \<Longrightarrow> users d1 = users d"
  using get_or_create_limits_Inr(2) [of u d lm d1] by simp

lemma update_limits_users [simp]: "users (update_limits u f d) = users d"
  by (simp add: update_limits_def)

lemma rg_step_users:
  "users (rg_step (now, op) d) = users d \<or>
   (\<exists>v. users (rg_step (now, op) d) = map (\<lambda>r. if us_id r = v then r\<lparr>us_status := ''self_excluded''\<rparr> else r) (users d))"
proof (cases op)
  case (SetDepositLimit u c)
  then show ?thesis
    by (cases "set_deposit_limit now u c d") (auto simp: or_same_def elim: set_deposit_limit_next)
next
  case (SetLossLimit u c)
  then show ?thesis
    by (cases "set_loss_limit now u c d") (auto simp: or_same_def elim: set_loss_limit_next)
next
  case (GetLimits u)
  then show ?thesis
    by (cases "get_or_create_limits u d") (auto simp: or_same_def get_or_create_limits_users)
next
  case (CoolOff u h)
  then show ?thesis
    by (cases "get_or_create_limits u d") (auto simp: cool_off_def or_same_def get_or_create_limits_users)
next
  case (SelfExclude u n)
  then show ?thesis
    by (cases "get_or_create_limits u d") (auto simp: self_exclude_def or_same_def Let_def get_or_create_limits_users)
qed

lemma rg_step_all_excluded: "all_excluded d u \<Longrightarrow> all_excluded (rg_step x d) u"
proof -
  assume a: "all_excluded d u"
  obtain now op where x: "x = (now, op)" by fastforce
  from rg_step_users [of now op d] show ?thesis
  proof (elim disjE exE)
    fix v assume v: "users (rg_step (now, op) d) = map (\<lambda>r. if us_id r = v then r\<lparr>us_status := ''self_excluded''\<rparr> else r) (users d)"
    have "us_id ` set (users (rg_step (now, op) d)) = us_id ` set (users d)"
      unfolding v set_map image_image by (intro image_cong) auto
    then show ?thesis using a v unfolding x by (auto simp: all_excluded_def)
  qed (use a x in \<open>simp add: all_excluded_def\<close>)
qed

lemma rg_run_all_excluded: "all_excluded d u \<Longrightarrow> all_excluded (rg_run ops d) u"
  unfolding rg_run_def by (induction ops arbitrary: d) (auto simp: rg_step_all_excluded)

lemma all_excluded_blocked:
  assumes "all_excluded d u"
  shows "check_play_allowed now d u = \<lparr>blocked = True, block_reason = Some ''self_excluded''\<rparr>"
    "check_stake_allowed now d u stake = \<lparr>blocked = True, block_reason = Some ''self_excluded''\<rparr>"
    "u \<notin> set (marketing_eligible_user_ids now d)"
proof -
  obtain r where "user_by_id d u = Some r"
    using assms by (cases "user_by_id d u") (auto simp: all_excluded_def user_by_id_def find_None_iff)
  moreover from this have "us_status r = ''self_excluded''"
    using assms by (auto simp: all_excluded_def user_by_id_def find_Some_iff)
  ultimately show "check_play_allowed now d u = \<lparr>blocked = True, block_reason = Some ''self_excluded''\<rparr>"
    "check_stake_allowed now d u stake = \<lparr>blocked = True, block_reason = Some ''self_excluded''\<rparr>"
    by (simp_all add: check_play_allowed_def check_stake_allowed_def play_row_def play_block_from_row_def Let_def)
  show "u \<notin> set (marketing_eligible_user_ids now d)"
    using assms by (auto simp: marketing_eligible_user_ids_def all_excluded_def)
qed

text \<open>The gate, from the side of a caller that was let through.\<close>

lemma stake_allowed_cap:
  assumes "\<not> blocked (check_stake_allowed now d u stake)" "user_by_id d u \<noteq> None" "loss_cap_at d u now = Some cap"
  shows "today_net_loss now d u + stake \<le> cap"
  using assms by (auto simp: check_stake_allowed_def play_row_def Let_def loss_cap_at_def split: if_splits option.splits)

subsection \<open>Properties\<close>

text \<open>Changing the daily loss cap. When a cap is in force, a new cap takes effect at once exactly if it is
  no larger; otherwise, for the next 24 hours the cap in force is never above the old one, and from then
  on it is the new one. The table keeps the invariant that a pending cap is above the stored one.\<close>

theorem set_loss_limit_delay:
  assumes "set_loss_limit now u new_cap d = Inr (b, d')" "limits_ok d" "whole_cents new_cap"
    and "loss_cap_at d u now = Some c"
  shows "limits_ok d' \<and> (b \<longleftrightarrow> new_cap \<le> c) \<and> (b \<longrightarrow> (\<forall>t. loss_cap_at d' u t = Some new_cap))
    \<and> (\<forall>t. now \<le> t \<and> t < now + hours_us 24 \<longrightarrow> (\<exists>x\<le>c. loss_cap_at d' u t = Some x))
    \<and> (\<forall>t. now + hours_us 24 \<le> t \<longrightarrow> loss_cap_at d' u t = Some new_cap)
    \<and> (\<forall>v. v \<noteq> u \<longrightarrow> rg_limits d' v = rg_limits d v)"
proof -
  obtain lm cap' pend' due' where
    n: "rg_limits d u = Some lm \<or> rg_limits d u = None \<and> lm = fresh_limits u"
    "next_cap now new_cap (daily_loss_cap lm) (pending_daily_loss_cap lm) (pending_daily_loss_cap_effective_at lm) = (b, cap', pend', due')"
    "d' = d\<lparr>rg_limits := (rg_limits d)(u \<mapsto> lm\<lparr>daily_loss_cap := cap', pending_daily_loss_cap := pend',
       pending_daily_loss_cap_effective_at := due'\<rparr>)\<rparr>"
    using set_loss_limit_next [OF assms(1)] by blast
  have eff: "effective (daily_loss_cap lm) (pending_daily_loss_cap lm) (pending_daily_loss_cap_effective_at lm) now = Some c"
    using n(1) assms(4) by (auto simp: loss_cap_at_def effective_loss_cap_def)
  have at': "loss_cap_at d' u t = effective cap' pend' due' t" for t
    by (simp add: loss_cap_at_def n(3) effective_loss_cap_def)
  note nd = next_cap_delays [OF limits_ok_row(2) [OF assms(2) n(1)] assms(3) n(2) eff, unfolded LIMIT_INCREASE_DELAY_HOURS_def]
  show ?thesis
    unfolding at' using nd set_loss_limit_ok [OF assms(1-3)] n(3) by auto
qed

definition example_limits_db :: db where
  "example_limits_db = empty_db\<lparr>users := [\<lparr>us_id = 1, us_status = ''active'', us_is_simulated = False, us_display_name = ''A''\<rparr>],
     rg_limits := [1 \<mapsto> (fresh_limits 1)\<lparr>daily_loss_cap := Some 500\<rparr>]\<rparr>"

theorem set_loss_limit_delay_witness:
  "\<exists>d'. set_loss_limit 0 1 800 example_limits_db = Inr (False, d') \<and> loss_cap_at d' 1 (hours_us 24) = Some 800"
proof -
  have "\<exists>p. set_loss_limit 0 1 800 example_limits_db = Inr p"
    unfolding set_loss_limit_def get_or_create_limits_def example_limits_db_def effective_loss_cap_def effective_def fresh_limits_def
    by (rule exI) simp
  then obtain b d' where r: "set_loss_limit 0 1 800 example_limits_db = Inr (b, d')" by auto
  have ok: "limits_ok example_limits_db"
    by (simp add: limits_ok_def example_limits_db_def fresh_limits_def empty_db_def)
  have cap: "loss_cap_at example_limits_db 1 0 = Some 500"
    by (simp add: loss_cap_at_def example_limits_db_def effective_loss_cap_def effective_def fresh_limits_def)
  show ?thesis using set_loss_limit_delay [OF r ok _ cap] r by auto
qed



end
