(* ===== verification/Refunds.thy ===== *)
theory Refunds
  imports Database Keys
begin

text \<open>
  Giving a round back, \<open>services/engine/refunds.py\<close>: every entrant's stake returns from the pot escrow
  under the card's own refund key and the round becomes voided, in one transaction. The lemmas show
  that on a round that is not terminal this succeeds and moves exactly the stakes, and that on a
  terminal one it does nothing, which is what makes it safe to call twice.
\<close>

definition TERMINAL_STATUSES :: "string set" where
  "TERMINAL_STATUSES = {''done'', ''voided''}"

definition refund_args :: "int \<Rightarrow> money \<Rightarrow> string \<Rightarrow> int \<Rightarrow> int \<Rightarrow> entry_state_row \<Rightarrow> post_args" where
  "refund_args round_id stake reason pot cash e =
     \<lparr>pa_kind = ''refund'',
      pa_entries = [\<lparr>ent_account = pot, ent_amount = - stake\<rparr>, \<lparr>ent_account = cash, ent_amount = stake\<rparr>],
      pa_key = refund_key round_id (en_user e) (en_card e),
      pa_round = Some round_id, pa_payment = None, pa_memo = Some reason, pa_by = ''system''\<rparr>"

definition refund_entrant :: "int \<Rightarrow> int \<Rightarrow> money \<Rightarrow> string \<Rightarrow> int \<Rightarrow> entry_state_row \<Rightarrow> db \<Rightarrow> db result" where
  "refund_entrant now round_id stake reason pot e d =
     (let (cash_account, d1) = db_account (Some (en_user e)) ''user_cash'' d
      in bind_result (db_post now (refund_args round_id stake reason pot (acc_id cash_account) e) d1) (\<lambda>(_, d2). Inr d2))"

definition refund_round_in_transaction :: "int \<Rightarrow> int \<Rightarrow> string \<Rightarrow> db \<Rightarrow> (int \<times> db) result" where
  "refund_round_in_transaction now round_id reason d =
     (case round_by_id d round_id of
        None \<Rightarrow> Inr (0, d)
      | Some round_row \<Rightarrow>
          (if rd_status round_row \<in> TERMINAL_STATUSES then Inr (0, d)
           else let entrants = entries_of d round_id;
                    (pot_account, d1) = db_account None ''pot_escrow'' d
                in bind_result (fold_result (refund_entrant now round_id (rd_stake round_row) reason (acc_id pot_account)) entrants d1)
                     (\<lambda>d2. Inr (int (length entrants),
                        update_round round_id (\<lambda>r. r\<lparr>rd_status := ''voided'', rd_ended_at := Some now\<rparr>) d2))))"

definition refund_round :: "int \<Rightarrow> int \<Rightarrow> string \<Rightarrow> db \<Rightarrow> (int \<times> db) result" where
  "refund_round now round_id reason d =
     bind_result (refund_round_in_transaction now round_id reason d) (\<lambda>(n, d1).
     bind_result (db_commit d d1) (\<lambda>d2. Inr (n, d2)))"

subsection \<open>What a refund does\<close>

lemma tables_of_fields:
  assumes "tables_of d = tables_of d'"
  shows "users d = users d'" "rg_limits d = rg_limits d'" "rooms d = rooms d'" "cards d = cards d'" "rounds d = rounds d'"
    "round_entries d = round_entries d'" "round_winners d = round_winners d'" "claim_attempts d = claim_attempts d'"
    "keno_tickets d = keno_tickets d'" "d\<lparr>led := l\<rparr> = d'\<lparr>led := l\<rparr>"
  using assms unfolding tables_of_def by (cases d; cases d'; simp)+

lemma tables_of_update_round:
  assumes "tables_of d = tables_of d'" shows "tables_of (update_round i f d) = tables_of (update_round i f d')"
proof -
  have "tables_of (update_round i f x) = update_round i f (tables_of x)" for x
    by (simp add: tables_of_def update_round_def)
  then show ?thesis using assms by simp
qed

definition cards_held :: "db \<Rightarrow> int \<Rightarrow> int \<Rightarrow> nat" where
  "cards_held d i u = length (filter (\<lambda>e. en_user e = u) (entries_of d i))"

lemma refund_keys_distinct:
  assumes "distinct (map en_card (entries_of d i))"
  shows "distinct (map (\<lambda>e. refund_key i (en_user e) (en_card e)) (entries_of d i))"
  using assms by (auto simp: distinct_map inj_on_def)

lemma sum_list_const: "sum_list (map (\<lambda>x. c) xs) = of_nat (length xs) * (c :: rat)"
  by (induction xs) (auto simp: algebra_simps)

lemma refund_round_in_transaction_effect:
  assumes ok: "ledger_ok (led d)" and r: "round_by_id d i = Some r" "rd_status r \<notin> TERMINAL_STATUSES"
    and stake: "whole_cents (rd_stake r)" "0 \<le> rd_stake r"
    and pk: "distinct (map en_card (entries_of d i))"
    and fresh: "\<And>e. e \<in> set (entries_of d i) \<Longrightarrow> refund_key i (en_user e) (en_card e) \<notin> tkeys (led d)"
  shows "\<exists>d'. refund_round_in_transaction now i reason d = Inr (int (length (entries_of d i)), d')
    \<and> ledger_ok (led d')
    \<and> tables_of d' = tables_of (update_round i (\<lambda>r. r\<lparr>rd_status := ''voided'', rd_ended_at := Some now\<rparr>) d)
    \<and> obal (led d') (None, ''pot_escrow'') = obal (led d) (None, ''pot_escrow'') - of_nat (length (entries_of d i)) * rd_stake r
    \<and> (\<forall>u. obal (led d') (Some u, ''user_cash'') = obal (led d) (Some u, ''user_cash'') + of_nat (cards_held d i u) * rd_stake r)
    \<and> (\<forall>ow. snd ow \<noteq> ''user_cash'' \<and> ow \<noteq> (None, ''pot_escrow'') \<longrightarrow> obal (led d') ow = obal (led d) ow)
    \<and> (\<forall>ow. fst ow = None \<and> ow \<noteq> (None, ''pot_escrow'') \<longrightarrow> obal (led d') ow = obal (led d) ow)
    \<and> tkeys (led d') = tkeys (led d) \<union> (\<lambda>e. refund_key i (en_user e) (en_card e)) ` set (entries_of d i)"
proof -
  let ?es = "entries_of d i" and ?dst = "\<lambda>e. (Some (en_user e), ''user_cash'') :: owner"
    and ?key = "\<lambda>e. refund_key i (en_user e) (en_card e)" and ?amt = "\<lambda>e :: entry_state_row. rd_stake r"
    and ?void = "\<lambda>r. r\<lparr>rd_status := ''voided'', rd_ended_at := Some now\<rparr> :: round_row"
  obtain pot d1 where p: "db_account None ''pot_escrow'' d = (pot, d1)" by fastforce
  note g = dbw.get_account_spec [where ow = "(None, ''pot_escrow'')", simplified, OF p ok]
  let ?body = "refund_entrant now i (rd_stake r) reason (acc_id pot)"
  have src: "(None, ''pot_escrow'') \<notin> ?dst ` set ?es" by auto
  have keys: "distinct (map ?key ?es)" "?key ` set ?es \<inter> tkeys (led d1) = {}"
    using refund_keys_distinct [OF pk] fresh g(3) by auto
  have "\<exists>d2. fold_result ?body ?es d1 = Inr d2"
  proof (rule dbw.transfers_return [where i = "acc_id pot" and src = "(None, ''pot_escrow'')" and dst = ?dst and amt = ?amt
        and key = ?key and now = now, OF _ g(1,4) src _ keys])
    show "snd (None, ''pot_escrow'') \<notin> USER_BALANCE_KINDS" by (simp add: USER_BALANCE_KINDS_def)
  next
    fix e :: entry_state_row and u :: db
    obtain a w where "db_account (Some (en_user e)) ''user_cash'' u = (a, w)" by fastforce
    then show "\<exists>a w p. db_account (fst (?dst e)) (snd (?dst e)) u = (a, w) \<and> pa_key p = ?key e
        \<and> pa_entries p = [\<lparr>ent_account = acc_id pot, ent_amount = - ?amt e\<rparr>, \<lparr>ent_account = acc_id a, ent_amount = ?amt e\<rparr>]
        \<and> (\<forall>t v. db_post now p w = Inr (t, v) \<longrightarrow> ?body e u = Inr v)"
      by (intro exI [of _ a] exI [of _ w] exI [of _ "refund_args i (rd_stake r) reason (acc_id pot) (acc_id a) e"])
        (simp add: refund_entrant_def refund_args_def)
  qed (use stake in auto)
  then obtain d2 where d2: "fold_result ?body ?es d1 = Inr d2" ..
  have step: "\<exists>a w p t. db_account (fst (?dst e)) (snd (?dst e)) u = (a, w) \<and> db_post now p w = Inr (t, v) \<and> pa_key p = ?key e
        \<and> pa_entries p = [\<lparr>ent_account = acc_id pot, ent_amount = - ?amt e\<rparr>, \<lparr>ent_account = acc_id a, ent_amount = ?amt e\<rparr>]"
    if b: "?body e u = Inr v" for e :: entry_state_row and u v :: db
  proof -
    obtain a w where aw: "db_account (Some (en_user e)) ''user_cash'' u = (a, w)" by fastforce
    obtain t where "db_post now (refund_args i (rd_stake r) reason (acc_id pot) (acc_id a) e) w = Inr (t, v)"
      using b by (auto simp: refund_entrant_def aw bind_result_Inr_iff)
    then show ?thesis
      using aw by (intro exI [of _ a] exI [of _ w] exI [of _ "refund_args i (rd_stake r) reason (acc_id pot) (acc_id a) e"])
        (auto simp: refund_args_def)
  qed
  have tr: "ledger_ok (led d2) \<and> obal (led d2) (None, ''pot_escrow'') = obal (led d1) (None, ''pot_escrow'') - sum_list (map ?amt ?es)
    \<and> (\<forall>ow. ow \<noteq> (None, ''pot_escrow'') \<longrightarrow> obal (led d2) ow = obal (led d1) ow + sum_list (map ?amt (filter (\<lambda>e. ?dst e = ow) ?es)))
    \<and> tkeys (led d2) = tkeys (led d1) \<union> ?key ` set ?es \<and> tables_of d2 = tables_of d1
    \<and> (\<forall>ow j. acct_of (led d1) ow = Some j \<longrightarrow> acct_of (led d2) ow = Some j)"
    by (rule dbw.transfers [where i = "acc_id pot" and now = now, OF _ d2 g(1,4) src keys]) (use step stake(1) in auto)
  then have others: "obal (led d2) ow = obal (led d1) ow + sum_list (map ?amt (filter (\<lambda>e. ?dst e = ow) ?es))"
    if "ow \<noteq> (None, ''pot_escrow'')" for ow
    using that by blast
  define d3 where "d3 = update_round i ?void d2"
  have res: "refund_round_in_transaction now i reason d = Inr (int (length ?es), d3)"
    by (simp add: refund_round_in_transaction_def r p d2 d3_def)
  have tab: "tables_of d2 = tables_of d" using tr g(5) by simp
  have "tables_of d3 = tables_of (update_round i ?void d)"
    unfolding d3_def by (rule tables_of_update_round [OF tab])
  moreover have "led d3 = led d2" by (simp add: d3_def)
  moreover have "obal (led d2) (Some u, ''user_cash'') = obal (led d) (Some u, ''user_cash'') + of_nat (cards_held d i u) * rd_stake r" for u
    using tr g(2) by (simp add: sum_list_const cards_held_def)
  moreover have "obal (led d2) ow = obal (led d) ow" if "snd ow \<noteq> ''user_cash'' \<or> fst ow = None" "ow \<noteq> (None, ''pot_escrow'')" for ow
  proof -
    have "?dst e \<noteq> ow" for e :: entry_state_row using that(1) by auto
    then have "sum_list (map ?amt (filter (\<lambda>e. ?dst e = ow) ?es)) = 0" by simp
    then show ?thesis using others [OF that(2)] g(2) by simp
  qed
  ultimately show ?thesis
    using res tr g(2,3) by (intro exI [of _ d3]) (auto simp: sum_list_const)
qed

lemma refund_round_terminal:
  assumes "round_by_id d i = None \<or> round_by_id d i = Some r \<and> rd_status r \<in> TERMINAL_STATUSES"
  shows "refund_round_in_transaction now i reason d = Inr (0, d)"
  using assms by (auto simp: refund_round_in_transaction_def)

end
