(* ===== verification/Bingo_Draw.thy ===== *)
theory Bingo_Draw
  imports Sha256 "HOL-Library.Multiset"
begin

text \<open>
  The commit-reveal draw of \<open>packages/core/bingo.py\<close>: the HMAC counter-mode byte stream, its
  rejection sampling and the Fisher-Yates shuffle. The keyed hash is an argument (\<open>mac\<close>), so that
  the lemmas hold for any of them; \<open>derive_draw\<close> is the instance at HMAC-SHA256. The counter is
  encoded in four bytes, which raises \<open>OverflowError\<close> at \<open>2 ^ 32\<close>: that bounds every loop here.
\<close>

type_synonym keyed_hash = "bytes \<Rightarrow> bytes \<Rightarrow> bytes"

record byte_stream =
  bs_server_seed :: bytes
  bs_client_seed :: bytes
  bs_counter :: nat
  bs_buffer :: bytes

definition byte_stream_init :: "bytes \<Rightarrow> bytes \<Rightarrow> byte_stream" where
  "byte_stream_init server_seed client_seed =
     \<lparr>bs_server_seed = server_seed, bs_client_seed = client_seed, bs_counter = 0, bs_buffer = []\<rparr>"

definition hmac_stream :: "bytes \<Rightarrow> string \<Rightarrow> byte_stream" where
  "hmac_stream server_seed client_seed = byte_stream_init server_seed (ascii client_seed)"

subsection \<open>Taking bytes\<close>

function take_fill :: "keyed_hash \<Rightarrow> nat \<Rightarrow> byte_stream \<Rightarrow> byte_stream result" where
  "take_fill mac n s =
     (if length (bs_buffer s) < n
      then (if bs_counter s < 2 ^ 32
            then take_fill mac n
                   (s\<lparr>bs_buffer := bs_buffer s @
                        mac (bs_server_seed s) (bs_client_seed s @ to_bytes 4 (bs_counter s)),
                      bs_counter := bs_counter s + 1\<rparr>)
            else Inl OverflowError)
      else Inr s)"
  by pat_completeness auto
termination
  by (relation "measure (\<lambda>(mac, n, s). 2 ^ 32 - bs_counter s)") auto

declare take_fill.simps [simp del]

definition stream_take :: "keyed_hash \<Rightarrow> nat \<Rightarrow> byte_stream \<Rightarrow> (bytes \<times> byte_stream) result" where
  "stream_take mac n s =
     bind_result (take_fill mac n s)
       (\<lambda>s. Inr (take n (bs_buffer s), s\<lparr>bs_buffer := drop n (bs_buffer s)\<rparr>))"

text \<open>Every byte still to come, up to block \<open>N\<close>: what the loops consume from the left.\<close>

definition upcoming :: "keyed_hash \<Rightarrow> nat \<Rightarrow> byte_stream \<Rightarrow> bytes" where
  "upcoming mac N s = bs_buffer s @
     concat (map (\<lambda>i. mac (bs_server_seed s) (bs_client_seed s @ to_bytes 4 i)) [bs_counter s..<N])"

definition same_seeds :: "byte_stream \<Rightarrow> byte_stream \<Rightarrow> bool" where
  "same_seeds s t \<longleftrightarrow> bs_server_seed s = bs_server_seed t \<and> bs_client_seed s = bs_client_seed t"

lemma take_fill_Inr:
  assumes "take_fill mac n s = Inr t"
  shows "n \<le> length (bs_buffer t) \<and> bs_counter s \<le> bs_counter t \<and> bs_counter t \<le> max (2 ^ 32) (bs_counter s)
    \<and> (bs_counter s = bs_counter t \<longrightarrow> t = s) \<and> same_seeds t s"
  using assms
proof (induction mac n s rule: take_fill.induct)
  case (1 mac n s)
  show ?case
  proof (cases "length (bs_buffer s) < n \<and> bs_counter s < 2 ^ 32")
    case True
    with 1 have "take_fill mac n (s\<lparr>bs_buffer := bs_buffer s @
        mac (bs_server_seed s) (bs_client_seed s @ to_bytes 4 (bs_counter s)),
      bs_counter := bs_counter s + 1\<rparr>) = Inr t"
      using take_fill.simps [of mac n s] by simp
    from "1.IH" [OF _ _ this] True show ?thesis by (auto simp: same_seeds_def)
  next
    case False
    with "1.prems" show ?thesis
      using take_fill.simps [of mac n s] by (auto simp: same_seeds_def split: if_splits)
  qed
qed

lemma take_fill_upcoming:
  assumes "take_fill mac n s = Inr t" "bs_counter t \<le> N"
  shows "upcoming mac N t = upcoming mac N s"
  using assms
proof (induction mac n s rule: take_fill.induct)
  case (1 mac n s)
  let ?s = "s\<lparr>bs_buffer := bs_buffer s @ mac (bs_server_seed s) (bs_client_seed s @ to_bytes 4 (bs_counter s)),
     bs_counter := bs_counter s + 1\<rparr>"
  show ?case
  proof (cases "length (bs_buffer s) < n \<and> bs_counter s < 2 ^ 32")
    case True
    with 1 have f: "take_fill mac n ?s = Inr t" using take_fill.simps [of mac n s] by simp
    with 1 True have "upcoming mac N t = upcoming mac N ?s" by simp
    moreover have "bs_counter s < N" using take_fill_Inr [OF f] "1.prems"(2) by simp
    ultimately show ?thesis by (simp add: upcoming_def upt_conv_Cons)
  next
    case False
    with "1.prems" have "t = s" using take_fill.simps [of mac n s] by (auto split: if_splits)
    then show ?thesis by simp
  qed
qed

lemma stream_take_Inr:
  assumes "stream_take mac n s = Inr (c, t)"
  shows "length c = n" "same_seeds t s" "bs_counter s \<le> bs_counter t"
    "bs_counter t \<le> max (2 ^ 32) (bs_counter s)"
    "bs_counter s = bs_counter t \<Longrightarrow> length (bs_buffer t) + n = length (bs_buffer s)"
    "bs_counter t \<le> N \<Longrightarrow> upcoming mac N s = c @ upcoming mac N t"
proof -
  obtain u where u: "take_fill mac n s = Inr u" "c = take n (bs_buffer u)"
      "t = u\<lparr>bs_buffer := drop n (bs_buffer u)\<rparr>"
    using assms by (auto simp: stream_take_def bind_result_Inr_iff)
  note f = take_fill_Inr [OF u(1)]
  show "length c = n" "same_seeds t s" "bs_counter s \<le> bs_counter t"
      "bs_counter t \<le> max (2 ^ 32) (bs_counter s)"
      "bs_counter s = bs_counter t \<Longrightarrow> length (bs_buffer t) + n = length (bs_buffer s)"
    using f by (auto simp: u same_seeds_def)
  assume "bs_counter t \<le> N"
  then have "upcoming mac N u = upcoming mac N s" by (intro take_fill_upcoming [OF u(1)]) (simp add: u)
  then show "upcoming mac N s = c @ upcoming mac N t" by (simp add: u upcoming_def flip: append_assoc)
qed

text \<open>A stream with enough bytes up to block \<open>N\<close> serves the request without passing that block.\<close>

lemma take_fill_total:
  assumes "n \<le> length (upcoming mac N s)" "bs_counter s \<le> N" "N \<le> 2 ^ 32"
  shows "\<exists>t. take_fill mac n s = Inr t \<and> bs_counter t \<le> N"
  using assms
proof (induction mac n s rule: take_fill.induct)
  case (1 mac n s)
  show ?case
  proof (cases "length (bs_buffer s) < n")
    case True
    with "1.prems" have lt: "bs_counter s < N" by (auto simp: upcoming_def le_less)
    with "1.prems" have "bs_counter s < 2 ^ 32" by simp
    from "1.IH" [OF True this] "1.prems" lt show ?thesis
      by (subst take_fill.simps) (simp add: True \<open>bs_counter s < 2 ^ 32\<close> upcoming_def upt_conv_Cons)
  next
    case False
    with "1.prems" show ?thesis by (subst take_fill.simps) simp
  qed
qed

lemma stream_take_total:
  assumes "n \<le> length (upcoming mac N s)" "bs_counter s \<le> N" "N \<le> 2 ^ 32"
  shows "\<exists>c t. stream_take mac n s = Inr (c, t) \<and> bs_counter t \<le> N"
  using take_fill_total [OF assms] by (auto simp: stream_take_def bind_result_def)

subsection \<open>Rejection sampling\<close>

text \<open>\<open>int.bit_length()\<close> of a natural number.\<close>

fun bit_length :: "nat \<Rightarrow> nat" where
  "bit_length n = (if n = 0 then 0 else Suc (bit_length (n div 2)))"

declare bit_length.simps [simp del]

definition below_bytes :: "nat \<Rightarrow> nat" where
  "below_bytes u = max 1 (bit_length (u - 1) div 8 + 1)"

definition below_threshold :: "nat \<Rightarrow> nat" where
  "below_threshold u = (let limit = 256 ^ below_bytes u in limit - limit mod u)"

function below_loop :: "keyed_hash \<Rightarrow> nat \<Rightarrow> byte_stream \<Rightarrow> (nat \<times> byte_stream) result" where
  "below_loop mac u s =
     (case stream_take mac (below_bytes u) s of
        Inl e \<Rightarrow> Inl e
      | Inr (chunk, t) \<Rightarrow>
          (let v = from_bytes chunk
           in if v < below_threshold u then Inr (v mod u, t) else below_loop mac u t))"
  by pat_completeness auto
termination
proof (relation "measures [\<lambda>(mac, u, s). 2 ^ 32 - bs_counter s, \<lambda>(mac, u, s). length (bs_buffer s)]")
  fix mac :: keyed_hash and u s x y chunk t v
  assume "stream_take mac (below_bytes u) s = Inr x" "(chunk, t) = x" 
  then have st: "stream_take mac (below_bytes u) s = Inr (chunk, t)" by simp
  have b: "0 < below_bytes u" by (simp add: below_bytes_def)
  note i = stream_take_Inr(3-5) [OF st]
  show "((mac, u, t), mac, u, s)
      \<in> measures [\<lambda>(mac, u, s). 2 ^ 32 - bs_counter s, \<lambda>(mac, u, s). length (bs_buffer s)]"
    using i b by (cases "bs_counter s = bs_counter t") auto
qed simp

declare below_loop.simps [simp del]

definition below :: "keyed_hash \<Rightarrow> int \<Rightarrow> byte_stream \<Rightarrow> (int \<times> byte_stream) result" where
  "below mac upper_exclusive s =
     (if upper_exclusive \<le> 0 then Inl ValueError
      else bind_result (below_loop mac (nat upper_exclusive) s) (\<lambda>(v, t). Inr (int v, t)))"

lemma less_two_power_bit_length: "n < 2 ^ bit_length n"
proof (induction n rule: bit_length.induct)
  case (1 n)
  then show ?case by (subst bit_length.simps) auto
qed

lemma bit_length_le: "n < 2 ^ k \<Longrightarrow> bit_length n \<le> k"
proof (induction n arbitrary: k rule: bit_length.induct)
  case (1 n)
  show ?case
  proof (cases "n = 0")
    case False
    then obtain j where j: "k = Suc j" using "1.prems" by (cases k) auto
    with "1.prems" have "n div 2 < 2 ^ j" by (simp add: less_mult_imp_div_less mult.commute)
    with "1.IH" [OF False] False j show ?thesis by (subst bit_length.simps) simp
  qed (subst bit_length.simps, simp)
qed

lemma below_bytes_limit: assumes "0 < u" shows "u \<le> 256 ^ below_bytes u"
proof -
  have "u - 1 < 2 ^ bit_length (u - 1)" by (rule less_two_power_bit_length)
  also have "\<dots> \<le> 2 ^ (8 * (bit_length (u - 1) div 8 + 1))" by (intro power_increasing) auto
  also have "\<dots> = 256 ^ (bit_length (u - 1) div 8 + 1)" by (simp only: power_mult) simp
  also have "\<dots> = 256 ^ below_bytes u" by (simp add: below_bytes_def)
  finally show ?thesis using assms by simp
qed

lemma below_bytes_one: "u \<le> 128 \<Longrightarrow> below_bytes u = 1"
proof -
  assume "u \<le> 128"
  then have "u - 1 < 2 ^ 7" by simp
  then have "bit_length (u - 1) \<le> 7" by (rule bit_length_le)
  then show ?thesis by (simp add: below_bytes_def)
qed

lemma below_threshold_props:
  assumes "0 < u"
  shows "u dvd below_threshold u" "0 < below_threshold u" "below_threshold u \<le> 256 ^ below_bytes u"
proof -
  let ?l = "(256::nat) ^ below_bytes u"
  have l: "u \<le> ?l" using assms by (rule below_bytes_limit)
  have e: "below_threshold u = u * (?l div u)"
    by (simp add: below_threshold_def Let_def minus_mod_eq_mult_div)
  show "u dvd below_threshold u" by (simp add: e)
  show "0 < below_threshold u" using assms l by (simp add: e div_greater_zero_iff)
  show "below_threshold u \<le> 256 ^ below_bytes u" by (simp add: below_threshold_def Let_def)
qed

lemma below_loop_Inr:
  assumes "below_loop mac u s = Inr (v, t)"
  shows "0 < u \<Longrightarrow> v < u" "same_seeds t s" "bs_counter s \<le> bs_counter t"
    "bs_counter t \<le> max (2 ^ 32) (bs_counter s)"
proof -
  have "(0 < u \<longrightarrow> v < u) \<and> same_seeds t s \<and> bs_counter s \<le> bs_counter t
      \<and> bs_counter t \<le> max (2 ^ 32) (bs_counter s)"
    using assms
  proof (induction mac u s rule: below_loop.induct)
    case (1 mac u s)
    from "1.prems" obtain chunk s' where st: "stream_take mac (below_bytes u) s = Inr (chunk, s')"
      using below_loop.simps [of mac u s] by (auto split: sum.splits)
    note i = stream_take_Inr [OF st]
    show ?case
    proof (cases "from_bytes chunk < below_threshold u")
      case True
      with "1.prems" st i show ?thesis using below_loop.simps [of mac u s] by auto
    next
      case False
      with "1.prems" st have "below_loop mac u s' = Inr (v, t)"
        using below_loop.simps [of mac u s] by simp
      with "1.IH" [OF st refl refl False] i show ?thesis by (auto simp: same_seeds_def)
    qed
  qed
  then show "0 < u \<Longrightarrow> v < u" "same_seeds t s" "bs_counter s \<le> bs_counter t"
    "bs_counter t \<le> max (2 ^ 32) (bs_counter s)" by auto
qed

text \<open>No residue is favoured: each has the same number of accepted values.\<close>

lemma below_residue_card:
  assumes "0 < u" "j < u"
  shows "card {v. v < below_threshold u \<and> v mod u = j} = below_threshold u div u"
proof -
  obtain q where q: "below_threshold u = u * q" using below_threshold_props(1) [OF assms(1)] by (rule dvdE)
  have "{v. v < u * q \<and> v mod u = j} = (\<lambda>i. i * u + j) ` {..<q}"
  proof (intro equalityI subsetI)
    fix v assume "v \<in> {v. v < u * q \<and> v mod u = j}"
    then have "v = (v div u) * u + j" "v div u < q"
      by (auto simp: less_mult_imp_div_less mult.commute)
    then show "v \<in> (\<lambda>i. i * u + j) ` {..<q}" by (intro image_eqI [of _ _ "v div u"]) auto
  next
    fix v assume "v \<in> (\<lambda>i. i * u + j) ` {..<q}"
    then obtain i where i: "v = i * u + j" "i < q" by auto
    have "i * u + j < (i + 1) * u" using assms by simp
    also have "\<dots> \<le> q * u" using i by (intro mult_right_mono) auto
    finally show "v \<in> {v. v < u * q \<and> v mod u = j}" using i assms by (simp add: mult.commute)
  qed
  moreover have "inj_on (\<lambda>i. i * u + j) {..<q}" using assms by (auto intro: inj_onI)
  ultimately show ?thesis using assms by (simp add: q card_image)
qed

text \<open>
  A byte below 128 is accepted for every bound up to 128, whatever the bound: the number of such
  bytes still to come bounds the work of the draw.
\<close>

definition easy_bytes :: "bytes \<Rightarrow> nat" where
  "easy_bytes bs = length (filter (\<lambda>b. unat b < 128) bs)"

lemma easy_bytes_append [simp]: "easy_bytes (xs @ ys) = easy_bytes xs + easy_bytes ys"
  by (simp add: easy_bytes_def)

lemma below_threshold_easy: "0 < u \<Longrightarrow> u \<le> 128 \<Longrightarrow> 128 \<le> below_threshold u"
proof -
  assume u: "0 < u" "u \<le> 128"
  have "256 mod u < 128" using mod_less_divisor [of u 256] u by linarith
  then show ?thesis using u by (simp add: below_threshold_def Let_def below_bytes_one)
qed

lemma below_loop_total:
  assumes "0 < u" "u \<le> 128" "k < easy_bytes (upcoming mac N s)" "bs_counter s \<le> N" "N \<le> 2 ^ 32"
  shows "\<exists>v t. below_loop mac u s = Inr (v, t) \<and> bs_counter t \<le> N \<and> k \<le> easy_bytes (upcoming mac N t)"
  using assms
proof (induction mac u s rule: below_loop.induct)
  case (1 mac u s)
  have one: "below_bytes u = 1" using 1 by (simp add: below_bytes_one)
  have "1 \<le> length (upcoming mac N s)" using "1.prems"(3)
    by (cases "upcoming mac N s") (auto simp: easy_bytes_def)
  then obtain chunk s' where st: "stream_take mac (below_bytes u) s = Inr (chunk, s')" "bs_counter s' \<le> N"
    unfolding one using stream_take_total [of 1 mac N s] "1.prems"(4,5) by blast
  note i = stream_take_Inr [OF st(1)]
  obtain b where b: "chunk = [b]" using i(1) by (auto simp: one length_Suc_conv)
  have up: "upcoming mac N s = b # upcoming mac N s'" using i(6) [OF st(2)] b by simp
  show ?case
  proof (cases "from_bytes chunk < below_threshold u")
    case True
    have "k \<le> easy_bytes (upcoming mac N s')" using "1.prems"(3) by (simp add: up easy_bytes_def split: if_splits)
    with True st show ?thesis by (subst below_loop.simps) simp
  next
    case False
    then have "\<not> unat b < 128" using below_threshold_easy [of u] "1.prems" by (simp add: b from_bytes_def)
    then have "k < easy_bytes (upcoming mac N s')" using "1.prems"(3) by (simp add: up easy_bytes_def)
    from "1.IH" [OF st(1) refl refl False "1.prems"(1,2) this st(2) "1.prems"(5)] False st
    show ?thesis by (subst below_loop.simps) simp
  qed
qed

lemma below_Inr:
  assumes "below mac u s = Inr (v, t)" shows "0 \<le> v" "v < u" "0 < u"
  using assms below_loop_Inr [of mac "nat u" s "nat v" t]
  by (auto simp: below_def bind_result_Inr_iff split: if_splits)

lemma below_total:
  assumes "0 < u" "u \<le> 128" "k < easy_bytes (upcoming mac N s)" "bs_counter s \<le> N" "N \<le> 2 ^ 32"
  shows "\<exists>v t. below mac u s = Inr (v, t) \<and> bs_counter t \<le> N \<and> k \<le> easy_bytes (upcoming mac N t)"
proof -
  have "\<exists>v t. below_loop mac (nat u) s = Inr (v, t) \<and> bs_counter t \<le> N \<and> k \<le> easy_bytes (upcoming mac N t)"
    by (rule below_loop_total) (use assms in auto)
  with assms(1) show ?thesis by (auto simp: below_def)
qed

subsection \<open>The draw\<close>

definition swap :: "'a list \<Rightarrow> nat \<Rightarrow> nat \<Rightarrow> 'a list" where
  "swap xs i j = xs[i := xs ! j, j := xs ! i]"

fun shuffle_down :: "keyed_hash \<Rightarrow> nat list \<Rightarrow> int list \<Rightarrow> byte_stream \<Rightarrow> int list result" where
  "shuffle_down mac [] numbers s = Inr numbers"
| "shuffle_down mac (i # is) numbers s =
     bind_result (below mac (int i + 1) s) (\<lambda>(j, t). shuffle_down mac is (swap numbers i (nat j)) t)"

definition derive_draw_with :: "keyed_hash \<Rightarrow> bytes \<Rightarrow> string \<Rightarrow> int list result" where
  "derive_draw_with mac server_seed client_seed =
     (let numbers = [1..75]; stream = hmac_stream server_seed client_seed
      in shuffle_down mac (rev [1..<length numbers]) numbers stream)"

definition derive_draw :: "bytes \<Rightarrow> string \<Rightarrow> int list result" where
  "derive_draw = derive_draw_with hmac_sha256"

definition verify_draw :: "bytes \<Rightarrow> string \<Rightarrow> int list \<Rightarrow> bool result" where
  "verify_draw server_seed client_seed claimed_draw =
     bind_result (derive_draw server_seed client_seed) (\<lambda>d. Inr (d = claimed_draw))"

lemma mset_swap: "i < length xs \<Longrightarrow> j < length xs \<Longrightarrow> mset (swap xs i j) = mset xs"
  by (simp add: swap_def mset_swap)

lemma length_swap [simp]: "length (swap xs i j) = length xs"
  by (simp add: swap_def)

lemma shuffle_down_perm:
  assumes "shuffle_down mac is numbers s = Inr ns" "\<forall>i\<in>set is. i < length numbers"
  shows "mset ns = mset numbers"
  using assms
proof (induction "is" arbitrary: numbers s)
  case (Cons i "is")
  then obtain j t where j: "below mac (int i + 1) s = Inr (j, t)"
      "shuffle_down mac is (swap numbers i (nat j)) t = Inr ns"
    by (auto simp: bind_result_Inr_iff)
  have "nat j < length numbers" using below_Inr [OF j(1)] Cons.prems(2) by auto
  with Cons.IH [OF j(2)] Cons.prems(2) show ?case by (simp add: mset_swap)
qed simp

lemma shuffle_down_total:
  assumes "length is \<le> easy_bytes (upcoming mac N s)" "bs_counter s \<le> N" "N \<le> 2 ^ 32" "\<forall>i\<in>set is. i < 128"
  shows "\<exists>ns. shuffle_down mac is numbers s = Inr ns"
  using assms
proof (induction "is" arbitrary: numbers s)
  case (Cons i "is")
  have "\<exists>v t. below mac (int i + 1) s = Inr (v, t) \<and> bs_counter t \<le> N \<and> length is \<le> easy_bytes (upcoming mac N t)"
    by (rule below_total) (use Cons.prems in auto)
  with Cons show ?case by fastforce
qed simp

lemma derive_draw_with_perm: "derive_draw_with mac ss cs = Inr ns \<Longrightarrow> mset ns = mset [1..75]"
  unfolding derive_draw_with_def Let_def by (erule shuffle_down_perm) simp

end
