(* ===== verification/Settlement.thy ===== *)
theory Settlement
  imports Decimal_Arith
begin

text \<open>
  \<open>services/engine/settlement.py\<close>: the payout arithmetic of a Bingo round, in the default decimal
  context. The lemmas show that on amounts of a \<open>numeric(18,2)\<close> column no digit is lost: the
  results are the whole-cent floors of the exact quotients, although the division is rounded to
  28 digits first.
\<close>

definition compute_derash :: "money \<Rightarrow> int \<Rightarrow> (money \<times> money) result" where
  "compute_derash pot house_cut_bps =
     (if pot < 0 then Inl ValueError
      else if \<not> (0 \<le> house_cut_bps \<and> house_cut_bps \<le> 10000) then Inl ValueError
      else bind_result (quantize_down (ddiv (dmul pot (of_int (10000 - house_cut_bps))) 10000))
             (\<lambda>derash. let house_cut = dsub pot derash in Inr (derash, house_cut)))"

definition split_derash :: "money \<Rightarrow> int \<Rightarrow> (money list \<times> money) result" where
  "split_derash derash num_winners =
     (if num_winners \<le> 0 then Inl ValueError
      else bind_result (quantize_down (ddiv derash (of_int num_winners)))
             (\<lambda>share. let shares = replicate (nat num_winners) share;
                          leftover = dsub derash (dmul share (of_int num_winners))
                      in Inr (shares, leftover)))"

definition column_money :: "money \<Rightarrow> bool" where
  "column_money x \<longleftrightarrow> whole_cents x \<and> \<bar>x\<bar> < 10 ^ 16"

lemma column_moneyE:
  assumes "column_money x" obtains k where "x = of_int k / 100" "\<bar>k\<bar> < 10 ^ 18"
proof -
  obtain k where k: "x = of_int k / 100"
    using assms by (auto simp: column_money_def elim: whole_centsE)
  have "of_int \<bar>k\<bar> < (of_int (10 ^ 18) :: rat)" using assms by (simp add: k column_money_def)
  then have "\<bar>k\<bar> < 10 ^ 18" by (simp only: of_int_less_iff)
  then show thesis using k by (intro that)
qed

subsection \<open>The house cut\<close>

lemma compute_derash_exact:
  assumes pot: "column_money pot" "0 \<le> pot" and bps: "0 \<le> bps" "bps \<le> 10000"
  shows "compute_derash pot bps =
    Inr (of_int \<lfloor>pot * 100 * of_int (10000 - bps) / 10000\<rfloor> / 100,
         pot - of_int \<lfloor>pot * 100 * of_int (10000 - bps) / 10000\<rfloor> / 100)"
proof -
  obtain k where k: "pot = of_int k / 100" "\<bar>k\<bar> < 10 ^ 18" using pot(1) by (rule column_moneyE)
  define c where "c = 10000 - bps"
  have c: "0 \<le> c" "c \<le> 10000" using bps by (auto simp: c_def)
  have k0: "0 \<le> k" using pot(2) k(1) by simp
  have "k * c \<le> 10 ^ 18 * 10000" using k k0 c by (intro mult_mono) auto
  then have kc: "\<bar>k * c\<bar> < 10 ^ 28" using k0 c by simp
  have m: "dmul pot (of_int c) = of_int (k * c) / 100"
    unfolding dmul_def by (subst ctx_round_exact [of _ "k * c" 2]) (use kc k in auto)
  have d: "ddiv (of_int (k * c) / 100) 10000 = of_int (k * c) / 10 ^ 6"
    unfolding ddiv_def by (subst ctx_round_exact [of _ "k * c" 6]) (use kc in auto)
  define q where "q = k * c div 10000"
  have "(of_int (k * c) / 10 ^ 6 :: rat) * 100 = of_int (k * c) / of_int 10000" by simp
  then have q: "\<lfloor>(of_int (k * c) / 10 ^ 6 :: rat) * 100\<rfloor> = q"
    by (simp only: q_def floor_divide_of_int_eq)
  have "pot * 100 * of_int c / 10000 = of_int (k * c) / of_int 10000" by (simp add: k(1))
  then have q': "\<lfloor>pot * 100 * of_int c / 10000\<rfloor> = q"
    by (simp only: q_def floor_divide_of_int_eq)
  have "q \<le> k * 10000 div 10000" unfolding q_def using k0 c by (intro zdiv_mono1 mult_left_mono) auto
  then have qk: "q \<le> k" by simp
  have q0: "0 \<le> q" using k0 c by (simp add: q_def pos_imp_zdiv_nonneg_iff)
  have qd: "quantize_down (of_int (k * c) / 10 ^ 6) = Inr (of_int q / 100)"
    by (subst quantize_down_Inr) (use q qk k k0 c in \<open>auto simp del: of_int_mult\<close>)
  have s: "dsub pot (of_int q / 100) = pot - of_int q / 100"
    unfolding dsub_def by (rule ctx_round_exact [of _ "k - q" 2]) (use q0 qk k in \<open>auto simp: diff_divide_distrib\<close>)
  show ?thesis
    unfolding compute_derash_def c_def [symmetric] m d qd q' using bps pot(2) s by simp
qed

lemma compute_derash_cases:
  assumes "column_money pot"
  shows "compute_derash pot bps = Inl ValueError \<longleftrightarrow> pot < 0 \<or> bps < 0 \<or> 10000 < bps"
proof (cases "pot < 0 \<or> bps < 0 \<or> 10000 < bps")
  case True
  then show ?thesis by (auto simp: compute_derash_def)
next
  case False
  then obtain r where "compute_derash pot bps = Inr r"
    using compute_derash_exact [OF assms, of bps] by (meson not_less)
  with False show ?thesis by simp
qed

lemma compute_derash_Inr:
  assumes "column_money pot" "compute_derash pot bps = Inr (derash, house_cut)"
  shows "derash + house_cut = pot" "0 \<le> derash" "0 \<le> house_cut" "whole_cents derash"
    "whole_cents house_cut" "derash = of_int \<lfloor>pot * of_int (10000 - bps) / 100\<rfloor> / 100"
proof -
  have g: "0 \<le> pot" "0 \<le> bps" "bps \<le> 10000" using assms(2) by (auto simp: compute_derash_def split: if_splits)
  have e: "derash = of_int \<lfloor>pot * 100 * of_int (10000 - bps) / 10000\<rfloor> / 100" "house_cut = pot - derash"
    using assms(2) compute_derash_exact [OF assms(1) g] by auto
  show "derash + house_cut = pot" using e by simp
  show f: "derash = of_int \<lfloor>pot * of_int (10000 - bps) / 100\<rfloor> / 100"
  proof -
    have "pot * 100 * of_int (10000 - bps) / 10000 = pot * of_int (10000 - bps) / 100" by simp
    with e(1) show ?thesis by (simp only:)
  qed
  show "0 \<le> derash" using g unfolding f by simp
  show w: "whole_cents derash" unfolding f by simp
  show "whole_cents house_cut" using w assms(1) unfolding e(2) by (auto simp: column_money_def intro: cents)
  have "derash \<le> pot * of_int (10000 - bps) / 100 / 100"
    unfolding f by (intro divide_right_mono of_int_floor_le) simp
  also have "\<dots> \<le> pot" using g mult_left_mono [of "of_int (10000 - bps)" "10000::rat" pot] by simp
  finally show "0 \<le> house_cut" unfolding e(2) by simp
qed

subsection \<open>Splitting between co-winners\<close>

text \<open>Rounding the quotient to 28 digits first cannot carry it over a cent boundary.\<close>

lemma floor_stable:
  fixes x y :: rat and k n :: int
  assumes x: "x = of_int k / of_int n" and n: "0 < n" and err: "\<bar>y - x\<bar> < 1 / of_int n"
    and ex: "n dvd k \<Longrightarrow> y = x"
  shows "\<lfloor>y\<rfloor> = \<lfloor>x\<rfloor>"
proof (cases "n dvd k")
  case False
  define q where "q = k div n"
  have fx: "\<lfloor>x\<rfloor> = q" by (simp add: x q_def floor_divide_of_int_eq)
  have r: "0 < k mod n" "k mod n < n" "k = q * n + k mod n"
    using False n pos_mod_sign [of n k] pos_mod_bound [of n k]
    by (auto simp: q_def dvd_eq_mod_eq_0 order_less_le)
  have "x = of_int q + of_int (k mod n) / of_int n"
  proof -
    have "(of_int k :: rat) = of_int q * of_int n + of_int (k mod n)" using r(3) by (metis of_int_add of_int_mult)
    then show ?thesis using n by (simp add: x add_divide_distrib)
  qed
  moreover have "1 / of_int n \<le> (of_int (k mod n) / of_int n :: rat)"
    using r n by (intro divide_right_mono) auto
  moreover have "of_int (k mod n) / of_int n \<le> (1 - 1 / of_int n :: rat)"
  proof -
    have "(of_int (k mod n) :: rat) \<le> of_int (n - 1)" using r by (simp only: of_int_le_iff)
    then have "of_int (k mod n) / of_int n \<le> (of_int (n - 1) / of_int n :: rat)"
      using n by (intro divide_right_mono) auto
    then show ?thesis using n by (simp add: diff_divide_distrib)
  qed
  ultimately have "of_int q \<le> y" "y < of_int q + 1" using err by linarith+
  then show ?thesis unfolding fx by (simp add: floor_unique)
qed (simp add: ex)

lemma split_derash_exact:
  assumes d: "column_money derash" "0 \<le> derash" and n: "0 < n" "n \<le> 10 ^ 6"
  defines "share \<equiv> of_int \<lfloor>derash * 100 / of_int n\<rfloor> / 100"
  shows "split_derash derash n = Inr (replicate (nat n) share, derash - of_int n * share)"
proof -
  obtain k where k: "derash = of_int k / 100" "\<bar>k\<bar> < 10 ^ 18" using d(1) by (rule column_moneyE)
  have k0: "0 \<le> k" using d(2) k(1) by simp
  define x where "x = derash / of_int n"
  define y where "y = ctx_round 28 x"
  have x0: "0 \<le> x" using d n by (simp add: x_def)
  have xb: "x < 10 ^ 16"
  proof -
    have "x \<le> derash" using d n by (simp add: x_def divide_le_eq mult_le_cancel_left1)
    then show ?thesis using d by (simp add: column_money_def)
  qed
  have e: "\<bar>y - x\<bar> \<le> x * (1 / 10 ^ 27) / 2"
    using ctx_round_error [of 28 x] unfolding y_def pow10_27 abs_of_nonneg [OF x0] .
  have "x * (1 / 10 ^ 27) / 2 * 100 < 1 / 10 ^ 6" using xb by simp
  also have "\<dots> \<le> 1 / of_int n"
  proof -
    have "(of_int n :: rat) \<le> of_int (10 ^ 6)" using n by (simp only: of_int_le_iff)
    then show ?thesis using n by (intro divide_left_mono) auto
  qed
  finally have lt: "x * (1 / 10 ^ 27) / 2 * 100 < 1 / of_int n" .
  have err: "\<bar>y * 100 - x * 100\<bar> < 1 / of_int n"
  proof -
    have "\<bar>y * 100 - x * 100\<bar> = \<bar>y - x\<bar> * 100" by (simp add: abs_if)
    also have "\<dots> \<le> x * (1 / 10 ^ 27) / 2 * 100" using e by (rule mult_right_mono) simp
    finally show ?thesis using lt by (rule le_less_trans)
  qed
  have ex: "y * 100 = x * 100" if dv: "n dvd k"
  proof -
    obtain j where j: "k = n * j" using dv by (rule dvdE)
    have "\<bar>j\<bar> \<le> \<bar>k\<bar>" using n by (simp add: j abs_mult mult_le_cancel_right1)
    then have "\<bar>j\<bar> < 10 ^ 28" using k(2) by simp
    then have "y = x" unfolding y_def
      by (intro ctx_round_exact [of _ j 2]) (use n in \<open>auto simp: x_def k(1) j\<close>)
    then show ?thesis by simp
  qed
  have fl: "\<lfloor>y * 100\<rfloor> = \<lfloor>derash * 100 / of_int n\<rfloor>"
    using floor_stable [of "x * 100" k n "y * 100"] n err ex by (simp add: x_def k(1))
  define q where "q = \<lfloor>derash * 100 / of_int n\<rfloor>"
  have q_div: "q = k div n" by (simp add: q_def k(1) floor_divide_of_int_eq)
  have q0: "0 \<le> q" using k0 n by (simp add: q_div pos_imp_zdiv_nonneg_iff)
  have qn: "q * n \<le> k" using n by (simp add: q_div minus_mod_eq_div_mult [symmetric])
  have qn0: "0 \<le> q * n" using q0 n by simp
  have "q * 1 \<le> q * n" using q0 n by (intro mult_left_mono) auto
  then have qk: "q \<le> k" using qn by simp
  have y0: "0 \<le> y"
  proof (rule ccontr)
    assume "\<not> 0 \<le> y"
    then have "\<lfloor>y * 100\<rfloor> < 0" by (simp add: floor_less_zero)
    then show False using fl q0 by (simp add: q_def)
  qed
  have "q < 10 ^ 28" using qk k(2) by simp
  then have qd: "quantize_down y = Inr (of_int q / 100)"
    by (simp only: quantize_down_Inr [OF y0] fl q_def [symmetric])
  have m: "dmul (of_int q / 100) (of_int n) = of_int (q * n) / 100"
    unfolding dmul_def
    by (rule ctx_round_exact [of _ "q * n" 2, THEN trans]) (use qn0 qn k n in auto)
  have s: "dsub derash (of_int (q * n) / 100) = derash - of_int n * (of_int q / 100)"
    unfolding dsub_def
    by (rule ctx_round_exact [of _ "k - q * n" 2, THEN trans])
      (use qn0 qn k n in \<open>auto simp: diff_divide_distrib algebra_simps\<close>)
  have dd: "ddiv derash (of_int n) = y" by (simp add: ddiv_def y_def x_def)
  show ?thesis
    unfolding split_derash_def dd qd using n(1)
    by (simp only: m s share_def q_def [symmetric] bind_result_simps Let_def) simp
qed

lemma split_derash_Inr:
  assumes "column_money derash" "0 \<le> derash" "n \<le> 10 ^ 6" "split_derash derash n = Inr (shares, leftover)"
  shows "0 < n" "length shares = nat n" "sum_list shares + leftover = derash"
    "0 \<le> leftover" "leftover < of_int n / 100" "whole_cents leftover"
    "\<And>s. s \<in> set shares \<Longrightarrow> s = of_int \<lfloor>derash * 100 / of_int n\<rfloor> / 100"
proof -
  show n: "0 < n" using assms(4) by (auto simp: split_derash_def split: if_splits)
  define q where "q = \<lfloor>derash * 100 / of_int n\<rfloor>"
  have e: "shares = replicate (nat n) (of_int q / 100)" "leftover = derash - of_int n * (of_int q / 100)"
    using split_derash_exact [OF assms(1,2) n assms(3)] assms(4) by (auto simp: q_def)
  show "length shares = nat n" "sum_list shares + leftover = derash"
    using n by (auto simp: e sum_list_replicate)
  have "of_int q \<le> derash * 100 / of_int n" "derash * 100 / of_int n < of_int q + 1"
    unfolding q_def by linarith+
  then have "of_int q * of_int n \<le> derash * 100" "derash * 100 < (of_int q + 1) * of_int n"
    using n by (simp_all add: pos_le_divide_eq pos_divide_less_eq)
  then show "0 \<le> leftover" "leftover < of_int n / 100" unfolding e by (auto simp: algebra_simps)
  show "whole_cents leftover"
    using assms(1) unfolding e column_money_def by (intro cents) auto
  show "\<And>s. s \<in> set shares \<Longrightarrow> s = of_int \<lfloor>derash * 100 / of_int n\<rfloor> / 100"
    by (auto simp: e q_def)
qed

end
