(* ===== verification/Round_Engine.thy ===== *)
theory Round_Engine
  imports Responsible_Gaming Refunds Bingo_Draw Settlement "HOL-Library.AList"
begin

text \<open>
  The room state machine, \<open>services/engine/round_engine.py\<close>. The record \<open>engine\<close> is one \<open>RoundEngine\<close>
  instance: the fields of \<open>__init__\<close>, the room lock as what \<open>is_held()\<close> answers, and the messages
  published so far. An operation is a function of the clock values it reads, the engine and the
  database, and returns its outcome (or the exception it raises) with the new engine and database.
  Each transaction is one function on the database alone; the operation around it updates the memory
  after the commit, as the code does. The two clocks are arguments: \<open>now\<close> is the database's (in
  microseconds), \<open>clk\<close> is \<open>time.monotonic()\<close> (in seconds, exact). Sleeping is not modelled: an
  operation that sleeps is split where it sleeps. JSON is not modelled: a command carries the fields
  the code takes out of it.
\<close>

subsection \<open>Configuration\<close>

record room_config =
  rc_id :: int
  rc_code :: string
  rc_stake :: money
  rc_house_cut_bps :: int
  rc_min_players :: int
  rc_max_players :: int
  rc_lobby_seconds :: int
  rc_call_interval_ms :: int
  rc_result_seconds :: int
  rc_win_patterns :: "string list"
  rc_max_cards_per_player :: int
  rc_no_player_next_round_delay_seconds :: int
  rc_min_winning_lines :: int

definition room_by_id :: "db \<Rightarrow> int \<Rightarrow> room_row option" where
  "room_by_id d i = find (\<lambda>r. rm_id r = i) (rooms d)"

definition load_room_config :: "db \<Rightarrow> int \<Rightarrow> room_config result" where
  "load_room_config d room_id =
     (case room_by_id d room_id of
        None \<Rightarrow> Inl ValueError
      | Some row \<Rightarrow> Inr \<lparr>rc_id = rm_id row, rc_code = rm_code row, rc_stake = rm_stake row,
          rc_house_cut_bps = rm_house_cut_bps row, rc_min_players = rm_min_players row,
          rc_max_players = rm_max_players row, rc_lobby_seconds = rm_lobby_seconds row,
          rc_call_interval_ms = rm_call_interval_ms row, rc_result_seconds = rm_result_seconds row,
          rc_win_patterns = rm_win_patterns row, rc_max_cards_per_player = rm_max_cards_per_player row,
          rc_no_player_next_round_delay_seconds = rm_no_player_next_round_delay_seconds row,
          rc_min_winning_lines = rm_min_winning_lines row\<rparr>)"

definition load_card_pool :: "db \<Rightarrow> int \<rightharpoonup> grid" where
  "load_card_pool d = cards d"

subsection \<open>State\<close>

record entry_state =
  es_card_no :: int
  es_auto_mark :: bool

record pending_winner =
  pw_user :: int
  pw_card :: int
  pw_pattern :: string
  pw_call_index :: int

record cmd_result =
  cr_ok :: bool
  cr_reason :: "string option"

record end_winner =
  ew_user :: int
  ew_display_name :: string
  ew_card :: int
  ew_pattern :: string
  ew_amount :: money
  ew_grid :: "grid option"

datatype message =
    CardTaken int bool
  | LobbyTick int int int money money
  | RoundVoided int string
  | RoundStart int int int int money money string
  | NumberCalled int int int string
  | RoundEnd int "end_winner list" money bytes
  | BalanceUpdate int "balance_snapshot result"

record engine =
  e_room :: room_config
  e_card_pool :: "int \<rightharpoonup> grid"
  e_lock_held :: bool
  e_stop_requested :: bool
  e_round_active :: bool
  e_settlement_task :: "rat option"
  e_round_id :: "int option"
  e_seq :: int
  e_status :: string
  e_server_seed :: "bytes option"
  e_server_seed_hash :: "string option"
  e_client_seed :: "string option"
  e_pot :: money
  e_entries :: "((int \<times> int) \<times> entry_state) list"
  e_called :: "int set"
  e_draw_order :: "int list"
  e_call_index :: int
  e_running_started_at :: rat
  e_lobby_deadline :: rat
  e_locked_out :: "(int \<times> int) set"
  e_auto_claimed :: "(int \<times> int) set"
  e_dropped :: "(int \<times> int) set"
  e_pending :: "pending_winner list"
  e_window_deadline :: "rat option"
  e_rooms_active :: int
  e_published :: "message list"

definition new_engine :: "room_config \<Rightarrow> (int \<rightharpoonup> grid) \<Rightarrow> engine" where
  "new_engine room card_pool =
     \<lparr>e_room = room, e_card_pool = card_pool, e_lock_held = False, e_stop_requested = False,
      e_round_active = False, e_settlement_task = None, e_round_id = None, e_seq = 0, e_status = ''idle'',
      e_server_seed = None, e_server_seed_hash = None, e_client_seed = None, e_pot = 0, e_entries = [],
      e_called = {}, e_draw_order = [], e_call_index = 0, e_running_started_at = 0, e_lobby_deadline = 0,
      e_locked_out = {}, e_auto_claimed = {}, e_dropped = {}, e_pending = [], e_window_deadline = None,
      e_rooms_active = 0, e_published = []\<rparr>"

type_synonym 'r outcome = "(exc + 'r) \<times> engine \<times> db"

definition WINNER_TIE_WINDOW_SECONDS :: rat where
  "WINNER_TIE_WINDOW_SECONDS = 1 / 20"

definition set_status :: "string \<Rightarrow> engine \<Rightarrow> engine" where
  "set_status v e =
     (if v \<noteq> ''idle'' \<and> e_status e = ''idle'' then e\<lparr>e_rooms_active := e_rooms_active e + 1, e_status := v\<rparr>
      else if v = ''idle'' \<and> e_status e \<noteq> ''idle'' then e\<lparr>e_rooms_active := e_rooms_active e - 1, e_status := v\<rparr>
      else e\<lparr>e_status := v\<rparr>)"

definition publish :: "message \<Rightarrow> engine \<Rightarrow> engine" where
  "publish m e = e\<lparr>e_published := e_published e @ [m]\<rparr>"

definition publish_balance_update :: "db \<Rightarrow> int \<Rightarrow> engine \<Rightarrow> engine" where
  "publish_balance_update d u e = publish (BalanceUpdate u (user_balance_snapshot (led d) u)) e"

definition player_count :: "engine \<Rightarrow> int" where
  "player_count e = int (card ((\<lambda>k. fst (fst k)) ` set (e_entries e)))"

definition card_count :: "engine \<Rightarrow> int" where
  "card_count e = int (length (e_entries e))"

subsection \<open>Starting a round\<close>

definition next_seq :: "db \<Rightarrow> int \<Rightarrow> int" where
  "next_seq d room =
     (let seqs = map rd_seq (filter (\<lambda>r. rd_room r = room) (rounds d))
      in (if seqs = [] then 0 else Max (set seqs)) + 1)"

definition new_round_row :: "int \<Rightarrow> room_config \<Rightarrow> string \<Rightarrow> db \<Rightarrow> round_row" where
  "new_round_row now room seed_hash d =
     \<lparr>rd_id = int (length (rounds d)) + 1, rd_room = rc_id room, rd_seq = next_seq d (rc_id room),
      rd_status = ''lobby'', rd_stake = rc_stake room, rd_house_cut_bps = rc_house_cut_bps room,
      rd_player_count = 0, rd_pot = 0, rd_derash = 0, rd_server_seed = None, rd_server_seed_hash = seed_hash,
      rd_client_seed = None, rd_draw_order = None, rd_call_index = 0,
      rd_lobby_deadline = Some (now + rc_lobby_seconds room * 1000000), rd_started_at = None, rd_ended_at = None\<rparr>"

definition start_new_round :: "int \<Rightarrow> rat \<Rightarrow> bytes \<Rightarrow> engine \<Rightarrow> db \<Rightarrow> unit outcome" where
  "start_new_round now clk server_seed e d =
     (let server_seed_hash = hexdigest (sha256 server_seed); row = new_round_row now (e_room e) server_seed_hash d
      in if room_by_id d (rc_id (e_room e)) = None then (Inl ForeignKeyViolation, e, d)
         else (Inr (),
           (set_status ''lobby'' (e\<lparr>e_round_id := Some (rd_id row), e_seq := rd_seq row\<rparr>))
             \<lparr>e_server_seed := Some server_seed, e_server_seed_hash := Some server_seed_hash, e_client_seed := None,
              e_pot := 0, e_entries := [], e_called := {}, e_draw_order := [], e_call_index := 0,
              e_locked_out := {}, e_auto_claimed := {}, e_dropped := {}, e_pending := [],
              e_window_deadline := None, e_settlement_task := None,
              e_lobby_deadline := clk + of_int (rc_lobby_seconds (e_room e))\<rparr>,
           d\<lparr>rounds := rounds d @ [row]\<rparr>))"

definition reset_to_idle :: "engine \<Rightarrow> engine" where
  "reset_to_idle e =
     (set_status ''idle'' (e\<lparr>e_round_id := None\<rparr>))
       \<lparr>e_server_seed := None, e_server_seed_hash := None, e_client_seed := None, e_pot := 0, e_entries := [],
        e_called := {}, e_draw_order := [], e_call_index := 0, e_locked_out := {}, e_auto_claimed := {},
        e_dropped := {}, e_pending := [], e_window_deadline := None, e_settlement_task := None,
        e_round_active := False\<rparr>"

text \<open>Idle-handling, in \<open>join\<close> and in \<open>run_forever\<close>: the round lock makes it one step.\<close>

definition ensure_round :: "int \<Rightarrow> rat \<Rightarrow> bytes \<Rightarrow> engine \<Rightarrow> db \<Rightarrow> unit outcome" where
  "ensure_round now clk server_seed e d =
     (if e_status e = ''idle'' then
        (case start_new_round now clk server_seed e d of
           (Inl x, e', d') \<Rightarrow> (Inl x, e', d')
         | (Inr _, e', d') \<Rightarrow> (Inr (), e'\<lparr>e_round_active := True\<rparr>, d'))
      else (Inr (), e, d))"

subsection \<open>Joining and dropping\<close>

definition bump_pot :: "int \<Rightarrow> money \<Rightarrow> int \<Rightarrow> db \<Rightarrow> db result" where
  "bump_pot i amount players d =
     (case round_by_id d i of
        None \<Rightarrow> Inr d
      | Some r \<Rightarrow> bind_result (numeric18_2 (rd_pot r + amount)) (\<lambda>pot.
          Inr (update_round i (\<lambda>r. r\<lparr>rd_pot := pot, rd_player_count := rd_player_count r + players\<rparr>) d)))"

definition stake_args :: "money \<Rightarrow> int \<Rightarrow> int \<Rightarrow> int \<Rightarrow> int \<Rightarrow> int \<Rightarrow> post_args" where
  "stake_args stake round_id user_id card_no cash pot =
     \<lparr>pa_kind = ''stake'',
      pa_entries = [\<lparr>ent_account = cash, ent_amount = - stake\<rparr>, \<lparr>ent_account = pot, ent_amount = stake\<rparr>],
      pa_key = stake_key round_id user_id card_no, pa_round = Some round_id, pa_payment = None,
      pa_memo = None, pa_by = ''system''\<rparr>"

definition set_stake_txn :: "int \<Rightarrow> int \<Rightarrow> int \<Rightarrow> db \<Rightarrow> db" where
  "set_stake_txn round_id card_no tid d =
     d\<lparr>round_entries := map (\<lambda>x. if en_round x = round_id \<and> en_card x = card_no then x\<lparr>en_stake_txn := Some tid\<rparr> else x)
         (round_entries d)\<rparr>"

definition join_txn :: "int \<Rightarrow> money \<Rightarrow> int \<Rightarrow> int \<Rightarrow> int \<Rightarrow> bool \<Rightarrow> db \<Rightarrow> (string option \<times> db) result" where
  "join_txn now stake round_id user_id card_no auto_mark d =
     (if round_status d round_id \<noteq> Some ''lobby'' then Inr (Some ''not_joinable'', d)
      else let block = check_stake_allowed now d user_id stake
      in if blocked block then (case block_reason block of None \<Rightarrow> Inl AssertionError | Some r \<Rightarrow> Inr (Some r, d))
      else bind_result (insert_entry \<lparr>en_round = round_id, en_card = card_no, en_user = user_id, en_auto = auto_mark,
               en_stake_txn = None\<rparr> d) (\<lambda>d1.
        let (cash, d2) = db_account (Some user_id) ''user_cash'' d1;
            (pot_account, d3) = db_account None ''pot_escrow'' d2
        in bind_result (db_post now (stake_args stake round_id user_id card_no (acc_id cash) (acc_id pot_account)) d3) (\<lambda>(txn, d4).
           bind_result (bump_pot round_id stake 1 (set_stake_txn round_id card_no (txn_id txn) d4)) (\<lambda>d5.
           bind_result (db_commit d d5) (\<lambda>d6. Inr (None, d6))))))"

definition rejected :: "string \<Rightarrow> cmd_result" where
  "rejected reason = \<lparr>cr_ok = False, cr_reason = Some reason\<rparr>"

definition accepted :: cmd_result where
  "accepted = \<lparr>cr_ok = True, cr_reason = None\<rparr>"

definition cards_of_user :: "engine \<Rightarrow> int \<Rightarrow> int" where
  "cards_of_user e user_id = int (length (filter (\<lambda>k. fst (fst k) = user_id) (e_entries e)))"

text \<open>The checks before the transaction; \<open>None\<close> lets the join through.\<close>

definition join_refusal :: "engine \<Rightarrow> int \<Rightarrow> int \<Rightarrow> string option" where
  "join_refusal e user_id card_no =
     (if e_status e \<noteq> ''lobby'' then Some ''not_joinable''
      else if e_card_pool e card_no = None then Some ''invalid_card''
      else if (user_id, card_no) \<in> e_dropped e then Some ''card_already_dropped''
      else let cards_held = cards_of_user e user_id; already_has_a_card = 0 < cards_held
      in if \<not> already_has_a_card \<and> rc_max_players (e_room e) \<le> player_count e then Some ''room_full''
      else if rc_max_cards_per_player (e_room e) \<le> cards_held then Some ''max_cards_reached''
      else None)"

definition join_remember :: "db \<Rightarrow> int \<Rightarrow> int \<Rightarrow> bool \<Rightarrow> engine \<Rightarrow> engine" where
  "join_remember d user_id card_no auto_mark e =
     publish (CardTaken card_no True) (publish_balance_update d user_id
       (e\<lparr>e_entries := AList.update (user_id, card_no) \<lparr>es_card_no = card_no, es_auto_mark = auto_mark\<rparr> (e_entries e),
          e_pot := dadd (e_pot e) (rc_stake (e_room e))\<rparr>))"

definition join :: "int \<Rightarrow> rat \<Rightarrow> bytes \<Rightarrow> int \<Rightarrow> int \<Rightarrow> bool \<Rightarrow> engine \<Rightarrow> db \<Rightarrow> cmd_result outcome" where
  "join now clk server_seed user_id card_no auto_mark e0 d0 =
     (case ensure_round now clk server_seed e0 d0 of
        (Inl x, e, d) \<Rightarrow> (Inl x, e, d)
      | (Inr _, e, d) \<Rightarrow>
          (case join_refusal e user_id card_no of
             Some reason \<Rightarrow> (Inr (rejected reason), e, d)
           | None \<Rightarrow>
               (case e_round_id e of
                  None \<Rightarrow> (Inl AssertionError, e, d)
                | Some round_id \<Rightarrow>
                    (case join_txn now (rc_stake (e_room e)) round_id user_id card_no auto_mark d of
                       Inl UniqueViolation \<Rightarrow> (Inr (rejected ''card_taken''), e, d)
                     | Inl (InsufficientFunds _ _) \<Rightarrow> (Inr (rejected ''insufficient_funds''), e, d)
                     | Inl x \<Rightarrow> (Inl x, e, d)
                     | Inr (Some reason, d') \<Rightarrow> (Inr (rejected reason), e, d')
                     | Inr (None, d') \<Rightarrow> (Inr accepted, join_remember d' user_id card_no auto_mark e, d')))))"

definition drop_args :: "money \<Rightarrow> int \<Rightarrow> int \<Rightarrow> int \<Rightarrow> int \<Rightarrow> int \<Rightarrow> post_args" where
  "drop_args stake round_id user_id card_no cash pot =
     \<lparr>pa_kind = ''refund'',
      pa_entries = [\<lparr>ent_account = pot, ent_amount = - stake\<rparr>, \<lparr>ent_account = cash, ent_amount = stake\<rparr>],
      pa_key = drop_key round_id user_id card_no, pa_round = Some round_id, pa_payment = None,
      pa_memo = None, pa_by = ''system''\<rparr>"

definition drop_txn :: "int \<Rightarrow> money \<Rightarrow> int \<Rightarrow> int \<Rightarrow> int \<Rightarrow> db \<Rightarrow> (string option \<times> db) result" where
  "drop_txn now stake round_id user_id card_no d =
     (if round_status d round_id \<noteq> Some ''lobby'' then Inr (Some ''not_droppable'', d)
      else let mine = (\<lambda>x. en_round x = round_id \<and> en_user x = user_id \<and> en_card x = card_no)
      in if \<not> list_ex mine (round_entries d) then Inr (Some ''not_in_round'', d)
      else let d1 = d\<lparr>round_entries := filter (\<lambda>x. \<not> mine x) (round_entries d)\<rparr>;
               (cash, d2) = db_account (Some user_id) ''user_cash'' d1;
               (pot_account, d3) = db_account None ''pot_escrow'' d2
           in bind_result (db_post now (drop_args stake round_id user_id card_no (acc_id cash) (acc_id pot_account)) d3) (\<lambda>(txn, d4).
              bind_result (bump_pot round_id (- stake) (- 1) d4) (\<lambda>d5.
              bind_result (db_commit d d5) (\<lambda>d6. Inr (None, d6)))))"

definition drop_remember :: "db \<Rightarrow> int \<Rightarrow> int \<Rightarrow> engine \<Rightarrow> engine" where
  "drop_remember d user_id card_no e =
     publish (CardTaken card_no False) (publish_balance_update d user_id
       (e\<lparr>e_entries := AList.delete (user_id, card_no) (e_entries e),
          e_dropped := insert (user_id, card_no) (e_dropped e),
          e_pot := dsub (e_pot e) (rc_stake (e_room e))\<rparr>))"

definition drop_card :: "int \<Rightarrow> int \<Rightarrow> int \<Rightarrow> engine \<Rightarrow> db \<Rightarrow> cmd_result outcome" where
  "drop_card now user_id card_no e d =
     (if e_status e \<noteq> ''lobby'' then (Inr (rejected ''not_droppable''), e, d)
      else case map_of (e_entries e) (user_id, card_no) of
             None \<Rightarrow> (Inr (rejected ''not_in_round''), e, d)
           | Some entry \<Rightarrow>
               (case e_round_id e of
                  None \<Rightarrow> (Inl AssertionError, e, d)
                | Some round_id \<Rightarrow>
                    (case drop_txn now (rc_stake (e_room e)) round_id user_id card_no d of
                       Inl x \<Rightarrow> (Inl x, e, d)
                     | Inr (Some reason, d') \<Rightarrow> (Inr (rejected reason), e, d')
                     | Inr (None, d') \<Rightarrow> (Inr accepted, drop_remember d' user_id card_no e, d'))))"

definition set_auto :: "int \<Rightarrow> bool \<Rightarrow> engine \<Rightarrow> db \<Rightarrow> cmd_result outcome" where
  "set_auto user_id auto e d =
     (if \<not> list_ex (\<lambda>k. fst (fst k) = user_id) (e_entries e) then (Inr (rejected ''not_in_round''), e, d)
      else let e' = e\<lparr>e_entries := map (\<lambda>(k, s). (k, if fst k = user_id then s\<lparr>es_auto_mark := auto\<rparr> else s)) (e_entries e)\<rparr>
      in case e_round_id e of
           None \<Rightarrow> (Inr accepted, e', d)
         | Some round_id \<Rightarrow>
             (Inr accepted, e',
              d\<lparr>round_entries := map (\<lambda>x. if en_round x = round_id \<and> en_user x = user_id then x\<lparr>en_auto := auto\<rparr> else x)
                  (round_entries d)\<rparr>))"

subsection \<open>Claiming\<close>

definition record_claim_attempt :: "int \<Rightarrow> int \<Rightarrow> bool \<Rightarrow> engine \<Rightarrow> db \<Rightarrow> db result" where
  "record_claim_attempt user_id card_no valid e d =
     (case e_round_id e of
        None \<Rightarrow> Inl AssertionError
      | Some round_id \<Rightarrow> insert_claim \<lparr>cl_round = round_id, cl_user = user_id,
          cl_card = (if e_card_pool e card_no \<noteq> None then Some card_no else None),
          cl_call_index = e_call_index e, cl_valid = valid\<rparr> d)"

fun join_names :: "string list \<Rightarrow> string" where
  "join_names [] = []"
| "join_names [n] = n"
| "join_names (n # m # ns) = n @ '', '' @ join_names (m # ns)"

text \<open>The validation: a refusal, an exception, or the card and the completed lines.\<close>

definition claim_check :: "int \<Rightarrow> int \<Rightarrow> string \<Rightarrow> engine \<Rightarrow> (exc + (string + int \<times> pattern list)) \<times> engine" where
  "claim_check user_id card_no source e =
     (if (user_id, card_no) \<in> e_locked_out e then (Inr (Inl ''locked_out''), e)
      else case map_of (e_entries e) (user_id, card_no) of
             None \<Rightarrow> (Inr (Inl ''not_in_round''), e)
           | Some entry \<Rightarrow>
               (if e_status e \<noteq> ''running'' \<and> e_status e \<noteq> ''settling'' then (Inr (Inl ''round_not_running''), e)
                else case e_card_pool e (es_card_no entry) of
                       None \<Rightarrow> (Inl KeyError, e)
                     | Some grid \<Rightarrow>
                         (case winning_patterns grid (e_called e) (rc_win_patterns (e_room e)) of
                            Inl x \<Rightarrow> (Inl x, e)
                          | Inr won \<Rightarrow>
                              (if rc_min_winning_lines (e_room e) \<le> int (length won)
                               then (Inr (Inr (es_card_no entry, won)), e)
                               else (Inr (Inl ''no_pattern''),
                                 if source = ''manual'' \<and> e_status e = ''running'' \<and> won = []
                                 then e\<lparr>e_locked_out := insert (user_id, card_no) (e_locked_out e)\<rparr> else e)))))"

text \<open>The registration, under the winner lock.\<close>

definition claim_register :: "rat \<Rightarrow> int \<Rightarrow> int \<Rightarrow> int \<Rightarrow> pattern list \<Rightarrow> engine \<Rightarrow> cmd_result \<times> engine" where
  "claim_register clk user_id card_no entry_card won e =
     (let w = \<lparr>pw_user = user_id, pw_card = entry_card, pw_pattern = join_names (map pat_name won),
               pw_call_index = e_call_index e\<rparr>
      in if list_ex (\<lambda>v. pw_user v = user_id \<and> pw_card v = card_no) (e_pending e)
         then (rejected ''already_claimed'', e)
         else if e_status e = ''running'' then
           (let deadline = clk + WINNER_TIE_WINDOW_SECONDS
            in (accepted, (set_status ''settling'' e)\<lparr>e_window_deadline := Some deadline, e_pending := e_pending e @ [w],
                  e_settlement_task := Some deadline\<rparr>))
         else if e_status e = ''settling'' \<and> (case e_window_deadline e of None \<Rightarrow> False | Some dl \<Rightarrow> clk \<le> dl)
         then (accepted, e\<lparr>e_pending := e_pending e @ [w]\<rparr>)
         else (rejected ''round_already_settled'', e))"

definition claim :: "rat \<Rightarrow> int \<Rightarrow> int \<Rightarrow> string \<Rightarrow> engine \<Rightarrow> db \<Rightarrow> cmd_result outcome" where
  "claim clk user_id card_no source e d =
     (let (checked, e1) = claim_check user_id card_no source e;
          valid = (case checked of Inr (Inr _) \<Rightarrow> True | _ \<Rightarrow> False);
          recorded = (if e_round_id e1 = None then Inr d else record_claim_attempt user_id card_no valid e1 d)
      in case recorded of
           Inl x \<Rightarrow> (Inl x, e1, d)
         | Inr d1 \<Rightarrow>
             (case checked of
                Inl x \<Rightarrow> (Inl x, e1, d1)
              | Inr (Inl reason) \<Rightarrow> (Inr (rejected reason), e1, d1)
              | Inr (Inr (entry_card, won)) \<Rightarrow>
                  (let (res, e2) = claim_register clk user_id card_no entry_card won e1 in (Inr res, e2, d1))))"

subsection \<open>The lobby\<close>

definition round_half_even :: "rat \<Rightarrow> int" where
  "round_half_even x = half_even x"

definition lobby_tick :: "rat \<Rightarrow> engine \<Rightarrow> (exc + unit) \<times> engine" where
  "lobby_tick clk e =
     (let remaining = e_lobby_deadline e - clk
      in case compute_derash (e_pot e) (rc_house_cut_bps (e_room e)) of
           Inl x \<Rightarrow> (Inl x, e)
         | Inr (derash, _) \<Rightarrow>
             (Inr (), publish (LobbyTick (max 0 (round_half_even remaining)) (player_count e) (card_count e) (e_pot e) derash) e))"

fun join_commas :: "string list \<Rightarrow> string" where
  "join_commas [] = []"
| "join_commas [n] = n"
| "join_commas (n # m # ns) = n @ '','' @ join_commas (m # ns)"

definition round_client_seed :: "engine \<Rightarrow> int \<Rightarrow> string" where
  "round_client_seed e round_id =
     join_commas (map str_int (sort (map (\<lambda>k. es_card_no (snd k)) (e_entries e)))) @ ''-'' @ str_int round_id"

definition mark_running :: "int \<Rightarrow> int \<Rightarrow> string \<Rightarrow> int list \<Rightarrow> db \<Rightarrow> db option" where
  "mark_running now round_id client_seed draw_order d =
     (if round_status d round_id = Some ''lobby''
      then Some (update_round round_id (\<lambda>r. r\<lparr>rd_status := ''running'', rd_client_seed := Some client_seed,
             rd_draw_order := Some draw_order, rd_started_at := Some now\<rparr>) d)
      else None)"

definition transition_to_running :: "int \<Rightarrow> rat \<Rightarrow> engine \<Rightarrow> db \<Rightarrow> unit outcome" where
  "transition_to_running now clk e d =
     (case (e_round_id e, e_server_seed e) of
        (Some round_id, Some server_seed) \<Rightarrow>
          (let client_seed = round_client_seed e round_id
           in case derive_draw server_seed client_seed of
                Inl x \<Rightarrow> (Inl x, e, d)
              | Inr draw_order \<Rightarrow>
                  (case mark_running now round_id client_seed draw_order d of
                     None \<Rightarrow> (Inr (), reset_to_idle (publish (RoundVoided round_id ''voided'') e), d)
                   | Some d1 \<Rightarrow>
                       (let e1 = (set_status ''running'' e)\<lparr>e_client_seed := Some client_seed, e_draw_order := draw_order,
                                   e_running_started_at := clk\<rparr>
                        in case compute_derash (e_pot e1) (rc_house_cut_bps (e_room e1)) of
                             Inl x \<Rightarrow> (Inl x, e1, d1)
                           | Inr (derash_preview, _) \<Rightarrow>
                               (Inr (), publish (RoundStart round_id (e_seq e1) (player_count e1) (card_count e1) (e_pot e1)
                                  derash_preview (case e_server_seed_hash e1 of None \<Rightarrow> [] | Some h \<Rightarrow> h)) e1, d1))))
      | _ \<Rightarrow> (Inl AssertionError, e, d))"

text \<open>The users of the entries, once each.\<close>

definition entrant_users :: "engine \<Rightarrow> int list" where
  "entrant_users e = remdups (map (\<lambda>k. fst (fst k)) (e_entries e))"

definition publish_balances :: "db \<Rightarrow> int list \<Rightarrow> engine \<Rightarrow> engine" where
  "publish_balances d us e = fold (publish_balance_update d) us e"

text \<open>The end of \<open>_run_lobby\<close>, when the countdown has run out.\<close>

definition lobby_expired :: "int \<Rightarrow> rat \<Rightarrow> engine \<Rightarrow> db \<Rightarrow> unit outcome" where
  "lobby_expired now clk e d =
     (if \<not> e_lock_held e \<or> e_stop_requested e then (Inr (), e, d)
      else if rc_min_players (e_room e) \<le> player_count e \<or> player_count e = 0 then transition_to_running now clk e d
      else case e_round_id e of
             None \<Rightarrow> (Inl AssertionError, e, d)
           | Some round_id \<Rightarrow>
               (case refund_round now round_id ''lobby_underfilled'' d of
                  Inl x \<Rightarrow> (Inl x, e, d)
                | Inr (_, d1) \<Rightarrow>
                    (Inr (), reset_to_idle (publish (RoundVoided round_id ''lobby_underfilled'')
                       (publish_balances d1 (entrant_users e) e)), d1)))"

definition run_lobby :: "int \<Rightarrow> rat \<Rightarrow> engine \<Rightarrow> db \<Rightarrow> unit outcome" where
  "run_lobby now clk e d =
     (if e_lobby_deadline e - clk \<le> 0 then lobby_expired now clk e d
      else if \<not> e_lock_held e \<or> e_stop_requested e then (Inr (), e, d)
      else case lobby_tick clk e of (r, e') \<Rightarrow> (r, e', d))"

subsection \<open>Calling numbers\<close>

definition advance_call_index :: "int \<Rightarrow> int \<Rightarrow> db \<Rightarrow> db option" where
  "advance_call_index round_id call_index d =
     (if round_status d round_id = Some ''running''
      then Some (update_round round_id (\<lambda>r. r\<lparr>rd_call_index := call_index\<rparr>) d) else None)"

text \<open>
  One entry of the auto-mark scan. An exception of \<open>has_won\<close> ends the scan; one of \<open>claim\<close> does not: the
  entry is offered again at the next call.
\<close>

definition auto_claim_entry :: "rat \<Rightarrow> (int \<times> int) \<times> entry_state \<Rightarrow> engine \<times> db \<Rightarrow> (engine \<times> db) result" where
  "auto_claim_entry clk = (\<lambda>(key, entry) (e, d).
     if \<not> es_auto_mark entry \<or> key \<in> e_auto_claimed e \<or> key \<in> e_locked_out e then Inr (e, d)
     else case e_card_pool e (es_card_no entry) of
            None \<Rightarrow> Inl KeyError
          | Some grid \<Rightarrow>
              bind_result (has_won grid (e_called e) (rc_win_patterns (e_room e)) (rc_min_winning_lines (e_room e))) (\<lambda>won.
                if \<not> won then Inr (e, d)
                else case claim clk (fst key) (snd key) ''auto'' (e\<lparr>e_auto_claimed := insert key (e_auto_claimed e)\<rparr>) d of
                       (Inl x, e', d') \<Rightarrow> Inr (e'\<lparr>e_auto_claimed := e_auto_claimed e' - {key}\<rparr>, d')
                     | (Inr _, e', d') \<Rightarrow> Inr (e', d')))"

text \<open>The scan over a snapshot of the entries; the exception keeps the state reached.\<close>

fun auto_claim_scan :: "rat \<Rightarrow> ((int \<times> int) \<times> entry_state) list \<Rightarrow> engine \<Rightarrow> db \<Rightarrow> unit outcome" where
  "auto_claim_scan clk [] e d = (Inr (), e, d)"
| "auto_claim_scan clk (k # ks) e d =
     (case auto_claim_entry clk k (e, d) of
        Inl x \<Rightarrow> (Inl x, e, d)
      | Inr (e', d') \<Rightarrow> auto_claim_scan clk ks e' d')"

definition call_next_number :: "rat \<Rightarrow> engine \<Rightarrow> db \<Rightarrow> bool outcome" where
  "call_next_number clk e d =
     (case e_round_id e of
        None \<Rightarrow> (Inl AssertionError, e, d)
      | Some round_id \<Rightarrow>
          (let call_index = e_call_index e + 1; e1 = e\<lparr>e_call_index := call_index\<rparr>
           in case list_get (e_draw_order e) (nat (call_index - 1)) of
                Inl x \<Rightarrow> (Inl x, e1, d)
              | Inr number \<Rightarrow>
                  (let e2 = e1\<lparr>e_called := insert number (e_called e1)\<rparr>
                   in case advance_call_index round_id call_index d of
                        None \<Rightarrow> (Inr False, e2, d)
                      | Some d1 \<Rightarrow>
                          (case letter_for number of
                             Inl x \<Rightarrow> (Inl x, e2, d1)
                           | Inr letter \<Rightarrow>
                               (case auto_claim_scan clk (e_entries e2)
                                       (publish (NumberCalled round_id call_index number letter) e2) d1 of
                                  (Inl x, e3, d2) \<Rightarrow> (Inl x, e3, d2)
                                | (Inr _, e3, d2) \<Rightarrow> (Inr True, e3, d2))))))"

definition reveal_seed :: "int \<Rightarrow> bytes \<Rightarrow> db \<Rightarrow> db" where
  "reveal_seed round_id server_seed d = update_round round_id (\<lambda>r. r\<lparr>rd_server_seed := Some server_seed\<rparr>) d"

text \<open>All 75 numbers called and nobody won: refund, reveal the seed, end the round.\<close>

definition run_exhausted :: "int \<Rightarrow> engine \<Rightarrow> db \<Rightarrow> unit outcome" where
  "run_exhausted now e d =
     (case (e_round_id e, e_server_seed e) of
        (Some round_id, Some server_seed) \<Rightarrow>
          (case refund_round now round_id ''exhausted_no_winner'' d of
             Inl x \<Rightarrow> (Inl x, e, d)
           | Inr (_, d1) \<Rightarrow>
               (Inr (), reset_to_idle (publish (RoundEnd round_id [] 0 server_seed) (publish_balances d1 (entrant_users e) e)),
                reveal_seed round_id server_seed d1))
      | _ \<Rightarrow> (Inl AssertionError, e, d))"

text \<open>
  One iteration of the loop of \<open>_run_running\<close>, from the wake-up of its sleep, and what follows the loop
  when the iteration ends it: \<open>False\<close> of \<open>_call_next_number\<close> is an external stop, the 75th call with the
  round still running is exhaustion. A pending settlement is awaited, so the loop leaves it alone.
\<close>

definition call_due :: "rat \<Rightarrow> engine \<Rightarrow> bool" where
  "call_due clk e \<longleftrightarrow>
     e_running_started_at e + of_int (e_call_index e + 1) * (of_int (rc_call_interval_ms (e_room e)) / 1000) \<le> clk"

definition run_iteration :: "int \<Rightarrow> rat \<Rightarrow> engine \<Rightarrow> db \<Rightarrow> unit outcome" where
  "run_iteration now clk e d =
     (if e_status e \<noteq> ''running'' \<or> \<not> e_lock_held e \<or> 75 \<le> e_call_index e then (Inr (), e, d)
      else case call_next_number clk e d of
             (Inl x, e1, d1) \<Rightarrow> (Inl x, e1, d1)
           | (Inr called, e1, d1) \<Rightarrow>
               (if e_settlement_task e1 \<noteq> None then (Inr (), e1, d1)
                else if \<not> called then (Inr (), reset_to_idle e1, d1)
                else if e_status e1 = ''running'' \<and> e_call_index e1 = 75 then run_exhausted now e1 d1
                else (Inr (), e1, d1)))"

subsection \<open>Settlement\<close>

text \<open>The winners' cash accounts, in order.\<close>

fun winner_accounts :: "pending_winner list \<Rightarrow> db \<Rightarrow> account list \<times> db" where
  "winner_accounts [] d = ([], d)"
| "winner_accounts (w # ws) d =
     (let (a, d1) = db_account (Some (pw_user w)) ''user_cash'' d; (as, d2) = winner_accounts ws d1 in (a # as, d2))"

definition settle_args :: "int \<Rightarrow> money \<Rightarrow> int \<Rightarrow> (account \<times> money) list \<Rightarrow> int \<Rightarrow> money \<Rightarrow> post_args" where
  "settle_args round_id pot pot_acct paid house_acct house_total =
     \<lparr>pa_kind = ''payout'',
      pa_entries = [\<lparr>ent_account = pot_acct, ent_amount = dneg pot\<rparr>]
        @ map (\<lambda>(a, share). \<lparr>ent_account = acc_id a, ent_amount = share\<rparr>) paid
        @ [\<lparr>ent_account = house_acct, ent_amount = house_total\<rparr>],
      pa_key = settle_key round_id, pa_round = Some round_id, pa_payment = None, pa_memo = None, pa_by = ''system''\<rparr>"

definition insert_winner_row :: "int \<Rightarrow> int \<Rightarrow> pending_winner \<times> money \<Rightarrow> db \<Rightarrow> db result" where
  "insert_winner_row round_id tid = (\<lambda>(w, share). insert_winner \<lparr>wn_round = round_id, wn_user = pw_user w,
     wn_card = pw_card w, wn_pattern = pw_pattern w, wn_on_call = pw_call_index w, wn_amount = share,
     wn_payout_txn = Some tid\<rparr>)"

definition display_name :: "db \<Rightarrow> int \<Rightarrow> string" where
  "display_name d u = (case user_by_id d u of None \<Rightarrow> [] | Some r \<Rightarrow> us_display_name r)"

text \<open>The transaction; \<open>None\<close> when the round turned out to be terminal already.\<close>

definition settle_txn :: "int \<Rightarrow> int \<Rightarrow> bytes \<Rightarrow> money \<Rightarrow> money \<Rightarrow> pending_winner list \<Rightarrow> money list \<Rightarrow> money
    \<Rightarrow> db \<Rightarrow> db option result" where
  "settle_txn now round_id server_seed pot derash winners shares house_total d =
     (if (case round_status d round_id of None \<Rightarrow> True | Some st \<Rightarrow> st \<in> TERMINAL_STATUSES) then Inr None
      else let (pot_account, d1) = db_account None ''pot_escrow'' d;
               (house_account, d2) = db_account None ''house_revenue'' d1;
               (winner_cash, d3) = winner_accounts winners d2
           in bind_result (db_post now (settle_args round_id pot (acc_id pot_account) (zip winner_cash shares)
                  (acc_id house_account) house_total) d3) (\<lambda>(txn, d4).
              bind_result (fold_result (insert_winner_row round_id (txn_id txn)) (zip winners shares) d4) (\<lambda>d5.
              bind_result (db_commit d (update_round round_id (\<lambda>r. r\<lparr>rd_status := ''done'', rd_derash := derash,
                  rd_server_seed := Some server_seed, rd_ended_at := Some now\<rparr>) d5)) (\<lambda>d6. Inr (Some d6)))))"

definition end_winners :: "db \<Rightarrow> engine \<Rightarrow> pending_winner list \<Rightarrow> money list \<Rightarrow> end_winner list" where
  "end_winners d e winners shares =
     map (\<lambda>(w, share). \<lparr>ew_user = pw_user w, ew_display_name = display_name d (pw_user w), ew_card = pw_card w,
        ew_pattern = pw_pattern w, ew_amount = share, ew_grid = e_card_pool e (pw_card w)\<rparr>) (zip winners shares)"

definition settle_with_winners :: "int \<Rightarrow> pending_winner list \<Rightarrow> engine \<Rightarrow> db \<Rightarrow> unit outcome" where
  "settle_with_winners now winners e d =
     (case (e_round_id e, e_server_seed e) of
        (Some round_id, Some server_seed) \<Rightarrow>
          (let pot = e_pot e
           in case bind_result (compute_derash pot (rc_house_cut_bps (e_room e))) (\<lambda>(derash, house_cut).
                   bind_result (split_derash derash (int (length winners))) (\<lambda>(shares, leftover).
                   let house_total = dadd house_cut leftover
                   in bind_result (settle_txn now round_id server_seed pot derash winners shares house_total d)
                        (\<lambda>res. Inr (derash, shares, res)))) of
                Inl x \<Rightarrow> (Inl x, e, d)
              | Inr (derash, shares, None) \<Rightarrow> (Inr (), reset_to_idle e, d)
              | Inr (derash, shares, Some d1) \<Rightarrow>
                  (Inr (), set_status ''done'' (publish (RoundEnd round_id (end_winners d1 e winners shares) derash server_seed)
                     (publish_balances d1 (map pw_user winners) e)), d1))
      | _ \<Rightarrow> (Inl AssertionError, e, d))"

text \<open>The settlement task, from the end of its sleep to the sleep that shows the result.\<close>

definition finalize_after_window :: "int \<Rightarrow> engine \<Rightarrow> db \<Rightarrow> unit outcome" where
  "finalize_after_window now e d =
     settle_with_winners now (e_pending e) (e\<lparr>e_pending := [], e_window_deadline := None\<rparr>) d"

definition result_shown :: "engine \<Rightarrow> engine" where
  "result_shown e = reset_to_idle e"

definition room_is_still_active :: "engine \<Rightarrow> db \<Rightarrow> bool" where
  "room_is_still_active e d = (case room_by_id d (rc_id (e_room e)) of None \<Rightarrow> False | Some r \<Rightarrow> rm_is_active r)"

subsection \<open>Commands\<close>

record command =
  cmd_action :: string
  cmd_user :: int
  cmd_card :: int
  cmd_auto_mark :: bool
  cmd_auto :: bool

definition dispatch :: "int \<Rightarrow> rat \<Rightarrow> bytes \<Rightarrow> command \<Rightarrow> engine \<Rightarrow> db \<Rightarrow> cmd_result outcome" where
  "dispatch now clk seed c e d =
     (if cmd_action c = ''join'' then join now clk seed (cmd_user c) (cmd_card c) (cmd_auto_mark c) e d
      else if cmd_action c = ''drop_card'' then drop_card now (cmd_user c) (cmd_card c) e d
      else if cmd_action c = ''claim'' then claim clk (cmd_user c) (cmd_card c) ''manual'' e d
      else if cmd_action c = ''set_auto'' then set_auto (cmd_user c) (cmd_auto c) e d
      else (Inr (rejected ''unknown_action''), e, d))"

definition handle_command :: "int \<Rightarrow> rat \<Rightarrow> bytes \<Rightarrow> command \<Rightarrow> engine \<Rightarrow> db \<Rightarrow> cmd_result \<times> engine \<times> db" where
  "handle_command now clk seed c e d =
     (case dispatch now clk seed c e d of
        (Inl _, e', d') \<Rightarrow> (rejected ''internal_error'', e', d')
      | (Inr r, e', d') \<Rightarrow> (r, e', d'))"

text \<open>A batch read off the room's stream, each command at its own clock values.\<close>

fun serve_commands :: "(int \<times> rat \<times> bytes \<times> command) list \<Rightarrow> engine \<Rightarrow> db \<Rightarrow> cmd_result list \<times> engine \<times> db" where
  "serve_commands [] e d = ([], e, d)"
| "serve_commands ((now, clk, seed, c) # cs) e d =
     (let (r, e1, d1) = handle_command now clk seed c e d; (rs, e2, d2) = serve_commands cs e1 d1 in (r # rs, e2, d2))"

end
