(* ===== verification/Round_Money.thy ===== *)
theory Round_Money
  imports Round_Engine
begin

text \<open>
  What each transaction of the room state machine does to the database when it commits: taking a stake,
  returning a dropped card's stake, settling a round. Each lemma gives the new tables, the movements of
  the balances by owner and the idempotency key taken. The ledger is used through the wallet interface.
\<close>

abbreviation pot_owner :: owner where "pot_owner \<equiv> (None, ''pot_escrow'')"
abbreviation house_owner :: owner where "house_owner \<equiv> (None, ''house_revenue'')"
abbreviation cash_owner :: "int \<Rightarrow> owner" where "cash_owner u \<equiv> (Some u, ''user_cash'')"

lemma db_account_tables:
  assumes "db_account u k d = (a, d')" shows "d' = d\<lparr>led := led d'\<rparr>"
  using assms by (auto simp: db_account_def Let_def split: prod.splits)

lemma db_post_tables: "db_post now p d = Inr (t, d') \<Longrightarrow> d' = d\<lparr>led := led d'\<rparr>"
  by (auto simp: db_post_Inr)

lemma set_stake_txn_new:
  assumes "\<forall>f\<in>set (round_entries d). \<not> (en_round f = i \<and> en_card f = c)"
    and "round_entries d' = round_entries d @ [x]" "en_round x = i" "en_card x = c"
  shows "set_stake_txn i c t d' = d'\<lparr>round_entries := round_entries d @ [x\<lparr>en_stake_txn := Some t\<rparr>]\<rparr>"
proof -
  have "map (\<lambda>x. if en_round x = i \<and> en_card x = c then x\<lparr>en_stake_txn := Some t\<rparr> else x) (round_entries d) = round_entries d"
    using assms(1) by (intro map_idI) auto
  then show ?thesis using assms(2-4) by (simp add: set_stake_txn_def)
qed

lemma bump_pot_Inr:
  "bump_pot i x n d = Inr d' \<longleftrightarrow>
     (round_by_id d i = None \<and> d' = d) \<or>
     (\<exists>r. round_by_id d i = Some r \<and> \<bar>numeric2 (rd_pot r + x)\<bar> < 10 ^ 16 \<and>
        d' = update_round i (\<lambda>r'. r'\<lparr>rd_pot := numeric2 (rd_pot r + x), rd_player_count := rd_player_count r' + n\<rparr>) d)"
  by (auto simp: bump_pot_def numeric18_2_def bind_result_Inr_iff split: option.splits)

lemma join_txn_effect:
  assumes ok: "ledger_ok (led d)" and st: "whole_cents stake" and fresh: "stake_key i u c \<notin> tkeys (led d)"
    and join: "join_txn now stake i u c auto d = Inr (None, d')"
  shows "\<exists>r t. round_by_id d i = Some r \<and> rd_status r = ''lobby''
    \<and> \<not> blocked (check_stake_allowed now d u stake)
    \<and> (\<forall>f\<in>set (round_entries d). \<not> (en_round f = i \<and> en_card f = c))
    \<and> user_by_id d u \<noteq> None \<and> cards d c \<noteq> None
    \<and> \<bar>numeric2 (rd_pot r + stake)\<bar> < 10 ^ 16
    \<and> d' = (update_round i (\<lambda>r'. r'\<lparr>rd_pot := numeric2 (rd_pot r + stake), rd_player_count := rd_player_count r' + 1\<rparr>) d)
         \<lparr>round_entries := round_entries d @ [\<lparr>en_round = i, en_card = c, en_user = u, en_auto = auto, en_stake_txn = Some t\<rparr>],
          led := led d'\<rparr>
    \<and> ledger_ok (led d') \<and> tkeys (led d') = insert (stake_key i u c) (tkeys (led d))
    \<and> obal (led d') = (obal (led d))(cash_owner u := obal (led d) (cash_owner u) - stake,
         pot_owner := obal (led d) pot_owner + stake)"
proof -
  obtain r where r: "round_by_id d i = Some r" "rd_status r = ''lobby''"
    using join by (auto simp: join_txn_def round_status_def split: if_splits)
  then have rs: "round_status d i = Some ''lobby''" by (simp add: round_status_def)
  let ?x = "\<lparr>en_round = i, en_card = c, en_user = u, en_auto = auto, en_stake_txn = None\<rparr>"
  have nb: "\<not> blocked (check_stake_allowed now d u stake)"
    using join by (auto simp: join_txn_def rs Let_def split: option.splits)
  obtain d1 where ins: "insert_entry ?x d = Inr d1"
    using join nb by (auto simp: join_txn_def rs Let_def bind_result_Inr_iff)
  obtain cash d2 where a1: "db_account (Some u) ''user_cash'' d1 = (cash, d2)" by fastforce
  obtain pot d3 where a2: "db_account None ''pot_escrow'' d2 = (pot, d3)" by fastforce
  obtain t d4 d5 where p: "db_post now (stake_args stake i u c (acc_id cash) (acc_id pot)) d3 = Inr (t, d4)"
      "bump_pot i stake 1 (set_stake_txn i c (txn_id t) d4) = Inr d5" "db_commit d d5 = Inr d'"
    using join nb by (auto simp: join_txn_def rs Let_def ins a1 a2 bind_result_Inr_iff split: prod.splits)
  have d5: "d5 = d'" using db_commit_Inr [OF p(3)] by simp
  have i1: "d1 = d\<lparr>round_entries := round_entries d @ [?x]\<rparr>"
    and pk: "\<forall>f\<in>set (round_entries d). \<not> (en_round f = i \<and> en_card f = c)"
    and fk: "user_by_id d u \<noteq> None" "cards d c \<noteq> None"
    using ins by (auto simp: insert_entry_def split: if_splits)
  have ok1: "ledger_ok (led d1)" using ok by (simp add: i1)
  note g1 = dbw.get_account_spec [where ow = "cash_owner u", simplified, OF a1 ok1]
  note g2 = dbw.get_account_spec [where ow = pot_owner, simplified, OF a2 g1(1)]
  have acct: "acct_of (led d3) (cash_owner u) = Some (acc_id cash)" using g1(4) g2(6) by blast
  have fresh3: "pa_key (stake_args stake i u c (acc_id cash) (acc_id pot)) \<notin> tkeys (led d3)"
    using fresh g1(3) g2(3) by (simp add: stake_args_def i1)
  note tr = dbw.transfer [OF g2(1) acct g2(4) _ st fresh3 _ p(1)]
  have tr': "ledger_ok (led d4)" "obal (led d4) = (obal (led d3))(cash_owner u := obal (led d3) (cash_owner u) - stake,
         pot_owner := obal (led d3) pot_owner + stake)"
    "tkeys (led d4) = insert (stake_key i u c) (tkeys (led d3))"
    using tr(1,2,3) by (simp_all add: stake_args_def)
  have t2: "d2 = d1\<lparr>led := led d2\<rparr>" by (rule db_account_tables [OF a1])
  have t3: "d3 = d2\<lparr>led := led d3\<rparr>" by (rule db_account_tables [OF a2])
  have t4: "d4 = d3\<lparr>led := led d4\<rparr>" by (rule db_post_tables [OF p(1)])
  have e4: "round_entries d4 = round_entries d @ [?x]"
    by (subst t4, subst t3, subst t2) (simp add: i1)
  have s4: "set_stake_txn i c (txn_id t) d4 = d4\<lparr>round_entries := round_entries d @ [?x\<lparr>en_stake_txn := Some (txn_id t)\<rparr>]\<rparr>"
    by (rule set_stake_txn_new [OF pk e4]) simp_all
  have d4: "d4 = d\<lparr>round_entries := round_entries d @ [?x], led := led d4\<rparr>"
    by (subst t4, subst t3, subst t2) (simp add: i1)
  have rb: "round_by_id (set_stake_txn i c (txn_id t) d4) i = Some r"
    unfolding s4 by (subst d4) (use r(1) in \<open>simp add: round_by_id_def\<close>)
  have b: "\<bar>numeric2 (rd_pot r + stake)\<bar> < 10 ^ 16"
    "d' = update_round i (\<lambda>r'. r'\<lparr>rd_pot := numeric2 (rd_pot r + stake), rd_player_count := rd_player_count r' + 1\<rparr>)
       (set_stake_txn i c (txn_id t) d4)"
    using p(2) rb unfolding d5 bump_pot_Inr by auto
  have l': "led d' = led d4" unfolding b(2) s4 by simp
  have "d' = (update_round i (\<lambda>r'. r'\<lparr>rd_pot := numeric2 (rd_pot r + stake), rd_player_count := rd_player_count r' + 1\<rparr>) d)
         \<lparr>round_entries := round_entries d @ [\<lparr>en_round = i, en_card = c, en_user = u, en_auto = auto, en_stake_txn = Some (txn_id t)\<rparr>],
          led := led d'\<rparr>"
    unfolding l' unfolding b(2) s4 by (subst d4) (simp add: update_round_def)
  moreover have "obal (led d3) = obal (led d)" "tkeys (led d3) = tkeys (led d)" using g1(2,3) g2(2,3) by (simp_all add: i1)
  ultimately show ?thesis
    using r nb pk fk b(1) tr' by (intro exI [of _ r] exI [of _ "txn_id t"]) (simp add: l')
qed

lemma drop_txn_effect:
  assumes ok: "ledger_ok (led d)" and st: "whole_cents stake" and fresh: "drop_key i u c \<notin> tkeys (led d)"
    and drop: "drop_txn now stake i u c d = Inr (None, d')"
  shows "\<exists>r. round_by_id d i = Some r \<and> rd_status r = ''lobby''
    \<and> (\<exists>x\<in>set (round_entries d). en_round x = i \<and> en_user x = u \<and> en_card x = c)
    \<and> \<bar>numeric2 (rd_pot r - stake)\<bar> < 10 ^ 16
    \<and> d' = (update_round i (\<lambda>r'. r'\<lparr>rd_pot := numeric2 (rd_pot r - stake), rd_player_count := rd_player_count r' - 1\<rparr>) d)
         \<lparr>round_entries := filter (\<lambda>x. \<not> (en_round x = i \<and> en_user x = u \<and> en_card x = c)) (round_entries d), led := led d'\<rparr>
    \<and> ledger_ok (led d') \<and> tkeys (led d') = insert (drop_key i u c) (tkeys (led d))
    \<and> obal (led d') = (obal (led d))(pot_owner := obal (led d) pot_owner - stake,
         cash_owner u := obal (led d) (cash_owner u) + stake)"
proof -
  obtain r where r: "round_by_id d i = Some r" "rd_status r = ''lobby''"
    using drop by (auto simp: drop_txn_def round_status_def split: if_splits)
  then have rs: "round_status d i = Some ''lobby''" by (simp add: round_status_def)
  let ?m = "\<lambda>x. en_round x = i \<and> en_user x = u \<and> en_card x = c"
  define d1 where "d1 = d\<lparr>round_entries := filter (\<lambda>x. \<not> ?m x) (round_entries d)\<rparr>"
  have m: "list_ex ?m (round_entries d)" using drop by (auto simp: drop_txn_def rs Let_def split: if_splits)
  obtain cash d2 where a1: "db_account (Some u) ''user_cash'' d1 = (cash, d2)" by fastforce
  obtain pot d3 where a2: "db_account None ''pot_escrow'' d2 = (pot, d3)" by fastforce
  obtain t d4 d5 where p: "db_post now (drop_args stake i u c (acc_id cash) (acc_id pot)) d3 = Inr (t, d4)"
      "bump_pot i (- stake) (- 1) d4 = Inr d5" "db_commit d d5 = Inr d'"
    using drop unfolding drop_txn_def rs Let_def d1_def [symmetric] a1 a2
    by (auto simp: m a2 bind_result_Inr_iff split: prod.splits)
  have d5: "d5 = d'" using db_commit_Inr [OF p(3)] by simp
  have ok1: "ledger_ok (led d1)" using ok by (simp add: d1_def)
  note g1 = dbw.get_account_spec [where ow = "cash_owner u", simplified, OF a1 ok1]
  note g2 = dbw.get_account_spec [where ow = pot_owner, simplified, OF a2 g1(1)]
  have acct: "acct_of (led d3) (cash_owner u) = Some (acc_id cash)" using g1(4) g2(6) by blast
  have fresh3: "pa_key (drop_args stake i u c (acc_id cash) (acc_id pot)) \<notin> tkeys (led d3)"
    using fresh g1(3) g2(3) by (simp add: drop_args_def d1_def)
  note tr = dbw.transfer [OF g2(1) g2(4) acct _ st fresh3 _ p(1)]
  have tr': "ledger_ok (led d4)" "obal (led d4) = (obal (led d3))(pot_owner := obal (led d3) pot_owner - stake,
         cash_owner u := obal (led d3) (cash_owner u) + stake)"
    "tkeys (led d4) = insert (drop_key i u c) (tkeys (led d3))"
    using tr(1,2,3) by (simp_all add: drop_args_def)
  have t2: "d2 = d1\<lparr>led := led d2\<rparr>" by (rule db_account_tables [OF a1])
  have t3: "d3 = d2\<lparr>led := led d3\<rparr>" by (rule db_account_tables [OF a2])
  have t4: "d4 = d3\<lparr>led := led d4\<rparr>" by (rule db_post_tables [OF p(1)])
  have d4: "d4 = d\<lparr>round_entries := filter (\<lambda>x. \<not> ?m x) (round_entries d), led := led d4\<rparr>"
    by (subst t4, subst t3, subst t2) (simp add: d1_def)
  have rb: "round_by_id d4 i = Some r"
    by (subst d4) (use r(1) in \<open>simp add: round_by_id_def\<close>)
  have b: "\<bar>numeric2 (rd_pot r - stake)\<bar> < 10 ^ 16"
    "d' = update_round i (\<lambda>r'. r'\<lparr>rd_pot := numeric2 (rd_pot r - stake), rd_player_count := rd_player_count r' - 1\<rparr>) d4"
    using p(2) rb unfolding d5 bump_pot_Inr by auto
  have l': "led d' = led d4" unfolding b(2) by simp
  have "d' = (update_round i (\<lambda>r'. r'\<lparr>rd_pot := numeric2 (rd_pot r - stake), rd_player_count := rd_player_count r' - 1\<rparr>) d)
         \<lparr>round_entries := filter (\<lambda>x. \<not> ?m x) (round_entries d), led := led d'\<rparr>"
    unfolding l' unfolding b(2) by (subst d4) (simp add: update_round_def)
  moreover have "obal (led d3) = obal (led d)" "tkeys (led d3) = tkeys (led d)" using g1(2,3) g2(2,3) by (simp_all add: d1_def)
  moreover have "\<exists>x\<in>set (round_entries d). ?m x" using m by (auto simp: list_ex_iff)
  ultimately show ?thesis
    using r b(1) tr' by (intro exI [of _ r]) (simp add: l')
qed

subsection \<open>Settlement\<close>

lemma winner_accounts_spec:
  assumes "winner_accounts ws d = (as, d')" "ledger_ok (led d)"
  shows "ledger_ok (led d') \<and> obal (led d') = obal (led d) \<and> tkeys (led d') = tkeys (led d) \<and> d' = d\<lparr>led := led d'\<rparr>
    \<and> (\<forall>ow i. acct_of (led d) ow = Some i \<longrightarrow> acct_of (led d') ow = Some i)
    \<and> list_all2 (\<lambda>w a. acct_of (led d') (cash_owner (pw_user w)) = Some (acc_id a)) ws as"
  using assms
proof (induction ws arbitrary: d as)
  case (Cons w ws)
  obtain a d1 where a: "db_account (Some (pw_user w)) ''user_cash'' d = (a, d1)" by fastforce
  obtain bs where bs: "winner_accounts ws d1 = (bs, d')" "as = a # bs"
    using Cons.prems(1) by (auto simp: a Let_def split: prod.splits)
  note g = dbw.get_account_spec [where ow = "cash_owner (pw_user w)", simplified, OF a Cons.prems(2)]
  note ih = Cons.IH [OF bs(1) g(1)]
  have t: "d1 = d\<lparr>led := led d1\<rparr>" by (rule db_account_tables [OF a])
  have "d' = d\<lparr>led := led d'\<rparr>"
    using ih by (subst (asm) t) simp
  then show ?case using ih g bs(2) by auto
qed auto

definition settle_moves :: "money \<Rightarrow> (pending_winner \<times> money) list \<Rightarrow> money \<Rightarrow> (owner \<times> money) list" where
  "settle_moves pot paid house_total =
     [(pot_owner, - pot)] @ map (\<lambda>(w, share). (cash_owner (pw_user w), share)) paid @ [(house_owner, house_total)]"

lemma insert_winner_rows:
  assumes "fold_result (insert_winner_row i t) ws d = Inr d'"
  shows "d' = d\<lparr>round_winners := round_winners d @ map (\<lambda>(w, share). \<lparr>wn_round = i, wn_user = pw_user w, wn_card = pw_card w,
     wn_pattern = pw_pattern w, wn_on_call = pw_call_index w, wn_amount = share, wn_payout_txn = Some t\<rparr>) ws\<rparr>"
  using assms
proof (induction ws arbitrary: d)
  case (Cons w ws)
  obtain p share where w: "w = (p, share)" by fastforce
  obtain d1 where d1: "insert_winner_row i t w d = Inr d1" "fold_result (insert_winner_row i t) ws d1 = Inr d'"
    using Cons.prems by (auto simp: bind_result_Inr_iff)
  show ?case
    using Cons.IH [OF d1(2)] d1(1) by (auto simp: w insert_winner_row_def insert_winner_def split: if_splits)
qed simp

text \<open>The inserts succeed when the winning cards are distinct, none is recorded yet and the users exist.\<close>

lemma insert_winner_rows_total:
  assumes "distinct (map (\<lambda>w. (pw_user (fst w), pw_card (fst w))) ws)" "round_by_id d i \<noteq> None"
    "\<forall>w\<in>set ws. user_by_id d (pw_user (fst w)) \<noteq> None"
    "\<forall>v\<in>set (round_winners d). wn_round v = i \<longrightarrow> (wn_user v, wn_card v) \<notin> (\<lambda>w. (pw_user (fst w), pw_card (fst w))) ` set ws"
  shows "\<exists>d'. fold_result (insert_winner_row i t) ws d = Inr d'"
  using assms
proof (induction ws arbitrary: d)
  case (Cons w ws)
  obtain p share where w: "w = (p, share)" by fastforce
  let ?row = "\<lparr>wn_round = i, wn_user = pw_user p, wn_card = pw_card p, wn_pattern = pw_pattern p,
      wn_on_call = pw_call_index p, wn_amount = share, wn_payout_txn = Some t\<rparr>"
  let ?d = "d\<lparr>round_winners := round_winners d @ [?row]\<rparr>"
  have "insert_winner_row i t w d = Inr ?d"
    using Cons.prems by (auto simp: w insert_winner_row_def insert_winner_def)
  moreover have "\<exists>d'. fold_result (insert_winner_row i t) ws ?d = Inr d'"
    by (rule Cons.IH) (use Cons.prems in \<open>auto simp: w round_by_id_def user_by_id_def\<close>)
  ultimately show ?case by simp
qed simp

lemma settle_entries_for:
  assumes len: "length ws = length shares" and whole: "whole_cents pot" "pot < 10 ^ 16" "0 \<le> pot"
    and pot: "acct_of l pot_owner = Some pa" and house: "acct_of l house_owner = Some ha"
    and winners: "list_all2 (\<lambda>w a. acct_of l (cash_owner (pw_user w)) = Some (acc_id a)) ws as"
  shows "entries_for l (settle_moves pot (zip ws shares) house_total)
    (pa_entries (settle_args i pot pa (zip as shares) ha house_total))"
proof -
  have "dneg pot = - pot" using whole by (simp add: dneg_def ctx_round_cents)
  moreover have "list_all2 (\<lambda>m e. acct_of l (fst m) = Some (ent_account e) \<and> snd m = ent_amount e)
      (map (\<lambda>(w, share). (cash_owner (pw_user w), share)) (zip ws shares))
      (map (\<lambda>(a, share). \<lparr>ent_account = acc_id a, ent_amount = share\<rparr>) (zip as shares))"
    using winners len
  proof (induction ws as arbitrary: shares rule: list_all2_induct)
    case (Cons w ws a as)
    then show ?case by (cases shares) auto
  qed simp
  ultimately show ?thesis
    using pot house by (auto simp: entries_for_def settle_moves_def settle_args_def intro!: list_all2_appendI)
qed

lemma settle_moves_sum:
  assumes "length ws = length shares"
  shows "sum_list (map snd (settle_moves pot (zip ws shares) h)) = h + sum_list shares - pot"
proof -
  have "sum_list (map (\<lambda>x. snd ((\<lambda>(w, share). (cash_owner (pw_user w), share)) x)) (zip ws shares)) = sum_list shares"
    using assms by (induction ws shares rule: list_induct2) auto
  then show ?thesis by (simp add: settle_moves_def comp_def)
qed

text \<open>What the winners of \<open>ws\<close> who are the user \<open>u\<close> get together.\<close>

definition won_by :: "int \<Rightarrow> (pending_winner \<times> money) list \<Rightarrow> money" where
  "won_by u paid = sum_list (map snd (filter (\<lambda>w. pw_user (fst w) = u) paid))"

lemma odelta_paid:
  "odelta (map (\<lambda>(w, share). (cash_owner (pw_user w), share)) paid) ow =
    (if snd ow = ''user_cash'' then (case fst ow of None \<Rightarrow> 0 | Some u \<Rightarrow> won_by u paid) else 0)"
proof (induction paid)
  case (Cons w paid)
  then show ?case by (cases w; cases ow; cases "fst ow") (auto simp: won_by_def split: if_splits)
qed (auto simp: won_by_def split: option.splits)

lemma odelta_settle:
  "odelta (settle_moves pot paid h) (cash_owner u) = won_by u paid"
  "odelta (settle_moves pot paid h) pot_owner = - pot"
  "odelta (settle_moves pot paid h) house_owner = h"
  "ow \<noteq> pot_owner \<Longrightarrow> ow \<noteq> house_owner \<Longrightarrow> fst ow = None \<or> snd ow \<noteq> ''user_cash'' \<Longrightarrow>
     odelta (settle_moves pot paid h) ow = 0"
  unfolding settle_moves_def odelta_simps odelta_paid by (auto split: option.splits)

lemma won_by_nonneg: "\<forall>s\<in>set shares. 0 \<le> s \<Longrightarrow> 0 \<le> won_by u (zip ws shares)"
  unfolding won_by_def by (intro sum_list_nonneg) (auto dest: set_zip_rightD)

lemma settle_txn_effect:
  assumes ok: "ledger_ok (led d)" and len: "length ws = length shares"
    and pot: "whole_cents pot" "0 \<le> pot" "pot < 10 ^ 16"
    and whole: "\<forall>s\<in>set shares. whole_cents s" "whole_cents h"
    and sum: "sum_list shares + h = pot" and fresh: "settle_key i \<notin> tkeys (led d)"
    and settle: "settle_txn now i seed pot derash ws shares h d = Inr (Some d')"
  shows "\<exists>r t. round_by_id d i = Some r \<and> rd_status r \<notin> TERMINAL_STATUSES
    \<and> d' = (update_round i (\<lambda>r. r\<lparr>rd_status := ''done'', rd_derash := derash, rd_server_seed := Some seed, rd_ended_at := Some now\<rparr>) d)
        \<lparr>round_winners := round_winners d @ map (\<lambda>(w, share). \<lparr>wn_round = i, wn_user = pw_user w, wn_card = pw_card w,
           wn_pattern = pw_pattern w, wn_on_call = pw_call_index w, wn_amount = share, wn_payout_txn = Some t\<rparr>) (zip ws shares),
         led := led d'\<rparr>
    \<and> ledger_ok (led d') \<and> tkeys (led d') = insert (settle_key i) (tkeys (led d))
    \<and> (\<forall>ow. obal (led d') ow = obal (led d) ow + odelta (settle_moves pot (zip ws shares) h) ow)"
proof -
  have "round_status d i \<noteq> None" "the (round_status d i) \<notin> TERMINAL_STATUSES"
    using settle by (auto simp: settle_txn_def split: if_splits option.splits)
  then obtain r where r: "round_by_id d i = Some r" "rd_status r \<notin> TERMINAL_STATUSES"
    by (cases "round_by_id d i") (auto simp: round_status_def)
  obtain pa d1 where a1: "db_account None ''pot_escrow'' d = (pa, d1)" by fastforce
  obtain ha d2 where a2: "db_account None ''house_revenue'' d1 = (ha, d2)" by fastforce
  obtain as d3 where a3: "winner_accounts ws d2 = (as, d3)" by fastforce
  let ?p = "settle_args i pot (acc_id pa) (zip as shares) (acc_id ha) h"
  let ?done = "\<lambda>r. r\<lparr>rd_status := ''done'', rd_derash := derash, rd_server_seed := Some seed, rd_ended_at := Some now\<rparr> :: round_row"
  obtain t d4 d5 where p: "db_post now ?p d3 = Inr (t, d4)"
      "fold_result (insert_winner_row i (txn_id t)) (zip ws shares) d4 = Inr d5" "db_commit d (update_round i ?done d5) = Inr d'"
    using settle r by (auto simp: settle_txn_def round_status_def Let_def a1 a2 a3 bind_result_Inr_iff split: prod.splits)
  have d': "d' = update_round i ?done d5" using db_commit_Inr [OF p(3)] by simp
  note g1 = dbw.get_account_spec [where ow = pot_owner, simplified, OF a1 ok]
  note g2 = dbw.get_account_spec [where ow = house_owner, simplified, OF a2 g1(1)]
  note g3 = winner_accounts_spec [OF a3 g2(1)]
  have pa: "acct_of (led d3) pot_owner = Some (acc_id pa)" "acct_of (led d3) house_owner = Some (acc_id ha)"
    using g1(4) g2(4,6) g3 by blast+
  have ws: "list_all2 (\<lambda>w a. acct_of (led d3) (cash_owner (pw_user w)) = Some (acc_id a)) ws as" using g3 by blast
  note ef = settle_entries_for [OF len pot(1,3,2) pa ws, where house_total = h and i = i]
  have wh: "\<forall>m\<in>set (settle_moves pot (zip ws shares) h). whole_cents (snd m)"
    using pot whole by (auto simp: settle_moves_def dest: set_zip_rightD)
  have sm: "sum_list (map snd (settle_moves pot (zip ws shares) h)) = 0" using sum by (simp add: settle_moves_sum [OF len])
  have fr: "pa_key ?p \<notin> tkeys (led d3)" using fresh g1(3) g2(3) g3 by (simp add: settle_args_def)
  have ok3: "ledger_ok (led d3)" using g3 by blast
  note pp = db_post_posted [OF ok3 ef wh sm fr p(1)]
  have t1: "d1 = d\<lparr>led := led d1\<rparr>" by (rule db_account_tables [OF a1])
  have t2: "d2 = d1\<lparr>led := led d2\<rparr>" by (rule db_account_tables [OF a2])
  have t3: "d3 = d2\<lparr>led := led d3\<rparr>" using g3 by blast
  have t4: "d4 = d3\<lparr>led := led d4\<rparr>" by (rule db_post_tables [OF p(1)])
  have d4: "d4 = d\<lparr>led := led d4\<rparr>"
    by (subst t4, subst t3, subst t2, subst t1) simp
  note d5 = insert_winner_rows [OF p(2)]
  have l: "led d' = led d4" unfolding d' by (subst d5) simp
  have rw: "round_winners d4 = round_winners d" by (subst d4) simp
  have "d' = (update_round i ?done d)
        \<lparr>round_winners := round_winners d @ map (\<lambda>(w, share). \<lparr>wn_round = i, wn_user = pw_user w, wn_card = pw_card w,
           wn_pattern = pw_pattern w, wn_on_call = pw_call_index w, wn_amount = share, wn_payout_txn = Some (txn_id t)\<rparr>) (zip ws shares),
         led := led d'\<rparr>"
    unfolding l unfolding d' by (subst d5, subst rw, subst d4) (simp add: update_round_def)
  moreover have "obal (led d3) = obal (led d)" "tkeys (led d3) = tkeys (led d)" using g1(2,3) g2(2,3) g3 by simp_all
  ultimately show ?thesis
    using r pp(1,2,3) by (intro exI [of _ r] exI [of _ "txn_id t"]) (simp add: l settle_args_def)
qed

lemma settle_txn_returns:
  assumes ok: "ledger_ok (led d)" and len: "length ws = length shares"
    and pot: "whole_cents pot" "0 \<le> pot" "pot < 10 ^ 16"
    and whole: "\<forall>s\<in>set shares. whole_cents s \<and> 0 \<le> s" "whole_cents h"
    and sum: "sum_list shares + h = pot" and fresh: "settle_key i \<notin> tkeys (led d)"
    and r: "round_by_id d i = Some r" "rd_status r \<notin> TERMINAL_STATUSES"
    and dist: "distinct (map (\<lambda>w. (pw_user w, pw_card w)) ws)" and us: "\<forall>w\<in>set ws. user_by_id d (pw_user w) \<noteq> None"
    and none: "\<forall>v\<in>set (round_winners d). wn_round v \<noteq> i"
  shows "\<exists>d'. settle_txn now i seed pot derash ws shares h d = Inr (Some d')"
proof -
  obtain pa d1 where a1: "db_account None ''pot_escrow'' d = (pa, d1)" by fastforce
  obtain ha d2 where a2: "db_account None ''house_revenue'' d1 = (ha, d2)" by fastforce
  obtain as d3 where a3: "winner_accounts ws d2 = (as, d3)" by fastforce
  let ?p = "settle_args i pot (acc_id pa) (zip as shares) (acc_id ha) h"
  let ?done = "\<lambda>r. r\<lparr>rd_status := ''done'', rd_derash := derash, rd_server_seed := Some seed, rd_ended_at := Some now\<rparr> :: round_row"
  note g1 = dbw.get_account_spec [where ow = pot_owner, simplified, OF a1 ok]
  note g2 = dbw.get_account_spec [where ow = house_owner, simplified, OF a2 g1(1)]
  note g3 = winner_accounts_spec [OF a3 g2(1)]
  have pa: "acct_of (led d3) pot_owner = Some (acc_id pa)" "acct_of (led d3) house_owner = Some (acc_id ha)"
    using g1(4) g2(4,6) g3 by blast+
  have ws: "list_all2 (\<lambda>w a. acct_of (led d3) (cash_owner (pw_user w)) = Some (acc_id a)) ws as" using g3 by blast
  note ef = settle_entries_for [OF len pot(1,3,2) pa ws, where house_total = h and i = i]
  have wh: "\<forall>m\<in>set (settle_moves pot (zip ws shares) h). whole_cents (snd m)"
    using pot whole by (auto simp: settle_moves_def dest: set_zip_rightD)
  have sm: "sum_list (map snd (settle_moves pot (zip ws shares) h)) = 0" using sum by (simp add: settle_moves_sum [OF len])
  have fr: "pa_key ?p \<notin> tkeys (led d3)" using fresh g1(3) g2(3) g3 by (simp add: settle_args_def)
  have ok3: "ledger_ok (led d3)" using g3 by blast
  have "\<exists>t d4. db_post now ?p d3 = Inr (t, d4)"
  proof (rule dbw.post_returns [OF ok3 ef [unfolded entries_for_def] wh _ fr])
    show "settle_moves pot (zip ws shares) h \<noteq> []" by (simp add: settle_moves_def)
  next
    fix ow assume o: "ow \<in> fst ` set (settle_moves pot (zip ws shares) h)" "snd ow \<in> USER_BALANCE_KINDS"
    then obtain u where "ow = cash_owner u" by (auto simp: settle_moves_def USER_BALANCE_KINDS_def)
    moreover have "0 \<le> won_by u (zip ws shares)" using whole by (intro won_by_nonneg) simp
    ultimately show "0 \<le> obal (led d3) ow + odelta (settle_moves pot (zip ws shares) h) ow"
      using obal_nonneg [OF ok3 o(2)] by (simp add: odelta_settle(1))
  qed
  then obtain t d4 where p: "db_post now ?p d3 = Inr (t, d4)" by blast
  note pp = db_post_posted [OF ok3 ef wh sm fr p]
  have t1: "d1 = d\<lparr>led := led d1\<rparr>" by (rule db_account_tables [OF a1])
  have t2: "d2 = d1\<lparr>led := led d2\<rparr>" by (rule db_account_tables [OF a2])
  have t3: "d3 = d2\<lparr>led := led d3\<rparr>" using g3 by blast
  have t4: "d4 = d3\<lparr>led := led d4\<rparr>" by (rule db_post_tables [OF p])
  have d4: "d4 = d\<lparr>led := led d4\<rparr>"
    by (subst t4, subst t3, subst t2, subst t1) simp
  have "\<exists>d5. fold_result (insert_winner_row i (txn_id t)) (zip ws shares) d4 = Inr d5"
  proof (rule insert_winner_rows_total)
    have "map (\<lambda>w. (pw_user (fst w), pw_card (fst w))) (zip ws shares) = map (\<lambda>w. (pw_user w, pw_card w)) ws"
      using len by (induction ws shares rule: list_induct2) auto
    then show "distinct (map (\<lambda>w. (pw_user (fst w), pw_card (fst w))) (zip ws shares))" using dist by simp
    show "round_by_id d4 i \<noteq> None" by (subst d4) (use r in \<open>simp add: round_by_id_def\<close>)
    show "\<forall>w\<in>set (zip ws shares). user_by_id d4 (pw_user (fst w)) \<noteq> None"
      by (subst d4) (use us in \<open>auto simp: user_by_id_def dest: set_zip_leftD\<close>)
    show "\<forall>v\<in>set (round_winners d4). wn_round v = i \<longrightarrow>
        (wn_user v, wn_card v) \<notin> (\<lambda>w. (pw_user (fst w), pw_card (fst w))) ` set (zip ws shares)"
      by (subst d4) (use none in auto)
  qed
  then obtain d5 where d5: "fold_result (insert_winner_row i (txn_id t)) (zip ws shares) d4 = Inr d5" ..
  have "led d5 = led d4" by (subst insert_winner_rows [OF d5]) simp
  then have "db_commit d (update_round i ?done d5) = Inr (update_round i ?done d5)"
    using pp(1) by (intro db_commit_ok) simp
  then show ?thesis
    using r by (simp add: settle_txn_def round_status_def Let_def a1 a2 a3 p d5)
qed

end
