(* ===== verification/Bingo_Book.thy ===== *)
theory Bingo_Book
  imports Round_Money
begin

text \<open>
  The book of the Bingo rounds: what the safety of the money rests on, as an abstract state of its own. A
  round is its id, room, status, stake and pot; a sold card is its round, number and holder; and the
  idempotency keys say which money has moved. The abstraction forgets the rest of the tables. The
  invariant ties the three together, and the lemmas show that it survives each abstract transition:
  opening a round, selling a card, taking it back, starting, voiding and settling.
\<close>

record bround =
  b_id :: int
  b_room :: int
  b_status :: string
  b_stake :: money
  b_pot :: money

record bcard =
  bc_round :: int
  bc_card :: int
  bc_user :: int

definition abs_round :: "round_row \<Rightarrow> bround" where
  "abs_round r = \<lparr>b_id = rd_id r, b_room = rd_room r, b_status = rd_status r, b_stake = rd_stake r, b_pot = rd_pot r\<rparr>"

definition abs_card :: "entry_state_row \<Rightarrow> bcard" where
  "abs_card x = \<lparr>bc_round = en_round x, bc_card = en_card x, bc_user = en_user x\<rparr>"

definition rounds_view :: "db \<Rightarrow> bround list" where "rounds_view d = map abs_round (rounds d)"
definition cards_view :: "db \<Rightarrow> bcard list" where "cards_view d = map abs_card (round_entries d)"

definition sold :: "bcard list \<Rightarrow> int \<Rightarrow> bcard list" where
  "sold E i = filter (\<lambda>x. bc_round x = i) E"

definition live :: "bround \<Rightarrow> bool" where
  "live b \<longleftrightarrow> b_status b \<notin> TERMINAL_STATUSES"

definition escrow :: "bround list \<Rightarrow> money" where
  "escrow V = sum_list (map (\<lambda>b. if live b then b_pot b else 0) V)"

definition POOL_SIZE :: int where "POOL_SIZE = 432"

definition round_keys :: "int \<Rightarrow> string set" where
  "round_keys i = {settle_key i} \<union> {k. \<exists>u c. k = stake_key i u c \<or> k = drop_key i u c \<or> k = refund_key i u c}"

definition bround_ok :: "string set \<Rightarrow> bcard list \<Rightarrow> bround \<Rightarrow> bool" where
  "bround_ok K E b \<longleftrightarrow>
     b_status b \<in> {''lobby'', ''running'', ''done'', ''voided''} \<and> whole_cents (b_stake b) \<and> 0 \<le> b_stake b
     \<and> (b_status b \<noteq> ''done'' \<longrightarrow> settle_key (b_id b) \<notin> K)
     \<and> (b_status b \<noteq> ''voided'' \<longrightarrow> (\<forall>u c. refund_key (b_id b) u c \<notin> K))
     \<and> (live b \<longrightarrow> b_pot b = of_nat (length (sold E (b_id b))) * b_stake b \<and> b_pot b < 10 ^ 16)"

definition book_ok :: "string set \<Rightarrow> bround list \<Rightarrow> bcard list \<Rightarrow> bool" where
  "book_ok K V E \<longleftrightarrow>
     map b_id V = map (\<lambda>n. int n + 1) [0..<length V]
     \<and> (\<forall>b\<in>set V. bround_ok K E b)
     \<and> distinct (map (\<lambda>x. (bc_round x, bc_card x)) E)
     \<and> (\<forall>x\<in>set E. bc_round x \<in> b_id ` set V \<and> 1 \<le> bc_card x \<and> bc_card x \<le> POOL_SIZE)
     \<and> (\<forall>i. int (length V) < i \<longrightarrow> round_keys i \<inter> K = {})"

definition vupd :: "int \<Rightarrow> (bround \<Rightarrow> bround) \<Rightarrow> bround list \<Rightarrow> bround list" where
  "vupd i f V = map (\<lambda>b. if b_id b = i then f b else b) V"

subsection \<open>Lists of rounds\<close>

lemma book_ids_distinct: "book_ok K V E \<Longrightarrow> distinct (map b_id V)"
  by (simp add: book_ok_def distinct_map inj_on_def)

lemma book_ids_le: "book_ok K V E \<Longrightarrow> b \<in> set V \<Longrightarrow> 1 \<le> b_id b \<and> b_id b \<le> int (length V)"
proof -
  assume a: "book_ok K V E" "b \<in> set V"
  then have "b_id b \<in> (\<lambda>n. int n + 1) ` {0..<length V}"
    unfolding book_ok_def by (metis image_eqI set_map set_upt)
  then show ?thesis by auto
qed

lemma book_unique: "book_ok K V E \<Longrightarrow> b \<in> set V \<Longrightarrow> b' \<in> set V \<Longrightarrow> b_id b = b_id b' \<Longrightarrow> b = b'"
  using book_ids_distinct [of K V E] by (auto simp: distinct_map dest: inj_onD)

lemma vupd_length [simp]: "length (vupd i f V) = length V"
  by (simp add: vupd_def)

lemma vupd_ids: "(\<And>b. b_id (f b) = b_id b) \<Longrightarrow> map b_id (vupd i f V) = map b_id V"
  by (simp add: vupd_def)

lemma vupd_set: "x \<in> set (vupd i f V) \<longleftrightarrow> (x \<in> set V \<and> b_id x \<noteq> i) \<or> (\<exists>b\<in>set V. b_id b = i \<and> x = f b)"
  by (auto simp: vupd_def)

lemma sum_list_upd:
  fixes g :: "'a \<Rightarrow> rat"
  assumes "distinct (map k xs)" "x \<in> set xs" "k x = i"
  shows "sum_list (map g (map (\<lambda>y. if k y = i then f y else y) xs)) = sum_list (map g xs) - g x + g (f x)"
  using assms
proof (induction xs)
  case (Cons y ys)
  show ?case
  proof (cases "y = x")
    case True
    then have "k x \<notin> k ` set ys" using Cons.prems(1) by simp
    then have "\<forall>z\<in>set ys. k z \<noteq> i" using Cons.prems(3) by (auto simp: image_iff)
    then have "map (\<lambda>y. if k y = i then f y else y) ys = ys" by (intro map_idI) auto
    then show ?thesis using True Cons.prems(3) by simp
  next
    case False
    then have "x \<in> set ys" "k y \<noteq> i" using Cons.prems by force+
    then show ?thesis using Cons.IH Cons.prems by simp
  qed
qed simp

lemma escrow_vupd:
  assumes "distinct (map b_id V)" "b \<in> set V" "b_id b = i"
  shows "escrow (vupd i f V) = escrow V - (if live b then b_pot b else 0) + (if live (f b) then b_pot (f b) else 0)"
  unfolding escrow_def vupd_def by (rule sum_list_upd [OF assms])

lemma escrow_append: "escrow (V @ [b]) = escrow V + (if live b then b_pot b else 0)"
  by (simp add: escrow_def)

lemma sold_append: "sold (E @ [x]) i = sold E i @ (if bc_round x = i then [x] else [])"
  by (simp add: sold_def)

lemma sold_bound:
  assumes "book_ok K V E" shows "length (sold E i) \<le> 432"
proof -
  have d: "distinct (map (\<lambda>x. (bc_round x, bc_card x)) (sold E i))"
    using assms unfolding book_ok_def sold_def by (auto intro: distinct_map_filter)
  have "inj_on bc_card (set (sold E i))"
    using d by (auto simp: distinct_map inj_on_def sold_def)
  then have "card (set (sold E i)) = card (bc_card ` set (sold E i))" by (simp add: card_image)
  also have "\<dots> \<le> card {1..432::int}"
    by (intro card_mono) (use assms in \<open>auto simp: book_ok_def sold_def POOL_SIZE_def\<close>)
  finally show ?thesis
    using d distinct_card [of "sold E i"] by (simp add: distinct_map)
qed

lemma sold_remove:
  assumes "distinct (map (\<lambda>x. (bc_round x, bc_card x)) E)" "x \<in> set E"
  defines "E' \<equiv> filter (\<lambda>y. \<not> (bc_round y = bc_round x \<and> bc_user y = bc_user x \<and> bc_card y = bc_card x)) E"
  shows "length (sold E' j) = length (sold E j) - (if j = bc_round x then 1 else 0)"
    "j = bc_round x \<Longrightarrow> 0 < length (sold E j)"
proof -
  have e: "E' = filter ((\<noteq>) x) E"
    unfolding E'_def by (rule filter_cong) auto
  have "distinct E" using assms(1) by (simp add: distinct_map)
  then have "E' = remove1 x E" by (simp add: e distinct_remove1_removeAll removeAll_filter_not_eq)
  then have "sold E' j = (if j = bc_round x then remove1 x (sold E j) else sold E j)"
    by (auto simp: sold_def filter_remove1)
  moreover have "j = bc_round x \<Longrightarrow> x \<in> set (sold E j)" using assms(2) by (simp add: sold_def)
  ultimately show "length (sold E' j) = length (sold E j) - (if j = bc_round x then 1 else 0)"
    by (auto simp: length_remove1)
  show "j = bc_round x \<Longrightarrow> 0 < length (sold E j)" using assms(2) by (auto simp: sold_def filter_empty_conv)
qed

lemma round_keys_disjoint [simp]: "i \<noteq> j \<Longrightarrow> round_keys i \<inter> round_keys j = {}"
  by (auto simp: round_keys_def)

lemma round_keys_mem [simp]:
  "settle_key j \<in> round_keys i \<longleftrightarrow> j = i" "stake_key j u c \<in> round_keys i \<longleftrightarrow> j = i"
  "drop_key j u c \<in> round_keys i \<longleftrightarrow> j = i" "refund_key j u c \<in> round_keys i \<longleftrightarrow> j = i"
  by (auto simp: round_keys_def)

subsection \<open>The invariant under each transition\<close>

lemma bround_ok_other:
  assumes "bround_ok K E b" "length (sold E' (b_id b)) = length (sold E (b_id b))"
    and "K' \<inter> round_keys (b_id b) = K \<inter> round_keys (b_id b)"
  shows "bround_ok K' E' b"
proof -
  have "k \<in> round_keys (b_id b) \<Longrightarrow> k \<in> K' \<longleftrightarrow> k \<in> K" for k using assms(3) by blast
  then show ?thesis using assms(1,2) by (auto simp: bround_ok_def)
qed

lemma book_ok_open:
  assumes "book_ok K V E" "whole_cents stake" "0 \<le> stake"
  shows "book_ok K (V @ [\<lparr>b_id = int (length V) + 1, b_room = room, b_status = ''lobby'', b_stake = stake, b_pot = 0\<rparr>]) E"
proof -
  let ?b = "\<lparr>b_id = int (length V) + 1, b_room = room, b_status = ''lobby'', b_stake = stake, b_pot = 0\<rparr>"
  have "sold E (int (length V) + 1) = []"
    using assms(1) book_ids_le [OF assms(1)] by (fastforce simp: sold_def filter_empty_conv book_ok_def)
  moreover have "round_keys (int (length V) + 1) \<inter> K = {}" using assms(1) by (simp add: book_ok_def)
  then have "settle_key (int (length V) + 1) \<notin> K" "\<forall>u c. refund_key (int (length V) + 1) u c \<notin> K"
    by (auto simp: round_keys_def)
  ultimately have "bround_ok K E ?b" using assms(2,3) by (simp add: bround_ok_def live_def TERMINAL_STATUSES_def)
  then show ?thesis using assms(1) by (auto simp: book_ok_def)
qed

text \<open>Updating one round, its cards and its keys; the others are left alone.\<close>

lemma book_ok_update:
  assumes ok: "book_ok K V E" and b: "b \<in> set V" "b_id b = i" and id: "\<And>x. b_id (f x) = b_id x"
    and new: "bround_ok K' E' (f b)"
    and sold: "\<And>j. j \<noteq> i \<Longrightarrow> length (sold E' j) = length (sold E j)"
    and keys: "K \<subseteq> K'" "K' - K \<subseteq> round_keys i"
    and E': "distinct (map (\<lambda>x. (bc_round x, bc_card x)) E')"
      "\<forall>x\<in>set E'. x \<in> set E \<or> bc_round x = i \<and> 1 \<le> bc_card x \<and> bc_card x \<le> POOL_SIZE"
  shows "book_ok K' (vupd i f V) E'"
proof -
  have ids: "map b_id (vupd i f V) = map b_id V" by (rule vupd_ids [OF id])
  have frame: "K' \<inter> round_keys j = K \<inter> round_keys j" if "j \<noteq> i" for j
    using keys round_keys_disjoint [OF that] by blast
  have "bround_ok K' E' x" if x: "x \<in> set (vupd i f V)" for x
  proof (cases "b_id x = i")
    case True
    with x obtain y where y: "y \<in> set V" "b_id y = i" "x = f y" by (auto simp: vupd_set)
    then have "y = b" using book_unique [OF ok _ b(1)] b(2) by simp
    then show ?thesis using new y by simp
  next
    case False
    with x have "x \<in> set V" by (auto simp: vupd_set id)
    then have "bround_ok K E x" using ok by (simp add: book_ok_def)
    then show ?thesis by (rule bround_ok_other) (use False sold frame in auto)
  qed
  moreover have "round_keys j \<inter> K' = {}" if "int (length V) < j" for j
  proof -
    have "j \<noteq> i" using that book_ids_le [OF ok b(1)] b(2) by simp
    moreover have "round_keys j \<inter> K = {}" using ok that by (simp add: book_ok_def)
    ultimately show ?thesis using frame [of j] by blast
  qed
  moreover have "b_id ` set (vupd i f V) = b_id ` set V" using ids by (metis set_map)
  moreover have "i \<in> b_id ` set V" using b by blast
  ultimately show ?thesis
    using ok ids E' unfolding book_ok_def by auto
qed

lemma book_ok_sell:
  assumes ok: "book_ok K V E" and b: "b \<in> set V" "b_id b = i" "b_status b = ''lobby''" "b_pot b + b_stake b < 10 ^ 16"
    and new: "\<forall>x\<in>set E. \<not> (bc_round x = i \<and> bc_card x = c)" and c: "1 \<le> c" "c \<le> POOL_SIZE"
  shows "book_ok (insert (stake_key i u c) K) (vupd i (\<lambda>x. x\<lparr>b_pot := b_pot b + b_stake b\<rparr>) V)
      (E @ [\<lparr>bc_round = i, bc_card = c, bc_user = u\<rparr>])"
proof (rule book_ok_update [OF ok b(1,2)])
  have "bround_ok K E b" using ok b(1) by (simp add: book_ok_def)
  then show "bround_ok (insert (stake_key i u c) K) (E @ [\<lparr>bc_round = i, bc_card = c, bc_user = u\<rparr>]) (b\<lparr>b_pot := b_pot b + b_stake b\<rparr>)"
    using b by (auto simp: bround_ok_def live_def TERMINAL_STATUSES_def sold_append algebra_simps)
next
  have "distinct (map (\<lambda>x. (bc_round x, bc_card x)) E)" using ok by (simp add: book_ok_def)
  then show "distinct (map (\<lambda>x. (bc_round x, bc_card x)) (E @ [\<lparr>bc_round = i, bc_card = c, bc_user = u\<rparr>]))"
    using new by auto
qed (use c in \<open>auto simp: sold_append\<close>)

lemma book_ok_unsell:
  assumes ok: "book_ok K V E" and b: "b \<in> set V" "b_id b = i" "b_status b = ''lobby''"
    and x: "x \<in> set E" "bc_round x = i" "bc_user x = u" "bc_card x = c"
  shows "book_ok (insert (drop_key i u c) K) (vupd i (\<lambda>x. x\<lparr>b_pot := b_pot b - b_stake b\<rparr>) V)
      (filter (\<lambda>y. \<not> (bc_round y = i \<and> bc_user y = u \<and> bc_card y = c)) E)"
proof (rule book_ok_update [OF ok b(1,2)])
  have d: "distinct (map (\<lambda>x. (bc_round x, bc_card x)) E)" using ok by (simp add: book_ok_def)
  note sr = sold_remove [OF d x(1), unfolded x(2-4)]
  have bo: "bround_ok K E b" using ok b(1) by (simp add: book_ok_def)
  have "of_nat (length (sold E i) - 1) = (of_nat (length (sold E i)) - 1 :: rat)"
    using sr(2) [of i] by (cases "sold E i") auto
  then show "bround_ok (insert (drop_key i u c) K) (filter (\<lambda>y. \<not> (bc_round y = i \<and> bc_user y = u \<and> bc_card y = c)) E)
      (b\<lparr>b_pot := b_pot b - b_stake b\<rparr>)"
    using b bo sr(1) [of i] by (simp add: bround_ok_def live_def TERMINAL_STATUSES_def algebra_simps)
  show "length (sold (filter (\<lambda>y. \<not> (bc_round y = i \<and> bc_user y = u \<and> bc_card y = c)) E) j) = length (sold E j)" if "j \<noteq> i" for j
    using sr(1) [of j] that by simp
  show "distinct (map (\<lambda>x. (bc_round x, bc_card x)) (filter (\<lambda>y. \<not> (bc_round y = i \<and> bc_user y = u \<and> bc_card y = c)) E))"
    using d by (rule distinct_map_filter)
qed auto

lemma book_ok_start:
  assumes ok: "book_ok K V E" and b: "b \<in> set V" "b_id b = i" "b_status b = ''lobby''"
  shows "book_ok K (vupd i (\<lambda>x. x\<lparr>b_status := ''running''\<rparr>) V) E"
proof (rule book_ok_update [OF ok b(1,2)])
  have "bround_ok K E b" using ok b(1) by (simp add: book_ok_def)
  then show "bround_ok K E (b\<lparr>b_status := ''running''\<rparr>)"
    using b by (simp add: bround_ok_def live_def TERMINAL_STATUSES_def)
qed (use ok in \<open>auto simp: book_ok_def\<close>)

lemma book_ok_void:
  assumes ok: "book_ok K V E" and b: "b \<in> set V" "b_id b = i" "live b"
    and K': "K \<subseteq> K'" "K' - K \<subseteq> {k. \<exists>u c. k = refund_key i u c}"
  shows "book_ok K' (vupd i (\<lambda>x. x\<lparr>b_status := ''voided''\<rparr>) V) E"
proof (rule book_ok_update [OF ok b(1,2)])
  have bo: "bround_ok K E b" using ok b(1) by (simp add: book_ok_def)
  have "settle_key i \<notin> K'"
  proof
    assume "settle_key i \<in> K'"
    moreover have "settle_key i \<notin> K" using bo b by (auto simp: bround_ok_def live_def TERMINAL_STATUSES_def)
    ultimately show False using K'(2) by fastforce
  qed
  then show "bround_ok K' E (b\<lparr>b_status := ''voided''\<rparr>)"
    using bo b by (simp add: bround_ok_def live_def TERMINAL_STATUSES_def)
qed (use ok K' in \<open>auto simp: book_ok_def round_keys_def\<close>)

lemma book_ok_settle:
  assumes ok: "book_ok K V E" and b: "b \<in> set V" "b_id b = i" "live b"
  shows "book_ok (insert (settle_key i) K) (vupd i (\<lambda>x. x\<lparr>b_status := ''done''\<rparr>) V) E"
proof (rule book_ok_update [OF ok b(1,2)])
  have "bround_ok K E b" using ok b(1) by (simp add: book_ok_def)
  then show "bround_ok (insert (settle_key i) K) E (b\<lparr>b_status := ''done''\<rparr>)"
    using b by (auto simp: bround_ok_def live_def TERMINAL_STATUSES_def)
qed (use ok in \<open>auto simp: book_ok_def\<close>)

lemma book_ok_foreign:
  assumes "book_ok K V E" "K \<subseteq> K'" "\<And>i. (K' - K) \<inter> round_keys i = {}"
  shows "book_ok K' V E"
proof -
  have f: "K' \<inter> round_keys j = K \<inter> round_keys j" for j using assms(2,3) by blast
  have "bround_ok K' E b" if "b \<in> set V" for b
    by (rule bround_ok_other [of K E]) (use assms(1) that f in \<open>auto simp: book_ok_def\<close>)
  then show ?thesis using assms(1) f unfolding book_ok_def by blast
qed

end
