(* ===== verification/Bingo_Engine_Inv.thy ===== *)
theory Bingo_Engine_Inv
  imports Bingo_Book
begin

text \<open>
  The invariant that ties the memory of an engine to the database. \<open>bingo_ok\<close> is about the tables alone and
  says that the escrow account holds exactly the pots of the live rounds; \<open>mem_ok\<close> is about the memory
  alone; \<open>link_ok\<close> says that as long as the engine's round is live in the database, the engine's pot and
  cards are the database's. Every operation keeps the three, whatever its outcome, and leaves the
  rounds of other engines alone (\<open>progress\<close>).
\<close>

definition room_ok :: "room_config \<Rightarrow> bool" where
  "room_ok room \<longleftrightarrow> whole_cents (rc_stake room) \<and> 0 < rc_stake room \<and> rc_stake room < 10 ^ 16
     \<and> 0 \<le> rc_house_cut_bps room \<and> rc_house_cut_bps room \<le> 10000"

definition tables_fk :: "db \<Rightarrow> bool" where
  "tables_fk d \<longleftrightarrow>
     (\<forall>c. cards d c \<noteq> None \<longrightarrow> 1 \<le> c \<and> c \<le> POOL_SIZE)
     \<and> (\<forall>x\<in>set (round_entries d). user_by_id d (en_user x) \<noteq> None)
     \<and> (\<forall>w\<in>set (round_winners d). round_status d (wn_round w) = Some ''done'')
     \<and> (\<forall>i room. load_room_config d i = Inr room \<longrightarrow> room_ok room)"

definition bingo_ok :: "db \<Rightarrow> bool" where
  "bingo_ok d \<longleftrightarrow> ledger_ok (led d) \<and> book_ok (tkeys (led d)) (rounds_view d) (cards_view d)
     \<and> obal (led d) pot_owner = escrow (rounds_view d) \<and> tables_fk d"

definition held :: "engine \<Rightarrow> (int \<times> int) set" where
  "held e = fst ` set (e_entries e)"

definition mem_ok :: "engine \<Rightarrow> bool" where
  "mem_ok e \<longleftrightarrow>
     e_status e \<in> {''idle'', ''lobby'', ''running'', ''settling'', ''done''}
     \<and> (e_status e = ''idle'' \<longleftrightarrow> e_round_id e = None)
     \<and> (e_round_id e \<noteq> None \<longrightarrow> e_server_seed e \<noteq> None)
     \<and> (e_status e = ''idle'' \<or> e_status e = ''lobby'' \<longrightarrow> e_pending e = [])
     \<and> e_rooms_active e = (if e_status e = ''idle'' then 0 else 1)
     \<and> distinct (map fst (e_entries e))
     \<and> (\<forall>(k, s)\<in>set (e_entries e). es_card_no s = snd k)
     \<and> distinct (map (\<lambda>w. (pw_user w, pw_card w)) (e_pending e))
     \<and> (\<forall>w\<in>set (e_pending e). (pw_user w, pw_card w) \<in> held e)
     \<and> e_dropped e \<inter> held e = {}
     \<and> room_ok (e_room e)
     \<and> (\<forall>c. e_card_pool e c \<noteq> None \<longrightarrow> 1 \<le> c \<and> c \<le> POOL_SIZE)"

definition round_link :: "string \<Rightarrow> bround \<Rightarrow> bool" where
  "round_link st b \<longleftrightarrow>
     (st = ''lobby'' \<longrightarrow> b_status b = ''lobby'' \<or> b_status b = ''voided'')
     \<and> (st = ''running'' \<or> st = ''settling'' \<longrightarrow> b_status b = ''running'' \<or> b_status b = ''voided'')
     \<and> (st = ''done'' \<longrightarrow> b_status b = ''done'')"

definition link_ok :: "db \<Rightarrow> engine \<Rightarrow> bool" where
  "link_ok d e \<longleftrightarrow> (\<forall>i. e_round_id e = Some i \<longrightarrow>
     (\<exists>b\<in>set (rounds_view d). b_id b = i \<and> b_stake b = rc_stake (e_room e) \<and> round_link (e_status e) b
        \<and> (live b \<longrightarrow> e_pot e = b_pot b
             \<and> (\<forall>u c. (u, c) \<in> held e \<longleftrightarrow> \<lparr>bc_round = i, bc_card = c, bc_user = u\<rparr> \<in> set (cards_view d))))
     \<and> (e_status e = ''lobby'' \<longrightarrow>
          (\<forall>u c. stake_key i u c \<in> tkeys (led d) \<longrightarrow>
             (u, c) \<in> e_dropped e \<or> \<lparr>bc_round = i, bc_card = c, bc_user = u\<rparr> \<in> set (cards_view d))
        \<and> (\<forall>u c. drop_key i u c \<in> tkeys (led d) \<longrightarrow> (u, c) \<in> e_dropped e)))"

definition same_round :: "int \<Rightarrow> db \<Rightarrow> db \<Rightarrow> bool" where
  "same_round i d d' \<longleftrightarrow>
     (\<forall>b. b_id b = i \<longrightarrow> b \<in> set (rounds_view d') \<longleftrightarrow> b \<in> set (rounds_view d))
     \<and> (\<forall>x. bc_round x = i \<longrightarrow> x \<in> set (cards_view d') \<longleftrightarrow> x \<in> set (cards_view d))
     \<and> tkeys (led d') \<inter> round_keys i = tkeys (led d) \<inter> round_keys i"

definition progress :: "engine \<Rightarrow> db \<Rightarrow> engine \<Rightarrow> db \<Rightarrow> bool" where
  "progress e d e' d' \<longleftrightarrow> bingo_ok d' \<and> mem_ok e' \<and> link_ok d' e'
     \<and> length (rounds d) \<le> length (rounds d')
     \<and> (\<forall>j. j \<le> int (length (rounds d)) \<and> e_round_id e \<noteq> Some j \<longrightarrow> same_round j d d')
     \<and> (e_round_id e' = None \<or> e_round_id e' = e_round_id e \<or> (\<exists>i. e_round_id e' = Some i \<and> int (length (rounds d)) < i))"

lemma same_round_refl [simp]: "same_round i d d"
  by (simp add: same_round_def)

lemma same_round_trans: "same_round i d d1 \<Longrightarrow> same_round i d1 d2 \<Longrightarrow> same_round i d d2"
  by (simp add: same_round_def)

lemma progress_refl: "bingo_ok d \<Longrightarrow> mem_ok e \<Longrightarrow> link_ok d e \<Longrightarrow> progress e d e d"
  by (simp add: progress_def)

lemma progress_trans:
  assumes "progress e d e1 d1" "progress e1 d1 e2 d2" shows "progress e d e2 d2"
proof -
  have "same_round j d d2" if j: "j \<le> int (length (rounds d))" "e_round_id e \<noteq> Some j" for j
  proof -
    have "same_round j d d1" using assms(1) j by (simp add: progress_def)
    moreover have "j \<le> int (length (rounds d1))" "e_round_id e1 \<noteq> Some j" using assms(1) j by (auto simp: progress_def)
    then have "same_round j d1 d2" using assms(2) by (simp add: progress_def)
    ultimately show ?thesis by (rule same_round_trans)
  qed
  then show ?thesis using assms unfolding progress_def by fastforce
qed

lemma link_ok_other:
  assumes "link_ok d e" "\<And>i. e_round_id e = Some i \<Longrightarrow> same_round i d d'"
  shows "link_ok d' e"
proof -
  have k: "k \<in> tkeys (led d') \<longleftrightarrow> k \<in> tkeys (led d)" if "same_round i d d'" "k \<in> round_keys i" for k i
    using that unfolding same_round_def by blast
  show ?thesis
    unfolding link_ok_def
  proof (intro allI impI)
    fix i assume i: "e_round_id e = Some i"
    note s = assms(2) [OF i]
    have c: "\<lparr>bc_round = i, bc_card = c, bc_user = u\<rparr> \<in> set (cards_view d') \<longleftrightarrow>
        \<lparr>bc_round = i, bc_card = c, bc_user = u\<rparr> \<in> set (cards_view d)" for c u
      using s by (simp add: same_round_def)
    have b: "b_id b = i \<Longrightarrow> b \<in> set (rounds_view d') \<longleftrightarrow> b \<in> set (rounds_view d)" for b
      using s by (simp add: same_round_def)
    show "(\<exists>b\<in>set (rounds_view d'). b_id b = i \<and> b_stake b = rc_stake (e_room e) \<and> round_link (e_status e) b
        \<and> (live b \<longrightarrow> e_pot e = b_pot b
             \<and> (\<forall>u c. (u, c) \<in> held e \<longleftrightarrow> \<lparr>bc_round = i, bc_card = c, bc_user = u\<rparr> \<in> set (cards_view d'))))
     \<and> (e_status e = ''lobby'' \<longrightarrow>
          (\<forall>u c. stake_key i u c \<in> tkeys (led d') \<longrightarrow>
             (u, c) \<in> e_dropped e \<or> \<lparr>bc_round = i, bc_card = c, bc_user = u\<rparr> \<in> set (cards_view d'))
        \<and> (\<forall>u c. drop_key i u c \<in> tkeys (led d') \<longrightarrow> (u, c) \<in> e_dropped e))"
      using assms(1) [unfolded link_ok_def, rule_format, OF i] k [OF s] b c by auto
  qed
qed

text \<open>What of the memory the link depends on.\<close>

lemma link_ok_memory:
  assumes "link_ok d e" "e_round_id e' = e_round_id e" "e_room e' = e_room e" "e_pot e' = e_pot e" "held e' = held e"
    "e_dropped e' = e_dropped e" "e_status e' = e_status e \<or> e_status e = ''running'' \<and> e_status e' = ''settling''"
  shows "link_ok d e'"
proof (cases "e_status e' = e_status e")
  case True
  then show ?thesis using assms by (simp add: link_ok_def)
next
  case False
  then show ?thesis using assms by (simp add: link_ok_def round_link_def)
qed

lemma link_ok_None: "e_round_id e = None \<Longrightarrow> link_ok d e"
  by (simp add: link_ok_def)

subsection \<open>Rows and their abstraction\<close>

lemma view_round:
  "round_by_id d i = Some r \<Longrightarrow> abs_round r \<in> set (rounds_view d) \<and> b_id (abs_round r) = i"
  by (auto simp: rounds_view_def abs_round_def dest: round_by_id_in)

lemma round_of_view:
  assumes "book_ok K (rounds_view d) E" "b \<in> set (rounds_view d)"
  obtains r where "round_by_id d (b_id b) = Some r" "abs_round r = b"
proof -
  obtain r0 where "r0 \<in> set (rounds d)" "b = abs_round r0" using assms(2) by (auto simp: rounds_view_def)
  then obtain r where r: "round_by_id d (b_id b) = Some r"
    by (cases "round_by_id d (b_id b)") (auto simp: round_by_id_None abs_round_def)
  then have "abs_round r = b" using view_round [OF r] assms by (auto intro: book_unique)
  with r show thesis by (rule that)
qed

lemma rounds_view_update:
  "(\<And>r. rd_id r = i \<Longrightarrow> abs_round (f r) = g (abs_round r)) \<Longrightarrow> rounds_view (update_round i f d) = vupd i g (rounds_view d)"
  by (auto simp: rounds_view_def update_round_def vupd_def abs_round_def)

lemma length_rounds_view: "length (rounds_view d) = length (rounds d)"
  by (simp add: rounds_view_def)

lemma rounds_update_length [simp]: "length (rounds (update_round i f d)) = length (rounds d)"
  by (simp add: update_round_def)

lemma same_round_vupd:
  assumes "rounds_view d' = vupd i g (rounds_view d)" "\<And>b. b_id (g b) = b_id b" "j \<noteq> i"
    "\<And>x. bc_round x = j \<Longrightarrow> x \<in> set (cards_view d') \<longleftrightarrow> x \<in> set (cards_view d)"
    "tkeys (led d') \<inter> round_keys j = tkeys (led d) \<inter> round_keys j"
  shows "same_round j d d'"
  using assms by (auto simp: same_round_def vupd_set)

lemma tables_fk_same:
  assumes "tables_fk d" "cards d' = cards d" "users d' = users d" "rooms d' = rooms d"
    "\<And>x. x \<in> set (round_entries d') \<Longrightarrow> user_by_id d' (en_user x) \<noteq> None"
    "\<And>w. w \<in> set (round_winners d') \<Longrightarrow> round_status d' (wn_round w) = Some ''done''"
  shows "tables_fk d'"
  using assms by (simp add: tables_fk_def load_room_config_def room_by_id_def)

text \<open>A change that the abstraction does not see.\<close>

lemma bingo_ok_unseen:
  assumes "bingo_ok d" "led d' = led d" "rounds_view d' = rounds_view d" "cards_view d' = cards_view d"
    "cards d' = cards d" "users d' = users d" "rooms d' = rooms d" "round_winners d' = round_winners d"
    "map rd_id (rounds d') = map rd_id (rounds d)"
  shows "bingo_ok d'"
proof -
  have "user_by_id d' (en_user x) \<noteq> None" if x: "x \<in> set (round_entries d')" for x
  proof -
    have "abs_card x \<in> set (cards_view d')" using x by (simp add: cards_view_def)
    then have "abs_card x \<in> set (cards_view d)" by (simp add: assms(4))
    then obtain y where "y \<in> set (round_entries d)" "abs_card y = abs_card x" by (auto simp: cards_view_def)
    then have "en_user y = en_user x" "user_by_id d (en_user y) \<noteq> None"
      using assms(1) by (auto simp: bingo_ok_def tables_fk_def abs_card_def)
    then show ?thesis using assms(6) by (simp add: user_by_id_def)
  qed
  moreover have "round_status d' i = round_status d i" for i
  proof -
    have "map (\<lambda>b. (b_id b, b_status b)) (rounds_view d') = map (\<lambda>b. (b_id b, b_status b)) (rounds_view d)" using assms(3) by simp
    then have m: "map (\<lambda>r. (rd_id r, rd_status r)) (rounds d') = map (\<lambda>r. (rd_id r, rd_status r)) (rounds d)"
      by (simp add: rounds_view_def abs_round_def comp_def)
    have "map_option rd_status (find (\<lambda>r. rd_id r = i) xs) = map_of (map (\<lambda>r. (rd_id r, rd_status r)) xs) i" for xs :: "round_row list"
      by (induction xs) auto
    then show ?thesis unfolding round_status_def round_by_id_def using m by metis
  qed
  ultimately have us: "\<And>x. x \<in> set (round_entries d') \<Longrightarrow> user_by_id d' (en_user x) \<noteq> None"
    and st: "\<And>i. round_status d' i = round_status d i" by blast+
  have fk: "tables_fk d" using assms(1) by (simp add: bingo_ok_def)
  have "round_status d' (wn_round w) = Some ''done''" if "w \<in> set (round_winners d')" for w
    using fk that unfolding assms(8) st tables_fk_def by blast
  from tables_fk_same [OF fk assms(5-7) us this] have "tables_fk d'" .
  then show ?thesis using assms by (simp add: bingo_ok_def)
qed

lemma same_round_unseen:
  assumes "led d' = led d" "rounds_view d' = rounds_view d" "cards_view d' = cards_view d"
  shows "same_round i d d'"
  using assms by (simp add: same_round_def)

lemma progress_unseen:
  assumes "bingo_ok d" "mem_ok e'" "link_ok d e'" "e_round_id e' = e_round_id e \<or> e_round_id e' = None"
    "led d' = led d" "rounds_view d' = rounds_view d" "cards_view d' = cards_view d"
    "cards d' = cards d" "users d' = users d" "rooms d' = rooms d" "round_winners d' = round_winners d"
    "map rd_id (rounds d') = map rd_id (rounds d)"
  shows "progress e d e' d'"
proof -
  have s: "same_round i d d'" for i by (rule same_round_unseen [OF assms(5-7)])
  have "length (rounds d') = length (rounds d)" using assms(12) by (metis length_map)
  moreover have "link_ok d' e'" by (rule link_ok_other [OF assms(3)]) (rule s)
  ultimately show ?thesis
    using assms(2,4) s bingo_ok_unseen [OF assms(1,5-12)] by (auto simp: progress_def)
qed

subsection \<open>Memory\<close>

lemma set_status_fields [simp]:
  "e_status (set_status v e) = v" "e_room (set_status v e) = e_room e" "e_card_pool (set_status v e) = e_card_pool e"
  "e_round_id (set_status v e) = e_round_id e" "e_seq (set_status v e) = e_seq e"
  "e_server_seed (set_status v e) = e_server_seed e" "e_server_seed_hash (set_status v e) = e_server_seed_hash e"
  "e_pot (set_status v e) = e_pot e" "e_entries (set_status v e) = e_entries e"
  "e_dropped (set_status v e) = e_dropped e" "e_pending (set_status v e) = e_pending e"
  "e_call_index (set_status v e) = e_call_index e" "e_called (set_status v e) = e_called e"
  "e_draw_order (set_status v e) = e_draw_order e" "e_lock_held (set_status v e) = e_lock_held e"
  "e_stop_requested (set_status v e) = e_stop_requested e" "e_locked_out (set_status v e) = e_locked_out e"
  "e_auto_claimed (set_status v e) = e_auto_claimed e" "e_published (set_status v e) = e_published e"
  "e_window_deadline (set_status v e) = e_window_deadline e" "e_settlement_task (set_status v e) = e_settlement_task e"
  "e_rooms_active (set_status v e) = e_rooms_active e
     + (if v \<noteq> ''idle'' \<and> e_status e = ''idle'' then 1 else if v = ''idle'' \<and> e_status e \<noteq> ''idle'' then - 1 else 0)"
  by (auto simp: set_status_def)

lemma publish_fields [simp]:
  "e_status (publish m e) = e_status e" "e_room (publish m e) = e_room e" "e_card_pool (publish m e) = e_card_pool e"
  "e_round_id (publish m e) = e_round_id e" "e_server_seed (publish m e) = e_server_seed e"
  "e_pot (publish m e) = e_pot e" "e_entries (publish m e) = e_entries e" "e_dropped (publish m e) = e_dropped e"
  "e_pending (publish m e) = e_pending e" "e_rooms_active (publish m e) = e_rooms_active e"
  "e_call_index (publish m e) = e_call_index e" "e_called (publish m e) = e_called e"
  "e_draw_order (publish m e) = e_draw_order e" "e_lock_held (publish m e) = e_lock_held e"
  "e_locked_out (publish m e) = e_locked_out e" "e_auto_claimed (publish m e) = e_auto_claimed e"
  "e_window_deadline (publish m e) = e_window_deadline e" "e_settlement_task (publish m e) = e_settlement_task e"
  by (simp_all add: publish_def)

text \<open>Two engines that differ only in what no invariant reads.\<close>

definition same_memory :: "engine \<Rightarrow> engine \<Rightarrow> bool" where
  "same_memory e e' \<longleftrightarrow> e_status e' = e_status e \<and> e_room e' = e_room e \<and> e_card_pool e' = e_card_pool e
     \<and> e_round_id e' = e_round_id e \<and> e_server_seed e' = e_server_seed e \<and> e_pot e' = e_pot e
     \<and> e_entries e' = e_entries e \<and> e_dropped e' = e_dropped e \<and> e_pending e' = e_pending e
     \<and> e_rooms_active e' = e_rooms_active e"

lemma same_memory_refl [simp]: "same_memory e e"
  by (simp add: same_memory_def)

lemma same_memory_trans: "same_memory e f \<Longrightarrow> same_memory f g \<Longrightarrow> same_memory e g"
  by (simp add: same_memory_def)

lemma same_memory_publish [simp]: "same_memory e (publish m f) \<longleftrightarrow> same_memory e f"
  by (simp add: same_memory_def)

lemma same_memory_balance [simp]: "same_memory e (publish_balance_update d u f) \<longleftrightarrow> same_memory e f"
  by (simp add: publish_balance_update_def)

lemma same_memory_balances: "same_memory e (publish_balances d us e)"
proof -
  have "same_memory e f \<Longrightarrow> same_memory e (fold (publish_balance_update d) us f)" for f
    by (induction us arbitrary: f) auto
  then show ?thesis by (simp add: publish_balances_def)
qed

lemma same_memory_ok:
  assumes "same_memory e e'" shows "mem_ok e \<Longrightarrow> mem_ok e'" "link_ok d e \<Longrightarrow> link_ok d e'"
proof -
  have h: "held e' = held e" using assms by (simp add: same_memory_def held_def)
  from assms [unfolded same_memory_def] h show "mem_ok e \<Longrightarrow> mem_ok e'" "link_ok d e \<Longrightarrow> link_ok d e'"
    by (elim conjE, simp only: mem_ok_def link_ok_def)+
qed

lemma reset_to_idle_ok:
  assumes "mem_ok e"
  shows "mem_ok (reset_to_idle e)" "link_ok d (reset_to_idle e)" "e_round_id (reset_to_idle e) = None"
    "e_status (reset_to_idle e) = ''idle''"
proof -
  show r: "e_round_id (reset_to_idle e) = None" "e_status (reset_to_idle e) = ''idle''" by (simp_all add: reset_to_idle_def)
  show "mem_ok (reset_to_idle e)" using assms by (auto simp: mem_ok_def reset_to_idle_def held_def split: if_splits)
  show "link_ok d (reset_to_idle e)" by (rule link_ok_None [OF r(1)])
qed

lemma set_status_ok:
  assumes "mem_ok e" "v \<in> {''running'', ''settling'', ''done''}" "e_status e \<noteq> ''idle''"
  shows "mem_ok (set_status v e)"
  using assms by (auto simp: mem_ok_def held_def)

end
