(* ===== verification/Bingo_Ops.thy ===== *)
theory Bingo_Ops
  imports Bingo_Engine_Inv
begin

text \<open>
  Opening a round, joining and dropping keep the invariant, on every outcome: each transaction is a step
  of the book, and the engine remembers exactly what it committed.
\<close>

lemma winners_done_update:
  assumes "tables_fk d" "round_by_id d i = Some r" "rd_status r \<in> {''lobby'', ''running''}"
    "\<And>r. rd_id (f r) = rd_id r" "rounds d' = rounds (update_round i f d)" "w \<in> set (round_winners d)"
  shows "round_status d' (wn_round w) = Some ''done''"
proof -
  have w: "round_status d (wn_round w) = Some ''done''" using assms(1,6) by (simp add: tables_fk_def)
  then have "wn_round w \<noteq> i" using assms(2,3) by (auto simp: round_status_def)
  then have "round_by_id (update_round i f d) (wn_round w) = round_by_id d (wn_round w)"
    by (simp add: round_by_id_update [OF assms(4)])
  then show ?thesis using w assms(5) by (simp add: round_status_def round_by_id_def)
qed

lemma round_room_ok:
  assumes "bingo_ok d" "round_by_id d i = Some r"
  shows "abs_round r \<in> set (rounds_view d)" "b_id (abs_round r) = i" "bround_ok (tkeys (led d)) (cards_view d) (abs_round r)"
    "book_ok (tkeys (led d)) (rounds_view d) (cards_view d)" "rd_status r \<in> {''lobby'', ''running'', ''done'', ''voided''}"
proof -
  show v: "abs_round r \<in> set (rounds_view d)" "b_id (abs_round r) = i" using view_round [OF assms(2)] by auto
  show b: "book_ok (tkeys (led d)) (rounds_view d) (cards_view d)" using assms(1) by (simp add: bingo_ok_def)
  show o: "bround_ok (tkeys (led d)) (cards_view d) (abs_round r)" using b v(1) by (simp add: book_ok_def)
  then show "rd_status r \<in> {''lobby'', ''running'', ''done'', ''voided''}" by (simp add: bround_ok_def abs_round_def)
qed

subsection \<open>Opening a round\<close>

lemma start_new_round_ok:
  assumes ok: "bingo_ok d" and mem: "mem_ok e" and idle: "e_status e = ''idle''"
    and start: "start_new_round now clk seed e d = (r, e', d')"
  shows "progress e d e' d'" "r = Inr () \<Longrightarrow> e_status e' = ''lobby''"
proof -
  have lk: "link_ok d e" using mem idle by (intro link_ok_None) (simp add: mem_ok_def)
  let ?n = "int (length (rounds d)) + 1"
  let ?row = "new_round_row now (e_room e) (hexdigest (sha256 seed)) d"
  have row: "abs_round ?row = \<lparr>b_id = int (length (rounds_view d)) + 1, b_room = rc_id (e_room e), b_status = ''lobby'',
      b_stake = rc_stake (e_room e), b_pot = 0\<rparr>"
    by (simp add: abs_round_def new_round_row_def length_rounds_view)
  have "progress e d e' d' \<and> (r = Inr () \<longrightarrow> e_status e' = ''lobby'')"
  proof (cases "room_by_id d (rc_id (e_room e))")
    case None
    then show ?thesis using start progress_refl [OF ok mem lk] by (auto simp: start_new_round_def Let_def)
  next
    case (Some room)
    then have d': "d' = d\<lparr>rounds := rounds d @ [?row]\<rparr>"
      and e': "e_round_id e' = Some ?n" "e_status e' = ''lobby''" "e_pot e' = 0" "e_entries e' = []" "e_dropped e' = {}"
        "e_pending e' = []" "e_room e' = e_room e" "e_server_seed e' = Some seed" "e_card_pool e' = e_card_pool e"
        "e_rooms_active e' = e_rooms_active e + 1"
      using start idle by (auto simp: start_new_round_def Let_def new_round_row_def)
    have bk: "book_ok (tkeys (led d)) (rounds_view d) (cards_view d)" using ok by (simp add: bingo_ok_def)
    have ro: "whole_cents (rc_stake (e_room e))" "0 \<le> rc_stake (e_room e)" using mem by (simp_all add: mem_ok_def room_ok_def)
    have V: "rounds_view d' = rounds_view d @ [abs_round ?row]" by (simp add: d' rounds_view_def)
    have same: "led d' = led d" "cards_view d' = cards_view d" "cards d' = cards d" "users d' = users d" "rooms d' = rooms d"
      by (simp_all add: d' cards_view_def)
    have new: "round_by_id d ?n = None"
      using book_ids_le [OF bk] by (force simp: round_by_id_None rounds_view_def abs_round_def)
    have old: "round_by_id d' j = round_by_id d j" if "j \<noteq> ?n" for j
      using that by (auto simp: d' round_by_id_def find_append new_round_row_def split: option.splits)
    have st: "round_status d' (wn_round w) = Some ''done''" if w: "w \<in> set (round_winners d')" for w
    proof -
      have "round_status d (wn_round w) = Some ''done''" using w ok by (simp add: d' bingo_ok_def tables_fk_def)
      moreover from this have "wn_round w \<noteq> ?n" using new by (auto simp: round_status_def)
      ultimately show ?thesis using old by (simp add: round_status_def)
    qed
    have fk: "tables_fk d" using ok by (simp add: bingo_ok_def)
    have "tables_fk d'"
      by (rule tables_fk_same [OF fk same(3-5) _ st]) (use fk in \<open>simp_all add: d' tables_fk_def user_by_id_def\<close>)
    moreover have "escrow (rounds_view d') = escrow (rounds_view d)"
      by (simp add: V row escrow_append)
    moreover have "book_ok (tkeys (led d')) (rounds_view d') (cards_view d')"
      unfolding same V row by (rule book_ok_open [OF bk ro])
    ultimately have b': "bingo_ok d'" using ok by (simp add: bingo_ok_def same)
    have m': "mem_ok e'" using mem idle by (simp add: mem_ok_def held_def e')
    have nocard: "\<lparr>bc_round = ?n, bc_card = c, bc_user = u\<rparr> \<notin> set (cards_view d)" for c u
    proof
      assume "\<lparr>bc_round = ?n, bc_card = c, bc_user = u\<rparr> \<in> set (cards_view d)"
      then have "?n \<in> b_id ` set (rounds_view d)" using bk unfolding book_ok_def by (metis bcard.select_convs(1))
      then obtain b where "b \<in> set (rounds_view d)" "b_id b = ?n" by auto
      then show False using book_ids_le [OF bk, of b] by (simp add: length_rounds_view)
    qed
    have nokey: "round_keys ?n \<inter> tkeys (led d) = {}" using bk by (simp add: book_ok_def length_rounds_view)
    then have "stake_key ?n u c \<notin> tkeys (led d)" "drop_key ?n u c \<notin> tkeys (led d)" for u c
      using round_keys_mem(2,3) [of ?n u c ?n] by blast+
    then have l': "link_ok d' e'"
      using nocard unfolding link_ok_def e' same V held_def
      by (auto simp: row round_link_def live_def TERMINAL_STATUSES_def length_rounds_view)
    have s: "same_round j d d'" if "j \<le> int (length (rounds d))" for j
      using that by (auto simp: same_round_def V row same length_rounds_view)
    show ?thesis
      using b' m' l' s e'(1,2) by (auto simp: progress_def d')
  qed
  then show "progress e d e' d'" "r = Inr () \<Longrightarrow> e_status e' = ''lobby''" by auto
qed

lemma ensure_round_ok:
  assumes ok: "bingo_ok d" and mem: "mem_ok e" and lk: "link_ok d e"
    and run: "ensure_round now clk seed e d = (r, e', d')"
  shows "progress e d e' d'"
proof (cases "e_status e = ''idle''")
  case True
  obtain r1 e1 d1 where s: "start_new_round now clk seed e d = (r1, e1, d1)" by (metis prod_cases3)
  note p = start_new_round_ok(1) [OF ok mem True s]
  have sm: "same_memory e1 (e1\<lparr>e_round_active := True\<rparr>)" by (simp add: same_memory_def)
  have "progress e d (e1\<lparr>e_round_active := True\<rparr>) d1"
    using p same_memory_ok [OF sm] by (simp add: progress_def)
  then show ?thesis using run p by (auto simp: ensure_round_def True s split: sum.splits)
next
  case False
  then show ?thesis using run progress_refl [OF ok mem lk] by (simp add: ensure_round_def)
qed

subsection \<open>Joining and dropping\<close>

lemma live_pot:
  assumes "bround_ok K E b" "live b"
  shows "whole_cents (b_pot b)" "0 \<le> b_pot b" "b_pot b < 10 ^ 16" "b_status b = ''lobby'' \<or> b_status b = ''running''"
proof -
  have "b_pot b = of_nat (length (sold E (b_id b))) * b_stake b" "whole_cents (b_stake b)" "0 \<le> b_stake b"
    using assms by (simp_all add: bround_ok_def)
  then show "whole_cents (b_pot b)" "0 \<le> b_pot b" by (simp_all add: cents)
  show "b_pot b < 10 ^ 16" "b_status b = ''lobby'' \<or> b_status b = ''running''"
    using assms by (auto simp: bround_ok_def live_def TERMINAL_STATUSES_def)
qed

lemma dadd_cents: "whole_cents x \<Longrightarrow> whole_cents y \<Longrightarrow> \<bar>x + y\<bar> < 10 ^ 26 \<Longrightarrow> dadd x y = x + y"
  and dsub_cents: "whole_cents x \<Longrightarrow> whole_cents y \<Longrightarrow> \<bar>x - y\<bar> < 10 ^ 26 \<Longrightarrow> dsub x y = x - y"
  by (simp_all add: dadd_def dsub_def ctx_round_cents cents)

lemma join_txn_pk:
  assumes "join_txn now stake i u c auto d = Inr (None, d')"
  shows "\<forall>f\<in>set (round_entries d). \<not> (en_round f = i \<and> en_card f = c)"
proof -
  let ?x = "\<lparr>en_round = i, en_card = c, en_user = u, en_auto = auto, en_stake_txn = None\<rparr>"
  have rs: "round_status d i = Some ''lobby''" using assms by (auto simp: join_txn_def split: if_splits)
  have "\<not> blocked (check_stake_allowed now d u stake)"
    using assms by (auto simp: join_txn_def rs Let_def split: option.splits)
  then obtain d1 where "insert_entry ?x d = Inr d1"
    using assms by (auto simp: join_txn_def rs Let_def bind_result_Inr_iff)
  then show ?thesis by (auto simp: insert_entry_def split: if_splits)
qed

lemma held_card:
  assumes "link_ok d e" "e_round_id e = Some i" "b \<in> set (rounds_view d)" "b_id b = i" "live b"
    "book_ok K (rounds_view d) (cards_view d)"
  shows "(u, c) \<in> held e \<longleftrightarrow> \<lparr>bc_round = i, bc_card = c, bc_user = u\<rparr> \<in> set (cards_view d)" "e_pot e = b_pot b"
    "b_stake b = rc_stake (e_room e)" "round_link (e_status e) b"
proof -
  obtain b' where b': "b' \<in> set (rounds_view d)" "b_id b' = i" "b_stake b' = rc_stake (e_room e)" "round_link (e_status e) b'"
    "live b' \<longrightarrow> e_pot e = b_pot b'
       \<and> (\<forall>u c. (u, c) \<in> held e \<longleftrightarrow> \<lparr>bc_round = i, bc_card = c, bc_user = u\<rparr> \<in> set (cards_view d))"
    using assms(1,2) unfolding link_ok_def by blast
  have "b' = b" using book_unique [OF assms(6) b'(1) assms(3)] b'(2) assms(4) by simp
  then show "(u, c) \<in> held e \<longleftrightarrow> \<lparr>bc_round = i, bc_card = c, bc_user = u\<rparr> \<in> set (cards_view d)" "e_pot e = b_pot b"
    "b_stake b = rc_stake (e_room e)" "round_link (e_status e) b"
    using b' assms(5) by auto
qed

lemma join_txn_fresh:
  assumes link: "link_ok d e" and i: "e_round_id e = Some i" and st: "e_status e = ''lobby''"
    and nd: "(u, c) \<notin> e_dropped e" and pk: "\<forall>f\<in>set (round_entries d). \<not> (en_round f = i \<and> en_card f = c)"
  shows "stake_key i u c \<notin> tkeys (led d)"
proof
  assume "stake_key i u c \<in> tkeys (led d)"
  then have "\<lparr>bc_round = i, bc_card = c, bc_user = u\<rparr> \<in> set (cards_view d)"
    using link i st nd unfolding link_ok_def by blast
  then show False using pk by (auto simp: cards_view_def abs_card_def)
qed

lemma join_commit_ok:
  assumes ok: "bingo_ok d" and mem: "mem_ok e" and link: "link_ok d e" and i: "e_round_id e = Some i"
    and st: "e_status e = ''lobby''" and nd: "(u, c) \<notin> e_dropped e"
    and join: "join_txn now (rc_stake (e_room e)) i u c auto d = Inr (None, d')"
  shows "progress e d (join_remember d' u c auto e) d'"
proof -
  let ?s = "rc_stake (e_room e)" and ?x = "\<lparr>bc_round = i, bc_card = c, bc_user = u\<rparr>"
  have room: "whole_cents ?s" "0 < ?s" "?s < 10 ^ 16" using mem by (auto simp: mem_ok_def room_ok_def)
  have lok: "ledger_ok (led d)" and esc: "obal (led d) pot_owner = escrow (rounds_view d)" and fk: "tables_fk d"
    using ok by (auto simp: bingo_ok_def)
  note pk = join_txn_pk [OF join]
  have fresh: "stake_key i u c \<notin> tkeys (led d)" by (rule join_txn_fresh [OF link i st nd pk])
  obtain r t where r: "round_by_id d i = Some r" "rd_status r = ''lobby''"
    and us: "user_by_id d u \<noteq> None" "cards d c \<noteq> None" and big: "\<bar>numeric2 (rd_pot r + ?s)\<bar> < 10 ^ 16"
    and d': "d' = (update_round i (\<lambda>r'. r'\<lparr>rd_pot := numeric2 (rd_pot r + ?s), rd_player_count := rd_player_count r' + 1\<rparr>) d)
         \<lparr>round_entries := round_entries d @ [\<lparr>en_round = i, en_card = c, en_user = u, en_auto = auto, en_stake_txn = Some t\<rparr>],
          led := led d'\<rparr>"
    and l': "ledger_ok (led d')" "tkeys (led d') = insert (stake_key i u c) (tkeys (led d))"
      "obal (led d') = (obal (led d))(cash_owner u := obal (led d) (cash_owner u) - ?s, pot_owner := obal (led d) pot_owner + ?s)"
    using join_txn_effect [OF lok room(1) fresh join] by blast
  note rr = round_room_ok [OF ok r(1)]
  let ?b = "abs_round r"
  have lv: "live ?b" using r(2) by (simp add: live_def abs_round_def TERMINAL_STATUSES_def)
  note lp = live_pot [OF rr(3) lv]
  note hc = held_card [OF link i rr(1,2) lv rr(4)]
  have p0: "b_pot ?b = rd_pot r" "b_stake ?b = rd_stake r" by (simp_all add: abs_round_def)
  have n2: "numeric2 (rd_pot r + ?s) = rd_pot r + ?s" using lp(1) room(1) p0 by (simp add: cents)
  have small: "rd_pot r + ?s < 10 ^ 16" using big n2 lp(2) room(2) p0 by simp
  have V: "rounds_view d' = vupd i (\<lambda>x. x\<lparr>b_pot := b_pot ?b + b_stake ?b\<rparr>) (rounds_view d)"
  proof -
    have "rounds_view d' = rounds_view (update_round i (\<lambda>r'. r'\<lparr>rd_pot := numeric2 (rd_pot r + ?s), rd_player_count := rd_player_count r' + 1\<rparr>) d)"
      by (subst d') (simp add: rounds_view_def)
    also have "\<dots> = vupd i (\<lambda>x. x\<lparr>b_pot := b_pot ?b + b_stake ?b\<rparr>) (rounds_view d)"
      by (rule rounds_view_update) (use n2 hc(3) p0 in \<open>simp add: abs_round_def\<close>)
    finally show ?thesis .
  qed
  have E: "cards_view d' = cards_view d @ [?x]" by (subst d') (simp add: cards_view_def abs_card_def)
  have newx: "\<forall>x\<in>set (cards_view d). \<not> (bc_round x = i \<and> bc_card x = c)"
    using pk by (auto simp: cards_view_def abs_card_def)
  have crange: "1 \<le> c" "c \<le> POOL_SIZE" using fk us(2) by (auto simp: tables_fk_def)
  have bk: "book_ok (tkeys (led d')) (rounds_view d') (cards_view d')"
    unfolding l'(2) V E
    by (rule book_ok_sell [OF rr(4,1,2) _ _ newx crange]) (use r(2) small hc(3) p0 in \<open>simp_all add: abs_round_def\<close>)
  have ids: "distinct (map b_id (rounds_view d))" by (rule book_ids_distinct [OF rr(4)])
  have "escrow (rounds_view d') = escrow (rounds_view d) + ?s"
    unfolding V using lv by (subst escrow_vupd [OF ids rr(1,2)]) (simp add: live_def hc(3))
  then have esc': "obal (led d') pot_owner = escrow (rounds_view d')" using esc by (simp add: l'(3))
  have tabs: "cards d' = cards d" "users d' = users d" "rooms d' = rooms d" "round_winners d' = round_winners d"
    "rounds d' = rounds (update_round i (\<lambda>r'. r'\<lparr>rd_pot := numeric2 (rd_pot r + ?s), rd_player_count := rd_player_count r' + 1\<rparr>) d)"
    by (subst d', simp)+
  have re: "round_entries d' = round_entries d @ [\<lparr>en_round = i, en_card = c, en_user = u, en_auto = auto, en_stake_txn = Some t\<rparr>]"
    by (subst d') simp
  have "tables_fk d'"
  proof (rule tables_fk_same [OF fk tabs(1-3)])
    show "user_by_id d' (en_user x) \<noteq> None" if "x \<in> set (round_entries d')" for x
      using that us(1) fk unfolding re by (auto simp: user_by_id_def tabs tables_fk_def)
    show "round_status d' (wn_round w) = Some ''done''" if "w \<in> set (round_winners d')" for w
      by (rule winners_done_update [OF fk r(1) _ _ tabs(5)]) (use that r(2) tabs(4) in simp_all)
  qed
  then have ok': "bingo_ok d'" using l'(1) bk esc' by (simp add: bingo_ok_def)
  let ?e1 = "e\<lparr>e_entries := AList.update (u, c) \<lparr>es_card_no = c, es_auto_mark = auto\<rparr> (e_entries e), e_pot := dadd (e_pot e) ?s\<rparr>"
  have h: "held ?e1 = insert (u, c) (held e)" by (simp add: held_def dom_update)
  have pot: "dadd (e_pot e) ?s = rd_pot r + ?s"
    using hc(2) lp room p0 by (subst dadd_cents) auto
  have "mem_ok ?e1"
  proof -
    have "\<forall>(k, s)\<in>set (AList.update (u, c) \<lparr>es_card_no = c, es_auto_mark = auto\<rparr> (e_entries e)). es_card_no s = snd k"
    proof -
      have "set (AList.update k s xs) \<subseteq> insert (k, s) (set xs)" for k s and xs :: "((int \<times> int) \<times> entry_state) list"
        by (induction xs) auto
      then show ?thesis using mem by (fastforce simp: mem_ok_def)
    qed
    then show ?thesis using mem nd h unfolding mem_ok_def by (auto simp: distinct_update held_def)
  qed
  moreover have "link_ok d' ?e1"
  proof -
    let ?b' = "?b\<lparr>b_pot := b_pot ?b + b_stake ?b\<rparr>"
    have b': "?b' \<in> set (rounds_view d')" unfolding V vupd_set using rr(1,2) by auto
    have k: "stake_key i v k \<in> tkeys (led d') \<longrightarrow> (v, k) \<in> e_dropped e \<or> \<lparr>bc_round = i, bc_card = k, bc_user = v\<rparr> \<in> set (cards_view d')"
      "drop_key i v k \<in> tkeys (led d') \<longrightarrow> (v, k) \<in> e_dropped e" for v k
      using link i st unfolding link_ok_def l'(2) E by auto
    show ?thesis
      unfolding link_ok_def
    proof (intro allI impI conjI bexI [OF _ b'])
      show "b_id ?b' = j" if "e_round_id ?e1 = Some j" for j using that i rr(2) by simp
      show "b_stake ?b' = rc_stake (e_room ?e1)" using hc(3) by simp
      show "round_link (e_status ?e1) ?b'" using hc(4) by (simp add: round_link_def)
      show "e_pot ?e1 = b_pot ?b'" using pot p0 hc(3) by simp
      show "((v, k) \<in> held ?e1) = (\<lparr>bc_round = j, bc_card = k, bc_user = v\<rparr> \<in> set (cards_view d'))"
        if "e_round_id ?e1 = Some j" for j v k
        using that i hc(1) [of v k] unfolding h E by auto
    qed (use k i in auto)
  qed
  moreover have sm: "same_memory ?e1 (join_remember d' u c auto e)" by (simp add: join_remember_def)
  ultimately have eo: "mem_ok (join_remember d' u c auto e)" "link_ok d' (join_remember d' u c auto e)"
    using same_memory_ok [OF sm] by blast+
  have "same_round j d d'" if "j \<noteq> i" for j
    by (rule same_round_vupd [OF V _ that]) (use that in \<open>auto simp: E l'(2)\<close>)
  moreover have "length (rounds d') = length (rounds d)" by (simp add: tabs(5))
  ultimately show ?thesis
    using ok' eo i by (auto simp: progress_def join_remember_def publish_balance_update_def)
qed

lemma join_txn_refused: "join_txn now stake i u c auto d = Inr (Some reason, d') \<Longrightarrow> d' = d"
  by (auto simp: join_txn_def Let_def case_prod_unfold bind_result_Inr_iff split: if_splits option.splits)

lemma progress_parts:
  assumes "progress e d e' d'" shows "bingo_ok d'" "mem_ok e'" "link_ok d' e'"
  using assms by (simp_all add: progress_def)

lemma join_ok:
  assumes ok: "bingo_ok d" and mem: "mem_ok e" and link: "link_ok d e"
    and run: "join now clk seed u c auto e d = (r, e', d')"
  shows "progress e d e' d'"
proof -
  obtain r1 e1 d1 where en: "ensure_round now clk seed e d = (r1, e1, d1)" by (metis prod_cases3)
  have p1: "progress e d e1 d1" by (rule ensure_round_ok [OF ok mem link en])
  note q = progress_parts [OF p1]
  have refl: "progress e1 d1 e1 d1" by (rule progress_refl [OF q])
  have "progress e1 d1 e' d'"
  proof (cases "r1 = Inr () \<and> join_refusal e1 u c = None \<and> e_round_id e1 \<noteq> None")
    case False
    then show ?thesis using run refl by (auto simp: join_def en split: sum.splits option.splits)
  next
    case True
    then obtain i where i: "e_round_id e1 = Some i" by auto
    have g: "e_status e1 = ''lobby''" "(u, c) \<notin> e_dropped e1"
      using True by (auto simp: join_refusal_def split: if_splits)
    let ?j = "join_txn now (rc_stake (e_room e1)) i u c auto d1"
    show ?thesis
    proof (cases "\<exists>d2. ?j = Inr (None, d2)")
      case True
      then obtain d2 where d2: "?j = Inr (None, d2)" by blast
      then have "e' = join_remember d2 u c auto e1 \<and> d' = d2"
        using run \<open>r1 = Inr () \<and> _\<close> i by (auto simp: join_def en)
      then show ?thesis using join_commit_ok [OF q i g d2] by simp
    next
      case False
      then have "e' = e1 \<and> d' = d1"
        using run \<open>r1 = Inr () \<and> _\<close> i join_txn_refused
        by (auto simp: join_def en split: sum.splits exc.splits option.splits prod.splits)
      then show ?thesis using refl by simp
    qed
  qed
  with p1 show ?thesis by (rule progress_trans)
qed

lemma drop_txn_refused: "drop_txn now stake i u c d = Inr (Some reason, d') \<Longrightarrow> d' = d"
  by (auto simp: drop_txn_def Let_def case_prod_unfold bind_result_Inr_iff split: if_splits option.splits)

lemma AList_delete_set: "set (AList.delete k xs) \<subseteq> set xs"
  by (auto simp: AList.delete_eq)

lemma drop_commit_ok:
  assumes ok: "bingo_ok d" and mem: "mem_ok e" and link: "link_ok d e" and i: "e_round_id e = Some i"
    and st: "e_status e = ''lobby''" and nd: "(u, c) \<in> held e"
    and drop: "drop_txn now (rc_stake (e_room e)) i u c d = Inr (None, d')"
  shows "progress e d (drop_remember d' u c e) d'"
proof -
  let ?s = "rc_stake (e_room e)" and ?x = "\<lparr>bc_round = i, bc_card = c, bc_user = u\<rparr>"
  let ?m = "\<lambda>x. en_round x = i \<and> en_user x = u \<and> en_card x = c"
  have room: "whole_cents ?s" "0 < ?s" "?s < 10 ^ 16" using mem by (auto simp: mem_ok_def room_ok_def)
  have lok: "ledger_ok (led d)" and esc: "obal (led d) pot_owner = escrow (rounds_view d)" and fk: "tables_fk d"
    using ok by (auto simp: bingo_ok_def)
  have "(u, c) \<notin> e_dropped e" using mem nd by (auto simp: mem_ok_def)
  then have fresh: "drop_key i u c \<notin> tkeys (led d)" using link i st unfolding link_ok_def by blast
  obtain r where r: "round_by_id d i = Some r" "rd_status r = ''lobby''"
    and ex: "\<exists>x\<in>set (round_entries d). ?m x" and big: "\<bar>numeric2 (rd_pot r - ?s)\<bar> < 10 ^ 16"
    and d': "d' = (update_round i (\<lambda>r'. r'\<lparr>rd_pot := numeric2 (rd_pot r - ?s), rd_player_count := rd_player_count r' - 1\<rparr>) d)
         \<lparr>round_entries := filter (\<lambda>x. \<not> ?m x) (round_entries d), led := led d'\<rparr>"
    and l': "ledger_ok (led d')" "tkeys (led d') = insert (drop_key i u c) (tkeys (led d))"
      "obal (led d') = (obal (led d))(pot_owner := obal (led d) pot_owner - ?s, cash_owner u := obal (led d) (cash_owner u) + ?s)"
    using drop_txn_effect [OF lok room(1) fresh drop] by blast
  note rr = round_room_ok [OF ok r(1)]
  let ?b = "abs_round r"
  have lv: "live ?b" using r(2) by (simp add: live_def abs_round_def TERMINAL_STATUSES_def)
  note lp = live_pot [OF rr(3) lv]
  note hc = held_card [OF link i rr(1,2) lv rr(4)]
  have p0: "b_pot ?b = rd_pot r" "b_stake ?b = rd_stake r" by (simp_all add: abs_round_def)
  have n2: "numeric2 (rd_pot r - ?s) = rd_pot r - ?s" using lp(1) room(1) p0 by (simp add: cents)
  have V: "rounds_view d' = vupd i (\<lambda>x. x\<lparr>b_pot := b_pot ?b - b_stake ?b\<rparr>) (rounds_view d)"
  proof -
    have "rounds_view d' = rounds_view (update_round i (\<lambda>r'. r'\<lparr>rd_pot := numeric2 (rd_pot r - ?s), rd_player_count := rd_player_count r' - 1\<rparr>) d)"
      by (subst d') (simp add: rounds_view_def)
    also have "\<dots> = vupd i (\<lambda>x. x\<lparr>b_pot := b_pot ?b - b_stake ?b\<rparr>) (rounds_view d)"
      by (rule rounds_view_update) (use n2 hc(3) p0 in \<open>simp add: abs_round_def\<close>)
    finally show ?thesis .
  qed
  have fm: "(filter (\<lambda>x. \<not> ?m x) xs) = filter (\<lambda>x. \<not> (bc_round (abs_card x) = i \<and> bc_user (abs_card x) = u \<and> bc_card (abs_card x) = c)) xs" for xs
    by (simp add: abs_card_def)
  have E: "cards_view d' = filter (\<lambda>y. \<not> (bc_round y = i \<and> bc_user y = u \<and> bc_card y = c)) (cards_view d)"
    by (subst d') (simp add: cards_view_def filter_map comp_def fm del: de_Morgan_conj)
  have xin: "?x \<in> set (cards_view d)" using hc(1) [of u c] nd by simp
  have bk: "book_ok (tkeys (led d')) (rounds_view d') (cards_view d')"
    unfolding l'(2) V E
    by (rule book_ok_unsell [OF rr(4,1,2) _ xin]) (use r(2) in \<open>simp_all add: abs_round_def\<close>)
  have ids: "distinct (map b_id (rounds_view d))" by (rule book_ids_distinct [OF rr(4)])
  have "escrow (rounds_view d') = escrow (rounds_view d) - ?s"
    unfolding V using lv by (subst escrow_vupd [OF ids rr(1,2)]) (simp add: live_def hc(3))
  then have esc': "obal (led d') pot_owner = escrow (rounds_view d')" using esc by (simp add: l'(3))
  have tabs: "cards d' = cards d" "users d' = users d" "rooms d' = rooms d" "round_winners d' = round_winners d"
    "rounds d' = rounds (update_round i (\<lambda>r'. r'\<lparr>rd_pot := numeric2 (rd_pot r - ?s), rd_player_count := rd_player_count r' - 1\<rparr>) d)"
    by (subst d', simp)+
  have re: "set (round_entries d') \<subseteq> set (round_entries d)"
    by (subst d') auto
  have "tables_fk d'"
  proof (rule tables_fk_same [OF fk tabs(1-3)])
    show "user_by_id d' (en_user x) \<noteq> None" if "x \<in> set (round_entries d')" for x
      using that fk re by (auto simp: user_by_id_def tabs tables_fk_def)
    show "round_status d' (wn_round w) = Some ''done''" if "w \<in> set (round_winners d')" for w
      by (rule winners_done_update [OF fk r(1) _ _ tabs(5)]) (use that r(2) tabs(4) in simp_all)
  qed
  then have ok': "bingo_ok d'" using l'(1) bk esc' by (simp add: bingo_ok_def)
  let ?e1 = "e\<lparr>e_entries := AList.delete (u, c) (e_entries e), e_dropped := insert (u, c) (e_dropped e), e_pot := dsub (e_pot e) ?s\<rparr>"
  have h: "held ?e1 = held e - {(u, c)}" by (auto simp: held_def AList.delete_eq image_iff)
  have pot: "dsub (e_pot e) ?s = rd_pot r - ?s"
    using hc(2) lp room p0 by (subst dsub_cents) auto
  have "mem_ok ?e1"
    using mem h AList_delete_set [of "(u, c)" "e_entries e"] distinct_delete [of "e_entries e" "(u, c)"]
      st
    unfolding mem_ok_def by (auto simp: held_def)
  moreover have "link_ok d' ?e1"
  proof -
    let ?b' = "?b\<lparr>b_pot := b_pot ?b - b_stake ?b\<rparr>"
    have b': "?b' \<in> set (rounds_view d')" unfolding V vupd_set using rr(1,2) by auto
    have k: "stake_key i v k \<in> tkeys (led d') \<longrightarrow> (v, k) \<in> insert (u, c) (e_dropped e) \<or> \<lparr>bc_round = i, bc_card = k, bc_user = v\<rparr> \<in> set (cards_view d')"
      "drop_key i v k \<in> tkeys (led d') \<longrightarrow> (v, k) \<in> insert (u, c) (e_dropped e)" for v k
      using link i st unfolding link_ok_def l'(2) E by auto
    show ?thesis
      unfolding link_ok_def
    proof (intro allI impI conjI bexI [OF _ b'])
      show "b_id ?b' = j" if "e_round_id ?e1 = Some j" for j using that i rr(2) by simp
      show "b_stake ?b' = rc_stake (e_room ?e1)" using hc(3) by simp
      show "round_link (e_status ?e1) ?b'" using hc(4) by (simp add: round_link_def)
      show "e_pot ?e1 = b_pot ?b'" using pot p0 hc(3) by simp
      show "((v, k) \<in> held ?e1) = (\<lparr>bc_round = j, bc_card = k, bc_user = v\<rparr> \<in> set (cards_view d'))"
        if "e_round_id ?e1 = Some j" for j v k
        using that i hc(1) [of v k] unfolding h E by auto
    qed (use k i in auto)
  qed
  moreover have sm: "same_memory ?e1 (drop_remember d' u c e)" by (simp add: drop_remember_def)
  ultimately have eo: "mem_ok (drop_remember d' u c e)" "link_ok d' (drop_remember d' u c e)"
    using same_memory_ok [OF sm] by blast+
  have "same_round j d d'" if "j \<noteq> i" for j
    by (rule same_round_vupd [OF V _ that]) (use that in \<open>auto simp: E l'(2)\<close>)
  moreover have "length (rounds d') = length (rounds d)" by (simp add: tabs(5))
  ultimately show ?thesis
    using ok' eo i by (auto simp: progress_def drop_remember_def publish_balance_update_def)
qed

lemma drop_ok:
  assumes ok: "bingo_ok d" and mem: "mem_ok e" and link: "link_ok d e"
    and run: "drop_card now u c e d = (r, e', d')"
  shows "progress e d e' d'"
proof (cases "e_status e = ''lobby'' \<and> map_of (e_entries e) (u, c) \<noteq> None \<and> e_round_id e \<noteq> None")
  case False
  then show ?thesis using run progress_refl [OF ok mem link] by (auto simp: drop_card_def split: if_splits option.splits)
next
  case True
  then obtain i s where i: "e_round_id e = Some i" and s: "map_of (e_entries e) (u, c) = Some s" and st: "e_status e = ''lobby''"
    by auto
  have h: "(u, c) \<in> held e" using map_of_SomeD [OF s] by (force simp: held_def)
  let ?j = "drop_txn now (rc_stake (e_room e)) i u c d"
  show ?thesis
  proof (cases "\<exists>d2. ?j = Inr (None, d2)")
    case True
    then obtain d2 where d2: "?j = Inr (None, d2)" by blast
    then have "e' = drop_remember d2 u c e \<and> d' = d2" using run i s st by (auto simp: drop_card_def)
    then show ?thesis using drop_commit_ok [OF ok mem link i st h d2] by simp
  next
    case False
    then have "e' = e \<and> d' = d"
      using run i s st drop_txn_refused by (auto simp: drop_card_def split: sum.splits option.splits prod.splits)
    then show ?thesis using progress_refl [OF ok mem link] by simp
  qed
qed

end
