(* ===== verification/Bingo_Play.thy ===== *)
theory Bingo_Play
  imports Bingo_Ops
begin

text \<open>
  The rest of a round keeps the invariant, on every outcome: claims, the countdown, the start, the calls
  and the refund of a round that has no winner.
\<close>

definition mark_auto :: "int \<Rightarrow> bool \<Rightarrow> (int \<times> int) \<times> entry_state \<Rightarrow> (int \<times> int) \<times> entry_state" where
  "mark_auto u auto = (\<lambda>(k, s). (k, if fst k = u then s\<lparr>es_auto_mark := auto\<rparr> else s))"

lemma mark_auto_keys: "map fst (map (mark_auto u auto) xs) = map fst xs"
  "fst ` set (map (mark_auto u auto) xs) = fst ` set xs"
  "\<forall>(k, s)\<in>set xs. es_card_no s = snd k \<Longrightarrow> \<forall>(k, s)\<in>set (map (mark_auto u auto) xs). es_card_no s = snd k"
  by (induction xs) (auto simp: mark_auto_def)

lemma set_auto_ok:
  assumes ok: "bingo_ok d" and mem: "mem_ok e" and link: "link_ok d e"
    and run: "set_auto u auto e d = (r, e', d')"
  shows "progress e d e' d'"
proof (cases "list_ex (\<lambda>k. fst (fst k) = u) (e_entries e)")
  case False
  then show ?thesis using run progress_refl [OF ok mem link] by (simp add: set_auto_def)
next
  case True
  let ?xs = "map (mark_auto u auto) (e_entries e)"
  have e': "e' = e\<lparr>e_entries := ?xs\<rparr>"
    using run True by (auto simp: set_auto_def Let_def mark_auto_def split: option.splits)
  have xs: "e_entries e' = ?xs" by (simp add: e')
  have h: "held e' = held e" unfolding held_def xs by (rule mark_auto_keys(2))
  have f: "map fst (e_entries e') = map fst (e_entries e)" unfolding xs by (rule mark_auto_keys(1))
  have c: "\<forall>(k, s)\<in>set (e_entries e'). es_card_no s = snd k"
    unfolding xs by (rule mark_auto_keys(3)) (use mem in \<open>simp add: mem_ok_def\<close>)
  have o: "e_status e' = e_status e" "e_room e' = e_room e" "e_card_pool e' = e_card_pool e"
    "e_round_id e' = e_round_id e" "e_server_seed e' = e_server_seed e" "e_pot e' = e_pot e"
    "e_dropped e' = e_dropped e" "e_pending e' = e_pending e" "e_rooms_active e' = e_rooms_active e"
    by (simp_all add: e')
  have m: "mem_ok e'" using mem c unfolding mem_ok_def o h f by blast
  have l: "link_ok d e'" by (rule link_ok_memory [OF link]) (simp_all add: o h)
  have cv: "map abs_card (map (\<lambda>x. if en_round x = i \<and> en_user x = u then x\<lparr>en_auto := auto\<rparr> else x) xs) = map abs_card xs" for i xs
    by (induction xs) (auto simp: abs_card_def)
  have "d' = d \<or> (\<exists>i. d' = d\<lparr>round_entries := map (\<lambda>x. if en_round x = i \<and> en_user x = u then x\<lparr>en_auto := auto\<rparr> else x)
      (round_entries d)\<rparr>)"
    using run True by (auto simp: set_auto_def Let_def split: option.splits)
  then show ?thesis
    by (elim disjE exE; intro progress_unseen [OF ok m l])
      (simp_all add: o rounds_view_def cards_view_def cv del: map_map)
qed

subsection \<open>Claims\<close>

lemma claim_check_memory:
  assumes "claim_check u c source e = (res, e')"
  shows "same_memory e e'"
    "res = Inr (Inr (k, won)) \<Longrightarrow> (\<exists>s. map_of (e_entries e) (u, c) = Some s \<and> k = es_card_no s)
       \<and> (e_status e = ''running'' \<or> e_status e = ''settling'')"
  using assms by (auto simp: claim_check_def same_memory_def split: if_splits option.splits sum.splits)

lemma claim_register_ok:
  assumes mem: "mem_ok e" and link: "link_ok d e" and held: "(u, c) \<in> held e"
    and run: "claim_register clk u c c won e = (r, e')"
  shows "mem_ok e'" "link_ok d e'" "e_round_id e' = e_round_id e"
proof -
  let ?w = "\<lparr>pw_user = u, pw_card = c, pw_pattern = join_names (map pat_name won), pw_call_index = e_call_index e\<rparr>"
  have new: "distinct (map (\<lambda>w. (pw_user w, pw_card w)) (e_pending e @ [?w]))"
    if "\<not> list_ex (\<lambda>v. pw_user v = u \<and> pw_card v = c) (e_pending e)"
    using that mem by (auto simp: mem_ok_def list_ex_iff)
  have "mem_ok e' \<and> link_ok d e' \<and> e_round_id e' = e_round_id e"
  proof (cases "e' = e")
    case False
    then have nl: "\<not> list_ex (\<lambda>v. pw_user v = u \<and> pw_card v = c) (e_pending e)"
      and st: "e_status e = ''running'' \<or> e_status e = ''settling''"
      and pend: "e_pending e' = e_pending e @ [?w]"
      and rest: "e_room e' = e_room e" "e_card_pool e' = e_card_pool e" "e_round_id e' = e_round_id e"
        "e_server_seed e' = e_server_seed e" "e_pot e' = e_pot e" "e_entries e' = e_entries e" "e_dropped e' = e_dropped e"
      and st': "e_status e' = e_status e \<or> e_status e = ''running'' \<and> e_status e' = ''settling''"
        "e_rooms_active e' = e_rooms_active e"
      using run by (auto simp: claim_register_def Let_def split: if_splits option.splits)
    have h: "held e' = held e" by (simp add: held_def rest)
    have "link_ok d e'" by (rule link_ok_memory [OF link]) (use rest h st' in simp_all)
    moreover have "mem_ok e'"
      using mem new [OF nl] held st st' unfolding mem_ok_def pend rest h by auto
    ultimately show ?thesis using rest by simp
  qed (use mem link in simp)
  then show "mem_ok e'" "link_ok d e'" "e_round_id e' = e_round_id e" by auto
qed

lemma claim_tables:
  assumes "claim clk u c source e d = (r, e', d')"
  shows "d' = d \<or> (\<exists>cl. d' = d\<lparr>claim_attempts := cl\<rparr>)"
proof -
  obtain res e1 where ck: "claim_check u c source e = (res, e1)" by fastforce
  define rec where "rec = (if e_round_id e1 = None then Inr d
     else record_claim_attempt u c (case res of Inr (Inr _) \<Rightarrow> True | _ \<Rightarrow> False) e1 d)"
  have rec: "rec = Inr d1 \<Longrightarrow> d1 = d \<or> (\<exists>cl. d1 = d\<lparr>claim_attempts := cl\<rparr>)" for d1
    by (auto simp: rec_def record_claim_attempt_def insert_claim_def split: if_splits option.splits)
  have "d' = d \<or> rec = Inr d'"
    using assms unfolding claim_def ck Let_def prod.case rec_def [symmetric]
    by (cases rec) (auto split: sum.splits prod.splits)
  then show ?thesis using rec by blast
qed

lemma claim_memory:
  assumes "claim clk u c source e d = (r, e', d')" and ck: "claim_check u c source e = (res, e1)"
  shows "e' = e1 \<or> (\<exists>k won. res = Inr (Inr (k, won)) \<and> e' = snd (claim_register clk u c k won e1))"
proof -
  define rec where "rec = (if e_round_id e1 = None then Inr d
     else record_claim_attempt u c (case res of Inr (Inr _) \<Rightarrow> True | _ \<Rightarrow> False) e1 d)"
  show ?thesis
    using assms(1) unfolding claim_def ck Let_def prod.case rec_def [symmetric]
    by (cases rec) (auto split: sum.splits prod.splits)
qed

lemma claim_ok:
  assumes ok: "bingo_ok d" and mem: "mem_ok e" and link: "link_ok d e"
    and run: "claim clk u c source e d = (r, e', d')"
  shows "progress e d e' d'"
proof -
  obtain res e1 where ck: "claim_check u c source e = (res, e1)" by fastforce
  note sm = claim_check_memory(1) [OF ck]
  have m1: "mem_ok e1" "link_ok d e1" using same_memory_ok [OF sm] mem link by blast+
  note d' = claim_tables [OF run]
  have e': "(mem_ok e' \<and> link_ok d e') \<and> e_round_id e' = e_round_id e"
  proof (cases "\<exists>k won. res = Inr (Inr (k, won))")
    case True
    then obtain k won where res: "res = Inr (Inr (k, won))" by blast
    obtain s where s: "map_of (e_entries e) (u, c) = Some s" "k = es_card_no s"
      using claim_check_memory(2) [OF ck res] by blast
    have "((u, c), s) \<in> set (e_entries e)" using map_of_SomeD [OF s(1)] .
    moreover have "\<forall>(k, s)\<in>set (e_entries e). es_card_no s = snd k" using mem unfolding mem_ok_def by blast
    ultimately have "es_card_no s = c" by fastforce
    moreover have "e_entries e1 = e_entries e" using sm by (simp only: same_memory_def)
    then have "(u, c) \<in> held e1" unfolding held_def using image_eqI [OF _ map_of_SomeD [OF s(1)], of "(u, c)" fst] by simp
    ultimately have k: "k = c" "(u, c) \<in> held e1" using s(2) by simp_all
    obtain r2 e2 where reg: "claim_register clk u c c won e1 = (r2, e2)" by fastforce
    note rg = claim_register_ok [OF m1 k(2) reg]
    have "e' = e1 \<or> e' = e2" using claim_memory [OF run ck] reg by (auto simp: res k(1))
    moreover have "e_round_id e1 = e_round_id e" using sm by (simp only: same_memory_def)
    ultimately show ?thesis using rg m1 by metis
  next
    case False
    then have "e' = e1" using claim_memory [OF run ck] by blast
    then show ?thesis using m1 sm by (simp only: same_memory_def)
  qed
  show ?thesis
    using d' by (elim disjE exE; intro progress_unseen [OF ok]) (simp_all add: e' rounds_view_def cards_view_def)
qed

subsection \<open>Refunds\<close>

lemma entries_sold: "length (sold (cards_view d) i) = length (entries_of d i)"
  by (simp add: sold_def cards_view_def entries_of_def filter_map comp_def abs_card_def)

lemma entries_pk:
  assumes "book_ok K V (cards_view d)" shows "distinct (map en_card (entries_of d i))"
proof -
  have "distinct (map (\<lambda>x. (bc_round x, bc_card x)) (sold (cards_view d) i))"
    using assms unfolding book_ok_def sold_def by (auto intro: distinct_map_filter)
  then have "distinct (map (\<lambda>e. (en_round e, en_card e)) (entries_of d i))"
    by (simp add: sold_def cards_view_def entries_of_def filter_map comp_def abs_card_def)
  then show ?thesis by (auto simp: entries_of_def distinct_map inj_on_def)
qed

text \<open>Voiding a live round returns and leaves every engine linked, the round's own included.\<close>

lemma void_live:
  assumes ok: "bingo_ok d" and r: "round_by_id d i = Some r" "rd_status r \<notin> TERMINAL_STATUSES"
  shows "\<exists>d'. refund_round_in_transaction now i reason d = Inr (int (length (entries_of d i)), d')
    \<and> bingo_ok d' \<and> rounds_view d' = vupd i (\<lambda>x. x\<lparr>b_status := ''voided''\<rparr>) (rounds_view d)
    \<and> cards_view d' = cards_view d
    \<and> (\<forall>u. obal (led d') (cash_owner u) = obal (led d) (cash_owner u) + of_nat (cards_held d i u) * rd_stake r)
    \<and> obal (led d') pot_owner = obal (led d) pot_owner - rd_pot r
    \<and> tkeys (led d') = tkeys (led d) \<union> (\<lambda>e. refund_key i (en_user e) (en_card e)) ` set (entries_of d i)"
proof -
  note rr = round_room_ok [OF ok r(1)]
  let ?b = "abs_round r" and ?void = "\<lambda>r. r\<lparr>rd_status := ''voided'', rd_ended_at := Some now\<rparr> :: round_row"
  have lv: "live ?b" using r(2) by (simp add: live_def abs_round_def)
  have lok: "ledger_ok (led d)" and esc: "obal (led d) pot_owner = escrow (rounds_view d)" and fk: "tables_fk d"
    using ok by (simp_all add: bingo_ok_def)
  have stake: "whole_cents (rd_stake r)" "0 \<le> rd_stake r" using rr(3) by (simp_all add: bround_ok_def abs_round_def)
  have nv: "b_status ?b \<noteq> ''voided''" using lv by (auto simp: live_def TERMINAL_STATUSES_def)
  have fresh: "refund_key i (en_user e) (en_card e) \<notin> tkeys (led d)" for e :: entry_state_row
    using rr(3) nv by (simp add: bround_ok_def rr(2))
  have pot: "rd_pot r = of_nat (length (entries_of d i)) * rd_stake r"
    using rr(2,3) lv by (simp add: bround_ok_def entries_sold) (simp add: abs_round_def)
  obtain d' where d': "refund_round_in_transaction now i reason d = Inr (int (length (entries_of d i)), d')"
      "ledger_ok (led d')" "tables_of d' = tables_of (update_round i ?void d)"
      "obal (led d') pot_owner = obal (led d) pot_owner - of_nat (length (entries_of d i)) * rd_stake r"
      "\<forall>u. obal (led d') (cash_owner u) = obal (led d) (cash_owner u) + of_nat (cards_held d i u) * rd_stake r"
      "tkeys (led d') = tkeys (led d) \<union> (\<lambda>e. refund_key i (en_user e) (en_card e)) ` set (entries_of d i)"
    using refund_round_in_transaction_effect [OF lok r stake entries_pk [OF rr(4)] fresh] by blast
  note t = tables_of_fields [OF d'(3)]
  have V: "rounds_view d' = vupd i (\<lambda>x. x\<lparr>b_status := ''voided''\<rparr>) (rounds_view d)"
  proof -
    have "rounds_view d' = rounds_view (update_round i ?void d)" by (simp add: rounds_view_def t(5))
    also have "\<dots> = vupd i (\<lambda>x. x\<lparr>b_status := ''voided''\<rparr>) (rounds_view d)"
      by (rule rounds_view_update) (simp add: abs_round_def)
    finally show ?thesis .
  qed
  have E: "cards_view d' = cards_view d" by (simp add: cards_view_def t(6))
  have bk: "book_ok (tkeys (led d')) (rounds_view d') (cards_view d')"
    unfolding V E by (rule book_ok_void [OF rr(4,1,2) lv]) (auto simp: d'(6))
  have nl: "\<not> live (?b\<lparr>b_status := ''voided''\<rparr>)" by (simp add: live_def TERMINAL_STATUSES_def)
  have "escrow (rounds_view d') = escrow (rounds_view d) - rd_pot r"
    unfolding V escrow_vupd [OF book_ids_distinct [OF rr(4)] rr(1,2)] using lv nl by (simp add: abs_round_def)
  then have esc': "obal (led d') pot_owner = escrow (rounds_view d')" using d'(4) esc pot by simp
  have st: "rd_status r \<in> {''lobby'', ''running''}" using rr(5) r(2) by (auto simp: TERMINAL_STATUSES_def)
  have "tables_fk d'"
  proof (rule tables_fk_same [OF fk])
    show "cards d' = cards d" "users d' = users d" "rooms d' = rooms d" using t(1,3,4) by simp_all
    show "user_by_id d' (en_user x) \<noteq> None" if "x \<in> set (round_entries d')" for x
      using that fk t(1,6) by (simp add: user_by_id_def tables_fk_def)
    show "round_status d' (wn_round w) = Some ''done''" if "w \<in> set (round_winners d')" for w
      by (rule winners_done_update [OF fk r(1) st, of ?void]) (use that t(5,7) in simp_all)
  qed
  then have "bingo_ok d'" using d'(2) bk esc' by (simp add: bingo_ok_def)
  then show ?thesis using d' V E pot by auto
qed

lemma link_ok_voided:
  assumes link: "link_ok d e" and bk: "book_ok K (rounds_view d) (cards_view d)"
    and b: "b \<in> set (rounds_view d)" "b_id b = i" "live b"
    and V: "rounds_view d' = vupd i (\<lambda>x. x\<lparr>b_status := ''voided''\<rparr>) (rounds_view d)"
    and E: "cards_view d' = cards_view d"
    and K: "\<And>u c. stake_key i u c \<in> tkeys (led d') \<longleftrightarrow> stake_key i u c \<in> tkeys (led d)"
      "\<And>u c. drop_key i u c \<in> tkeys (led d') \<longleftrightarrow> drop_key i u c \<in> tkeys (led d)"
    and i: "e_round_id e = Some i"
  shows "link_ok d' e"
proof -
  note hc = held_card [OF link i b bk]
  let ?b = "b\<lparr>b_status := ''voided''\<rparr>"
  have "?b \<in> set (rounds_view d')" unfolding V vupd_set using b by auto
  moreover have "b_stake ?b = rc_stake (e_room e)" "b_id ?b = i" using hc(3) b(2) by simp_all
  moreover have "round_link (e_status e) ?b"
    using hc(4) b(3) by (auto simp: round_link_def live_def TERMINAL_STATUSES_def)
  moreover have "\<not> live ?b" by (simp add: live_def TERMINAL_STATUSES_def)
  moreover have "e_status e = ''lobby'' \<longrightarrow>
      (\<forall>u c. stake_key i u c \<in> tkeys (led d') \<longrightarrow>
         (u, c) \<in> e_dropped e \<or> \<lparr>bc_round = i, bc_card = c, bc_user = u\<rparr> \<in> set (cards_view d'))
      \<and> (\<forall>u c. drop_key i u c \<in> tkeys (led d') \<longrightarrow> (u, c) \<in> e_dropped e)"
    using link i unfolding link_ok_def K E by blast
  ultimately show ?thesis
    unfolding link_ok_def i option.inject by (intro allI impI) blast
qed

lemma void_ok:
  assumes ok: "bingo_ok d" and ref: "refund_round_in_transaction now i reason d = Inr (n, d')"
  shows "bingo_ok d'" "length (rounds d') = length (rounds d)" "\<And>j. j \<noteq> i \<Longrightarrow> same_round j d d'"
    "\<And>e. link_ok d e \<Longrightarrow> link_ok d' e"
proof -
  have "bingo_ok d' \<and> length (rounds d') = length (rounds d) \<and> (\<forall>j. j \<noteq> i \<longrightarrow> same_round j d d')
    \<and> (\<forall>e. link_ok d e \<longrightarrow> link_ok d' e)"
  proof (cases "\<exists>r. round_by_id d i = Some r \<and> rd_status r \<notin> TERMINAL_STATUSES")
    case False
    then have "d' = d" using ref by (auto simp: refund_round_in_transaction_def split: option.splits if_splits)
    then show ?thesis using ok by simp
  next
    case True
    then obtain r where r: "round_by_id d i = Some r" "rd_status r \<notin> TERMINAL_STATUSES" by blast
    note rr = round_room_ok [OF ok r(1)]
    have v: "bingo_ok d'" "rounds_view d' = vupd i (\<lambda>x. x\<lparr>b_status := ''voided''\<rparr>) (rounds_view d)"
      "cards_view d' = cards_view d"
      "tkeys (led d') = tkeys (led d) \<union> (\<lambda>e. refund_key i (en_user e) (en_card e)) ` set (entries_of d i)"
      using void_live [OF ok r, of now reason] ref by auto
    have lv: "live (abs_round r)" using r(2) by (simp add: live_def abs_round_def)
    have s: "same_round j d d'" if "j \<noteq> i" for j
      by (rule same_round_vupd [OF v(2) _ that]) (use that v(3,4) in auto)
    have "link_ok d' e" if l: "link_ok d e" for e
    proof (cases "e_round_id e = Some i")
      case True
      show ?thesis by (rule link_ok_voided [OF l rr(4,1,2) lv v(2,3) _ _ True]) (auto simp: v(4))
    next
      case False
      then show ?thesis using s by (intro link_ok_other [OF l]) auto
    qed
    moreover have "length (rounds d') = length (rounds d)"
      using arg_cong [OF v(2), of length] by (simp add: length_rounds_view)
    ultimately show ?thesis using v(1) s by blast
  qed
  then show "bingo_ok d'" "length (rounds d') = length (rounds d)" "\<And>j. j \<noteq> i \<Longrightarrow> same_round j d d'"
    "\<And>e. link_ok d e \<Longrightarrow> link_ok d' e" by blast+
qed

lemma refund_round_ok:
  assumes "refund_round now i reason d = Inr (n, d')"
  shows "refund_round_in_transaction now i reason d = Inr (n, d')"
  using assms db_commit_Inr by (auto simp: refund_round_def bind_result_Inr_iff)

text \<open>An engine that gives up its round.\<close>

lemma void_progress:
  assumes ok: "bingo_ok d" and mem: "mem_ok e" and link: "link_ok d e" and i: "e_round_id e = Some i"
    and ref: "refund_round now i reason d = Inr (n, d')" and sm: "same_memory e e'"
  shows "progress e d (reset_to_idle e') d'" "progress e d e' d'"
proof -
  note v = void_ok [OF ok refund_round_ok [OF ref]]
  note m = same_memory_ok [OF sm]
  note rs = reset_to_idle_ok [OF m(1) [OF mem]]
  show "progress e d (reset_to_idle e') d'"
    using v(1-3) rs i by (auto simp: progress_def)
  have "e_round_id e' = e_round_id e" using sm by (simp only: same_memory_def)
  then show "progress e d e' d'"
    using v(1-3) m mem v(4) [OF link] m(2) [OF v(4) [OF link]] i by (auto simp: progress_def)
qed

subsection \<open>The lobby\<close>

lemma mark_running_ok:
  assumes ok: "bingo_ok d" and run: "mark_running now i cs order d = Some d'"
  shows "bingo_ok d'" "rounds_view d' = vupd i (\<lambda>x. x\<lparr>b_status := ''running''\<rparr>) (rounds_view d)"
    "led d' = led d" "cards_view d' = cards_view d" "length (rounds d') = length (rounds d)"
proof -
  let ?f = "\<lambda>r. r\<lparr>rd_status := ''running'', rd_client_seed := Some cs, rd_draw_order := Some order,
      rd_started_at := Some now\<rparr> :: round_row"
  have "round_status d i = Some ''lobby''" using run by (auto simp: mark_running_def split: if_splits)
  then obtain r where r: "round_by_id d i = Some r" "rd_status r = ''lobby''" by (auto simp: round_status_def)
  have d': "d' = update_round i ?f d" using run by (auto simp: mark_running_def split: if_splits)
  note rr = round_room_ok [OF ok r(1)]
  show V: "rounds_view d' = vupd i (\<lambda>x. x\<lparr>b_status := ''running''\<rparr>) (rounds_view d)"
    unfolding d' by (rule rounds_view_update) (simp add: abs_round_def)
  show L: "led d' = led d" "length (rounds d') = length (rounds d)" by (simp_all add: d')
  show E: "cards_view d' = cards_view d" by (simp add: d' cards_view_def)
  have st: "b_status (abs_round r) = ''lobby''" using r(2) by (simp add: abs_round_def)
  have bk: "book_ok (tkeys (led d')) (rounds_view d') (cards_view d')"
    unfolding V E L by (rule book_ok_start [OF rr(4,1,2) st])
  have "escrow (rounds_view d') = escrow (rounds_view d)"
    unfolding V escrow_vupd [OF book_ids_distinct [OF rr(4)] rr(1,2)] using st
    by (simp add: live_def TERMINAL_STATUSES_def)
  moreover have fk: "tables_fk d" using ok by (simp add: bingo_ok_def)
  have "tables_fk d'"
  proof (rule tables_fk_same [OF fk])
    show "user_by_id d' (en_user x) \<noteq> None" if "x \<in> set (round_entries d')" for x
      using that fk by (simp add: d' user_by_id_def tables_fk_def)
    show "round_status d' (wn_round w) = Some ''done''" if "w \<in> set (round_winners d')" for w
      by (rule winners_done_update [OF fk r(1), of ?f]) (use r(2) that in \<open>simp_all add: d'\<close>)
  qed (simp_all add: d')
  ultimately show "bingo_ok d'" using ok bk L by (simp add: bingo_ok_def)
qed

lemma link_okI:
  assumes "e_round_id e = Some i" "b \<in> set (rounds_view d)" "b_id b = i" "b_stake b = rc_stake (e_room e)"
    "round_link (e_status e) b"
    "live b \<Longrightarrow> e_pot e = b_pot b
       \<and> (\<forall>u c. (u, c) \<in> held e \<longleftrightarrow> \<lparr>bc_round = i, bc_card = c, bc_user = u\<rparr> \<in> set (cards_view d))"
    "e_status e = ''lobby'' \<Longrightarrow>
       (\<forall>u c. stake_key i u c \<in> tkeys (led d) \<longrightarrow>
          (u, c) \<in> e_dropped e \<or> \<lparr>bc_round = i, bc_card = c, bc_user = u\<rparr> \<in> set (cards_view d))
       \<and> (\<forall>u c. drop_key i u c \<in> tkeys (led d) \<longrightarrow> (u, c) \<in> e_dropped e)"
  shows "link_ok d e"
  unfolding link_ok_def assms(1) option.inject
proof (intro allI impI)
  fix j assume "i = j"
  then show "(\<exists>b\<in>set (rounds_view d). b_id b = j \<and> b_stake b = rc_stake (e_room e) \<and> round_link (e_status e) b
        \<and> (live b \<longrightarrow> e_pot e = b_pot b
             \<and> (\<forall>u c. (u, c) \<in> held e \<longleftrightarrow> \<lparr>bc_round = j, bc_card = c, bc_user = u\<rparr> \<in> set (cards_view d))))
     \<and> (e_status e = ''lobby'' \<longrightarrow>
          (\<forall>u c. stake_key j u c \<in> tkeys (led d) \<longrightarrow>
             (u, c) \<in> e_dropped e \<or> \<lparr>bc_round = j, bc_card = c, bc_user = u\<rparr> \<in> set (cards_view d))
        \<and> (\<forall>u c. drop_key j u c \<in> tkeys (led d) \<longrightarrow> (u, c) \<in> e_dropped e))"
    using assms(2-7) by blast
qed

lemma started_link:
  assumes ok: "bingo_ok d" and link: "link_ok d e" and i: "e_round_id e = Some i" and run: "mark_running now i cs order d = Some d'"
    and e': "e_round_id e' = Some i" "e_status e' = ''running''" "e_room e' = e_room e" "e_pot e' = e_pot e" "held e' = held e"
  shows "link_ok d' e'"
proof -
  have "round_status d i = Some ''lobby''" using run by (auto simp: mark_running_def split: if_splits)
  then obtain r where r: "round_by_id d i = Some r" "rd_status r = ''lobby''" by (auto simp: round_status_def)
  note rr = round_room_ok [OF ok r(1)]
  note m = mark_running_ok [OF ok run]
  have lv: "live (abs_round r)" using r(2) by (simp add: live_def abs_round_def TERMINAL_STATUSES_def)
  note hc = held_card [OF link i rr(1,2) lv rr(4)]
  let ?b = "abs_round r\<lparr>b_status := ''running''\<rparr>"
  have "?b \<in> set (rounds_view d')" unfolding m(2) vupd_set using rr(1,2) by auto
  moreover have "b_id ?b = i" "b_stake ?b = rc_stake (e_room e')" "e_pot e' = b_pot ?b" "round_link (e_status e') ?b"
    using rr(2) hc(2,3) e' by (simp_all add: round_link_def)
  moreover have "\<forall>u c. (u, c) \<in> held e' \<longleftrightarrow> \<lparr>bc_round = i, bc_card = c, bc_user = u\<rparr> \<in> set (cards_view d')"
    using hc(1) by (simp add: e' m(4))
  ultimately show ?thesis by (intro link_okI [where b = ?b, OF e'(1)]) (auto simp: e'(2))
qed

lemma transition_to_running_ok:
  assumes ok: "bingo_ok d" and mem: "mem_ok e" and link: "link_ok d e" and st: "e_status e = ''lobby''"
    and run: "transition_to_running now clk e d = (r, e', d')"
  shows "progress e d e' d'"
proof -
  note refl = progress_refl [OF ok mem link]
  obtain i s where i: "e_round_id e = Some i" and s: "e_server_seed e = Some s" using mem st by (auto simp: mem_ok_def)
  show ?thesis
  proof (cases "derive_draw s (round_client_seed e i)")
    case Inl
    then show ?thesis using run refl by (simp add: transition_to_running_def i s)
  next
    case (Inr order)
    show ?thesis
    proof (cases "mark_running now i (round_client_seed e i) order d")
      case None
      have sm: "same_memory e (publish (RoundVoided i ''voided'') e)" by simp
      note rs = reset_to_idle_ok [OF same_memory_ok(1) [OF sm mem]]
      have "e' = reset_to_idle (publish (RoundVoided i ''voided'') e)" "d' = d"
        using run by (simp_all add: transition_to_running_def i s Inr None)
      then show ?thesis using rs ok by (simp add: progress_def)
    next
      case (Some d1)
      note m = mark_running_ok [OF ok Some]
      let ?e1 = "(set_status ''running'' e)\<lparr>e_client_seed := Some (round_client_seed e i), e_draw_order := order, e_running_started_at := clk\<rparr>"
      have d': "d' = d1" and e': "same_memory ?e1 e'"
        using run by (auto simp: transition_to_running_def i s Inr Some Let_def split: sum.splits)
      have "mem_ok (set_status ''running'' e)" by (rule set_status_ok [OF mem]) (simp_all add: st)
      moreover have "same_memory (set_status ''running'' e) ?e1" by (simp add: same_memory_def)
      ultimately have m1: "mem_ok ?e1" using same_memory_ok(1) by blast
      have l1: "link_ok d1 ?e1" by (rule started_link [OF ok link i Some]) (simp_all add: i held_def)
      have "e_round_id e' = Some i" using e' i by (simp add: same_memory_def)
      moreover have "same_round j d d1" if "j \<noteq> i" for j
        by (rule same_round_vupd [OF m(2) _ that]) (simp_all add: m(3,4))
      ultimately show ?thesis
        using m(1,5) same_memory_ok [OF e'] m1 l1 i by (auto simp: progress_def d')
    qed
  qed
qed

lemma same_memory_balances': "same_memory e f \<Longrightarrow> same_memory e (publish_balances d us f)"
  using same_memory_balances same_memory_trans by blast

lemma lobby_expired_ok:
  assumes ok: "bingo_ok d" and mem: "mem_ok e" and link: "link_ok d e" and st: "e_status e = ''lobby''"
    and run: "lobby_expired now clk e d = (r, e', d')"
  shows "progress e d e' d'"
proof -
  note refl = progress_refl [OF ok mem link]
  obtain i where i: "e_round_id e = Some i" using mem st by (auto simp: mem_ok_def)
  consider "\<not> e_lock_held e \<or> e_stop_requested e"
    | "\<not> (\<not> e_lock_held e \<or> e_stop_requested e)" "rc_min_players (e_room e) \<le> player_count e \<or> player_count e = 0"
    | "\<not> (\<not> e_lock_held e \<or> e_stop_requested e)" "\<not> (rc_min_players (e_room e) \<le> player_count e \<or> player_count e = 0)"
    by blast
  then show ?thesis
  proof cases
    case 1
    then show ?thesis using run refl by (simp add: lobby_expired_def)
  next
    case 2
    then show ?thesis
      using run by (intro transition_to_running_ok [OF ok mem link st, of now clk r]) (simp add: lobby_expired_def)
  next
    case 3
    show ?thesis
    proof (cases "refund_round now i ''lobby_underfilled'' d")
      case (Inl x)
      then show ?thesis using run 3 refl by (simp add: lobby_expired_def i)
    next
      case (Inr p)
      then obtain n d1 where ref: "refund_round now i ''lobby_underfilled'' d = Inr (n, d1)" by (cases p) simp
      show ?thesis
        using run 3 void_progress(1) [OF ok mem link i ref, of "publish (RoundVoided i ''lobby_underfilled'') (publish_balances d1 (entrant_users e) e)"]
        by (auto simp: lobby_expired_def i ref same_memory_balances)
    qed
  qed
qed

lemma lobby_tick_memory: "same_memory e (snd (lobby_tick clk e))"
  by (simp add: lobby_tick_def Let_def split: sum.splits)

lemma run_lobby_ok:
  assumes ok: "bingo_ok d" and mem: "mem_ok e" and link: "link_ok d e" and st: "e_status e = ''lobby''"
    and run: "run_lobby now clk e d = (r, e', d')"
  shows "progress e d e' d'"
proof -
  note m = same_memory_ok [OF lobby_tick_memory [of e clk]]
  have "e_round_id (snd (lobby_tick clk e)) = e_round_id e" using lobby_tick_memory [of e clk] by (simp only: same_memory_def)
  then have "progress e d (snd (lobby_tick clk e)) d" using ok m mem link by (simp add: progress_def)
  then show ?thesis
    using run lobby_expired_ok [OF ok mem link st, of now clk] progress_refl [OF ok mem link]
    by (auto simp: run_lobby_def split: if_splits prod.splits)
qed

subsection \<open>Calling numbers\<close>

lemma progress_memory:
  assumes "progress e d e1 d1" "same_memory e1 e2" shows "progress e d e2 d1"
proof -
  have "e_round_id e2 = e_round_id e1" using assms(2) by (simp only: same_memory_def)
  then show ?thesis using assms(1) same_memory_ok [OF assms(2)] by (simp add: progress_def)
qed

lemma progress_from:
  assumes "progress e1 d e' d'" "e_round_id e1 = e_round_id e" shows "progress e d e' d'"
  using assms by (simp add: progress_def)

text \<open>An update of columns that the abstraction does not have.\<close>

lemma columns_ok:
  assumes ok: "bingo_ok d" and mem: "mem_ok e" and link: "link_ok d e"
    and f: "\<And>r. abs_round (f r) = abs_round r"
  shows "progress e d e (update_round i f d)"
proof (rule progress_unseen [OF ok mem link])
  show "rounds_view (update_round i f d) = rounds_view d"
    using f by (simp add: rounds_view_def update_round_def)
  have "rd_id (f r) = rd_id r" for r using f [of r] by (simp add: abs_round_def)
  then show "map rd_id (rounds (update_round i f d)) = map rd_id (rounds d)" by (simp add: update_round_def)
qed (simp_all add: cards_view_def)

lemma auto_claim_entry_ok:
  assumes ok: "bingo_ok d" and mem: "mem_ok e" and link: "link_ok d e"
    and run: "auto_claim_entry clk k (e, d) = Inr (e', d')"
  shows "progress e d e' d'"
proof -
  obtain key entry where k: "k = (key, entry)" by fastforce
  note refl = progress_refl [OF ok mem link]
  show ?thesis
  proof (cases "\<not> es_auto_mark entry \<or> key \<in> e_auto_claimed e \<or> key \<in> e_locked_out e")
    case True
    then show ?thesis using run refl by (simp add: auto_claim_entry_def k)
  next
    case False
    then obtain grid where g: "e_card_pool e (es_card_no entry) = Some grid"
      using run by (auto simp: auto_claim_entry_def k split: option.splits)
    then obtain won where w: "has_won grid (e_called e) (rc_win_patterns (e_room e)) (rc_min_winning_lines (e_room e)) = Inr won"
      using run False by (auto simp: auto_claim_entry_def k bind_result_Inr_iff)
    show ?thesis
    proof (cases won)
      case w': False
      then show ?thesis using run refl False by (simp add: auto_claim_entry_def k g w)
    next
      case True
      let ?e = "e\<lparr>e_auto_claimed := insert key (e_auto_claimed e)\<rparr>"
      obtain r e1 d1 where c: "claim clk (fst key) (snd key) ''auto'' ?e d = (r, e1, d1)" by (metis prod_cases3)
      have sm: "same_memory e ?e" by (simp add: same_memory_def)
      have p: "progress ?e d e1 d1" by (rule claim_ok [OF ok _ _ c]) (use same_memory_ok [OF sm] mem link in blast)+
      have p': "progress e d e1 d1" by (rule progress_from [OF p]) simp
      have "d' = d1 \<and> (e' = e1 \<or> e' = e1\<lparr>e_auto_claimed := e_auto_claimed e1 - {key}\<rparr>)"
        using run False True by (auto simp: auto_claim_entry_def k g w c split: sum.splits)
      moreover have "same_memory e1 (e1\<lparr>e_auto_claimed := e_auto_claimed e1 - {key}\<rparr>)" by (simp add: same_memory_def)
      ultimately show ?thesis using p' progress_memory [OF p'] by auto
    qed
  qed
qed

lemma auto_claim_scan_ok:
  assumes "bingo_ok d" "mem_ok e" "link_ok d e" "auto_claim_scan clk ks e d = (r, e', d')"
  shows "progress e d e' d'"
  using assms
proof (induction ks arbitrary: e d)
  case Nil
  then show ?case using progress_refl [OF Nil(1-3)] by simp
next
  case (Cons k ks)
  show ?case
  proof (cases "auto_claim_entry clk k (e, d)")
    case Inl
    then show ?thesis using Cons.prems progress_refl [OF Cons.prems(1-3)] by simp
  next
    case (Inr p)
    then obtain e1 d1 where s: "auto_claim_entry clk k (e, d) = Inr (e1, d1)" by (cases p) simp
    note p1 = auto_claim_entry_ok [OF Cons.prems(1-3) s]
    have "progress e1 d1 e' d'"
      by (rule Cons.IH [OF progress_parts [OF p1]]) (use Cons.prems(4) s in simp)
    then show ?thesis by (rule progress_trans [OF p1])
  qed
qed

lemma call_next_number_ok:
  assumes ok: "bingo_ok d" and mem: "mem_ok e" and link: "link_ok d e"
    and run: "call_next_number clk e d = (r, e', d')"
  shows "progress e d e' d'"
proof (cases "e_round_id e")
  case None
  then show ?thesis using run progress_refl [OF ok mem link] by (simp add: call_next_number_def)
next
  case (Some i)
  let ?k = "e_call_index e + 1"
  let ?e1 = "e\<lparr>e_call_index := ?k\<rparr>"
  have sm1: "same_memory e ?e1" by (simp add: same_memory_def)
  note p1 = progress_memory [OF progress_refl [OF ok mem link] sm1]
  show ?thesis
  proof (cases "list_get (e_draw_order e) (nat (?k - 1))")
    case Inl
    then show ?thesis using run p1 by (auto simp: call_next_number_def Some Let_def)
  next
    case g: (Inr n)
    let ?e2 = "?e1\<lparr>e_called := insert n (e_called ?e1)\<rparr>"
    have "same_memory e ?e2" by (simp add: same_memory_def)
    note p2 = progress_memory [OF progress_refl [OF ok mem link] this]
    show ?thesis
    proof (cases "round_status d i = Some ''running''")
      case False
      then have "advance_call_index i ?k d = None" by (simp add: advance_call_index_def)
      then have "e' = ?e2 \<and> d' = d" using run g by (simp add: call_next_number_def Some Let_def)
      then show ?thesis using p2 by simp
    next
      case True
      let ?d1 = "update_round i (\<lambda>r. r\<lparr>rd_call_index := ?k\<rparr>) d"
      have a: "advance_call_index i ?k d = Some ?d1" using True by (simp add: advance_call_index_def)
      have p3: "progress e d ?e2 ?d1"
        by (rule progress_trans [OF p2 columns_ok [OF progress_parts [OF p2]]]) (simp add: abs_round_def)
      show ?thesis
      proof (cases "letter_for n")
        case Inl
        then have "e' = ?e2 \<and> d' = ?d1" using run g a Inl by (auto simp: call_next_number_def Some Let_def)
        then show ?thesis using p3 by simp
      next
        case (Inr l)
        let ?e3 = "publish (NumberCalled i ?k n l) ?e2"
        obtain r4 e4 d4 where sc: "auto_claim_scan clk (e_entries ?e2) ?e3 ?d1 = (r4, e4, d4)" by (metis prod_cases3)
        have "same_memory ?e2 ?e3" by simp
        note p4 = progress_memory [OF p3 this]
        have "e' = e4 \<and> d' = d4"
          using run g a Inr sc by (auto simp: call_next_number_def Some Let_def split: sum.splits)
        then show ?thesis using progress_trans [OF p4 auto_claim_scan_ok [OF progress_parts [OF p4] sc]] by simp
      qed
    qed
  qed
qed

lemma run_exhausted_ok:
  assumes ok: "bingo_ok d" and mem: "mem_ok e" and link: "link_ok d e"
    and run: "run_exhausted now e d = (r, e', d')"
  shows "progress e d e' d'"
proof -
  note refl = progress_refl [OF ok mem link]
  show ?thesis
  proof (cases "e_round_id e = None \<or> e_server_seed e = None")
    case True
    then show ?thesis using run refl by (auto simp: run_exhausted_def split: option.splits)
  next
    case False
    then obtain i s where i: "e_round_id e = Some i" and s: "e_server_seed e = Some s" by auto
    show ?thesis
    proof (cases "refund_round now i ''exhausted_no_winner'' d")
      case (Inl x)
      then show ?thesis using run refl by (simp add: run_exhausted_def i s)
    next
      case (Inr p)
      then obtain n d1 where ref: "refund_round now i ''exhausted_no_winner'' d = Inr (n, d1)" by (cases p) simp
      let ?e = "reset_to_idle (publish (RoundEnd i [] 0 s) (publish_balances d1 (entrant_users e) e))"
      have p1: "progress e d ?e d1"
        by (rule void_progress(1) [OF ok mem link i ref]) (simp add: same_memory_balances)
      have "progress ?e d1 ?e (reveal_seed i s d1)"
        unfolding reveal_seed_def by (rule columns_ok [OF progress_parts [OF p1]]) (simp add: abs_round_def)
      then have "progress e d ?e (reveal_seed i s d1)" by (rule progress_trans [OF p1])
      then show ?thesis using run by (auto simp: run_exhausted_def i s ref)
    qed
  qed
qed

lemma reset_progress: "progress e d e1 d1 \<Longrightarrow> progress e d (reset_to_idle e1) d1"
  using reset_to_idle_ok by (auto simp: progress_def)

lemma run_iteration_ok:
  assumes ok: "bingo_ok d" and mem: "mem_ok e" and link: "link_ok d e"
    and run: "run_iteration now clk e d = (r, e', d')"
  shows "progress e d e' d'"
proof (cases "e_status e \<noteq> ''running'' \<or> \<not> e_lock_held e \<or> 75 \<le> e_call_index e")
  case True
  then have "e' = e \<and> d' = d" using run unfolding run_iteration_def by (simp only: if_True) simp
  then show ?thesis using progress_refl [OF ok mem link] by simp
next
  case False
  obtain c e1 d1 where cn: "call_next_number clk e d = (c, e1, d1)" by (metis prod_cases3)
  note p1 = call_next_number_ok [OF ok mem link cn]
  show ?thesis
  proof (cases c)
    case (Inl x)
    then show ?thesis using run False cn p1 unfolding run_iteration_def by auto
  next
    case (Inr called)
    have run': "(if e_settlement_task e1 \<noteq> None then (Inr (), e1, d1)
        else if \<not> called then (Inr (), reset_to_idle e1, d1)
        else if e_status e1 = ''running'' \<and> e_call_index e1 = 75 then run_exhausted now e1 d1
        else (Inr (), e1, d1)) = (r, e', d')"
      using run False unfolding run_iteration_def cn Inr by simp
    show ?thesis
      using run' p1 reset_progress [OF p1] progress_trans [OF p1 run_exhausted_ok [OF progress_parts [OF p1], of now r e' d']]
      by (auto split: if_splits)
  qed
qed

end
