(* ===== verification/Bingo_Settle.thy ===== *)
theory Bingo_Settle
  imports Bingo_Play
begin

text \<open>
  Settlement: on a live round it succeeds, pays out exactly the pot of the engine's memory, which is the
  pot of the database, and keeps the invariant; on a round that was ended meanwhile it does nothing.
\<close>

text \<open>What an engine with a live round knows of it.\<close>

lemma live_round:
  assumes ok: "bingo_ok d" and link: "link_ok d e" and i: "e_round_id e = Some i"
    and r: "round_by_id d i = Some r" "rd_status r \<notin> TERMINAL_STATUSES"
  shows "e_pot e = rd_pot r" "whole_cents (e_pot e)" "0 \<le> e_pot e" "e_pot e < 10 ^ 16" "column_money (e_pot e)"
    "settle_key i \<notin> tkeys (led d)" "finite (held e)" "card (held e) \<le> 432"
    "\<And>u c. (u, c) \<in> held e \<Longrightarrow> user_by_id d u \<noteq> None" "\<forall>v\<in>set (round_winners d). wn_round v \<noteq> i"
    "rd_status r \<in> {''lobby'', ''running''}"
proof -
  note rr = round_room_ok [OF ok r(1)]
  have lv: "live (abs_round r)" using r(2) by (simp add: live_def abs_round_def)
  note lp = live_pot [OF rr(3) lv]
  note hc = held_card [OF link i rr(1,2) lv rr(4)]
  show p: "e_pot e = rd_pot r" using hc(2) by (simp add: abs_round_def)
  show "whole_cents (e_pot e)" "0 \<le> e_pot e" "e_pot e < 10 ^ 16" "column_money (e_pot e)"
    using lp hc(2) by (simp_all add: column_money_def)
  show "settle_key i \<notin> tkeys (led d)" using rr(2,3) lv by (auto simp: bround_ok_def live_def TERMINAL_STATUSES_def)
  have "held e \<subseteq> (\<lambda>x. (bc_user x, bc_card x)) ` set (sold (cards_view d) i)"
  proof
    fix x assume "x \<in> held e"
    then obtain u c where "x = (u, c)" "\<lparr>bc_round = i, bc_card = c, bc_user = u\<rparr> \<in> set (cards_view d)" using hc(1) by (cases x) blast
    then show "x \<in> (\<lambda>x. (bc_user x, bc_card x)) ` set (sold (cards_view d) i)"
      by (intro image_eqI [of _ _ "\<lparr>bc_round = i, bc_card = c, bc_user = u\<rparr>"]) (simp_all add: sold_def)
  qed
  then have "card (held e) \<le> card (set (sold (cards_view d) i))" by (meson card_image_le card_mono finite_imageI finite_set le_trans)
  also have "\<dots> \<le> 432" using sold_bound [OF rr(4), of i] card_length le_trans by blast
  finally show "card (held e) \<le> 432" .
  show "finite (held e)" by (simp add: held_def)
  show "user_by_id d u \<noteq> None" if h: "(u, c) \<in> held e" for u c
  proof -
    have "\<lparr>bc_round = i, bc_card = c, bc_user = u\<rparr> \<in> set (cards_view d)" using hc(1) h by blast
    then obtain x where "x \<in> set (round_entries d)" "en_user x = u" by (auto simp: cards_view_def abs_card_def)
    then show ?thesis using ok by (auto simp: bingo_ok_def tables_fk_def)
  qed
  show "\<forall>v\<in>set (round_winners d). wn_round v \<noteq> i"
    using ok r by (auto simp: bingo_ok_def tables_fk_def round_status_def TERMINAL_STATUSES_def)
  show "rd_status r \<in> {''lobby'', ''running''}" using rr(5) r(2) by (auto simp: TERMINAL_STATUSES_def)
qed

lemma pending_bound:
  assumes mem: "mem_ok e" and c: "card (held e) \<le> 432"
  shows "length (e_pending e) \<le> 432"
proof -
  have "length (e_pending e) = card ((\<lambda>w. (pw_user w, pw_card w)) ` set (e_pending e))"
    using mem distinct_card [of "map (\<lambda>w. (pw_user w, pw_card w)) (e_pending e)"] by (simp add: mem_ok_def)
  also have "\<dots> \<le> card (held e)" using mem by (intro card_mono) (auto simp: mem_ok_def held_def)
  finally show ?thesis using c by simp
qed

definition settle_sums :: "money \<Rightarrow> int \<Rightarrow> nat \<Rightarrow> money \<times> money list \<times> money" where
  "settle_sums pot bps n =
     (let derash = of_int \<lfloor>pot * of_int (10000 - bps) / 100\<rfloor> / 100;
          share = of_int \<lfloor>derash * 100 / of_nat n\<rfloor> / 100
      in (derash, replicate n share, pot - of_nat n * share))"

lemma settle_sums:
  assumes pot: "column_money pot" "compute_derash pot bps = Inr (derash, house)"
    and n: "n \<le> 10 ^ 6" "split_derash derash (int n) = Inr (shares, leftover)"
  shows "settle_sums pot bps n = (derash, shares, dadd house leftover)" "length shares = n"
    "sum_list shares + dadd house leftover = pot" "\<forall>s\<in>set shares. whole_cents s \<and> 0 \<le> s"
    "whole_cents (dadd house leftover)" "0 \<le> dadd house leftover"
proof -
  note c = compute_derash_Inr [OF pot]
  have le: "derash \<le> pot" using c(1,3) by linarith
  have pb: "\<bar>pot\<bar> < 10 ^ 16" using pot(1) by (simp add: column_money_def)
  have cd: "column_money derash" using c(2,4) le pb by (simp add: column_money_def)
  have n': "int n \<le> 10 ^ 6" using n(1) by simp
  note s = split_derash_Inr [OF cd c(2) n' n(2)]
  have l: "length shares = n" using s(2) by simp
  define share where "share = (of_int \<lfloor>derash * 100 / of_int (int n)\<rfloor> / 100 :: rat)"
  have "y = share" if "y \<in> set shares" for y using s(7) [OF that] by (simp only: share_def)
  then have sh: "shares = replicate n share" by (intro replicate_eqI [OF l]) simp
  have s0: "0 \<le> share" using c(2) by (simp add: share_def)
  have sw: "whole_cents share" by (simp add: share_def whole_cents_def)
  have sum: "sum_list shares = of_nat n * share" by (simp add: sh sum_list_replicate)
  have "0 \<le> of_nat n * share" using s0 by simp
  then have lo: "leftover \<le> derash" using s(3) sum by linarith
  have h: "dadd house leftover = house + leftover"
    by (rule dadd_cents) (use c s lo le pb in auto)
  show "length shares = n" by (rule l)
  show "sum_list shares + dadd house leftover = pot" using s(3) c(1) h by linarith
  show "\<forall>s\<in>set shares. whole_cents s \<and> 0 \<le> s" using sh s0 sw by simp
  show "whole_cents (dadd house leftover)" "0 \<le> dadd house leftover" using h c s by (simp_all add: cents)
  show "settle_sums pot bps n = (derash, shares, dadd house leftover)"
    unfolding settle_sums_def c(6) [symmetric] Let_def
    using s(3) c(1) h sum by (simp add: sh share_def)
qed

lemma settle_txn_live: "settle_txn now i seed pot derash ws shares h d = Inr (Some d') \<Longrightarrow>
    \<exists>r. round_by_id d i = Some r \<and> rd_status r \<notin> TERMINAL_STATUSES"
  by (cases "round_by_id d i") (auto simp: settle_txn_def round_status_def split: if_splits)

text \<open>The rows of the tables after a settlement.\<close>

definition settled :: "int \<Rightarrow> int \<Rightarrow> bytes \<Rightarrow> money \<Rightarrow> (pending_winner \<times> money) list \<Rightarrow> money \<Rightarrow> money \<Rightarrow> db \<Rightarrow> db \<Rightarrow> bool" where
  "settled now i seed derash paid pot house d d' \<longleftrightarrow>
     (\<exists>t. d' = (update_round i (\<lambda>r. r\<lparr>rd_status := ''done'', rd_derash := derash, rd_server_seed := Some seed,
             rd_ended_at := Some now\<rparr>) d)
           \<lparr>round_winners := round_winners d @ map (\<lambda>(w, share). \<lparr>wn_round = i, wn_user = pw_user w, wn_card = pw_card w,
              wn_pattern = pw_pattern w, wn_on_call = pw_call_index w, wn_amount = share, wn_payout_txn = Some t\<rparr>) paid,
            led := led d'\<rparr>)
     \<and> ledger_ok (led d') \<and> tkeys (led d') = insert (settle_key i) (tkeys (led d))
     \<and> (\<forall>u. obal (led d') (cash_owner u) = obal (led d) (cash_owner u) + won_by u paid)
     \<and> obal (led d') pot_owner = obal (led d) pot_owner - pot
     \<and> obal (led d') house_owner = obal (led d) house_owner + house
     \<and> (\<forall>ow. ow \<notin> {pot_owner, house_owner} \<and> (fst ow = None \<or> snd ow \<noteq> ''user_cash'') \<longrightarrow>
          obal (led d') ow = obal (led d) ow)"

lemma settled_ok:
  assumes ok: "bingo_ok d" and r: "round_by_id d i = Some r" "rd_status r \<notin> TERMINAL_STATUSES" "pot = rd_pot r"
    and s: "settled now i seed derash paid pot house d d'"
  shows "bingo_ok d'" "rounds_view d' = vupd i (\<lambda>x. x\<lparr>b_status := ''done''\<rparr>) (rounds_view d)"
    "cards_view d' = cards_view d" "length (rounds d') = length (rounds d)"
    "tkeys (led d') = insert (settle_key i) (tkeys (led d))"
proof -
  note rr = round_room_ok [OF ok r(1)]
  let ?f = "\<lambda>r. r\<lparr>rd_status := ''done'', rd_derash := derash, rd_server_seed := Some seed, rd_ended_at := Some now\<rparr> :: round_row"
  obtain t where d': "d' = (update_round i ?f d)
           \<lparr>round_winners := round_winners d @ map (\<lambda>(w, share). \<lparr>wn_round = i, wn_user = pw_user w, wn_card = pw_card w,
              wn_pattern = pw_pattern w, wn_on_call = pw_call_index w, wn_amount = share, wn_payout_txn = Some t\<rparr>) paid,
            led := led d'\<rparr>"
    using s unfolding settled_def by blast
  have l: "ledger_ok (led d')" and k: "tkeys (led d') = insert (settle_key i) (tkeys (led d))"
    and pot: "obal (led d') pot_owner = obal (led d) pot_owner - pot"
    using s by (simp_all add: settled_def)
  show "tkeys (led d') = insert (settle_key i) (tkeys (led d))" by (rule k)
  have tabs: "rounds d' = rounds (update_round i ?f d)" "cards d' = cards d" "users d' = users d" "rooms d' = rooms d"
    "round_entries d' = round_entries d"
    by (subst d', simp)+
  show len: "length (rounds d') = length (rounds d)" by (simp add: tabs)
  show V: "rounds_view d' = vupd i (\<lambda>x. x\<lparr>b_status := ''done''\<rparr>) (rounds_view d)"
  proof -
    have "rounds_view d' = rounds_view (update_round i ?f d)" by (simp add: rounds_view_def tabs(1))
    also have "\<dots> = vupd i (\<lambda>x. x\<lparr>b_status := ''done''\<rparr>) (rounds_view d)"
      by (rule rounds_view_update) (simp add: abs_round_def)
    finally show ?thesis .
  qed
  show E: "cards_view d' = cards_view d" by (simp add: cards_view_def tabs(5))
  have lv: "live (abs_round r)" using r(2) by (simp add: live_def abs_round_def)
  have bk: "book_ok (tkeys (led d')) (rounds_view d') (cards_view d')"
    unfolding V E k by (rule book_ok_settle [OF rr(4,1,2) lv])
  have nl: "\<not> live (abs_round r\<lparr>b_status := ''done''\<rparr>)" by (simp add: live_def TERMINAL_STATUSES_def)
  have "escrow (rounds_view d') = escrow (rounds_view d) - pot"
    unfolding V escrow_vupd [OF book_ids_distinct [OF rr(4)] rr(1,2)] using lv nl r(3) by (simp add: abs_round_def)
  then have esc: "obal (led d') pot_owner = escrow (rounds_view d')" using pot ok by (simp add: bingo_ok_def)
  have fk: "tables_fk d" using ok by (simp add: bingo_ok_def)
  have "tables_fk d'"
  proof (rule tables_fk_same [OF fk tabs(2-4)])
    show "user_by_id d' (en_user x) \<noteq> None" if "x \<in> set (round_entries d')" for x
      using that fk by (simp add: user_by_id_def tables_fk_def tabs)
    show "round_status d' (wn_round w) = Some ''done''" if w: "w \<in> set (round_winners d')" for w
    proof (cases "w \<in> set (round_winners d)")
      case True
      show ?thesis
        by (rule winners_done_update [OF fk r(1) _ _ tabs(1) True]) (use rr(5) r(2) in \<open>auto simp: TERMINAL_STATUSES_def\<close>)
    next
      case False
      with w have "wn_round w = i" by (subst (asm) d') auto
      moreover have "round_by_id d' i = Some (?f r)"
        using r(1) round_by_id_update [of ?f i d i] by (simp add: round_by_id_def tabs(1))
      ultimately show ?thesis by (simp add: round_status_def)
    qed
  qed
  then show "bingo_ok d'" using l bk esc by (simp add: bingo_ok_def)
qed

lemma settle_txn_settled:
  assumes lok: "ledger_ok (led d)" and pot: "column_money pot" "0 \<le> pot" and len: "length ws = length shares"
    and w: "\<forall>s\<in>set shares. whole_cents s" "whole_cents h" and sum: "sum_list shares + h = pot"
    and fresh: "settle_key i \<notin> tkeys (led d)"
    and run: "settle_txn now i seed pot derash ws shares h d = Inr (Some d')"
  shows "settled now i seed derash (zip ws shares) pot h d d'"
proof -
  have p: "whole_cents pot" "pot < 10 ^ 16" using pot by (simp_all add: column_money_def)
  note ef = settle_txn_effect [OF lok len p(1) pot(2) p(2) w sum fresh run]
  then have ob: "obal (led d') ow = obal (led d) ow + odelta (settle_moves pot (zip ws shares) h) ow" for ow by blast
  show ?thesis
    unfolding settled_def using ef by (auto simp: ob odelta_settle)
qed

lemma settle_with_winners_ok:
  assumes ok: "bingo_ok d" and mem: "mem_ok e" and link: "link_ok d e" and ws: "length ws \<le> 10 ^ 6"
    and st: "e_status e = ''settling''"
    and run: "settle_with_winners now ws e d = (r, e', d')"
  shows "progress e d e' d'"
proof -
  note refl = progress_refl [OF ok mem link]
  obtain i s where i: "e_round_id e = Some i" and s: "e_server_seed e = Some s" using mem st by (auto simp: mem_ok_def)
  let ?bps = "rc_house_cut_bps (e_room e)"
  define txn where "txn = (\<lambda>derash shares h. settle_txn now i s (e_pot e) derash ws shares h d)"
  define res where "res = bind_result (compute_derash (e_pot e) ?bps) (\<lambda>(derash, house_cut).
       bind_result (split_derash derash (int (length ws))) (\<lambda>(shares, leftover).
       let house_total = dadd house_cut leftover
       in bind_result (txn derash shares house_total) (\<lambda>res. Inr (derash, shares, res))))"
  have run': "(case res of Inl x \<Rightarrow> (Inl x, e, d)
      | Inr (derash, shares, None) \<Rightarrow> (Inr (), reset_to_idle e, d)
      | Inr (derash, shares, Some d1) \<Rightarrow>
          (Inr (), set_status ''done'' (publish (RoundEnd i (end_winners d1 e ws shares) derash s)
             (publish_balances d1 (map pw_user ws) e)), d1)) = (r, e', d')"
    using run unfolding settle_with_winners_def i s res_def txn_def by (simp add: Let_def)
  show ?thesis
  proof (cases res)
    case (Inl x)
    then show ?thesis using run' refl by simp
  next
    case (Inr p)
    obtain derash shares t where p: "p = (derash, shares, t)" by (cases p) auto
    show ?thesis
    proof (cases t)
      case None
      then show ?thesis using run' refl Inr p reset_progress [OF refl] by simp
    next
      case (Some d1)
      obtain house leftover where c: "compute_derash (e_pot e) ?bps = Inr (derash, house)"
          "split_derash derash (int (length ws)) = Inr (shares, leftover)" "txn derash shares (dadd house leftover) = Inr (Some d1)"
        using Inr unfolding res_def p Some by (auto simp: bind_result_Inr_iff Let_def)
      obtain r where r: "round_by_id d i = Some r" "rd_status r \<notin> TERMINAL_STATUSES"
        using settle_txn_live c(3) unfolding txn_def by blast
      note lr = live_round [OF ok link i r]
      note ss = settle_sums [OF lr(5) c(1) ws c(2)]
      have lok: "ledger_ok (led d)" using ok by (simp add: bingo_ok_def)
      have wc: "\<forall>s\<in>set shares. whole_cents s" using ss(4) by blast
      note sd = settle_txn_settled [OF lok lr(5,3) ss(2) [symmetric] wc ss(5,3) lr(6) c(3) [unfolded txn_def]]
      note so = settled_ok [OF ok r lr(1) sd]
      let ?e1 = "publish (RoundEnd i (end_winners d1 e ws shares) derash s) (publish_balances d1 (map pw_user ws) e)"
      have e': "e' = set_status ''done'' ?e1" "d' = d1" using run' Inr p Some by auto
      have sm: "same_memory e ?e1" by (simp add: same_memory_balances)
      then have f: "e_status ?e1 = ''settling''" "e_round_id e' = Some i" "e_room e' = e_room e"
        using st i by (simp_all only: same_memory_def e' set_status_fields)
      have m: "mem_ok e'" unfolding e'(1) by (rule set_status_ok [OF same_memory_ok(1) [OF sm mem]]) (use f in auto)
      note rr = round_room_ok [OF ok r(1)]
      have lv: "live (abs_round r)" using r(2) by (simp add: live_def abs_round_def)
      note hc = held_card [OF link i rr(1,2) lv rr(4)]
      let ?b = "abs_round r\<lparr>b_status := ''done''\<rparr>"
      have b: "?b \<in> set (rounds_view d')" unfolding so(2) e'(2) vupd_set using rr(1,2) by auto
      have st': "e_status e' = ''done''" by (simp add: e'(1))
      have "link_ok d' e'"
        by (rule link_okI [OF f(2) b])
          (use rr(2) hc(3) f(3) st' in \<open>simp_all add: round_link_def live_def TERMINAL_STATUSES_def\<close>)
      moreover have "same_round j d d1" if "j \<noteq> i" for j
        by (rule same_round_vupd [OF so(2) _ that]) (use that in \<open>auto simp: so(3,5)\<close>)
      ultimately show ?thesis
        using so(1,4) m f i unfolding progress_def e'(2) by auto
    qed
  qed
qed

lemma finalize_ok:
  assumes ok: "bingo_ok d" and mem: "mem_ok e" and link: "link_ok d e" and st: "e_status e = ''settling''"
    and ws: "length (e_pending e) \<le> 10 ^ 6"
    and run: "finalize_after_window now e d = (r, e', d')"
  shows "progress e d e' d'"
proof -
  let ?e = "e\<lparr>e_pending := [], e_window_deadline := None\<rparr>"
  have m: "mem_ok ?e" using mem by (auto simp: mem_ok_def held_def)
  have l: "link_ok d ?e" by (rule link_ok_memory [OF link]) (simp_all add: held_def)
  have "progress ?e d e' d'"
    by (rule settle_with_winners_ok [OF ok m l ws _ run [unfolded finalize_after_window_def]]) (simp add: st)
  then show ?thesis by (rule progress_from) simp
qed

text \<open>On a live round the transaction returns, so the winners are paid.\<close>

lemma finalize_live:
  assumes ok: "bingo_ok d" and mem: "mem_ok e" and link: "link_ok d e" and i: "e_round_id e = Some i"
    and seed: "e_server_seed e = Some seed" and ws: "e_pending e \<noteq> []"
    and r: "round_by_id d i = Some r" "rd_status r \<notin> TERMINAL_STATUSES"
    and sums: "settle_sums (e_pot e) (rc_house_cut_bps (e_room e)) (length (e_pending e)) = (derash, shares, house)"
  shows "\<exists>e' d'. finalize_after_window now e d = (Inr (), e', d') \<and> e_status e' = ''done''
    \<and> settled now i seed derash (zip (e_pending e) shares) (e_pot e) house d d'"
proof -
  let ?ws = "e_pending e" and ?bps = "rc_house_cut_bps (e_room e)"
  note lr = live_round [OF ok link i r]
  have n: "length ?ws \<le> 10 ^ 6" using pending_bound [OF mem lr(8)] by simp
  have bps: "0 \<le> ?bps" "?bps \<le> 10000" using mem by (simp_all add: mem_ok_def room_ok_def)
  obtain d0 h0 where c: "compute_derash (e_pot e) ?bps = Inr (d0, h0)"
    using compute_derash_exact [OF lr(5,3) bps] by blast
  note cd = compute_derash_Inr [OF lr(5) c]
  have "column_money d0" using cd(1-4) lr(4) by (auto simp: column_money_def)
  moreover have "0 < int (length ?ws)" "int (length ?ws) \<le> 10 ^ 6" using ws n by simp_all
  ultimately obtain s0 l0 where sp: "split_derash d0 (int (length ?ws)) = Inr (s0, l0)"
    using split_derash_exact cd(2) by blast
  note ss = settle_sums [OF lr(5) c n sp]
  have eq: "d0 = derash" "s0 = shares" "dadd h0 l0 = house" using ss(1) sums by auto
  have lok: "ledger_ok (led d)" using ok by (simp add: bingo_ok_def)
  have p: "whole_cents (e_pot e)" by (rule lr(2))
  have "\<exists>d1. settle_txn now i seed (e_pot e) d0 ?ws s0 (dadd h0 l0) d = Inr (Some d1)"
  proof (rule settle_txn_returns [OF lok ss(2) [symmetric] p lr(3,4) ss(4,5,3) lr(6) r])
    show "distinct (map (\<lambda>w. (pw_user w, pw_card w)) ?ws)" using mem by (simp add: mem_ok_def)
    show "\<forall>w\<in>set ?ws. user_by_id d (pw_user w) \<noteq> None"
    proof
      fix w assume "w \<in> set ?ws"
      then have "(pw_user w, pw_card w) \<in> held e" using mem unfolding mem_ok_def by blast
      then show "user_by_id d (pw_user w) \<noteq> None" by (rule lr(9))
    qed
    show "\<forall>v\<in>set (round_winners d). wn_round v \<noteq> i" by (rule lr(10))
  qed
  then obtain d1 where t: "settle_txn now i seed (e_pot e) d0 ?ws s0 (dadd h0 l0) d = Inr (Some d1)" ..
  have wc: "\<forall>s\<in>set s0. whole_cents s" using ss(4) by blast
  have "settled now i seed derash (zip ?ws shares) (e_pot e) house d d1"
    using settle_txn_settled [OF lok lr(5,3) ss(2) [symmetric] wc ss(5,3) lr(6) t] by (simp only: eq)
  then show ?thesis
    using t by (auto simp: finalize_after_window_def settle_with_winners_def i seed c sp Let_def)
qed

end
