(* ===== verification/Bingo_System.thy ===== *)
theory Bingo_System
  imports Bingo_Settle
begin

text \<open>
  The bingo side as a whole: any number of engines over one database, interleaved with crashes, lost locks,
  the recovery of abandoned rounds and everything else the platform does to the ledger. \<open>engine_step\<close> is
  one step of one engine, \<open>bingo_step\<close> one of the system; whatever is reachable satisfies the invariant of
  the book, and every engine agrees with its round.
\<close>

subsection \<open>Steps\<close>

text \<open>
  One step of an engine, at arbitrary clocks: a command, the idle branch of \<open>run_forever\<close>, a turn of the
  lobby loop, a number when it is due, the settlement task when its window is over, the end of the result
  screen, the loss of the lock or a stop request.
\<close>

inductive engine_step :: "engine \<Rightarrow> db \<Rightarrow> engine \<Rightarrow> db \<Rightarrow> bool" where
  step_command: "handle_command now clk seed c e d = (r, e', d') \<Longrightarrow> engine_step e d e' d'"
| step_idle: "e_status e = ''idle'' \<Longrightarrow> e_lock_held e \<Longrightarrow> \<not> e_stop_requested e \<Longrightarrow>
    0 < e_seq e \<longrightarrow> room_is_still_active e d \<Longrightarrow> ensure_round now clk seed e d = (r, e', d') \<Longrightarrow> engine_step e d e' d'"
| step_lobby: "e_status e = ''lobby'' \<Longrightarrow> run_lobby now clk e d = (r, e', d') \<Longrightarrow> engine_step e d e' d'"
| step_call: "call_due clk e \<Longrightarrow> run_iteration now clk e d = (r, e', d') \<Longrightarrow> engine_step e d e' d'"
| step_finalize: "e_status e = ''settling'' \<Longrightarrow> e_settlement_task e = Some t \<Longrightarrow> t \<le> clk \<Longrightarrow>
    finalize_after_window now e d = (r, e', d') \<Longrightarrow> engine_step e d e' d'"
| step_shown: "e_status e = ''done'' \<Longrightarrow> engine_step e d (result_shown e) d"
| step_flags: "engine_step e d (e\<lparr>e_lock_held := has_lock, e_stop_requested := stop\<rparr>) d"

text \<open>
  What the rest of the platform may do between two steps: move money between other accounts under keys of
  its own, register users, change rooms within the bounds the configuration is loaded with.
\<close>

definition elsewhere :: "db \<Rightarrow> db \<Rightarrow> bool" where
  "elsewhere d d' \<longleftrightarrow> rounds d' = rounds d \<and> round_entries d' = round_entries d \<and> round_winners d' = round_winners d
     \<and> cards d' = cards d \<and> (\<forall>u. user_by_id d u \<noteq> None \<longrightarrow> user_by_id d' u \<noteq> None)
     \<and> (\<forall>i room. load_room_config d' i = Inr room \<longrightarrow> room_ok room)
     \<and> ledger_ok (led d') \<and> obal (led d') pot_owner = obal (led d) pot_owner
     \<and> tkeys (led d) \<subseteq> tkeys (led d') \<and> (\<forall>i. (tkeys (led d') - tkeys (led d)) \<inter> round_keys i = {})"

inductive bingo_step :: "engine list \<times> db \<Rightarrow> engine list \<times> db \<Rightarrow> bool" where
  sys_engine: "engine_step e d e' d' \<Longrightarrow> bingo_step (xs @ e # ys, d) (xs @ e' # ys, d')"
| sys_claim_room: "load_room_config d i = Inr room \<Longrightarrow>
    bingo_step (es, d) (es @ [(new_engine room (load_card_pool d))\<lparr>e_lock_held := True\<rparr>], d)"
| sys_crash: "bingo_step (xs @ e # ys, d) (xs @ ys, d)"
| sys_recover: "refund_round now i reason d = Inr (n, d') \<Longrightarrow> bingo_step (es, d) (es, d')"
| sys_elsewhere: "elsewhere d d' \<Longrightarrow> bingo_step (es, d) (es, d')"

definition bingo_initial :: "db \<Rightarrow> bool" where
  "bingo_initial d \<longleftrightarrow> rounds d = [] \<and> round_entries d = [] \<and> round_winners d = [] \<and> ledger_ok (led d)
     \<and> obal (led d) pot_owner = 0 \<and> (\<forall>i. round_keys i \<inter> tkeys (led d) = {})
     \<and> (\<forall>c. cards d c \<noteq> None \<longrightarrow> 1 \<le> c \<and> c \<le> POOL_SIZE)
     \<and> (\<forall>i room. load_room_config d i = Inr room \<longrightarrow> room_ok room)"

inductive bingo_reachable :: "engine list \<times> db \<Rightarrow> bool" where
  reach_init: "bingo_initial d \<Longrightarrow> bingo_reachable ([], d)"
| reach_step: "bingo_reachable s \<Longrightarrow> bingo_step s t \<Longrightarrow> bingo_reachable t"

inductive_cases bingo_stepE: "bingo_step s t"
inductive_cases engine_stepE: "engine_step e d e' d'"

subsection \<open>The invariant\<close>

definition different_round :: "engine \<Rightarrow> engine \<Rightarrow> bool" where
  "different_round e f \<longleftrightarrow> e_round_id e = None \<or> e_round_id e \<noteq> e_round_id f"

definition system_ok :: "engine list \<times> db \<Rightarrow> bool" where
  "system_ok = (\<lambda>(es, d). bingo_ok d \<and> (\<forall>e\<in>set es. mem_ok e \<and> link_ok d e) \<and> sorted_wrt different_round es)"

lemma different_round_sym: "different_round e f \<longleftrightarrow> different_round f e"
  by (auto simp: different_round_def)

lemma handle_command_ok:
  assumes ok: "bingo_ok d" and mem: "mem_ok e" and link: "link_ok d e"
    and run: "handle_command now clk seed c e d = (r, e', d')"
  shows "progress e d e' d'"
proof -
  obtain r1 where dis: "dispatch now clk seed c e d = (r1, e', d')"
    using run unfolding handle_command_def by (auto split: prod.splits sum.splits)
  show ?thesis
    using dis join_ok [OF ok mem link] drop_ok [OF ok mem link] claim_ok [OF ok mem link] set_auto_ok [OF ok mem link]
      progress_refl [OF ok mem link]
    unfolding dispatch_def by (auto split: if_splits)
qed

lemma settling_pending:
  assumes ok: "bingo_ok d" and mem: "mem_ok e" and link: "link_ok d e" and st: "e_status e = ''settling''"
    and run: "finalize_after_window now e d = (r, e', d')"
  shows "progress e d e' d'"
proof (cases "length (e_pending e) \<le> 10 ^ 6")
  case True
  then show ?thesis by (rule finalize_ok [OF ok mem link st _ run])
next
  case False
  text \<open>A live round has fewer cards than that; on an ended one the transaction refuses before it pays.\<close>
  obtain i s where i: "e_round_id e = Some i" and s: "e_server_seed e = Some s" using mem st by (auto simp: mem_ok_def)
  let ?e = "e\<lparr>e_pending := [], e_window_deadline := None\<rparr>"
  have m: "mem_ok ?e" using mem by (auto simp: mem_ok_def held_def)
  have l: "link_ok d ?e" by (rule link_ok_memory [OF link]) (simp_all add: held_def)
  have nl: "\<not> (\<exists>r. round_by_id d i = Some r \<and> rd_status r \<notin> TERMINAL_STATUSES)"
  proof
    assume "\<exists>r. round_by_id d i = Some r \<and> rd_status r \<notin> TERMINAL_STATUSES"
    then obtain r where r: "round_by_id d i = Some r" "rd_status r \<notin> TERMINAL_STATUSES" by blast
    show False using pending_bound [OF mem live_round(8) [OF ok link i r]] False by simp
  qed
  have none: "settle_txn now i s pot derash ws shares h d \<noteq> Inr (Some d1)" for pot derash ws shares h d1
    using settle_txn_live nl by blast
  have "d' = d \<and> (e' = ?e \<or> e' = reset_to_idle ?e)"
    using run none unfolding finalize_after_window_def settle_with_winners_def
    by (auto simp: i s Let_def bind_result_Inr_iff split: sum.splits option.splits prod.splits)
  moreover have "progress ?e d ?e d" "progress ?e d (reset_to_idle ?e) d"
    using progress_refl [OF ok m l] reset_progress by blast+
  then have "progress e d ?e d" "progress e d (reset_to_idle ?e) d" by (auto intro: progress_from)
  ultimately show ?thesis by auto
qed

lemma engine_step_ok:
  assumes ok: "bingo_ok d" and mem: "mem_ok e" and link: "link_ok d e" and step: "engine_step e d e' d'"
  shows "progress e d e' d'"
  using step
proof cases
  case (step_command now clk seed c r)
  then show ?thesis using handle_command_ok [OF ok mem link] by blast
next
  case (step_idle now clk seed r)
  then show ?thesis using ensure_round_ok [OF ok mem link] by blast
next
  case (step_lobby now clk r)
  then show ?thesis using run_lobby_ok [OF ok mem link] by blast
next
  case (step_call clk now r)
  then show ?thesis using run_iteration_ok [OF ok mem link] by blast
next
  case (step_finalize t clk now r)
  then show ?thesis using settling_pending [OF ok mem link] by blast
next
  case step_shown
  then show ?thesis using reset_progress [OF progress_refl [OF ok mem link]] by (simp add: result_shown_def)
next
  case (step_flags has_lock stop)
  have "same_memory e e'" by (simp add: step_flags same_memory_def)
  then show ?thesis using progress_memory [OF progress_refl [OF ok mem link]] step_flags by blast
qed

lemma link_round_le:
  assumes ok: "bingo_ok d" and link: "link_ok d e" and i: "e_round_id e = Some i"
  shows "1 \<le> i" "i \<le> int (length (rounds d))"
proof -
  obtain b where b: "b \<in> set (rounds_view d)" "b_id b = i" using link i unfolding link_ok_def by blast
  have "book_ok (tkeys (led d)) (rounds_view d) (cards_view d)" using ok by (simp add: bingo_ok_def)
  from book_ids_le [OF this b(1)] show "1 \<le> i" "i \<le> int (length (rounds d))"
    by (simp_all add: b(2) length_rounds_view)
qed

lemma progress_bystander:
  assumes ok: "bingo_ok d" and p: "progress e d e' d'" and f: "link_ok d f" "different_round e f"
  shows "link_ok d' f" "different_round e' f"
proof -
  show "link_ok d' f"
  proof (rule link_ok_other [OF f(1)])
    fix i assume i: "e_round_id f = Some i"
    have "i \<le> int (length (rounds d))" by (rule link_round_le(2) [OF ok f(1) i])
    moreover have "e_round_id e \<noteq> Some i" using f(2) i by (auto simp: different_round_def)
    ultimately show "same_round i d d'" using p by (simp add: progress_def)
  qed
  show "different_round e' f"
  proof (cases "e_round_id f")
    case None
    then show ?thesis by (auto simp: different_round_def)
  next
    case (Some i)
    have "i \<le> int (length (rounds d))" by (rule link_round_le(2) [OF ok f(1) Some])
    then show ?thesis using p f(2) Some by (auto simp: progress_def different_round_def)
  qed
qed

lemma load_card_pool_cards: "load_card_pool d c \<noteq> None \<Longrightarrow> cards d c \<noteq> None"
  by (auto simp: load_card_pool_def split: option.splits)

lemma new_engine_ok:
  assumes "bingo_ok d" "load_room_config d i = Inr room"
  shows "mem_ok ((new_engine room (load_card_pool d))\<lparr>e_lock_held := True\<rparr>)"
    "link_ok d ((new_engine room (load_card_pool d))\<lparr>e_lock_held := True\<rparr>)"
proof -
  show "link_ok d ((new_engine room (load_card_pool d))\<lparr>e_lock_held := True\<rparr>)"
    by (rule link_ok_None) (simp add: new_engine_def)
  have "room_ok room" using assms unfolding bingo_ok_def tables_fk_def by blast
  moreover have "\<forall>c. cards d c \<noteq> None \<longrightarrow> 1 \<le> c \<and> c \<le> POOL_SIZE" using assms(1) unfolding bingo_ok_def tables_fk_def by blast
  ultimately show "mem_ok ((new_engine room (load_card_pool d))\<lparr>e_lock_held := True\<rparr>)"
    using load_card_pool_cards by (auto simp: mem_ok_def new_engine_def held_def)
qed

lemma elsewhere_ok:
  assumes ok: "bingo_ok d" and el: "elsewhere d d'"
  shows "bingo_ok d'" "same_round i d d'"
proof -
  have k: "(tkeys (led d') - tkeys (led d)) \<inter> round_keys j = {}" "tkeys (led d) \<subseteq> tkeys (led d')" for j
    using el unfolding elsewhere_def by blast+
  have v: "rounds_view d' = rounds_view d" "cards_view d' = cards_view d"
    using el by (simp_all add: elsewhere_def rounds_view_def cards_view_def)
  have "tkeys (led d') \<inter> round_keys i = tkeys (led d) \<inter> round_keys i" using k(1) [of i] k(2) by blast
  then show "same_round i d d'" by (simp add: same_round_def v)
  have "book_ok (tkeys (led d')) (rounds_view d') (cards_view d')"
    unfolding v by (rule book_ok_foreign [OF _ k(2) k(1)]) (use ok in \<open>simp add: bingo_ok_def\<close>)
  moreover have "tables_fk d'"
    using ok el by (simp add: bingo_ok_def tables_fk_def elsewhere_def round_status_def round_by_id_def)
  ultimately show "bingo_ok d'" using ok el by (simp add: bingo_ok_def elsewhere_def v)
qed

lemma bingo_step_ok:
  assumes "system_ok s" "bingo_step s t" shows "system_ok t"
  using assms(2)
proof cases
  case (sys_engine e d e' d' xs ys)
  have ok: "bingo_ok d" "mem_ok e" "link_ok d e" and others: "\<forall>f\<in>set xs \<union> set ys. mem_ok f \<and> link_ok d f"
    and dist: "sorted_wrt different_round (xs @ e # ys)"
    using assms(1) by (auto simp: sys_engine system_ok_def)
  note p = engine_step_ok [OF ok sys_engine(3)]
  have df: "different_round e f" if "f \<in> set xs \<union> set ys" for f
    using dist that by (auto simp: sorted_wrt_append different_round_sym)
  have bys: "link_ok d' f" "different_round e' f" if "f \<in> set xs \<union> set ys" for f
    using progress_bystander [OF ok(1) p _ df [OF that]] others that by blast+
  show ?thesis
    using progress_parts [OF p] others bys dist by (auto simp: sys_engine system_ok_def sorted_wrt_append different_round_sym)
next
  case (sys_claim_room d i room es)
  have ok: "bingo_ok d" using assms(1) by (simp add: sys_claim_room system_ok_def)
  show ?thesis
    using assms(1) new_engine_ok [OF ok sys_claim_room(3)]
    by (auto simp: sys_claim_room system_ok_def sorted_wrt_append different_round_def new_engine_def)
next
  case (sys_crash xs e ys d)
  then show ?thesis using assms(1) by (auto simp: system_ok_def sorted_wrt_append)
next
  case (sys_recover now i reason d n d' es)
  have ok: "bingo_ok d" using assms(1) by (simp add: sys_recover system_ok_def)
  show ?thesis
    using assms(1) void_ok(1,4) [OF ok refund_round_ok [OF sys_recover(3)]] by (auto simp: sys_recover system_ok_def)
next
  case (sys_elsewhere d d' es)
  have ok: "bingo_ok d" using assms(1) by (simp add: sys_elsewhere system_ok_def)
  have "link_ok d' e" if "link_ok d e" for e
    using link_ok_other [OF that] elsewhere_ok(2) [OF ok sys_elsewhere(3)] by blast
  then show ?thesis
    using assms(1) elsewhere_ok(1) [OF ok sys_elsewhere(3)] by (auto simp: sys_elsewhere system_ok_def)
qed

lemma initial_ok: "bingo_initial d \<Longrightarrow> system_ok ([], d)"
  by (auto simp: bingo_initial_def system_ok_def bingo_ok_def tables_fk_def book_ok_def rounds_view_def cards_view_def
      escrow_def)

lemma reachable_ok: "bingo_reachable s \<Longrightarrow> system_ok s"
  by (induction rule: bingo_reachable.induct) (auto intro: initial_ok bingo_step_ok)

end
