(* ===== verification/Bingo_Demo.thy ===== *)
theory Bingo_Demo
  imports Bingo_System
begin

text \<open>
  One concrete game that the witnesses of the system's properties run: a room with a stake of 10, two users
  with 100 each, an engine that opens a round and sells card 1 to user 7 and card 2 to user 8. The hash of the
  seed stays a variable, so that nothing has to evaluate SHA-256.
\<close>

definition demo_card :: grid where
  "demo_card = [[1, 16, 31, 46, 61], [2, 17, 32, 47, 62], [3, 18, 0, 48, 63], [4, 19, 33, 49, 64], [5, 20, 34, 50, 65]]"

definition demo_room_row :: room_row where
  "demo_room_row = \<lparr>rm_id = 1, rm_code = ''R10'', rm_stake = 10, rm_house_cut_bps = 2000, rm_min_players = 2, rm_max_players = 100,
     rm_lobby_seconds = 30, rm_call_interval_ms = 3000, rm_result_seconds = 5, rm_win_patterns = [''row''],
     rm_is_active = True, rm_max_cards_per_player = 2, rm_no_player_next_round_delay_seconds = 5, rm_min_winning_lines = 1\<rparr>"

definition demo_room :: room_config where
  "demo_room = \<lparr>rc_id = 1, rc_code = ''R10'', rc_stake = 10, rc_house_cut_bps = 2000, rc_min_players = 2, rc_max_players = 100,
     rc_lobby_seconds = 30, rc_call_interval_ms = 3000, rc_result_seconds = 5, rc_win_patterns = [''row''],
     rc_max_cards_per_player = 2, rc_no_player_next_round_delay_seconds = 5, rc_min_winning_lines = 1\<rparr>"

definition demo_user :: "int \<Rightarrow> user_row" where
  "demo_user i = \<lparr>us_id = i, us_status = ''active'', us_is_simulated = False, us_display_name = ''P''\<rparr>"

definition fund_args :: "int \<Rightarrow> int \<Rightarrow> int \<Rightarrow> post_args" where
  "fund_args u cash clearing = \<lparr>pa_kind = ''deposit'',
     pa_entries = [\<lparr>ent_account = clearing, ent_amount = - 100\<rparr>, \<lparr>ent_account = cash, ent_amount = 100\<rparr>],
     pa_key = ''deposit:'' @ str_int u, pa_round = None, pa_payment = None, pa_memo = None, pa_by = ''system''\<rparr>"

definition fund :: "int \<Rightarrow> db \<Rightarrow> db" where
  "fund u d = (let (a, d1) = db_account (Some u) ''user_cash'' d; (b, d2) = db_account None ''cash_clearing'' d1
     in case db_post 0 (fund_args u (acc_id a) (acc_id b)) d2 of Inl _ \<Rightarrow> d2 | Inr (_, d3) \<Rightarrow> d3)"

definition demo_empty :: db where
  "demo_empty = empty_db\<lparr>users := [demo_user 7, demo_user 8], rooms := [demo_room_row],
     cards := (\<lambda>c. if c = 1 \<or> c = 2 then Some demo_card else None)\<rparr>"

definition demo_funded :: db where
  "demo_funded = fund 8 (fund 7 demo_empty)"

definition demo_open :: "string \<Rightarrow> db" where
  "demo_open h = demo_funded\<lparr>rounds := [new_round_row 0 demo_room h demo_funded]\<rparr>"

definition demo_idle :: engine where
  "demo_idle = (new_engine demo_room (load_card_pool demo_funded))\<lparr>e_lock_held := True\<rparr>"

definition demo_lobby :: "string \<Rightarrow> engine" where
  "demo_lobby h = demo_idle\<lparr>e_round_id := Some 1, e_seq := 1, e_status := ''lobby'', e_server_seed := Some [],
     e_server_seed_hash := Some h, e_lobby_deadline := 30, e_rooms_active := 1, e_round_active := True\<rparr>"

definition demo_join :: "int \<Rightarrow> int \<Rightarrow> command" where
  "demo_join u c = \<lparr>cmd_action = ''join'', cmd_user = u, cmd_card = c, cmd_auto_mark = True, cmd_auto = False\<rparr>"

definition demo_one :: "string \<Rightarrow> engine \<times> db" where
  "demo_one h = snd (handle_command 1 1 [] (demo_join 7 1) (demo_lobby h) (demo_open h))"

definition demo_two :: "string \<Rightarrow> engine \<times> db" where
  "demo_two h = snd (handle_command 2 2 [] (demo_join 8 2) (fst (demo_one h)) (snd (demo_one h)))"

definition demo_hash :: string where
  "demo_hash = hexdigest (sha256 [])"

lemma fund_elsewhere:
  assumes ok: "ledger_ok (led d)" and fresh: "''deposit:'' @ str_int u \<notin> tkeys (led d)"
    and rooms: "\<forall>i room. load_room_config d i = Inr room \<longrightarrow> room_ok room"
  shows "elsewhere d (fund u d)" "tkeys (led (fund u d)) \<subseteq> insert (''deposit:'' @ str_int u) (tkeys (led d))"
    "ledger_ok (led (fund u d))" "rounds (fund u d) = rounds d" "rooms (fund u d) = rooms d" "cards (fund u d) = cards d"
proof -
  obtain a d1 where a: "db_account (Some u) ''user_cash'' d = (a, d1)" by fastforce
  obtain b d2 where b: "db_account None ''cash_clearing'' d1 = (b, d2)" by fastforce
  note g1 = dbw.get_account_spec [where ow = "cash_owner u", simplified, OF a ok]
  note g2 = dbw.get_account_spec [where ow = "(None, ''cash_clearing'')", simplified, OF b g1(1)]
  let ?p = "fund_args u (acc_id a) (acc_id b)" and ?ms = "[((None, ''cash_clearing''), - 100), (cash_owner u, 100)] :: (owner \<times> money) list"
  have es: "entries_for (led d2) ?ms (pa_entries ?p)" using g1(4) g2(4,6) by (simp add: entries_for_def fund_args_def)
  have whole: "\<forall>m\<in>set ?ms. whole_cents (snd m)" by simp
  have sum: "sum_list (map snd ?ms) = 0" by simp
  have fr: "pa_key ?p \<notin> tkeys (led d2)" using fresh g1(3) g2(3) by (simp add: fund_args_def)
  have t: "d1 = d\<lparr>led := led d1\<rparr>" "d2 = d1\<lparr>led := led d2\<rparr>" using db_account_tables a b by blast+
  have tab: "d2 = d\<lparr>led := led d2\<rparr>" by (subst t(2), subst t(1)) simp
  have foreign: "''deposit:'' @ str_int u \<notin> round_keys i" for i
    by (auto simp: round_keys_def settle_key_def stake_key_def drop_key_def refund_key_def)
  have pot: "obal (led d2) pot_owner = obal (led d) pot_owner" using g1(2) g2(2) by simp
  have "elsewhere d (fund u d) \<and> tkeys (led (fund u d)) \<subseteq> insert (''deposit:'' @ str_int u) (tkeys (led d))
    \<and> ledger_ok (led (fund u d)) \<and> (\<exists>l. fund u d = d\<lparr>led := l\<rparr>)"
  proof (cases "db_post 0 ?p d2")
    case (Inl x)
    have f: "fund u d = d2" by (simp add: fund_def a b Inl)
    have f': "fund u d = d\<lparr>led := led d2\<rparr>" by (subst f, subst tab) simp
    show ?thesis
      unfolding f' using g1(3) g2(1,3) pot rooms
      by (auto simp: elsewhere_def user_by_id_def load_room_config_def room_by_id_def)
  next
    case (Inr r)
    then obtain x d3 where p: "db_post 0 ?p d2 = Inr (x, d3)" by (cases r) simp
    note pp = db_post_posted [OF g2(1) es whole sum fr p]
    have f: "fund u d = d3" by (simp add: fund_def a b p)
    have "d3 = d2\<lparr>led := led d3\<rparr>" by (rule db_post_tables [OF p])
    then have f': "fund u d = d\<lparr>led := led d3\<rparr>" unfolding f by (subst (asm) tab) simp
    have k: "tkeys (led d3) = insert (''deposit:'' @ str_int u) (tkeys (led d))"
      using pp(3) g1(3) g2(3) by (simp add: fund_args_def)
    have "obal (led d3) pot_owner = obal (led d) pot_owner" using pp(2) pot by simp
    then show ?thesis
      unfolding f' using pp(1) k rooms foreign
      by (auto simp: elsewhere_def user_by_id_def load_room_config_def room_by_id_def)
  qed
  then show "elsewhere d (fund u d)" "tkeys (led (fund u d)) \<subseteq> insert (''deposit:'' @ str_int u) (tkeys (led d))"
    "ledger_ok (led (fund u d))" "rounds (fund u d) = rounds d" "rooms (fund u d) = rooms d" "cards (fund u d) = cards d"
    by auto
qed

lemma demo_room_config: "load_room_config demo_empty i = (if i = 1 then Inr demo_room else Inl ValueError)"
  by (simp add: load_room_config_def room_by_id_def demo_empty_def demo_room_row_def demo_room_def)

lemma demo_room_ok: "room_ok demo_room"
  by (simp add: room_ok_def demo_room_def)

lemma demo_initial: "bingo_initial demo_empty"
proof -
  have l: "led demo_empty = empty_ledger" by (simp add: demo_empty_def empty_db_def)
  have "obal empty_ledger pot_owner = 0" "tkeys empty_ledger = {}"
    by (simp_all add: obal_def acct_of_def find_account_def empty_ledger_def tkeys_def)
  then show ?thesis
    using demo_room_ok
    by (auto simp: bingo_initial_def demo_room_config l ledger_ok_empty POOL_SIZE_def split: if_splits)
      (auto simp: demo_empty_def empty_db_def POOL_SIZE_def split: if_splits)
qed

lemma demo_funded_reachable: "bingo_reachable ([], demo_funded)" "load_room_config demo_funded 1 = Inr demo_room"
proof -
  have r: "\<forall>i room. load_room_config demo_empty i = Inr room \<longrightarrow> room_ok room"
    using demo_room_ok by (auto simp: demo_room_config split: if_splits)
  have "led demo_empty = empty_ledger" by (simp add: demo_empty_def empty_db_def)
  then have l: "ledger_ok (led demo_empty)" "tkeys (led demo_empty) = {}"
    using ledger_ok_empty by (simp_all add: tkeys_def) (simp add: empty_ledger_def)
  note f7 = fund_elsewhere [of demo_empty 7, OF l(1) _ r]
  have k7: "''deposit:'' @ str_int 7 \<notin> tkeys (led demo_empty)" by (simp add: l)
  note f7 = f7 [OF k7]
  have r7: "\<forall>i room. load_room_config (fund 7 demo_empty) i = Inr room \<longrightarrow> room_ok room"
    using f7(1) by (simp add: elsewhere_def)
  have k8: "''deposit:'' @ str_int 8 \<notin> tkeys (led (fund 7 demo_empty))" using f7(2) by (auto simp: l str_int_inj)
  note f8 = fund_elsewhere [of "fund 7 demo_empty" 8, OF f7(3) k8 r7]
  have "bingo_reachable ([], fund 7 demo_empty)"
    by (rule reach_step [OF reach_init [OF demo_initial] sys_elsewhere [OF f7(1)]])
  then show "bingo_reachable ([], demo_funded)"
    unfolding demo_funded_def by (rule reach_step) (rule sys_elsewhere [OF f8(1)])
  show "load_room_config demo_funded 1 = Inr demo_room"
    using demo_room_config [of 1] f7(5) f8(5) by (simp add: load_room_config_def room_by_id_def demo_funded_def)
qed

lemma demo_start: "ensure_round 0 0 [] demo_idle demo_funded = (Inr (), demo_lobby demo_hash, demo_open demo_hash)"
proof -
  have r: "rounds demo_funded = []" by code_simp
  have "room_by_id demo_funded 1 \<noteq> None"
    using demo_funded_reachable(2) by (auto simp: load_room_config_def split: option.splits)
  then show ?thesis
    by (simp add: ensure_round_def start_new_round_def demo_idle_def demo_lobby_def demo_open_def new_engine_def Let_def
        demo_room_def set_status_def new_round_row_def next_seq_def r demo_hash_def)
qed

lemma demo_reachable:
  "bingo_reachable ([demo_lobby demo_hash], demo_open demo_hash)"
  "bingo_reachable ([fst (demo_one demo_hash)], snd (demo_one demo_hash))"
  "bingo_reachable ([fst (demo_two demo_hash)], snd (demo_two demo_hash))"
proof -
  have step: "bingo_reachable ([e'], d')" if "bingo_reachable ([e], d)" "engine_step e d e' d'" for e d e' d'
    using reach_step [OF that(1)] sys_engine [OF that(2), of "[]" "[]"] by simp
  have "bingo_reachable ([demo_idle], demo_funded)"
    using reach_step [OF demo_funded_reachable(1) sys_claim_room [OF demo_funded_reachable(2)]] by (simp add: demo_idle_def)
  then show 1: "bingo_reachable ([demo_lobby demo_hash], demo_open demo_hash)"
    by (rule step, intro step_idle [OF _ _ _ _ demo_start]) (simp_all add: demo_idle_def new_engine_def)
  show 2: "bingo_reachable ([fst (demo_one demo_hash)], snd (demo_one demo_hash))"
    by (rule step [OF 1], rule step_command [of 1 1 "[]" "demo_join 7 1" _ _ "fst (handle_command 1 1 [] (demo_join 7 1) (demo_lobby demo_hash) (demo_open demo_hash))"])
      (simp add: demo_one_def)
  show "bingo_reachable ([fst (demo_two demo_hash)], snd (demo_two demo_hash))"
    by (rule step [OF 2], rule step_command [of 2 2 "[]" "demo_join 8 2" _ _ "fst (handle_command 2 2 [] (demo_join 8 2) (fst (demo_one demo_hash)) (snd (demo_one demo_hash)))"])
      (simp add: demo_two_def)
qed

lemma demo_two_facts:
  "obal (led (snd (demo_two h))) pot_owner = 20" "obal (led (snd (demo_two h))) (cash_owner 7) = 90"
  "map fst (e_entries (fst (demo_two h))) = [(7, 1), (8, 2)]" "e_status (fst (demo_two h)) = ''lobby''"
  "e_round_id (fst (demo_two h)) = Some 1" "round_status (snd (demo_two h)) 1 = Some ''lobby''"
  by code_simp+

lemma demo_entries:
  "length (entries_of (snd (demo_two h)) 1) = 2 \<and> cards_held (snd (demo_two h)) 1 7 = 1
   \<and> map_option rd_stake (round_by_id (snd (demo_two h)) 1) = Some 10"
  by code_simp

lemma demo_one_accepted: "fst (join 1 1 [] 7 1 True (demo_lobby h) (demo_open h)) = Inr accepted"
  by code_simp

lemma demo_drop_accepted: "fst (drop_card 5 7 1 (fst (demo_one h)) (snd (demo_one h))) = Inr accepted"
  by code_simp

text \<open>
  The same round further on: the running engine has called the first row of card 1; the numbers are put in by hand, since
  deriving a draw would have to evaluate HMAC-SHA256.
\<close>

definition demo_playing :: "string \<Rightarrow> db" where
  "demo_playing h = (case mark_running 3 1 [] [1, 16, 31, 46, 61] (snd (demo_two h)) of None \<Rightarrow> snd (demo_two h) | Some d \<Rightarrow> d)"

definition demo_running :: "string \<Rightarrow> engine" where
  "demo_running h = (set_status ''running'' (fst (demo_two h)))\<lparr>e_draw_order := [1, 16, 31, 46, 61],
     e_called := {1, 16, 31, 46, 61}, e_call_index := 5\<rparr>"

definition demo_settling :: "string \<Rightarrow> engine" where
  "demo_settling h = snd (claim_register 9 7 1 1 [] (demo_running h))"

lemma demo_claim_accepted: "fst (claim 9 7 1 ''manual'' (demo_running h) (snd (demo_two h))) = Inr accepted"
  by code_simp

lemma demo_running_mem: "mem_ok (fst (demo_two h)) \<Longrightarrow> mem_ok (demo_running h)"
proof -
  assume m: "mem_ok (fst (demo_two h))"
  have "mem_ok (set_status ''running'' (fst (demo_two h)))"
    by (rule set_status_ok [OF m]) (simp_all add: demo_two_facts(4))
  then show ?thesis by (rule same_memory_ok(1) [rotated]) (simp add: same_memory_def demo_running_def)
qed

lemma demo_playing_round:
  "mark_running 3 1 [] [1, 16, 31, 46, 61] (snd (demo_two h)) \<noteq> None"
  "round_status (demo_playing h) 1 = Some ''running'' \<and> map_option rd_pot (round_by_id (demo_playing h) 1) = Some 20"
  "obal (led (demo_playing h)) (cash_owner 7) = 90 \<and> obal (led (demo_playing h)) pot_owner = 20"
  by code_simp+

lemma demo_settling_facts:
  "e_round_id (demo_settling h) = Some 1 \<and> e_status (demo_settling h) = ''settling''
   \<and> map pw_user (e_pending (demo_settling h)) = [7] \<and> rc_house_cut_bps (e_room (demo_settling h)) = 2000"
  by code_simp

lemma demo_settling_ok:
  assumes "system_ok ([fst (demo_two h)], snd (demo_two h))"
  shows "system_ok ([demo_settling h], demo_playing h)"
proof -
  let ?e = "fst (demo_two h)" and ?d = "snd (demo_two h)"
  have ok: "bingo_ok ?d" and mem: "mem_ok ?e" and link: "link_ok ?d ?e" using assms by (simp_all add: system_ok_def)
  obtain d1 where d1: "mark_running 3 1 [] [1, 16, 31, 46, 61] ?d = Some d1" using demo_playing_round(1) [of h] by auto
  have play: "demo_playing h = d1" by (simp add: demo_playing_def d1)
  note m = mark_running_ok [OF ok d1]
  have l: "link_ok d1 (demo_running h)"
    by (rule started_link [OF ok link demo_two_facts(5) d1]) (simp_all add: demo_running_def demo_two_facts(5) held_def)
  note mr = demo_running_mem [OF mem]
  have "(7, 1) \<in> held ?e" by (simp only: held_def flip: set_map) (simp add: demo_two_facts(3))
  then have h: "(7, 1) \<in> held (demo_running h)" by (simp add: demo_running_def held_def)
  obtain r e' where reg: "claim_register 9 7 1 1 [] (demo_running h) = (r, e')" by fastforce
  note c = claim_register_ok [OF mr l h reg]
  show ?thesis using c(1,2) m(1) by (simp add: system_ok_def play demo_settling_def reg)
qed

end
