(* ===== verification/Game_Safety.thy ===== *)
theory Game_Safety
  imports Bingo_Demo
begin

text \<open>
  What the invariant of the bingo system means for money and players: properties of every reachable
  state of any number of engines over one database, and of every operation in such a state.
\<close>

lemma reachable_parts:
  assumes "bingo_reachable (es, d)"
  shows "bingo_ok d" "\<And>e. e \<in> set es \<Longrightarrow> mem_ok e" "\<And>e. e \<in> set es \<Longrightarrow> link_ok d e"
  using reachable_ok [OF assms] by (auto simp: system_ok_def)

subsection \<open>Escrow\<close>

text \<open>C1. The money in the pot escrow account is at every moment exactly the stakes of the cards held in rounds that are
  neither settled nor voided: no stake is lost, none is counted twice, whatever the interleaving of engines,
  crashes, recovery and the rest of the platform; and the pot column of each such round is its own share of it.\<close>

theorem escrow_is_live_stakes:
  assumes "bingo_reachable (es, d)"
  shows "obal (led d) (None, ''pot_escrow'') =
      sum_list (map (\<lambda>r. if rd_status r \<in> TERMINAL_STATUSES then 0
         else of_nat (length (entries_of d (rd_id r))) * rd_stake r) (rounds d))
    \<and> (\<forall>r\<in>set (rounds d). rd_status r \<notin> TERMINAL_STATUSES \<longrightarrow>
         rd_pot r = of_nat (length (entries_of d (rd_id r))) * rd_stake r)"
proof -
  note ok = reachable_parts(1) [OF assms]
  have bk: "book_ok (tkeys (led d)) (rounds_view d) (cards_view d)" and esc: "obal (led d) pot_owner = escrow (rounds_view d)"
    using ok by (simp_all add: bingo_ok_def)
  have pot: "rd_pot r = of_nat (length (entries_of d (rd_id r))) * rd_stake r"
    if r: "r \<in> set (rounds d)" "rd_status r \<notin> TERMINAL_STATUSES" for r
  proof -
    have "abs_round r \<in> set (rounds_view d)" using r by (simp add: rounds_view_def)
    then have "bround_ok (tkeys (led d)) (cards_view d) (abs_round r)" using bk by (simp add: book_ok_def)
    then show ?thesis using r(2) by (simp add: bround_ok_def live_def abs_round_def entries_sold)
  qed
  have "escrow (rounds_view d) = sum_list (map (\<lambda>r. if rd_status r \<in> TERMINAL_STATUSES then 0
         else of_nat (length (entries_of d (rd_id r))) * rd_stake r) (rounds d))"
    unfolding escrow_def rounds_view_def map_map
    by (intro arg_cong [where f = sum_list] map_cong) (auto simp: live_def abs_round_def pot)
  then show ?thesis using esc pot by simp
qed

theorem escrow_is_live_stakes_witness:
  "obal (led (snd (demo_two demo_hash))) (None, ''pot_escrow'') = 20
   \<and> sum_list (map (\<lambda>r. if rd_status r \<in> TERMINAL_STATUSES then 0
         else of_nat (length (entries_of (snd (demo_two demo_hash)) (rd_id r))) * rd_stake r)
       (rounds (snd (demo_two demo_hash)))) = 20"
  using escrow_is_live_stakes [OF demo_reachable(3)] demo_two_facts(1) by simp

text \<open>C10. A round is paid out or given back, never both: once the ledger holds the settlement of a round it holds no
  refund of any card of that round, the round is done; once it holds a refund the round is voided.\<close>

theorem settled_or_refunded:
  assumes "bingo_reachable (es, d)" "r \<in> set (rounds d)"
  shows "(settle_key (rd_id r) \<in> tkeys (led d) \<longrightarrow>
       rd_status r = ''done'' \<and> (\<forall>u c. refund_key (rd_id r) u c \<notin> tkeys (led d)))
    \<and> (\<forall>u c. refund_key (rd_id r) u c \<in> tkeys (led d) \<longrightarrow>
         rd_status r = ''voided'' \<and> settle_key (rd_id r) \<notin> tkeys (led d))"
proof -
  have "abs_round r \<in> set (rounds_view d)" using assms(2) by (simp add: rounds_view_def)
  then have "bround_ok (tkeys (led d)) (cards_view d) (abs_round r)"
    using reachable_parts(1) [OF assms(1)] by (simp add: bingo_ok_def book_ok_def)
  then show ?thesis by (auto simp: bround_ok_def abs_round_def)
qed

theorem settled_or_refunded_witness:
  "\<exists>r. r \<in> set (rounds (snd (demo_two demo_hash))) \<and> settle_key (rd_id r) \<notin> tkeys (led (snd (demo_two demo_hash)))"
proof -
  obtain r where r: "round_by_id (snd (demo_two demo_hash)) 1 = Some r" "rd_status r = ''lobby''"
    using demo_two_facts(6) [of demo_hash] by (auto simp: round_status_def)
  then have "r \<in> set (rounds (snd (demo_two demo_hash)))" by (auto dest: round_by_id_in)
  with settled_or_refunded [OF demo_reachable(3) this] r(2) show ?thesis by force
qed

subsection \<open>Giving a round back\<close>

text \<open>C22. Any round that is neither settled nor voided can be given back at any reachable moment, by recovery after a
  crash or by an engine: the refund returns, voids the round, pays every user one stake per card held
  and takes exactly the round's pot out of escrow. Giving it back a second time returns 0 and changes nothing.\<close>

theorem refund_always_possible:
  assumes "bingo_reachable (es, d)" "round_by_id d i = Some r" "rd_status r \<notin> TERMINAL_STATUSES"
  shows "\<exists>d'. refund_round now i reason d = Inr (int (length (entries_of d i)), d')
    \<and> round_status d' i = Some ''voided''
    \<and> (\<forall>u. obal (led d') (Some u, ''user_cash'') = obal (led d) (Some u, ''user_cash'') + of_nat (cards_held d i u) * rd_stake r)
    \<and> obal (led d') (None, ''pot_escrow'') = obal (led d) (None, ''pot_escrow'') - rd_pot r
    \<and> refund_round later i reason' d' = Inr (0, d')"
proof -
  note ok = reachable_parts(1) [OF assms(1)]
  obtain d' where d': "refund_round_in_transaction now i reason d = Inr (int (length (entries_of d i)), d')"
    "bingo_ok d'" "rounds_view d' = vupd i (\<lambda>x. x\<lparr>b_status := ''voided''\<rparr>) (rounds_view d)"
    "\<forall>u. obal (led d') (cash_owner u) = obal (led d) (cash_owner u) + of_nat (cards_held d i u) * rd_stake r"
    "obal (led d') pot_owner = obal (led d) pot_owner - rd_pot r"
    using void_live [OF ok assms(2,3), of now reason] by blast
  have lok: "ledger_ok (led d')" using d'(2) by (simp add: bingo_ok_def)
  have "abs_round r\<lparr>b_status := ''voided''\<rparr> \<in> set (rounds_view d')"
    unfolding d'(3) vupd_set using view_round [OF assms(2)] by auto
  moreover have "book_ok (tkeys (led d')) (rounds_view d') (cards_view d')" using d'(2) by (simp add: bingo_ok_def)
  ultimately obtain r' where r': "round_by_id d' i = Some r'" "abs_round r' = abs_round r\<lparr>b_status := ''voided''\<rparr>"
    using view_round [OF assms(2)] by (auto elim: round_of_view)
  then have v: "rd_status r' = ''voided''" by (simp add: abs_round_def)
  have again: "refund_round_in_transaction later i reason' d' = Inr (0, d')"
    by (rule refund_round_terminal [of d' i r']) (use r'(1) v in \<open>simp add: TERMINAL_STATUSES_def\<close>)
  have "refund_round now i reason d = Inr (int (length (entries_of d i)), d')"
    by (simp add: refund_round_def d'(1) db_commit_ok [OF lok])
  moreover have "refund_round later i reason' d' = Inr (0, d')"
    by (simp add: refund_round_def again db_commit_ok [OF lok])
  moreover have "round_status d' i = Some ''voided''" using r'(1) v by (simp add: round_status_def)
  ultimately show ?thesis using d'(4,5) by blast
qed

theorem refund_always_possible_witness:
  "\<exists>d'. refund_round 9 1 ''crash_recovery'' (snd (demo_two demo_hash)) = Inr (2, d')
     \<and> obal (led d') (Some 7, ''user_cash'') = 100 \<and> refund_round 9 1 ''again'' d' = Inr (0, d')"
proof -
  let ?d = "snd (demo_two demo_hash)"
  obtain r where r: "round_by_id ?d 1 = Some r" "rd_status r = ''lobby''"
    using demo_two_facts(6) [of demo_hash] by (auto simp: round_status_def)
  have "length (entries_of ?d 1) = 2 \<and> cards_held ?d 1 7 = 1 \<and> map_option rd_stake (round_by_id ?d 1) = Some 10"
    using demo_entries by blast
  moreover have "rd_status r \<notin> TERMINAL_STATUSES" using r(2) by (simp add: TERMINAL_STATUSES_def)
  ultimately show ?thesis
    using refund_always_possible [OF demo_reachable(3) r(1), of 9 "''crash_recovery''" 9 "''again''"]
      demo_two_facts(2) [of demo_hash] r(1) by auto
qed

subsection \<open>Taking and dropping a card\<close>

lemma ensure_round_frame:
  assumes "ensure_round now clk seed e d = (r, e1, d1)"
  shows "d1 = d\<lparr>rounds := rounds d1\<rparr>" "e_room e1 = e_room e"
  using assms by (auto simp: ensure_round_def start_new_round_def Let_def split: if_splits)

lemma accepted_not_rejected [simp]: "accepted \<noteq> rejected x" "rejected x \<noteq> accepted"
  by (simp_all add: accepted_def rejected_def)

lemma join_parts:
  assumes "join now clk seed u c auto e d = (Inr accepted, e', d')"
  obtains e1 d1 i where "ensure_round now clk seed e d = (Inr (), e1, d1)" "e_round_id e1 = Some i"
    "join_refusal e1 u c = None" "join_txn now (rc_stake (e_room e)) i u c auto d1 = Inr (None, d')"
    "e' = join_remember d' u c auto e1" "d1 = d\<lparr>rounds := rounds d1\<rparr>" "e_room e1 = e_room e"
proof -
  obtain r1 e1 d1 where en: "ensure_round now clk seed e d = (r1, e1, d1)" by (metis prod_cases3)
  note fr = ensure_round_frame [OF en]
  have r1: "r1 = Inr ()" using assms by (auto simp: join_def en split: sum.splits)
  have ref: "join_refusal e1 u c = None" using assms by (auto simp: join_def en r1 split: option.splits)
  obtain i where i: "e_round_id e1 = Some i" using assms by (auto simp: join_def en r1 ref split: option.splits)
  have "join_txn now (rc_stake (e_room e)) i u c auto d1 = Inr (None, d') \<and> e' = join_remember d' u c auto e1"
    using assms by (auto simp: join_def en r1 ref i fr(2) split: sum.splits exc.splits option.splits prod.splits)
  with en r1 i ref fr show thesis by (intro that [of e1 d1 i]) simp_all
qed

lemma stake_check_rounds: "check_stake_allowed now (d\<lparr>rounds := rs\<rparr>) u s = check_stake_allowed now d u s"
proof -
  let ?d = "d\<lparr>rounds := rs\<rparr>"
  have f: "led ?d = led d" "keno_tickets ?d = keno_tickets d" "rg_limits ?d = rg_limits d" "users ?d = users d" by simp_all
  show ?thesis
    unfolding check_stake_allowed_def play_row_def user_by_id_def today_net_loss_def loss_rows_def
      returns_a_stake_from_today_def f ..
qed

lemma join_effect:
  assumes ok: "bingo_ok d" and mem: "mem_ok e" and link: "link_ok d e"
    and run: "join now clk seed u c auto e d = (Inr accepted, e', d')"
  obtains i x where "e_round_id e' = Some i" "e_status e' = ''lobby''" "round_status d' i = Some ''lobby''" "(u, c) \<in> held e'"
    "x \<in> set (round_entries d')" "en_round x = i" "en_card x = c" "en_user x = u"
    "obal (led d') = (obal (led d))(cash_owner u := obal (led d) (cash_owner u) - rc_stake (e_room e),
       pot_owner := obal (led d) pot_owner + rc_stake (e_room e))"
    "tkeys (led d') = insert (stake_key i u c) (tkeys (led d))" "stake_key i u c \<notin> tkeys (led d)"
    "\<not> blocked (check_stake_allowed now d u (rc_stake (e_room e)))" "user_by_id d u \<noteq> None" "ledger_ok (led d')"
    "e_room e' = e_room e"
proof -
  obtain e1 d1 i where p: "ensure_round now clk seed e d = (Inr (), e1, d1)" "e_round_id e1 = Some i"
      "join_refusal e1 u c = None" "join_txn now (rc_stake (e_room e)) i u c auto d1 = Inr (None, d')"
      "e' = join_remember d' u c auto e1" "d1 = d\<lparr>rounds := rounds d1\<rparr>" "e_room e1 = e_room e"
    using join_parts [OF run] .
  note q = progress_parts [OF ensure_round_ok [OF ok mem link p(1)]]
  have g: "e_status e1 = ''lobby''" "(u, c) \<notin> e_dropped e1" using p(3) by (auto simp: join_refusal_def split: if_splits)
  have room: "whole_cents (rc_stake (e_room e))" using mem by (simp add: mem_ok_def room_ok_def)
  have lok: "ledger_ok (led d1)" using q(1) by (simp add: bingo_ok_def)
  have fresh: "stake_key i u c \<notin> tkeys (led d1)"
    by (rule join_txn_fresh [OF q(3) p(2) g join_txn_pk [OF p(4)]])
  have same: "led d1 = led d" "users d1 = users d" by (subst p(6), simp)+
  have chk: "check_stake_allowed now d1 u (rc_stake (e_room e)) = check_stake_allowed now d u (rc_stake (e_room e))"
    by (subst p(6)) (rule stake_check_rounds)
  let ?s = "rc_stake (e_room e)"
  obtain r t where r: "round_by_id d1 i = Some r" "rd_status r = ''lobby''"
    "\<not> blocked (check_stake_allowed now d1 u ?s)" "user_by_id d1 u \<noteq> None"
    and d': "d' = (update_round i (\<lambda>r'. r'\<lparr>rd_pot := numeric2 (rd_pot r + ?s), rd_player_count := rd_player_count r' + 1\<rparr>) d1)
         \<lparr>round_entries := round_entries d1 @ [\<lparr>en_round = i, en_card = c, en_user = u, en_auto = auto, en_stake_txn = Some t\<rparr>],
          led := led d'\<rparr>"
    and l': "ledger_ok (led d')" "tkeys (led d') = insert (stake_key i u c) (tkeys (led d1))"
      "obal (led d') = (obal (led d1))(cash_owner u := obal (led d1) (cash_owner u) - ?s, pot_owner := obal (led d1) pot_owner + ?s)"
    using join_txn_effect [OF lok room fresh p(4)] by blast
  let ?x = "\<lparr>en_round = i, en_card = c, en_user = u, en_auto = auto, en_stake_txn = Some t\<rparr>"
  have x: "?x \<in> set (round_entries d')" by (subst d') simp
  have st: "round_status d' i = Some ''lobby''"
  proof -
    have "rounds d' = rounds (update_round i (\<lambda>r'. r'\<lparr>rd_pot := numeric2 (rd_pot r + ?s), rd_player_count := rd_player_count r' + 1\<rparr>) d1)"
      by (subst d') simp
    then have "round_by_id d' i = round_by_id (update_round i (\<lambda>r'. r'\<lparr>rd_pot := numeric2 (rd_pot r + ?s), rd_player_count := rd_player_count r' + 1\<rparr>) d1) i"
      by (simp add: round_by_id_def)
    then show ?thesis using r(1,2) by (simp add: round_by_id_update round_status_def)
  qed
  have h: "(u, c) \<in> held e'" "e_round_id e' = Some i" "e_status e' = ''lobby''" "e_room e' = e_room e"
    using p(2,5,7) g(1) by (simp_all add: join_remember_def held_def publish_balance_update_def dom_update)
  show thesis
    by (rule that [OF h(2,3) st h(1) x])
      (use l' r(3,4) fresh same chk h(4) in \<open>simp_all add: user_by_id_def\<close>)
qed

text \<open>C12. What an accepted join means: the round it names is still in its lobby, the card is recorded for the user in
  the database and in the engine's memory, exactly one stake moved from the user's cash to escrow under a new
  key, the user could pay it, was neither excluded nor cooling off, and stays within the daily loss cap
  in force.\<close>

theorem join_accepted:
  assumes "bingo_reachable (es, d)" "e \<in> set es" "join now clk seed u c auto e d = (Inr accepted, e', d')"
  shows "\<exists>i. e_round_id e' = Some i \<and> round_status d' i = Some ''lobby'' \<and> (u, c) \<in> held e'
    \<and> (\<exists>x\<in>set (round_entries d'). en_round x = i \<and> en_card x = c \<and> en_user x = u)
    \<and> stake_key i u c \<notin> tkeys (led d) \<and> tkeys (led d') = insert (stake_key i u c) (tkeys (led d))
    \<and> obal (led d') = (obal (led d))((Some u, ''user_cash'') := obal (led d) (Some u, ''user_cash'') - rc_stake (e_room e),
         (None, ''pot_escrow'') := obal (led d) (None, ''pot_escrow'') + rc_stake (e_room e))
    \<and> rc_stake (e_room e) \<le> obal (led d) (Some u, ''user_cash'')
    \<and> \<not> blocked (check_play_allowed now d u)
    \<and> (\<forall>cap. loss_cap_at d u now = Some cap \<longrightarrow> today_net_loss now d u + rc_stake (e_room e) \<le> cap)"
proof -
  note r = reachable_parts(1) [OF assms(1)] reachable_parts(2,3) [OF assms(1,2)]
  let ?s = "rc_stake (e_room e)"
  obtain i x where j: "e_round_id e' = Some i" "round_status d' i = Some ''lobby''" "(u, c) \<in> held e'"
    "x \<in> set (round_entries d')" "en_round x = i" "en_card x = c" "en_user x = u"
    "obal (led d') = (obal (led d))(cash_owner u := obal (led d) (cash_owner u) - ?s, pot_owner := obal (led d) pot_owner + ?s)"
    "tkeys (led d') = insert (stake_key i u c) (tkeys (led d))" "stake_key i u c \<notin> tkeys (led d)"
    "\<not> blocked (check_stake_allowed now d u ?s)" "user_by_id d u \<noteq> None" "ledger_ok (led d')"
    using join_effect [OF r assms(3)] by metis
  have "0 \<le> obal (led d') (cash_owner u)" by (rule obal_nonneg [OF j(13)]) (simp add: USER_BALANCE_KINDS_def)
  then have "?s \<le> obal (led d) (cash_owner u)" using j(8) by simp
  moreover have "\<not> blocked (check_play_allowed now d u)"
    using j(11) by (auto simp: check_stake_allowed_def check_play_allowed_def Let_def)
  moreover have "today_net_loss now d u + ?s \<le> cap" if "loss_cap_at d u now = Some cap" for cap
    by (rule stake_allowed_cap [OF j(11,12) that])
  ultimately show ?thesis using j(1-10) by blast
qed

theorem join_accepted_witness:
  "obal (led (snd (demo_one demo_hash))) (Some 7, ''user_cash'') =
     obal (led (demo_open demo_hash)) (Some 7, ''user_cash'') - 10"
proof -
  have a: "fst (join 1 1 [] 7 1 True (demo_lobby h) (demo_open h)) = Inr accepted
      \<and> rc_stake (e_room (demo_lobby h)) = 10" for h
    using demo_one_accepted [of h] by (simp add: demo_lobby_def demo_idle_def new_engine_def demo_room_def)
  obtain e' d' where j: "join 1 1 [] 7 1 True (demo_lobby demo_hash) (demo_open demo_hash) = (Inr accepted, e', d')"
    using a [of demo_hash] by (metis prod.collapse)
  then have "demo_one demo_hash = (e', d')"
    by (simp add: demo_one_def handle_command_def dispatch_def demo_join_def)
  then show ?thesis
    using join_accepted [OF demo_reachable(1) _ j] a [of demo_hash] by auto
qed

text \<open>C24. Dropping a card undoes taking it: the money of everyone is what it was before, the engine no longer holds
  the card, and taking it again in this round is refused.\<close>

theorem drop_undoes_join:
  assumes "bingo_reachable (es, d)" "e \<in> set es" "join now clk seed u c auto e d = (Inr accepted, e1, d1)"
    and "drop_card later u c e1 d1 = (Inr accepted, e2, d2)"
  shows "obal (led d2) = obal (led d) \<and> (u, c) \<notin> held e2 \<and> e_pot e2 = e_pot e1 - rc_stake (e_room e)
    \<and> join_refusal e2 u c \<in> {Some ''card_already_dropped'', Some ''invalid_card''}"
proof -
  note r = reachable_parts(1) [OF assms(1)] reachable_parts(2,3) [OF assms(1,2)]
  note p1 = join_ok [OF r assms(3)]
  note q = progress_parts [OF p1]
  let ?s = "rc_stake (e_room e)"
  obtain i where j: "e_round_id e1 = Some i" "e_status e1 = ''lobby''" "(u, c) \<in> held e1" "e_room e1 = e_room e"
    "obal (led d1) = (obal (led d))(cash_owner u := obal (led d) (cash_owner u) - ?s, pot_owner := obal (led d) pot_owner + ?s)"
    using join_effect [OF r assms(3)] by metis
  obtain entry where en: "map_of (e_entries e1) (u, c) = Some entry"
    using assms(4) by (auto simp: drop_card_def split: if_splits option.splits)
  have drop: "drop_txn later ?s i u c d1 = Inr (None, d2) \<and> e2 = drop_remember d2 u c e1"
    using assms(4) by (auto simp: drop_card_def j(1,2,4) en split: sum.splits option.splits prod.splits)
  have lok: "ledger_ok (led d1)" using q(1) by (simp add: bingo_ok_def)
  have room: "whole_cents ?s" "0 < ?s" "?s < 10 ^ 16" using r(2) by (simp_all add: mem_ok_def room_ok_def)
  have nd: "(u, c) \<notin> e_dropped e1" using q(2) j(3) by (auto simp: mem_ok_def)
  then have fresh: "drop_key i u c \<notin> tkeys (led d1)" using q(3) j(1,2) unfolding link_ok_def by blast
  obtain rr where rr: "round_by_id d1 i = Some rr" "rd_status rr = ''lobby''"
      "obal (led d2) = (obal (led d1))(pot_owner := obal (led d1) pot_owner - ?s, cash_owner u := obal (led d1) (cash_owner u) + ?s)"
    using drop_txn_effect [OF lok room(1) fresh] drop by blast
  have m: "obal (led d2) = obal (led d)" by (rule ext) (simp add: rr(3) j(5))
  have tm: "rd_status rr \<notin> TERMINAL_STATUSES" using rr(2) by (simp add: TERMINAL_STATUSES_def)
  note lr = live_round [OF q(1,3) j(1) rr(1) tm]
  have "dsub (e_pot e1) ?s = e_pot e1 - ?s"
    by (rule dsub_cents) (use lr(2-4) room in auto)
  then show ?thesis
    using drop m j(2,4)
    by (auto simp: drop_remember_def publish_balance_update_def held_def AList.delete_eq join_refusal_def split: if_splits)
qed

theorem drop_undoes_join_witness:
  "\<exists>e2 d2. drop_card 5 7 1 (fst (demo_one demo_hash)) (snd (demo_one demo_hash)) = (Inr accepted, e2, d2)
     \<and> obal (led d2) = obal (led (demo_open demo_hash))"
proof -
  obtain e1 d1 where j: "join 1 1 [] 7 1 True (demo_lobby demo_hash) (demo_open demo_hash) = (Inr accepted, e1, d1)"
    using demo_one_accepted [of demo_hash] by (metis prod.collapse)
  then have o: "demo_one demo_hash = (e1, d1)" by (simp add: demo_one_def handle_command_def dispatch_def demo_join_def)
  obtain e2 d2 where dr: "drop_card 5 7 1 e1 d1 = (Inr accepted, e2, d2)"
    using demo_drop_accepted [of demo_hash] o by (metis fst_conv snd_conv prod.collapse)
  show ?thesis using drop_undoes_join [OF demo_reachable(1) _ j dr] dr o by auto
qed

subsection \<open>Engines and their rounds\<close>

text \<open>C23. The state of the system stays consistent: in every reachable state the ledger keeps its books, every engine
  that is in a round has that round in the database with its own stake, two engines are never in the same round,
  and as long as the round is live the engine's pot and cards are the database's, card by card.\<close>

theorem engines_agree_with_database:
  assumes "bingo_reachable (es, d)"
  shows "ledger_ok (led d) \<and> system_ok (es, d)
    \<and> (\<forall>e\<in>set es. \<forall>i. e_round_id e = Some i \<longrightarrow> (\<exists>r. round_by_id d i = Some r \<and> rd_stake r = rc_stake (e_room e)
         \<and> (rd_status r \<notin> TERMINAL_STATUSES \<longrightarrow> e_pot e = rd_pot r
              \<and> (\<forall>u c. (u, c) \<in> held e \<longleftrightarrow> (\<exists>x\<in>set (round_entries d). en_round x = i \<and> en_card x = c \<and> en_user x = u)))))"
proof -
  have sys: "system_ok (es, d)" by (rule reachable_ok [OF assms])
  note r = reachable_parts [OF assms]
  have lok: "ledger_ok (led d)" using r(1) by (simp add: bingo_ok_def)
  have bk: "book_ok (tkeys (led d)) (rounds_view d) (cards_view d)" using r(1) by (simp add: bingo_ok_def)
  have card: "\<lparr>bc_round = i, bc_card = c, bc_user = u\<rparr> \<in> set (cards_view d) \<longleftrightarrow>
      (\<exists>x\<in>set (round_entries d). en_round x = i \<and> en_card x = c \<and> en_user x = u)" for i c u
    by (auto simp: cards_view_def abs_card_def image_iff)
  have "\<exists>r. round_by_id d i = Some r \<and> rd_stake r = rc_stake (e_room e)
         \<and> (rd_status r \<notin> TERMINAL_STATUSES \<longrightarrow> e_pot e = rd_pot r
              \<and> (\<forall>u c. (u, c) \<in> held e \<longleftrightarrow> (\<exists>x\<in>set (round_entries d). en_round x = i \<and> en_card x = c \<and> en_user x = u)))"
    if e: "e \<in> set es" and i: "e_round_id e = Some i" for e i
  proof -
    obtain b where b: "b \<in> set (rounds_view d)" "b_id b = i" "b_stake b = rc_stake (e_room e)"
      "live b \<longrightarrow> e_pot e = b_pot b
           \<and> (\<forall>u c. (u, c) \<in> held e \<longleftrightarrow> \<lparr>bc_round = i, bc_card = c, bc_user = u\<rparr> \<in> set (cards_view d))"
      using r(3) [OF e] i unfolding link_ok_def by blast
    obtain row where row: "round_by_id d (b_id b) = Some row" "abs_round row = b" by (rule round_of_view [OF bk b(1)])
    then show ?thesis using b(2-4) unfolding card by (intro exI [of _ row]) (auto simp: live_def abs_round_def)
  qed
  then show ?thesis using lok sys by blast
qed

theorem engines_agree_with_database_witness:
  "\<exists>x\<in>set (round_entries (snd (demo_two demo_hash))). en_round x = 1 \<and> en_card x = 2 \<and> en_user x = 8"
proof -
  let ?e = "fst (demo_two demo_hash)"
  have e: "e_round_id ?e = Some 1" "round_status (snd (demo_two demo_hash)) 1 = Some ''lobby''"
    using demo_two_facts(5,6) by blast+
  have h: "(8, 2) \<in> held ?e" by (simp only: held_def flip: set_map) (simp add: demo_two_facts(3))
  have "''lobby'' \<notin> TERMINAL_STATUSES" by (simp add: TERMINAL_STATUSES_def)
  then show ?thesis
    using engines_agree_with_database [OF demo_reachable(3)] e h by (auto simp: round_status_def)
qed

subsection \<open>Claims\<close>

lemma claim_accepted_parts:
  assumes "claim clk u c source e d = (Inr accepted, e', d')" and ck: "claim_check u c source e = (res, e1)"
  shows "\<exists>k won. res = Inr (Inr (k, won)) \<and> claim_register clk u c k won e1 = (accepted, e')"
proof -
  define rec where "rec = (if e_round_id e1 = None then Inr d
     else record_claim_attempt u c (case res of Inr (Inr _) \<Rightarrow> True | _ \<Rightarrow> False) e1 d)"
  show ?thesis
    using assms(1) unfolding claim_def ck Let_def prod.case rec_def [symmetric]
    by (cases rec) (auto split: sum.splits prod.splits)
qed

lemma claim_check_won:
  assumes "claim_check u c source e = (Inr (Inr (k, won)), e1)"
  shows "\<exists>s grid. map_of (e_entries e) (u, c) = Some s \<and> k = es_card_no s \<and> e_card_pool e k = Some grid
    \<and> winning_patterns grid (e_called e) (rc_win_patterns (e_room e)) = Inr won
    \<and> rc_min_winning_lines (e_room e) \<le> int (length won) \<and> (e_status e = ''running'' \<or> e_status e = ''settling'') \<and> e1 = e"
proof -
  obtain s where s: "map_of (e_entries e) (u, c) = Some s"
    using assms by (cases "map_of (e_entries e) (u, c)") (auto simp: claim_check_def split: if_splits)
  have st: "e_status e = ''running'' \<or> e_status e = ''settling''"
    using assms by (simp add: claim_check_def s split: if_splits)
  obtain grid where g: "e_card_pool e (es_card_no s) = Some grid"
    using assms st by (cases "e_card_pool e (es_card_no s)") (auto simp: claim_check_def s split: if_splits)
  show ?thesis
    using assms st unfolding claim_check_def s g option.case
    by (cases "winning_patterns grid (e_called e) (rc_win_patterns (e_room e))") (use s g in \<open>auto split: if_splits\<close>)
qed

text \<open>C15. An accepted claim is a real win: the claimer holds the card, the round is running or within the tie window, the
  card has at least the room's number of complete lines over the numbers called so far, and exactly one
  winner entry, of that user and card, joins the pending winners, among whom it was not before.\<close>

theorem claim_accepted:
  assumes "mem_ok e" "claim clk u c source e d = (Inr accepted, e', d')"
  shows "\<exists>grid won w. (u, c) \<in> held e \<and> e_card_pool e c = Some grid
    \<and> winning_patterns grid (e_called e) (rc_win_patterns (e_room e)) = Inr won
    \<and> rc_min_winning_lines (e_room e) \<le> int (length won)
    \<and> (e_status e = ''running'' \<or> e_status e = ''settling'') \<and> e_status e' = ''settling''
    \<and> e_pending e' = e_pending e @ [w] \<and> pw_user w = u \<and> pw_card w = c \<and> pw_call_index w = e_call_index e
    \<and> (\<forall>v\<in>set (e_pending e). \<not> (pw_user v = u \<and> pw_card v = c))"
proof -
  obtain res e1 where ck: "claim_check u c source e = (res, e1)" by fastforce
  obtain k won where res: "res = Inr (Inr (k, won))" and reg: "claim_register clk u c k won e1 = (accepted, e')"
    using claim_accepted_parts [OF assms(2) ck] by blast
  note ck = claim_check_won [OF ck [unfolded res]]
  then obtain s grid where g: "map_of (e_entries e) (u, c) = Some s" "k = es_card_no s" "e_card_pool e k = Some grid"
      "winning_patterns grid (e_called e) (rc_win_patterns (e_room e)) = Inr won"
      "rc_min_winning_lines (e_room e) \<le> int (length won)" "e_status e = ''running'' \<or> e_status e = ''settling''" "e1 = e"
    by blast
  have m: "((u, c), s) \<in> set (e_entries e)" by (rule map_of_SomeD [OF g(1)])
  have "\<forall>(k, s)\<in>set (e_entries e). es_card_no s = snd k" using assms(1) unfolding mem_ok_def by blast
  then have k: "k = c" using m g(2) by fastforce
  have h: "(u, c) \<in> held e" using m by (force simp: held_def)
  have "e_status e' = ''settling''
    \<and> e_pending e' = e_pending e @ [\<lparr>pw_user = u, pw_card = c, pw_pattern = join_names (map pat_name won), pw_call_index = e_call_index e\<rparr>]
    \<and> (\<forall>v\<in>set (e_pending e). \<not> (pw_user v = u \<and> pw_card v = c))"
    using reg unfolding g(7) k claim_register_def Let_def by (auto simp: list_ex_iff split: if_splits)
  then show ?thesis using h g(3-6) k by (intro exI [of _ grid] exI [of _ won] exI) auto
qed

theorem claim_accepted_witness:
  "e_status (fst (snd (claim 9 7 1 ''manual'' (demo_running demo_hash) (snd (demo_two demo_hash))))) = ''settling''"
proof -
  have "fst (claim 9 7 1 ''manual'' (demo_running h) (snd (demo_two h))) = Inr accepted" for h by (rule demo_claim_accepted)
  then obtain e' d' where c: "claim 9 7 1 ''manual'' (demo_running demo_hash) (snd (demo_two demo_hash)) = (Inr accepted, e', d')"
    by (metis prod.collapse)
  have "mem_ok (fst (demo_two demo_hash))" using reachable_parts(2) [OF demo_reachable(3)] by simp
  then have "mem_ok (demo_running demo_hash)" by (rule demo_running_mem)
  from claim_accepted [OF this c] show ?thesis by (auto simp: c)
qed

subsection \<open>Settlement\<close>

text \<open>C3. Settling pays the pot, exactly and once: in a consistent state, an engine whose tie window has closed over a round that
  is still live settles it without failing. Each winner is credited an equal whole-cent share per winning card, the
  house gets its cut and the leftover cents, together exactly the pot, which leaves escrow; no other account
  changes; the round is done, with one winner row per winning card.\<close>

theorem settlement_pays_pot:
  assumes "system_ok (es, d)" "e \<in> set es" "e_round_id e = Some i" "e_status e = ''settling''" "e_pending e \<noteq> []"
    and "round_by_id d i = Some r" "rd_status r \<notin> TERMINAL_STATUSES"
    and "settle_sums (rd_pot r) (rc_house_cut_bps (e_room e)) (length (e_pending e)) = (derash, shares, house)"
  shows "\<exists>e' d'. finalize_after_window now e d = (Inr (), e', d') \<and> e_status e' = ''done''
    \<and> round_status d' i = Some ''done'' \<and> sum_list shares + house = rd_pot r
    \<and> (\<forall>u. obal (led d') (Some u, ''user_cash'') = obal (led d) (Some u, ''user_cash'') + won_by u (zip (e_pending e) shares))
    \<and> obal (led d') (None, ''pot_escrow'') = obal (led d) (None, ''pot_escrow'') - rd_pot r
    \<and> obal (led d') (None, ''house_revenue'') = obal (led d) (None, ''house_revenue'') + house
    \<and> (\<forall>ow. ow \<notin> {(None, ''pot_escrow''), (None, ''house_revenue'')} \<and> (fst ow = None \<or> snd ow \<noteq> ''user_cash'') \<longrightarrow>
         obal (led d') ow = obal (led d) ow)
    \<and> length (round_winners d') = length (round_winners d) + length (e_pending e)"
proof -
  have ok: "bingo_ok d" and mem: "mem_ok e" and link: "link_ok d e" using assms(1,2) by (auto simp: system_ok_def)
  obtain seed where seed: "e_server_seed e = Some seed" using mem assms(3) by (auto simp: mem_ok_def)
  note lr = live_round [OF ok link assms(3,6,7)]
  have sums: "settle_sums (e_pot e) (rc_house_cut_bps (e_room e)) (length (e_pending e)) = (derash, shares, house)"
    using assms(8) lr(1) by simp
  obtain e' d' where f: "finalize_after_window now e d = (Inr (), e', d')" "e_status e' = ''done''"
      "settled now i seed derash (zip (e_pending e) shares) (e_pot e) house d d'"
    using finalize_live [OF ok mem link assms(3) seed assms(5-7) sums] by blast
  note so = settled_ok [OF ok assms(6,7) lr(1) f(3)]
  have "abs_round r\<lparr>b_status := ''done''\<rparr> \<in> set (rounds_view d')"
    unfolding so(2) vupd_set using view_round [OF assms(6)] by auto
  moreover have "book_ok (tkeys (led d')) (rounds_view d') (cards_view d')" using so(1) by (simp add: bingo_ok_def)
  ultimately obtain r' where r': "round_by_id d' i = Some r'" "abs_round r' = abs_round r\<lparr>b_status := ''done''\<rparr>"
    using view_round [OF assms(6)] by (auto elim: round_of_view)
  then have st: "round_status d' i = Some ''done''" by (simp add: round_status_def abs_round_def)
  have n: "length (e_pending e) = length shares" "sum_list shares + house = rd_pot r"
    using sums lr(1) by (auto simp: settle_sums_def Let_def sum_list_replicate)
  have "length (round_winners d') = length (round_winners d) + length (e_pending e)"
  proof -
    obtain t where eq: "d' = (update_round i (\<lambda>r. r\<lparr>rd_status := ''done'', rd_derash := derash, rd_server_seed := Some seed,
             rd_ended_at := Some now\<rparr>) d)
           \<lparr>round_winners := round_winners d @ map (\<lambda>(w, share). \<lparr>wn_round = i, wn_user = pw_user w, wn_card = pw_card w,
              wn_pattern = pw_pattern w, wn_on_call = pw_call_index w, wn_amount = share, wn_payout_txn = Some t\<rparr>) (zip (e_pending e) shares),
            led := led d'\<rparr>"
      using f(3) unfolding settled_def by blast
    show ?thesis using arg_cong [OF eq, of round_winners] n(1) by simp
  qed
  then show ?thesis
    using f(1,2) f(3) st n(2) lr(1) by (intro exI [of _ e'] exI [of _ d']) (simp add: settled_def)
qed

theorem settlement_pays_pot_witness:
  "\<exists>e' d'. finalize_after_window 50 (demo_settling demo_hash) (demo_playing demo_hash) = (Inr (), e', d')
     \<and> obal (led d') (Some 7, ''user_cash'') = 90 + 16 \<and> obal (led d') (None, ''pot_escrow'') = 0"
proof -
  let ?e = "demo_settling demo_hash" and ?d = "demo_playing demo_hash"
  have sys: "system_ok ([?e], ?d)" by (rule demo_settling_ok [OF reachable_ok [OF demo_reachable(3)]])
  obtain r where r: "round_by_id ?d 1 = Some r" "rd_status r = ''running''" "rd_pot r = 20"
    using demo_playing_round [of demo_hash] by (auto simp: round_status_def)
  have sums: "settle_sums 20 2000 1 = (16, [16], 4)" by (simp add: settle_sums_def)
  obtain w where w: "e_pending ?e = [w]" "pw_user w = 7" using demo_settling_facts [of demo_hash] by auto
  have p: "?e \<in> set [?e]" "e_round_id ?e = Some 1" "e_status ?e = ''settling''" "e_pending ?e \<noteq> []"
      "rd_status r \<notin> TERMINAL_STATUSES"
      "settle_sums (rd_pot r) (rc_house_cut_bps (e_room ?e)) (length (e_pending ?e)) = (16, [16], 4)"
    using demo_settling_facts [of demo_hash] w r(2,3) sums by (simp_all add: TERMINAL_STATUSES_def)
  note s = settlement_pays_pot [OF sys p(1-4) r(1) p(5,6), of 50]
  obtain e' d' where f: "finalize_after_window 50 ?e ?d = (Inr (), e', d')"
      "obal (led d') (cash_owner 7) = obal (led ?d) (cash_owner 7) + won_by 7 (zip (e_pending ?e) [16])"
      "obal (led d') pot_owner = obal (led ?d) pot_owner - rd_pot r"
    using s by blast
  then show ?thesis using demo_playing_round(3) [of demo_hash] w r(3) by (simp add: won_by_def)
qed

end
