(* ===== verification/Foundations.thy ===== *)
theory Foundations
  imports Settlement Bingo_Draw Bingo Keys Ledger
begin

text \<open>
  The properties of the parts everything else stands on: the double-entry ledger, the idempotency keys, the
  split of a pot, the provably fair draw and the rule that decides a win.
\<close>

subsection \<open>The ledger\<close>

text \<open>C25. A post of whole cents that balance keeps the books: account, transaction and balance rows stay
  consistent, no user balance becomes negative, every cached balance is the sum of its entries (so that
  reconciliation finds nothing), history is only appended to, and the commit trigger accepts it.\<close>

theorem post_keeps_books:
  assumes "ledger_ok l" "post now p l = Inr (t, l')"
    and "\<forall>e\<in>set (pa_entries p). whole_cents (ent_amount e)" "sum_list (map ent_amount (pa_entries p)) = 0"
  shows "ledger_ok l' \<and> reconcile l' = [] \<and> commit l l' = Inr l'
    \<and> (\<exists>ts rs. txns l' = txns l @ ts \<and> entry_rows l' = entry_rows l @ rs)"
proof -
  have "ledger_ok l' \<and> (\<exists>ts rs. txns l' = txns l @ ts \<and> entry_rows l' = entry_rows l @ rs)"
  proof (cases "find_txn l (pa_key p)")
    case None
    then have pf: "post_fresh now p l = Inr (t, l')" using assms(2) by (auto simp: post_def split: if_splits)
    have bo: "balances_ok l" and fk: "entries_fk l" using assms(1) by (simp_all add: ledger_ok_def)
    show ?thesis
      using post_fresh_ok [OF pf assms(1) None assms(3)] post_fresh_fk [OF pf bo fk] assms(4) post_fresh_Inr(3,4) [OF pf]
      by (auto simp: ledger_ok_def sums_ok_def)
  next
    case (Some e)
    then have "l' = l" using assms(2) by (auto simp: post_def split: if_splits)
    then show ?thesis using assms(1) by auto
  qed
  then have ok: "ledger_ok l'" and app: "\<exists>ts rs. txns l' = txns l @ ts \<and> entry_rows l' = entry_rows l @ rs" by auto
  have "raw_balance l' (acc_id a) = computed_balance l' (acc_id a)" for a
    using ok by (simp add: ledger_ok_def balances_ok_def)
  then have "reconcile l' = []"
    unfolding reconcile_def raw_balance_def Let_def by (fastforce split: option.splits)
  then show ?thesis using ok app commit_ok [OF ok] by blast
qed

definition example_accounts :: ledger where
  "example_accounts = snd (get_or_create_account (snd (get_or_create_account empty_ledger (Some 7) ''user_cash'' ''ETB'')) None ''cash_clearing'' ''ETB'')"

definition example_deposit :: "money \<Rightarrow> string \<Rightarrow> post_args" where
  "example_deposit amount key = \<lparr>pa_kind = ''deposit'', pa_entries = [\<lparr>ent_account = 1, ent_amount = amount\<rparr>, \<lparr>ent_account = 2, ent_amount = - amount\<rparr>],
     pa_key = key, pa_round = None, pa_payment = None, pa_memo = None, pa_by = ''system''\<rparr>"

definition example_ledger :: ledger where
  "example_ledger = (case post 0 (example_deposit 25 ''d-1'') example_accounts of Inr (t, l) \<Rightarrow> l | Inl _ \<Rightarrow> example_accounts)"

lemma example_accounts_ok: "ledger_ok example_accounts"
proof -
  obtain a l where g: "get_or_create_account empty_ledger (Some 7) ''user_cash'' ''ETB'' = (a, l)" by fastforce
  obtain b m where h: "get_or_create_account l None ''cash_clearing'' ''ETB'' = (b, m)" by fastforce
  show ?thesis
    unfolding example_accounts_def g snd_conv h
    using get_or_create_account_spec [OF g ledger_ok_empty] get_or_create_account_spec [OF h] by blast
qed

theorem post_keeps_books_witness: "ledger_ok example_ledger \<and> raw_balance example_ledger 1 = 25"
proof -
  obtain t l where p: "post 0 (example_deposit 25 ''d-1'') example_accounts = Inr (t, l)" "raw_balance l 1 = 25"
  proof -
    have "case post 0 (example_deposit 25 ''d-1'') example_accounts of Inr (t, l) \<Rightarrow> raw_balance l 1 = 25 | Inl _ \<Rightarrow> False"
      by code_simp
    then show thesis using that by (auto split: sum.splits)
  qed
  have "\<forall>e\<in>set (pa_entries (example_deposit 25 ''d-1'')). whole_cents (ent_amount e)"
    by (simp add: example_deposit_def)
  then have "ledger_ok l"
    using post_keeps_books [OF example_accounts_ok p(1)] by (simp add: example_deposit_def)
  then show ?thesis using p by (simp add: example_ledger_def)
qed

text \<open>Posting is idempotent: a second post of the same arguments, whenever it comes, answers with the same
  transaction and changes nothing.\<close>

theorem post_idempotent:
  assumes "post now p l = Inr (t, l')" shows "post later p l' = Inr (t, l')"
proof (cases "find_txn l (pa_key p)")
  case None
  then have pf: "post_fresh now p l = Inr (t, l')" using assms by (auto simp: post_def split: if_splits)
  note s = post_fresh_Inr [OF pf]
  have ne: "pa_entries p \<noteq> []" using assms by (auto simp: post_def split: if_splits)
  have "find_txn l' (pa_key p) = Some t"
    using None by (simp add: find_txn_def s(3) find_append) (simp add: s(1))
  moreover have "\<not> replay_conflict t (pa_kind p) (pa_round p) (pa_payment p)"
    by (simp add: replay_conflict_def s(1))
  ultimately show ?thesis using ne by (simp add: post_def)
next
  case (Some e)
  then have "l' = l" "t = e" using assms by (auto simp: post_def split: if_splits)
  then show ?thesis using assms Some by (auto simp: post_def split: if_splits)
qed

theorem post_idempotent_witness:
  "case post 0 (example_deposit 25 ''d-1'') example_accounts of Inl _ \<Rightarrow> False
   | Inr (t, l) \<Rightarrow> post 99 (example_deposit 25 ''d-1'') l = Inr (t, l)"
proof (cases "post 0 (example_deposit 25 ''d-1'') example_accounts")
  case (Inl x)
  have "case post 0 (example_deposit 25 ''d-1'') example_accounts of Inl _ \<Rightarrow> False | Inr _ \<Rightarrow> True" by code_simp
  then show ?thesis by (simp add: Inl)
next
  case (Inr r)
  obtain t l where r: "r = (t, l)" by fastforce
  show ?thesis unfolding Inr r using post_idempotent [OF Inr [unfolded r], of 99] by simp
qed



subsection \<open>Idempotency keys\<close>

text \<open>Keys identify what they pay: keys of one kind are equal only for the same round, user and card (or
  ticket), and keys of different kinds are never equal.\<close>

theorem keys_identify:
  "(stake_key i u c = stake_key i' u' c' \<longleftrightarrow> i = i' \<and> u = u' \<and> c = c')
   \<and> (drop_key i u c = drop_key i' u' c' \<longleftrightarrow> i = i' \<and> u = u' \<and> c = c')
   \<and> (refund_key i u c = refund_key i' u' c' \<longleftrightarrow> i = i' \<and> u = u' \<and> c = c')
   \<and> (settle_key i = settle_key i' \<longleftrightarrow> i = i')
   \<and> stake_key i u c \<noteq> drop_key i' u' c' \<and> stake_key i u c \<noteq> refund_key i' u' c'
   \<and> drop_key i u c \<noteq> refund_key i' u' c' \<and> settle_key i \<noteq> stake_key i' u' c'
   \<and> settle_key i \<noteq> drop_key i' u' c' \<and> settle_key i \<noteq> refund_key i' u' c'"
  by auto

subsection \<open>The split of a pot\<close>

text \<open>C27. The decimal arithmetic of a settlement is exact: for any pot a numeric(18,2) column can hold, any cut
  up to 100 percent and up to a million winners, the cut and the split return, the prize pool is the pot less
  the cut rounded down to the cent, the winners get equal whole-cent shares, and shares, leftover and cut add up
  to the pot, the leftover being less than a cent per winner.\<close>

theorem settlement_exact:
  assumes "column_money pot" "0 \<le> pot" "0 \<le> bps" "bps \<le> 10000" "0 < n" "n \<le> 10 ^ 6"
  shows "\<exists>derash house share leftover. compute_derash pot bps = Inr (derash, house)
    \<and> split_derash derash n = Inr (replicate (nat n) share, leftover)
    \<and> of_int n * share + leftover + house = pot
    \<and> derash = of_int \<lfloor>pot * of_int (10000 - bps) / 100\<rfloor> / 100
    \<and> share = of_int \<lfloor>derash * 100 / of_int n\<rfloor> / 100
    \<and> 0 \<le> share \<and> 0 \<le> leftover \<and> leftover < of_int n / 100 \<and> 0 \<le> house"
proof -
  obtain derash house where c: "compute_derash pot bps = Inr (derash, house)"
    using compute_derash_exact [OF assms(1-4)] by blast
  note d = compute_derash_Inr [OF assms(1) c]
  have "derash \<le> pot" using d(1,3) by linarith
  then have cd: "column_money derash" using d(2,4) assms(1) by (simp add: column_money_def)
  define share where "share = (of_int \<lfloor>derash * 100 / of_int n\<rfloor> / 100 :: money)"
  have s: "split_derash derash n = Inr (replicate (nat n) share, derash - of_int n * share)"
    unfolding share_def by (rule split_derash_exact [OF cd d(2) assms(5,6)])
  note p = split_derash_Inr [OF cd d(2) assms(6) s]
  have s0: "0 \<le> share" using d(2) assms(5) by (simp add: share_def)
  have sum: "of_int n * share + (derash - of_int n * share) + house = pot" using d(1) by simp
  show ?thesis
    by (intro exI [of _ derash] exI [of _ house] exI [of _ share] exI [of _ "derash - of_int n * share"] conjI)
      (rule c s sum d(6) share_def s0 p(4,5) d(3))+
qed

theorem settlement_exact_witness:
  "compute_derash (100 + 1 / 20) 2000 = Inr (8004 / 100, 2001 / 100)
   \<and> split_derash (8004 / 100) 7 = Inr (replicate 7 (1143 / 100), 3 / 100)"
proof -
  have cm: "column_money (100 + 1 / 20)" by (simp add: column_money_def whole_cents_def)
  have "\<exists>derash house share leftover. compute_derash (100 + 1 / 20) 2000 = Inr (derash, house)
    \<and> split_derash derash 7 = Inr (replicate (nat 7) share, leftover)
    \<and> of_int 7 * share + leftover + house = 100 + 1 / 20
    \<and> derash = of_int \<lfloor>(100 + 1 / 20) * of_int (10000 - 2000) / 100 :: rat\<rfloor> / 100
    \<and> share = of_int \<lfloor>derash * 100 / of_int 7\<rfloor> / 100
    \<and> 0 \<le> share \<and> 0 \<le> leftover \<and> leftover < of_int 7 / 100 \<and> 0 \<le> house"
    by (rule settlement_exact [OF cm]) simp_all
  then obtain derash house share leftover where
      c: "compute_derash (100 + 1 / 20) 2000 = Inr (derash, house)"
        "split_derash derash 7 = Inr (replicate (nat 7) share, leftover)"
        "of_int 7 * share + leftover + house = 100 + 1 / 20"
        "derash = of_int \<lfloor>(100 + 1 / 20) * of_int (10000 - 2000) / 100 :: rat\<rfloor> / 100"
        "share = of_int \<lfloor>derash * 100 / of_int 7\<rfloor> / 100"
    by blast
  have d: "derash = 8004 / 100" using c(4) by simp
  have "\<lfloor>8004 / 7 :: rat\<rfloor> = 1143" by (rule floor_unique) simp_all
  then have sh: "share = 1143 / 100" using c(5) by (simp add: d)
  have "house = 100 + 1 / 20 - 8004 / 100"
    using compute_derash_Inr(1) [OF cm c(1)] d by simp
  moreover have "leftover = 3 / 100" using c(3) d sh calculation by simp
  ultimately show ?thesis using c(1,2) d sh by simp
qed

text \<open>What \<open>compute_derash\<close> refuses: a negative pot and a cut outside 0 to 10000 basis points, and on a
  pot the column can hold nothing else.\<close>

theorem compute_derash_error:
  assumes "column_money pot"
  shows "compute_derash pot bps = Inl ValueError \<longleftrightarrow> pot < 0 \<or> bps < 0 \<or> 10000 < bps"
  by (rule compute_derash_cases [OF assms])

theorem compute_derash_error_witness: "compute_derash 10 10001 = Inl ValueError"
  using compute_derash_error [of 10 10001] by (simp add: column_money_def)

subsection \<open>The draw\<close>

lemma take_fill_error: "take_fill mac n s = Inl x \<Longrightarrow> x = OverflowError"
proof (induction mac n s rule: take_fill.induct)
  case (1 mac n s)
  then show ?case using take_fill.simps [of mac n s] by (auto split: if_splits)
qed

lemma below_loop_error: "below_loop mac u s = Inl x \<Longrightarrow> x = OverflowError"
proof (induction mac u s rule: below_loop.induct)
  case (1 mac u s)
  show ?case
  proof (cases "stream_take mac (below_bytes u) s")
    case (Inl y)
    then have "x = y" using "1.prems" below_loop.simps [of mac u s] by simp
    then show ?thesis using Inl take_fill_error by (auto simp: stream_take_def bind_result_def split: sum.splits)
  next
    case (Inr p)
    then obtain chunk t where "stream_take mac (below_bytes u) s = Inr (chunk, t)" by (cases p) simp
    then show ?thesis using "1.prems" "1.IH" [of "(chunk, t)" chunk t "from_bytes chunk"] below_loop.simps [of mac u s]
      by (simp add: Let_def split: if_splits)
  qed
qed

lemma shuffle_down_error: "shuffle_down mac is numbers s = Inl x \<Longrightarrow> x = OverflowError"
proof (induction "is" arbitrary: numbers s)
  case (Cons i "is")
  show ?case
  proof (cases "below mac (int i + 1) s")
    case (Inl y)
    then have "x = y" using Cons.prems by (simp add: bind_result_def)
    then show ?thesis using Inl below_loop_error by (auto simp: below_def bind_result_def split: sum.splits if_splits)
  next
    case (Inr p)
    then show ?thesis using Cons by (cases p) (simp add: bind_result_def)
  qed
qed simp

text \<open>A draw is a permutation of 1 to 75, whatever the seeds: the only other outcome is the exhaustion of
  the four-byte block counter.\<close>

theorem draw_is_permutation:
  "case derive_draw server_seed client_seed of Inr ns \<Rightarrow> mset ns = mset [1..75] | Inl x \<Rightarrow> x = OverflowError"
proof (cases "derive_draw server_seed client_seed")
  case (Inl x)
  then show ?thesis
    using shuffle_down_error [of hmac_sha256 "rev [1..<length [1::int..75]]" "[1..75]" _ x]
    by (simp add: derive_draw_def derive_draw_with_def Let_def)
next
  case (Inr ns)
  then show ?thesis using derive_draw_with_perm [of hmac_sha256] by (simp add: derive_draw_def)
qed

text \<open>Rejection sampling is unbiased: among the values it accepts, every residue occurs equally often.\<close>

theorem below_unbiased:
  assumes "0 < u" "j < u" "k < u"
  shows "card {v. v < below_threshold u \<and> v mod u = j} = card {v. v < below_threshold u \<and> v mod u = k}
    \<and> u dvd below_threshold u \<and> below_threshold u \<le> 256 ^ below_bytes u \<and> 0 < below_threshold u"
  using below_residue_card [OF assms(1,2)] below_residue_card [OF assms(1,3)] below_threshold_props [OF assms(1)] by simp

theorem below_unbiased_witness:
  "card {v. v < below_threshold 75 \<and> v mod 75 = 0} = card {v. v < below_threshold 75 \<and> v mod 75 = (74 :: nat)}"
  using below_unbiased [of 75 0 74] by simp

text \<open>The draw terminates: if among the first \<open>N\<close> blocks of the stream there are 74 bytes below 128, one
  for each of its steps, then it returns; a draw only goes on while fewer have come.\<close>

theorem draw_returns:
  assumes "74 \<le> easy_bytes (upcoming mac N (hmac_stream server_seed client_seed))" "N \<le> 2 ^ 32"
  shows "\<exists>ns. derive_draw_with mac server_seed client_seed = Inr ns \<and> mset ns = mset [1..75]"
proof -
  have "\<exists>ns. derive_draw_with mac server_seed client_seed = Inr ns"
    unfolding derive_draw_with_def Let_def
    by (rule shuffle_down_total [OF _ _ assms(2)]) (use assms(1) in \<open>auto simp: hmac_stream_def byte_stream_init_def\<close>)
  then show ?thesis using derive_draw_with_perm by blast
qed

theorem draw_returns_witness: "\<exists>ns. derive_draw_with (\<lambda>k m. replicate 32 5) [] [] = Inr ns"
proof -
  have "74 \<le> easy_bytes (upcoming (\<lambda>k m. replicate 32 5) 3 (hmac_stream [] []))" by code_simp
  then show ?thesis using draw_returns [of "\<lambda>k m. replicate 32 5" 3 "[]" "[]"] by simp blast
qed

subsection \<open>Winning\<close>

text \<open>C39. The win verdict against its declarative reading: on a 5 by 5 card it is whether at least the required
  number of the enabled lines have all their cells called, the middle cell being free.\<close>

theorem has_won_spec:
  assumes "wf_grid g"
  shows "has_won g called enabled n =
    Inr (n \<le> int (length (filter (\<lambda>p. pat_kind p \<in> set enabled \<and>
           (\<forall>(r, c)\<in>set (pat_cells p). r = 2 \<and> c = 2 \<or> g ! r ! c \<in> called)) ALL_PATTERNS)))"
  using has_won_wf [OF assms] by (simp add: complete_def marked_def list_all_iff)

definition example_card :: grid where
  "example_card = [[1, 16, 31, 46, 61], [2, 17, 32, 47, 62], [3, 18, 0, 48, 63], [4, 19, 33, 49, 64], [5, 20, 34, 50, 65]]"

theorem has_won_spec_witness: "has_won example_card {1, 16, 46, 61, 31, 3, 18, 48, 63} [''row''] 2 = Inr True"
proof -
  have "wf_grid example_card" by code_simp
  from has_won_spec [OF this] show ?thesis by (simp add: ALL_PATTERNS_def example_card_def digit_def upt_rec)
qed

text \<open>A win never goes away: further calls keep a winning card winning, and once all 75 numbers are called
  every card wins in a room that does not ask for more lines than its patterns offer.\<close>

theorem has_won_monotone:
  assumes "wf_grid g" "called \<subseteq> called'" "has_won g called enabled n = Inr True"
  shows "has_won g called' enabled n = Inr True
    \<and> (numbers_ok g \<and> k \<le> int (lines_offered enabled) \<longrightarrow> has_won g {1..75} enabled k = Inr True)"
  using has_won_mono [OF assms] has_won_all_called [OF assms(1)] by blast

theorem has_won_monotone_witness: "has_won example_card ({1, 2, 3, 4, 5} \<union> {9}) [''col''] 1 = Inr True"
proof -
  have g: "wf_grid example_card" by code_simp
  have "has_won example_card {1, 2, 3, 4, 5} [''col''] 1 = Inr True" by code_simp
  then show ?thesis using has_won_monotone [OF g Un_upper1] by blast
qed

end
