(* ===== verification/Keno.thy ===== *)
theory Keno
  imports Settlement Bingo_Draw Keys
begin

text \<open>
  The Keno game, \<open>packages/core/keno.py\<close>: validation of a ticket's picks, the hypergeometric
  probabilities and the statistics of a paytable, the payout of a ticket, and the commit-reveal draw.
  A \<open>Fraction\<close> is a rational; \<open>Decimal\<close> arithmetic is rounded to the context's precision
  (\<open>Decimal_Arith\<close>). A multiplier table (a Python dict) is an association list.
\<close>

definition NUMBER_POOL_SIZE :: int where "NUMBER_POOL_SIZE = 80"
definition DRAW_COUNT :: int where "DRAW_COUNT = 20"
definition MIN_PICKS :: int where "MIN_PICKS = 1"
definition MAX_PICKS :: int where "MAX_PICKS = 10"
definition RTP_FLOOR :: rat where "RTP_FLOOR = 75 / 100"
definition RTP_CEILING :: rat where "RTP_CEILING = 97 / 100"

datatype keno_error =
    InvalidPickCount int
  | DuplicatePicks "int list"
  | PickOutOfRange int
  | PaytableRTPOutOfRange int rat rat rat

subsection \<open>Ticket validation\<close>

fun check_picks :: "int list \<Rightarrow> int list \<Rightarrow> int set \<Rightarrow> keno_error + int set" where
  "check_picks picks [] seen = Inr seen"
| "check_picks picks (value # rest) seen =
     (if \<not> (1 \<le> value \<and> value \<le> NUMBER_POOL_SIZE) then Inl (PickOutOfRange value)
      else if value \<in> seen then Inl (DuplicatePicks picks)
      else check_picks picks rest (insert value seen))"

definition validate_picks_within :: "int list \<Rightarrow> int \<Rightarrow> int \<Rightarrow> keno_error + int set" where
  "validate_picks_within picks min_picks max_picks =
     (let count = int (length picks)
      in if \<not> (min_picks \<le> count \<and> count \<le> max_picks) then Inl (InvalidPickCount count)
         else check_picks picks picks {})"

definition validate_picks :: "int list \<Rightarrow> keno_error + int set" where
  "validate_picks picks = validate_picks_within picks MIN_PICKS MAX_PICKS"

definition count_matches :: "int set \<Rightarrow> int list \<Rightarrow> int" where
  "count_matches picks drawn_numbers = int (card (picks \<inter> set drawn_numbers))"

subsection \<open>Probabilities\<close>

definition probability_fraction :: "int \<Rightarrow> int \<Rightarrow> int \<Rightarrow> int \<Rightarrow> rat" where
  "probability_fraction picks matches pool_size draw_count =
     (if \<not> (0 \<le> matches \<and> matches \<le> picks) then 0
      else let non_drawn = pool_size - draw_count; misses = picks - matches
      in if non_drawn < misses \<or> draw_count < matches then 0
         else of_nat ((nat draw_count choose nat matches) * (nat non_drawn choose nat misses))
              / of_nat (nat pool_size choose nat picks))"

definition fraction_to_decimal :: "rat \<Rightarrow> rat" where
  "fraction_to_decimal v = (if v = 0 then 0 else ctx_round 40 v)"

definition probability_exact_matches :: "int \<Rightarrow> int \<Rightarrow> int \<Rightarrow> int \<Rightarrow> rat" where
  "probability_exact_matches picks matches pool_size draw_count =
     fraction_to_decimal (probability_fraction picks matches pool_size draw_count)"

definition match_distribution_fraction_of :: "int \<Rightarrow> int \<Rightarrow> int \<Rightarrow> (int \<times> rat) list" where
  "match_distribution_fraction_of picks pool_size draw_count =
     (let upper = min picks draw_count
      in map (\<lambda>k. (k, probability_fraction picks k pool_size draw_count)) [0..upper])"

abbreviation match_distribution_fraction :: "int \<Rightarrow> (int \<times> rat) list" where
  "match_distribution_fraction picks \<equiv> match_distribution_fraction_of picks NUMBER_POOL_SIZE DRAW_COUNT"

definition match_distribution :: "int \<Rightarrow> (int \<times> rat) list" where
  "match_distribution picks = map (\<lambda>(k, f). (k, fraction_to_decimal f)) (match_distribution_fraction picks)"

type_synonym multipliers = "(int \<times> rat) list"

definition multiplier_of :: "multipliers \<Rightarrow> int \<Rightarrow> rat" where
  "multiplier_of ms k = (case map_of ms k of None \<Rightarrow> 0 | Some m \<Rightarrow> m)"

definition fraction_sum_rtp :: "int \<Rightarrow> multipliers \<Rightarrow> rat" where
  "fraction_sum_rtp picks ms =
     foldl (\<lambda>total (matches, probability). total + probability * multiplier_of ms matches) 0 (match_distribution_fraction picks)"

definition compute_rtp :: "int \<Rightarrow> multipliers \<Rightarrow> rat" where
  "compute_rtp picks ms = fraction_to_decimal (fraction_sum_rtp picks ms)"

definition hit_frequency :: "int \<Rightarrow> multipliers \<Rightarrow> rat" where
  "hit_frequency picks ms =
     fraction_to_decimal
       (foldl (\<lambda>total (matches, probability). if 0 < multiplier_of ms matches then total + probability else total)
         0 (match_distribution_fraction picks))"

definition max_multiplier :: "multipliers \<Rightarrow> rat" where
  "max_multiplier ms = (if ms = [] then 0 else Max (set (map snd ms)))"

text \<open>\<open>keno._decimal_sqrt\<close> and its copy in \<open>keno_exposure.py\<close>.\<close>

definition decimal_sqrt :: "rat \<Rightarrow> rat" where
  "decimal_sqrt v = (if v \<le> 0 then 0 else dec_sqrt 40 v)"

definition volatility :: "int \<Rightarrow> multipliers \<Rightarrow> rat" where
  "volatility picks ms =
     (let exact_rtp = fraction_sum_rtp picks ms;
          variance = foldl (\<lambda>v (matches, probability). v + probability * (multiplier_of ms matches - exact_rtp) ^ 2)
            0 (match_distribution_fraction picks)
      in decimal_sqrt (fraction_to_decimal variance))"

record paytable_stats =
  ps_picks :: int
  ps_rtp :: rat
  ps_hit_frequency :: rat
  ps_max_multiplier :: rat
  ps_volatility :: rat

definition compute_paytable_stats :: "int \<Rightarrow> multipliers \<Rightarrow> paytable_stats result" where
  "compute_paytable_stats picks ms =
     bind_result (quantize_basis (compute_rtp picks ms)) (\<lambda>rtp.
     bind_result (quantize_basis (hit_frequency picks ms)) (\<lambda>hit.
     bind_result (quantize_basis (volatility picks ms)) (\<lambda>vol.
       Inr \<lparr>ps_picks = picks, ps_rtp = rtp, ps_hit_frequency = hit, ps_max_multiplier = max_multiplier ms,
            ps_volatility = vol\<rparr>)))"

definition validate_paytable_rtp :: "int \<Rightarrow> multipliers \<Rightarrow> rat \<Rightarrow> rat \<Rightarrow> keno_error + rat" where
  "validate_paytable_rtp picks ms floor_rtp ceiling_rtp =
     (let rtp = compute_rtp picks ms
      in if \<not> (floor_rtp \<le> rtp \<and> rtp \<le> ceiling_rtp) then Inl (PaytableRTPOutOfRange picks rtp floor_rtp ceiling_rtp)
         else Inr rtp)"

definition compute_payout :: "money \<Rightarrow> int \<Rightarrow> multipliers \<Rightarrow> money \<Rightarrow> money result" where
  "compute_payout stake matches ms max_win_per_ticket =
     bind_result (quantize_down (dmul stake (multiplier_of ms matches)))
       (\<lambda>raw. Inr (min raw max_win_per_ticket))"

subsection \<open>The commit-reveal draw\<close>

definition server_seed_hash :: "bytes \<Rightarrow> string" where
  "server_seed_hash server_seed = hexdigest (sha256 server_seed)"

definition rolling_hash_input :: "int list \<Rightarrow> bytes" where
  "rolling_hash_input ticket_ids = concat (map (\<lambda>i. ascii (str_int i) @ ascii '':'') (sort ticket_ids))"

definition compute_ticket_ids_rolling_hash :: "int list \<Rightarrow> string" where
  "compute_ticket_ids_rolling_hash ticket_ids = hexdigest (sha256 (rolling_hash_input ticket_ids))"

definition derive_public_seed :: "int \<Rightarrow> int \<Rightarrow> string \<Rightarrow> string" where
  "derive_public_seed round_id betting_closed_at_epoch ticket_ids_hash =
     str_int round_id @ '':'' @ str_int betting_closed_at_epoch @ '':'' @ ticket_ids_hash"

text \<open>
  The byte stream and \<open>below\<close> are the class \<open>_ByteStream\<close> of \<open>bingo.py\<close> again, line for line: the
  definitions of \<open>Bingo_Draw\<close> model both. The loop of the draw pops \<open>n\<close> numbers out of the pool.
\<close>

definition pop_at :: "nat \<Rightarrow> 'a list \<Rightarrow> 'a \<times> 'a list" where
  "pop_at i xs = (xs ! i, take i xs @ drop (Suc i) xs)"

fun draw_pops :: "keyed_hash \<Rightarrow> nat \<Rightarrow> int list \<Rightarrow> byte_stream \<Rightarrow> int list result" where
  "draw_pops mac 0 pool s = Inr []"
| "draw_pops mac (Suc n) pool s =
     bind_result (below mac (int (length pool)) s) (\<lambda>(index, t).
       let (x, pool') = pop_at (nat index) pool
       in bind_result (draw_pops mac n pool' t) (\<lambda>drawn. Inr (x # drawn)))"

definition derive_keno_draw_with :: "keyed_hash \<Rightarrow> bytes \<Rightarrow> string \<Rightarrow> int \<Rightarrow> int \<Rightarrow> int list result" where
  "derive_keno_draw_with mac server_seed public_seed pool_size draw_count =
     draw_pops mac (nat draw_count) [1..pool_size] (hmac_stream server_seed public_seed)"

definition derive_keno_draw :: "bytes \<Rightarrow> string \<Rightarrow> int \<Rightarrow> int \<Rightarrow> int list result" where
  "derive_keno_draw = derive_keno_draw_with hmac_sha256"

definition verify_keno_draw :: "bytes \<Rightarrow> string \<Rightarrow> int list \<Rightarrow> bool result" where
  "verify_keno_draw server_seed public_seed claimed_draw =
     bind_result (derive_keno_draw server_seed public_seed NUMBER_POOL_SIZE (int (length claimed_draw)))
       (\<lambda>d. Inr (d = claimed_draw))"

text \<open>\<open>hmac.compare_digest\<close> on strings raises when one of them is not ASCII.\<close>

definition verify_server_seed_hash :: "bytes \<Rightarrow> string \<Rightarrow> bool result" where
  "verify_server_seed_hash server_seed claimed_hash =
     (if list_all (\<lambda>c. of_char c < (128::nat)) claimed_hash then Inr (server_seed_hash server_seed = claimed_hash)
      else Inl TypeError)"

subsection \<open>Facts about validation\<close>

lemma check_picks_Inr:
  "check_picks picks vs seen = Inr s \<longleftrightarrow>
     distinct vs \<and> set vs \<inter> seen = {} \<and> set vs \<subseteq> {1..NUMBER_POOL_SIZE} \<and> s = set vs \<union> seen"
  by (induction vs arbitrary: seen) auto

lemma validate_picks_Inr:
  "validate_picks picks = Inr s \<longleftrightarrow>
     1 \<le> length picks \<and> length picks \<le> 10 \<and> distinct picks \<and> set picks \<subseteq> {1..80} \<and> s = set picks"
  by (auto simp: validate_picks_def validate_picks_within_def check_picks_Inr MIN_PICKS_def MAX_PICKS_def
      NUMBER_POOL_SIZE_def)

subsection \<open>Facts about the probabilities\<close>

lemma foldl_sum: "foldl (\<lambda>t (k, q). t + f k q) a xs = a + sum_list (map (\<lambda>(k, q). f k q) xs)" for a :: rat
  by (induction xs arbitrary: a) (auto simp: add.assoc)

lemma sum_list_upto: "sum_list (map f [0..int n]) = (\<Sum>k\<le>n. f (int k))"
proof -
  have "[0..int n] = map int [0..<Suc n]"
    by (induction n) (simp_all add: upto_rec2 add.commute)
  then show ?thesis
    by (simp add: comp_def interv_sum_list_conv_sum_set_nat atLeast0LessThan lessThan_Suc_atMost del: upt_Suc)
qed

lemma probability_fraction_nat:
  assumes "d \<le> N" "k \<le> n"
  shows "probability_fraction (int n) (int k) (int N) (int d) =
    of_nat ((d choose k) * (N - d choose (n - k))) / of_nat (N choose n)"
proof -
  have "nat (int N - int d) = N - d" "nat (int n - int k) = n - k" by auto
  moreover have "(N - d choose (n - k)) = 0" if "int N - int d < int n - int k"
    using that assms by (intro binomial_eq_0) linarith
  moreover have "(d choose k) = 0" if "int d < int k" using that by (intro binomial_eq_0) linarith
  ultimately show ?thesis using assms by (auto simp: probability_fraction_def Let_def)
qed

lemma probability_nonneg [simp]: "0 \<le> probability_fraction n k N d"
  by (simp add: probability_fraction_def Let_def)

lemma distribution_sum:
  fixes f :: "int \<Rightarrow> rat"
  assumes "d \<le> N"
  shows "sum_list (map (\<lambda>(k, q). q * f k) (match_distribution_fraction_of (int n) (int N) (int d)))
    = (\<Sum>k\<le>n. of_nat ((d choose k) * (N - d choose (n - k))) / of_nat (N choose n) * f (int k))"
proof -
  let ?t = "\<lambda>k. of_nat ((d choose k) * (N - d choose (n - k))) / of_nat (N choose n) * f (int k)"
  have "sum_list (map (\<lambda>(k, q). q * f k) (match_distribution_fraction_of (int n) (int N) (int d)))
      = sum_list (map (\<lambda>k. probability_fraction (int n) k (int N) (int d) * f k) [0..int (min n d)])"
    by (simp add: match_distribution_fraction_of_def comp_def)
  also have "\<dots> = (\<Sum>k\<le>min n d. probability_fraction (int n) (int k) (int N) (int d) * f (int k))"
    by (rule sum_list_upto)
  also have "\<dots> = (\<Sum>k\<le>min n d. ?t k)"
    by (rule sum.cong) (simp_all add: probability_fraction_nat [OF assms])
  also have "\<dots> = (\<Sum>k\<le>n. ?t k)"
    by (rule sum.mono_neutral_left) (auto simp: min_def not_le split: if_splits)
  finally show ?thesis .
qed

text \<open>The number of \<open>n\<close>-element sets that meet a given set in \<open>k\<close> elements.\<close>

lemma card_meeting_sets:
  assumes "finite A" "D \<subseteq> A" "k \<le> n"
  shows "card {P. P \<subseteq> A \<and> card P = n \<and> card (P \<inter> D) = k} = (card D choose k) * (card (A - D) choose (n - k))"
proof -
  let ?S = "{P. P \<subseteq> A \<and> card P = n \<and> card (P \<inter> D) = k}"
  let ?T = "{X. X \<subseteq> D \<and> card X = k} \<times> {Y. Y \<subseteq> A - D \<and> card Y = n - k}"
  have fin: "finite D" "finite (A - D)" using assms finite_subset by auto
  have "bij_betw (\<lambda>P. (P \<inter> D, P - D)) ?S ?T"
  proof (rule bij_betw_byWitness [where f' = "\<lambda>(X, Y). X \<union> Y"])
    show "(\<lambda>P. (P \<inter> D, P - D)) ` ?S \<subseteq> ?T"
    proof
      fix z assume "z \<in> (\<lambda>P. (P \<inter> D, P - D)) ` ?S"
      then obtain P where z: "z = (P \<inter> D, P - D)" and P: "P \<subseteq> A" "card P = n" "card (P \<inter> D) = k" by auto
      have "finite P" using P(1) assms(1) finite_subset by blast
      then have "card (P - D) = card P - card (P \<inter> D)" by (simp add: card_Diff_subset_Int Int_commute)
      then show "z \<in> ?T" using P z by auto
    qed
    show "(\<lambda>(X, Y). X \<union> Y) ` ?T \<subseteq> ?S"
    proof
      fix Z assume "Z \<in> (\<lambda>(X, Y). X \<union> Y) ` ?T"
      then obtain X Y where Z: "Z = X \<union> Y" and X: "X \<subseteq> D" "k = card X" and Y: "Y \<subseteq> A - D" "card Y = n - k"
        by auto
      have f: "finite X" "finite Y" using X Y fin finite_subset by blast+
      have "X \<inter> Y = {}" using X Y by blast
      then have "card Z = card X + card Y" using f by (simp add: card_Un_disjoint Z)
      moreover have "Z \<inter> D = X" using X Y Z by blast
      ultimately show "Z \<in> ?S" using X Y Z assms by auto
    qed
  qed auto
  then have "card ?S = card ?T" by (rule bij_betw_same_card)
  then show ?thesis using fin by (simp add: card_cartesian_product n_subsets)
qed

lemma fraction_to_decimal_error: "\<bar>fraction_to_decimal x - x\<bar> \<le> \<bar>x\<bar> * pow10 (- 39) / 2"
  using ctx_round_error [of 40 x] by (auto simp: fraction_to_decimal_def)

lemma fraction_sum_rtp_sum:
  "fraction_sum_rtp picks ms = sum_list (map (\<lambda>(k, q). q * multiplier_of ms k) (match_distribution_fraction picks))"
  by (simp add: fraction_sum_rtp_def foldl_sum)

subsection \<open>Facts about the payout\<close>

lemma compute_payout_Inr:
  assumes "compute_payout stake k ms cap = Inr v" "0 \<le> stake" "0 \<le> multiplier_of ms k" "whole_cents cap"
  shows "whole_cents v" "v \<le> cap" "0 \<le> cap \<Longrightarrow> 0 \<le> v" "v \<le> dmul stake (multiplier_of ms k)"
proof -
  let ?x = "dmul stake (multiplier_of ms k)"
  obtain raw where raw: "quantize_down ?x = Inr raw" "v = min raw cap"
    using assms(1) by (auto simp: compute_payout_def bind_result_Inr_iff)
  have x: "0 \<le> ?x" using assms(2,3) by (simp add: dmul_def ctx_round_nonneg)
  then have r: "raw = of_int \<lfloor>?x * 100\<rfloor> / 100" using raw(1) by (simp add: quantize_down_Inr)
  have w: "whole_cents raw" unfolding r by simp
  show "whole_cents v" using w assms(4) by (simp add: raw(2) min_def)
  show "v \<le> cap" by (simp add: raw(2))
  have "0 \<le> raw" using x unfolding r by simp
  then show "0 \<le> cap \<Longrightarrow> 0 \<le> v" by (simp add: raw(2))
  have "of_int \<lfloor>?x * 100\<rfloor> \<le> ?x * 100" by simp
  then have "raw \<le> ?x" unfolding r by simp
  then show "v \<le> ?x" by (simp add: raw(2) min_def)
qed

subsection \<open>Facts about the draw\<close>

lemma pop_at_mset:
  assumes "pop_at i xs = (x, ys)" "i < length xs"
  shows "mset xs = add_mset x (mset ys)" "length ys = length xs - 1" "x \<in> set xs" "distinct xs \<Longrightarrow> set ys = set xs - {x}"
    "distinct xs \<Longrightarrow> distinct ys"
proof -
  have s: "xs = take i xs @ x # drop (Suc i) xs" "ys = take i xs @ drop (Suc i) xs" "x = xs ! i"
    using assms by (auto simp: pop_at_def id_take_nth_drop)
  have "mset xs = mset (take i xs @ x # drop (Suc i) xs)" using s(1) by (rule arg_cong)
  then show m: "mset xs = add_mset x (mset ys)" by (simp add: s(2))
  show "length ys = length xs - 1" using arg_cong [OF m, of size] by simp
  show "x \<in> set xs" using s(3) assms(2) by simp
  have "distinct xs \<longleftrightarrow> distinct (x # ys)"
  proof -
    have "mset xs = mset (x # ys)" using m by simp
    then show ?thesis by (metis mset_eq_imp_distinct_iff)
  qed
  moreover have "set xs = insert x (set ys)" using arg_cong [OF m, of set_mset] by simp
  ultimately show "distinct xs \<Longrightarrow> set ys = set xs - {x}" "distinct xs \<Longrightarrow> distinct ys" by auto
qed

text \<open>The draw without its randomness: the numbers popped at given indices.\<close>

fun pops :: "nat list \<Rightarrow> 'a list \<Rightarrow> 'a list" where
  "pops [] pool = []"
| "pops (i # is) pool = (let (x, rest) = pop_at i pool in x # pops is rest)"

fun indices_ok :: "nat list \<Rightarrow> nat \<Rightarrow> bool" where
  "indices_ok [] n \<longleftrightarrow> True"
| "indices_ok (i # is) n \<longleftrightarrow> i < n \<and> indices_ok is (n - 1)"

lemma draw_pops_indices:
  assumes "draw_pops mac n pool s = Inr xs"
  shows "\<exists>is. length is = n \<and> indices_ok is (length pool) \<and> xs = pops is pool"
  using assms
proof (induction n arbitrary: pool s xs)
  case (Suc n)
  obtain index t where b1: "below mac (int (length pool)) s = Inr (index, t)"
    using Suc.prems by (auto simp: bind_result_Inr_iff)
  obtain x rest where b2: "pop_at (nat index) pool = (x, rest)" by fastforce
  obtain ys where "draw_pops mac n rest t = Inr ys" "xs = x # ys"
    using Suc.prems by (auto simp: b1 b2 bind_result_Inr_iff)
  note b = b1 b2 this
  have i: "nat index < length pool" using below_Inr [OF b(1)] by auto
  obtain js where "length js = n" "indices_ok js (length rest)" "ys = pops js rest"
    using Suc.IH [OF b(3)] by blast
  then show ?case
    using b(2,4) i pop_at_mset(2) [OF b(2) i] by (intro exI [of _ "nat index # js"]) simp
qed simp

lemma pops_spec:
  assumes "indices_ok is (length pool)" "distinct pool"
  shows "length (pops is pool) = length is" "distinct (pops is pool)" "set (pops is pool) \<subseteq> set pool"
proof -
  have "length (pops is pool) = length is \<and> distinct (pops is pool) \<and> set (pops is pool) \<subseteq> set pool"
    using assms
  proof (induction "is" arbitrary: pool)
    case (Cons i "is")
    obtain x rest where p: "pop_at i pool = (x, rest)" by fastforce
    have i: "i < length pool" using Cons.prems by simp
    note m = pop_at_mset [OF p i]
    have "length (pops is rest) = length is \<and> distinct (pops is rest) \<and> set (pops is rest) \<subseteq> set rest"
      by (rule Cons.IH) (use Cons.prems m in auto)
    then show ?case using m p Cons.prems(2) by auto
  qed simp
  then show "length (pops is pool) = length is" "distinct (pops is pool)" "set (pops is pool) \<subseteq> set pool" by auto
qed

text \<open>Each selection is popped at exactly one sequence of indices.\<close>

lemma pops_unique:
  assumes "distinct pool" "distinct xs" "set xs \<subseteq> set pool"
  shows "\<exists>!is. length is = length xs \<and> indices_ok is (length pool) \<and> pops is pool = xs"
  using assms
proof (induction xs arbitrary: pool)
  case (Cons x xs)
  then obtain i where i: "i < length pool" "pool ! i = x" by (auto simp: in_set_conv_nth)
  obtain rest where p: "pop_at i pool = (x, rest)" using i by (simp add: pop_at_def)
  note m = pop_at_mset [OF p i(1)]
  have "\<exists>!is. length is = length xs \<and> indices_ok is (length rest) \<and> pops is rest = xs"
    by (rule Cons.IH) (use Cons.prems m in auto)
  then obtain js where js: "length js = length xs" "indices_ok js (length rest)" "pops js rest = xs"
    and u: "\<And>ks. length ks = length xs \<Longrightarrow> indices_ok ks (length rest) \<Longrightarrow> pops ks rest = xs \<Longrightarrow> ks = js"
    by blast
  show ?case
  proof (rule ex1I [of _ "i # js"])
    show "length (i # js) = length (x # xs) \<and> indices_ok (i # js) (length pool) \<and> pops (i # js) pool = x # xs"
      using js i p m(2) by simp
  next
    fix ks assume k: "length ks = length (x # xs) \<and> indices_ok ks (length pool) \<and> pops ks pool = x # xs"
    then obtain j l where kl: "ks = j # l" by (cases ks) auto
    obtain y rest' where q: "pop_at j pool = (y, rest')" by fastforce
    have "y = x" "j < length pool" using k kl q by auto
    moreover have "y = pool ! j" using q by (simp add: pop_at_def)
    ultimately have ji: "j = i" using i Cons.prems(1) by (metis nth_eq_iff_index_eq)
    then have "rest' = rest" using p q by simp
    then have "l = js" using u [of l] k kl q \<open>j < length pool\<close> m(2) by auto
    then show "ks = i # js" using kl ji by simp
  qed
qed (rule ex1I [of _ "[]"], auto)

lemma draw_pops_total:
  assumes "n \<le> easy_bytes (upcoming mac N s)" "bs_counter s \<le> N" "N \<le> 2 ^ 32" "length pool \<le> 128" "n \<le> length pool"
  shows "\<exists>xs. draw_pops mac n pool s = Inr xs"
  using assms
proof (induction n arbitrary: pool s)
  case (Suc n)
  have "\<exists>v t. below mac (int (length pool)) s = Inr (v, t) \<and> bs_counter t \<le> N \<and> n \<le> easy_bytes (upcoming mac N t)"
    by (rule below_total) (use Suc.prems in auto)
  then obtain v t where b: "below mac (int (length pool)) s = Inr (v, t)" "bs_counter t \<le> N"
      "n \<le> easy_bytes (upcoming mac N t)" by blast
  obtain x rest where p: "pop_at (nat v) pool = (x, rest)" by fastforce
  have "nat v < length pool" using below_Inr [OF b(1)] by auto
  note m = pop_at_mset(2) [OF p this]
  have "\<exists>ys. draw_pops mac n rest t = Inr ys"
    by (rule Suc.IH) (use b(2,3) Suc.prems m in auto)
  then obtain ys where "draw_pops mac n rest t = Inr ys" ..
  then show ?case by (simp add: b(1) p)
qed simp

end
