(* ===== verification/Keno_Exposure.thy ===== *)
theory Keno_Exposure
  imports Keno
begin

text \<open>
  The exposure estimate that gates a Keno ticket, \<open>packages/core/keno_exposure.py\<close>: the running mean
  and variance of a round's payout, the 99.9th percentile of their normal approximation, and the two
  caps compared against it. All of it is default-context decimal arithmetic, except the square root,
  which has 40 digits. An integer power is modelled as the product rounded once.
\<close>

definition Z_SCORE_99_9 :: rat where "Z_SCORE_99_9 = 309 / 100"

definition dsquare :: "rat \<Rightarrow> rat" where "dsquare x = dmul x x"

definition single_ticket_expected_payout :: "int \<Rightarrow> multipliers \<Rightarrow> money \<Rightarrow> rat" where
  "single_ticket_expected_payout pick_count ms stake = dmul stake (compute_rtp pick_count ms)"

definition single_ticket_payout_variance :: "int \<Rightarrow> multipliers \<Rightarrow> money \<Rightarrow> rat" where
  "single_ticket_payout_variance pick_count ms stake =
     (let per_unit_stddev = volatility pick_count ms in dmul (dsquare stake) (dsquare per_unit_stddev))"

record ticket_risk =
  tr_expected_payout :: rat
  tr_payout_variance :: rat

definition compute_ticket_risk_contribution :: "int \<Rightarrow> multipliers \<Rightarrow> money \<Rightarrow> ticket_risk" where
  "compute_ticket_risk_contribution pick_count ms stake =
     \<lparr>tr_expected_payout = single_ticket_expected_payout pick_count ms stake,
      tr_payout_variance = single_ticket_payout_variance pick_count ms stake\<rparr>"

definition exposure_sqrt :: "rat \<Rightarrow> rat" where
  "exposure_sqrt v = (if v \<le> 0 then 0 else dec_sqrt 40 v)"

definition estimate_percentile_exposure :: "rat \<Rightarrow> rat \<Rightarrow> rat" where
  "estimate_percentile_exposure total_expected_payout total_payout_variance =
     (let stddev = exposure_sqrt total_payout_variance in dadd total_expected_payout (dmul Z_SCORE_99_9 stddev))"

record exposure_check =
  xc_projected_exposure :: rat
  xc_gross_exposure :: rat
  xc_ceiling :: money
  xc_allowed :: bool

definition check_round_exposure ::
    "rat \<Rightarrow> rat \<Rightarrow> money \<Rightarrow> ticket_risk \<Rightarrow> money \<Rightarrow> money \<Rightarrow> rat \<Rightarrow> int \<Rightarrow> exposure_check result" where
  "check_round_exposure current_total_expected_payout current_total_payout_variance current_total_stake new_ticket
       new_ticket_stake reserve_balance max_round_exposure_pct jackpot_diversion_bps =
     (let projected_expected = dadd current_total_expected_payout (tr_expected_payout new_ticket);
          projected_variance = dadd current_total_payout_variance (tr_payout_variance new_ticket);
          gross_exposure = estimate_percentile_exposure projected_expected projected_variance;
          projected_stake = dadd current_total_stake new_ticket_stake
      in bind_result (quantize_cent (ddiv (dmul projected_stake (dsub 10000 (of_int jackpot_diversion_bps))) 10000)) (\<lambda>reserve_credited.
         let net_exposure = dsub gross_exposure reserve_credited
         in bind_result (quantize_cent (dmul reserve_balance max_round_exposure_pct)) (\<lambda>ceiling.
            Inr \<lparr>xc_projected_exposure = net_exposure, xc_gross_exposure = gross_exposure, xc_ceiling = ceiling,
                 xc_allowed = (net_exposure \<le> ceiling)\<rparr>)))"

definition check_per_user_round_share :: "rat \<Rightarrow> rat \<Rightarrow> ticket_risk \<Rightarrow> money \<Rightarrow> int \<Rightarrow> bool" where
  "check_per_user_round_share user_expected_payout_this_round user_payout_variance_this_round new_ticket
       round_exposure_ceiling max_share_bps =
     (if round_exposure_ceiling \<le> 0 then True
      else let user_expected = dadd user_expected_payout_this_round (tr_expected_payout new_ticket);
               user_variance = dadd user_payout_variance_this_round (tr_payout_variance new_ticket);
               user_exposure = estimate_percentile_exposure user_expected user_variance;
               share_bps = trunc (dmul (ddiv user_exposure round_exposure_ceiling) 10000)
           in share_bps \<le> max_share_bps)"

text \<open>What an accepted check promises: the estimate, less the stakes kept in the reserve, fits under the ceiling.\<close>

lemma check_round_exposure_Inr:
  assumes "check_round_exposure te tv ts t st reserve pct bps = Inr x"
  shows "xc_allowed x \<longleftrightarrow> xc_projected_exposure x \<le> xc_ceiling x"
    "xc_gross_exposure x = estimate_percentile_exposure (dadd te (tr_expected_payout t)) (dadd tv (tr_payout_variance t))"
    "quantize_cent (dmul reserve pct) = Inr (xc_ceiling x)"
    "\<exists>rc. quantize_cent (ddiv (dmul (dadd ts st) (dsub 10000 (of_int bps))) 10000) = Inr rc
      \<and> xc_projected_exposure x = dsub (xc_gross_exposure x) rc"
  using assms by (auto simp: check_round_exposure_def Let_def bind_result_Inr_iff)

lemma dec_sqrt_nonneg: "0 \<le> dec_sqrt p x"
  by (simp add: dec_sqrt_def Let_def less_imp_le)

lemma exposure_sqrt_nonneg: "0 \<le> exposure_sqrt v"
  by (simp add: exposure_sqrt_def dec_sqrt_nonneg)

end
