(* ===== verification/Keno_Config.thy ===== *)
theory Keno_Config
  imports Keno Database
begin

text \<open>
  The readers of Keno's versioned configuration tables, \<open>packages/core/keno_config.py\<close>. The latest
  row whose \<open>effective_from\<close> has passed is the one in effect; of two rows with the same
  \<open>effective_from\<close> PostgreSQL returns either, and the model the first inserted. The \<open>jsonb\<close> column
  \<open>multipliers\<close> is the table it decodes to.
\<close>

fun later :: "('a \<Rightarrow> int) \<Rightarrow> 'a \<Rightarrow> 'a option \<Rightarrow> 'a option" where
  "later f x None = Some x"
| "later f x (Some y) = Some (if f y < f x then x else y)"

definition latest_by :: "('a \<Rightarrow> int) \<Rightarrow> 'a list \<Rightarrow> 'a option" where
  "latest_by f xs = fold (later f) xs None"

definition load_active_config :: "int \<Rightarrow> db \<Rightarrow> keno_config result" where
  "load_active_config now d =
     (case latest_by kc_effective_from (filter (\<lambda>c. kc_effective_from c \<le> now) (keno_configs d)) of
        None \<Rightarrow> Inl RuntimeError
      | Some row \<Rightarrow> Inr row)"

definition tier_by_id :: "db \<Rightarrow> int \<Rightarrow> keno_tier option" where
  "tier_by_id d i = find (\<lambda>t. kt_id t = i) (keno_tiers d)"

definition load_current_tier :: "db \<Rightarrow> keno_tier result" where
  "load_current_tier d =
     (case keno_tier_state d of
        None \<Rightarrow> Inl RuntimeError
      | Some s \<Rightarrow> (case tier_by_id d (ts_current_tier s) of None \<Rightarrow> Inl RuntimeError | Some t \<Rightarrow> Inr t))"

definition is_user_allowed_to_play :: "db \<Rightarrow> int \<Rightarrow> keno_config \<Rightarrow> bool" where
  "is_user_allowed_to_play d user_id config =
     (if \<not> kc_keno_enabled config then False
      else if \<not> kc_beta_restricted config then True
      else user_id \<in> keno_allowlist d)"

definition load_active_paytable :: "int \<Rightarrow> db \<Rightarrow> int \<Rightarrow> string \<Rightarrow> keno_paytable result" where
  "load_active_paytable now d pick_count profile =
     (case latest_by kp_effective_from (filter (\<lambda>p. kp_pick_count p = pick_count \<and> kp_profile p = profile
              \<and> kp_effective_from p \<le> now) (keno_paytables d)) of
        None \<Rightarrow> Inl RuntimeError
      | Some row \<Rightarrow> Inr row)"

lemma latest_by_fold:
  "\<exists>b. fold (later f) xs (Some a) = Some b \<and> b \<in> insert a (set xs) \<and> (\<forall>x\<in>insert a (set xs). f x \<le> f b)"
proof (induction xs arbitrary: a)
  case (Cons x xs)
  from Cons.IH [of "if f a < f x then x else a"] show ?case by (auto split: if_splits)
qed simp

lemma latest_by_Some:
  assumes "latest_by f xs = Some b" shows "b \<in> set xs" "\<forall>x\<in>set xs. f x \<le> f b"
proof -
  obtain y ys where xs: "xs = y # ys" using assms by (cases xs) (auto simp: latest_by_def)
  with assms latest_by_fold [of f ys y] show "b \<in> set xs" "\<forall>x\<in>set xs. f x \<le> f b"
    by (auto simp: latest_by_def)
qed

lemma latest_by_None: "latest_by f xs = None \<longleftrightarrow> xs = []"
  using latest_by_fold [of f "tl xs" "hd xs"] by (cases xs) (auto simp: latest_by_def)

lemma latest_by_filter:
  "latest_by f (filter P xs) = Some b \<Longrightarrow> b \<in> set xs \<and> P b \<and> (\<forall>x\<in>set xs. P x \<longrightarrow> f x \<le> f b)"
  using latest_by_Some [of f "filter P xs" b] by auto

text \<open>The active configuration is in effect and none in effect is newer.\<close>

lemma load_active_config_Inr:
  assumes "load_active_config now d = Inr c"
  shows "c \<in> set (keno_configs d)" "kc_effective_from c \<le> now"
    "\<And>c'. c' \<in> set (keno_configs d) \<Longrightarrow> kc_effective_from c' \<le> now \<Longrightarrow> kc_effective_from c' \<le> kc_effective_from c"
  using assms by (auto simp: load_active_config_def split: option.splits dest!: latest_by_filter)

lemma load_active_paytable_Inr:
  assumes "load_active_paytable now d n profile = Inr p"
  shows "p \<in> set (keno_paytables d)" "kp_pick_count p = n" "kp_profile p = profile" "kp_effective_from p \<le> now"
  using assms by (auto simp: load_active_paytable_def split: option.splits dest!: latest_by_filter)

end
