(* ===== verification/Keno_Tickets.thy ===== *)
theory Keno_Tickets
  imports Keno_Exposure Keno_Config Responsible_Gaming
begin

text \<open>
  Buying a Keno ticket, \<open>packages/core/keno_tickets.py\<close>. The transaction is one function on the
  database, put together from its parts in the order of the code; a rejection is the exception
  \<open>TicketRejected code\<close>, which rolls the transaction back. The locks the code takes (advisory, row)
  are what makes the transaction one step here. The metrics are not modelled.
\<close>

record placed_ticket =
  pt_id :: int
  pt_round :: int
  pt_user :: int
  pt_picks :: "int set"
  pt_stake :: money
  pt_idempotency_key :: string
  pt_status :: string

definition replayed_ticket :: "db \<Rightarrow> string \<Rightarrow> int set \<Rightarrow> string \<Rightarrow> placed_ticket option" where
  "replayed_ticket d ledger_key picks client_key =
     (case find (\<lambda>t. tk_idempotency_key t = ledger_key) (keno_tickets d) of
        None \<Rightarrow> None
      | Some existing \<Rightarrow> Some \<lparr>pt_id = tk_id existing, pt_round = tk_round existing, pt_user = tk_user existing,
          pt_picks = picks, pt_stake = tk_stake existing, pt_idempotency_key = client_key, pt_status = tk_status existing\<rparr>)"

definition reserve_balance_of :: "db \<Rightarrow> (money \<times> db) result" where
  "reserve_balance_of d =
     (let (account, d1) = db_account None ''keno_reserve'' d
      in bind_result (ledger_balance (led d1) (acc_id account)) (\<lambda>b. Inr (b, d1)))"

subsection \<open>The checks\<close>

definition ticket_user_check :: "db \<Rightarrow> int \<Rightarrow> unit result" where
  "ticket_user_check d user_id =
     (case user_by_id d user_id of
        None \<Rightarrow> Inl (TicketRejected ''unknown_user'')
      | Some user_row \<Rightarrow> if us_is_simulated user_row then Inl (TicketRejected ''simulated_player'') else Inr ())"

definition session_by_id :: "db \<Rightarrow> int \<Rightarrow> autoplay_session option" where
  "session_by_id d i = find (\<lambda>s. as_id s = i) (keno_sessions d)"

definition ticket_session_check :: "db \<Rightarrow> int option \<Rightarrow> unit result" where
  "ticket_session_check d autoplay_session_id =
     (case autoplay_session_id of
        None \<Rightarrow> Inr ()
      | Some i \<Rightarrow> if map_option as_status (session_by_id d i) \<noteq> Some ''active''
                  then Inl (TicketRejected ''autoplay_session_not_active'') else Inr ())"

definition ticket_gaming_check :: "int \<Rightarrow> db \<Rightarrow> int \<Rightarrow> money \<Rightarrow> keno_config result" where
  "ticket_gaming_check now d user_id stake =
     (let block = check_stake_allowed now d user_id stake
      in if blocked block
         then (case block_reason block of None \<Rightarrow> Inl AssertionError | Some r \<Rightarrow> Inl (TicketRejected r))
         else bind_result (load_active_config now d) (\<lambda>config.
           if \<not> kc_keno_enabled config then Inl (TicketRejected ''keno_disabled'')
           else if \<not> is_user_allowed_to_play d user_id config then Inl (TicketRejected ''keno_not_on_allowlist'')
           else Inr config))"

definition open_keno_round :: "db \<Rightarrow> keno_round option" where
  "open_keno_round d = latest_by kr_id (filter (\<lambda>r. kr_status r = ''betting_open'') (keno_rounds d))"

definition ticket_round_check :: "db \<Rightarrow> int set \<Rightarrow> money \<Rightarrow> (keno_round \<times> keno_tier) result" where
  "ticket_round_check d picks stake =
     (case open_keno_round d of
        None \<Rightarrow> Inl (TicketRejected ''round_not_accepting_bets'')
      | Some round_row \<Rightarrow>
          if kr_status round_row \<noteq> ''betting_open'' then Inl (TicketRejected ''round_not_accepting_bets'')
          else (case tier_by_id d (kr_tier round_row) of
             None \<Rightarrow> Inl RuntimeError
           | Some tier \<Rightarrow>
               (if kt_max_pick_count tier < int (card picks) then Inl (TicketRejected ''pick_count_not_allowed_at_tier'')
                else if stake \<notin> set (kt_stake_options tier) then Inl (TicketRejected ''stake_not_allowed'')
                else Inr (round_row, tier))))"

definition user_tickets :: "db \<Rightarrow> int \<Rightarrow> int \<Rightarrow> keno_ticket list" where
  "user_tickets d round_id user_id = filter (\<lambda>t. tk_round t = round_id \<and> tk_user t = user_id) (keno_tickets d)"

text \<open>The paytable, the risk the ticket adds, the round's and the player's caps. Reading the reserve creates its account.\<close>

record ticket_quote =
  tq_paytable :: keno_paytable
  tq_risk :: ticket_risk
  tq_exposure :: rat

definition ticket_quote_for ::
    "int \<Rightarrow> int \<Rightarrow> int set \<Rightarrow> money \<Rightarrow> keno_config \<Rightarrow> keno_round \<Rightarrow> keno_tier \<Rightarrow> db \<Rightarrow> (ticket_quote \<times> db) result" where
  "ticket_quote_for now user_id picks stake config round_row tier d =
     (let pick_count = int (card picks) in
      bind_result (load_active_paytable now d pick_count (kt_paytable_profile tier)) (\<lambda>paytable.
      let existing = user_tickets d (kr_id round_row) user_id in
      if kc_max_tickets_per_user_per_round config \<le> int (length existing) then Inl (TicketRejected ''too_many_tickets_this_round'')
      else bind_result (reserve_balance_of d) (\<lambda>(reserve_balance, d1).
      let risk = compute_ticket_risk_contribution pick_count (kp_multipliers paytable) stake in
      bind_result (check_round_exposure (kr_total_expected_payout round_row) (kr_total_payout_variance round_row)
          (kr_total_stake round_row) risk stake reserve_balance (kt_max_round_exposure_pct tier)
          (kc_jackpot_diversion_bps config)) (\<lambda>check.
      if \<not> xc_allowed check then Inl (TicketRejected ''round_capacity_reached'')
      else if \<not> check_per_user_round_share (sum_list (map tk_expected_payout_contribution existing))
          (sum_list (map tk_payout_variance_contribution existing)) risk (xc_ceiling check)
          (kc_per_user_round_capacity_share_bps config)
        then Inl (TicketRejected ''user_round_share_exceeded'')
      else Inr (\<lparr>tq_paytable = paytable, tq_risk = risk, tq_exposure = xc_projected_exposure check\<rparr>, d1)))))"

subsection \<open>The money\<close>

definition stake_split :: "money \<Rightarrow> int \<Rightarrow> (money \<times> money) result" where
  "stake_split stake bps =
     bind_result (quantize_cent (ddiv (dmul stake (of_int bps)) 10000)) (\<lambda>jackpot_cut.
       let reserve_cut = dsub stake jackpot_cut in Inr (reserve_cut, jackpot_cut))"

definition keno_stake_args :: "string \<Rightarrow> money \<Rightarrow> money \<Rightarrow> money \<Rightarrow> int \<Rightarrow> int \<Rightarrow> int \<Rightarrow> post_args" where
  "keno_stake_args ledger_key stake reserve_cut jackpot_cut cash reserve jackpot =
     \<lparr>pa_kind = ''keno_stake'',
      pa_entries = [\<lparr>ent_account = cash, ent_amount = - stake\<rparr>, \<lparr>ent_account = reserve, ent_amount = reserve_cut\<rparr>,
                    \<lparr>ent_account = jackpot, ent_amount = jackpot_cut\<rparr>],
      pa_key = ledger_key, pa_round = None, pa_payment = None, pa_memo = None, pa_by = ''keno_tickets.place_ticket''\<rparr>"

definition take_stake :: "int \<Rightarrow> int \<Rightarrow> string \<Rightarrow> money \<Rightarrow> int \<Rightarrow> db \<Rightarrow> (int \<times> db) result" where
  "take_stake now user_id ledger_key stake bps d =
     (let (reserve_account, d1) = db_account None ''keno_reserve'' d;
          (jackpot_account, d2) = db_account None ''keno_jackpot_pool'' d1;
          (cash_account, d3) = db_account (Some user_id) ''user_cash'' d2
      in bind_result (stake_split stake bps) (\<lambda>(reserve_cut, jackpot_cut).
         case db_post now (keno_stake_args ledger_key stake reserve_cut jackpot_cut (acc_id cash_account)
                (acc_id reserve_account) (acc_id jackpot_account)) d3 of
           Inl (InsufficientFunds _ _) \<Rightarrow> Inl (TicketRejected ''insufficient_balance'')
         | Inl x \<Rightarrow> Inl x
         | Inr (txn, d4) \<Rightarrow> Inr (txn_id txn, d4)))"

subsection \<open>The rows\<close>

definition keno_round_by_id :: "db \<Rightarrow> int \<Rightarrow> keno_round option" where
  "keno_round_by_id d i = find (\<lambda>r. kr_id r = i) (keno_rounds d)"

text \<open>The constraints of \<open>keno_tickets\<close>; two of its columns are rounded as they are stored.\<close>

definition insert_keno_ticket :: "keno_ticket \<Rightarrow> db \<Rightarrow> db result" where
  "insert_keno_ticket t d =
     bind_result (numeric18_2 (tk_expected_payout_contribution t)) (\<lambda>e.
     bind_result (numeric24_6 (tk_payout_variance_contribution t)) (\<lambda>v.
       if \<not> (0 < tk_stake t \<and> 1 \<le> tk_pick_count t \<and> tk_pick_count t \<le> 10) then Inl CheckViolation
       else if tk_idempotency_key t \<in> tk_idempotency_key ` set (keno_tickets d) then Inl UniqueViolation
       else if keno_round_by_id d (tk_round t) = None \<or> user_by_id d (tk_user t) = None then Inl ForeignKeyViolation
       else Inr (d\<lparr>keno_tickets := keno_tickets d @
              [t\<lparr>tk_expected_payout_contribution := e, tk_payout_variance_contribution := v\<rparr>]\<rparr>)))"

definition new_ticket_id :: "db \<Rightarrow> int" where
  "new_ticket_id d = int (length (keno_tickets d)) + 1"

definition new_ticket_row ::
    "int \<Rightarrow> int \<Rightarrow> int \<Rightarrow> int \<Rightarrow> money \<Rightarrow> ticket_quote \<Rightarrow> string \<Rightarrow> int \<Rightarrow> int option \<Rightarrow> keno_ticket" where
  "new_ticket_row ticket_id round_id user_id pick_count stake q ledger_key stake_txn_id autoplay_session_id =
     \<lparr>tk_id = ticket_id, tk_round = round_id, tk_user = user_id, tk_paytable = kp_id (tq_paytable q),
      tk_pick_count = pick_count, tk_stake = stake, tk_expected_payout_contribution = tr_expected_payout (tq_risk q),
      tk_payout_variance_contribution = tr_payout_variance (tq_risk q), tk_status = ''pending'', tk_matches = None,
      tk_payout = None, tk_jackpot_payout = None, tk_idempotency_key = ledger_key, tk_stake_txn = Some stake_txn_id,
      tk_payout_txn = None, tk_autoplay_session = autoplay_session_id, tk_settled_at = None\<rparr>"

definition update_keno_round :: "int \<Rightarrow> (keno_round \<Rightarrow> keno_round) \<Rightarrow> db \<Rightarrow> db" where
  "update_keno_round i f d = d\<lparr>keno_rounds := map (\<lambda>r. if kr_id r = i then f r else r) (keno_rounds d)\<rparr>"

definition bump_round :: "int \<Rightarrow> money \<Rightarrow> ticket_quote \<Rightarrow> db \<Rightarrow> db result" where
  "bump_round round_id stake q d =
     (case keno_round_by_id d round_id of
        None \<Rightarrow> Inr d
      | Some r \<Rightarrow>
          bind_result (numeric18_2 (kr_total_stake r + stake)) (\<lambda>total_stake.
          bind_result (numeric18_2 (kr_total_expected_payout r + tr_expected_payout (tq_risk q))) (\<lambda>expected.
          bind_result (numeric24_6 (kr_total_payout_variance r + tr_payout_variance (tq_risk q))) (\<lambda>variance.
          bind_result (numeric18_2 (tq_exposure q)) (\<lambda>exposure.
            Inr (update_keno_round round_id (\<lambda>r. r\<lparr>kr_total_stake := total_stake, kr_ticket_count := kr_ticket_count r + 1,
              kr_total_expected_payout := expected, kr_total_payout_variance := variance,
              kr_projected_exposure := Some exposure\<rparr>) d))))))"

subsection \<open>The transaction\<close>

definition place_ticket_txn ::
    "int \<Rightarrow> int \<Rightarrow> int set \<Rightarrow> money \<Rightarrow> string \<Rightarrow> int option \<Rightarrow> db \<Rightarrow> (placed_ticket \<times> db) result" where
  "place_ticket_txn now user_id picks stake key autoplay_session_id d =
     (let ledger_key = keno_stake_key user_id key in
      case replayed_ticket d ledger_key picks key of
        Some replay \<Rightarrow> Inr (replay, d)
      | None \<Rightarrow>
          bind_result (ticket_user_check d user_id) (\<lambda>_.
          bind_result (ticket_session_check d autoplay_session_id) (\<lambda>_.
          bind_result (ticket_gaming_check now d user_id stake) (\<lambda>config.
          bind_result (ticket_round_check d picks stake) (\<lambda>(round_row, tier).
          bind_result (ticket_quote_for now user_id picks stake config round_row tier d) (\<lambda>(q, d1).
          bind_result (take_stake now user_id ledger_key stake (kc_jackpot_diversion_bps config) d1) (\<lambda>(stake_txn_id, d2).
          let round_id = kr_id round_row; ticket_id = new_ticket_id d2 in
          bind_result (insert_keno_ticket (new_ticket_row ticket_id round_id user_id (int (card picks)) stake q ledger_key
              stake_txn_id autoplay_session_id) d2) (\<lambda>d3.
          let d4 = d3\<lparr>keno_selections := keno_selections d3 @ map (\<lambda>n. (ticket_id, n)) (sorted_list_of_set picks)\<rparr> in
          bind_result (bump_round round_id stake q d4) (\<lambda>d5.
            Inr (\<lparr>pt_id = ticket_id, pt_round = round_id, pt_user = user_id, pt_picks = picks, pt_stake = stake,
                  pt_idempotency_key = key, pt_status = ''pending''\<rparr>, d5))))))))))"

definition place_ticket ::
    "int \<Rightarrow> int \<Rightarrow> int list \<Rightarrow> money \<Rightarrow> string \<Rightarrow> int option \<Rightarrow> db \<Rightarrow> (placed_ticket \<times> db) result" where
  "place_ticket now user_id picks stake key autoplay_session_id d =
     (case validate_picks picks of
        Inl _ \<Rightarrow> Inl (TicketRejected ''invalid_picks'')
      | Inr validated_picks \<Rightarrow>
          bind_result (place_ticket_txn now user_id validated_picks stake key autoplay_session_id d) (\<lambda>(t, d1).
          bind_result (db_commit d d1) (\<lambda>d2. Inr (t, d2))))"

end
