(* ===== verification/Keno_Autoplay.thy ===== *)
theory Keno_Autoplay
  imports Keno_Tickets
begin

text \<open>
  Autoplay sessions, \<open>packages/core/keno_autoplay.py\<close>: starting and stopping a session, placing one
  ticket per active session into a new round, and applying a settled ticket to its session. Each
  statement outside a transaction commits by itself, so a failure between two of them leaves what the
  first one wrote. An \<open>AutoplayError\<close> carries the code of its class or the reason of the block.
\<close>

definition MAX_ROUNDS_TOTAL :: int where "MAX_ROUNDS_TOTAL = 100"

definition active_session :: "db \<Rightarrow> int \<Rightarrow> autoplay_session option" where
  "active_session d user_id = find (\<lambda>s. as_user s = user_id \<and> as_status s = ''active'') (keno_sessions d)"

definition not_positive :: "rat option \<Rightarrow> bool" where
  "not_positive x \<longleftrightarrow> (case x of None \<Rightarrow> False | Some v \<Rightarrow> v \<le> 0)"

definition session_config_valid :: "money \<Rightarrow> int option \<Rightarrow> money option \<Rightarrow> money option \<Rightarrow> bool" where
  "session_config_valid stake rounds_total stop_on_win_amount stop_on_loss_amount \<longleftrightarrow>
     \<not> stake \<le> 0
     \<and> \<not> (case rounds_total of None \<Rightarrow> False | Some n \<Rightarrow> \<not> (0 < n \<and> n \<le> MAX_ROUNDS_TOTAL))
     \<and> \<not> not_positive stop_on_win_amount
     \<and> \<not> not_positive stop_on_loss_amount
     \<and> \<not> (rounds_total = None \<and> stop_on_win_amount = None \<and> stop_on_loss_amount = None)"

definition optional_numeric :: "rat option \<Rightarrow> rat option result" where
  "optional_numeric x = (case x of None \<Rightarrow> Inr None | Some v \<Rightarrow> bind_result (numeric18_2 v) (\<lambda>w. Inr (Some w)))"

text \<open>The table's constraints: the amounts positive once rounded, one active session per player.\<close>

definition insert_session ::
    "int \<Rightarrow> int list \<Rightarrow> money \<Rightarrow> int option \<Rightarrow> money option \<Rightarrow> money option \<Rightarrow> db \<Rightarrow> (autoplay_session \<times> db) result" where
  "insert_session user_id picks stake rounds_total win loss d =
     bind_result (numeric18_2 stake) (\<lambda>stake'.
     bind_result (optional_numeric win) (\<lambda>win'.
     bind_result (optional_numeric loss) (\<lambda>loss'.
       if stake' \<le> 0 \<or> not_positive win' \<or> not_positive loss' then Inl CheckViolation
       else if active_session d user_id \<noteq> None then Inl UniqueViolation
       else if user_by_id d user_id = None then Inl ForeignKeyViolation
       else let row = \<lparr>as_id = int (length (keno_sessions d)) + 1, as_user = user_id, as_picks = picks, as_stake = stake',
                   as_rounds_total = rounds_total, as_rounds_placed = 0, as_stop_on_win = win', as_stop_on_loss = loss',
                   as_net_position = 0, as_status = ''active'', as_stop_reason = None, as_last_round = None\<rparr>
            in Inr (row, d\<lparr>keno_sessions := keno_sessions d @ [row]\<rparr>))))"

definition start_session ::
    "int \<Rightarrow> int \<Rightarrow> int list \<Rightarrow> money \<Rightarrow> int option \<Rightarrow> money option \<Rightarrow> money option \<Rightarrow> db \<Rightarrow> (autoplay_session \<times> db) result" where
  "start_session now user_id picks stake rounds_total stop_on_win_amount stop_on_loss_amount d =
     (case validate_picks picks of
        Inl _ \<Rightarrow> Inl KenoError
      | Inr validated_picks \<Rightarrow>
          if \<not> session_config_valid stake rounds_total stop_on_win_amount stop_on_loss_amount
            then Inl (AutoplayError ''invalid_autoplay_config'')
          else let block = check_stake_allowed now d user_id stake
          in if blocked block
             then (case block_reason block of None \<Rightarrow> Inl AssertionError | Some r \<Rightarrow> Inl (AutoplayError r))
             else if active_session d user_id \<noteq> None then Inl (AutoplayError ''autoplay_session_already_active'')
             else insert_session user_id (sorted_list_of_set validated_picks) stake rounds_total stop_on_win_amount
                    stop_on_loss_amount d)"

definition update_sessions :: "(autoplay_session \<Rightarrow> bool) \<Rightarrow> (autoplay_session \<Rightarrow> autoplay_session) \<Rightarrow> db \<Rightarrow> db" where
  "update_sessions P f d = d\<lparr>keno_sessions := map (\<lambda>s. if P s then f s else s) (keno_sessions d)\<rparr>"

definition stop_session :: "int \<Rightarrow> db \<Rightarrow> autoplay_session option \<times> db" where
  "stop_session user_id d =
     (let stop = (\<lambda>s. s\<lparr>as_status := ''stopped'', as_stop_reason := Some ''manual''\<rparr>)
      in (map_option stop (active_session d user_id),
          update_sessions (\<lambda>s. as_user s = user_id \<and> as_status s = ''active'') stop d))"

definition stop_internal :: "int \<Rightarrow> string \<Rightarrow> string \<Rightarrow> db \<Rightarrow> db" where
  "stop_internal session_id status reason =
     update_sessions (\<lambda>s. as_id s = session_id \<and> as_status s = ''active'')
       (\<lambda>s. s\<lparr>as_status := status, as_stop_reason := Some reason\<rparr>)"

definition autoplay_client_key :: "int \<Rightarrow> int \<Rightarrow> string" where
  "autoplay_client_key session_id round_id = ''autoplay:'' @ str_int session_id @ '':'' @ str_int round_id"

definition place_for_session :: "int \<Rightarrow> int \<Rightarrow> autoplay_session \<Rightarrow> db \<Rightarrow> db result" where
  "place_for_session now round_id session d =
     (case place_ticket now (as_user session) (as_picks session) (as_stake session)
             (autoplay_client_key (as_id session) round_id) (Some (as_id session)) d of
        Inl (TicketRejected code) \<Rightarrow> Inr (stop_internal (as_id session) ''stopped'' (''ticket_rejected:'' @ code) d)
      | Inl x \<Rightarrow> Inl x
      | Inr (_, d1) \<Rightarrow>
          (let d2 = update_sessions (\<lambda>s. as_id s = as_id session)
                 (\<lambda>s. s\<lparr>as_rounds_placed := as_rounds_placed s + 1, as_last_round := Some round_id\<rparr>) d1
           in Inr (case as_rounds_total session of
                None \<Rightarrow> d2
              | Some n \<Rightarrow> if n \<le> as_rounds_placed session + 1
                             then stop_internal (as_id session) ''exhausted'' ''rounds_exhausted'' d2 else d2)))"

text \<open>An exception out of a placement stops that session; the transaction it came from wrote nothing.\<close>

definition place_safely :: "int \<Rightarrow> int \<Rightarrow> autoplay_session \<Rightarrow> db \<Rightarrow> db" where
  "place_safely now round_id session d =
     (case place_for_session now round_id session d of
        Inl _ \<Rightarrow> stop_internal (as_id session) ''stopped'' ''placement_error'' d
      | Inr d1 \<Rightarrow> d1)"

definition place_for_active_sessions :: "int \<Rightarrow> int \<Rightarrow> db \<Rightarrow> db" where
  "place_for_active_sessions now round_id d =
     fold (place_safely now round_id)
       (sort_key as_id (filter (\<lambda>s. as_status s = ''active'') (keno_sessions d))) d"

definition session_after_settlement :: "autoplay_session \<Rightarrow> db \<Rightarrow> db" where
  "session_after_settlement session d =
     (if (case as_stop_on_win session of None \<Rightarrow> False | Some w \<Rightarrow> w \<le> as_net_position session)
        then stop_internal (as_id session) ''stopped'' ''stop_on_win'' d
      else if (case as_stop_on_loss session of None \<Rightarrow> False | Some l \<Rightarrow> as_net_position session \<le> - l)
        then stop_internal (as_id session) ''stopped'' ''stop_on_loss'' d
      else d)"

definition record_settlement :: "int option \<Rightarrow> money \<Rightarrow> money \<Rightarrow> money \<Rightarrow> db \<Rightarrow> db result" where
  "record_settlement autoplay_session_id stake payout jackpot_payout d =
     (case autoplay_session_id of
        None \<Rightarrow> Inr d
      | Some i \<Rightarrow>
          (let delta = dsub (dadd payout jackpot_payout) stake in
           case find (\<lambda>s. as_id s = i \<and> as_status s = ''active'') (keno_sessions d) of
             None \<Rightarrow> Inr d
           | Some s \<Rightarrow>
               bind_result (numeric18_2 (as_net_position s + delta)) (\<lambda>net.
               let session = s\<lparr>as_net_position := net\<rparr>;
                   d1 = update_sessions (\<lambda>s. as_id s = i \<and> as_status s = ''active'') (\<lambda>s. s\<lparr>as_net_position := net\<rparr>) d
               in Inr (session_after_settlement session d1))))"

definition record_settlement_safely :: "int option \<Rightarrow> money \<Rightarrow> money \<Rightarrow> money \<Rightarrow> db \<Rightarrow> db" where
  "record_settlement_safely autoplay_session_id stake payout jackpot_payout d =
     (case record_settlement autoplay_session_id stake payout jackpot_payout d of
        Inr d1 \<Rightarrow> d1
      | Inl _ \<Rightarrow>
          (case autoplay_session_id of
             None \<Rightarrow> d
           | Some i \<Rightarrow> stop_internal i ''stopped'' ''settlement_error'' d))"

end
