(* ===== verification/Keno_Tiers.thy ===== *)
theory Keno_Tiers
  imports Keno_Tickets
begin

text \<open>
  Promotion and demotion between risk tiers and the daily payout circuit breaker,
  \<open>packages/core/keno_tier_automation.py\<close>. Both are transactions on the database; log lines, metrics
  and the text of a change's reason are not modelled. \<open>now\<close> stands for the database's clock and, in
  the promotion's hold, for the worker's.
\<close>

definition PROMOTION_HOLD :: int where "PROMOTION_HOLD = 7 * 86400 * 1000000"

record tier_change_result =
  tcr_changed :: bool
  tcr_from_tier :: "int option"
  tcr_to_tier :: "int option"
  tcr_trigger :: "string option"

definition unchanged :: tier_change_result where
  "unchanged = \<lparr>tcr_changed = False, tcr_from_tier = None, tcr_to_tier = None, tcr_trigger = None\<rparr>"

definition apply_tier_change :: "int option \<Rightarrow> int \<Rightarrow> string \<Rightarrow> money option \<Rightarrow> db \<Rightarrow> db" where
  "apply_tier_change from_tier_id to_tier_id trigger reserve_balance d =
     d\<lparr>keno_tier_state := Some \<lparr>ts_current_tier = to_tier_id, ts_candidate_tier = None, ts_candidate_since = None\<rparr>,
       keno_tier_changes := keno_tier_changes d @
         [\<lparr>tc_from_tier = from_tier_id, tc_to_tier = to_tier_id, tc_trigger = trigger, tc_reserve_balance = reserve_balance\<rparr>]\<rparr>"

definition changed :: "keno_tier \<Rightarrow> keno_tier \<Rightarrow> string \<Rightarrow> tier_change_result" where
  "changed from_tier to_tier trigger =
     \<lparr>tcr_changed = True, tcr_from_tier = Some (kt_tier_number from_tier), tcr_to_tier = Some (kt_tier_number to_tier),
      tcr_trigger = Some trigger\<rparr>"

text \<open>\<open>DISTINCT ON (tier_number)\<close>: the latest effective row of each tier, in the order of the tiers.\<close>

definition effective_tiers :: "int \<Rightarrow> db \<Rightarrow> keno_tier list" where
  "effective_tiers now d =
     (let rows = filter (\<lambda>t. kt_effective_from t \<le> now) (keno_tiers d)
      in concat (map (\<lambda>n. case latest_by kt_effective_from (filter (\<lambda>t. kt_tier_number t = n) rows) of
             None \<Rightarrow> [] | Some t \<Rightarrow> [t])
           (sort (remdups (map kt_tier_number rows)))))"

definition eligible_tier :: "int \<Rightarrow> money \<Rightarrow> keno_tier \<Rightarrow> db \<Rightarrow> keno_tier" where
  "eligible_tier now reserve_balance current_tier d =
     (case latest_by kt_tier_number (filter (\<lambda>t. kt_min_reserve t \<le> reserve_balance) (effective_tiers now d)) of
        None \<Rightarrow> current_tier
      | Some t \<Rightarrow> t)"

definition evaluate_tier_transition :: "int \<Rightarrow> money \<Rightarrow> db \<Rightarrow> (tier_change_result \<times> db) result" where
  "evaluate_tier_transition now reserve_balance d =
     (case keno_tier_state d of
        None \<Rightarrow> Inr (unchanged, d)
      | Some state \<Rightarrow>
          (case tier_by_id d (ts_current_tier state) of
             None \<Rightarrow> Inl AssertionError
           | Some current_tier \<Rightarrow>
               (let eligible = eligible_tier now reserve_balance current_tier d in
                if kt_tier_number current_tier < kt_tier_number eligible then
                  (case (ts_candidate_tier state = Some (kt_id eligible), ts_candidate_since state) of
                     (True, Some since) \<Rightarrow>
                       (if PROMOTION_HOLD \<le> now - since
                        then Inr (changed current_tier eligible ''automated_promotion'',
                          apply_tier_change (Some (kt_id current_tier)) (kt_id eligible) ''automated_promotion''
                            (Some reserve_balance) d)
                        else Inr (unchanged, d))
                   | _ \<Rightarrow> Inr (unchanged, d\<lparr>keno_tier_state := Some (state\<lparr>ts_candidate_tier := Some (kt_id eligible),
                            ts_candidate_since := Some now\<rparr>)\<rparr>))
                else if kt_tier_number eligible < kt_tier_number current_tier then
                  Inr (changed current_tier eligible ''automated_demotion'',
                    apply_tier_change (Some (kt_id current_tier)) (kt_id eligible) ''automated_demotion'' (Some reserve_balance) d)
                else if ts_candidate_tier state \<noteq> None then
                  Inr (unchanged, d\<lparr>keno_tier_state := Some (state\<lparr>ts_candidate_tier := None, ts_candidate_since := None\<rparr>)\<rparr>)
                else Inr (unchanged, d))))"

definition DAY_MICROSECONDS :: int where "DAY_MICROSECONDS = 86400 * 1000000"

text \<open>
  The two sums of the breaker. An entry is written in the transaction of its \<open>ledger_transactions\<close>
  row, so its \<open>created_at\<close> is that row's.
\<close>

definition actual_payout_24h :: "int \<Rightarrow> ledger \<Rightarrow> money" where
  "actual_payout_24h now l =
     sum_list (map er_amount (filter (\<lambda>r. now - DAY_MICROSECONDS \<le> er_created_at r \<and> 0 < er_amount r
       \<and> (\<exists>t\<in>set (txns l). txn_id t = er_txn r \<and> (txn_kind t = ''keno_payout'' \<or> txn_kind t = ''keno_jackpot_payout'')))
       (entry_rows l)))"

definition expected_payout_24h :: "int \<Rightarrow> db \<Rightarrow> money" where
  "expected_payout_24h now d =
     sum_list (map tk_expected_payout_contribution (filter (\<lambda>t.
       case keno_round_by_id d (tk_round t) of
         None \<Rightarrow> False
       | Some r \<Rightarrow> (case kr_betting_opened_at r of None \<Rightarrow> False | Some b \<Rightarrow> now - DAY_MICROSECONDS \<le> b)) (keno_tickets d)))"

definition lower_tier :: "int \<Rightarrow> int \<Rightarrow> db \<Rightarrow> keno_tier option" where
  "lower_tier now tier_number d = latest_by kt_tier_number (filter (\<lambda>t. kt_tier_number t < tier_number) (effective_tiers now d))"

definition check_circuit_breaker :: "int \<Rightarrow> db \<Rightarrow> (tier_change_result \<times> db) result" where
  "check_circuit_breaker now d =
     (case keno_tier_state d of
        None \<Rightarrow> Inr (unchanged, d)
      | Some state \<Rightarrow>
          (case latest_by kc_effective_from (filter (\<lambda>c. kc_effective_from c \<le> now) (keno_configs d)) of
             None \<Rightarrow> Inr (unchanged, d)
           | Some config \<Rightarrow>
               (let actual = actual_payout_24h now (led d); expected = expected_payout_24h now d in
                if expected \<le> 0 then Inr (unchanged, d)
                else if actual \<le> dmul expected (kc_daily_payout_circuit_breaker_multiple config) then Inr (unchanged, d)
                else case tier_by_id d (ts_current_tier state) of
                  None \<Rightarrow> Inl AssertionError
                | Some current_tier \<Rightarrow>
                    (case lower_tier now (kt_tier_number current_tier) d of
                       None \<Rightarrow> Inr (unchanged, d)
                     | Some lower \<Rightarrow>
                         bind_result (reserve_balance_of d) (\<lambda>(reserve_balance, d1).
                           Inr (changed current_tier lower ''circuit_breaker'',
                             apply_tier_change (Some (kt_id current_tier)) (kt_id lower) ''circuit_breaker''
                               (Some reserve_balance) d1))))))"

end
