(* ===== verification/Keno_Engine.thy ===== *)
theory Keno_Engine
  imports Keno_Autoplay Keno_Tiers
begin

text \<open>
  The Keno round lifecycle, \<open>services/engine/keno_round_engine.py\<close>: scheduled, betting_open,
  betting_closed, drawing, draw_complete, settling, completed, with failed as the refund path. The
  record \<open>keno_engine\<close> is one \<open>KenoRoundEngine\<close>: its worker id, the lock as what \<open>is_held()\<close>
  answers, the stop flag, the rounds with a settlement task, and the messages published. Every
  transaction is a function on the database alone. An operation that sleeps takes as arguments what
  it finds when it wakes: the betting phase its clock and lock readings, the reveal whether it may go
  on at each number. A snapshot read outside a transaction and the transaction that uses it are one
  step here.
\<close>

record keno_ctx =
  cx_id :: int
  cx_config :: keno_config
  cx_tier :: keno_tier
  cx_server_seed :: "bytes option"
  cx_server_seed_hash :: string

datatype keno_message =
    BettingOpen int string int int int "money list"
  | BettingClosing int rat
  | BettingClosed int int
  | DrawStarted int
  | NumberDrawn int int int
  | DrawCompleted int "int list"
  | RoundCompleted int money
  | RoundFailed int string
  | TicketSettled int int int int money "money option"
  | KenoBalance int "balance_snapshot result"

record keno_engine =
  kw_worker_id :: string
  kw_lock_held :: bool
  kw_stop_requested :: bool
  kw_settling :: "int set"
  kw_published :: "keno_message list"

type_synonym 'r koutcome = "(exc + 'r) \<times> keno_engine \<times> db"

definition KENO_TERMINAL_STATUSES :: "string set" where
  "KENO_TERMINAL_STATUSES = {''completed'', ''failed'', ''voided''}"

definition STUCK_ROUND_THRESHOLD_SECONDS :: rat where "STUCK_ROUND_THRESHOLD_SECONDS = 300"

definition BETTING_CLOSING_WARNING_SECONDS :: rat where "BETTING_CLOSING_WARNING_SECONDS = 5"

definition new_keno_engine :: "string \<Rightarrow> keno_engine" where
  "new_keno_engine worker_id = \<lparr>kw_worker_id = worker_id, kw_lock_held = False, kw_stop_requested = False,
     kw_settling = {}, kw_published = []\<rparr>"

definition kpublish :: "keno_message \<Rightarrow> keno_engine \<Rightarrow> keno_engine" where
  "kpublish m e = e\<lparr>kw_published := kw_published e @ [m]\<rparr>"

definition spawn_settlement :: "int \<Rightarrow> keno_engine \<Rightarrow> keno_engine" where
  "spawn_settlement round_id e = e\<lparr>kw_settling := insert round_id (kw_settling e)\<rparr>"

definition record_event :: "string \<Rightarrow> int \<Rightarrow> string option \<Rightarrow> string \<Rightarrow> string option \<Rightarrow> db \<Rightarrow> db result" where
  "record_event worker_id round_id from_status to_status reason d =
     (if keno_round_by_id d round_id = None then Inl ForeignKeyViolation
      else Inr (d\<lparr>keno_events := keno_events d @ [\<lparr>ke_round = round_id, ke_from_status = from_status,
             ke_to_status = to_status, ke_worker = Some worker_id, ke_reason = reason\<rparr>]\<rparr>))"

subsection \<open>Creating a round\<close>

definition next_keno_seq :: "db \<Rightarrow> int" where
  "next_keno_seq d = (if keno_rounds d = [] then 0 else Max (kr_seq ` set (keno_rounds d))) + 1"

definition new_keno_round :: "int \<Rightarrow> keno_config \<Rightarrow> keno_tier \<Rightarrow> bytes \<Rightarrow> string \<Rightarrow> db \<Rightarrow> keno_round" where
  "new_keno_round now config tier seed worker_id d =
     \<lparr>kr_id = int (length (keno_rounds d)) + 1, kr_seq = next_keno_seq d, kr_status = ''scheduled'', kr_config = kc_id config,
      kr_tier = kt_id tier, kr_server_seed = Some seed, kr_server_seed_hash = server_seed_hash seed, kr_public_seed = None,
      kr_ticket_ids_hash = None, kr_drawn_numbers = None, kr_reveal_index = 0, kr_total_stake = 0, kr_total_payout = 0,
      kr_ticket_count = 0, kr_total_expected_payout = 0, kr_total_payout_variance = 0, kr_projected_exposure = None,
      kr_jackpot_hit = False, kr_worker = Some worker_id, kr_failure_reason = None, kr_scheduled_at = now,
      kr_betting_opened_at = None, kr_betting_closed_at = None, kr_draw_started_at = None, kr_draw_completed_at = None,
      kr_settled_at = None, kr_completed_at = None\<rparr>"

definition create_round_txn :: "string \<Rightarrow> int \<Rightarrow> bytes \<Rightarrow> db \<Rightarrow> (keno_ctx \<times> db) result" where
  "create_round_txn worker_id now seed d =
     bind_result (load_active_config now d) (\<lambda>config.
     bind_result (load_current_tier d) (\<lambda>tier.
     let row = new_keno_round now config tier seed worker_id d in
     bind_result (record_event worker_id (kr_id row) None ''scheduled'' None (d\<lparr>keno_rounds := keno_rounds d @ [row]\<rparr>)) (\<lambda>d1.
       Inr (\<lparr>cx_id = kr_id row, cx_config = config, cx_tier = tier, cx_server_seed = Some seed,
             cx_server_seed_hash = kr_server_seed_hash row\<rparr>, d1))))"

definition update_solvency :: "db \<Rightarrow> money result \<times> db" where
  "update_solvency d = (let (account, d1) = db_account None ''keno_reserve'' d in (ledger_balance (led d1) (acc_id account), d1))"

definition automate_tiers :: "int \<Rightarrow> money \<Rightarrow> db \<Rightarrow> unit result \<times> db" where
  "automate_tiers now reserve_balance d =
     (case check_circuit_breaker now d of
        Inl x \<Rightarrow> (Inl x, d)
      | Inr (breaker_result, d1) \<Rightarrow>
          (if tcr_changed breaker_result then (Inr (), d1)
           else case evaluate_tier_transition now reserve_balance d1 of
                  Inl x \<Rightarrow> (Inl x, d1)
                | Inr (_, d2) \<Rightarrow> (Inr (), d2)))"

definition create_round :: "int \<Rightarrow> bytes \<Rightarrow> keno_engine \<Rightarrow> db \<Rightarrow> keno_ctx koutcome" where
  "create_round now seed e d =
     (case create_round_txn (kw_worker_id e) now seed d of
        Inl x \<Rightarrow> (Inl x, e, d)
      | Inr (ctx, d1) \<Rightarrow>
          (case update_solvency d1 of
             (Inl x, d2) \<Rightarrow> (Inl x, e, d2)
           | (Inr reserve_balance, d2) \<Rightarrow>
               (case automate_tiers now reserve_balance d2 of
                  (Inl x, d3) \<Rightarrow> (Inl x, e, d3)
                | (Inr _, d3) \<Rightarrow> (Inr ctx, e, d3))))"

subsection \<open>Betting\<close>

text \<open>The partial unique index lets at most one round be \<open>betting_open\<close>.\<close>

definition open_betting_txn :: "string \<Rightarrow> int \<Rightarrow> int \<Rightarrow> db \<Rightarrow> db result" where
  "open_betting_txn worker_id now round_id d =
     (if \<exists>r\<in>set (keno_rounds d). kr_status r = ''betting_open'' \<and> kr_id r \<noteq> round_id then Inl UniqueViolation
      else record_event worker_id round_id (Some ''scheduled'') ''betting_open'' None
             (update_keno_round round_id (\<lambda>r. r\<lparr>kr_status := ''betting_open'', kr_betting_opened_at := Some now\<rparr>) d))"

definition open_betting :: "int \<Rightarrow> keno_ctx \<Rightarrow> keno_engine \<Rightarrow> db \<Rightarrow> unit koutcome" where
  "open_betting now ctx e d =
     (case open_betting_txn (kw_worker_id e) now (cx_id ctx) d of
        Inl x \<Rightarrow> (Inl x, e, d)
      | Inr d1 \<Rightarrow>
          (Inr (), kpublish (BettingOpen (cx_id ctx) (cx_server_seed_hash ctx) (kc_betting_seconds (cx_config ctx))
               (kc_min_picks (cx_config ctx)) (min (kc_max_picks (cx_config ctx)) (kt_max_pick_count (cx_tier ctx)))
               (kt_stake_options (cx_tier ctx))) e,
           place_for_active_sessions now (cx_id ctx) d1))"

text \<open>The loop of the betting phase over what each wake-up finds: the clock, the lock and the stop flag.\<close>

fun run_betting_phase :: "keno_ctx \<Rightarrow> rat \<Rightarrow> (rat \<times> bool \<times> bool) list \<Rightarrow> bool \<Rightarrow> keno_engine \<Rightarrow> bool option \<times> keno_engine" where
  "run_betting_phase ctx deadline [] warned_closing e = (None, e)"
| "run_betting_phase ctx deadline ((clk, held, stop) # readings) warned_closing e =
     (let e = e\<lparr>kw_lock_held := held, kw_stop_requested := stop\<rparr>; remaining = deadline - clk in
      if remaining \<le> 0 then (Some True, e)
      else if \<not> held \<or> stop then (Some False, e)
      else if \<not> warned_closing \<and> remaining \<le> BETTING_CLOSING_WARNING_SECONDS
        then run_betting_phase ctx deadline readings True (kpublish (BettingClosing (cx_id ctx) remaining) e)
      else run_betting_phase ctx deadline readings warned_closing e)"

definition round_tickets :: "db \<Rightarrow> int \<Rightarrow> keno_ticket list" where
  "round_tickets d i = filter (\<lambda>t. tk_round t = i) (keno_tickets d)"

definition close_betting_txn :: "string \<Rightarrow> int \<Rightarrow> int \<Rightarrow> db \<Rightarrow> (int \<times> db) result" where
  "close_betting_txn worker_id now round_id d =
     (let ticket_ids = map tk_id (round_tickets d round_id);
          ticket_ids_hash = compute_ticket_ids_rolling_hash ticket_ids
      in if keno_round_by_id d round_id = None then Inl AttributeError
         else let public_seed = derive_public_seed round_id (now div 1000000) ticket_ids_hash in
           bind_result (record_event worker_id round_id (Some ''betting_open'') ''betting_closed'' None
             (update_keno_round round_id (\<lambda>r. r\<lparr>kr_status := ''betting_closed'', kr_betting_closed_at := Some now,
                 kr_ticket_ids_hash := Some ticket_ids_hash, kr_public_seed := Some public_seed\<rparr>) d))
           (\<lambda>d1. Inr (int (length ticket_ids), d1)))"

definition close_betting :: "int \<Rightarrow> keno_ctx \<Rightarrow> keno_engine \<Rightarrow> db \<Rightarrow> unit koutcome" where
  "close_betting now ctx e d =
     (case close_betting_txn (kw_worker_id e) now (cx_id ctx) d of
        Inl x \<Rightarrow> (Inl x, e, d)
      | Inr (n, d1) \<Rightarrow> (Inr (), kpublish (BettingClosed (cx_id ctx) n) e, d1))"

subsection \<open>The draw\<close>

text \<open>The trigger on \<open>drawn_numbers\<close> refuses to change them once set.\<close>

definition store_draw :: "int \<Rightarrow> int \<Rightarrow> int list \<Rightarrow> db \<Rightarrow> db result" where
  "store_draw now round_id drawn d =
     (case keno_round_by_id d round_id of
        None \<Rightarrow> Inr d
      | Some r \<Rightarrow>
          if kr_drawn_numbers r \<noteq> None \<and> kr_drawn_numbers r \<noteq> Some drawn then Inl CheckViolation
          else Inr (update_keno_round round_id (\<lambda>r. r\<lparr>kr_status := ''drawing'', kr_draw_started_at := Some now,
                 kr_drawn_numbers := Some drawn\<rparr>) d))"

text \<open>The numbers, and whether this call drew them.\<close>

definition draw_numbers :: "string \<Rightarrow> int \<Rightarrow> keno_ctx \<Rightarrow> db \<Rightarrow> ((int list \<times> bool) \<times> db) result" where
  "draw_numbers worker_id now ctx d =
     (case keno_round_by_id d (cx_id ctx) of
        None \<Rightarrow> Inl AssertionError
      | Some round_row \<Rightarrow>
          (case kr_public_seed round_row of
             None \<Rightarrow> Inl AssertionError
           | Some public_seed \<Rightarrow>
               (case kr_drawn_numbers round_row of
                  Some drawn \<Rightarrow> Inr ((drawn, False), d)
                | None \<Rightarrow>
                    (case cx_server_seed ctx of
                       None \<Rightarrow> Inl TypeError
                     | Some seed \<Rightarrow>
                         bind_result (derive_keno_draw seed public_seed (kc_number_pool_size (cx_config ctx))
                             (kc_draw_count (cx_config ctx))) (\<lambda>drawn.
                         bind_result (store_draw now (cx_id ctx) drawn d) (\<lambda>d1.
                         bind_result (record_event worker_id (cx_id ctx) (Some ''betting_closed'') ''drawing'' None d1) (\<lambda>d2.
                           Inr ((drawn, True), d2))))))))"

text \<open>Revealing from \<open>index\<close> on; \<open>may index\<close> is whether the lock is held and no stop requested then.\<close>

fun reveal_from :: "(int \<Rightarrow> bool) \<Rightarrow> int \<Rightarrow> int \<Rightarrow> int list \<Rightarrow> keno_engine \<Rightarrow> db \<Rightarrow> keno_engine \<times> db" where
  "reveal_from may round_id index [] e d = (e, d)"
| "reveal_from may round_id index (n # ns) e d =
     (if \<not> may index then (e, d)
      else reveal_from may round_id (index + 1) ns (kpublish (NumberDrawn round_id index n) e)
             (update_keno_round round_id (\<lambda>r. r\<lparr>kr_reveal_index := index + 1\<rparr>) d))"

definition reveal_numbers :: "(int \<Rightarrow> bool) \<Rightarrow> int \<Rightarrow> int list \<Rightarrow> keno_engine \<Rightarrow> db \<Rightarrow> unit koutcome" where
  "reveal_numbers may round_id drawn e d =
     (if drawn = [] then (Inl ZeroDivisionError, e, d)
      else case keno_round_by_id d round_id of
        None \<Rightarrow> (Inl TypeError, e, d)
      | Some r \<Rightarrow>
          (let (e1, d1) = reveal_from may round_id (kr_reveal_index r) (drop (nat (kr_reveal_index r)) drawn) e d
           in (Inr (), e1, d1)))"

definition finish_draw_txn :: "string \<Rightarrow> int \<Rightarrow> int \<Rightarrow> db \<Rightarrow> db result" where
  "finish_draw_txn worker_id now round_id d =
     record_event worker_id round_id (Some ''drawing'') ''draw_complete'' None
       (update_keno_round round_id (\<lambda>r. r\<lparr>kr_status := ''draw_complete'', kr_draw_completed_at := Some now\<rparr>) d)"

definition run_draw :: "int \<Rightarrow> int \<Rightarrow> (int \<Rightarrow> bool) \<Rightarrow> keno_ctx \<Rightarrow> keno_engine \<Rightarrow> db \<Rightarrow> unit koutcome" where
  "run_draw now now' may ctx e d =
     (case draw_numbers (kw_worker_id e) now ctx d of
        Inl x \<Rightarrow> (Inl x, e, d)
      | Inr ((drawn, fresh), d1) \<Rightarrow>
          (let e1 = (if fresh then kpublish (DrawStarted (cx_id ctx)) e else e) in
           case reveal_numbers may (cx_id ctx) drawn e1 d1 of
             (Inl x, e2, d2) \<Rightarrow> (Inl x, e2, d2)
           | (Inr _, e2, d2) \<Rightarrow>
               (case finish_draw_txn (kw_worker_id e) now' (cx_id ctx) d2 of
                  Inl x \<Rightarrow> (Inl x, e2, d2)
                | Inr d3 \<Rightarrow> (Inr (), kpublish (DrawCompleted (cx_id ctx) drawn) e2, d3))))"

end
