(* ===== verification/Keno_Settle.thy ===== *)
theory Keno_Settle
  imports Keno_Engine
begin

text \<open>
  The second half of \<open>services/engine/keno_round_engine.py\<close>: settling a round's tickets, the jackpot,
  failing a round with refunds, crash recovery, and one full round. The settlement task swallows its
  exceptions; what it had committed stays.
\<close>

subsection \<open>One ticket\<close>

definition keno_payout_args :: "int \<Rightarrow> int \<Rightarrow> money \<Rightarrow> int \<Rightarrow> int \<Rightarrow> post_args" where
  "keno_payout_args round_id ticket_id payout reserve cash =
     \<lparr>pa_kind = ''keno_payout'',
      pa_entries = [\<lparr>ent_account = reserve, ent_amount = - payout\<rparr>, \<lparr>ent_account = cash, ent_amount = payout\<rparr>],
      pa_key = keno_settle_key round_id ticket_id, pa_round = None, pa_payment = None, pa_memo = None,
      pa_by = ''keno_round_engine''\<rparr>"

definition update_ticket :: "int \<Rightarrow> (keno_ticket \<Rightarrow> bool) \<Rightarrow> (keno_ticket \<Rightarrow> keno_ticket) \<Rightarrow> db \<Rightarrow> db" where
  "update_ticket i P f d = d\<lparr>keno_tickets := map (\<lambda>t. if tk_id t = i \<and> P t then f t else t) (keno_tickets d)\<rparr>"

definition settle_one_ticket :: "int \<Rightarrow> int \<Rightarrow> int \<Rightarrow> int \<Rightarrow> int \<Rightarrow> money \<Rightarrow> db \<Rightarrow> (bool \<times> db) result" where
  "settle_one_ticket now ticket_id round_id user_id matches payout d =
     (let status = (if 0 < payout then ''won'' else ''lost'') in
      bind_result
        (if 0 < payout then
           let (reserve_account, d1) = db_account None ''keno_reserve'' d;
               (cash_account, d2) = db_account (Some user_id) ''user_cash'' d1
           in bind_result (db_post now (keno_payout_args round_id ticket_id payout (acc_id reserve_account) (acc_id cash_account)) d2)
                (\<lambda>(txn, d3). Inr (Some (txn_id txn), d3))
         else Inr (None, d))
        (\<lambda>(payout_txn_id, d4).
          let updated = (\<exists>t\<in>set (keno_tickets d4). tk_id t = ticket_id \<and> tk_status t = ''pending'') in
          if updated \<and> payout < 0 then Inl CheckViolation
          else Inr (updated, update_ticket ticket_id (\<lambda>t. tk_status t = ''pending'')
               (\<lambda>t. t\<lparr>tk_status := status, tk_matches := Some matches, tk_payout := Some payout,
                      tk_payout_txn := payout_txn_id, tk_settled_at := Some now\<rparr>) d4)))"

definition keno_jackpot_args :: "int \<Rightarrow> int \<Rightarrow> money \<Rightarrow> int \<Rightarrow> int \<Rightarrow> post_args" where
  "keno_jackpot_args round_id ticket_id amount pool cash =
     \<lparr>pa_kind = ''keno_jackpot_payout'',
      pa_entries = [\<lparr>ent_account = pool, ent_amount = - amount\<rparr>, \<lparr>ent_account = cash, ent_amount = amount\<rparr>],
      pa_key = keno_jackpot_key round_id ticket_id, pa_round = None, pa_payment = None, pa_memo = None,
      pa_by = ''keno_round_engine''\<rparr>"

definition pay_jackpot :: "int \<Rightarrow> int \<Rightarrow> int \<Rightarrow> int \<Rightarrow> db \<Rightarrow> (money \<times> db) result" where
  "pay_jackpot now round_id ticket_id user_id d =
     (case keno_jackpot d of
        None \<Rightarrow> Inr (0, d)
      | Some pool_row \<Rightarrow>
          bind_result (ledger_balance (led d) (jp_account pool_row)) (\<lambda>pool_balance.
          if pool_balance \<le> 0 then Inr (0, d)
          else let (cash_account, d1) = db_account (Some user_id) ''user_cash'' d in
            bind_result (db_post now (keno_jackpot_args round_id ticket_id pool_balance (jp_account pool_row) (acc_id cash_account)) d1)
              (\<lambda>(_, d2). Inr (pool_balance,
                 update_ticket ticket_id (\<lambda>_. True) (\<lambda>t. t\<lparr>tk_jackpot_payout := Some pool_balance\<rparr>) d2))))"

subsection \<open>A round's tickets\<close>

record settled_ticket =
  sl_user :: int
  sl_ticket :: int
  sl_matches :: int
  sl_payout :: money
  sl_jackpot :: money
  sl_stake :: money
  sl_session :: "int option"

definition paytable_by_id :: "db \<Rightarrow> int \<Rightarrow> keno_paytable option" where
  "paytable_by_id d i = find (\<lambda>p. kp_id p = i) (keno_paytables d)"

definition pending_tickets :: "db \<Rightarrow> int \<Rightarrow> (keno_ticket \<times> keno_paytable) list" where
  "pending_tickets d round_id =
     concat (map (\<lambda>t. case paytable_by_id d (tk_paytable t) of None \<Rightarrow> [] | Some p \<Rightarrow> [(t, p)])
       (filter (\<lambda>t. tk_round t = round_id \<and> tk_status t = ''pending'') (keno_tickets d)))"

definition picks_of :: "db \<Rightarrow> int \<Rightarrow> int set" where
  "picks_of d ticket_id = set (map snd (filter (\<lambda>s. fst s = ticket_id) (keno_selections d)))"

text \<open>The loop's state: the tickets to announce, whether the jackpot was hit, the database.\<close>

type_synonym settling = "settled_ticket list \<times> bool \<times> db"

definition settle_ticket ::
    "int \<Rightarrow> int \<Rightarrow> int list \<Rightarrow> money \<Rightarrow> keno_ticket \<times> keno_paytable \<Rightarrow> settling \<Rightarrow> settling result" where
  "settle_ticket now round_id drawn_numbers max_win = (\<lambda>(t, p) (to_publish, jackpot_hit, d).
     (let matches = count_matches (picks_of d (tk_id t)) drawn_numbers in
      bind_result (compute_payout (tk_stake t) matches (kp_multipliers p) max_win) (\<lambda>payout.
      let is_jackpot = (tk_pick_count t = 5 \<and> matches = 5) in
      bind_result (settle_one_ticket now (tk_id t) round_id (tk_user t) matches payout d) (\<lambda>(settled, d1).
      bind_result (if is_jackpot then pay_jackpot now round_id (tk_id t) (tk_user t) d1 else Inr (0, d1)) (\<lambda>(jackpot_payout, d2).
        Inr (if settled then to_publish @ [\<lparr>sl_user = tk_user t, sl_ticket = tk_id t, sl_matches = matches, sl_payout = payout,
                 sl_jackpot = jackpot_payout, sl_stake = tk_stake t, sl_session = tk_autoplay_session t\<rparr>]
             else to_publish, jackpot_hit \<or> 0 < jackpot_payout, d2))))))"

definition settle_tickets_txn :: "int \<Rightarrow> int \<Rightarrow> int list option \<Rightarrow> db \<Rightarrow> settling result" where
  "settle_tickets_txn now round_id drawn_numbers d =
     (case keno_round_by_id d round_id of
        None \<Rightarrow> Inl AssertionError
      | Some round_row \<Rightarrow>
          (case tier_by_id d (kr_tier round_row) of
             None \<Rightarrow> Inl AssertionError
           | Some tier \<Rightarrow>
               (let tickets = pending_tickets d round_id in
                case drawn_numbers of
                  None \<Rightarrow> if tickets = [] then Inr ([], False, d) else Inl TypeError
                | Some drawn \<Rightarrow>
                    bind_result (fold_result (settle_ticket now round_id drawn (kt_max_win_per_ticket tier)) tickets ([], False, d)) (\<lambda>(rs, hit, d1).
                    bind_result (db_commit d d1) (\<lambda>d2. Inr (rs, hit, d2))))))"

definition announce_ticket :: "int \<Rightarrow> settled_ticket \<Rightarrow> keno_engine \<times> db \<Rightarrow> keno_engine \<times> db" where
  "announce_ticket round_id s = (\<lambda>(e, d).
     (kpublish (KenoBalance (sl_user s) (user_balance_snapshot (led d) (sl_user s)))
        (kpublish (TicketSettled (sl_user s) round_id (sl_ticket s) (sl_matches s) (sl_payout s)
           (if 0 < sl_jackpot s then Some (sl_jackpot s) else None)) e),
      record_settlement_safely (sl_session s) (sl_stake s) (sl_payout s) (sl_jackpot s) d))"

definition optional_sum :: "money option list \<Rightarrow> money" where
  "optional_sum xs = sum_list (map (\<lambda>x. case x of None \<Rightarrow> 0 | Some v \<Rightarrow> v) xs)"

definition round_total_payout :: "db \<Rightarrow> int \<Rightarrow> money" where
  "round_total_payout d round_id =
     optional_sum (map tk_payout (round_tickets d round_id)) + optional_sum (map tk_jackpot_payout (round_tickets d round_id))"

definition any_jackpot_paid :: "db \<Rightarrow> int \<Rightarrow> bool" where
  "any_jackpot_paid d round_id \<longleftrightarrow>
     (\<exists>t\<in>set (round_tickets d round_id). case tk_jackpot_payout t of None \<Rightarrow> False | Some j \<Rightarrow> 0 < j)"

definition settle_tickets :: "int \<Rightarrow> int \<Rightarrow> int list option \<Rightarrow> keno_engine \<Rightarrow> db \<Rightarrow> (money \<times> bool) koutcome" where
  "settle_tickets now round_id drawn_numbers e d =
     (case settle_tickets_txn now round_id drawn_numbers d of
        Inl x \<Rightarrow> (Inl x, e, d)
      | Inr (to_publish, jackpot_hit, d1) \<Rightarrow>
          (let (e2, d2) = fold (announce_ticket round_id) to_publish (e, d1)
           in (Inr (round_total_payout d2 round_id, jackpot_hit \<or> any_jackpot_paid d2 round_id), e2, d2)))"

subsection \<open>The settlement task\<close>

definition begin_settling_txn :: "string \<Rightarrow> int \<Rightarrow> db \<Rightarrow> db result" where
  "begin_settling_txn worker_id round_id d =
     record_event worker_id round_id (Some ''draw_complete'') ''settling'' None
       (update_keno_round round_id (\<lambda>r. r\<lparr>kr_status := ''settling''\<rparr>) d)"

definition complete_round_txn :: "string \<Rightarrow> int \<Rightarrow> int \<Rightarrow> money \<Rightarrow> bool \<Rightarrow> db \<Rightarrow> db result" where
  "complete_round_txn worker_id now round_id total_payout jackpot_hit d =
     bind_result (numeric18_2 total_payout) (\<lambda>stored.
       record_event worker_id round_id (Some ''settling'') ''completed'' None
         (update_keno_round round_id (\<lambda>r. r\<lparr>kr_status := ''completed'', kr_total_payout := stored, kr_jackpot_hit := jackpot_hit,
            kr_settled_at := Some now, kr_completed_at := Some now\<rparr>) d))"

definition settle_and_complete_body :: "int \<Rightarrow> int \<Rightarrow> keno_engine \<Rightarrow> db \<Rightarrow> unit koutcome" where
  "settle_and_complete_body now round_id e d =
     (case keno_round_by_id d round_id of
        None \<Rightarrow> (Inl AssertionError, e, d)
      | Some round_row \<Rightarrow>
          if kr_status round_row \<in> KENO_TERMINAL_STATUSES then (Inr (), e, d)
          else (case begin_settling_txn (kw_worker_id e) round_id d of
             Inl x \<Rightarrow> (Inl x, e, d)
           | Inr d1 \<Rightarrow>
               (case settle_tickets now round_id (kr_drawn_numbers round_row) e d1 of
                  (Inl x, e2, d2) \<Rightarrow> (Inl x, e2, d2)
                | (Inr (total_payout, jackpot_hit), e2, d2) \<Rightarrow>
                    (case complete_round_txn (kw_worker_id e) now round_id total_payout jackpot_hit d2 of
                       Inl x \<Rightarrow> (Inl x, e2, d2)
                     | Inr d3 \<Rightarrow> (Inr (), kpublish (RoundCompleted round_id total_payout) e2, d3)))))"

text \<open>The task logs an exception and ends; ending clears its round from the in-flight set.\<close>

definition settle_and_complete :: "int \<Rightarrow> int \<Rightarrow> keno_engine \<Rightarrow> db \<Rightarrow> keno_engine \<times> db" where
  "settle_and_complete now round_id e d =
     (let (_, e1, d1) = settle_and_complete_body now round_id e d
      in (e1\<lparr>kw_settling := kw_settling e1 - {round_id}\<rparr>, d1))"

subsection \<open>Failing a round\<close>

definition keno_refund_args :: "int \<Rightarrow> int \<Rightarrow> money \<Rightarrow> int \<Rightarrow> int \<Rightarrow> post_args" where
  "keno_refund_args round_id ticket_id stake reserve cash =
     \<lparr>pa_kind = ''keno_refund'',
      pa_entries = [\<lparr>ent_account = reserve, ent_amount = - stake\<rparr>, \<lparr>ent_account = cash, ent_amount = stake\<rparr>],
      pa_key = keno_refund_key round_id ticket_id, pa_round = None, pa_payment = None, pa_memo = None,
      pa_by = ''keno_round_engine''\<rparr>"

definition refund_one_ticket :: "int \<Rightarrow> int \<Rightarrow> keno_ticket \<Rightarrow> db \<Rightarrow> db result" where
  "refund_one_ticket now round_id t d =
     (let stake = tk_stake t;
          (reserve_account, d1) = db_account None ''keno_reserve'' d;
          (jackpot_account, d2) = db_account None ''keno_jackpot_pool'' d1;
          (cash_account, d3) = db_account (Some (tk_user t)) ''user_cash'' d2
      in bind_result (db_post now (keno_refund_args round_id (tk_id t) stake (acc_id reserve_account) (acc_id cash_account)) d3)
           (\<lambda>(_, d4). Inr (update_ticket (tk_id t) (\<lambda>_. True) (\<lambda>t. t\<lparr>tk_status := ''refunded'', tk_settled_at := Some now\<rparr>) d4)))"

definition fail_and_refund_txn :: "string \<Rightarrow> int \<Rightarrow> int \<Rightarrow> string \<Rightarrow> db \<Rightarrow> db result" where
  "fail_and_refund_txn worker_id now round_id reason d =
     (let tickets = filter (\<lambda>t. tk_round t = round_id \<and> tk_status t = ''pending'') (keno_tickets d)
      in bind_result (fold_result (refund_one_ticket now round_id) tickets d) (\<lambda>d1.
         bind_result (record_event worker_id round_id None ''failed'' (Some reason)
             (update_keno_round round_id (\<lambda>r. r\<lparr>kr_status := ''failed'', kr_failure_reason := Some reason,
                kr_completed_at := Some now\<rparr>) d1)) (\<lambda>d2. db_commit d d2)))"

definition fail_and_refund_round :: "int \<Rightarrow> int \<Rightarrow> string \<Rightarrow> keno_engine \<Rightarrow> db \<Rightarrow> unit koutcome" where
  "fail_and_refund_round now round_id reason e d =
     (case fail_and_refund_txn (kw_worker_id e) now round_id reason d of
        Inl x \<Rightarrow> (Inl x, e, d)
      | Inr d1 \<Rightarrow> (Inr (), kpublish (RoundFailed round_id reason) e, d1))"

subsection \<open>Recovery\<close>

definition round_age_seconds :: "int \<Rightarrow> keno_round \<Rightarrow> rat" where
  "round_age_seconds now r = of_int (now - kr_scheduled_at r) / 1000000"

definition config_by_id :: "db \<Rightarrow> int \<Rightarrow> keno_config option" where
  "config_by_id d i = find (\<lambda>c. kc_id c = i) (keno_configs d)"

text \<open>What the environment does while a round is driven: whether betting ran to its close, and the reveal's readings.\<close>

record round_env =
  nv_reached_close :: bool
  nv_may_reveal :: "int \<Rightarrow> bool"
  nv_closed_at :: int
  nv_drawn_at :: int
  nv_done_at :: int

text \<open>The rest of a round from its betting phase (\<open>bet\<close>), or from its draw.\<close>

definition drive_round :: "round_env \<Rightarrow> bool \<Rightarrow> keno_ctx \<Rightarrow> keno_engine \<Rightarrow> db \<Rightarrow> unit koutcome" where
  "drive_round v bet ctx e d =
     (if bet \<and> \<not> nv_reached_close v then (Inr (), e, d)
      else case (if bet then close_betting (nv_closed_at v) ctx e d else (Inr (), e, d)) of
          (Inl x, e1, d1) \<Rightarrow> (Inl x, e1, d1)
        | (Inr _, e1, d1) \<Rightarrow>
            (case run_draw (nv_drawn_at v) (nv_done_at v) (nv_may_reveal v) ctx e1 d1 of
               (Inl x, e2, d2) \<Rightarrow> (Inl x, e2, d2)
             | (Inr _, e2, d2) \<Rightarrow> (Inr (), spawn_settlement (cx_id ctx) e2, d2)))"

definition resume_round :: "int \<Rightarrow> round_env \<Rightarrow> keno_round \<Rightarrow> keno_engine \<Rightarrow> db \<Rightarrow> unit koutcome" where
  "resume_round now v row e d =
     (let round_id = kr_id row; status = kr_status row in
      case keno_round_by_id d round_id of
        None \<Rightarrow> (Inl RuntimeError, e, d)
      | Some full_row \<Rightarrow>
          (case (config_by_id d (kr_config full_row), tier_by_id d (kr_tier full_row)) of
             (Some config, Some tier) \<Rightarrow>
               (let ctx = \<lparr>cx_id = round_id, cx_config = config, cx_tier = tier, cx_server_seed = kr_server_seed full_row,
                     cx_server_seed_hash = kr_server_seed_hash full_row\<rparr> in
                if status = ''scheduled'' then
                  (case open_betting now ctx e d of
                     (Inl x, e1, d1) \<Rightarrow> (Inl x, e1, d1)
                   | (Inr _, e1, d1) \<Rightarrow> drive_round v True ctx e1 d1)
                else if status = ''betting_open'' then drive_round v True ctx e d
                else if status \<in> {''betting_closed'', ''drawing'', ''draw_complete''} then drive_round v False ctx e d
                else (Inr (), spawn_settlement round_id e, d))
           | _ \<Rightarrow> (Inl AssertionError, e, d)))"

definition recover_row :: "int \<Rightarrow> (int \<Rightarrow> round_env) \<Rightarrow> keno_round \<Rightarrow> keno_engine \<Rightarrow> db \<Rightarrow> unit koutcome" where
  "recover_row now env row e d =
     (if kr_status row = ''settling'' then resume_round now (env (kr_id row)) row e d
      else if STUCK_ROUND_THRESHOLD_SECONDS < round_age_seconds now row
        then fail_and_refund_round now (kr_id row) ''stuck_round_recovery'' e d
      else resume_round now (env (kr_id row)) row e d)"

fun recover_rows :: "int \<Rightarrow> (int \<Rightarrow> round_env) \<Rightarrow> keno_round list \<Rightarrow> keno_engine \<Rightarrow> db \<Rightarrow> int list koutcome" where
  "recover_rows now env [] e d = (Inr [], e, d)"
| "recover_rows now env (row # rows) e d =
     (case recover_row now env row e d of
        (Inl x, e1, d1) \<Rightarrow> (Inl x, e1, d1)
      | (Inr _, e1, d1) \<Rightarrow>
          (case recover_rows now env rows e1 d1 of
             (Inl x, e2, d2) \<Rightarrow> (Inl x, e2, d2)
           | (Inr recovered, e2, d2) \<Rightarrow> (Inr (kr_id row # recovered), e2, d2)))"

definition recover_on_startup :: "int \<Rightarrow> (int \<Rightarrow> round_env) \<Rightarrow> keno_engine \<Rightarrow> db \<Rightarrow> int list koutcome" where
  "recover_on_startup now env e d =
     recover_rows now env (filter (\<lambda>r. kr_status r \<notin> KENO_TERMINAL_STATUSES) (keno_rounds d)) e d"

definition recover_stuck_settling_rounds :: "keno_engine \<Rightarrow> db \<Rightarrow> keno_engine" where
  "recover_stuck_settling_rounds e d =
     fold (\<lambda>r e. if kr_id r \<in> kw_settling e then e else spawn_settlement (kr_id r) e)
       (filter (\<lambda>r. kr_status r = ''settling'') (keno_rounds d)) e"

subsection \<open>One full round\<close>

definition run_one_round :: "int \<Rightarrow> bytes \<Rightarrow> round_env \<Rightarrow> keno_engine \<Rightarrow> db \<Rightarrow> unit koutcome" where
  "run_one_round now seed v e0 d0 =
     (case create_round now seed (recover_stuck_settling_rounds e0 d0) d0 of
        (Inl x, e, d) \<Rightarrow> (Inl x, e, d)
      | (Inr ctx, e, d) \<Rightarrow>
          (case open_betting now ctx e d of
             (Inl x, e1, d1) \<Rightarrow> (Inl x, e1, d1)
           | (Inr _, e1, d1) \<Rightarrow> drive_round v True ctx e1 d1))"

end
