(* ===== verification/Keno_Money.thy ===== *)
theory Keno_Money
  imports Keno_Settle
begin

text \<open>
  What the Keno transactions do to the ledger, stated on the balances of owners: buying a ticket moves
  its stake from the player's cash into the reserve and the jackpot pool, settling one moves the
  payout out of the reserve, the jackpot its whole pool, and a refund the stake. Everything rests on
  the interface \<open>wallet\<close> through its interpretation \<open>dbw\<close>.
\<close>

abbreviation reserve_owner :: owner where "reserve_owner \<equiv> (None, ''keno_reserve'')"
abbreviation jackpot_owner :: owner where "jackpot_owner \<equiv> (None, ''keno_jackpot_pool'')"
abbreviation cash_owner :: "int \<Rightarrow> owner" where "cash_owner u \<equiv> (Some u, ''user_cash'')"

lemma tables_of_eq: "tables_of d' = tables_of d \<Longrightarrow> d' = d\<lparr>led := led d'\<rparr>"
  unfolding tables_of_def by (cases d; cases d') simp

lemma quantize_cent_whole:
  assumes "whole_cents x" "\<bar>x\<bar> < 10 ^ 26" shows "quantize_cent x = Inr x"
proof -
  obtain k where k: "x = of_int k / 100" using assms(1) by (rule whole_centsE)
  have "of_int \<bar>k\<bar> < (of_int (10 ^ 28) :: rat)" using assms(2) by (simp add: k)
  then have "\<bar>k\<bar> < 10 ^ 28" by (simp only: of_int_less_iff)
  then show ?thesis by (simp add: quantize_cent_def quantize_with_def k)
qed

lemma quantize_cent_Inr: "quantize_cent x = Inr y \<Longrightarrow> whole_cents x \<Longrightarrow> y = x"
proof -
  assume a: "quantize_cent x = Inr y" "whole_cents x"
  obtain k where "x = of_int k / 100" using a(2) by (rule whole_centsE)
  with a(1) show "y = x" by (auto simp: quantize_cent_def quantize_with_Inr)
qed

subsection \<open>Splitting a stake\<close>

lemma half_even_le: "x \<le> of_int k \<Longrightarrow> half_even x \<le> k"
proof -
  assume x: "x \<le> of_int k"
  then have f: "\<lfloor>x\<rfloor> \<le> k" by (metis floor_le_iff floor_mono floor_of_int)
  show "half_even x \<le> k"
  proof (cases "\<lfloor>x\<rfloor> = k")
    case True
    with x have "x - of_int \<lfloor>x\<rfloor> \<le> 0" by simp
    then show ?thesis using f by (simp add: half_even_def Let_def)
  next
    case False
    with f have "\<lfloor>x\<rfloor> + 1 \<le> k" by simp
    then show ?thesis using f by (simp add: half_even_def Let_def)
  qed
qed

lemma stake_split_ok:
  assumes "column_money stake" "0 \<le> stake" "0 \<le> bps" "bps \<le> 10000"
  shows "\<exists>rc jc. stake_split stake bps = Inr (rc, jc) \<and> rc + jc = stake \<and> 0 \<le> rc \<and> 0 \<le> jc \<and> whole_cents rc
    \<and> whole_cents jc \<and> \<bar>jc - stake * of_int bps / 10000\<bar> \<le> 1 / 200"
proof -
  obtain k where k: "stake = of_int k / 100" "\<bar>k\<bar> < 10 ^ 18" using assms(1) by (rule column_moneyE)
  have k0: "0 \<le> k" using assms(2) k(1) by simp
  have "k * bps \<le> 10 ^ 18 * 10000" using k k0 assms by (intro mult_mono) auto
  then have kb: "\<bar>k * bps\<bar> < 10 ^ 28" using k0 assms by simp
  have m: "dmul stake (of_int bps) = of_int (k * bps) / 100"
    unfolding dmul_def by (subst ctx_round_exact [of _ "k * bps" 2]) (use kb k in auto)
  have d: "ddiv (of_int (k * bps) / 100) 10000 = of_int (k * bps) / 10 ^ 6"
    unfolding ddiv_def by (subst ctx_round_exact [of _ "k * bps" 6]) (use kb in auto)
  define y :: rat where "y = of_int (k * bps) / 10 ^ 4"
  define q where "q = half_even y"
  have "of_int k * of_int bps \<le> (of_int k * 10000 :: rat)"
    using k0 assms by (intro mult_left_mono) auto
  then have "y \<le> of_int k" by (simp add: y_def)
  then have qk: "q \<le> k" unfolding q_def by (rule half_even_le)
  have "0 \<le> y" using k0 assms by (simp add: y_def)
  then have q0: "0 \<le> q" unfolding q_def by (rule half_even_nonneg)
  have "(of_int (k * bps) / 10 ^ 6 :: rat) * 100 = y" by (simp add: y_def)
  then have qd: "quantize_cent (of_int (k * bps) / 10 ^ 6) = Inr (of_int q / 100)"
    using q0 qk k by (auto simp: quantize_cent_def quantize_with_Inr q_def)
  have s: "dsub stake (of_int q / 100) = of_int (k - q) / 100"
    unfolding dsub_def by (subst ctx_round_exact [of _ "k - q" 2]) (use q0 qk k in \<open>auto simp: diff_divide_distrib\<close>)
  have "stake_split stake bps = Inr (of_int (k - q) / 100, of_int q / 100)"
    unfolding stake_split_def m d qd by (simp add: s)
  moreover have "\<bar>of_int q / 100 - stake * of_int bps / 10000\<bar> \<le> 1 / 200"
  proof -
    have e: "of_int q / 100 - stake * of_int bps / 10000 = (of_int q - y) / 100" by (simp add: k(1) y_def)
    show ?thesis unfolding e using half_even_error [of y] by (simp add: q_def)
  qed
  moreover have "of_int (k - q) / 100 + of_int q / 100 = stake" by (simp add: k(1) diff_divide_distrib)
  moreover have "0 \<le> (of_int (k - q) / 100 :: rat)" "0 \<le> (of_int q / 100 :: rat)" using q0 qk by simp_all
  ultimately show ?thesis using whole_cents_cent by blast
qed

subsection \<open>A transfer between two accounts that are looked up first\<close>

lemma looked_up_transfer:
  assumes ok: "ledger_ok (led d)" and a: "db_account (fst src) (snd src) d = (a, d1)" "db_account (fst dst) (snd dst) d1 = (b, d2)"
    and p: "pa_entries p = [\<lparr>ent_account = acc_id a, ent_amount = - x\<rparr>, \<lparr>ent_account = acc_id b, ent_amount = x\<rparr>]"
    and ne: "src \<noteq> dst" and x: "whole_cents x" and fresh: "pa_key p \<notin> tkeys (led d)"
  shows "db_post now p d2 = Inr (t, d3) \<Longrightarrow> ledger_ok (led d3)
      \<and> obal (led d3) = (obal (led d))(src := obal (led d) src - x, dst := obal (led d) dst + x)
      \<and> tkeys (led d3) = insert (pa_key p) (tkeys (led d)) \<and> d3 = d\<lparr>led := led d3\<rparr>
      \<and> (\<forall>ow i. acct_of (led d) ow = Some i \<longrightarrow> acct_of (led d3) ow = Some i)"
    and "0 \<le> x \<Longrightarrow> snd src \<notin> USER_BALANCE_KINDS \<Longrightarrow> \<exists>t d3. db_post now p d2 = Inr (t, d3)"
proof -
  note g1 = dbw.get_account_spec [OF a(1) ok]
  note g2 = dbw.get_account_spec [OF a(2) g1(1)]
  have src: "acct_of (led d2) src = Some (acc_id a)" using g2(6) [OF g1(4)] .
  have fr: "pa_key p \<notin> tkeys (led d2)" using fresh g1(3) g2(3) by simp
  show "ledger_ok (led d3)
      \<and> obal (led d3) = (obal (led d))(src := obal (led d) src - x, dst := obal (led d) dst + x)
      \<and> tkeys (led d3) = insert (pa_key p) (tkeys (led d)) \<and> d3 = d\<lparr>led := led d3\<rparr>
      \<and> (\<forall>ow i. acct_of (led d) ow = Some i \<longrightarrow> acct_of (led d3) ow = Some i)"
    if post: "db_post now p d2 = Inr (t, d3)"
  proof -
    note tr = dbw.transfer [OF g2(1) src g2(4) ne x fr p post]
    have "tables_of d3 = tables_of d" using tr(5) g1(5) g2(5) by simp
    then show ?thesis using tr(1-4) g1(2,3,6) g2(2,3,6) by (simp add: tables_of_eq)
  qed
  show "\<exists>t d3. db_post now p d2 = Inr (t, d3)" if "0 \<le> x" "snd src \<notin> USER_BALANCE_KINDS"
    using dbw.transfer_returns [OF g2(1) src g2(4) ne x fr that(1) p] that(2) by blast
qed

subsection \<open>Buying a ticket\<close>

lemma take_stake_effect:
  assumes ok: "ledger_ok (led d)" and stake: "column_money stake" "0 \<le> stake" and bps: "0 \<le> bps" "bps \<le> 10000"
    and fresh: "key \<notin> tkeys (led d)" and ts: "take_stake now u key stake bps d = Inr (tid, d')"
  shows "\<exists>rc jc. stake_split stake bps = Inr (rc, jc) \<and> ledger_ok (led d') \<and> d' = d\<lparr>led := led d'\<rparr>
    \<and> tkeys (led d') = insert key (tkeys (led d)) \<and> stake \<le> obal (led d) (cash_owner u)
    \<and> obal (led d') = (obal (led d))(cash_owner u := obal (led d) (cash_owner u) - stake,
         reserve_owner := obal (led d) reserve_owner + rc, jackpot_owner := obal (led d) jackpot_owner + jc)
    \<and> (\<forall>ow i. acct_of (led d) ow = Some i \<longrightarrow> acct_of (led d') ow = Some i)"
proof -
  obtain ra d1 where a1: "db_account (fst reserve_owner) (snd reserve_owner) d = (ra, d1)" by fastforce
  obtain ja d2 where a2: "db_account (fst jackpot_owner) (snd jackpot_owner) d1 = (ja, d2)" by fastforce
  obtain ca d3 where a3: "db_account (fst (cash_owner u)) (snd (cash_owner u)) d2 = (ca, d3)" by fastforce
  note g1 = dbw.get_account_spec [OF a1 ok]
  note g2 = dbw.get_account_spec [OF a2 g1(1)]
  note g3 = dbw.get_account_spec [OF a3 g2(1)]
  obtain rc jc where sp: "stake_split stake bps = Inr (rc, jc)" "rc + jc = stake" "whole_cents rc" "whole_cents jc"
      "0 \<le> rc" "0 \<le> jc"
    using stake_split_ok [OF stake bps] by blast
  let ?p = "keno_stake_args key stake rc jc (acc_id ca) (acc_id ra) (acc_id ja)"
  obtain t where t: "db_post now ?p d3 = Inr (t, d')"
    using ts a1 a2 a3 sp(1) by (auto simp: take_stake_def split: sum.splits exc.splits)
  let ?ms = "[(cash_owner u, - stake), (reserve_owner, rc), (jackpot_owner, jc)]"
  have w: "whole_cents stake" using stake(1) by (simp add: column_money_def)
  have l: "ledger_ok (led d') \<and> (\<forall>ow. obal (led d') ow = obal (led d3) ow + odelta ?ms ow)
      \<and> tkeys (led d') = insert (pa_key ?p) (tkeys (led d3)) \<and> acct_of (led d') = acct_of (led d3) \<and> tables_of d' = tables_of d3"
    by (rule dbw.post_law [OF g3(1) _ _ _ _ t])
      (use g1 g2 g3 w sp fresh in \<open>auto simp: keno_stake_args_def\<close>)
  have c: "0 \<le> obal (led d') (cash_owner u)"
    using l by (intro dbw.nonneg) (auto simp: USER_BALANCE_KINDS_def)
  have "tables_of d' = tables_of d" using l g1(5) g2(5) g3(5) by simp
  then have "d' = d\<lparr>led := led d'\<rparr>" by (rule tables_of_eq)
  moreover have "pa_key ?p = key" by (simp add: keno_stake_args_def)
  moreover have "obal (led d') = (obal (led d))(cash_owner u := obal (led d) (cash_owner u) - stake,
         reserve_owner := obal (led d) reserve_owner + rc, jackpot_owner := obal (led d) jackpot_owner + jc)"
    using l g1(2) g2(2) g3(2) by (auto simp: fun_eq_iff)
  moreover have "stake \<le> obal (led d) (cash_owner u)" using c l g1(2) g2(2) g3(2) by simp
  ultimately show ?thesis using l sp(1) g1(3,6) g2(3,6) g3(3,6) by (intro exI [of _ rc] exI [of _ jc]) auto
qed

lemma reserve_balance_of_effect:
  assumes "reserve_balance_of d = Inr (b, d')" "ledger_ok (led d)"
  shows "ledger_ok (led d')" "obal (led d') = obal (led d)" "tkeys (led d') = tkeys (led d)" "d' = d\<lparr>led := led d'\<rparr>"
    "b = obal (led d) reserve_owner" "\<And>ow i. acct_of (led d) ow = Some i \<Longrightarrow> acct_of (led d') ow = Some i"
proof -
  obtain a where a: "db_account (fst reserve_owner) (snd reserve_owner) d = (a, d')"
    and b: "ledger_balance (led d') (acc_id a) = Inr b"
    using assms(1) by (auto simp: reserve_balance_of_def bind_result_Inr_iff split: prod.splits)
  note g = dbw.get_account_spec [OF a assms(2)]
  show "ledger_ok (led d')" "obal (led d') = obal (led d)" "tkeys (led d') = tkeys (led d)"
    "\<And>ow i. acct_of (led d) ow = Some i \<Longrightarrow> acct_of (led d') ow = Some i" using g by simp_all
  show "d' = d\<lparr>led := led d'\<rparr>" using g(5) by (rule tables_of_eq)
  have "balances_ok (led d')" using g(1) by (simp add: ledger_ok_def)
  then have "b = raw_balance (led d') (acc_id a)"
    using b quantize_cent_Inr raw_balance_whole by (auto simp: ledger_balance_def)
  then show "b = obal (led d) reserve_owner" using g(2,4) by (metis obal_def option.simps(5))
qed

end
