(* ===== verification/Keno_Book.thy ===== *)
theory Keno_Book
  imports Keno_Money
begin

text \<open>
  The book of Keno tickets: what holds of the ticket table and the ledger's keys together
  (\<open>tickets_ok\<close>), so that no operation of the game can meet a key it has already used, and what one
  update of a row does to it.
\<close>

subsection \<open>Replacing a row\<close>

definition put_row :: "keno_ticket \<Rightarrow> keno_ticket list \<Rightarrow> keno_ticket list" where
  "put_row y ts = map (\<lambda>x. if tk_id x = tk_id y then y else x) ts"

lemma put_row_map:
  assumes "t \<in> set ts" "tk_id y = tk_id t" "distinct (map tk_id ts)" "f y = f t"
  shows "map f (put_row y ts) = map f ts"
proof -
  have "f (if tk_id x = tk_id y then y else x) = f x" if "x \<in> set ts" for x
    using that assms by (auto simp: distinct_map inj_on_def)
  then show ?thesis by (simp add: put_row_def)
qed

lemma put_row_set:
  assumes "t \<in> set ts" "tk_id y = tk_id t" "distinct (map tk_id ts)"
  shows "set (put_row y ts) = insert y (set ts - {t})"
proof -
  have "x \<in> set ts \<Longrightarrow> tk_id x = tk_id t \<longleftrightarrow> x = t" for x using assms by (auto simp: distinct_map inj_on_def)
  then show ?thesis using assms by (auto simp: put_row_def image_iff)
qed

lemma put_row_sum:
  fixes f :: "keno_ticket \<Rightarrow> rat"
  assumes "t \<in> set ts" "tk_id y = tk_id t" "distinct (map tk_id ts)"
  shows "sum_list (map f (put_row y ts)) = sum_list (map f ts) - f t + f y"
  using assms
proof (induction ts)
  case (Cons x ts)
  show ?case
  proof (cases "x = t")
    case True
    have "tk_id t \<notin> tk_id ` set ts" using True Cons.prems(3) by simp
    then have "tk_id z \<noteq> tk_id y" if "z \<in> set ts" for z using that Cons.prems(2) by (metis imageI)
    then have "put_row y ts = ts" by (simp add: put_row_def map_idI)
    then show ?thesis using True Cons.prems by (simp add: put_row_def)
  next
    case False
    then have "t \<in> set ts" "tk_id x \<noteq> tk_id y" using Cons.prems by (auto simp: image_iff)
    then show ?thesis using Cons by (simp add: put_row_def)
  qed
qed simp

lemma put_row_put_row: "tk_id z = tk_id y \<Longrightarrow> put_row z (put_row y ts) = put_row z ts"
  by (auto simp: put_row_def)

lemma update_ticket_put_row:
  assumes "t \<in> set (keno_tickets d)" "P t" "tk_id (f t) = tk_id t" "distinct (map tk_id (keno_tickets d))"
  shows "update_ticket (tk_id t) P f d = d\<lparr>keno_tickets := put_row (f t) (keno_tickets d)\<rparr>"
proof -
  have "(if tk_id x = tk_id t \<and> P x then f x else x) = (if tk_id x = tk_id (f t) then f t else x)"
    if "x \<in> set (keno_tickets d)" for x
    using that assms by (auto simp: distinct_map inj_on_def)
  then show ?thesis by (simp add: update_ticket_def put_row_def)
qed

subsection \<open>The invariant\<close>

definition ticket_in :: "keno_ticket list \<Rightarrow> int \<Rightarrow> int \<Rightarrow> string set \<Rightarrow> bool" where
  "ticket_in ts r i S \<longleftrightarrow> (\<exists>t\<in>set ts. tk_round t = r \<and> tk_id t = i \<and> tk_status t \<in> S)"

definition ticket_ok :: "keno_ticket \<Rightarrow> bool" where
  "ticket_ok t \<longleftrightarrow>
     column_money (tk_stake t) \<and> 0 < tk_stake t
     \<and> (\<exists>k. tk_idempotency_key t = keno_stake_key (tk_user t) k)
     \<and> (tk_status t = ''pending'' \<and> tk_payout t = None \<and> tk_jackpot_payout t = None
        \<or> tk_status t = ''refunded'' \<and> tk_payout t = None \<and> tk_jackpot_payout t = None
        \<or> tk_status t = ''lost'' \<and> tk_payout t = Some 0
        \<or> tk_status t = ''won'' \<and> (\<exists>v. tk_payout t = Some v \<and> 0 < v))"

definition tickets_ok :: "keno_ticket list \<Rightarrow> string set \<Rightarrow> bool" where
  "tickets_ok ts K \<longleftrightarrow>
     map tk_id ts = map (\<lambda>i. int i + 1) [0..<length ts]
     \<and> distinct (map tk_idempotency_key ts)
     \<and> (\<forall>t\<in>set ts. ticket_ok t)
     \<and> (\<forall>u k. keno_stake_key u k \<in> K \<longleftrightarrow> keno_stake_key u k \<in> tk_idempotency_key ` set ts)
     \<and> (\<forall>r i. keno_settle_key r i \<in> K \<longleftrightarrow> ticket_in ts r i {''won''})
     \<and> (\<forall>r i. keno_refund_key r i \<in> K \<longleftrightarrow> ticket_in ts r i {''refunded''})
     \<and> (\<forall>r i. keno_jackpot_key r i \<in> K \<longrightarrow> ticket_in ts r i {''won'', ''lost''})"

lemma tickets_ok_ids: "tickets_ok ts K \<Longrightarrow> distinct (map tk_id ts)"
  by (simp add: tickets_ok_def distinct_map inj_on_def)

lemma ticket_in_row:
  assumes "t \<in> set ts" "distinct (map tk_id ts)"
  shows "ticket_in ts r (tk_id t) S \<longleftrightarrow> r = tk_round t \<and> tk_status t \<in> S"
proof -
  have "x \<in> set ts \<Longrightarrow> tk_id x = tk_id t \<longleftrightarrow> x = t" for x using assms by (auto simp: distinct_map inj_on_def)
  then show ?thesis using assms(1) by (auto simp: ticket_in_def)
qed

lemma ticket_in_put_row:
  assumes "t \<in> set ts" "tk_id y = tk_id t" "tk_round y = tk_round t" "distinct (map tk_id ts)"
  shows "ticket_in (put_row y ts) r i S \<longleftrightarrow> (if i = tk_id t then r = tk_round t \<and> tk_status y \<in> S else ticket_in ts r i S)"
proof (cases "i = tk_id t")
  case True
  have "y \<in> set (put_row y ts)" using put_row_set [OF assms(1,2,4)] by simp
  moreover have "distinct (map tk_id (put_row y ts))" using put_row_map [OF assms(1,2,4), of tk_id] assms(2,4) by simp
  ultimately show ?thesis using ticket_in_row [of y "put_row y ts" r S] True assms(2,3) by simp
next
  case False
  then show ?thesis using assms(2) by (auto simp: ticket_in_def put_row_def)
qed

text \<open>Keys of other operations do not matter to the book.\<close>

definition keno_key :: "string \<Rightarrow> bool" where
  "keno_key k \<longleftrightarrow> take 5 k = ''keno:''"

lemma keno_keys [simp]:
  "keno_key (keno_stake_key u k)" "keno_key (keno_settle_key r i)" "keno_key (keno_refund_key r i)" "keno_key (keno_jackpot_key r i)"
  "\<not> keno_key (stake_key r u c)" "\<not> keno_key (drop_key r u c)" "\<not> keno_key (refund_key r u c)" "\<not> keno_key (settle_key r)"
  by (simp_all add: keno_key_def keno_stake_key_def keno_settle_key_def keno_refund_key_def keno_jackpot_key_def
      stake_key_def drop_key_def refund_key_def settle_key_def)

lemma tickets_ok_cong:
  assumes "tickets_ok ts K" "\<And>k. keno_key k \<Longrightarrow> k \<in> K' \<longleftrightarrow> k \<in> K" shows "tickets_ok ts K'"
  using assms by (simp add: tickets_ok_def)

subsection \<open>What a change of one row keeps\<close>

text \<open>
  A pending row moves on: to \<open>y\<close>, with the keys the move posted. The row keeps what identifies it.
\<close>

lemma tickets_ok_move:
  assumes ok: "tickets_ok ts K" and t: "t \<in> set ts" "tk_status t = ''pending''"
    and y: "tk_id y = tk_id t" "tk_round y = tk_round t" "tk_idempotency_key y = tk_idempotency_key t" "ticket_ok y"
    and K: "K' = K \<union> (if tk_status y = ''won'' then {keno_settle_key (tk_round t) (tk_id t)} else {})
        \<union> (if tk_status y = ''refunded'' then {keno_refund_key (tk_round t) (tk_id t)} else {}) \<union> J"
    and J: "J \<subseteq> (if tk_status y \<in> {''won'', ''lost''} then {keno_jackpot_key (tk_round t) (tk_id t)} else {})"
  shows "tickets_ok (put_row y ts) K'"
proof -
  have dist: "distinct (map tk_id ts)" using ok by (rule tickets_ok_ids)
  note tin = ticket_in_put_row [OF t(1) y(1,2) dist] and ps = put_row_set [OF t(1) y(1) dist]
  have len: "length (put_row y ts) = length ts" by (simp add: put_row_def)
  have Ju: "k \<in> J \<Longrightarrow> k = keno_jackpot_key (tk_round t) (tk_id t)" for k using J by (auto split: if_splits)
  have keys: "map tk_idempotency_key (put_row y ts) = map tk_idempotency_key ts"
    using put_row_map [OF t(1) y(1) dist, of tk_idempotency_key] y(3) by simp
  then have keyset: "tk_idempotency_key ` set (put_row y ts) = tk_idempotency_key ` set ts" by (metis set_map)
  have own: "ticket_in ts r (tk_id t) S \<longleftrightarrow> r = tk_round t \<and> ''pending'' \<in> S" for r S
    using ticket_in_row [OF t(1) dist] t(2) by simp
  have "keno_stake_key u k \<in> K' \<longleftrightarrow> keno_stake_key u k \<in> K" for u k
    using Ju [of "keno_stake_key u k"] by (auto simp: K)
  moreover have "keno_settle_key r i \<in> K' \<longleftrightarrow> ticket_in (put_row y ts) r i {''won''}" for r i
    using ok Ju [of "keno_settle_key r i"] own [of r "{''won''}"] by (auto simp: K tin tickets_ok_def)
  moreover have "keno_refund_key r i \<in> K' \<longleftrightarrow> ticket_in (put_row y ts) r i {''refunded''}" for r i
    using ok Ju [of "keno_refund_key r i"] own [of r "{''refunded''}"] by (auto simp: K tin tickets_ok_def)
  moreover have "ticket_in (put_row y ts) r i {''won'', ''lost''}" if "keno_jackpot_key r i \<in> K'" for r i
  proof (cases "keno_jackpot_key r i \<in> K")
    case True
    then have "ticket_in ts r i {''won'', ''lost''}" using ok by (simp add: tickets_ok_def)
    moreover from this have "i \<noteq> tk_id t" using own [of r "{''won'', ''lost''}"] by auto
    ultimately show ?thesis by (simp add: tin)
  next
    case False
    with that have j: "keno_jackpot_key r i \<in> J" by (auto simp: K split: if_splits)
    then have "r = tk_round t" "i = tk_id t" using Ju [of "keno_jackpot_key r i"] by simp_all
    moreover have "tk_status y \<in> {''won'', ''lost''}" using j J by (auto split: if_splits)
    ultimately show ?thesis by (simp add: tin)
  qed
  moreover have "map tk_id (put_row y ts) = map tk_id ts" using put_row_map [OF t(1) y(1) dist, of tk_id] y(1) by simp
  moreover have "\<forall>x\<in>set (put_row y ts). ticket_ok x" using ok y(4) by (auto simp: ps tickets_ok_def)
  ultimately show ?thesis using ok unfolding tickets_ok_def keys keyset len by simp
qed

text \<open>A new ticket under a new key.\<close>

lemma ticket_in_append: "ticket_in (ts @ us) r i S \<longleftrightarrow> ticket_in ts r i S \<or> ticket_in us r i S"
  by (auto simp: ticket_in_def)

lemma tickets_ok_append:
  assumes ok: "tickets_ok ts K" and t: "ticket_ok t" "tk_status t = ''pending''" "tk_id t = int (length ts) + 1"
    and fresh: "tk_idempotency_key t \<notin> tk_idempotency_key ` set ts"
  shows "tickets_ok (ts @ [t]) (insert (tk_idempotency_key t) K)"
proof -
  obtain k where k: "tk_idempotency_key t = keno_stake_key (tk_user t) k" using t(1) by (auto simp: ticket_ok_def)
  have "ticket_in (ts @ [t]) r i S \<longleftrightarrow> ticket_in ts r i S" if "''pending'' \<notin> S" for r i S
    using that t(2) by (auto simp: ticket_in_append) (auto simp: ticket_in_def)
  then show ?thesis using ok t fresh by (simp add: tickets_ok_def k)
qed

lemma tickets_ok_stake_fresh:
  assumes "tickets_ok ts K" "keno_stake_key u k \<notin> tk_idempotency_key ` set ts" shows "keno_stake_key u k \<notin> K"
  using assms by (simp add: tickets_ok_def)

lemma tickets_ok_pending_fresh:
  assumes "tickets_ok ts K" "t \<in> set ts" "tk_status t = ''pending''"
  shows "keno_settle_key (tk_round t) (tk_id t) \<notin> K" "keno_refund_key (tk_round t) (tk_id t) \<notin> K"
    "keno_jackpot_key (tk_round t) (tk_id t) \<notin> K"
proof -
  have "\<not> ticket_in ts (tk_round t) (tk_id t) S" if "''pending'' \<notin> S" for S
    using that ticket_in_row [OF assms(2) tickets_ok_ids [OF assms(1)]] assms(3) by simp
  from this [of "{''won''}"] this [of "{''refunded''}"] this [of "{''won'', ''lost''}"]
  show "keno_settle_key (tk_round t) (tk_id t) \<notin> K" "keno_refund_key (tk_round t) (tk_id t) \<notin> K"
    "keno_jackpot_key (tk_round t) (tk_id t) \<notin> K"
    using assms(1) by (auto simp: tickets_ok_def)
qed

end
