(* ===== verification/Keno_Payout.thy ===== *)
theory Keno_Payout
  imports Keno_Book
begin

text \<open>
  Settling and refunding Keno tickets: each pending ticket of the round takes its result exactly once,
  the player's cash grows by what the ticket row says was paid, the reserve and the jackpot pool
  shrink by it, and nothing else changes. The same for the refunds of a failed round.
\<close>

definition opt_money :: "money option \<Rightarrow> money" where
  "opt_money x = (case x of None \<Rightarrow> 0 | Some v \<Rightarrow> v)"

lemma opt_money_simps [simp]: "opt_money None = 0" "opt_money (Some v) = v"
  by (simp_all add: opt_money_def)

definition jackpot_linked :: "db \<Rightarrow> bool" where
  "jackpot_linked d \<longleftrightarrow> (\<forall>p. keno_jackpot d = Some p \<longrightarrow> acct_of (led d) jackpot_owner = Some (jp_account p))"

definition keno_books :: "db \<Rightarrow> bool" where
  "keno_books d \<longleftrightarrow> ledger_ok (led d) \<and> tickets_ok (keno_tickets d) (tkeys (led d)) \<and> jackpot_linked d"

lemma keno_booksE:
  assumes "keno_books d"
  shows "ledger_ok (led d)" "tickets_ok (keno_tickets d) (tkeys (led d))" "jackpot_linked d"
    "distinct (map tk_id (keno_tickets d))"
  using assms tickets_ok_ids by (auto simp: keno_books_def)

definition settled_row :: "int \<Rightarrow> int \<Rightarrow> money \<Rightarrow> int option \<Rightarrow> money option \<Rightarrow> keno_ticket \<Rightarrow> keno_ticket" where
  "settled_row now matches payout txn jackpot t =
     t\<lparr>tk_status := if 0 < payout then ''won'' else ''lost'', tk_matches := Some matches, tk_payout := Some payout,
       tk_payout_txn := txn, tk_settled_at := Some now, tk_jackpot_payout := jackpot\<rparr>"

lemma settled_row_fields [simp]:
  "tk_id (settled_row now m v tx j t) = tk_id t" "tk_round (settled_row now m v tx j t) = tk_round t"
  "tk_user (settled_row now m v tx j t) = tk_user t" "tk_idempotency_key (settled_row now m v tx j t) = tk_idempotency_key t"
  "tk_payout (settled_row now m v tx j t) = Some v" "tk_jackpot_payout (settled_row now m v tx j t) = j"
  "tk_stake (settled_row now m v tx j t) = tk_stake t"
  "tk_status (settled_row now m v tx j t) = (if 0 < v then ''won'' else ''lost'')"
  by (simp_all add: settled_row_def)

subsection \<open>One ticket\<close>

lemma settle_update:
  assumes t: "t \<in> set (keno_tickets d)" "tk_status t = ''pending''" "ticket_ok t" "distinct (map tk_id (keno_tickets d))"
    and u: "keno_tickets u = keno_tickets d"
  shows "update_ticket (tk_id t) (\<lambda>t. tk_status t = ''pending'') (\<lambda>t. t\<lparr>tk_status := if 0 < v then ''won'' else ''lost'',
      tk_matches := Some m, tk_payout := Some v, tk_payout_txn := tx, tk_settled_at := Some now\<rparr>) u
      = u\<lparr>keno_tickets := put_row (settled_row now m v tx None t) (keno_tickets d)\<rparr>"
    "\<exists>x\<in>set (keno_tickets u). tk_id x = tk_id t \<and> tk_status x = ''pending''"
proof -
  let ?f = "\<lambda>t. t\<lparr>tk_status := if 0 < v then ''won'' else ''lost'', tk_matches := Some m, tk_payout := Some v,
      tk_payout_txn := tx, tk_settled_at := Some now\<rparr>"
  have row: "?f t = settled_row now m v tx None t"
    using t(2,3) by (cases t) (auto simp: settled_row_def ticket_ok_def)
  show "update_ticket (tk_id t) (\<lambda>t. tk_status t = ''pending'') ?f u
      = u\<lparr>keno_tickets := put_row (settled_row now m v tx None t) (keno_tickets d)\<rparr>"
    using update_ticket_put_row [of t u "\<lambda>t. tk_status t = ''pending''" ?f] t u row by simp
  show "\<exists>x\<in>set (keno_tickets u). tk_id x = tk_id t \<and> tk_status x = ''pending''" using t(1,2) u by auto
qed

definition same_accounts :: "db \<Rightarrow> db \<Rightarrow> bool" where
  "same_accounts d d' \<longleftrightarrow> (\<forall>ow i. acct_of (led d) ow = Some i \<longrightarrow> acct_of (led d') ow = Some i)"

lemma settle_one_ticket_lost:
  assumes bk: "keno_books d" and t: "t \<in> set (keno_tickets d)" "tk_status t = ''pending''"
  shows "settle_one_ticket now (tk_id t) (tk_round t) (tk_user t) m 0 d
    = Inr (True, d\<lparr>keno_tickets := put_row (settled_row now m 0 None None t) (keno_tickets d)\<rparr>)"
proof -
  note b = keno_booksE [OF bk]
  have "ticket_ok t" using b(2) t(1) by (simp add: tickets_ok_def)
  from settle_update(1) [OF t this b(4) refl, where v = 0] settle_update(2) [OF t this b(4) refl]
  show ?thesis by (simp add: settle_one_ticket_def Let_def)
qed

lemma settle_one_ticket_won:
  assumes bk: "keno_books d" and t: "t \<in> set (keno_tickets d)" "tk_status t = ''pending''"
    and v: "0 < v" "whole_cents v"
  shows "\<exists>tx l. settle_one_ticket now (tk_id t) (tk_round t) (tk_user t) m v d
      = Inr (True, d\<lparr>led := l, keno_tickets := put_row (settled_row now m v (Some tx) None t) (keno_tickets d)\<rparr>)
    \<and> ledger_ok l \<and> obal l = (obal (led d))(reserve_owner := obal (led d) reserve_owner - v,
         cash_owner (tk_user t) := obal (led d) (cash_owner (tk_user t)) + v)
    \<and> tkeys l = insert (keno_settle_key (tk_round t) (tk_id t)) (tkeys (led d))
    \<and> (\<forall>ow i. acct_of (led d) ow = Some i \<longrightarrow> acct_of l ow = Some i)"
proof -
  note b = keno_booksE [OF bk]
  have ok: "ticket_ok t" using b(2) t(1) by (simp add: tickets_ok_def)
  obtain ra d1 where a1: "db_account (fst reserve_owner) (snd reserve_owner) d = (ra, d1)" by fastforce
  obtain ca d2 where a2: "db_account (fst (cash_owner (tk_user t))) (snd (cash_owner (tk_user t))) d1 = (ca, d2)" by fastforce
  define p where "p = keno_payout_args (tk_round t) (tk_id t) v (acc_id ra) (acc_id ca)"
  have key: "pa_key p = keno_settle_key (tk_round t) (tk_id t)" by (simp add: p_def keno_payout_args_def)
  have fresh: "pa_key p \<notin> tkeys (led d)" using tickets_ok_pending_fresh(1) [OF b(2) t] by (simp add: key)
  have pe: "pa_entries p = [\<lparr>ent_account = acc_id ra, ent_amount = - v\<rparr>, \<lparr>ent_account = acc_id ca, ent_amount = v\<rparr>]"
    by (simp add: p_def keno_payout_args_def)
  note tr = looked_up_transfer [OF b(1) a1 a2 pe _ v(2) fresh, of now]
  have "\<exists>t d3. db_post now p d2 = Inr (t, d3)" using tr(2) v(1) by (simp add: USER_BALANCE_KINDS_def)
  then obtain x d3 where x: "db_post now p d2 = Inr (x, d3)" by blast
  have l: "ledger_ok (led d3)" "obal (led d3) = (obal (led d))(reserve_owner := obal (led d) reserve_owner - v,
       cash_owner (tk_user t) := obal (led d) (cash_owner (tk_user t)) + v)"
    "tkeys (led d3) = insert (pa_key p) (tkeys (led d))" "d3 = d\<lparr>led := led d3\<rparr>"
    "\<forall>ow i. acct_of (led d) ow = Some i \<longrightarrow> acct_of (led d3) ow = Some i"
    using tr(1) [OF _ x] by simp_all
  have kt: "keno_tickets d3 = keno_tickets d" by (subst l(4)) simp
  have row: "d3\<lparr>keno_tickets := ts\<rparr> = d\<lparr>led := led d3, keno_tickets := ts\<rparr>" for ts
    by (subst l(4)) simp
  have "settle_one_ticket now (tk_id t) (tk_round t) (tk_user t) m v d
      = Inr (True, d3\<lparr>keno_tickets := put_row (settled_row now m v (Some (txn_id x)) None t) (keno_tickets d)\<rparr>)"
    using settle_update(1) [OF t ok b(4) kt, where v = v] settle_update(2) [OF t ok b(4) kt] v(1) a1 a2 x
    by (simp add: settle_one_ticket_def Let_def p_def)
  then show ?thesis
    using l(1,2,3,5) unfolding row by (intro exI [of _ "txn_id x"] exI [of _ "led d3"]) (simp add: key)
qed

subsection \<open>The jackpot\<close>

lemma pay_jackpot_effect:
  assumes ok: "ledger_ok (led d)" and jl: "jackpot_linked d"
    and fresh: "keno_jackpot_key r i \<notin> tkeys (led d)" and y: "y \<in> set (keno_tickets d)" "tk_id y = i"
    and dist: "distinct (map tk_id (keno_tickets d))" and pay: "pay_jackpot now r i u d = Inr (j, d')"
  shows "j = 0 \<and> d' = d \<or>
    0 < j \<and> j = obal (led d) jackpot_owner \<and> keno_jackpot d \<noteq> None \<and> whole_cents j
    \<and> (\<exists>l. d' = d\<lparr>led := l, keno_tickets := put_row (y\<lparr>tk_jackpot_payout := Some j\<rparr>) (keno_tickets d)\<rparr>
      \<and> ledger_ok l \<and> obal l = (obal (led d))(jackpot_owner := 0, cash_owner u := obal (led d) (cash_owner u) + j)
      \<and> tkeys l = insert (keno_jackpot_key r i) (tkeys (led d))
      \<and> (\<forall>ow i. acct_of (led d) ow = Some i \<longrightarrow> acct_of l ow = Some i))"
proof (cases "keno_jackpot d")
  case None
  then show ?thesis using pay by (simp add: pay_jackpot_def)
next
  case (Some pool)
  then have src: "acct_of (led d) jackpot_owner = Some (jp_account pool)" using jl by (simp add: jackpot_linked_def)
  obtain b where b: "ledger_balance (led d) (jp_account pool) = Inr b"
    using pay Some by (auto simp: pay_jackpot_def bind_result_Inr_iff)
  have w: "whole_cents (raw_balance (led d) (jp_account pool))"
    using raw_balance_whole ok by (simp add: ledger_ok_def)
  have bv: "b = obal (led d) jackpot_owner"
    using b quantize_cent_Inr [OF _ w] src by (simp add: ledger_balance_def obal_def)
  have wb: "whole_cents b" using w src by (simp add: bv obal_def)
  show ?thesis
  proof (cases "b \<le> 0")
    case True
    then show ?thesis using pay Some b by (simp add: pay_jackpot_def)
  next
    case False
    obtain ca d1 where a: "db_account (fst (cash_owner u)) (snd (cash_owner u)) d = (ca, d1)" by fastforce
    note g = dbw.get_account_spec [OF a ok]
    let ?p = "keno_jackpot_args r i b (jp_account pool) (acc_id ca)"
    obtain t d2 where p: "db_post now ?p d1 = Inr (t, d2)" "j = b"
        "d' = update_ticket i (\<lambda>_. True) (\<lambda>t. t\<lparr>tk_jackpot_payout := Some b\<rparr>) d2"
      using pay Some b False a by (auto simp: pay_jackpot_def Let_def bind_result_Inr_iff)
    have pe: "pa_entries ?p = [\<lparr>ent_account = jp_account pool, ent_amount = - b\<rparr>, \<lparr>ent_account = acc_id ca, ent_amount = b\<rparr>]"
      and key: "pa_key ?p = keno_jackpot_key r i" by (simp_all add: keno_jackpot_args_def)
    have fr: "pa_key ?p \<notin> tkeys (led d1)" using fresh g(3) by (simp add: key)
    note tr = dbw.transfer [OF g(1) g(6) [OF src] g(4) _ wb fr pe p(1)]
    have d2: "d2 = d\<lparr>led := led d2\<rparr>" using tr(5) g(5) by (intro tables_of_eq) simp
    have kt: "keno_tickets d2 = keno_tickets d" by (subst d2) simp
    have "d' = d2\<lparr>keno_tickets := put_row (y\<lparr>tk_jackpot_payout := Some b\<rparr>) (keno_tickets d)\<rparr>"
      using update_ticket_put_row [of y d2 "\<lambda>_. True" "\<lambda>t. t\<lparr>tk_jackpot_payout := Some b\<rparr>"] y dist kt p(3) by simp
    also have "\<dots> = d\<lparr>led := led d2, keno_tickets := put_row (y\<lparr>tk_jackpot_payout := Some b\<rparr>) (keno_tickets d)\<rparr>"
      by (subst d2) simp
    finally have d': "d' = d\<lparr>led := led d2, keno_tickets := put_row (y\<lparr>tk_jackpot_payout := Some b\<rparr>) (keno_tickets d)\<rparr>" .
    have "ledger_ok (led d2)" "obal (led d2) = (obal (led d))(jackpot_owner := 0, cash_owner u := obal (led d) (cash_owner u) + b)"
      "tkeys (led d2) = insert (keno_jackpot_key r i) (tkeys (led d))"
      "\<forall>ow i. acct_of (led d) ow = Some i \<longrightarrow> acct_of (led d2) ow = Some i"
      using tr(1-4) g(2,3,6) bv key by simp_all
    with d' show ?thesis using False bv wb Some p(2) by (intro disjI2 conjI exI [of _ "led d2"]) simp_all
  qed
qed

subsection \<open>The tally\<close>

text \<open>What the rows say was paid, to a player, out of the reserve and out of the jackpot pool; a refund
  comes out of the reserve.\<close>

definition from_reserve :: "keno_ticket \<Rightarrow> money" where
  "from_reserve t = opt_money (tk_payout t) + (if tk_status t = ''refunded'' then tk_stake t else 0)"

definition paid_to :: "keno_ticket list \<Rightarrow> int \<Rightarrow> money" where
  "paid_to ts u = sum_list (map (\<lambda>t. if tk_user t = u then from_reserve t + opt_money (tk_jackpot_payout t) else 0) ts)"

definition paid_base :: "keno_ticket list \<Rightarrow> money" where
  "paid_base ts = sum_list (map from_reserve ts)"

definition paid_jackpot :: "keno_ticket list \<Rightarrow> money" where
  "paid_jackpot ts = sum_list (map (\<lambda>t. opt_money (tk_jackpot_payout t)) ts)"

definition same_tally :: "db \<Rightarrow> db \<Rightarrow> bool" where
  "same_tally d d' \<longleftrightarrow>
     (\<forall>u. obal (led d') (cash_owner u) - paid_to (keno_tickets d') u = obal (led d) (cash_owner u) - paid_to (keno_tickets d) u)
     \<and> obal (led d') reserve_owner + paid_base (keno_tickets d') = obal (led d) reserve_owner + paid_base (keno_tickets d)
     \<and> obal (led d') jackpot_owner + paid_jackpot (keno_tickets d') = obal (led d) jackpot_owner + paid_jackpot (keno_tickets d)
     \<and> (\<forall>ow. ow \<noteq> reserve_owner \<and> ow \<noteq> jackpot_owner \<and> snd ow \<noteq> ''user_cash'' \<longrightarrow> obal (led d') ow = obal (led d) ow)"

lemma same_tally_refl [simp]: "same_tally d d"
  by (simp add: same_tally_def)

lemma same_tally_trans: "same_tally d d1 \<Longrightarrow> same_tally d1 d2 \<Longrightarrow> same_tally d d2"
  by (simp add: same_tally_def)

lemma paid_put_row:
  assumes "t \<in> set ts" "tk_id y = tk_id t" "distinct (map tk_id ts)" "tk_user y = tk_user t"
    "from_reserve t = 0" "tk_jackpot_payout t = None"
  shows "paid_to (put_row y ts) u = paid_to ts u + (if tk_user t = u then from_reserve y + opt_money (tk_jackpot_payout y) else 0)"
    "paid_base (put_row y ts) = paid_base ts + from_reserve y"
    "paid_jackpot (put_row y ts) = paid_jackpot ts + opt_money (tk_jackpot_payout y)"
  using assms by (simp_all add: paid_to_def paid_base_def paid_jackpot_def put_row_sum)

definition settled_from :: "int \<Rightarrow> int list \<Rightarrow> money \<Rightarrow> db \<Rightarrow> keno_ticket \<Rightarrow> keno_paytable \<Rightarrow> keno_ticket \<Rightarrow> bool" where
  "settled_from now drawn mw d x p y \<longleftrightarrow>
     (\<exists>tx j v. let m = count_matches (picks_of d (tk_id x)) drawn in
        compute_payout (tk_stake x) m (kp_multipliers p) mw = Inr v \<and> y = settled_row now m v tx j x
        \<and> (j \<noteq> None \<longrightarrow> tk_pick_count x = 5 \<and> m = 5))"

definition sane_paytable :: "keno_paytable \<Rightarrow> bool" where
  "sane_paytable p \<longleftrightarrow> (\<forall>(k, m)\<in>set (kp_multipliers p). 0 \<le> m)"

lemma sane_multiplier: "sane_paytable p \<Longrightarrow> 0 \<le> multiplier_of (kp_multipliers p) k"
  by (auto simp: sane_paytable_def multiplier_of_def split: option.splits dest!: map_of_SomeD)

lemma pending_unpaid: "ticket_ok t \<Longrightarrow> tk_status t = ''pending'' \<Longrightarrow> from_reserve t = 0 \<and> tk_jackpot_payout t = None"
  by (auto simp: ticket_ok_def from_reserve_def)

text \<open>The books after a row has taken its result and the money has moved.\<close>

lemma settled_books:
  assumes bk: "keno_books d" and t: "t \<in> set (keno_tickets d)" "tk_status t = ''pending''"
    and v: "0 \<le> v" and j: "\<And>w. j = Some w \<Longrightarrow> 0 < w"
    and l: "ledger_ok l" "obal l = (obal (led d))(reserve_owner := obal (led d) reserve_owner - v,
        jackpot_owner := obal (led d) jackpot_owner - opt_money j,
        cash_owner (tk_user t) := obal (led d) (cash_owner (tk_user t)) + v + opt_money j)"
    and K: "tkeys l = tkeys (led d) \<union> (if 0 < v then {keno_settle_key (tk_round t) (tk_id t)} else {})
        \<union> (if j \<noteq> None then {keno_jackpot_key (tk_round t) (tk_id t)} else {})"
    and acc: "\<forall>ow i. acct_of (led d) ow = Some i \<longrightarrow> acct_of l ow = Some i"
  shows "keno_books (d\<lparr>led := l, keno_tickets := put_row (settled_row now m v tx j t) (keno_tickets d)\<rparr>)"
    "same_tally d (d\<lparr>led := l, keno_tickets := put_row (settled_row now m v tx j t) (keno_tickets d)\<rparr>)"
proof -
  let ?y = "settled_row now m v tx j t"
  note b = keno_booksE [OF bk]
  have ok: "ticket_ok t" using b(2) t(1) by (simp add: tickets_ok_def)
  have yok: "ticket_ok ?y" using ok v by (auto simp: ticket_ok_def)
  have "tickets_ok (put_row ?y (keno_tickets d)) (tkeys l)"
    by (rule tickets_ok_move [OF b(2) t _ _ _ yok, where J = "if j \<noteq> None then {keno_jackpot_key (tk_round t) (tk_id t)} else {}"])
      (use K in auto)
  then show "keno_books (d\<lparr>led := l, keno_tickets := put_row ?y (keno_tickets d)\<rparr>)"
    using l(1) b(3) acc by (simp add: keno_books_def jackpot_linked_def)
  note pr = paid_put_row [OF t(1) _ b(4) _ pending_unpaid [OF ok t(2), THEN conjunct1] pending_unpaid [OF ok t(2), THEN conjunct2], of ?y]
  show "same_tally d (d\<lparr>led := l, keno_tickets := put_row ?y (keno_tickets d)\<rparr>)"
    unfolding same_tally_def using pr l(2) by (auto simp: from_reserve_def)
qed

lemma settle_ticket_effect:
  assumes bk: "keno_books d" and t: "t \<in> set (keno_tickets d)" "tk_status t = ''pending''"
    and p: "sane_paytable p" "whole_cents mw" "0 \<le> mw"
    and s: "settle_ticket now (tk_round t) drawn mw (t, p) (rs, h, d) = Inr (rs', h', d')"
  shows "\<exists>y l. settled_from now drawn mw d t p y \<and> d' = d\<lparr>led := l, keno_tickets := put_row y (keno_tickets d)\<rparr>
    \<and> keno_books d' \<and> same_tally d d'
    \<and> obal (led d') jackpot_owner \<in> {obal (led d) jackpot_owner, 0}"
proof -
  define m where "m = count_matches (picks_of d (tk_id t)) drawn"
  note b = keno_booksE [OF bk]
  have ok: "ticket_ok t" using b(2) t(1) by (simp add: tickets_ok_def)
  let ?jp = "\<lambda>d1. if tk_pick_count t = 5 \<and> m = 5 then pay_jackpot now (tk_round t) (tk_id t) (tk_user t) d1 else Inr (0, d1)"
  have "bind_result (compute_payout (tk_stake t) m (kp_multipliers p) mw) (\<lambda>v.
      bind_result (settle_one_ticket now (tk_id t) (tk_round t) (tk_user t) m v d) (\<lambda>(st, d1).
      bind_result (?jp d1) (\<lambda>(j, d2). Inr (if st then rs @ [\<lparr>sl_user = tk_user t, sl_ticket = tk_id t, sl_matches = m, sl_payout = v,
        sl_jackpot = j, sl_stake = tk_stake t, sl_session = tk_autoplay_session t\<rparr>] else rs, h \<or> 0 < j, d2)))) = Inr (rs', h', d')"
    using s unfolding settle_ticket_def Let_def prod.case m_def [symmetric] .
  then obtain v where v1: "compute_payout (tk_stake t) m (kp_multipliers p) mw = Inr v"
    and r1: "bind_result (settle_one_ticket now (tk_id t) (tk_round t) (tk_user t) m v d) (\<lambda>(st, d1).
      bind_result (?jp d1) (\<lambda>(j, d2). Inr (if st then rs @ [\<lparr>sl_user = tk_user t, sl_ticket = tk_id t, sl_matches = m, sl_payout = v,
        sl_jackpot = j, sl_stake = tk_stake t, sl_session = tk_autoplay_session t\<rparr>] else rs, h \<or> 0 < j, d2))) = Inr (rs', h', d')"
    unfolding bind_result_Inr_iff [of "compute_payout (tk_stake t) m (kp_multipliers p) mw"] by blast
  obtain z where z: "settle_one_ticket now (tk_id t) (tk_round t) (tk_user t) m v d = Inr z"
    using r1 by (cases "settle_one_ticket now (tk_id t) (tk_round t) (tk_user t) m v d") simp_all
  obtain st d1 where zz: "z = (st, d1)" by fastforce
  obtain w where w: "?jp d1 = Inr w" using r1 unfolding z zz bind_result_simps prod.case by (cases "?jp d1") simp_all
  obtain j d2 where ww: "w = (j, d2)" by fastforce
  have "d2 = d'" using r1 unfolding z zz bind_result_simps prod.case w ww by simp
  note v = v1 z [unfolded zz] w [unfolded ww this]
  have vv: "whole_cents v" "0 \<le> v"
    using compute_payout_Inr [OF v(1) _ sane_multiplier [OF p(1)] p(2)] ok p(3) by (auto simp: ticket_ok_def)
  let ?y = "\<lambda>tx j. settled_row now m v tx j t"
  have from_j: "settled_from now drawn mw d t p (?y tx j)" if "j \<noteq> None \<Longrightarrow> tk_pick_count t = 5 \<and> m = 5" for tx j
    using v(1) that by (auto simp: settled_from_def Let_def m_def [symmetric])
  obtain tx l where one: "d1 = d\<lparr>led := l, keno_tickets := put_row (?y tx None) (keno_tickets d)\<rparr>" "ledger_ok l"
      "obal l = (obal (led d))(reserve_owner := obal (led d) reserve_owner - v,
         cash_owner (tk_user t) := obal (led d) (cash_owner (tk_user t)) + v)"
      "tkeys l = tkeys (led d) \<union> (if 0 < v then {keno_settle_key (tk_round t) (tk_id t)} else {})"
      "\<forall>ow i. acct_of (led d) ow = Some i \<longrightarrow> acct_of l ow = Some i"
  proof (cases "0 < v")
    case True
    from settle_one_ticket_won [OF bk t True vv(1), of now m] v(2) that True show ?thesis by auto
  next
    case False
    then have "v = 0" using vv(2) by simp
    with settle_one_ticket_lost [OF bk t, of now m] v(2) that [of None "led d"] b(1) show ?thesis by (simp add: fun_eq_iff)
  qed
  have base: "keno_books d1" "same_tally d d1"
    unfolding one(1) by (rule settled_books [OF bk t vv(2) _ one(2)]; use one in \<open>simp add: fun_eq_iff\<close>)+
  show ?thesis
  proof (cases "tk_pick_count t = 5 \<and> m = 5 \<and> d' \<noteq> d1")
    case False
    moreover from False v(3) have "d' = d1" by (auto split: if_splits)
    moreover have "obal (led d1) jackpot_owner = obal (led d) jackpot_owner" using one(3) by (simp add: one(1))
    ultimately show ?thesis using base one(1) from_j [of None tx] by (intro exI [of _ "?y tx None"] exI [of _ l]) simp
  next
    case True
    then have pj: "pay_jackpot now (tk_round t) (tk_id t) (tk_user t) d1 = Inr (j, d')" using v(3) by simp
    have kt: "keno_tickets d1 = put_row (?y tx None) (keno_tickets d)" by (simp add: one(1))
    have row: "?y tx None \<in> set (keno_tickets d1)" using put_row_set [OF t(1) _ b(4), of "?y tx None"] by (simp add: kt)
    have fresh: "keno_jackpot_key (tk_round t) (tk_id t) \<notin> tkeys (led d1)"
      using tickets_ok_pending_fresh(3) [OF b(2) t] one(4) by (auto simp: one(1))
    note b1 = keno_booksE [OF base(1)]
    from pay_jackpot_effect [OF b1(1,3) fresh row _ b1(4) pj] True obtain l2 where
        jp: "0 < j" "j = obal l jackpot_owner"
          "d' = d1\<lparr>led := l2, keno_tickets := put_row ((?y tx None)\<lparr>tk_jackpot_payout := Some j\<rparr>) (keno_tickets d1)\<rparr>"
        "ledger_ok l2" "obal l2 = (obal l)(jackpot_owner := 0, cash_owner (tk_user t) := obal l (cash_owner (tk_user t)) + j)"
        "tkeys l2 = insert (keno_jackpot_key (tk_round t) (tk_id t)) (tkeys l)"
        "\<forall>ow i. acct_of l ow = Some i \<longrightarrow> acct_of l2 ow = Some i"
      by (auto simp: one(1))
    have "(?y tx None)\<lparr>tk_jackpot_payout := Some j\<rparr> = ?y tx (Some j)" by (simp add: settled_row_def)
    then have d': "d' = d\<lparr>led := l2, keno_tickets := put_row (?y tx (Some j)) (keno_tickets d)\<rparr>"
      using jp(3) by (simp add: kt put_row_put_row) (simp add: one(1))
    have "keno_books d'" "same_tally d d'"
      unfolding d' by (rule settled_books [OF bk t vv(2) _ jp(4)]; use one jp in \<open>auto simp: fun_eq_iff\<close>)+
    moreover have "obal (led d') jackpot_owner = 0" using jp(5) by (simp add: d')
    ultimately show ?thesis using d' from_j [of "Some j" tx] True by blast
  qed
qed

lemma pay_jackpot_returns:
  assumes ok: "ledger_ok (led d)" and jl: "jackpot_linked d" and fresh: "keno_jackpot_key r i \<notin> tkeys (led d)"
    and small: "\<bar>obal (led d) jackpot_owner\<bar> < 10 ^ 26"
  shows "\<exists>j d'. pay_jackpot now r i u d = Inr (j, d')"
proof (cases "keno_jackpot d")
  case (Some pool)
  then have src: "acct_of (led d) jackpot_owner = Some (jp_account pool)" using jl by (simp add: jackpot_linked_def)
  have w: "whole_cents (obal (led d) jackpot_owner)"
    using raw_balance_whole ok src by (simp add: ledger_ok_def obal_def)
  have b: "ledger_balance (led d) (jp_account pool) = Inr (obal (led d) jackpot_owner)"
    using quantize_cent_whole [OF w small] src by (simp add: ledger_balance_def obal_def)
  show ?thesis
  proof (cases "obal (led d) jackpot_owner \<le> 0")
    case True
    then show ?thesis using Some b by (simp add: pay_jackpot_def)
  next
    case False
    obtain ca d1 where a: "db_account (fst (cash_owner u)) (snd (cash_owner u)) d = (ca, d1)" by fastforce
    note g = dbw.get_account_spec [OF a ok]
    let ?p = "keno_jackpot_args r i (obal (led d) jackpot_owner) (jp_account pool) (acc_id ca)"
    have "\<exists>t d2. db_post now ?p d1 = Inr (t, d2)"
      by (rule dbw.transfer_returns [OF g(1) g(6) [OF src] g(4) _ w])
        (use False fresh g(3) in \<open>auto simp: keno_jackpot_args_def USER_BALANCE_KINDS_def\<close>)
    then show ?thesis using Some b False a by (auto simp: pay_jackpot_def Let_def)
  qed
qed (simp add: pay_jackpot_def)

lemma settle_ticket_returns:
  assumes bk: "keno_books d" and t: "t \<in> set (keno_tickets d)" "tk_status t = ''pending''"
    and p: "sane_paytable p" "whole_cents mw" "0 \<le> mw"
    and v: "\<And>m. \<exists>v. compute_payout (tk_stake t) m (kp_multipliers p) mw = Inr v"
    and small: "\<bar>obal (led d) jackpot_owner\<bar> < 10 ^ 26"
  shows "\<exists>s'. settle_ticket now (tk_round t) drawn mw (t, p) (rs, h, d) = Inr s'"
proof -
  define m where "m = count_matches (picks_of d (tk_id t)) drawn"
  note b = keno_booksE [OF bk]
  have ok: "ticket_ok t" using b(2) t(1) by (simp add: tickets_ok_def)
  obtain v where v: "compute_payout (tk_stake t) m (kp_multipliers p) mw = Inr v" using v by blast
  have vv: "whole_cents v" "0 \<le> v"
    using compute_payout_Inr [OF v(1) _ sane_multiplier [OF p(1)] p(2)] ok p(3) by (auto simp: ticket_ok_def)
  obtain tx l where one: "settle_one_ticket now (tk_id t) (tk_round t) (tk_user t) m v d
        = Inr (True, d\<lparr>led := l, keno_tickets := put_row (settled_row now m v tx None t) (keno_tickets d)\<rparr>)"
      "ledger_ok l" "keno_jackpot_key (tk_round t) (tk_id t) \<notin> tkeys l" "obal l jackpot_owner = obal (led d) jackpot_owner"
      "\<forall>ow i. acct_of (led d) ow = Some i \<longrightarrow> acct_of l ow = Some i"
  proof (cases "0 < v")
    case True
    from settle_one_ticket_won [OF bk t True vv(1), of now m] obtain tx l where
        w: "settle_one_ticket now (tk_id t) (tk_round t) (tk_user t) m v d
          = Inr (True, d\<lparr>led := l, keno_tickets := put_row (settled_row now m v (Some tx) None t) (keno_tickets d)\<rparr>)" "ledger_ok l"
        "obal l = (obal (led d))(reserve_owner := obal (led d) reserve_owner - v,
           cash_owner (tk_user t) := obal (led d) (cash_owner (tk_user t)) + v)"
        "tkeys l = insert (keno_settle_key (tk_round t) (tk_id t)) (tkeys (led d))"
        "\<forall>ow i. acct_of (led d) ow = Some i \<longrightarrow> acct_of l ow = Some i" by blast
    with tickets_ok_pending_fresh(3) [OF b(2) t] that [of "Some tx" l] show ?thesis by auto
  next
    case False
    then have "v = 0" using vv(2) by simp
    with settle_one_ticket_lost [OF bk t, of now m] tickets_ok_pending_fresh(3) [OF b(2) t] that [of None "led d"] b(1)
    show ?thesis by simp
  qed
  define d1 where "d1 = d\<lparr>led := l, keno_tickets := put_row (settled_row now m v tx None t) (keno_tickets d)\<rparr>"
  have "jackpot_linked d1" using b(3) one(5) by (simp add: jackpot_linked_def d1_def)
  then obtain j d2 where "pay_jackpot now (tk_round t) (tk_id t) (tk_user t) d1 = Inr (j, d2)"
    using pay_jackpot_returns [of d1 "tk_round t" "tk_id t" now "tk_user t"] one(2-4) small by (auto simp: d1_def)
  then show ?thesis
    unfolding settle_ticket_def Let_def prod.case m_def [symmetric] by (simp add: v one(1) d1_def [symmetric])
qed

subsection \<open>A round\<close>

definition settled_by :: "int \<Rightarrow> int list \<Rightarrow> money \<Rightarrow> db \<Rightarrow> (keno_ticket \<times> keno_paytable) list \<Rightarrow> keno_ticket \<Rightarrow> keno_ticket \<Rightarrow> bool" where
  "settled_by now drawn mw d items x y \<longleftrightarrow>
     (\<forall>p. (x, p) \<in> set items \<longrightarrow> settled_from now drawn mw d x p y) \<and> (x \<notin> fst ` set items \<longrightarrow> y = x)"

definition payable :: "int \<Rightarrow> db \<Rightarrow> (keno_ticket \<times> keno_paytable) list \<Rightarrow> bool" where
  "payable r d items \<longleftrightarrow> distinct (map (\<lambda>x. tk_id (fst x)) items)
     \<and> (\<forall>(t, p)\<in>set items. t \<in> set (keno_tickets d) \<and> tk_status t = ''pending'' \<and> tk_round t = r \<and> sane_paytable p)"

lemma payable_step:
  assumes pay: "payable r d ((t, p) # items)" and dist: "distinct (map tk_id (keno_tickets d))"
    and y: "tk_id y = tk_id t" and kt: "keno_tickets d' = put_row y (keno_tickets d)"
  shows "payable r d' items" "t \<notin> fst ` set items" "y \<notin> fst ` set items"
proof -
  have t: "t \<in> set (keno_tickets d)" using pay by (simp add: payable_def)
  have ids: "tk_id x \<noteq> tk_id t" if "(x, q) \<in> set items" for x q
    using pay that by (force simp: payable_def)
  then show "t \<notin> fst ` set items" "y \<notin> fst ` set items" using y by fastforce+
  have "set (keno_tickets d') = insert y (set (keno_tickets d) - {t})" unfolding kt by (rule put_row_set [OF t y dist])
  then show "payable r d' items" using pay ids by (fastforce simp: payable_def)
qed

lemma settle_fold:
  assumes "fold_result (settle_ticket now r drawn mw) items (rs, h, d) = Inr (rs', h', d')"
    and "keno_books d" "payable r d items" "whole_cents mw" "0 \<le> mw"
  shows "keno_books d' \<and> same_tally d d' \<and> d' = d\<lparr>led := led d', keno_tickets := keno_tickets d'\<rparr>
    \<and> list_all2 (settled_by now drawn mw d items) (keno_tickets d) (keno_tickets d')"
  using assms
proof (induction items arbitrary: rs h d)
  case Nil
  then show ?case by (simp add: settled_by_def list.rel_refl)
next
  case (Cons it items)
  obtain t p where it: "it = (t, p)" by fastforce
  have t: "t \<in> set (keno_tickets d)" "tk_status t = ''pending''" "tk_round t = r" "sane_paytable p"
    using Cons.prems(3) by (auto simp: payable_def it)
  obtain rs1 h1 d1 where one: "settle_ticket now (tk_round t) drawn mw (t, p) (rs, h, d) = Inr (rs1, h1, d1)"
      "fold_result (settle_ticket now r drawn mw) items (rs1, h1, d1) = Inr (rs', h', d')"
    using Cons.prems(1) t(3) by (auto simp: it bind_result_Inr_iff)
  note b = keno_booksE [OF Cons.prems(2)]
  from settle_ticket_effect [OF Cons.prems(2) t(1,2,4) Cons.prems(4,5) one(1)] obtain y l where
      y: "settled_from now drawn mw d t p y" "d1 = d\<lparr>led := l, keno_tickets := put_row y (keno_tickets d)\<rparr>"
        "keno_books d1" "same_tally d d1" by blast
  have idy: "tk_id y = tk_id t" using y(1) by (auto simp: settled_from_def Let_def)
  have kt: "keno_tickets d1 = put_row y (keno_tickets d)" by (simp add: y(2))
  note ps = payable_step [OF Cons.prems(3) [unfolded it] b(4) idy kt]
  have ih: "keno_books d' \<and> same_tally d1 d' \<and> d' = d1\<lparr>led := led d', keno_tickets := keno_tickets d'\<rparr>
      \<and> list_all2 (settled_by now drawn mw d1 items) (keno_tickets d1) (keno_tickets d')"
    by (rule Cons.IH [OF one(2) y(3) ps(1) Cons.prems(4,5)])
  have from_eq: "settled_from now drawn mw d1 = settled_from now drawn mw d"
    by (intro ext) (simp add: settled_from_def picks_of_def y(2))
  have "list_all2 (settled_by now drawn mw d (it # items)) (keno_tickets d) (keno_tickets d')"
  proof (rule list_all2_trans [OF _ _ ih [THEN conjunct2, THEN conjunct2, THEN conjunct2]])
    show "list_all2 (\<lambda>a b. a \<in> set (keno_tickets d) \<and> b = (if tk_id a = tk_id y then y else a)) (keno_tickets d) (keno_tickets d1)"
      unfolding kt put_row_def by (simp add: list_all2_map2 list.rel_refl_strong)
  next
    fix a b' c assume a: "a \<in> set (keno_tickets d) \<and> b' = (if tk_id a = tk_id y then y else a)"
      and c: "settled_by now drawn mw d1 items b' c"
    show "settled_by now drawn mw d (it # items) a c"
    proof (cases "a = t")
      case True
      then have "c = y" using a c ps(3) idy by (simp add: settled_by_def)
      moreover have "q = p" if "(t, q) \<in> set (it # items)" for q using that ps(2) by (force simp: it)
      ultimately show ?thesis using y(1) True by (auto simp: settled_by_def it)
    next
      case False
      then have "tk_id a \<noteq> tk_id t" using a t(1) b(4) by (auto simp: distinct_map inj_on_def)
      then have "b' = a" using a idy by simp
      then show ?thesis using c False from_eq by (auto simp: settled_by_def it)
    qed
  qed
  moreover have "d1\<lparr>led := led d', keno_tickets := keno_tickets d'\<rparr> = d\<lparr>led := led d', keno_tickets := keno_tickets d'\<rparr>"
    by (simp add: y(2))
  ultimately show ?case using ih same_tally_trans [OF y(4)] by metis
qed

end
