(* ===== verification/Keno_Finish.thy ===== *)
theory Keno_Finish
  imports Keno_Payout
begin

text \<open>
  A whole round's settlement and a whole round's refund as contracts: what they return, which rows they
  change, and what they keep. Both are done once: a second run finds nothing pending.
\<close>

subsection \<open>Settlement\<close>

lemma pending_tickets_alt:
  "pending_tickets d r = map (\<lambda>t. (t, the (paytable_by_id d (tk_paytable t))))
     (filter (\<lambda>t. tk_round t = r \<and> tk_status t = ''pending'' \<and> paytable_by_id d (tk_paytable t) \<noteq> None) (keno_tickets d))"
proof -
  have "concat (map (\<lambda>t. case paytable_by_id d (tk_paytable t) of None \<Rightarrow> [] | Some p \<Rightarrow> [(t, p)])
      (filter (\<lambda>t. tk_round t = r \<and> tk_status t = ''pending'') ts))
    = map (\<lambda>t. (t, the (paytable_by_id d (tk_paytable t))))
     (filter (\<lambda>t. tk_round t = r \<and> tk_status t = ''pending'' \<and> paytable_by_id d (tk_paytable t) \<noteq> None) ts)" for ts
    by (induction ts) auto
  then show ?thesis by (simp add: pending_tickets_def)
qed

definition paytables_sane :: "db \<Rightarrow> bool" where
  "paytables_sane d \<longleftrightarrow> (\<forall>p\<in>set (keno_paytables d). sane_paytable p)"

lemma pending_tickets_mem:
  "(t, p) \<in> set (pending_tickets d r) \<longleftrightarrow>
     t \<in> set (keno_tickets d) \<and> tk_round t = r \<and> tk_status t = ''pending'' \<and> paytable_by_id d (tk_paytable t) = Some p"
  by (auto simp: pending_tickets_alt image_iff)

lemma pending_payable:
  assumes "keno_books d" "paytables_sane d" shows "payable r d (pending_tickets d r)"
proof -
  have "distinct (map (\<lambda>x. tk_id (fst x)) (pending_tickets d r))"
    using keno_booksE(4) [OF assms(1)] by (simp add: pending_tickets_alt comp_def distinct_map inj_on_def)
  moreover have "sane_paytable p" if "(t, p) \<in> set (pending_tickets d r)" for t p
    using that assms(2) by (auto simp: pending_tickets_mem paytables_sane_def paytable_by_id_def find_Some_iff)
  ultimately show ?thesis by (auto simp: payable_def pending_tickets_mem)
qed

definition tickets_priced :: "db \<Rightarrow> bool" where
  "tickets_priced d \<longleftrightarrow> (\<forall>t\<in>set (keno_tickets d). paytable_by_id d (tk_paytable t) \<noteq> None)"

definition win_cap :: "db \<Rightarrow> int \<Rightarrow> money option" where
  "win_cap d r = Option.bind (keno_round_by_id d r) (\<lambda>row. map_option kt_max_win_per_ticket (tier_by_id d (kr_tier row)))"

lemma settle_tickets_txn_effect:
  assumes bk: "keno_books d" and sane: "paytables_sane d" and cap: "win_cap d r = Some mw" "whole_cents mw" "0 \<le> mw"
    and s: "settle_tickets_txn now r (Some drawn) d = Inr (rs, hit, d')"
  shows "keno_books d'" "same_tally d d'" "d' = d\<lparr>led := led d', keno_tickets := keno_tickets d'\<rparr>"
    "list_all2 (settled_by now drawn mw d (pending_tickets d r)) (keno_tickets d) (keno_tickets d')"
proof -
  obtain row tier where rt: "keno_round_by_id d r = Some row" "tier_by_id d (kr_tier row) = Some tier" "kt_max_win_per_ticket tier = mw"
    using cap(1) by (auto simp: win_cap_def bind_eq_Some_conv)
  obtain d1 where f: "fold_result (settle_ticket now r drawn mw) (pending_tickets d r) ([], False, d) = Inr (rs, hit, d1)"
      "db_commit d d1 = Inr d'"
    using s by (auto simp: settle_tickets_txn_def rt bind_result_Inr_iff Let_def)
  have "d' = d1" using f(2) by (rule db_commit_Inr)
  then show "keno_books d'" "same_tally d d'" "d' = d\<lparr>led := led d', keno_tickets := keno_tickets d'\<rparr>"
    "list_all2 (settled_by now drawn mw d (pending_tickets d r)) (keno_tickets d) (keno_tickets d')"
    using settle_fold [OF f(1) bk pending_payable [OF bk sane] cap(2,3)] by blast+
qed

lemma settled_not_pending:
  assumes p: "tickets_priced d" and a: "list_all2 (settled_by now drawn mw d (pending_tickets d r)) (keno_tickets d) (keno_tickets d')"
    and y: "y \<in> set (keno_tickets d')" "tk_round y = r"
  shows "tk_status y \<noteq> ''pending''"
proof -
  obtain i where i: "i < length (keno_tickets d')" "keno_tickets d' ! i = y" using y(1) by (auto simp: in_set_conv_nth)
  define x where "x = keno_tickets d ! i"
  have x: "x \<in> set (keno_tickets d)" "settled_by now drawn mw d (pending_tickets d r) x y"
    using a i by (auto simp: list_all2_conv_all_nth x_def)
  show ?thesis
  proof (cases "\<exists>q. (x, q) \<in> set (pending_tickets d r)")
    case True
    then obtain q where "settled_from now drawn mw d x q y" using x(2) by (auto simp: settled_by_def)
    then obtain m v tx j where "y = settled_row now m v tx j x" by (auto simp: settled_from_def Let_def)
    then show ?thesis by simp
  next
    case False
    then have "y = x" using x(2) by (force simp: settled_by_def)
    moreover have "paytable_by_id d (tk_paytable x) \<noteq> None" using p x(1) by (simp add: tickets_priced_def)
    ultimately show ?thesis using False x(1) y(2) by (auto simp: pending_tickets_mem)
  qed
qed

subsection \<open>Settlement returns\<close>

lemma ctx_round_le_double: "0 \<le> x \<Longrightarrow> ctx_round 28 x \<le> 2 * x"
proof -
  assume x: "0 \<le> x"
  have "\<bar>ctx_round 28 x - x\<bar> \<le> \<bar>x\<bar> * pow10 (1 - int 28) / 2" by (rule ctx_round_error)
  also have "\<dots> \<le> x" using x by (simp add: pow10_27)
  finally show ?thesis by simp
qed

lemma compute_payout_returns:
  assumes "column_money stake" "0 \<le> stake" "0 \<le> multiplier_of ms k" "multiplier_of ms k \<le> 10 ^ 9"
  shows "\<exists>v. compute_payout stake k ms mw = Inr v"
proof -
  let ?x = "dmul stake (multiplier_of ms k)"
  have "stake * multiplier_of ms k \<le> 10 ^ 16 * 10 ^ 9"
    using assms by (intro mult_mono) (auto simp: column_money_def)
  moreover have "?x \<le> 2 * (stake * multiplier_of ms k)"
    unfolding dmul_def using assms by (intro ctx_round_le_double) simp
  ultimately have "?x * 100 < of_int (10 ^ 28)" by simp
  then have "\<lfloor>?x * 100\<rfloor> < 10 ^ 28" by (simp only: floor_less_iff)
  moreover have "0 \<le> ?x" unfolding dmul_def using assms by (intro ctx_round_nonneg) simp
  ultimately have "quantize_down ?x = Inr (of_int \<lfloor>?x * 100\<rfloor> / 100)" by (simp add: quantize_down_Inr)
  then show ?thesis by (simp add: compute_payout_def)
qed

definition multipliers_bounded :: "db \<Rightarrow> bool" where
  "multipliers_bounded d \<longleftrightarrow> (\<forall>p\<in>set (keno_paytables d). \<forall>(k, m)\<in>set (kp_multipliers p). m \<le> 10 ^ 9)"

lemma bounded_multiplier:
  "multipliers_bounded d \<Longrightarrow> p \<in> set (keno_paytables d) \<Longrightarrow> multiplier_of (kp_multipliers p) k \<le> 10 ^ 9"
  by (fastforce simp: multipliers_bounded_def multiplier_of_def split: option.splits dest!: map_of_SomeD)

lemma settle_fold_returns:
  assumes "keno_books d" "payable r d items" "whole_cents mw" "0 \<le> mw"
    and "\<forall>(t, p)\<in>set items. \<forall>m. multiplier_of (kp_multipliers p) m \<le> 10 ^ 9"
    and "\<bar>obal (led d) jackpot_owner\<bar> < 10 ^ 26"
  shows "\<exists>s'. fold_result (settle_ticket now r drawn mw) items (rs, h, d) = Inr s'"
  using assms
proof (induction items arbitrary: rs h d)
  case (Cons it items)
  obtain t p where it: "it = (t, p)" by fastforce
  note b = keno_booksE [OF Cons.prems(1)]
  have t: "t \<in> set (keno_tickets d)" "tk_status t = ''pending''" "tk_round t = r" "sane_paytable p"
    using Cons.prems(2) by (auto simp: payable_def it)
  have "ticket_ok t" using b(2) t(1) by (simp add: tickets_ok_def)
  then have cp: "\<exists>v. compute_payout (tk_stake t) m (kp_multipliers p) mw = Inr v" for m
    using Cons.prems(5) sane_multiplier [OF t(4)] by (intro compute_payout_returns) (auto simp: ticket_ok_def it)
  obtain rs1 h1 d1 where one: "settle_ticket now (tk_round t) drawn mw (t, p) (rs, h, d) = Inr (rs1, h1, d1)"
    using settle_ticket_returns [OF Cons.prems(1) t(1,2,4) Cons.prems(3,4) cp Cons.prems(6), of now drawn rs h] by (metis prod_cases3)
  from settle_ticket_effect [OF Cons.prems(1) t(1,2,4) Cons.prems(3,4) one] obtain y l where
      y: "settled_from now drawn mw d t p y" "d1 = d\<lparr>led := l, keno_tickets := put_row y (keno_tickets d)\<rparr>"
        "keno_books d1" "obal (led d1) jackpot_owner \<in> {obal (led d) jackpot_owner, 0}" by blast
  have idy: "tk_id y = tk_id t" using y(1) by (auto simp: settled_from_def Let_def)
  have kt: "keno_tickets d1 = put_row y (keno_tickets d)" by (simp add: y(2))
  have "\<exists>s'. fold_result (settle_ticket now r drawn mw) items (rs1, h1, d1) = Inr s'"
    by (rule Cons.IH [OF y(3) payable_step(1) [OF Cons.prems(2) [unfolded it] b(4) idy kt]])
      (use Cons.prems y(4) in auto)
  then show ?case using one t(3) by (simp add: it)
qed simp

lemma settle_tickets_txn_returns:
  assumes bk: "keno_books d" and sane: "paytables_sane d" "multipliers_bounded d"
    and cap: "win_cap d r = Some mw" "whole_cents mw" "0 \<le> mw" and small: "\<bar>obal (led d) jackpot_owner\<bar> < 10 ^ 26"
  shows "\<exists>s. settle_tickets_txn now r (Some drawn) d = Inr s"
proof -
  obtain row tier where rt: "keno_round_by_id d r = Some row" "tier_by_id d (kr_tier row) = Some tier" "kt_max_win_per_ticket tier = mw"
    using cap(1) by (auto simp: win_cap_def bind_eq_Some_conv)
  have pay: "payable r d (pending_tickets d r)" by (rule pending_payable [OF bk sane(1)])
  have "\<forall>(t, p)\<in>set (pending_tickets d r). \<forall>m. multiplier_of (kp_multipliers p) m \<le> 10 ^ 9"
    using bounded_multiplier [OF sane(2)] by (auto simp: pending_tickets_mem paytable_by_id_def find_Some_iff)
  from settle_fold_returns [OF bk pay cap(2,3) this small] obtain rs h d1 where
      f: "fold_result (settle_ticket now r drawn mw) (pending_tickets d r) ([], False, d) = Inr (rs, h, d1)"
    by (metis prod_cases3)
  have "keno_books d1" using settle_fold [OF f bk pay cap(2,3)] by blast
  then have "db_commit d d1 = Inr d1" by (intro db_commit_ok) (simp add: keno_books_def)
  then show ?thesis by (simp add: settle_tickets_txn_def rt Let_def f)
qed

subsection \<open>Refunds\<close>

definition refunded_row :: "int \<Rightarrow> keno_ticket \<Rightarrow> keno_ticket" where
  "refunded_row now t = t\<lparr>tk_status := ''refunded'', tk_settled_at := Some now\<rparr>"

lemma refunded_row_fields [simp]:
  "tk_id (refunded_row now t) = tk_id t" "tk_round (refunded_row now t) = tk_round t" "tk_user (refunded_row now t) = tk_user t"
  "tk_idempotency_key (refunded_row now t) = tk_idempotency_key t" "tk_stake (refunded_row now t) = tk_stake t"
  "tk_payout (refunded_row now t) = tk_payout t" "tk_jackpot_payout (refunded_row now t) = tk_jackpot_payout t"
  "tk_status (refunded_row now t) = ''refunded''"
  by (simp_all add: refunded_row_def)

lemma refund_one_ticket_effect:
  assumes bk: "keno_books d" and t: "t \<in> set (keno_tickets d)" "tk_status t = ''pending''"
  shows "\<exists>l. refund_one_ticket now (tk_round t) t d = Inr (d\<lparr>led := l, keno_tickets := put_row (refunded_row now t) (keno_tickets d)\<rparr>)
    \<and> keno_books (d\<lparr>led := l, keno_tickets := put_row (refunded_row now t) (keno_tickets d)\<rparr>)
    \<and> same_tally d (d\<lparr>led := l, keno_tickets := put_row (refunded_row now t) (keno_tickets d)\<rparr>)"
proof -
  note b = keno_booksE [OF bk]
  have ok: "ticket_ok t" using b(2) t(1) by (simp add: tickets_ok_def)
  obtain ra d1 where a1: "db_account (fst reserve_owner) (snd reserve_owner) d = (ra, d1)" by fastforce
  note g1 = dbw.get_account_spec [OF a1 b(1)]
  obtain ja d2 where a2: "db_account (fst jackpot_owner) (snd jackpot_owner) d1 = (ja, d2)" by fastforce
  note g2 = dbw.get_account_spec [OF a2 g1(1)]
  obtain ca d3 where a3: "db_account (fst (cash_owner (tk_user t))) (snd (cash_owner (tk_user t))) d2 = (ca, d3)" by fastforce
  note g3 = dbw.get_account_spec [OF a3 g2(1)]
  let ?p = "keno_refund_args (tk_round t) (tk_id t) (tk_stake t) (acc_id ra) (acc_id ca)"
  have key: "pa_key ?p = keno_refund_key (tk_round t) (tk_id t)"
    and pe: "pa_entries ?p = [\<lparr>ent_account = acc_id ra, ent_amount = - tk_stake t\<rparr>, \<lparr>ent_account = acc_id ca, ent_amount = tk_stake t\<rparr>]"
    by (simp_all add: keno_refund_args_def)
  have w: "whole_cents (tk_stake t)" "0 \<le> tk_stake t" using ok by (auto simp: ticket_ok_def column_money_def)
  have fr: "pa_key ?p \<notin> tkeys (led d3)"
    using tickets_ok_pending_fresh(2) [OF b(2) t] g1(3) g2(3) g3(3) by (simp add: key)
  have src: "acct_of (led d3) reserve_owner = Some (acc_id ra)" using g3(6) [OF g2(6) [OF g1(4)]] .
  have "\<exists>x d4. db_post now ?p d3 = Inr (x, d4)"
    by (rule dbw.transfer_returns [OF g3(1) src g3(4) _ w(1) fr w(2) pe]) (simp_all add: USER_BALANCE_KINDS_def)
  then obtain x d4 where x: "db_post now ?p d3 = Inr (x, d4)" by blast
  note tr = dbw.transfer [OF g3(1) src g3(4) _ w(1) fr pe x]
  have d4: "d4 = d\<lparr>led := led d4\<rparr>" using tr(5) g1(5) g2(5) g3(5) by (intro tables_of_eq) simp
  have kt: "keno_tickets d4 = keno_tickets d" by (subst d4) simp
  let ?d = "d\<lparr>led := led d4, keno_tickets := put_row (refunded_row now t) (keno_tickets d)\<rparr>"
  have "refund_one_ticket now (tk_round t) t d = Inr (d4\<lparr>keno_tickets := put_row (refunded_row now t) (keno_tickets d)\<rparr>)"
    using a1 a2 a3 x update_ticket_put_row [of t d4 "\<lambda>_. True" "\<lambda>t. t\<lparr>tk_status := ''refunded'', tk_settled_at := Some now\<rparr>"]
      t b(4) kt by (simp add: refund_one_ticket_def Let_def refunded_row_def)
  moreover have "d4\<lparr>keno_tickets := ts\<rparr> = d\<lparr>led := led d4, keno_tickets := ts\<rparr>" for ts by (subst d4) simp
  moreover have "keno_books ?d"
  proof -
    have "ticket_ok (refunded_row now t)" using ok t(2) by (auto simp: ticket_ok_def)
    then have "tickets_ok (put_row (refunded_row now t) (keno_tickets d)) (tkeys (led d4))"
      by (rule tickets_ok_move [OF b(2) t, where J = "{}", rotated 3]) (use tr(3) g1(3) g2(3) g3(3) key in auto)
    then show ?thesis using b(3) tr(1,4) g1(6) g2(6) g3(6) by (simp add: keno_books_def jackpot_linked_def)
  qed
  moreover have "same_tally d ?d"
    unfolding same_tally_def
    using paid_put_row [OF t(1) _ b(4) _ pending_unpaid [OF ok t(2), THEN conjunct1] pending_unpaid [OF ok t(2), THEN conjunct2], of "refunded_row now t"]
      pending_unpaid [OF ok t(2)] tr(2) g1(2) g2(2) g3(2) ok t(2)
    by (auto simp: from_reserve_def ticket_ok_def)
  ultimately show ?thesis by auto
qed

definition refunded_by :: "int \<Rightarrow> keno_ticket list \<Rightarrow> keno_ticket \<Rightarrow> keno_ticket" where
  "refunded_by now items x = (if x \<in> set items then refunded_row now x else x)"

lemma refund_fold:
  assumes "keno_books d" "distinct (map tk_id items)"
    and "\<forall>t\<in>set items. t \<in> set (keno_tickets d) \<and> tk_status t = ''pending'' \<and> tk_round t = r"
  shows "\<exists>l. fold_result (refund_one_ticket now r) items d
      = Inr (d\<lparr>led := l, keno_tickets := map (refunded_by now items) (keno_tickets d)\<rparr>)
    \<and> keno_books (d\<lparr>led := l, keno_tickets := map (refunded_by now items) (keno_tickets d)\<rparr>)
    \<and> same_tally d (d\<lparr>led := l, keno_tickets := map (refunded_by now items) (keno_tickets d)\<rparr>)"
  using assms
proof (induction items arbitrary: d)
  case Nil
  have "map (refunded_by now []) ts = ts" for ts by (simp add: refunded_by_def map_idI)
  then show ?case using Nil.prems(1) by (intro exI [of _ "led d"]) simp
next
  case (Cons t items)
  note b = keno_booksE [OF Cons.prems(1)]
  have t: "t \<in> set (keno_tickets d)" "tk_status t = ''pending''" "tk_round t = r" using Cons.prems(3) by auto
  let ?d1 = "\<lambda>l. d\<lparr>led := l, keno_tickets := put_row (refunded_row now t) (keno_tickets d)\<rparr>"
  from refund_one_ticket_effect [OF Cons.prems(1) t(1,2), of now] obtain l where
      l: "refund_one_ticket now r t d = Inr (?d1 l)" "keno_books (?d1 l)" "same_tally d (?d1 l)"
    unfolding t(3) by blast
  have ps: "set (put_row (refunded_row now t) (keno_tickets d)) = insert (refunded_row now t) (set (keno_tickets d) - {t})"
    by (rule put_row_set [OF t(1) _ b(4)]) simp
  have ids: "x \<in> set items \<Longrightarrow> tk_id x \<noteq> tk_id t" for x using Cons.prems(2) by (auto simp: image_iff)
  have "\<exists>l'. fold_result (refund_one_ticket now r) items (?d1 l)
      = Inr ((?d1 l)\<lparr>led := l', keno_tickets := map (refunded_by now items) (keno_tickets (?d1 l))\<rparr>)
    \<and> keno_books ((?d1 l)\<lparr>led := l', keno_tickets := map (refunded_by now items) (keno_tickets (?d1 l))\<rparr>)
    \<and> same_tally (?d1 l) ((?d1 l)\<lparr>led := l', keno_tickets := map (refunded_by now items) (keno_tickets (?d1 l))\<rparr>)"
    by (rule Cons.IH [OF l(2)]) (use Cons.prems ids ps in auto)
  moreover have rows: "map (refunded_by now items) (put_row (refunded_row now t) (keno_tickets d)) = map (refunded_by now (t # items)) (keno_tickets d)"
  proof -
    have "refunded_row now t \<notin> set items" using ids [of "refunded_row now t"] by auto
    moreover have "x \<in> set (keno_tickets d) \<Longrightarrow> tk_id x = tk_id t \<longleftrightarrow> x = t" for x
      using t(1) b(4) by (auto simp: distinct_map inj_on_def)
    ultimately show ?thesis by (auto simp: put_row_def refunded_by_def)
  qed
  ultimately obtain l' where l': "fold_result (refund_one_ticket now r) items (?d1 l)
      = Inr (d\<lparr>led := l', keno_tickets := map (refunded_by now (t # items)) (keno_tickets d)\<rparr>)"
    "keno_books (d\<lparr>led := l', keno_tickets := map (refunded_by now (t # items)) (keno_tickets d)\<rparr>)"
    "same_tally (?d1 l) (d\<lparr>led := l', keno_tickets := map (refunded_by now (t # items)) (keno_tickets d)\<rparr>)"
    by (auto simp: rows)
  then show ?case using l(1) same_tally_trans [OF l(3) l'(3)] by (intro exI [of _ l']) (simp add: bind_result_def)
qed

definition round_pending :: "db \<Rightarrow> int \<Rightarrow> keno_ticket list" where
  "round_pending d r = filter (\<lambda>t. tk_round t = r \<and> tk_status t = ''pending'') (keno_tickets d)"

definition fail_row :: "int \<Rightarrow> string \<Rightarrow> keno_round \<Rightarrow> keno_round" where
  "fail_row now reason r = r\<lparr>kr_status := ''failed'', kr_failure_reason := Some reason, kr_completed_at := Some now\<rparr>"

lemma keno_round_by_id_other [simp]:
  "keno_round_by_id (d\<lparr>led := l, keno_tickets := ts\<rparr>) = keno_round_by_id d"
  "keno_round_by_id (d\<lparr>led := l\<rparr>) = keno_round_by_id d"
  "keno_round_by_id (d\<lparr>keno_tickets := ts\<rparr>) = keno_round_by_id d"
  "keno_round_by_id (d\<lparr>keno_selections := ss\<rparr>) = keno_round_by_id d"
  "keno_round_by_id (d\<lparr>keno_events := es\<rparr>) = keno_round_by_id d"
  by (auto simp: keno_round_by_id_def fun_eq_iff)

lemma keno_round_by_id_update:
  assumes "\<And>r. kr_id (f r) = kr_id r"
  shows "keno_round_by_id (update_keno_round i f d) j
    = (if i = j then map_option f (keno_round_by_id d j) else keno_round_by_id d j)"
proof -
  have "keno_round_by_id (update_keno_round i f d) j
      = map_option (\<lambda>r. if kr_id r = i then f r else r) (find (\<lambda>r. kr_id r = j) (keno_rounds d))"
    unfolding keno_round_by_id_def update_keno_round_def by (simp, rule find_map_key) (simp add: assms)
  note up = this [folded keno_round_by_id_def]
  show ?thesis
  proof (cases "keno_round_by_id d j")
    case (Some r)
    then have "kr_id r = j" by (auto simp: keno_round_by_id_def find_Some_iff)
    then show ?thesis using up Some by simp
  qed (simp add: up)
qed

lemma update_keno_round_fields [simp]:
  "led (update_keno_round i f d) = led d" "keno_tickets (update_keno_round i f d) = keno_tickets d"
  "keno_jackpot (update_keno_round i f d) = keno_jackpot d" "keno_events (update_keno_round i f d) = keno_events d"
  "keno_selections (update_keno_round i f d) = keno_selections d" "keno_paytables (update_keno_round i f d) = keno_paytables d"
  "keno_configs (update_keno_round i f d) = keno_configs d" "keno_tiers (update_keno_round i f d) = keno_tiers d"
  "keno_sessions (update_keno_round i f d) = keno_sessions d" "users (update_keno_round i f d) = users d"
  "rounds (update_keno_round i f d) = rounds d" "keno_tier_state (update_keno_round i f d) = keno_tier_state d"
  by (simp_all add: update_keno_round_def)

lemma fail_and_refund_txn_effect:
  assumes bk: "keno_books d" and row: "keno_round_by_id d r = Some row"
  shows "\<exists>d'. fail_and_refund_txn w now r reason d = Inr d' \<and> keno_books d' \<and> same_tally d d'
    \<and> keno_tickets d' = map (refunded_by now (round_pending d r)) (keno_tickets d)
    \<and> keno_round_by_id d' r = Some (fail_row now reason row)
    \<and> (\<exists>l es. d' = (update_keno_round r (fail_row now reason) (d\<lparr>led := l, keno_tickets := keno_tickets d'\<rparr>))\<lparr>keno_events := es\<rparr>)"
proof -
  note b = keno_booksE [OF bk]
  have items: "distinct (map tk_id (round_pending d r))"
    "\<forall>t\<in>set (round_pending d r). t \<in> set (keno_tickets d) \<and> tk_status t = ''pending'' \<and> tk_round t = r"
    using b(4) by (auto simp: round_pending_def distinct_map inj_on_def)
  let ?d1 = "\<lambda>l. d\<lparr>led := l, keno_tickets := map (refunded_by now (round_pending d r)) (keno_tickets d)\<rparr>"
  from refund_fold [OF bk items, of now] obtain l where
      l: "fold_result (refund_one_ticket now r) (round_pending d r) d = Inr (?d1 l)" "keno_books (?d1 l)" "same_tally d (?d1 l)"
    by blast
  define d2 where "d2 = update_keno_round r (fail_row now reason) (?d1 l)"
  define d3 where "d3 = d2\<lparr>keno_events := keno_events d2 @ [\<lparr>ke_round = r, ke_from_status = None, ke_to_status = ''failed'',
      ke_worker = Some w, ke_reason = Some reason\<rparr>]\<rparr>"
  have r2: "keno_round_by_id d2 r = Some (fail_row now reason row)"
    using keno_round_by_id_update [of "fail_row now reason" r "?d1 l" r] row by (simp add: d2_def fail_row_def)
  have ev: "record_event w r None ''failed'' (Some reason) d2 = Inr d3"
    using r2 by (simp add: record_event_def d3_def)
  have f: "led d3 = l" "keno_tickets d3 = keno_tickets (?d1 l)" "keno_jackpot d3 = keno_jackpot d"
    by (simp_all add: d3_def d2_def)
  have bk3: "keno_books d3" using l(2) by (simp add: keno_books_def jackpot_linked_def f)
  have "db_commit d d3 = Inr d3" using bk3 by (intro db_commit_ok) (simp add: keno_books_def)
  then have "fail_and_refund_txn w now r reason d = Inr d3"
    using l(1) ev unfolding fail_and_refund_txn_def Let_def round_pending_def [symmetric] d2_def fail_row_def [abs_def] by simp
  moreover have "same_tally d d3" using l(3) by (simp add: same_tally_def f)
  moreover have "\<exists>l es. d3 = (update_keno_round r (fail_row now reason) (d\<lparr>led := l, keno_tickets := keno_tickets d3\<rparr>))\<lparr>keno_events := es\<rparr>"
    unfolding f(2) by (simp add: d3_def d2_def) blast
  ultimately show ?thesis using bk3 f(2) r2 by (intro exI [of _ d3]) (simp add: d3_def)
qed

end
