(* ===== verification/Keno_Placing.thy ===== *)
theory Keno_Placing
  imports Keno_Finish
begin

text \<open>
  An accepted ticket: the gates it passed, the rows it added and the money it moved. A ticket already
  placed under the key is returned again without a change.
\<close>

lemma ticket_user_check_Inr:
  "ticket_user_check d u = Inr z \<longleftrightarrow> (\<exists>r. user_by_id d u = Some r \<and> \<not> us_is_simulated r)"
  by (auto simp: ticket_user_check_def split: option.splits if_splits)

lemma ticket_gaming_check_Inr:
  assumes "ticket_gaming_check now d u stake = Inr c"
  shows "\<not> blocked (check_stake_allowed now d u stake)" "load_active_config now d = Inr c" "kc_keno_enabled c"
    "is_user_allowed_to_play d u c"
  using assms by (auto simp: ticket_gaming_check_def Let_def bind_result_Inr_iff split: if_splits option.splits)

lemma ticket_round_check_Inr:
  assumes "ticket_round_check d picks stake = Inr (row, tier)"
  shows "open_keno_round d = Some row" "kr_status row = ''betting_open''" "tier_by_id d (kr_tier row) = Some tier"
    "int (card picks) \<le> kt_max_pick_count tier" "stake \<in> set (kt_stake_options tier)"
  using assms by (auto simp: ticket_round_check_def split: if_splits option.splits)

lemma ticket_quote_Inr:
  assumes "ticket_quote_for now u picks stake c row tier d = Inr (q, d1)"
  shows "load_active_paytable now d (int (card picks)) (kt_paytable_profile tier) = Inr (tq_paytable q)"
    "tq_risk q = compute_ticket_risk_contribution (int (card picks)) (kp_multipliers (tq_paytable q)) stake"
    "int (length (user_tickets d (kr_id row) u)) < kc_max_tickets_per_user_per_round c"
    "\<exists>reserve x. reserve_balance_of d = Inr (reserve, d1)
      \<and> check_round_exposure (kr_total_expected_payout row) (kr_total_payout_variance row) (kr_total_stake row) (tq_risk q)
          stake reserve (kt_max_round_exposure_pct tier) (kc_jackpot_diversion_bps c) = Inr x
      \<and> xc_allowed x \<and> tq_exposure q = xc_projected_exposure x
      \<and> check_per_user_round_share (sum_list (map tk_expected_payout_contribution (user_tickets d (kr_id row) u)))
          (sum_list (map tk_payout_variance_contribution (user_tickets d (kr_id row) u))) (tq_risk q) (xc_ceiling x)
          (kc_per_user_round_capacity_share_bps c)"
  using assms by (auto simp: ticket_quote_for_def Let_def bind_result_Inr_iff split: if_splits)

lemma insert_keno_ticket_Inr:
  assumes "insert_keno_ticket t d = Inr d'"
  shows "\<exists>e v. d' = d\<lparr>keno_tickets := keno_tickets d @ [t\<lparr>tk_expected_payout_contribution := e, tk_payout_variance_contribution := v\<rparr>]\<rparr>"
    "0 < tk_stake t" "tk_idempotency_key t \<notin> tk_idempotency_key ` set (keno_tickets d)"
    "keno_round_by_id d (tk_round t) \<noteq> None" "user_by_id d (tk_user t) \<noteq> None"
  using assms by (auto simp: insert_keno_ticket_def bind_result_Inr_iff split: if_splits)

lemma bump_round_Inr:
  assumes "bump_round i stake q d = Inr d'" "keno_round_by_id d i = Some r"
  shows "\<exists>f. d' = update_keno_round i f d \<and> (\<forall>r. kr_id (f r) = kr_id r \<and> kr_status (f r) = kr_status r
     \<and> kr_server_seed (f r) = kr_server_seed r \<and> kr_server_seed_hash (f r) = kr_server_seed_hash r
     \<and> kr_public_seed (f r) = kr_public_seed r \<and> kr_ticket_ids_hash (f r) = kr_ticket_ids_hash r
     \<and> kr_drawn_numbers (f r) = kr_drawn_numbers r \<and> kr_config (f r) = kr_config r \<and> kr_tier (f r) = kr_tier r
     \<and> kr_betting_closed_at (f r) = kr_betting_closed_at r \<and> kr_seq (f r) = kr_seq r)
     \<and> (\<exists>total. numeric18_2 (kr_total_stake r + stake) = Inr total \<and> kr_total_stake (f r) = total)"
  using assms by (auto simp: bump_round_def bind_result_Inr_iff)

definition keno_limits_sane :: "db \<Rightarrow> bool" where
  "keno_limits_sane d \<longleftrightarrow>
     (\<forall>c\<in>set (keno_configs d). 0 \<le> kc_jackpot_diversion_bps c \<and> kc_jackpot_diversion_bps c \<le> 10000)
     \<and> (\<forall>t\<in>set (keno_tiers d). \<forall>s\<in>set (kt_stake_options t). column_money s)"

text \<open>The parts of an accepted placement, in the order they ran.\<close>

lemma place_ticket_txn_parts:
  assumes "place_ticket_txn now u picks stake key session d = Inr (pt, d')"
    and "replayed_ticket d (keno_stake_key u key) picks key = None"
  obtains c row tier q d1 tid d2 d3 where
    "ticket_user_check d u = Inr ()" "ticket_session_check d session = Inr ()"
    "ticket_gaming_check now d u stake = Inr c" "ticket_round_check d picks stake = Inr (row, tier)"
    "ticket_quote_for now u picks stake c row tier d = Inr (q, d1)"
    "take_stake now u (keno_stake_key u key) stake (kc_jackpot_diversion_bps c) d1 = Inr (tid, d2)"
    "insert_keno_ticket (new_ticket_row (new_ticket_id d2) (kr_id row) u (int (card picks)) stake q (keno_stake_key u key)
        tid session) d2 = Inr d3"
    "bump_round (kr_id row) stake q
        (d3\<lparr>keno_selections := keno_selections d3 @ map (\<lambda>n. (new_ticket_id d2, n)) (sorted_list_of_set picks)\<rparr>) = Inr d'"
    "pt = \<lparr>pt_id = new_ticket_id d2, pt_round = kr_id row, pt_user = u, pt_picks = picks, pt_stake = stake,
           pt_idempotency_key = key, pt_status = ''pending''\<rparr>"
proof -
  note s = assms(1) [unfolded place_ticket_txn_def Let_def assms(2) option.case]
  obtain c where c: "ticket_user_check d u = Inr ()" "ticket_session_check d session = Inr ()"
      "ticket_gaming_check now d u stake = Inr c"
    using s by (auto simp: bind_result_Inr_iff)
  obtain row tier where r: "ticket_round_check d picks stake = Inr (row, tier)"
    using s by (auto simp: bind_result_Inr_iff c)
  obtain q d1 where q: "ticket_quote_for now u picks stake c row tier d = Inr (q, d1)"
    using s by (auto simp: bind_result_Inr_iff c r)
  obtain tid d2 where t: "take_stake now u (keno_stake_key u key) stake (kc_jackpot_diversion_bps c) d1 = Inr (tid, d2)"
    using s by (auto simp: bind_result_Inr_iff c r q)
  obtain d3 where i: "insert_keno_ticket (new_ticket_row (new_ticket_id d2) (kr_id row) u (int (card picks)) stake q
      (keno_stake_key u key) tid session) d2 = Inr d3"
    using s by (auto simp: bind_result_Inr_iff c r q t)
  show thesis
    by (rule that [OF c r q t i]) (use s in \<open>auto simp: bind_result_Inr_iff c r q t i\<close>)
qed

definition selections_ok :: "db \<Rightarrow> bool" where
  "selections_ok d \<longleftrightarrow> (\<forall>s\<in>set (keno_selections d). fst s \<in> tk_id ` set (keno_tickets d))"

lemma open_keno_round_mem: "open_keno_round d = Some r \<Longrightarrow> r \<in> set (keno_rounds d)"
  by (auto simp: open_keno_round_def dest!: latest_by_filter)

definition staked_row :: "keno_ticket \<Rightarrow> int \<Rightarrow> int \<Rightarrow> int \<Rightarrow> money \<Rightarrow> string \<Rightarrow> int option \<Rightarrow> bool" where
  "staked_row t i round_id u stake key session \<longleftrightarrow>
     tk_id t = i \<and> tk_round t = round_id \<and> tk_user t = u \<and> tk_stake t = stake \<and> tk_status t = ''pending''
     \<and> tk_idempotency_key t = keno_stake_key u key \<and> tk_payout t = None \<and> tk_jackpot_payout t = None
     \<and> tk_autoplay_session t = session"

lemma place_ticket_txn_effect:
  assumes bk: "keno_books d" and sane: "keno_limits_sane d" and sel: "selections_ok d" and fin: "finite picks"
    and pl: "place_ticket_txn now u picks stake key session d = Inr (pt, d')"
    and new: "replayed_ticket d (keno_stake_key u key) picks key = None"
  shows "\<exists>row c t f rc jc ss. open_keno_round d = Some row \<and> load_active_config now d = Inr c
    \<and> staked_row t (int (length (keno_tickets d)) + 1) (kr_id row) u stake key session \<and> tk_pick_count t = int (card picks)
    \<and> paytable_by_id d (tk_paytable t) \<noteq> None \<and> ss = keno_selections d @ map (\<lambda>n. (tk_id t, n)) (sorted_list_of_set picks)
    \<and> d' = update_keno_round (kr_id row) f (d\<lparr>led := led d', keno_tickets := keno_tickets d @ [t], keno_selections := ss\<rparr>)
    \<and> (\<forall>r. kr_id (f r) = kr_id r \<and> kr_status (f r) = kr_status r
     \<and> kr_server_seed (f r) = kr_server_seed r \<and> kr_server_seed_hash (f r) = kr_server_seed_hash r
     \<and> kr_public_seed (f r) = kr_public_seed r \<and> kr_ticket_ids_hash (f r) = kr_ticket_ids_hash r
     \<and> kr_drawn_numbers (f r) = kr_drawn_numbers r \<and> kr_config (f r) = kr_config r \<and> kr_tier (f r) = kr_tier r
     \<and> kr_betting_closed_at (f r) = kr_betting_closed_at r \<and> kr_seq (f r) = kr_seq r)
    \<and> picks_of d' (tk_id t) = picks \<and> selections_ok d' \<and> keno_books d'
    \<and> 0 < stake \<and> stake \<le> obal (led d) (cash_owner u) \<and> stake_split stake (kc_jackpot_diversion_bps c) = Inr (rc, jc)
    \<and> obal (led d') = (obal (led d))(cash_owner u := obal (led d) (cash_owner u) - stake,
         reserve_owner := obal (led d) reserve_owner + rc, jackpot_owner := obal (led d) jackpot_owner + jc)
    \<and> pt = \<lparr>pt_id = tk_id t, pt_round = kr_id row, pt_user = u, pt_picks = picks, pt_stake = stake,
           pt_idempotency_key = key, pt_status = ''pending''\<rparr>"
proof -
  obtain c row tier q d1 tid d2 d3 where p:
    "ticket_gaming_check now d u stake = Inr c" "ticket_round_check d picks stake = Inr (row, tier)"
    "ticket_quote_for now u picks stake c row tier d = Inr (q, d1)"
    "take_stake now u (keno_stake_key u key) stake (kc_jackpot_diversion_bps c) d1 = Inr (tid, d2)"
    "insert_keno_ticket (new_ticket_row (new_ticket_id d2) (kr_id row) u (int (card picks)) stake q (keno_stake_key u key)
        tid session) d2 = Inr d3"
    "bump_round (kr_id row) stake q
        (d3\<lparr>keno_selections := keno_selections d3 @ map (\<lambda>n. (new_ticket_id d2, n)) (sorted_list_of_set picks)\<rparr>) = Inr d'"
    "pt = \<lparr>pt_id = new_ticket_id d2, pt_round = kr_id row, pt_user = u, pt_picks = picks, pt_stake = stake,
           pt_idempotency_key = key, pt_status = ''pending''\<rparr>"
    by (rule place_ticket_txn_parts [OF pl new])
  note b = keno_booksE [OF bk]
  note gc = ticket_gaming_check_Inr [OF p(1)] and rc = ticket_round_check_Inr [OF p(2)]
  obtain bal where rb: "reserve_balance_of d = Inr (bal, d1)" using ticket_quote_Inr(4) [OF p(3)] by blast
  note r1 = reserve_balance_of_effect [OF rb b(1)]
  have cm: "c \<in> set (keno_configs d)" using load_active_config_Inr(1) [OF gc(2)] .
  have tm: "tier \<in> set (keno_tiers d)" using rc(3) by (auto simp: tier_by_id_def find_Some_iff)
  have st: "column_money stake" "0 \<le> kc_jackpot_diversion_bps c" "kc_jackpot_diversion_bps c \<le> 10000"
    using sane cm tm rc(5) by (auto simp: keno_limits_sane_def)
  note ins = insert_keno_ticket_Inr [OF p(5)]
  have pos: "0 < stake" using ins(2) by (simp add: new_ticket_row_def)
  have kt1: "keno_tickets d1 = keno_tickets d" by (subst r1(4)) simp
  have keyfresh: "keno_stake_key u key \<notin> tk_idempotency_key ` set (keno_tickets d)"
    using new by (auto simp: replayed_ticket_def find_None_iff split: option.splits)
  then have fresh: "keno_stake_key u key \<notin> tkeys (led d1)"
    using tickets_ok_stake_fresh [OF b(2)] r1(3) by simp
  obtain rcut jcut where ts: "stake_split stake (kc_jackpot_diversion_bps c) = Inr (rcut, jcut)" "ledger_ok (led d2)"
      "d2 = d1\<lparr>led := led d2\<rparr>" "tkeys (led d2) = insert (keno_stake_key u key) (tkeys (led d1))"
      "stake \<le> obal (led d1) (cash_owner u)"
      "obal (led d2) = (obal (led d1))(cash_owner u := obal (led d1) (cash_owner u) - stake,
         reserve_owner := obal (led d1) reserve_owner + rcut, jackpot_owner := obal (led d1) jackpot_owner + jcut)"
      "\<forall>ow i. acct_of (led d1) ow = Some i \<longrightarrow> acct_of (led d2) ow = Some i"
    using take_stake_effect [OF r1(1) st(1) less_imp_le [OF pos] st(2,3) fresh p(4)] by blast
  have "d1\<lparr>led := led d2\<rparr> = d\<lparr>led := led d2\<rparr>" by (subst r1(4)) simp
  with ts(3) have d2: "d2 = d\<lparr>led := led d2\<rparr>" by (rule trans)
  have kt2: "keno_tickets d2 = keno_tickets d" by (subst d2) simp
  have tid: "new_ticket_id d2 = int (length (keno_tickets d)) + 1" by (simp add: new_ticket_id_def kt2)
  obtain e v where ev: "d3 = d2\<lparr>keno_tickets := keno_tickets d2 @ [(new_ticket_row (new_ticket_id d2) (kr_id row) u (int (card picks))
      stake q (keno_stake_key u key) tid session)\<lparr>tk_expected_payout_contribution := e, tk_payout_variance_contribution := v\<rparr>]\<rparr>"
    using ins(1) by blast
  define t where "t = (new_ticket_row (new_ticket_id d2) (kr_id row) u (int (card picks)) stake q (keno_stake_key u key)
      tid session)\<lparr>tk_expected_payout_contribution := e, tk_payout_variance_contribution := v\<rparr>"
  have row_t: "staked_row t (int (length (keno_tickets d)) + 1) (kr_id row) u stake key session" "tk_pick_count t = int (card picks)"
    by (simp_all add: t_def staked_row_def new_ticket_row_def tid)
  have "tq_paytable q \<in> set (keno_paytables d)" using load_active_paytable_Inr(1) [OF ticket_quote_Inr(1) [OF p(3)]] .
  then have priced: "paytable_by_id d (tk_paytable t) \<noteq> None"
    by (auto simp: t_def new_ticket_row_def paytable_by_id_def find_None_iff)
  define ss where "ss = keno_selections d @ map (\<lambda>n. (tk_id t, n)) (sorted_list_of_set picks)"
  define d4 where "d4 = d\<lparr>led := led d2, keno_tickets := keno_tickets d @ [t], keno_selections := ss\<rparr>"
  have ks2: "keno_selections d2 = keno_selections d" by (subst d2) simp
  have idt: "tk_id t = new_ticket_id d2" using row_t(1) by (simp add: staked_row_def tid)
  have d34: "d3\<lparr>keno_selections := keno_selections d3 @ map (\<lambda>n. (new_ticket_id d2, n)) (sorted_list_of_set picks)\<rparr> = d4"
  proof -
    have "d3 = d2\<lparr>keno_tickets := keno_tickets d @ [t]\<rparr>" using ev by (simp add: t_def kt2)
    also have "\<dots> = d\<lparr>led := led d2, keno_tickets := keno_tickets d @ [t]\<rparr>" by (subst d2) simp
    finally have "d3 = d\<lparr>led := led d2, keno_tickets := keno_tickets d @ [t]\<rparr>" .
    then show ?thesis by (simp add: d4_def ss_def idt)
  qed
  have "keno_round_by_id d2 (kr_id row) \<noteq> None" using ins(4) by (simp add: new_ticket_row_def)
  then have "keno_round_by_id d (kr_id row) \<noteq> None" by (subst (asm) d2) simp
  then obtain r0 where "keno_round_by_id d (kr_id row) = Some r0" by blast
  then have r0: "keno_round_by_id d4 (kr_id row) = Some r0" by (simp add: d4_def keno_round_by_id_def)
  obtain f where f: "d' = update_keno_round (kr_id row) f d4" "\<forall>r. kr_id (f r) = kr_id r \<and> kr_status (f r) = kr_status r
     \<and> kr_server_seed (f r) = kr_server_seed r \<and> kr_server_seed_hash (f r) = kr_server_seed_hash r
     \<and> kr_public_seed (f r) = kr_public_seed r \<and> kr_ticket_ids_hash (f r) = kr_ticket_ids_hash r
     \<and> kr_drawn_numbers (f r) = kr_drawn_numbers r \<and> kr_config (f r) = kr_config r \<and> kr_tier (f r) = kr_tier r
     \<and> kr_betting_closed_at (f r) = kr_betting_closed_at r \<and> kr_seq (f r) = kr_seq r"
    using bump_round_Inr [OF p(6) [unfolded d34] r0] by blast
  have led': "led d' = led d2" and kt': "keno_tickets d' = keno_tickets d @ [t]" and ks': "keno_selections d' = ss"
    and kj': "keno_jackpot d' = keno_jackpot d"
    by (simp_all add: f(1) d4_def)
  have tok: "ticket_ok t" using row_t(1) pos st(1) by (auto simp: ticket_ok_def staked_row_def)
  have "tickets_ok (keno_tickets d @ [t]) (insert (tk_idempotency_key t) (tkeys (led d)))"
    by (rule tickets_ok_append [OF b(2) tok]) (use row_t(1) keyfresh in \<open>simp_all add: staked_row_def\<close>)
  then have "keno_books d'"
    using ts(2,4,7) b(3) r1(3,6) row_t(1) by (simp add: keno_books_def jackpot_linked_def led' kt' kj' staked_row_def)
  moreover have "picks_of d' (tk_id t) = picks"
  proof -
    have "\<forall>x\<in>set (keno_tickets d). tk_id x \<noteq> tk_id t"
    proof -
      have "tk_id ` set (keno_tickets d) = (\<lambda>i. int i + 1) ` {0..<length (keno_tickets d)}"
        using b(2) unfolding tickets_ok_def by (metis set_map set_upt)
      then have "tk_id t \<notin> tk_id ` set (keno_tickets d)" using row_t(1) by (auto simp: staked_row_def)
      then show ?thesis by (metis imageI)
    qed
    then have "\<forall>s\<in>set (keno_selections d). fst s \<noteq> tk_id t" using sel by (force simp: selections_ok_def)
    then have "filter (\<lambda>s. fst s = tk_id t) (keno_selections d) = []" by (simp add: filter_empty_conv)
    then show ?thesis using fin by (simp add: picks_of_def ks' ss_def comp_def)
  qed
  moreover have "selections_ok d'" using sel by (auto simp: selections_ok_def ks' kt' ss_def)
  ultimately show ?thesis
    using rc(1) gc(2) row_t priced ss_def f ts(1,5,6) r1(2) pos p(7)
    by (intro exI [of _ row] exI [of _ c] exI [of _ t] exI [of _ f] exI [of _ rcut] exI [of _ jcut] exI [of _ ss] conjI)
      (simp_all add: led' d4_def idt)
qed

text \<open>The same key again: the ticket comes back and nothing is written.\<close>

lemma place_ticket_txn_replay:
  assumes "tk_idempotency_key t = keno_stake_key u key" "t \<in> set (keno_tickets d)"
    "distinct (map tk_idempotency_key (keno_tickets d))"
  shows "place_ticket_txn now u picks stake key session d =
    Inr (\<lparr>pt_id = tk_id t, pt_round = tk_round t, pt_user = tk_user t, pt_picks = picks, pt_stake = tk_stake t,
          pt_idempotency_key = key, pt_status = tk_status t\<rparr>, d)"
proof -
  obtain t' where t': "find (\<lambda>x. tk_idempotency_key x = keno_stake_key u key) (keno_tickets d) = Some t'"
    using assms(1,2) by (cases "find (\<lambda>x. tk_idempotency_key x = keno_stake_key u key) (keno_tickets d)")
      (auto simp: find_None_iff)
  then have "t' \<in> set (keno_tickets d)" "tk_idempotency_key t' = keno_stake_key u key" by (auto simp: find_Some_iff)
  then have "t' = t" using assms by (auto simp: distinct_map inj_on_def)
  then show ?thesis using t' by (simp add: place_ticket_txn_def replayed_ticket_def)
qed

end
