(* ===== verification/Runs.thy ===== *)
theory Runs
  imports Prelude
begin

text \<open>
  A system that moves by steps: an invariant every step keeps and a relation between the two ends of a
  step hold along whole runs. The components that interleave instantiate it.
\<close>

locale stepping =
  fixes step :: "'s \<Rightarrow> 's \<Rightarrow> bool"
    and good :: "'s \<Rightarrow> bool"
    and kept :: "'s \<Rightarrow> 's \<Rightarrow> bool"
  assumes step_good: "step s t \<Longrightarrow> good s \<Longrightarrow> good t"
    and step_kept: "step s t \<Longrightarrow> good s \<Longrightarrow> kept s t"
    and kept_refl: "kept s s"
    and kept_trans: "kept s t \<Longrightarrow> kept t u \<Longrightarrow> kept s u"
begin

lemma run_good: "step\<^sup>*\<^sup>* s t \<Longrightarrow> good s \<Longrightarrow> good t"
  by (induction rule: rtranclp_induct) (auto intro: step_good)

lemma run_kept: "step\<^sup>*\<^sup>* s t \<Longrightarrow> good s \<Longrightarrow> kept s t"
proof (induction rule: rtranclp_induct)
  case (step y z)
  then show ?case using step_kept run_good kept_trans by blast
qed (rule kept_refl)

end

end
