(* ===== verification/Keno_System.thy ===== *)
theory Keno_System
  imports Keno_Placing Runs
begin

text \<open>
  The Keno side as a whole. \<open>keno_step\<close> is one transaction of the game or of its configuration's
  automation, run by any worker at any time and in any order: a ticket, a session, a round's creation,
  opening, closing, draw, reveal, settlement, failure. \<open>keno_elsewhere\<close> is what the rest of the
  platform may do in between. The operations of the engine are runs of these steps, so what holds along
  every run holds for crashes between two transactions, for two workers that both believe to hold the
  lock, and for a settlement that overlaps the next round.
\<close>

subsection \<open>Steps\<close>

inductive keno_step :: "db \<Rightarrow> db \<Rightarrow> bool" where
  ks_place: "place_ticket now u picks stake key session d = Inr (t, d') \<Longrightarrow> keno_step d d'"
| ks_autoplay: "d' = place_safely now r s d \<Longrightarrow> keno_step d d'"
| ks_start_session: "start_session now u picks stake n win loss d = Inr (s, d') \<Longrightarrow> keno_step d d'"
| ks_stop_session: "stop_session u d = (s, d') \<Longrightarrow> keno_step d d'"
| ks_session_result: "d' = record_settlement_safely session stake payout jackpot d \<Longrightarrow> keno_step d d'"
| ks_create: "create_round_txn w now seed d = Inr (ctx, d') \<Longrightarrow> keno_step d d'"
| ks_solvency: "update_solvency d = (res, d') \<Longrightarrow> keno_step d d'"
| ks_breaker: "check_circuit_breaker now d = Inr (c, d') \<Longrightarrow> keno_step d d'"
| ks_tier: "evaluate_tier_transition now b d = Inr (c, d') \<Longrightarrow> keno_step d d'"
| ks_open: "open_betting_txn w now r d = Inr d' \<Longrightarrow> keno_step d d'"
| ks_close: "close_betting_txn w now r d = Inr (n, d') \<Longrightarrow> keno_step d d'"
| ks_draw: "draw_numbers w now ctx d = Inr (x, d') \<Longrightarrow> keno_step d d'"
| ks_reveal: "d' = update_keno_round r (\<lambda>x. x\<lparr>kr_reveal_index := k\<rparr>) d \<Longrightarrow> keno_step d d'"
| ks_drawn: "finish_draw_txn w now r d = Inr d' \<Longrightarrow> keno_step d d'"
| ks_settling: "begin_settling_txn w r d = Inr d' \<Longrightarrow> keno_step d d'"
| ks_settle: "keno_round_by_id d r = Some row \<Longrightarrow> settle_tickets_txn now r (kr_drawn_numbers row) d = Inr (ts, hit, d') \<Longrightarrow>
    keno_step d d'"
| ks_complete: "complete_round_txn w now r paid hit d = Inr d' \<Longrightarrow> keno_step d d'"
| ks_fail: "fail_and_refund_txn w now r reason d = Inr d' \<Longrightarrow> keno_step d d'"

inductive_cases keno_stepE: "keno_step d d'"

subsection \<open>What a step keeps\<close>

text \<open>A round keeps its seed, its commitment, its configuration and, once drawn, its numbers.\<close>

definition row_kept :: "keno_round \<Rightarrow> keno_round \<Rightarrow> bool" where
  "row_kept r r' \<longleftrightarrow> kr_id r' = kr_id r \<and> kr_seq r' = kr_seq r \<and> kr_config r' = kr_config r \<and> kr_tier r' = kr_tier r
     \<and> kr_server_seed r' = kr_server_seed r \<and> kr_server_seed_hash r' = kr_server_seed_hash r
     \<and> (kr_drawn_numbers r \<noteq> None \<longrightarrow> kr_drawn_numbers r' = kr_drawn_numbers r)"

text \<open>A ticket keeps what was bought; once it has its result or its refund the row does not change again.\<close>

definition ticket_kept :: "keno_ticket \<Rightarrow> keno_ticket \<Rightarrow> bool" where
  "ticket_kept t t' \<longleftrightarrow> tk_id t' = tk_id t \<and> tk_round t' = tk_round t \<and> tk_user t' = tk_user t \<and> tk_stake t' = tk_stake t
     \<and> tk_paytable t' = tk_paytable t \<and> tk_pick_count t' = tk_pick_count t \<and> tk_idempotency_key t' = tk_idempotency_key t
     \<and> (tk_status t \<noteq> ''pending'' \<longrightarrow> t' = t)"

definition rounds_kept :: "db \<Rightarrow> db \<Rightarrow> bool" where
  "rounds_kept d d' \<longleftrightarrow> (\<forall>i r. keno_round_by_id d i = Some r \<longrightarrow> (\<exists>r'. keno_round_by_id d' i = Some r' \<and> row_kept r r'))"

definition tickets_kept :: "db \<Rightarrow> db \<Rightarrow> bool" where
  "tickets_kept d d' \<longleftrightarrow> (\<exists>ts us. keno_tickets d' = ts @ us \<and> list_all2 ticket_kept (keno_tickets d) ts)
     \<and> (\<forall>t\<in>set (keno_tickets d). picks_of d' (tk_id t) = picks_of d (tk_id t))"

text \<open>
  Two accounts that no transaction of the game changes: a player's cash less what the player's tickets
  paid plus what they cost, and the game's two accounts plus what all tickets paid less what they cost.
\<close>

definition staked_by :: "keno_ticket list \<Rightarrow> int \<Rightarrow> money" where
  "staked_by ts u = sum_list (map (\<lambda>t. if tk_user t = u then tk_stake t else 0) ts)"

definition staked :: "keno_ticket list \<Rightarrow> money" where
  "staked ts = sum_list (map tk_stake ts)"

definition player_account :: "db \<Rightarrow> int \<Rightarrow> money" where
  "player_account d u = obal (led d) (cash_owner u) - paid_to (keno_tickets d) u + staked_by (keno_tickets d) u"

definition game_account :: "db \<Rightarrow> money" where
  "game_account d = obal (led d) reserve_owner + obal (led d) jackpot_owner + paid_base (keno_tickets d)
     + paid_jackpot (keno_tickets d) - staked (keno_tickets d)"

definition audited :: "db \<Rightarrow> db \<Rightarrow> bool" where
  "audited d d' \<longleftrightarrow> (\<forall>u. player_account d' u = player_account d u) \<and> game_account d' = game_account d
     \<and> (\<forall>ow. ow \<noteq> reserve_owner \<and> ow \<noteq> jackpot_owner \<and> snd ow \<noteq> ''user_cash'' \<longrightarrow> obal (led d') ow = obal (led d) ow)"

definition caps_sane :: "db \<Rightarrow> bool" where
  "caps_sane d \<longleftrightarrow> (\<forall>t\<in>set (keno_tiers d). whole_cents (kt_max_win_per_ticket t) \<and> 0 \<le> kt_max_win_per_ticket t)"

definition keno_inv :: "db \<Rightarrow> bool" where
  "keno_inv d \<longleftrightarrow> keno_books d \<and> selections_ok d \<and> tickets_priced d \<and> keno_limits_sane d \<and> paytables_sane d \<and> caps_sane d"

definition keno_progress :: "db \<Rightarrow> db \<Rightarrow> bool" where
  "keno_progress d d' \<longleftrightarrow> keno_inv d' \<and> rounds_kept d d' \<and> tickets_kept d d' \<and> audited d d'"

lemma row_kept_refl [simp]: "row_kept r r"
  by (simp add: row_kept_def)

lemma row_kept_trans: "row_kept a b \<Longrightarrow> row_kept b c \<Longrightarrow> row_kept a c"
  by (auto simp: row_kept_def)

lemma ticket_kept_refl [simp]: "ticket_kept t t"
  by (simp add: ticket_kept_def)

lemma ticket_kept_trans: "ticket_kept a b \<Longrightarrow> ticket_kept b c \<Longrightarrow> ticket_kept a c"
  by (auto simp: ticket_kept_def)

lemma rounds_kept_trans: "rounds_kept a b \<Longrightarrow> rounds_kept b c \<Longrightarrow> rounds_kept a c"
  unfolding rounds_kept_def by (metis row_kept_trans)

lemma tickets_kept_trans:
  assumes "tickets_kept a b" "tickets_kept b c" shows "tickets_kept a c"
proof -
  obtain ts us where b: "keno_tickets b = ts @ us" "list_all2 ticket_kept (keno_tickets a) ts"
      "\<forall>t\<in>set (keno_tickets a). picks_of b (tk_id t) = picks_of a (tk_id t)"
    using assms(1) by (auto simp: tickets_kept_def)
  obtain vs ws where c: "keno_tickets c = vs @ ws" "list_all2 ticket_kept (ts @ us) vs"
      "\<forall>t\<in>set (ts @ us). picks_of c (tk_id t) = picks_of b (tk_id t)"
    using assms(2) b(1) by (auto simp: tickets_kept_def)
  obtain v1 v2 where v: "vs = v1 @ v2" "list_all2 ticket_kept ts v1" using c(2) by (auto simp: list_all2_append1)
  have "list_all2 ticket_kept (keno_tickets a) v1" by (rule list_all2_trans [OF _ b(2) v(2)]) (rule ticket_kept_trans)
  moreover have "picks_of c (tk_id t) = picks_of a (tk_id t)" if t: "t \<in> set (keno_tickets a)" for t
  proof -
    obtain i where i: "i < length (keno_tickets a)" "keno_tickets a ! i = t" using t by (auto simp: in_set_conv_nth)
    then have "ticket_kept t (ts ! i)" "i < length ts" using b(2) by (auto simp: list_all2_conv_all_nth)
    then have "tk_id t = tk_id (ts ! i)" "ts ! i \<in> set (ts @ us)" by (auto simp: ticket_kept_def)
    then show ?thesis using c(3) b(3) t by auto
  qed
  ultimately show ?thesis using c(1) v(1) by (auto simp: tickets_kept_def)
qed

lemma keno_progress_trans: "keno_progress a b \<Longrightarrow> keno_progress b c \<Longrightarrow> keno_progress a c"
  unfolding keno_progress_def audited_def using rounds_kept_trans [of a b c] tickets_kept_trans [of a b c] by simp

lemma rounds_kept_refl [simp]: "rounds_kept d d" by (simp add: rounds_kept_def)

lemma tickets_kept_same:
  "keno_tickets d' = keno_tickets d \<Longrightarrow> keno_selections d' = keno_selections d \<Longrightarrow> tickets_kept d d'"
  unfolding tickets_kept_def picks_of_def by (intro conjI exI [of _ "keno_tickets d"] exI [of _ "[]"]) (simp_all add: list.rel_refl)

lemma tickets_kept_refl [simp]: "tickets_kept d d" by (simp add: tickets_kept_same)

subsection \<open>Quiet steps\<close>

text \<open>A step that leaves the tickets alone and moves no money: it may open accounts, change rounds, sessions, tiers.\<close>

definition quiet :: "db \<Rightarrow> db \<Rightarrow> bool" where
  "quiet d d' \<longleftrightarrow> keno_tickets d' = keno_tickets d \<and> keno_selections d' = keno_selections d \<and> keno_jackpot d' = keno_jackpot d
     \<and> keno_configs d' = keno_configs d \<and> keno_tiers d' = keno_tiers d \<and> keno_paytables d' = keno_paytables d
     \<and> tkeys (led d') = tkeys (led d) \<and> obal (led d') = obal (led d) \<and> (ledger_ok (led d) \<longrightarrow> ledger_ok (led d'))
     \<and> (\<forall>ow i. acct_of (led d) ow = Some i \<longrightarrow> acct_of (led d') ow = Some i)"

lemma quiet_progress:
  assumes inv: "keno_inv d" and q: "quiet d d'" and r: "rounds_kept d d'" shows "keno_progress d d'"
proof -
  have "keno_inv d'"
    using inv q by (auto simp: keno_inv_def quiet_def keno_books_def jackpot_linked_def selections_ok_def tickets_priced_def
        paytable_by_id_def keno_limits_sane_def paytables_sane_def caps_sane_def)
  moreover have "audited d d'" using q by (simp add: audited_def quiet_def player_account_def game_account_def)
  moreover have "tickets_kept d d'" using q by (simp add: quiet_def tickets_kept_same)
  ultimately show ?thesis using r by (simp add: keno_progress_def)
qed

lemma quiet_tables:
  "d' = d\<lparr>keno_rounds := rs, keno_events := es\<rparr> \<Longrightarrow> quiet d d'"
  "d' = d\<lparr>keno_sessions := ss\<rparr> \<Longrightarrow> quiet d d'"
  "d' = d\<lparr>keno_tier_state := st, keno_tier_changes := cs\<rparr> \<Longrightarrow> quiet d d'"
  by (auto simp: quiet_def)

lemma quiet_refl [simp]: "quiet d d" by (simp add: quiet_def)

lemma quiet_trans: "quiet a b \<Longrightarrow> quiet b c \<Longrightarrow> quiet a c"
  by (auto simp: quiet_def)

lemma rounds_kept_same: "keno_rounds d' = keno_rounds d \<Longrightarrow> rounds_kept d d'"
  by (auto simp: rounds_kept_def keno_round_by_id_def)

lemma rounds_kept_update:
  assumes "\<And>r. kr_id (f r) = kr_id r" "\<And>r. keno_round_by_id d i = Some r \<Longrightarrow> row_kept r (f r)"
    and "keno_rounds d' = keno_rounds (update_keno_round i f d)"
  shows "rounds_kept d d'"
proof -
  have "keno_round_by_id d' j = (if i = j then map_option f (keno_round_by_id d j) else keno_round_by_id d j)" for j
    using keno_round_by_id_update [of f i d j, OF assms(1)] assms(3) by (simp add: keno_round_by_id_def)
  then show ?thesis using assms(2) by (auto simp: rounds_kept_def)
qed

lemma record_event_frame: "record_event w r from_s to_s why d = Inr d' \<Longrightarrow> \<exists>es. d' = d\<lparr>keno_events := es\<rparr>"
  by (auto simp: record_event_def split: if_splits)

text \<open>An update of a round's row with an event: the shape of most transactions of the engine.\<close>

lemma round_event_progress:
  assumes inv: "keno_inv d" and ev: "record_event w i from_s to_s why (update_keno_round r f d) = Inr d'"
    and f: "\<And>x. kr_id (f x) = kr_id x" "\<And>x. keno_round_by_id d r = Some x \<Longrightarrow> row_kept x (f x)"
  shows "keno_progress d d'"
proof (rule quiet_progress [OF inv])
  obtain es where d': "d' = (update_keno_round r f d)\<lparr>keno_events := es\<rparr>" using record_event_frame [OF ev] by blast
  show "quiet d d'" by (simp add: d' quiet_def)
  show "rounds_kept d d'" by (rule rounds_kept_update [OF f]) (simp_all add: d')
qed


lemma sessions_progress: "keno_inv d \<Longrightarrow> keno_progress d (d\<lparr>keno_sessions := ss\<rparr>)"
  by (rule quiet_progress) (simp_all add: quiet_tables rounds_kept_same)

lemma db_account_progress:
  assumes inv: "keno_inv d" and a: "db_account (fst ow) (snd ow) d = (x, d')"
  shows "quiet d d'" "rounds_kept d d'"
proof -
  have ok: "ledger_ok (led d)" using inv by (simp add: keno_inv_def keno_books_def)
  note g = dbw.get_account_spec [OF a ok]
  have d': "d' = d\<lparr>led := led d'\<rparr>" using g(5) by (rule tables_of_eq)
  have "keno_tickets d' = keno_tickets d" "keno_selections d' = keno_selections d" "keno_jackpot d' = keno_jackpot d"
    "keno_configs d' = keno_configs d" "keno_tiers d' = keno_tiers d" "keno_paytables d' = keno_paytables d"
    by (subst d', simp)+
  then show "quiet d d'" unfolding quiet_def using g(1-3,6) by blast
  show "rounds_kept d d'" by (rule rounds_kept_same) (subst d', simp)
qed

subsection \<open>Sessions\<close>

lemma stop_internal_frame: "\<exists>ss. stop_internal i status reason d = d\<lparr>keno_sessions := ss\<rparr>"
  by (auto simp: stop_internal_def update_sessions_def)

lemma session_after_settlement_frame: "\<exists>ss. session_after_settlement s d = d\<lparr>keno_sessions := ss\<rparr>"
  using stop_internal_frame by (auto simp: session_after_settlement_def intro: exI [of _ "keno_sessions d"])

lemma record_settlement_frame: "\<exists>ss. record_settlement_safely session stake payout jackpot d = d\<lparr>keno_sessions := ss\<rparr>"
proof -
  have "\<exists>ss. d' = d\<lparr>keno_sessions := ss\<rparr>" if r: "record_settlement session stake payout jackpot d = Inr d'" for d'
  proof (cases session)
    case None
    then show ?thesis using r by (auto simp: record_settlement_def intro: exI [of _ "keno_sessions d"])
  next
    case (Some i)
    show ?thesis
    proof (cases "find (\<lambda>s. as_id s = i \<and> as_status s = ''active'') (keno_sessions d)")
      case None
      then show ?thesis using r Some by (auto simp: record_settlement_def Let_def intro: exI [of _ "keno_sessions d"])
    next
      case (Some s)
      then obtain net where n: "d' = session_after_settlement (s\<lparr>as_net_position := net\<rparr>)
          (update_sessions (\<lambda>s. as_id s = i \<and> as_status s = ''active'') (\<lambda>s. s\<lparr>as_net_position := net\<rparr>) d)"
        using r \<open>session = Some i\<close> by (auto simp: record_settlement_def Let_def bind_result_Inr_iff)
      have "\<exists>ss. d' = (update_sessions (\<lambda>s. as_id s = i \<and> as_status s = ''active'') (\<lambda>s. s\<lparr>as_net_position := net\<rparr>) d)
          \<lparr>keno_sessions := ss\<rparr>"
        unfolding n by (rule session_after_settlement_frame)
      then show ?thesis by (simp add: update_sessions_def)
    qed
  qed
  note ok = this
  have same: "\<exists>ss. d = d\<lparr>keno_sessions := ss\<rparr>" by (rule exI [of _ "keno_sessions d"]) simp
  show ?thesis
  proof (cases "record_settlement session stake payout jackpot d")
    case (Inl x)
    then show ?thesis using same stop_internal_frame by (cases session) (simp_all add: record_settlement_safely_def)
  next
    case (Inr d1)
    then show ?thesis using ok by (simp add: record_settlement_safely_def)
  qed
qed

text \<open>One autoplay placement: a ticket or none, and a change of sessions.\<close>

lemma place_safely_frame:
  "(\<exists>ss. place_safely now r s d = d\<lparr>keno_sessions := ss\<rparr>)
   \<or> (\<exists>t d1 ss. place_ticket now (as_user s) (as_picks s) (as_stake s) (autoplay_client_key (as_id s) r) (Some (as_id s)) d = Inr (t, d1)
        \<and> place_safely now r s d = d1\<lparr>keno_sessions := ss\<rparr>)"
proof (cases "place_ticket now (as_user s) (as_picks s) (as_stake s) (autoplay_client_key (as_id s) r) (Some (as_id s)) d")
  case (Inl x)
  have "\<exists>status reason. place_safely now r s d = stop_internal (as_id s) status reason d"
    by (cases x) (simp_all add: place_safely_def place_for_session_def Inl; blast)+
  then obtain status reason where f: "place_safely now r s d = stop_internal (as_id s) status reason d" by blast
  show ?thesis unfolding f by (rule disjI1) (rule stop_internal_frame)
next
  case (Inr v)
  obtain t d1 where v: "v = (t, d1)" by fastforce
  let ?d2 = "update_sessions (\<lambda>x. as_id x = as_id s) (\<lambda>s. s\<lparr>as_rounds_placed := as_rounds_placed s + 1, as_last_round := Some r\<rparr>) d1"
  have "place_safely now r s d = ?d2 \<or> place_safely now r s d = stop_internal (as_id s) ''exhausted'' ''rounds_exhausted'' ?d2"
    using Inr v by (auto simp: place_safely_def place_for_session_def Let_def split: option.splits)
  moreover have "\<exists>ss. ?d2 = d1\<lparr>keno_sessions := ss\<rparr>" by (auto simp: update_sessions_def)
  moreover have "\<exists>ss. stop_internal (as_id s) ''exhausted'' ''rounds_exhausted'' ?d2 = d1\<lparr>keno_sessions := ss\<rparr>"
    by (auto simp: update_sessions_def stop_internal_def)
  ultimately show ?thesis using Inr v by metis
qed

subsection \<open>A ticket\<close>

lemma list_all2_kept_sums:
  assumes "list_all2 ticket_kept ts us"
  shows "staked_by us u = staked_by ts u" "staked us = staked ts"
proof -
  have "map (\<lambda>t. if tk_user t = u then tk_stake t else 0) us = map (\<lambda>t. if tk_user t = u then tk_stake t else 0) ts"
    "map tk_stake us = map tk_stake ts"
    using assms by (induction rule: list_all2_induct) (auto simp: ticket_kept_def)
  then show "staked_by us u = staked_by ts u" "staked us = staked ts" by (simp_all add: staked_by_def staked_def)
qed

lemma place_ticket_progress:
  assumes inv: "keno_inv d" and p: "place_ticket now u picks stake key session d = Inr (t, d')"
  shows "keno_progress d d'"
proof -
  obtain vp d1 where vp: "validate_picks picks = Inr vp" "place_ticket_txn now u vp stake key session d = Inr (t, d1)" "db_commit d d1 = Inr d'"
    using p by (auto simp: place_ticket_def bind_result_Inr_iff split: sum.splits)
  have d': "d' = d1" using vp(3) by (rule db_commit_Inr)
  have bk: "keno_books d" "keno_limits_sane d" "selections_ok d" using inv by (simp_all add: keno_inv_def)
  show ?thesis
  proof (cases "replayed_ticket d (keno_stake_key u key) vp key")
    case (Some x)
    then have "d1 = d" using vp(2) by (simp add: place_ticket_txn_def)
    then show ?thesis using inv by (simp add: d' keno_progress_def audited_def)
  next
    case None
    have fin: "finite vp" using vp(1) by (simp add: validate_picks_Inr)
    from place_ticket_txn_effect [OF bk fin vp(2) None] obtain row :: keno_round and c x f rc jc ss where e: "load_active_config now d = Inr c"
      "staked_row x (int (length (keno_tickets d)) + 1) (kr_id row) u stake key session" "paytable_by_id d (tk_paytable x) \<noteq> None"
      "d1 = update_keno_round (kr_id row) f (d\<lparr>led := led d1, keno_tickets := keno_tickets d @ [x], keno_selections := ss\<rparr>)"
      "\<forall>r. kr_id (f r) = kr_id r \<and> kr_status (f r) = kr_status r
     \<and> kr_server_seed (f r) = kr_server_seed r \<and> kr_server_seed_hash (f r) = kr_server_seed_hash r
     \<and> kr_public_seed (f r) = kr_public_seed r \<and> kr_ticket_ids_hash (f r) = kr_ticket_ids_hash r
     \<and> kr_drawn_numbers (f r) = kr_drawn_numbers r \<and> kr_config (f r) = kr_config r \<and> kr_tier (f r) = kr_tier r
     \<and> kr_betting_closed_at (f r) = kr_betting_closed_at r \<and> kr_seq (f r) = kr_seq r"
      "selections_ok d1" "keno_books d1" "stake_split stake (kc_jackpot_diversion_bps c) = Inr (rc, jc)"
      "ss = keno_selections d @ map (\<lambda>n. (tk_id x, n)) (sorted_list_of_set vp)"
      "obal (led d1) = (obal (led d))(cash_owner u := obal (led d) (cash_owner u) - stake,
         reserve_owner := obal (led d) reserve_owner + rc, jackpot_owner := obal (led d) jackpot_owner + jc)"
      by (elim exE conjE) (rule that; assumption)
    have f: "keno_tickets d1 = keno_tickets d @ [x]" "keno_selections d1 = ss" "keno_configs d1 = keno_configs d"
        "keno_tiers d1 = keno_tiers d" "keno_paytables d1 = keno_paytables d"
        "keno_rounds d1 = keno_rounds (update_keno_round (kr_id row) f d)"
      by (subst e(4), simp add: update_keno_round_def)+
    have x: "tk_user x = u" "tk_stake x = stake" "from_reserve x = 0" "tk_jackpot_payout x = None"
      "tk_id x = int (length (keno_tickets d)) + 1"
      using e(2) by (simp_all add: staked_row_def from_reserve_def)
    have "ticket_ok x" using keno_booksE(2) [OF e(7)] f(1) by (simp add: tickets_ok_def)
    then have st: "column_money stake" "0 \<le> stake" using x(2) by (auto simp: ticket_ok_def)
    have "0 \<le> kc_jackpot_diversion_bps c" "kc_jackpot_diversion_bps c \<le> 10000"
      using bk(2) load_active_config_Inr(1) [OF e(1)] by (auto simp: keno_limits_sane_def)
    from stake_split_ok [OF st this] have split: "rc + jc = stake" using e(8) by auto
    have "keno_inv d1"
      using inv e(3,6,7) by (auto simp: keno_inv_def tickets_priced_def keno_limits_sane_def paytables_sane_def caps_sane_def f paytable_by_id_def)
    moreover have "rounds_kept d d1" by (rule rounds_kept_update [OF _ _ f(6)]) (use e(5) in \<open>simp_all add: row_kept_def\<close>)
    moreover have "tickets_kept d d1"
    proof -
      have "tk_id ` set (keno_tickets d) = (\<lambda>i. int i + 1) ` {0..<length (keno_tickets d)}"
        using keno_booksE(2) [OF bk(1)] unfolding tickets_ok_def by (metis set_map set_upt)
      then have "tk_id x \<notin> tk_id ` set (keno_tickets d)" using x(5) by auto
      then have "picks_of d1 (tk_id t) = picks_of d (tk_id t)" if "t \<in> set (keno_tickets d)" for t
        using that by (force simp: picks_of_def f(2) e(9) filter_map comp_def)
      then show ?thesis by (auto simp: tickets_kept_def f(1) list.rel_refl)
    qed
    moreover have "audited d d1"
      using split x(1-4) by (auto simp: audited_def player_account_def game_account_def f(1) e(10) paid_to_def paid_base_def
          paid_jackpot_def staked_by_def staked_def)
    ultimately show ?thesis by (simp add: d' keno_progress_def)
  qed
qed

subsection \<open>Results and refunds\<close>

lemma rows_moved:
  assumes inv: "keno_inv d" and bk: "keno_books d'" "same_tally d d'"
    and rows: "list_all2 ticket_kept (keno_tickets d) (keno_tickets d')" and r: "rounds_kept d d'"
    and f: "keno_selections d' = keno_selections d" "keno_configs d' = keno_configs d" "keno_tiers d' = keno_tiers d"
      "keno_paytables d' = keno_paytables d"
  shows "keno_progress d d'"
proof -
  have ids: "map tk_id (keno_tickets d') = map tk_id (keno_tickets d)" "map tk_paytable (keno_tickets d') = map tk_paytable (keno_tickets d)"
    using rows by (induction rule: list_all2_induct) (auto simp: ticket_kept_def)
  then have "tk_id ` set (keno_tickets d') = tk_id ` set (keno_tickets d)"
    "tk_paytable ` set (keno_tickets d') = tk_paytable ` set (keno_tickets d)" by (metis set_map)+
  note sets = this
  have priced: "tickets_priced x \<longleftrightarrow> (\<forall>p\<in>tk_paytable ` set (keno_tickets x). paytable_by_id x p \<noteq> None)" for x
    by (auto simp: tickets_priced_def)
  have "selections_ok d'" using inv f sets(1) by (simp add: keno_inv_def selections_ok_def)
  moreover have "tickets_priced d'"
    using inv unfolding keno_inv_def priced sets(2) paytable_by_id_def f by blast
  ultimately have "keno_inv d'"
    using inv bk(1) f by (auto simp: keno_inv_def keno_limits_sane_def paytables_sane_def caps_sane_def)
  moreover have "tickets_kept d d'"
    unfolding tickets_kept_def using rows by (intro conjI exI [of _ "keno_tickets d'"] exI [of _ "[]"]) (simp_all add: picks_of_def f)
  moreover have "audited d d'"
    using bk(2) list_all2_kept_sums [OF rows] by (simp add: audited_def same_tally_def player_account_def game_account_def)
  ultimately show ?thesis using r by (simp add: keno_progress_def)
qed

lemma settled_by_kept: "settled_by now drawn mw d (pending_tickets d r) x y \<Longrightarrow> ticket_kept x y"
proof (cases "\<exists>p. (x, p) \<in> set (pending_tickets d r)")
  case True
  assume s: "settled_by now drawn mw d (pending_tickets d r) x y"
  from True obtain p where p: "(x, p) \<in> set (pending_tickets d r)" by blast
  then have "tk_status x = ''pending''" by (simp add: pending_tickets_mem)
  moreover have "settled_from now drawn mw d x p y" using s p by (simp add: settled_by_def)
  then have "\<exists>m v tx j. y = settled_row now m v tx j x" unfolding settled_from_def Let_def by blast
  ultimately show ?thesis by (auto simp: ticket_kept_def settled_row_def)
qed (force simp: settled_by_def)

lemma settle_progress:
  assumes inv: "keno_inv d" and s: "settle_tickets_txn now r drawn d = Inr (ts, hit, d')"
  shows "keno_progress d d'"
proof (cases drawn)
  case None
  then have "d' = d" using s by (auto simp: settle_tickets_txn_def Let_def split: option.splits if_splits)
  then show ?thesis using quiet_progress [OF inv] by simp
next
  case (Some ns)
  obtain row tier where rt: "keno_round_by_id d r = Some row" "tier_by_id d (kr_tier row) = Some tier"
    using s by (auto simp: settle_tickets_txn_def split: option.splits)
  then have cap: "win_cap d r = Some (kt_max_win_per_ticket tier)" by (simp add: win_cap_def)
  have "tier \<in> set (keno_tiers d)" using rt(2) by (auto simp: tier_by_id_def find_Some_iff)
  then have mw: "whole_cents (kt_max_win_per_ticket tier)" "0 \<le> kt_max_win_per_ticket tier"
    using inv by (simp_all add: keno_inv_def caps_sane_def)
  have bk: "keno_books d" "paytables_sane d" using inv by (simp_all add: keno_inv_def)
  note e = settle_tickets_txn_effect [OF bk cap mw s [unfolded Some]]
  show ?thesis
  proof (rule rows_moved [OF inv e(1,2)])
    show "list_all2 ticket_kept (keno_tickets d) (keno_tickets d')" by (rule list_all2_mono [OF e(4)]) (rule settled_by_kept)
    show "rounds_kept d d'" by (rule rounds_kept_same) (subst e(3), simp)
  qed (subst e(3), simp)+
qed

lemma refunded_by_kept: "refunded_by now (round_pending d r) x = y \<Longrightarrow> ticket_kept x y"
  by (auto simp: refunded_by_def round_pending_def ticket_kept_def refunded_row_def)

lemma fail_progress:
  assumes inv: "keno_inv d" and s: "fail_and_refund_txn w now r reason d = Inr d'"
  shows "keno_progress d d'"
proof -
  have bk: "keno_books d" using inv by (simp add: keno_inv_def)
  have "keno_round_by_id d r \<noteq> None"
  proof
    assume n: "keno_round_by_id d r = None"
    obtain d1 d2 where f: "fold_result (refund_one_ticket now r) (round_pending d r) d = Inr d1"
        "record_event w r None ''failed'' (Some reason) (update_keno_round r (fail_row now reason) d1) = Inr d2"
      using s unfolding fail_and_refund_txn_def Let_def round_pending_def [symmetric] fail_row_def [symmetric, abs_def]
      by (auto simp: bind_result_Inr_iff)
    have items: "distinct (map tk_id (round_pending d r))"
      "\<forall>t\<in>set (round_pending d r). t \<in> set (keno_tickets d) \<and> tk_status t = ''pending'' \<and> tk_round t = r"
      using keno_booksE(4) [OF bk] by (auto simp: round_pending_def distinct_map inj_on_def)
    have "keno_round_by_id d1 r = keno_round_by_id d r" using refund_fold [OF bk items, of now] f(1) by auto
    then show False
      using f(2) n keno_round_by_id_update [of "fail_row now reason" r d1 r] by (simp add: record_event_def fail_row_def)
  qed
  then obtain row where row: "keno_round_by_id d r = Some row" by blast
  from fail_and_refund_txn_effect [OF bk row, of w now reason] s obtain l es where
      e: "keno_books d'" "same_tally d d'" "keno_tickets d' = map (refunded_by now (round_pending d r)) (keno_tickets d)"
        "d' = (update_keno_round r (fail_row now reason) (d\<lparr>led := l, keno_tickets := keno_tickets d'\<rparr>))\<lparr>keno_events := es\<rparr>"
    by auto
  show ?thesis
  proof (rule rows_moved [OF inv e(1,2)])
    show "list_all2 ticket_kept (keno_tickets d) (keno_tickets d')"
      unfolding e(3) by (simp add: list_all2_map2 list.rel_refl_strong refunded_by_kept)
    have "keno_rounds d' = keno_rounds (update_keno_round r (fail_row now reason) d)" by (subst e(4)) (simp add: update_keno_round_def)
    then show "rounds_kept d d'"
      by (rule rounds_kept_update [of "fail_row now reason" d r, rotated 2]) (simp_all add: fail_row_def row_kept_def)
  qed (subst e(4), simp)+
qed

subsection \<open>Every step\<close>

lemma create_progress:
  assumes inv: "keno_inv d" and s: "create_round_txn w now seed d = Inr (ctx, d')"
  shows "keno_progress d d'"
proof -
  obtain row es where d': "d' = d\<lparr>keno_rounds := keno_rounds d @ [row], keno_events := es\<rparr>"
    using s by (auto simp: create_round_txn_def Let_def bind_result_Inr_iff dest!: record_event_frame)
  have "find P (xs @ ys) = (case find P xs of None \<Rightarrow> find P ys | Some x \<Rightarrow> Some x)" for P and xs ys :: "keno_round list"
    by (induction xs) auto
  then have "rounds_kept d d'" by (auto simp: rounds_kept_def keno_round_by_id_def d')
  then show ?thesis using quiet_progress [OF inv quiet_tables(1)] d' by blast
qed

lemma reserve_progress:
  assumes inv: "keno_inv d" and s: "reserve_balance_of d = Inr (b, d1)" and d': "d' = d1\<lparr>keno_tier_state := st, keno_tier_changes := cs\<rparr>"
  shows "keno_progress d d'"
proof -
  obtain a where a: "db_account (fst reserve_owner) (snd reserve_owner) d = (a, d1)"
    using s by (auto simp: reserve_balance_of_def bind_result_Inr_iff split: prod.splits)
  note q = db_account_progress [OF inv a]
  have "quiet d d'" using quiet_trans [OF q(1) quiet_tables(3) [OF d']] .
  moreover have "rounds_kept d d'" using rounds_kept_trans [OF q(2) rounds_kept_same] by (simp add: d')
  ultimately show ?thesis by (rule quiet_progress [OF inv])
qed

lemma tier_progress:
  assumes inv: "keno_inv d" shows "keno_progress d (d\<lparr>keno_tier_state := st, keno_tier_changes := cs\<rparr>)"
  by (rule quiet_progress [OF inv quiet_tables(3) [OF refl]]) (simp add: rounds_kept_same)

lemma breaker_progress:
  assumes inv: "keno_inv d" and s: "check_circuit_breaker now d = Inr (c, d')"
  shows "keno_progress d d'"
proof -
  have "d' = d \<or> (\<exists>b d1 st cs. reserve_balance_of d = Inr (b, d1) \<and> d' = d1\<lparr>keno_tier_state := st, keno_tier_changes := cs\<rparr>)"
    using s unfolding check_circuit_breaker_def Let_def
    by (auto simp: apply_tier_change_def bind_result_Inr_iff split: option.splits if_splits; blast)
  then show ?thesis using quiet_progress [OF inv] reserve_progress [OF inv] by auto
qed

lemma transition_progress:
  assumes inv: "keno_inv d" and s: "evaluate_tier_transition now b d = Inr (c, d')"
  shows "keno_progress d d'"
proof -
  have "\<exists>st cs. d' = d\<lparr>keno_tier_state := st, keno_tier_changes := cs\<rparr>"
  proof -
    have "d' = d \<or> (\<exists>st. d' = d\<lparr>keno_tier_state := st\<rparr>) \<or> (\<exists>f t why. d' = apply_tier_change f t why (Some b) d)"
      using s unfolding evaluate_tier_transition_def Let_def by (auto split: option.splits if_splits bool.splits)
    moreover have "\<exists>st cs. d = d\<lparr>keno_tier_state := st, keno_tier_changes := cs\<rparr>"
      by (intro exI [of _ "keno_tier_state d"] exI [of _ "keno_tier_changes d"]) simp
    moreover have "\<exists>st' cs. d\<lparr>keno_tier_state := st\<rparr> = d\<lparr>keno_tier_state := st', keno_tier_changes := cs\<rparr>" for st
      by (intro exI [of _ st] exI [of _ "keno_tier_changes d"]) simp
    ultimately show ?thesis unfolding apply_tier_change_def by blast
  qed
  then show ?thesis using tier_progress [OF inv] by auto
qed

lemma draw_progress:
  assumes inv: "keno_inv d" and s: "draw_numbers w now ctx d = Inr ((drawn, fresh), d')"
  shows "keno_progress d d'"
proof -
  obtain row public where row: "keno_round_by_id d (cx_id ctx) = Some row" "kr_public_seed row = Some public"
    using s by (auto simp: draw_numbers_def split: option.splits)
  show ?thesis
  proof (cases "kr_drawn_numbers row")
    case (Some ns)
    then have "d' = d" using s row by (simp add: draw_numbers_def)
    then show ?thesis using quiet_progress [OF inv] by simp
  next
    case None
    obtain seed where "cx_server_seed ctx = Some seed" using s row None by (auto simp: draw_numbers_def split: option.splits)
    then obtain ns where "record_event w (cx_id ctx) (Some ''betting_closed'') ''drawing'' None
        (update_keno_round (cx_id ctx) (\<lambda>r. r\<lparr>kr_status := ''drawing'', kr_draw_started_at := Some now, kr_drawn_numbers := Some ns\<rparr>) d) = Inr d'"
      using s row None by (auto simp: draw_numbers_def store_draw_def bind_result_Inr_iff)
    then show ?thesis by (rule round_event_progress [OF inv]) (use row None in \<open>simp_all add: row_kept_def\<close>)
  qed
qed

lemma keno_step_progress:
  assumes step: "keno_step d d'" and inv: "keno_inv d" shows "keno_progress d d'"
  using step
proof cases
  case ks_place
  then show ?thesis by (rule place_ticket_progress [OF inv])
next
  case (ks_autoplay now r s)
  have session: "keno_progress d (d1\<lparr>keno_sessions := ss\<rparr>)" if "keno_progress d d1" for d1 ss
    using keno_progress_trans [OF that sessions_progress] that by (simp add: keno_progress_def)
  have "keno_progress d d" using quiet_progress [OF inv] by simp
  from place_safely_frame [of now r s d] show ?thesis
    unfolding ks_autoplay using session [OF \<open>keno_progress d d\<close>] session place_ticket_progress [OF inv] by fastforce
next
  case ks_start_session
  then obtain ss where "d' = d\<lparr>keno_sessions := ss\<rparr>"
    by (auto simp: start_session_def insert_session_def Let_def bind_result_Inr_iff split: sum.splits option.splits if_splits)
  then show ?thesis using sessions_progress [OF inv] by simp
next
  case ks_stop_session
  then show ?thesis using sessions_progress [OF inv] by (auto simp: stop_session_def update_sessions_def Let_def)
next
  case ks_session_result
  then show ?thesis using record_settlement_frame sessions_progress [OF inv] by metis
next
  case ks_create
  then show ?thesis by (rule create_progress [OF inv])
next
  case ks_solvency
  then obtain a where "db_account (fst reserve_owner) (snd reserve_owner) d = (a, d')"
    by (auto simp: update_solvency_def split: prod.splits)
  then show ?thesis using quiet_progress [OF inv] db_account_progress [OF inv] by blast
next
  case ks_breaker
  then show ?thesis by (rule breaker_progress [OF inv])
next
  case ks_tier
  then show ?thesis by (rule transition_progress [OF inv])
next
  case (ks_open w now r)
  then show ?thesis
    unfolding open_betting_txn_def by (auto split: if_splits elim!: round_event_progress [OF inv] simp: row_kept_def)
next
  case (ks_close w now r n)
  then obtain h p where "record_event w r (Some ''betting_open'') ''betting_closed'' None
      (update_keno_round r (\<lambda>r. r\<lparr>kr_status := ''betting_closed'', kr_betting_closed_at := Some now,
                 kr_ticket_ids_hash := Some h, kr_public_seed := Some p\<rparr>) d) = Inr d'"
    by (auto simp: close_betting_txn_def Let_def bind_result_Inr_iff split: if_splits)
  then show ?thesis by (rule round_event_progress [OF inv]) (simp_all add: row_kept_def)
next
  case (ks_draw w now ctx x)
  then show ?thesis using draw_progress [OF inv] by (cases x) simp
next
  case (ks_reveal r k)
  have "quiet d d'" by (simp add: ks_reveal quiet_def)
  moreover have "rounds_kept d d'"
    unfolding ks_reveal by (rule rounds_kept_update [of "\<lambda>x. x\<lparr>kr_reveal_index := k\<rparr>" d r]) (simp_all add: row_kept_def)
  ultimately show ?thesis by (rule quiet_progress [OF inv])
next
  case ks_drawn
  then show ?thesis unfolding finish_draw_txn_def by (rule round_event_progress [OF inv]) (simp_all add: row_kept_def)
next
  case ks_settling
  then show ?thesis unfolding begin_settling_txn_def by (rule round_event_progress [OF inv]) (simp_all add: row_kept_def)
next
  case ks_settle
  then show ?thesis using settle_progress [OF inv] by blast
next
  case (ks_complete w now r paid hit)
  then obtain stored where "record_event w r (Some ''settling'') ''completed'' None
      (update_keno_round r (\<lambda>r. r\<lparr>kr_status := ''completed'', kr_total_payout := stored, kr_jackpot_hit := hit,
            kr_settled_at := Some now, kr_completed_at := Some now\<rparr>) d) = Inr d'"
    by (auto simp: complete_round_txn_def bind_result_Inr_iff)
  then show ?thesis by (rule round_event_progress [OF inv]) (simp_all add: row_kept_def)
next
  case ks_fail
  then show ?thesis by (rule fail_progress [OF inv])
qed

subsection \<open>Runs\<close>

text \<open>
  The rest of the platform: it moves money in other accounts under keys of its own and adds versions of the
  configuration within the bounds the administration checks; the tables of the game are the game's.
\<close>

definition keno_elsewhere :: "db \<Rightarrow> db \<Rightarrow> bool" where
  "keno_elsewhere d d' \<longleftrightarrow> keno_tickets d' = keno_tickets d \<and> keno_selections d' = keno_selections d
     \<and> keno_rounds d' = keno_rounds d \<and> ledger_ok (led d')
     \<and> (\<forall>k. keno_key k \<longrightarrow> (k \<in> tkeys (led d') \<longleftrightarrow> k \<in> tkeys (led d)))
     \<and> jackpot_linked d' \<and> keno_limits_sane d' \<and> paytables_sane d' \<and> caps_sane d'
     \<and> (\<forall>i. paytable_by_id d i \<noteq> None \<longrightarrow> paytable_by_id d' i \<noteq> None)"

definition platform_step :: "db \<Rightarrow> db \<Rightarrow> bool" where
  "platform_step d d' \<longleftrightarrow> keno_step d d' \<or> keno_elsewhere d d'"

definition history_kept :: "db \<Rightarrow> db \<Rightarrow> bool" where
  "history_kept d d' \<longleftrightarrow> rounds_kept d d' \<and> tickets_kept d d'"

lemma keno_elsewhere_ok:
  assumes "keno_elsewhere d d'" "keno_inv d" shows "keno_inv d'" "history_kept d d'"
proof -
  have "tickets_ok (keno_tickets d') (tkeys (led d'))"
    using assms tickets_ok_cong [of "keno_tickets d" "tkeys (led d)" "tkeys (led d')"]
    by (simp add: keno_elsewhere_def keno_inv_def keno_books_def)
  then show "keno_inv d'"
    using assms by (simp add: keno_elsewhere_def keno_inv_def keno_books_def selections_ok_def tickets_priced_def)
  show "history_kept d d'"
    using assms(1) by (simp add: keno_elsewhere_def history_kept_def rounds_kept_same tickets_kept_same)
qed

interpretation game: stepping keno_step keno_inv "\<lambda>d d'. history_kept d d' \<and> audited d d'"
proof
  show "history_kept s s \<and> audited s s" for s by (simp add: history_kept_def audited_def)
  show "history_kept s u \<and> audited s u" if "history_kept s t \<and> audited s t" "history_kept t u \<and> audited t u" for s t u
    using that rounds_kept_trans [of s t u] tickets_kept_trans [of s t u] by (simp add: history_kept_def audited_def)
qed (use keno_step_progress in \<open>auto simp: keno_progress_def history_kept_def\<close>)

interpretation platform: stepping platform_step keno_inv history_kept
proof
  show "history_kept s u" if "history_kept s t" "history_kept t u" for s t u
    using that rounds_kept_trans [of s t u] tickets_kept_trans [of s t u] by (simp add: history_kept_def)
qed (use keno_step_progress keno_elsewhere_ok in \<open>auto simp: platform_step_def keno_progress_def history_kept_def\<close>)

end
