(* ===== verification/Keno_Refinement.thy ===== *)
theory Keno_Refinement
  imports Keno_System
begin

text \<open>
  Whatever an operation of the Keno engine does to the database is a run of the transactions of
  \<open>Keno_System\<close>: the round it creates, opens, closes, draws and settles, its recovery at start-up, and a whole
  cycle of the main loop. So what every transaction keeps, the operations keep, in whatever way they fail.
\<close>

abbreviation keno_run :: "db \<Rightarrow> db \<Rightarrow> bool" where
  "keno_run \<equiv> keno_step\<^sup>*\<^sup>*"

lemmas keno_run_step = r_into_rtranclp [of keno_step]
lemmas keno_run_then = rtranclp_trans [of keno_step]

lemma keno_run_if: "keno_step d d' \<or> d' = d \<Longrightarrow> keno_run d d'"
  by auto

subsection \<open>Creating a round\<close>

lemma automate_tiers_run: "automate_tiers now b d = (r, d') \<Longrightarrow> keno_run d d'"
proof (cases "check_circuit_breaker now d")
  case (Inr v)
  assume a: "automate_tiers now b d = (r, d')"
  obtain c d1 where v: "v = (c, d1)" by fastforce
  have 1: "keno_run d d1" by (rule keno_run_step, rule ks_breaker) (use Inr v in simp)
  show ?thesis
  proof (cases "tcr_changed c")
    case True
    then show ?thesis using a Inr v 1 by (simp add: automate_tiers_def)
  next
    case False
    show ?thesis
    proof (cases "evaluate_tier_transition now b d1")
      case (Inr w)
      then have "keno_step d1 d'" using a \<open>check_circuit_breaker now d = Inr v\<close> v False
        by (intro ks_tier [of now b d1 "fst w"]) (auto simp: automate_tiers_def split: prod.splits)
      then show ?thesis using 1 by (rule rtranclp.rtrancl_into_rtrancl [rotated])
    qed (use a Inr v 1 False in \<open>simp add: automate_tiers_def\<close>)
  qed
qed (simp add: automate_tiers_def)

lemma create_round_run:
  assumes "create_round now seed e d = (r, e', d')" shows "keno_run d d'"
proof (cases "create_round_txn (kw_worker_id e) now seed d")
  case (Inr v)
  obtain ctx d1 where v: "v = (ctx, d1)" by fastforce
  obtain res d2 where s: "update_solvency d1 = (res, d2)" by fastforce
  have "keno_run d d1" "keno_run d1 d2" using Inr v s by (auto intro: keno_run_step ks_create ks_solvency)
  then have 2: "keno_run d d2" by (rule keno_run_then)
  show ?thesis
  proof (cases res)
    case (Inr b)
    obtain r3 d3 where a: "automate_tiers now b d2 = (r3, d3)" by fastforce
    have "d' = d3" using assms \<open>create_round_txn (kw_worker_id e) now seed d = Inr v\<close> v s Inr a
      by (auto simp: create_round_def split: sum.splits)
    then show ?thesis using keno_run_then [OF 2 automate_tiers_run [OF a]] by simp
  qed (use assms Inr v s 2 in \<open>simp add: create_round_def\<close>)
qed (use assms in \<open>simp add: create_round_def\<close>)

subsection \<open>Betting\<close>

lemma placements_run: "keno_run d (fold (place_safely now r) ss d)"
proof (induction ss arbitrary: d)
  case (Cons s ss)
  have "keno_step d (place_safely now r s d)" by (rule ks_autoplay) (rule refl)
  then show ?case using Cons by (simp add: converse_rtranclp_into_rtranclp)
qed simp

lemma open_betting_run:
  assumes "open_betting now ctx e d = (r, e', d')" shows "keno_run d d'"
proof (cases "open_betting_txn (kw_worker_id e) now (cx_id ctx) d")
  case (Inr d1)
  have "keno_step d d1" using Inr by (rule ks_open)
  then show ?thesis using assms Inr placements_run
    by (auto simp: open_betting_def place_for_active_sessions_def intro: converse_rtranclp_into_rtranclp)
qed (use assms in \<open>simp add: open_betting_def\<close>)

lemma close_betting_run: "close_betting now ctx e d = (r, e', d') \<Longrightarrow> keno_run d d'"
  unfolding close_betting_def by (rule keno_run_if) (auto split: sum.splits prod.splits intro: ks_close)

subsection \<open>The draw\<close>

lemma reveal_from_run: "reveal_from may r k ns e d = (e', d') \<Longrightarrow> keno_run d d'"
proof (induction may r k ns e d rule: reveal_from.induct)
  case (2 may r k n ns e d)
  have "keno_step d (update_keno_round r (\<lambda>x. x\<lparr>kr_reveal_index := k + 1\<rparr>) d)" by (rule ks_reveal) (rule refl)
  then show ?case using 2 by (auto split: if_splits intro: converse_rtranclp_into_rtranclp)
qed simp

lemma reveal_numbers_run: "reveal_numbers may r ns e d = (x, e', d') \<Longrightarrow> keno_run d d'"
  by (auto simp: reveal_numbers_def Let_def split: if_splits option.splits prod.splits dest: reveal_from_run)

lemma run_draw_run:
  assumes "run_draw now now' may ctx e d = (r, e', d')" shows "keno_run d d'"
proof (cases "draw_numbers (kw_worker_id e) now ctx d")
  case (Inr v)
  obtain ns fresh d1 where v: "v = ((ns, fresh), d1)" by (metis prod.collapse)
  have 1: "keno_run d d1" by (rule keno_run_step, rule ks_draw) (use Inr v in simp)
  obtain x e2 d2 where rev: "reveal_numbers may (cx_id ctx) ns (if fresh then kpublish (DrawStarted (cx_id ctx)) e else e) d1 = (x, e2, d2)"
    by (metis prod_cases3)
  have 2: "keno_run d d2" by (rule keno_run_then [OF 1 reveal_numbers_run [OF rev]])
  show ?thesis
  proof (cases x)
    case (Inl y)
    then show ?thesis using assms Inr v rev 2 by (simp add: run_draw_def Let_def)
  next
    case (Inr u)
    note run = assms [unfolded run_draw_def Let_def \<open>draw_numbers (kw_worker_id e) now ctx d = Inr v\<close> v sum.case prod.case rev Inr]
    show ?thesis
    proof (cases "finish_draw_txn (kw_worker_id e) now' (cx_id ctx) d2")
      case (Inr d3)
      then have "keno_step d2 d3" by (rule ks_drawn)
      then show ?thesis using run Inr 2 by (auto intro: rtranclp.rtrancl_into_rtrancl)
    qed (use run 2 in simp)
  qed
qed (use assms in \<open>simp add: run_draw_def\<close>)

subsection \<open>Settlement and failure\<close>

lemma announcements_run: "fold (announce_ticket r) ts (e, d) = (e', d') \<Longrightarrow> keno_run d d'"
proof (induction ts arbitrary: e d)
  case (Cons t ts)
  obtain e1 d1 where a: "announce_ticket r t (e, d) = (e1, d1)" by fastforce
  then have "keno_step d d1" by (auto simp: announce_ticket_def intro: ks_session_result)
  then show ?case using Cons a by (auto intro: converse_rtranclp_into_rtranclp)
qed simp

lemma settle_tickets_run:
  assumes row: "keno_round_by_id d r = Some row" and s: "settle_tickets now r (kr_drawn_numbers row) e d = (x, e', d')"
  shows "keno_run d d'"
proof (cases "settle_tickets_txn now r (kr_drawn_numbers row) d")
  case (Inr v)
  obtain ts hit d1 where v: "v = (ts, hit, d1)" by (metis prod_cases3)
  obtain e2 d2 where f: "fold (announce_ticket r) ts (e, d1) = (e2, d2)" by fastforce
  have "keno_step d d1" using row Inr v by (auto intro: ks_settle)
  moreover have "d' = d2" using s Inr v f by (simp add: settle_tickets_def)
  ultimately show ?thesis using announcements_run [OF f] by (simp add: converse_rtranclp_into_rtranclp)
qed (use s in \<open>simp add: settle_tickets_def\<close>)

lemma settle_body_run:
  assumes s: "settle_and_complete_body now r e d = (x, e', d')" shows "keno_run d d'"
proof (cases "keno_round_by_id d r")
  case (Some row)
  show ?thesis
  proof (cases "kr_status row \<in> KENO_TERMINAL_STATUSES")
    case False
    note run = s [unfolded settle_and_complete_body_def Some option.case if_not_P [OF False]]
    show ?thesis
    proof (cases "begin_settling_txn (kw_worker_id e) r d")
      case (Inr d1)
      then have 1: "keno_step d d1" by (rule ks_settling)
      obtain es where d1: "d1 = (update_keno_round r (\<lambda>r. r\<lparr>kr_status := ''settling''\<rparr>) d)\<lparr>keno_events := es\<rparr>"
        using Inr record_event_frame unfolding begin_settling_txn_def by blast
      then obtain row1 where row1: "keno_round_by_id d1 r = Some row1" "kr_drawn_numbers row1 = kr_drawn_numbers row"
        using Some keno_round_by_id_update [of "\<lambda>r. r\<lparr>kr_status := ''settling''\<rparr>" r d r] by simp
      obtain y e2 d2 where t: "settle_tickets now r (kr_drawn_numbers row) e d1 = (y, e2, d2)" by (metis prod_cases3)
      have "keno_run d1 d2" using settle_tickets_run [OF row1(1)] t row1(2) by simp
      then have 2: "keno_run d d2" using 1 by (rule converse_rtranclp_into_rtranclp [rotated])
      note run = run [unfolded Inr sum.case t prod.case]
      show ?thesis
      proof (cases y)
        case (Inr z)
        obtain p h where z: "z = (p, h)" by fastforce
        note run = run [unfolded Inr sum.case z prod.case]
        show ?thesis
        proof (cases "complete_round_txn (kw_worker_id e) now r p h d2")
          case (Inr d3)
          then have "keno_step d2 d3" by (rule ks_complete)
          then show ?thesis using run Inr 2 by (auto intro: rtranclp.rtrancl_into_rtrancl)
        qed (use run 2 in simp)
      qed (use run 2 in simp)
    qed (use run in simp)
  qed (use s Some in \<open>simp add: settle_and_complete_body_def\<close>)
qed (use s in \<open>simp add: settle_and_complete_body_def\<close>)

lemma settle_and_complete_run: "settle_and_complete now r e d = (e', d') \<Longrightarrow> keno_run d d'"
  by (auto simp: settle_and_complete_def split: prod.splits intro: settle_body_run)

lemma fail_and_refund_run: "fail_and_refund_round now r reason e d = (x, e', d') \<Longrightarrow> keno_run d d'"
  unfolding fail_and_refund_round_def by (rule keno_run_if) (auto split: sum.splits intro: ks_fail)

subsection \<open>Whole rounds\<close>

lemma drive_round_run:
  assumes "drive_round v bet ctx e d = (r, e', d')" shows "keno_run d d'"
proof (cases "bet \<and> \<not> nv_reached_close v")
  case False
  note s = assms [unfolded drive_round_def if_not_P [OF False]]
  obtain x e1 d1 where c: "(if bet then close_betting (nv_closed_at v) ctx e d else (Inr (), e, d)) = (x, e1, d1)"
    by (metis prod_cases3)
  have 1: "keno_run d d1" using c by (auto split: if_splits dest: close_betting_run)
  note s = s [unfolded c prod.case]
  show ?thesis
  proof (cases x)
    case (Inr u)
    note s = s [unfolded Inr sum.case]
    obtain y e2 d2 where dr: "run_draw (nv_drawn_at v) (nv_done_at v) (nv_may_reveal v) ctx e1 d1 = (y, e2, d2)" by (metis prod_cases3)
    have "d' = d2" using s by (cases y) (simp_all add: dr)
    then show ?thesis using keno_run_then [OF 1 run_draw_run [OF dr]] by simp
  qed (use s 1 in simp)
qed (use assms in \<open>simp add: drive_round_def\<close>)

lemma open_and_drive_run:
  assumes "(case open_betting now ctx e d of (Inl x, e1, d1) \<Rightarrow> (Inl x, e1, d1) | (Inr _, e1, d1) \<Rightarrow> drive_round v True ctx e1 d1)
    = (r, e', d')"
  shows "keno_run d d'"
proof -
  obtain x e1 d1 where o: "open_betting now ctx e d = (x, e1, d1)" by (metis prod_cases3)
  show ?thesis
    using assms open_betting_run [OF o] drive_round_run [of v True ctx e1 d1 r e' d']
    by (cases x) (auto simp: o intro: keno_run_then)
qed

lemma resume_round_run:
  assumes "resume_round now v row e d = (r, e', d')" shows "keno_run d d'"
proof (cases "keno_round_by_id d (kr_id row)")
  case (Some full)
  show ?thesis
  proof (cases "config_by_id d (kr_config full)")
    case c: (Some config)
    show ?thesis
    proof (cases "tier_by_id d (kr_tier full)")
      case t: (Some tier)
      show ?thesis
        using assms open_and_drive_run drive_round_run unfolding resume_round_def Let_def Some c t option.case prod.case
        by (auto split: if_splits)
    qed (use assms Some c in \<open>simp add: resume_round_def Let_def\<close>)
  qed (use assms Some in \<open>simp add: resume_round_def Let_def\<close>)
qed (use assms in \<open>simp add: resume_round_def Let_def\<close>)

lemma recover_row_run: "recover_row now env row e d = (r, e', d') \<Longrightarrow> keno_run d d'"
  by (auto simp: recover_row_def split: if_splits dest: resume_round_run fail_and_refund_run)

lemma recover_rows_run: "recover_rows now env rows e d = (r, e', d') \<Longrightarrow> keno_run d d'"
proof (induction rows arbitrary: r e d e' d')
  case (Cons row rows)
  obtain x e1 d1 where one: "recover_row now env row e d = (x, e1, d1)" by (metis prod_cases3)
  obtain y e2 d2 where more: "recover_rows now env rows e1 d1 = (y, e2, d2)" by (metis prod_cases3)
  have "d' = d1 \<or> d' = d2" using Cons.prems one more by (auto split: sum.splits)
  then show ?case using recover_row_run [OF one] Cons.IH [OF more] keno_run_then by (auto simp: one more)
qed simp

lemma recover_on_startup_run: "recover_on_startup now env e d = (r, e', d') \<Longrightarrow> keno_run d d'"
  unfolding recover_on_startup_def by (rule recover_rows_run)

lemma run_one_round_run:
  assumes "run_one_round now seed v e d = (r, e', d')" shows "keno_run d d'"
proof -
  obtain x e1 d1 where c: "create_round now seed (recover_stuck_settling_rounds e d) d = (x, e1, d1)" by (metis prod_cases3)
  note 1 = create_round_run [OF c]
  show ?thesis
  proof (cases x)
    case (Inr ctx)
    show ?thesis
      by (rule keno_run_then [OF 1]) (rule open_and_drive_run, use assms in \<open>simp add: run_one_round_def c Inr\<close>)
  qed (use assms 1 in \<open>simp add: run_one_round_def c\<close>)
qed

end
