(* ===== verification/Keno_Demo.thy ===== *)
theory Keno_Demo
  imports Keno_Refinement
begin

text \<open>
  One concrete Keno table that the witnesses run: a reserve of 1000, a jackpot pool of 50, a player with 100, a
  round taking bets at a stake of 10 on one number. The hash of the seed stays a variable.
\<close>

definition grant_args :: "string \<Rightarrow> money \<Rightarrow> int \<Rightarrow> int \<Rightarrow> post_args" where
  "grant_args key x src dst = \<lparr>pa_kind = ''deposit'',
     pa_entries = [\<lparr>ent_account = src, ent_amount = - x\<rparr>, \<lparr>ent_account = dst, ent_amount = x\<rparr>],
     pa_key = key, pa_round = None, pa_payment = None, pa_memo = None, pa_by = ''system''\<rparr>"

definition grant :: "string \<Rightarrow> owner \<Rightarrow> money \<Rightarrow> db \<Rightarrow> db" where
  "grant key dst x d = (let (a, d1) = db_account None ''cash_clearing'' d; (b, d2) = db_account (fst dst) (snd dst) d1
     in case db_post 0 (grant_args key x (acc_id a) (acc_id b)) d2 of Inl _ \<Rightarrow> d2 | Inr (_, d3) \<Rightarrow> d3)"

lemma grant_ok:
  assumes ok: "ledger_ok (led d)" and x: "whole_cents x" "0 \<le> x" and fresh: "key \<notin> tkeys (led d)" and dst: "dst \<noteq> (None, ''cash_clearing'')"
  shows "ledger_ok (led (grant key dst x d))" "tkeys (led (grant key dst x d)) = insert key (tkeys (led d))"
    "grant key dst x d = d\<lparr>led := led (grant key dst x d)\<rparr>"
proof -
  obtain a d1 where a: "db_account (fst (None, ''cash_clearing'' :: string)) (snd (None :: int option, ''cash_clearing'')) d = (a, d1)" by fastforce
  obtain b d2 where b: "db_account (fst dst) (snd dst) d1 = (b, d2)" by fastforce
  define p where "p = grant_args key x (acc_id a) (acc_id b)"
  have pe: "pa_entries p = [\<lparr>ent_account = acc_id a, ent_amount = - x\<rparr>, \<lparr>ent_account = acc_id b, ent_amount = x\<rparr>]"
    and key: "pa_key p = key" by (simp_all add: p_def grant_args_def)
  note tr = looked_up_transfer [OF ok a b pe dst [symmetric] x(1) fresh [folded key], of 0]
  obtain t d3 where post: "db_post 0 p d2 = Inr (t, d3)" using tr(2) x(2) by (auto simp: USER_BALANCE_KINDS_def)
  have "grant key dst x d = d3" using a b post by (simp add: grant_def p_def)
  then show "ledger_ok (led (grant key dst x d))" "tkeys (led (grant key dst x d)) = insert key (tkeys (led d))"
    "grant key dst x d = d\<lparr>led := led (grant key dst x d)\<rparr>"
    using tr(1) [OF post] key by simp_all
qed

definition table_config :: keno_config where
  "table_config = \<lparr>kc_id = 1, kc_version = 1, kc_number_pool_size = 80, kc_draw_count = 20, kc_min_picks = 1, kc_max_picks = 10,
     kc_round_cycle_seconds = 45, kc_betting_seconds = 25, kc_draw_seconds = 12, kc_result_seconds = 8,
     kc_max_tickets_per_user_per_round = 5, kc_per_user_round_capacity_share_bps = 10000, kc_jackpot_diversion_bps = 150,
     kc_rtp_floor_bps = 7500, kc_rtp_ceiling_bps = 9700, kc_daily_payout_circuit_breaker_multiple = 3, kc_keno_enabled = True,
     kc_beta_restricted = False, kc_effective_from = 0\<rparr>"

definition table_paytable :: keno_paytable where
  "table_paytable = \<lparr>kp_id = 1, kp_pick_count = 1, kp_version = 1, kp_profile = ''standard'', kp_multipliers = [(0, 9 / 10), (1, 9 / 10)], kp_effective_from = 0\<rparr>"

definition table_tier :: keno_tier where
  "table_tier = \<lparr>kt_id = 1, kt_tier_number = 1, kt_version = 1, kt_min_reserve = 0, kt_max_pick_count = 5, kt_max_top_multiplier = 1000,
     kt_stake_options = [5, 10], kt_max_win_per_ticket = 500, kt_max_round_exposure_pct = 1 / 2, kt_paytable_profile = ''standard'',
     kt_effective_from = 0\<rparr>"

definition table_round :: "string \<Rightarrow> keno_round" where
  "table_round h = \<lparr>kr_id = 1, kr_seq = 1, kr_status = ''betting_open'', kr_config = 1,
      kr_tier = 1, kr_server_seed = Some [7], kr_server_seed_hash = h, kr_public_seed = None,
      kr_ticket_ids_hash = None, kr_drawn_numbers = None, kr_reveal_index = 0, kr_total_stake = 0, kr_total_payout = 0,
      kr_ticket_count = 0, kr_total_expected_payout = 0, kr_total_payout_variance = 0, kr_projected_exposure = None,
      kr_jackpot_hit = False, kr_worker = Some ''w'', kr_failure_reason = None, kr_scheduled_at = 0,
      kr_betting_opened_at = Some 0, kr_betting_closed_at = None, kr_draw_started_at = None, kr_draw_completed_at = None,
      kr_settled_at = None, kr_completed_at = None\<rparr>"

definition table_user :: user_row where
  "table_user = \<lparr>us_id = 7, us_status = ''active'', us_is_simulated = False, us_display_name = ''P''\<rparr>"

definition table_ledger :: ledger where
  "table_ledger = led (grant ''g3'' jackpot_owner 50 (grant ''g2'' (cash_owner 7) 100 (grant ''g1'' reserve_owner 1000 empty_db)))"

definition table :: "string \<Rightarrow> db" where
  "table h = empty_db\<lparr>led := table_ledger, users := [table_user], keno_configs := [table_config], keno_paytables := [table_paytable],
     keno_tiers := [table_tier], keno_tier_state := Some \<lparr>ts_current_tier = 1, ts_candidate_tier = None, ts_candidate_since = None\<rparr>,
     keno_rounds := [table_round h], keno_jackpot := Some \<lparr>jp_account = 4, jp_cap = None\<rparr>\<rparr>"

lemma table_ledger_ok: "ledger_ok table_ledger" "tkeys table_ledger = {''g1'', ''g2'', ''g3''}"
proof -
  have l: "ledger_ok (led empty_db)" "tkeys (led empty_db) = {}" using ledger_ok_empty by (simp_all add: empty_db_def tkeys_def) (simp add: empty_ledger_def)
  note 1 = grant_ok [OF l(1), of 1000 "''g1''" reserve_owner]
  note 2 = grant_ok [of "grant ''g1'' reserve_owner 1000 empty_db" 100 "''g2''" "cash_owner 7"]
  note 3 = grant_ok [of "grant ''g2'' (cash_owner 7) 100 (grant ''g1'' reserve_owner 1000 empty_db)" 50 "''g3''" jackpot_owner]
  show "ledger_ok table_ledger" "tkeys table_ledger = {''g1'', ''g2'', ''g3''}"
    unfolding table_ledger_def using 1 2 3 l(2) by (auto simp: whole_cents_def)
qed

lemma table_inv: "keno_inv (table h)"
proof -
  have jp: "acct_of table_ledger jackpot_owner = Some 4" by code_simp
  have tk: "tickets_ok [] (tkeys table_ledger)"
    by (auto simp: tickets_ok_def ticket_in_def table_ledger_ok keno_stake_key_def keno_settle_key_def keno_refund_key_def keno_jackpot_key_def)
  show ?thesis
    using table_ledger_ok(1) tk jp
    by (simp add: keno_inv_def keno_books_def table_def empty_db_def jackpot_linked_def selections_ok_def tickets_priced_def keno_limits_sane_def
        paytables_sane_def sane_paytable_def caps_sane_def table_config_def table_tier_def table_paytable_def column_money_def whole_cents_def)
qed

text \<open>
  Player 7 puts 10 on the number 3: the placement step by step, each piece evaluated on its own.
\<close>

lemma table_gates:
  "ticket_user_check (table h) 7 = Inr ()" "ticket_gaming_check 1 (table h) 7 10 = Inr table_config"
  "ticket_round_check (table h) {3} 10 = Inr (table_round h, table_tier)"
proof -
  show "ticket_gaming_check 1 (table h) 7 10 = Inr table_config" by code_simp
qed (simp_all add: ticket_user_check_def user_by_id_def table_def table_user_def ticket_round_check_def open_keno_round_def
    latest_by_def table_round_def tier_by_id_def table_tier_def)

lemma table_risk: "compute_ticket_risk_contribution 1 [(0, 9 / 10), (1, 9 / 10)] 10 = \<lparr>tr_expected_payout = 9, tr_payout_variance = 0\<rparr>"
  by code_simp

lemma table_exposure:
  "check_round_exposure 0 0 0 \<lparr>tr_expected_payout = 9, tr_payout_variance = 0\<rparr> 10 1000 (1 / 2) 150
     = Inr \<lparr>xc_projected_exposure = - 17 / 20, xc_gross_exposure = 9, xc_ceiling = 500, xc_allowed = True\<rparr>"
  "check_per_user_round_share 0 0 \<lparr>tr_expected_payout = 9, tr_payout_variance = 0\<rparr> 500 10000"
  by code_simp+

lemma table_money:
  "case reserve_balance_of (table h) of Inl _ \<Rightarrow> False
   | Inr (b, d) \<Rightarrow> b = 1000 \<and> (case take_stake 1 7 (keno_stake_key 7 ''k'') 10 150 d of Inl _ \<Rightarrow> False
      | Inr (i, d') \<Rightarrow> obal (led d') (cash_owner 7) = 90 \<and> \<bar>obal (led d') jackpot_owner\<bar> < 10 ^ 26)"
  by code_simp

lemma table_paytable_active: "load_active_paytable 1 (table h) 1 ''standard'' = Inr table_paytable"
  by code_simp

definition table_quote :: ticket_quote where
  "table_quote = \<lparr>tq_paytable = table_paytable, tq_risk = \<lparr>tr_expected_payout = 9, tr_payout_variance = 0\<rparr>, tq_exposure = - 17 / 20\<rparr>"

lemma table_quoted:
  assumes "reserve_balance_of (table h) = Inr (1000, d1)"
  shows "ticket_quote_for 1 7 {3} 10 table_config (table_round h) table_tier (table h) = Inr (table_quote, d1)"
proof -
  have e: "kr_total_expected_payout (table_round h) = 0" "kr_total_payout_variance (table_round h) = 0" "kr_total_stake (table_round h) = 0"
    "kt_max_round_exposure_pct table_tier = 1 / 2" "kc_jackpot_diversion_bps table_config = 150" "kt_paytable_profile table_tier = ''standard''"
    "kp_multipliers table_paytable = [(0, 9 / 10), (1, 9 / 10)]" "kc_max_tickets_per_user_per_round table_config = 5"
    "kc_per_user_round_capacity_share_bps table_config = 10000" "user_tickets (table h) (kr_id (table_round h)) 7 = []"
    by (simp_all add: table_round_def table_tier_def table_config_def table_paytable_def user_tickets_def table_def empty_db_def)
  show ?thesis
    unfolding ticket_quote_for_def Let_def e
    using table_exposure(2) by (simp add: table_paytable_active assms e table_risk table_exposure(1) table_quote_def)
qed

lemma table_numbers: "numeric18_2 10 = Inr 10" "numeric18_2 9 = Inr 9" "numeric24_6 0 = Inr 0" "numeric18_2 (- 17 / 20) = Inr (- 17 / 20)"
  by code_simp+

lemma table_bet:
  obtains t d x where "place_ticket 1 7 [3] 10 ''k'' None (table h) = Inr (t, d)" "keno_progress (table h) d"
    "obal (led d) (cash_owner 7) = 90" "win_cap d 1 = Some 500" "\<bar>obal (led d) jackpot_owner\<bar> < 10 ^ 26" "multipliers_bounded d"
    "keno_tickets d = [x]" "tk_status x = ''pending''" "tk_round x = 1" "tk_stake x = 10" "tk_user x = 7" "tk_id x = 1"
    "keno_paytables d = [table_paytable]" "picks_of d 1 = {3}"
proof -
  obtain d1 where r: "reserve_balance_of (table h) = Inr (1000, d1)"
    using table_money [of h] by (cases "reserve_balance_of (table h)") auto
  obtain i d2 where ts: "take_stake 1 7 (keno_stake_key 7 ''k'') 10 150 d1 = Inr (i, d2)"
    and m: "obal (led d2) (cash_owner 7) = 90" "\<bar>obal (led d2) jackpot_owner\<bar> < 10 ^ 26"
    using table_money [of h] r by (cases "take_stake 1 7 (keno_stake_key 7 ''k'') 10 150 d1") auto
  have lt: "led (table h) = table_ledger" "keno_tickets (table h) = []" by (simp_all add: table_def empty_db_def)
  have ok: "ledger_ok (led (table h))" by (simp add: lt table_ledger_ok)
  note r1 = reserve_balance_of_effect [OF r ok]
  have "keno_stake_key 7 ''k'' \<notin> tkeys (led d1)" unfolding r1(3) by (simp add: lt table_ledger_ok keno_stake_key_def)
  then have t2: "ledger_ok (led d2)" "d2 = d1\<lparr>led := led d2\<rparr>"
    using take_stake_effect [OF r1(1) _ _ _ _ _ ts] by (auto simp: column_money_def whole_cents_def)
  define l where "l = led d2"
  have "d1\<lparr>led := l\<rparr> = (table h)\<lparr>led := l\<rparr>" by (subst r1(4)) simp
  then have d2: "d2 = (table h)\<lparr>led := l\<rparr>" using t2(2) unfolding l_def by (rule trans [rotated])
  have new: "replayed_ticket (table h) (keno_stake_key 7 ''k'') {3} ''k'' = None" by (simp add: replayed_ticket_def lt)
  have g: "kc_jackpot_diversion_bps table_config = 150" "kr_id (table_round h) = 1" by (simp_all add: table_config_def table_round_def)
  have b: "bump_round 1 10 table_quote d = Inr (update_keno_round 1 (\<lambda>r. r\<lparr>kr_total_stake := 10, kr_ticket_count := kr_ticket_count r + 1,
      kr_total_expected_payout := 9, kr_total_payout_variance := 0, kr_projected_exposure := Some (- 17 / 20)\<rparr>) d)"
    if "keno_round_by_id d 1 = Some (table_round h)" for d
    using that table_numbers by (simp add: bump_round_def table_quote_def table_round_def)
  have k: "keno_round_by_id (table h) 1 = Some (table_round h)" "user_by_id (table h) 7 \<noteq> None"
    by (simp_all add: keno_round_by_id_def user_by_id_def table_def table_round_def table_user_def)
  define row where "row = new_ticket_row 1 1 7 1 10 table_quote (keno_stake_key 7 ''k'') i None"
  have row: "tk_expected_payout_contribution row = 9" "tk_payout_variance_contribution row = 0" "tk_stake row = 10" "tk_pick_count row = 1"
      "tk_round row = 1" "tk_user row = 7" "tk_status row = ''pending''" "tk_id row = 1"
    by (simp_all add: row_def new_ticket_row_def table_quote_def)
  have ins: "insert_keno_ticket row d2 = Inr (d2\<lparr>keno_tickets := [row]\<rparr>)"
    using k lt(2) by (simp add: insert_keno_ticket_def row table_numbers d2 user_by_id_def)
  have id: "new_ticket_id d2 = 1" by (simp add: new_ticket_id_def d2 lt)
  define d4 where "d4 = d2\<lparr>keno_tickets := [row], keno_selections := keno_selections d2 @ [(1, 3)]\<rparr>"
  define d5 where "d5 = update_keno_round 1 (\<lambda>r. r\<lparr>kr_total_stake := 10, kr_ticket_count := kr_ticket_count r + 1,
      kr_total_expected_payout := 9, kr_total_payout_variance := 0, kr_projected_exposure := Some (- 17 / 20)\<rparr>) d4"
  have "keno_round_by_id d4 1 = Some (table_round h)" using k(1) by (simp add: d4_def d2 keno_round_by_id_def)
  note b = b [OF this, folded d5_def]
  obtain t where txn: "place_ticket_txn 1 7 {3} 10 ''k'' None (table h) = Inr (t, d5)"
    using ins b
    by (simp add: place_ticket_txn_def new table_gates ticket_session_check_def table_quoted [OF r] g ts id flip: row_def d4_def)
  have l5: "led d5 = l" "keno_tickets d5 = [row]" "keno_paytables d5 = [table_paytable]" "keno_tiers d5 = [table_tier]"
    by (simp_all add: d5_def d4_def d2 table_def)
  have "picks_of d5 1 = {3}" by (simp add: d5_def d4_def d2 table_def empty_db_def picks_of_def)
  have "db_commit (table h) d5 = Inr d5" using t2(1) by (intro db_commit_ok) (simp add: l5 l_def)
  then have p: "place_ticket 1 7 [3] 10 ''k'' None (table h) = Inr (t, d5)"
    using txn validate_picks_Inr [of "[3]" "{3}"] by (simp add: place_ticket_def)
  have "keno_round_by_id d5 1 \<noteq> None" "\<forall>r. keno_round_by_id d5 1 = Some r \<longrightarrow> kr_tier r = 1"
    using \<open>keno_round_by_id d4 1 = Some (table_round h)\<close>
    by (auto simp: d5_def keno_round_by_id_update table_round_def)
  then have "win_cap d5 1 = Some 500" by (auto simp: win_cap_def tier_by_id_def l5 table_tier_def)
  moreover have "multipliers_bounded d5" by (simp add: multipliers_bounded_def l5 table_paytable_def)
  moreover note \<open>picks_of d5 1 = {3}\<close>
  ultimately show thesis
    using m row by (intro that [OF p place_ticket_progress [OF table_inv p]]) (simp_all add: l5 l_def)
qed

lemma table_bet_run: "place_ticket 1 7 [3] 10 ''k'' None (table h) = Inr (t, d) \<Longrightarrow> keno_run (table h) d"
  by (rule keno_run_step) (rule ks_place)

end
