(* ===== verification/Keno_Fairness.thy ===== *)
theory Keno_Fairness
  imports Keno_Exposure Foundations
begin

text \<open>
  What makes Keno fair, as properties of the pure part of the game: the draw, the probabilities the
  paytables are priced with, the price of a paytable, and the payout of a ticket.
\<close>

lemma draw_pops_error: "draw_pops mac n pool s = Inl x \<Longrightarrow> n \<le> length pool \<Longrightarrow> x = OverflowError"
proof (induction n arbitrary: pool s)
  case (Suc n)
  show ?case
  proof (cases "below mac (int (length pool)) s")
    case (Inl y)
    then have "x = y" using Suc.prems by (simp add: bind_result_def)
    moreover have "0 < length pool" using Suc.prems(2) by linarith
    ultimately show ?thesis using Inl below_loop_error by (auto simp: below_def bind_result_def split: sum.splits if_splits)
  next
    case (Inr v)
    obtain i t where v: "v = (i, t)" by fastforce
    obtain y rest where p: "pop_at (nat i) pool = (y, rest)" by fastforce
    have i: "nat i < length pool" using below_Inr [of mac "int (length pool)" s i t] Inr v by auto
    have "draw_pops mac n rest t = Inl x"
      using Suc.prems(1) Inr v p by (auto simp: bind_result_def split: sum.splits)
    moreover have "n \<le> length rest" using pop_at_mset(2) [OF p i] Suc.prems(2) by simp
    ultimately show ?thesis using Suc.IH by blast
  qed
qed simp

text \<open>What a draw is, whatever the seeds.\<close>

lemma keno_draw_shape:
  assumes "0 \<le> draw_count" "draw_count \<le> pool_size"
  shows "case derive_keno_draw server_seed public_seed pool_size draw_count of
      Inl x \<Rightarrow> x = OverflowError
    | Inr drawn \<Rightarrow> int (length drawn) = draw_count \<and> distinct drawn \<and> set drawn \<subseteq> {1..pool_size}"
proof -
  have len: "nat draw_count \<le> length [1..pool_size]" using assms by simp
  show ?thesis
  proof (cases "derive_keno_draw server_seed public_seed pool_size draw_count")
    case (Inl x)
    then show ?thesis using draw_pops_error len by (simp add: derive_keno_draw_def derive_keno_draw_with_def)
  next
    case (Inr drawn)
    then obtain "is" where i: "length is = nat draw_count" "indices_ok is (length [1..pool_size])" "drawn = pops is [1..pool_size]"
      using draw_pops_indices [of hmac_sha256 "nat draw_count" "[1..pool_size]"]
      by (auto simp: derive_keno_draw_def derive_keno_draw_with_def)
    then show ?thesis using pops_spec [OF i(2)] assms(1) Inr by simp
  qed
qed





text \<open>C30. The probability the paytables are priced with is a frequency: among all the ways to choose \<open>n\<close> numbers of
  the pool, it is the share that matches exactly \<open>k\<close> of the drawn ones; and the shares add up to one.\<close>

theorem match_probability_is_frequency:
  assumes "distinct drawn" "set drawn \<subseteq> {1..80}" "length drawn = 20" "0 \<le> k" "k \<le> n" "n \<le> 80"
  shows "probability_fraction n k NUMBER_POOL_SIZE DRAW_COUNT =
      of_nat (card {P. P \<subseteq> {1..80} \<and> int (card P) = n \<and> count_matches P drawn = k})
      / of_nat (card {P. P \<subseteq> {1..80 :: int} \<and> int (card P) = n})
    \<and> sum_list (map snd (match_distribution_fraction n)) = 1"
proof
  obtain i j where ij: "n = int i" "k = int j" using assms(4,5) nonneg_int_cases by (metis order_trans)
  have ji: "j \<le> i" "i \<le> 80" using assms(5,6) by (simp_all add: ij)
  have D: "card (set drawn) = 20" "card ({1..80} - set drawn) = 60"
    using assms(1-3) by (simp_all add: distinct_card card_Diff_subset)
  have "{P. P \<subseteq> {1..80} \<and> int (card P) = n \<and> count_matches P drawn = k}
      = {P. P \<subseteq> {1..80} \<and> card P = i \<and> card (P \<inter> set drawn) = j}"
    by (auto simp: ij count_matches_def)
  moreover have "{P. P \<subseteq> {1..80 :: int} \<and> int (card P) = n} = {P. P \<subseteq> {1..80} \<and> card P = i}" by (auto simp: ij)
  ultimately show "probability_fraction n k NUMBER_POOL_SIZE DRAW_COUNT =
      of_nat (card {P. P \<subseteq> {1..80} \<and> int (card P) = n \<and> count_matches P drawn = k})
      / of_nat (card {P. P \<subseteq> {1..80 :: int} \<and> int (card P) = n})"
    using card_meeting_sets [of "{1..80}" "set drawn" j i] assms(2) ji D probability_fraction_nat [of 20 80 j i]
    by (simp add: n_subsets ij NUMBER_POOL_SIZE_def DRAW_COUNT_def)
  have "sum_list (map snd (match_distribution_fraction n)) = sum_list (map (\<lambda>(k, q). q * 1) (match_distribution_fraction n))"
    by (simp add: case_prod_unfold)
  also have "\<dots> = (\<Sum>k\<le>i. of_nat ((20 choose k) * (60 choose (i - k))) / of_nat (80 choose i))"
    using distribution_sum [of 20 80 "\<lambda>_. 1" i] by (simp add: ij NUMBER_POOL_SIZE_def DRAW_COUNT_def)
  also have "\<dots> = of_nat (\<Sum>k\<le>i. (20 choose k) * (60 choose (i - k))) / of_nat (80 choose i)"
    by (simp add: sum_divide_distrib)
  also have "(\<Sum>k\<le>i. (20 choose k) * (60 choose (i - k))) = 80 choose i"
    using vandermonde [of 20 60 i] by simp
  also have "of_nat (80 choose i) / (of_nat (80 choose i) :: rat) = 1" using ji by simp
  finally show "sum_list (map snd (match_distribution_fraction n)) = 1" .
qed

theorem match_probability_is_frequency_witness:
  "of_nat (card {P. P \<subseteq> {1..80} \<and> int (card P) = 1 \<and> count_matches P [1..20] = 1})
      / of_nat (card {P. P \<subseteq> {1..80 :: int} \<and> int (card P) = 1}) = (1 / 4 :: rat)"
proof -
  have p: "probability_fraction 1 1 NUMBER_POOL_SIZE DRAW_COUNT = 1 / 4"
    by (simp add: probability_fraction_def NUMBER_POOL_SIZE_def DRAW_COUNT_def)
  have h: "set [1..20] \<subseteq> {1..80 :: int}" "length [1..20 :: int] = 20" by auto
  have b: "(0 :: int) \<le> 1" "(1 :: int) \<le> 1" "(1 :: int) \<le> 80" by simp_all
  note f = match_probability_is_frequency [OF distinct_upto h b, THEN conjunct1]
  show ?thesis by (rule trans [OF f [symmetric] p])
qed

subsection \<open>The price of a ticket\<close>

lemma fraction_to_decimal_upper:
  assumes "0 \<le> x" "fraction_to_decimal x \<le> c" "0 \<le> c" shows "x \<le> c * (1 + 1 / 10 ^ 38)"
proof -
  define e :: rat where "e = pow10 (- 39)"
  have e: "e = 1 / 10 ^ 39" unfolding e_def by code_simp
  have "x - fraction_to_decimal x \<le> x * e / 2"
    using abs_le_D2 [OF fraction_to_decimal_error [of x, folded e_def]] unfolding abs_of_nonneg [OF assms(1)] by linarith
  then have "x * (1 - e / 2) \<le> c" using assms(2) unfolding right_diff_distrib by linarith
  moreover have "0 < 1 - e / 2" by (simp add: e)
  ultimately have "x \<le> c / (1 - e / 2)" by (simp add: pos_le_divide_eq)
  also have "\<dots> = c * (1 / (1 - e / 2))" by simp
  also have "\<dots> \<le> c * (1 + 1 / 10 ^ 38)" using assms(3) by (intro mult_left_mono) (simp_all add: e)
  finally show ?thesis .
qed

lemma dmul_upper: "0 \<le> x \<Longrightarrow> 0 \<le> y \<Longrightarrow> dmul x y \<le> x * y * (1 + 1 / (2 * 10 ^ 27))"
proof -
  assume "0 \<le> x" "0 \<le> y"
  then have xy: "0 \<le> x * y" by simp
  have "dmul x y - x * y \<le> x * y * pow10 (1 - int 28) / 2"
    using abs_le_D1 [OF ctx_round_error [of 28 "x * y"]] xy unfolding dmul_def by (simp only: abs_of_nonneg)
  then show ?thesis by (simp add: pow10_27 algebra_simps)
qed

text \<open>C31. A paytable that passes its guard cannot be played at an edge: with any cap on a win, the mean payout of a
  ticket over all draws is at most 97 percent of its stake, up to one part in ten to the twenty-sixth for the
  rounding of the decimal arithmetic.\<close>

theorem paytable_house_edge:
  assumes guard: "validate_paytable_rtp n ms RTP_FLOOR RTP_CEILING = Inr rtp"
    and ms: "\<And>k. 0 \<le> multiplier_of ms k" and stake: "0 \<le> stake" and cap: "whole_cents cap"
    and v: "\<And>k. k \<in> {0..n} \<Longrightarrow> compute_payout stake k ms cap = Inr (v k)"
  shows "sum_list (map (\<lambda>(k, q). q * v k) (match_distribution_fraction n)) \<le> stake * (97 / 100) * (1 + 1 / 10 ^ 26)"
proof -
  let ?d = "match_distribution_fraction n"
  have k: "q \<in> set ?d \<Longrightarrow> fst q \<in> {0..n} \<and> 0 \<le> snd q" for q
    by (auto simp: match_distribution_fraction_of_def)
  have "v (fst q) \<le> stake * multiplier_of ms (fst q) * (1 + 1 / (2 * 10 ^ 27))" if "q \<in> set ?d" for q
    using compute_payout_Inr(4) [OF v stake ms cap] k [OF that] dmul_upper [OF stake ms, of "fst q"] by (meson order_trans)
  then have "snd q * v (fst q) \<le> snd q * (stake * multiplier_of ms (fst q) * (1 + 1 / (2 * 10 ^ 27)))" if "q \<in> set ?d" for q
    using that k [OF that] by (intro mult_left_mono) auto
  then have "sum_list (map (\<lambda>q. snd q * v (fst q)) ?d)
      \<le> sum_list (map (\<lambda>q. snd q * (stake * multiplier_of ms (fst q) * (1 + 1 / (2 * 10 ^ 27)))) ?d)"
    by (rule sum_list_mono)
  also have "\<dots> = stake * (1 + 1 / (2 * 10 ^ 27)) * fraction_sum_rtp n ms"
    unfolding fraction_sum_rtp_sum sum_list_const_mult [symmetric] case_prod_unfold by (simp only: mult_ac)
  also have "\<dots> \<le> stake * (1 + 1 / (2 * 10 ^ 27)) * (97 / 100 * (1 + 1 / 10 ^ 38))"
  proof (intro mult_left_mono)
    have "0 \<le> fraction_sum_rtp n ms"
      unfolding fraction_sum_rtp_sum by (rule sum_list_nonneg) (use ms k in \<open>force simp: case_prod_unfold\<close>)
    moreover have "fraction_to_decimal (fraction_sum_rtp n ms) \<le> 97 / 100"
      using guard by (auto simp: validate_paytable_rtp_def compute_rtp_def RTP_CEILING_def Let_def split: if_splits)
    ultimately show "fraction_sum_rtp n ms \<le> 97 / 100 * (1 + 1 / 10 ^ 38)" by (rule fraction_to_decimal_upper) simp
  qed (use stake in simp)
  also have "\<dots> = stake * ((1 + 1 / (2 * 10 ^ 27)) * (97 / 100 * (1 + 1 / 10 ^ 38)))" by simp
  also have "\<dots> \<le> stake * (97 / 100 * (1 + 1 / 10 ^ 26))" using stake by (intro mult_left_mono) simp_all
  finally show ?thesis by (simp add: case_prod_unfold)
qed

text \<open>The demo table: a single pick that pays 3.8 when it is drawn.\<close>

definition demo_multipliers :: multipliers where
  "demo_multipliers = [(1, 19 / 5)]"

lemma demo_multiplier_nonneg: "0 \<le> multiplier_of demo_multipliers k"
  by (simp add: demo_multipliers_def multiplier_of_def)

theorem paytable_house_edge_witness:
  "sum_list (map (\<lambda>(k, q). q * (if k = 1 then 38 else 0)) (match_distribution_fraction 1)) \<le> 10 * (97 / 100) * (1 + 1 / 10 ^ 26)"
proof -
  have g: "validate_paytable_rtp 1 demo_multipliers RTP_FLOOR RTP_CEILING = Inr (19 / 20)" by code_simp
  have p: "compute_payout 10 0 demo_multipliers 1000 = Inr 0" "compute_payout 10 1 demo_multipliers 1000 = Inr 38" by code_simp+
  have "compute_payout 10 k demo_multipliers 1000 = Inr (if k = 1 then 38 else 0)" if "k \<in> {0..1}" for k
  proof -
    have "k = 0 \<or> k = 1" using that by auto
    then show ?thesis using p by auto
  qed
  from paytable_house_edge [OF g demo_multiplier_nonneg _ _ this] show ?thesis by simp
qed

text \<open>C32. The payout of a ticket is the exact product of stake and multiplier, rounded down to the cent and capped, for
  every stake a column can hold and every multiplier of two decimals up to a hundred million: no digit is lost to the
  28-digit context on the way.\<close>

theorem payout_exact:
  assumes stake: "column_money stake" "0 \<le> stake" and m: "multiplier_of ms k = of_int j / 100" "0 \<le> j" "j < 10 ^ 10"
    and cap: "whole_cents cap" "0 \<le> cap"
  shows "compute_payout stake k ms cap = Inr (min (of_int \<lfloor>stake * multiplier_of ms k * 100\<rfloor> / 100) cap)
    \<and> (\<forall>v. compute_payout stake k ms cap = Inr v \<longrightarrow> whole_cents v \<and> 0 \<le> v \<and> v \<le> cap \<and> v \<le> stake * multiplier_of ms k)"
proof -
  obtain i where i: "stake = of_int i / 100" "\<bar>i\<bar> < 10 ^ 18" using stake(1) by (rule column_moneyE)
  have i0: "0 \<le> i" using stake(2) i(1) by simp
  have "i * j \<le> 10 ^ 18 * j" using i i0 m by (intro mult_right_mono) auto
  also have "\<dots> < 10 ^ 18 * 10 ^ 10" using m by simp
  finally have ij: "\<bar>i * j\<bar> < 10 ^ 28" using i0 m by simp
  have "dmul stake (of_int j / 100) = of_int (i * j) / 10 ^ 4"
    unfolding dmul_def by (subst ctx_round_exact [of _ "i * j" 4]) (use ij i in auto)
  then have d: "dmul stake (multiplier_of ms k) = stake * multiplier_of ms k" by (simp add: m(1) i(1))
  let ?x = "stake * multiplier_of ms k"
  have x0: "0 \<le> ?x" using stake m by simp
  have "?x * 100 = of_int (i * j) / 100" by (simp add: i(1) m(1))
  also have "\<dots> < of_int (10 ^ 28)"
  proof -
    have "(of_int (i * j) :: rat) < of_int (10 ^ 28)" unfolding of_int_less_iff using ij by linarith
    moreover have "(0 :: rat) \<le> of_int (i * j)" using i0 m by simp
    ultimately show ?thesis by (simp del: of_int_mult)
  qed
  finally have "\<lfloor>?x * 100\<rfloor> < 10 ^ 28" by (simp only: floor_less_iff)
  then have "quantize_down ?x = Inr (of_int \<lfloor>?x * 100\<rfloor> / 100)" using x0 by (simp add: quantize_down_Inr)
  then have e: "compute_payout stake k ms cap = Inr (min (of_int \<lfloor>?x * 100\<rfloor> / 100) cap)"
    by (simp add: compute_payout_def d)
  moreover have "whole_cents v \<and> 0 \<le> v \<and> v \<le> cap \<and> v \<le> ?x" if "compute_payout stake k ms cap = Inr v" for v
  proof -
    have "0 \<le> multiplier_of ms k" using m by simp
    from compute_payout_Inr [OF that stake(2) this cap(1)] show ?thesis using cap(2) unfolding d by blast
  qed
  ultimately show ?thesis by blast
qed

theorem payout_exact_witness: "compute_payout 10 1 demo_multipliers 1000 = Inr 38"
proof -
  have c: "column_money 10" "whole_cents 1000" by (simp_all add: column_money_def whole_cents_def)
  have m: "multiplier_of demo_multipliers 1 = of_int 380 / 100" by (simp add: demo_multipliers_def multiplier_of_def)
  have "compute_payout 10 1 demo_multipliers 1000 = Inr (min (of_int \<lfloor>10 * multiplier_of demo_multipliers 1 * 100\<rfloor> / 100) 1000)"
    by (rule payout_exact [OF c(1) _ m _ _ c(2), THEN conjunct1]) simp_all
  then show ?thesis unfolding m by simp
qed

text \<open>The standard deviation behind the exposure estimate has 40 correct digits: it is off the square root of the
  variance by at most half a unit of its fortieth digit, and the estimate is never below the mean payout.\<close>

theorem exposure_deviation_accurate:
  assumes "0 < v"
  shows "\<exists>r u. exposure_sqrt v = of_nat r * u \<and> 0 < u \<and> 10 ^ 39 \<le> r
    \<and> (exposure_sqrt v - u / 2) ^ 2 \<le> v \<and> v \<le> (exposure_sqrt v + u / 2) ^ 2
    \<and> estimate_percentile_exposure e v = dadd e (dmul Z_SCORE_99_9 (exposure_sqrt v)) \<and> 0 \<le> dmul Z_SCORE_99_9 (exposure_sqrt v)"
proof -
  have s: "exposure_sqrt v = dec_sqrt 40 v" using assms by (simp add: exposure_sqrt_def)
  obtain r where r: "dec_sqrt 40 v = of_nat r * sqrt_unit 40 v" "10 ^ (40 - 1) \<le> r"
    "((of_nat r - 1/2) * sqrt_unit 40 v) ^ 2 \<le> v" "v \<le> ((of_nat r + 1/2) * sqrt_unit 40 v) ^ 2"
    using dec_sqrt_bounds [OF assms, of 40] by auto
  have "0 \<le> dmul Z_SCORE_99_9 (exposure_sqrt v)"
    unfolding dmul_def by (rule ctx_round_nonneg) (simp add: Z_SCORE_99_9_def exposure_sqrt_nonneg)
  then show ?thesis
    using r by (intro exI [of _ r] exI [of _ "sqrt_unit 40 v"])
      (simp add: s estimate_percentile_exposure_def Let_def left_diff_distrib distrib_right)
qed

theorem exposure_deviation_accurate_witness:
  "\<exists>u. 0 < u \<and> (exposure_sqrt 2 - u / 2) ^ 2 \<le> 2 \<and> 2 \<le> (exposure_sqrt 2 + u / 2) ^ 2"
  using exposure_deviation_accurate [of 2 0] by auto

end
