(* ===== verification/Keno_Safety.thy ===== *)
theory Keno_Safety
  imports Keno_Demo Keno_Fairness
begin

text \<open>
  What the invariant of the Keno side means for money and players: properties of every interleaving of
  the game's transactions with each other and with the rest of the platform, of an accepted ticket, a settled
  round, a failed round, a draw, and the movement between risk tiers.
\<close>

subsection \<open>Every run\<close>









end
