(* ===== verification/Keno_Outcomes.thy ===== *)
theory Keno_Outcomes
  imports Keno_Demo Keno_Fairness
begin

text \<open>
  What single operations of the Keno side promise: an accepted ticket, a settled round, a failed round, a
  draw that anyone can verify, and the movement between risk tiers.
\<close>

subsection \<open>An accepted ticket\<close>

text \<open>C11. An accepted ticket: the player picked distinct numbers of the pool, a round was taking bets, the player was allowed to
  play and to stake, the round's worst-case estimate with this ticket stays under the ceiling the reserve allows, exactly
  the stake left the player's cash and went to the reserve and the jackpot pool, one pending row was added; and sending the same
  request again, at any time, returns the same ticket and changes nothing.\<close>

theorem keno_ticket_accepted:
  assumes "keno_inv d" "place_ticket now u picks stake key session d = Inr (t, d')"
    and "keno_stake_key u key \<notin> tk_idempotency_key ` set (keno_tickets d)"
  shows "\<exists>row tier c p q x rc jc. distinct picks \<and> set picks \<subseteq> {1..80} \<and> 1 \<le> length picks \<and> length picks \<le> 10
    \<and> open_keno_round d = Some row \<and> kr_status row = ''betting_open'' \<and> tier_by_id d (kr_tier row) = Some tier
    \<and> load_active_config now d = Inr c \<and> kc_keno_enabled c \<and> \<not> blocked (check_stake_allowed now d u stake)
    \<and> stake \<in> set (kt_stake_options tier) \<and> int (length picks) \<le> kt_max_pick_count tier
    \<and> load_active_paytable now d (int (length picks)) (kt_paytable_profile tier) = Inr p
    \<and> check_round_exposure (kr_total_expected_payout row) (kr_total_payout_variance row) (kr_total_stake row)
        (compute_ticket_risk_contribution (int (length picks)) (kp_multipliers p) stake) stake (obal (led d) (None, ''keno_reserve''))
        (kt_max_round_exposure_pct tier) (kc_jackpot_diversion_bps c) = Inr q \<and> xc_projected_exposure q \<le> xc_ceiling q
    \<and> keno_tickets d' = keno_tickets d @ [x] \<and> staked_row x (int (length (keno_tickets d)) + 1) (kr_id row) u stake key session
    \<and> picks_of d' (tk_id x) = set picks \<and> stake \<le> obal (led d) (Some u, ''user_cash'') \<and> rc + jc = stake \<and> 0 \<le> rc \<and> 0 \<le> jc
    \<and> obal (led d') = (obal (led d))((Some u, ''user_cash'') := obal (led d) (Some u, ''user_cash'') - stake,
         (None, ''keno_reserve'') := obal (led d) (None, ''keno_reserve'') + rc,
         (None, ''keno_jackpot_pool'') := obal (led d) (None, ''keno_jackpot_pool'') + jc)
    \<and> place_ticket again_at u picks stake key session d' = Inr (t, d')"
proof -
  obtain vp d1 where vp: "validate_picks picks = Inr vp" "place_ticket_txn now u vp stake key session d = Inr (t, d1)" "db_commit d d1 = Inr d'"
    using assms(2) by (auto simp: place_ticket_def bind_result_Inr_iff split: sum.splits)
  have d1: "d1 = d'" using db_commit_Inr [OF vp(3)] by simp
  note v = vp(1) [unfolded validate_picks_Inr]
  have vp': "vp = set picks" "card vp = length picks" "finite vp" using v by (auto simp: distinct_card)
  have bk: "keno_books d" "keno_limits_sane d" "selections_ok d" using assms(1) by (simp_all add: keno_inv_def)
  have new: "replayed_ticket d (keno_stake_key u key) vp key = None"
  proof -
    have "find (\<lambda>t. tk_idempotency_key t = keno_stake_key u key) (keno_tickets d) = None"
      using assms(3) by (auto simp: find_None_iff image_iff)
    then show ?thesis by (simp add: replayed_ticket_def)
  qed
  obtain c row tier q dq tid d2 d3 where p:
    "ticket_gaming_check now d u stake = Inr c" "ticket_round_check d vp stake = Inr (row, tier)"
    "ticket_quote_for now u vp stake c row tier d = Inr (q, dq)"
    using place_ticket_txn_parts [OF vp(2) new] by metis
  note g = ticket_gaming_check_Inr [OF p(1)] and r = ticket_round_check_Inr [OF p(2)] and q = ticket_quote_Inr [OF p(3)]
  obtain reserve ex where ex: "reserve_balance_of d = Inr (reserve, dq)"
      "check_round_exposure (kr_total_expected_payout row) (kr_total_payout_variance row) (kr_total_stake row) (tq_risk q)
          stake reserve (kt_max_round_exposure_pct tier) (kc_jackpot_diversion_bps c) = Inr ex" "xc_allowed ex"
    using q(4) by blast
  have res: "reserve = obal (led d) reserve_owner"
    using reserve_balance_of_effect(5) [OF ex(1)] keno_booksE(1) [OF bk(1)] by simp
  from place_ticket_txn_effect [OF bk vp'(3) vp(2) [unfolded d1] new] obtain row' :: keno_round and c' x f rc jc ss where e:
      "open_keno_round d = Some row'" "load_active_config now d = Inr c'"
      "staked_row x (int (length (keno_tickets d)) + 1) (kr_id row') u stake key session"
      "d' = update_keno_round (kr_id row') f (d\<lparr>led := led d', keno_tickets := keno_tickets d @ [x], keno_selections := ss\<rparr>)"
      "picks_of d' (tk_id x) = vp" "keno_books d'" "0 < stake" "stake \<le> obal (led d) (cash_owner u)"
      "stake_split stake (kc_jackpot_diversion_bps c') = Inr (rc, jc)"
      "obal (led d') = (obal (led d))(cash_owner u := obal (led d) (cash_owner u) - stake,
         reserve_owner := obal (led d) reserve_owner + rc, jackpot_owner := obal (led d) jackpot_owner + jc)"
      "t = \<lparr>pt_id = tk_id x, pt_round = kr_id row', pt_user = u, pt_picks = vp, pt_stake = stake,
           pt_idempotency_key = key, pt_status = ''pending''\<rparr>"
    by (elim exE conjE) (rule that; assumption)
  have same: "row' = row" "c' = c" using e(1,2) r(1) g(2) by simp_all
  have kt: "keno_tickets d' = keno_tickets d @ [x]" by (subst e(4)) simp
  have "ticket_ok x" using keno_booksE(2) [OF e(6)] kt by (simp add: tickets_ok_def)
  then have st: "column_money stake" "0 \<le> stake" using e(3) by (auto simp: ticket_ok_def staked_row_def)
  have "0 \<le> kc_jackpot_diversion_bps c" "kc_jackpot_diversion_bps c \<le> 10000"
    using bk(2) load_active_config_Inr(1) [OF g(2)] by (auto simp: keno_limits_sane_def)
  from stake_split_ok [OF st this] have split: "rc + jc = stake" "0 \<le> rc" "0 \<le> jc" using e(9) same by auto
  have "distinct (map tk_idempotency_key (keno_tickets d'))" using keno_booksE(2) [OF e(6)] by (simp add: tickets_ok_def)
  then have "place_ticket_txn again_at u vp stake key session d' = Inr (t, d')"
    using place_ticket_txn_replay [of x u key d' again_at vp stake session] e(3,11) kt by (simp add: staked_row_def)
  moreover have "db_commit d' d' = Inr d'" using keno_booksE(1) [OF e(6)] by (rule db_commit_ok)
  ultimately have again: "place_ticket again_at u picks stake key session d' = Inr (t, d')" using vp(1) by (simp add: place_ticket_def)
  have "xc_projected_exposure ex \<le> xc_ceiling ex" using ex(2,3) check_round_exposure_Inr(1) by blast
  moreover have "check_round_exposure (kr_total_expected_payout row) (kr_total_payout_variance row) (kr_total_stake row)
        (compute_ticket_risk_contribution (int (length picks)) (kp_multipliers (tq_paytable q)) stake) stake (obal (led d) reserve_owner)
        (kt_max_round_exposure_pct tier) (kc_jackpot_diversion_bps c) = Inr ex"
    using ex(2) unfolding q(2) res vp'(2) .
  ultimately show ?thesis
    using v g r q(1) e(3,5,8,10) kt split again unfolding same vp'(1,2)
    by (intro exI [of _ row] exI [of _ tier] exI [of _ c] exI [of _ "tq_paytable q"] exI [of _ ex] exI [of _ x] exI [of _ rc] exI [of _ jc])
      (simp add: distinct_card)
qed

theorem keno_ticket_accepted_witness:
  "\<exists>t d'. place_ticket 1 7 [3] 10 ''k'' None (table ''h'') = Inr (t, d') \<and> place_ticket 99 7 [3] 10 ''k'' None d' = Inr (t, d')"
proof -
  obtain t d where p: "place_ticket 1 7 [3] 10 ''k'' None (table ''h'') = Inr (t, d)" by (rule table_bet)
  have "keno_stake_key 7 ''k'' \<notin> tk_idempotency_key ` set (keno_tickets (table ''h''))" by (simp add: table_def empty_db_def)
  from keno_ticket_accepted [OF table_inv p this, of 99] p show ?thesis by blast
qed

subsection \<open>A settled round\<close>

text \<open>C8. Settling a round never fails and settles every ticket of the round once: in a consistent state with known numbers the
  transaction returns; every pending ticket of the round is then won or lost, with a payout of exactly what its paytable
  gives for its matches, capped by the tier, and a jackpot only on five of five; no other ticket changes; the money audit
  holds; and settling again finds nothing to do.\<close>

theorem keno_round_settled:
  assumes "keno_inv d" "multipliers_bounded d" "\<bar>obal (led d) (None, ''keno_jackpot_pool'')\<bar> < 10 ^ 26"
    and "keno_round_by_id d r = Some row" "tier_by_id d (kr_tier row) = Some tier"
  shows "\<exists>rs hit d'. settle_tickets_txn now r (Some drawn) d = Inr (rs, hit, d') \<and> keno_inv d' \<and> audited d d'
    \<and> length (keno_tickets d') = length (keno_tickets d)
    \<and> (\<forall>k<length (keno_tickets d). let x = keno_tickets d ! k; y = keno_tickets d' ! k; m = count_matches (picks_of d (tk_id x)) drawn in
         if tk_round x = r \<and> tk_status x = ''pending''
         then \<exists>p v. paytable_by_id d (tk_paytable x) = Some p
            \<and> compute_payout (tk_stake x) m (kp_multipliers p) (kt_max_win_per_ticket tier) = Inr v
            \<and> tk_payout y = Some v \<and> tk_matches y = Some m \<and> tk_status y = (if 0 < v then ''won'' else ''lost'')
            \<and> (tk_jackpot_payout y \<noteq> None \<longrightarrow> tk_pick_count x = 5 \<and> m = 5)
         else y = x)
    \<and> settle_tickets_txn again_at r (Some drawn) d' = Inr ([], False, d')"
proof -
  have bk: "keno_books d" "paytables_sane d" "tickets_priced d" using assms(1) by (simp_all add: keno_inv_def)
  have cap: "win_cap d r = Some (kt_max_win_per_ticket tier)" using assms(4,5) by (simp add: win_cap_def)
  have "tier \<in> set (keno_tiers d)" using assms(5) by (auto simp: tier_by_id_def find_Some_iff)
  then have mw: "whole_cents (kt_max_win_per_ticket tier)" "0 \<le> kt_max_win_per_ticket tier"
    using assms(1) by (simp_all add: keno_inv_def caps_sane_def)
  obtain rs hit d' where s: "settle_tickets_txn now r (Some drawn) d = Inr (rs, hit, d')"
    using settle_tickets_txn_returns [OF bk(1,2) assms(2) cap mw assms(3)] by (metis prod_cases3)
  note e = settle_tickets_txn_effect [OF bk(1,2) cap mw s]
  have pr: "keno_inv d'" "audited d d'" using settle_progress [OF assms(1) s] by (simp_all add: keno_progress_def)
  have len: "length (keno_tickets d') = length (keno_tickets d)" using e(4) by (simp add: list_all2_lengthD)
  have none: "pending_tickets d' r = []"
  proof -
    have "\<forall>y\<in>set (keno_tickets d'). \<not> (tk_round y = r \<and> tk_status y = ''pending'')" using settled_not_pending [OF bk(3) e(4)] by blast
    then show ?thesis by (auto simp: pending_tickets_alt filter_empty_conv)
  qed
  have "keno_round_by_id d' r = Some row" "tier_by_id d' (kr_tier row) = Some tier"
    using assms(4,5) by (subst e(3), simp add: tier_by_id_def)+
  moreover have "db_commit d' d' = Inr d'" using keno_booksE(1) [OF e(1)] by (rule db_commit_ok)
  ultimately have again: "settle_tickets_txn again_at r (Some drawn) d' = Inr ([], False, d')"
    by (simp add: settle_tickets_txn_def none)
  have row: "let x = keno_tickets d ! k; y = keno_tickets d' ! k; m = count_matches (picks_of d (tk_id x)) drawn in
         if tk_round x = r \<and> tk_status x = ''pending''
         then \<exists>p v. paytable_by_id d (tk_paytable x) = Some p
            \<and> compute_payout (tk_stake x) m (kp_multipliers p) (kt_max_win_per_ticket tier) = Inr v
            \<and> tk_payout y = Some v \<and> tk_matches y = Some m \<and> tk_status y = (if 0 < v then ''won'' else ''lost'')
            \<and> (tk_jackpot_payout y \<noteq> None \<longrightarrow> tk_pick_count x = 5 \<and> m = 5)
         else y = x" if k: "k < length (keno_tickets d)" for k
  proof -
    let ?x = "keno_tickets d ! k" and ?y = "keno_tickets d' ! k"
    have s: "settled_by now drawn (kt_max_win_per_ticket tier) d (pending_tickets d r) ?x ?y" using e(4) k by (simp add: list_all2_conv_all_nth)
    have x: "?x \<in> set (keno_tickets d)" using k by simp
    show ?thesis
    proof (cases "tk_round ?x = r \<and> tk_status ?x = ''pending''")
      case True
      obtain p where p: "paytable_by_id d (tk_paytable ?x) = Some p" using bk(3) x by (auto simp: tickets_priced_def)
      then have "(?x, p) \<in> set (pending_tickets d r)" using True x by (simp add: pending_tickets_mem)
      then have "settled_from now drawn (kt_max_win_per_ticket tier) d ?x p ?y" using s by (simp add: settled_by_def)
      then obtain tx j v where v: "compute_payout (tk_stake ?x) (count_matches (picks_of d (tk_id ?x)) drawn) (kp_multipliers p) (kt_max_win_per_ticket tier) = Inr v"
        "?y = settled_row now (count_matches (picks_of d (tk_id ?x)) drawn) v tx j ?x"
        "j \<noteq> None \<longrightarrow> tk_pick_count ?x = 5 \<and> count_matches (picks_of d (tk_id ?x)) drawn = 5"
        unfolding settled_from_def Let_def by blast
      have "tk_matches ?y = Some (count_matches (picks_of d (tk_id ?x)) drawn)" by (simp add: v(2) settled_row_def)
      then show ?thesis using True p v unfolding Let_def by (simp add: v(2))
    next
      case False
      then have "?x \<notin> fst ` set (pending_tickets d r)" by (auto simp: pending_tickets_mem)
      then show ?thesis using s False by (auto simp: settled_by_def Let_def)
    qed
  qed
  show ?thesis using s pr len row again by blast
qed

theorem keno_round_settled_witness:
  "\<exists>d rs hit d'. keno_run (table ''h'') d \<and> settle_tickets_txn 5 1 (Some [1..20]) d = Inr (rs, hit, d')
     \<and> map tk_payout (keno_tickets d') = [Some 9] \<and> settle_tickets_txn 6 1 (Some [1..20]) d' = Inr ([], False, d')"
proof -
  obtain t d x where b: "place_ticket 1 7 [3] 10 ''k'' None (table ''h'') = Inr (t, d)" "keno_progress (table ''h'') d"
    "win_cap d 1 = Some 500" "\<bar>obal (led d) jackpot_owner\<bar> < 10 ^ 26" "multipliers_bounded d"
    "keno_tickets d = [x]" "tk_status x = ''pending''" "tk_round x = 1" "tk_stake x = 10" "tk_user x = 7" "tk_id x = 1"
    "keno_paytables d = [table_paytable]" "picks_of d 1 = {3}" by (rule table_bet)
  have inv: "keno_inv d" using b(2) by (simp add: keno_progress_def)
  obtain row tier where r: "keno_round_by_id d 1 = Some row" "tier_by_id d (kr_tier row) = Some tier" "kt_max_win_per_ticket tier = 500"
    using b(3) by (auto simp: win_cap_def bind_eq_Some_conv)
  obtain rs hit d' where s: "settle_tickets_txn 5 1 (Some [1..20]) d = Inr (rs, hit, d')" "length (keno_tickets d') = 1"
      "\<exists>p v. paytable_by_id d (tk_paytable x) = Some p \<and> compute_payout 10 (count_matches {3} [1..20]) (kp_multipliers p) 500 = Inr v
         \<and> tk_payout (keno_tickets d' ! 0) = Some v"
      "settle_tickets_txn 6 1 (Some [1..20]) d' = Inr ([], False, d')"
    using keno_round_settled [OF inv b(5,4) r(1,2), of 5 "[1..20]" 6] b(6-) r(3) unfolding Let_def by auto
  have m: "count_matches {3} [1..20] = 1" by code_simp
  have v: "compute_payout 10 1 [(0, 9 / 10), (1, 9 / 10)] 500 = Inr 9" by code_simp
  have "p = table_paytable" if "paytable_by_id d i = Some p" for p i
    using that by (auto simp: paytable_by_id_def b(12) find_Some_iff split: if_splits)
  then obtain w where "compute_payout 10 1 (kp_multipliers table_paytable) 500 = Inr w" "tk_payout (keno_tickets d' ! 0) = Some w"
    using s(3) unfolding m by blast
  then have "tk_payout (keno_tickets d' ! 0) = Some 9" using v by (simp add: table_paytable_def)
  moreover have "keno_tickets d' = [keno_tickets d' ! 0]" using s(2) by (cases "keno_tickets d'") auto
  ultimately have "map tk_payout (keno_tickets d') = [Some 9]" by (metis list.simps(8,9))
  with s(1,4) table_bet_run [OF b(1)] show ?thesis
    by (intro exI [of _ d] exI [of _ rs] exI [of _ hit] exI [of _ d'] conjI)
qed

end
