(* ===== verification/Keno_Contracts.thy ===== *)
theory Keno_Contracts
  imports Keno_Outcomes
begin

text \<open>
  Contracts of the Keno engine's other transactions: a failed round gives every stake back, a draw can be
  verified by anyone who is shown the seed, and the risk tier moves only where the reserve allows.
\<close>

subsection \<open>A failed round\<close>

definition pending_stakes :: "db \<Rightarrow> int \<Rightarrow> int \<Rightarrow> money" where
  "pending_stakes d r u = sum_list (map tk_stake (filter (\<lambda>t. tk_user t = u) (round_pending d r)))"

lemma sum_refunded:
  assumes "\<forall>t\<in>set ts. tk_status t = ''pending'' \<longrightarrow> tk_payout t = None"
    and "\<forall>t\<in>set ts. t \<in> set ps \<longleftrightarrow> tk_round t = r \<and> tk_status t = ''pending''"
  shows "paid_to (map (refunded_by now ps) ts) u
    = paid_to ts u + sum_list (map tk_stake (filter (\<lambda>t. tk_user t = u) (filter (\<lambda>t. tk_round t = r \<and> tk_status t = ''pending'') ts)))"
  using assms
proof (induction ts)
  case (Cons t ts)
  have "paid_to (map (refunded_by now ps) [t]) u
    = paid_to [t] u + (if tk_user t = u \<and> tk_round t = r \<and> tk_status t = ''pending'' then tk_stake t else 0)"
    using Cons.prems by (simp add: paid_to_def refunded_by_def from_reserve_def)
  moreover have "paid_to (map (refunded_by now ps) ts) u
    = paid_to ts u + sum_list (map tk_stake (filter (\<lambda>t. tk_user t = u) (filter (\<lambda>t. tk_round t = r \<and> tk_status t = ''pending'') ts)))"
    by (rule Cons.IH) (use Cons.prems in auto)
  ultimately show ?case by (simp add: paid_to_def)
qed (simp add: paid_to_def)

lemma round_pending_after:
  assumes "keno_tickets d' = map (refunded_by now (round_pending d r)) (keno_tickets d)"
  shows "round_pending d' r = []"
proof -
  have "\<not> (tk_round (refunded_by now (round_pending d r) x) = r \<and> tk_status (refunded_by now (round_pending d r) x) = ''pending'')"
    if "x \<in> set (keno_tickets d)" for x
    using that by (cases "x \<in> set (round_pending d r)") (simp_all add: refunded_by_def, simp add: round_pending_def)
  then show ?thesis by (simp add: round_pending_def [of d'] assms filter_empty_conv del: de_Morgan_conj)
qed

text \<open>C21. Failing a round never fails: the transaction returns, the round is failed with its reason, every pending ticket of the
  round is refunded and no other ticket changes, every player gets back exactly the stakes of those tickets, and doing it again
  pays nobody.\<close>

theorem keno_round_refunded:
  assumes "keno_inv d" "keno_round_by_id d r = Some row"
  shows "\<exists>d' d''. fail_and_refund_txn w now r reason d = Inr d'
    \<and> (\<exists>row'. keno_round_by_id d' r = Some row' \<and> kr_status row' = ''failed'' \<and> kr_failure_reason row' = Some reason)
    \<and> length (keno_tickets d') = length (keno_tickets d)
    \<and> (\<forall>k<length (keno_tickets d). let x = keno_tickets d ! k in
         keno_tickets d' ! k = (if tk_round x = r \<and> tk_status x = ''pending''
           then x\<lparr>tk_status := ''refunded'', tk_settled_at := Some now\<rparr> else x))
    \<and> (\<forall>u. obal (led d') (Some u, ''user_cash'') = obal (led d) (Some u, ''user_cash'') + pending_stakes d r u)
    \<and> fail_and_refund_txn w again_at r reason' d' = Inr d'' \<and> keno_tickets d'' = keno_tickets d'
    \<and> (\<forall>u. obal (led d'') (Some u, ''user_cash'') = obal (led d') (Some u, ''user_cash''))"
proof -
  have bk: "keno_books d" using assms(1) by (simp add: keno_inv_def)
  from fail_and_refund_txn_effect [OF bk assms(2), of w now reason] obtain d' where
      e: "fail_and_refund_txn w now r reason d = Inr d'" "keno_books d'" "same_tally d d'"
        "keno_tickets d' = map (refunded_by now (round_pending d r)) (keno_tickets d)"
        "keno_round_by_id d' r = Some (fail_row now reason row)" by blast
  from fail_and_refund_txn_effect [OF e(2,5), of w again_at reason'] obtain d'' where
      a: "fail_and_refund_txn w again_at r reason' d' = Inr d''" "same_tally d' d''"
        "keno_tickets d'' = map (refunded_by again_at (round_pending d' r)) (keno_tickets d')" by blast
  have none: "keno_tickets d'' = keno_tickets d'"
    unfolding a(3) round_pending_after [OF e(4)] by (simp add: refunded_by_def map_idI)
  have t: "\<forall>t\<in>set (keno_tickets d). tk_status t = ''pending'' \<longrightarrow> tk_payout t = None"
    using keno_booksE(2) [OF bk] by (auto simp: tickets_ok_def ticket_ok_def)
  have "paid_to (keno_tickets d') u = paid_to (keno_tickets d) u + pending_stakes d r u" for u
    using sum_refunded [OF t, of "round_pending d r" r now u]
    by (simp add: e(4) pending_stakes_def round_pending_def)
  then have cash: "obal (led d') (cash_owner u) = obal (led d) (cash_owner u) + pending_stakes d r u" for u
  proof -
    have "obal (led d') (cash_owner u) - paid_to (keno_tickets d') u = obal (led d) (cash_owner u) - paid_to (keno_tickets d) u"
      using e(3) unfolding same_tally_def by blast
    then show ?thesis using \<open>paid_to (keno_tickets d') u = paid_to (keno_tickets d) u + pending_stakes d r u\<close> by linarith
  qed
  have cash2: "obal (led d'') (cash_owner u) = obal (led d') (cash_owner u)" for u
    using a(2) by (simp add: same_tally_def none)
  have rows: "\<forall>k<length (keno_tickets d). let x = keno_tickets d ! k in
         keno_tickets d' ! k = (if tk_round x = r \<and> tk_status x = ''pending''
           then x\<lparr>tk_status := ''refunded'', tk_settled_at := Some now\<rparr> else x)"
    by (auto simp: e(4) Let_def refunded_by_def refunded_row_def round_pending_def)
  show ?thesis
    using e(1,5) a(1) none cash cash2 rows by (intro exI [of _ d'] exI [of _ d'']) (simp add: e(4) fail_row_def)
qed

theorem keno_round_refunded_witness:
  "\<exists>d d'. keno_run (table ''h'') d \<and> obal (led d) (Some 7, ''user_cash'') = 90
     \<and> fail_and_refund_txn ''w'' 5 1 ''stuck'' d = Inr d' \<and> obal (led d') (Some 7, ''user_cash'') = 100"
proof -
  obtain t d x where b: "place_ticket 1 7 [3] 10 ''k'' None (table ''h'') = Inr (t, d)" "keno_progress (table ''h'') d"
    "obal (led d) (cash_owner 7) = 90" "win_cap d 1 = Some 500"
    "keno_tickets d = [x]" "tk_status x = ''pending''" "tk_round x = 1" "tk_stake x = 10" "tk_user x = 7" by (rule table_bet)
  have inv: "keno_inv d" using b(2) by (simp add: keno_progress_def)
  obtain row where r: "keno_round_by_id d 1 = Some row" using b(4) by (auto simp: win_cap_def bind_eq_Some_conv)
  have p: "pending_stakes d 1 7 = 10" using b(5-9) by (simp add: pending_stakes_def round_pending_def)
  from keno_round_refunded [OF inv r, of "''w''" 5 "''stuck''" 6 "''stuck''"] obtain d' where
    d': "fail_and_refund_txn ''w'' 5 1 ''stuck'' d = Inr d'"
      "obal (led d') (Some 7, ''user_cash'') = obal (led d) (Some 7, ''user_cash'') + pending_stakes d 1 7" by blast
  have "obal (led d') (Some 7, ''user_cash'') = 100" unfolding d'(2) p b(3) by simp
  with d'(1) b(3) table_bet_run [OF b(1)] show ?thesis by (intro exI [of _ d] exI [of _ d'] conjI)
qed

subsection \<open>A draw that can be verified\<close>

lemma hex_digit_ascii: "n < 16 \<Longrightarrow> of_char (hex_digit n) < (128 :: nat)"
  by (auto simp: hex_digit_def)

lemma hexdigest_ascii: "list_all (\<lambda>c. of_char c < (128 :: nat)) (hexdigest bs)"
proof -
  have "unat b div 16 < 16" "unat b mod 16 < 16" for b :: byte using unsigned_less [of b, where 'a = nat] by auto
  then show ?thesis by (induction bs) (auto simp: hexdigest_def intro: hex_digit_ascii)
qed

lemma own_hash_verifies: "verify_server_seed_hash seed (server_seed_hash seed) = Inr True"
  using hexdigest_ascii [of "sha256 seed"] by (simp add: verify_server_seed_hash_def server_seed_hash_def)

text \<open>C20. A draw that anyone can verify: the public seed is fixed at the close of betting by the round, the second it closed and
  the tickets then in; the draw stores, before the first number is shown, twenty distinct numbers of the pool, which the public
  verification accepts for the committed seed, and which a later draw of the round returns unchanged.\<close>

theorem keno_draw_verifiable:
  assumes "close_betting_txn w now r d = Inr (n, d1)" "keno_round_by_id d r = Some row" "kr_drawn_numbers row = None"
    and "kr_server_seed_hash row = server_seed_hash seed" "cx_id ctx = r" "cx_server_seed ctx = Some seed"
    and "kc_number_pool_size (cx_config ctx) = 80" "kc_draw_count (cx_config ctx) = 20"
  shows "case draw_numbers w' drawn_at ctx d1 of
      Inl x \<Rightarrow> x = OverflowError
    | Inr ((drawn, fresh), d2) \<Rightarrow> fresh
        \<and> (\<exists>row' seed_string. keno_round_by_id d2 r = Some row' \<and> kr_status row' = ''drawing'' \<and> kr_drawn_numbers row' = Some drawn
          \<and> kr_public_seed row' = Some seed_string
          \<and> seed_string = derive_public_seed r (now div 1000000) (compute_ticket_ids_rolling_hash (map tk_id (round_tickets d r)))
          \<and> verify_keno_draw seed seed_string drawn = Inr True \<and> verify_server_seed_hash seed (kr_server_seed_hash row') = Inr True)
        \<and> length drawn = 20 \<and> distinct drawn \<and> set drawn \<subseteq> {1..80}
        \<and> draw_numbers w'' again_at ctx d2 = Inr ((drawn, False), d2)"
proof -
  define ps where "ps = derive_public_seed r (now div 1000000) (compute_ticket_ids_rolling_hash (map tk_id (round_tickets d r)))"
  define f :: "keno_round \<Rightarrow> keno_round" where "f = (\<lambda>r'. r'\<lparr>kr_status := ''betting_closed'', kr_betting_closed_at := Some now,
      kr_ticket_ids_hash := Some (compute_ticket_ids_rolling_hash (map tk_id (round_tickets d r))), kr_public_seed := Some ps\<rparr>)"
  obtain es where d1: "d1 = (update_keno_round r f d)\<lparr>keno_events := es\<rparr>"
    using assms(1,2) by (auto simp: close_betting_txn_def Let_def bind_result_Inr_iff f_def ps_def dest!: record_event_frame)
  have r1: "keno_round_by_id d1 r = Some (f row)"
    using keno_round_by_id_update [of f r d r] assms(2) by (simp add: d1 f_def)
  have fr: "kr_public_seed (f row) = Some ps" "kr_drawn_numbers (f row) = None" "kr_server_seed_hash (f row) = server_seed_hash seed"
    by (simp_all add: f_def assms(3,4))
  note shape = keno_draw_shape [of 20 80 seed ps]
  show ?thesis
  proof (cases "derive_keno_draw seed ps 80 20")
    case (Inl x)
    then show ?thesis using shape by (simp add: draw_numbers_def assms(5-8) r1 fr)
  next
    case (Inr drawn)
    define g :: "keno_round \<Rightarrow> keno_round" where "g = (\<lambda>r'. r'\<lparr>kr_status := ''drawing'', kr_draw_started_at := Some drawn_at, kr_drawn_numbers := Some drawn\<rparr>)"
    let ?d = "update_keno_round r g d1"
    have g: "keno_round_by_id ?d r = Some (g (f row))" using keno_round_by_id_update [of g r d1 r] r1 by (simp add: g_def)
    obtain es' where ev: "record_event w' r (Some ''betting_closed'') ''drawing'' None ?d = Inr (?d\<lparr>keno_events := es'\<rparr>)"
      by (simp add: record_event_def g)
    have "draw_numbers w' drawn_at ctx d1 = Inr ((drawn, True), ?d\<lparr>keno_events := es'\<rparr>)"
      using ev by (simp add: draw_numbers_def assms(5-8) r1 fr Inr store_draw_def g_def)
    moreover have s: "int (length drawn) = 20" "distinct drawn" "set drawn \<subseteq> {1..80}" using shape Inr by simp_all
    moreover have "verify_keno_draw seed ps drawn = Inr True"
      using s(1) Inr by (simp add: verify_keno_draw_def NUMBER_POOL_SIZE_def)
    moreover have "draw_numbers w'' again_at ctx (?d\<lparr>keno_events := es'\<rparr>) = Inr ((drawn, False), ?d\<lparr>keno_events := es'\<rparr>)"
      using g by (simp add: draw_numbers_def assms(5) g_def fr)
    ultimately show ?thesis using g fr own_hash_verifies [of seed] unfolding ps_def [symmetric] by (simp add: g_def)
  qed
qed

definition table_ctx :: keno_ctx where
  "table_ctx = \<lparr>cx_id = 1, cx_config = table_config, cx_tier = table_tier, cx_server_seed = Some [7], cx_server_seed_hash = server_seed_hash [7]\<rparr>"

theorem keno_draw_verifiable_witness:
  "\<exists>d1. close_betting_txn ''w'' 3000000 1 (table (server_seed_hash [7])) = Inr (0, d1)
     \<and> (case draw_numbers ''w'' 4000000 table_ctx d1 of Inl x \<Rightarrow> x = OverflowError
        | Inr ((drawn, _), _) \<Rightarrow> length drawn = 20 \<and> distinct drawn \<and> set drawn \<subseteq> {1..80}
            \<and> verify_keno_draw [7] (derive_public_seed 1 3 (compute_ticket_ids_rolling_hash [])) drawn = Inr True)"
proof -
  let ?d = "table (server_seed_hash [7])"
  have r: "keno_round_by_id ?d 1 = Some (table_round (server_seed_hash [7]))"
    by (simp add: keno_round_by_id_def table_def table_round_def)
  have none: "round_tickets ?d 1 = []" by (simp add: round_tickets_def table_def empty_db_def)
  obtain d1 where c: "close_betting_txn ''w'' 3000000 1 ?d = Inr (0, d1)"
    using r by (auto simp: close_betting_txn_def Let_def none record_event_def keno_round_by_id_update)
  have t: "kr_drawn_numbers (table_round (server_seed_hash [7])) = None"
    "kr_server_seed_hash (table_round (server_seed_hash [7])) = server_seed_hash [7]"
    "cx_id table_ctx = 1" "cx_server_seed table_ctx = Some [7]"
    "kc_number_pool_size (cx_config table_ctx) = 80" "kc_draw_count (cx_config table_ctx) = 20"
    by (simp_all add: table_round_def table_ctx_def table_config_def)
  note v = keno_draw_verifiable [OF c r t, where w' = "''w''" and drawn_at = 4000000]
  have "case draw_numbers ''w'' 4000000 table_ctx d1 of Inl x \<Rightarrow> x = OverflowError
        | Inr ((drawn, _), _) \<Rightarrow> length drawn = 20 \<and> distinct drawn \<and> set drawn \<subseteq> {1..80}
            \<and> verify_keno_draw [7] (derive_public_seed 1 3 (compute_ticket_ids_rolling_hash [])) drawn = Inr True"
    using v by (cases "draw_numbers ''w'' 4000000 table_ctx d1") (auto simp: none)
  then show ?thesis using c by blast
qed

subsection \<open>Moving between risk tiers\<close>

lemma effective_tiers_mem:
  assumes "t \<in> set (effective_tiers now d)" shows "t \<in> set (keno_tiers d) \<and> kt_effective_from t \<le> now"
proof -
  obtain n where "latest_by kt_effective_from (filter (\<lambda>t. kt_tier_number t = n) (filter (\<lambda>t. kt_effective_from t \<le> now) (keno_tiers d))) = Some t"
    using assms by (auto simp: effective_tiers_def Let_def simp del: filter_filter split: option.splits)
  from latest_by_filter [OF this] show ?thesis by simp
qed

text \<open>What the reserve entitles the game to: the highest tier in force whose threshold it reaches.\<close>

lemma eligible_tier_best:
  "(\<forall>t\<in>set (effective_tiers now d). b < kt_min_reserve t) \<and> eligible_tier now b cur d = cur
   \<or> eligible_tier now b cur d \<in> set (effective_tiers now d) \<and> kt_min_reserve (eligible_tier now b cur d) \<le> b
     \<and> (\<forall>t\<in>set (effective_tiers now d). kt_min_reserve t \<le> b \<longrightarrow> kt_tier_number t \<le> kt_tier_number (eligible_tier now b cur d))"
proof (cases "latest_by kt_tier_number (filter (\<lambda>t. kt_min_reserve t \<le> b) (effective_tiers now d))")
  case None
  then show ?thesis by (auto simp: eligible_tier_def) (auto simp: latest_by_None filter_empty_conv not_le)
next
  case (Some t)
  from latest_by_filter [OF this] Some show ?thesis by (auto simp: eligible_tier_def)
qed

text \<open>C33. The risk tier follows the reserve and never runs ahead of it: the tier in force changes only to the highest tier whose
  threshold the reserve reaches, upwards only after that tier has been the candidate for seven days, downwards at once; every
  change leaves one row in the history; and no money moves.\<close>

theorem tier_transition_safe:
  assumes "evaluate_tier_transition now b d = Inr (res, d')" "keno_tier_state d = Some state"
    and "tier_by_id d (ts_current_tier state) = Some cur"
  shows "led d' = led d
    \<and> (tcr_changed res \<longrightarrow> (\<exists>best\<in>set (effective_tiers now d). kt_min_reserve best \<le> b \<and> best \<in> set (keno_tiers d) \<and> kt_effective_from best \<le> now
        \<and> (\<forall>t\<in>set (effective_tiers now d). kt_min_reserve t \<le> b \<longrightarrow> kt_tier_number t \<le> kt_tier_number best)
        \<and> keno_tier_state d' = Some \<lparr>ts_current_tier = kt_id best, ts_candidate_tier = None, ts_candidate_since = None\<rparr>
        \<and> kt_tier_number best \<noteq> kt_tier_number cur
        \<and> (kt_tier_number cur < kt_tier_number best \<longrightarrow> ts_candidate_tier state = Some (kt_id best)
            \<and> (\<exists>since. ts_candidate_since state = Some since \<and> 7 * 86400 * 1000000 \<le> now - since))
        \<and> (\<exists>c. keno_tier_changes d' = keno_tier_changes d @ [c] \<and> tc_to_tier c = kt_id best \<and> tc_from_tier c = Some (kt_id cur))))
    \<and> (\<not> tcr_changed res \<longrightarrow> keno_tier_changes d' = keno_tier_changes d \<and> map_option ts_current_tier (keno_tier_state d') = Some (ts_current_tier state))
    \<and> (\<not> tcr_changed res \<longrightarrow> (\<exists>t\<in>set (effective_tiers now d). kt_min_reserve t \<le> b) \<longrightarrow>
        (\<exists>t\<in>set (effective_tiers now d). kt_min_reserve t \<le> b \<and> kt_tier_number cur \<le> kt_tier_number t))"
proof -
  define best where "best = eligible_tier now b cur d"
  note e = assms(1) [unfolded evaluate_tier_transition_def assms(2,3) option.case Let_def, folded best_def]
  note b = eligible_tier_best [of now d b cur, folded best_def]
  have up: "best \<in> set (effective_tiers now d) \<and> kt_min_reserve best \<le> b
     \<and> (\<forall>t\<in>set (effective_tiers now d). kt_min_reserve t \<le> b \<longrightarrow> kt_tier_number t \<le> kt_tier_number best)"
    if "kt_tier_number best \<noteq> kt_tier_number cur" using b that by auto
  consider (up) "kt_tier_number cur < kt_tier_number best" | (down) "kt_tier_number best < kt_tier_number cur"
    | (same) "kt_tier_number best = kt_tier_number cur" by linarith
  then show ?thesis
  proof cases
    case up': up
    then have u: "best \<in> set (effective_tiers now d)" "kt_min_reserve best \<le> b"
     "\<forall>t\<in>set (effective_tiers now d). kt_min_reserve t \<le> b \<longrightarrow> kt_tier_number t \<le> kt_tier_number best" using up by auto
    have k: "kt_tier_number best \<noteq> kt_tier_number cur" "kt_tier_number cur \<le> kt_tier_number best" using up' by auto
    show ?thesis
      using e up' u k effective_tiers_mem [OF u(1)] assms(2)
      by (auto simp: changed_def unchanged_def apply_tier_change_def PROMOTION_HOLD_def split: option.splits if_splits bool.splits
          intro!: bexI [of _ best])
  next
    case down
    then have u: "best \<in> set (effective_tiers now d)" "kt_min_reserve best \<le> b"
     "\<forall>t\<in>set (effective_tiers now d). kt_min_reserve t \<le> b \<longrightarrow> kt_tier_number t \<le> kt_tier_number best" using up by auto
    show ?thesis
      using e down u effective_tiers_mem [OF u(1)]
      by (auto simp: changed_def apply_tier_change_def intro!: bexI [of _ best])
  next
    case same
    then show ?thesis using e b assms(2) by (auto simp: unchanged_def split: if_splits)
  qed
qed

definition upper_tier :: keno_tier where
  "upper_tier = table_tier\<lparr>kt_id := 2, kt_tier_number := 2, kt_min_reserve := 5000\<rparr>"

theorem tier_transition_safe_witness:
  "\<exists>d res d'. evaluate_tier_transition 900000000000 6000 d = Inr (res, d') \<and> tcr_changed res
     \<and> map_option ts_current_tier (keno_tier_state d) = Some 1 \<and> map_option ts_current_tier (keno_tier_state d') = Some 2"
proof -
  define state where "state = \<lparr>ts_current_tier = 1, ts_candidate_tier = Some 2, ts_candidate_since = Some 0\<rparr>"
  define d where "d = (table ''h'')\<lparr>keno_tiers := [table_tier, upper_tier], keno_tier_state := Some state\<rparr>"
  have c: "tier_by_id d 1 = Some table_tier" by (simp add: d_def tier_by_id_def table_tier_def)
  have "keno_tier_state d = Some state" "ts_current_tier state = 1" by (simp_all add: d_def state_def)
  have el: "effective_tiers 900000000000 d = [table_tier, upper_tier]"
    unfolding d_def effective_tiers_def by code_simp
  then have e: "eligible_tier 900000000000 6000 table_tier d = upper_tier"
    by (simp add: eligible_tier_def latest_by_def later.simps upper_tier_def table_tier_def)
  obtain res d' where r: "evaluate_tier_transition 900000000000 6000 d = Inr (res, d')" "tcr_changed res"
    using c e by (auto simp: evaluate_tier_transition_def d_def state_def upper_tier_def table_tier_def PROMOTION_HOLD_def changed_def)
  note t = tier_transition_safe [OF r(1), of state table_tier]
  have "map_option ts_current_tier (keno_tier_state d') = Some 2"
    using t c r(2) el by (auto simp: d_def state_def upper_tier_def table_tier_def)
  then show ?thesis using r by (intro exI [of _ d] exI [of _ res] exI [of _ d']) (simp add: d_def state_def)
qed

end
