(* ===== verification/Bank.thy ===== *)
theory Bank
  imports Responsible_Gaming Keno_Money
begin

text \<open>
  The tables of the payments side, as the migrations create them (\<open>cad1633f4597_payments\<close>,
  \<open>60dc29201d1c_manual_payments\<close>, \<open>21e6207342cd_two_person_approval\<close>, \<open>9c1f4d7a2b3e_telebirr_sms_evidence\<close>,
  \<open>4bbb21e0f5ad_referral_and_bonus_management\<close>), next to the database of the games. \<open>bank\<close> is the whole
  database: \<open>bk_db\<close> holds the ledger, users and limits. The text of a review reason, of a memo and of an
  audit row is left out, and so are the provider's raw answers.
\<close>

subsection \<open>Rows\<close>

text \<open>The columns of \<open>users\<close> the payments side reads besides those of \<open>user_row\<close>.\<close>

record profile =
  pf_user :: int
  pf_kyc_level :: int
  pf_created_at :: int
  pf_referred_by :: "int option"

record payment_method =
  me_id :: int
  me_user :: int
  me_kind :: string
  me_account_ref :: string
  me_holder_name :: string

record destination =
  ds_id :: int
  ds_method_kind :: string
  ds_account_ref :: string
  ds_account_name :: string
  ds_is_active :: bool
  ds_effective_from :: "int option"
  ds_effective_until :: "int option"

datatype review_check = AmountOverLimit | AccountTooYoung | WithdrewMoreThanDeposited | TooManyWithdrawals | ManualRail

record payment =
  pm_id :: int
  pm_user :: int
  pm_direction :: string
  pm_provider :: string
  pm_provider_ref :: "string option"
  pm_our_ref :: string
  pm_amount :: money
  pm_status :: string
  pm_method :: "int option"
  pm_ledger_txn :: "int option"
  pm_failure_reason :: "string option"
  pm_review_reason :: "review_check list"
  pm_destination :: "int option"
  pm_receipt :: "string option"
  pm_first_approver :: "int option"
  pm_created_at :: int
  pm_updated_at :: int

record payment_event =
  pe_payment :: int
  pe_provider :: string
  pe_event_id :: string

text \<open>What the parser of a Telebirr message extracts, stored column by column in a row of \<open>payment_evidence\<close>.\<close>

record parsed_evidence =
  pv_external_reference :: string
  pv_raw_reference :: string
  pv_amount :: money
  pv_fee :: "money option"
  pv_vat :: "money option"
  pv_payer_name :: string
  pv_payer_phone :: "string option"
  pv_recipient_name :: string
  pv_recipient_phone :: "string option"
  pv_receipt_url :: "string option"
  pv_transaction_at :: int
  pv_direction :: string

record evidence =
  ev_id :: int
  ev_source :: string
  ev_source_ref :: string
  ev_raw_sms :: string
  ev_hash :: string
  ev_parsed :: parsed_evidence
  ev_status :: string
  ev_reject_reason :: "string option"
  ev_redeemed_by :: "int option"
  ev_payment :: "int option"
  ev_parser_version :: string

abbreviation ev_reference :: "evidence \<Rightarrow> string" where "ev_reference v \<equiv> pv_external_reference (ev_parsed v)"
abbreviation ev_amount :: "evidence \<Rightarrow> money" where "ev_amount v \<equiv> pv_amount (ev_parsed v)"

record bonus_rule =
  br_id :: int
  br_trigger_type :: string
  br_reward_type :: string
  br_reward_amount :: money
  br_reward_percentage :: rat
  br_reward_cap :: "money option"
  br_min_qualifying_deposit :: money
  br_wagering_multiplier :: rat
  br_expiry_days :: "int option"
  br_max_grants_per_user :: int
  br_is_active :: bool
  br_starts_at :: "int option"
  br_ends_at :: "int option"

record bonus =
  bn_id :: int
  bn_user :: int
  bn_rule :: "int option"
  bn_referral_of :: "int option"
  bn_amount :: money
  bn_wagering_required :: money
  bn_wagering_progress :: money
  bn_status :: string
  bn_grant_txn :: int
  bn_convert_txn :: "int option"
  bn_expires_at :: "int option"
  bn_granted_by :: "int option"
  bn_created_at :: int

record bank =
  bk_db :: db
  bk_profiles :: "profile list"
  bk_methods :: "payment_method list"
  bk_destinations :: "destination list"
  bk_payments :: "payment list"
  bk_events :: "payment_event list"
  bk_evidence :: "evidence list"
  bk_rules :: "bonus_rule list"
  bk_bonuses :: "bonus list"
  bk_ref_seq :: int

abbreviation bank_led :: "bank \<Rightarrow> ledger" where
  "bank_led b \<equiv> led (bk_db b)"

definition on_db :: "bank \<Rightarrow> ('a \<times> db) result \<Rightarrow> ('a \<times> bank) result" where
  "on_db b r = bind_result r (\<lambda>(x, d). Inr (x, b\<lparr>bk_db := d\<rparr>))"

text \<open>The commit of a transaction: the deferred trigger of the ledger.\<close>

definition bank_commit :: "bank \<Rightarrow> bank \<Rightarrow> bank result" where
  "bank_commit old b = bind_result (db_commit (bk_db old) (bk_db b)) (\<lambda>d. Inr (b\<lparr>bk_db := d\<rparr>))"

definition profile_of :: "bank \<Rightarrow> int \<Rightarrow> profile option" where
  "profile_of b u = find (\<lambda>p. pf_user p = u) (bk_profiles b)"

definition payment_by_id :: "bank \<Rightarrow> int \<Rightarrow> payment option" where
  "payment_by_id b i = find (\<lambda>p. pm_id p = i) (bk_payments b)"

definition payment_by_ref :: "bank \<Rightarrow> string \<Rightarrow> payment option" where
  "payment_by_ref b r = find (\<lambda>p. pm_our_ref p = r) (bk_payments b)"

definition update_payment :: "int \<Rightarrow> (payment \<Rightarrow> payment) \<Rightarrow> bank \<Rightarrow> bank" where
  "update_payment i f b = b\<lparr>bk_payments := map (\<lambda>p. if pm_id p = i then f p else p) (bk_payments b)\<rparr>"

definition new_payment_id :: "bank \<Rightarrow> int" where
  "new_payment_id b = int (length (bk_payments b)) + 1"

text \<open>\<open>our_ref\<close> is unique, the amount is a positive \<open>numeric(18,2)\<close>, and the user exists.\<close>

definition insert_payment :: "payment \<Rightarrow> bank \<Rightarrow> bank result" where
  "insert_payment row b =
     bind_result (numeric18_2 (pm_amount row)) (\<lambda>amount.
       if amount \<le> 0 then Inl CheckViolation
       else if \<exists>p\<in>set (bk_payments b). pm_our_ref p = pm_our_ref row then Inl UniqueViolation
       else if user_by_id (bk_db b) (pm_user row) = None then Inl ForeignKeyViolation
       else Inr (b\<lparr>bk_payments := bk_payments b @ [row\<lparr>pm_amount := amount\<rparr>]\<rparr>))"

definition new_payment :: "int \<Rightarrow> int \<Rightarrow> string \<Rightarrow> string \<Rightarrow> string \<Rightarrow> money \<Rightarrow> string \<Rightarrow> bank \<Rightarrow> payment" where
  "new_payment now user_id direction provider our_ref amount status b =
     \<lparr>pm_id = new_payment_id b, pm_user = user_id, pm_direction = direction, pm_provider = provider, pm_provider_ref = None,
      pm_our_ref = our_ref, pm_amount = amount, pm_status = status, pm_method = None, pm_ledger_txn = None,
      pm_failure_reason = None, pm_review_reason = [], pm_destination = None, pm_receipt = None,
      pm_first_approver = None, pm_created_at = now, pm_updated_at = now\<rparr>"

subsection \<open>References\<close>

text \<open>\<open>lpad(n::text, 6, '0')\<close>: PostgreSQL pads on the left, and cuts a longer text to its first six characters.\<close>

definition lpad6 :: "string \<Rightarrow> string" where
  "lpad6 s = (if length s \<le> 6 then replicate (6 - length s) (CHR ''0'') @ s else take 6 s)"

definition payment_ref :: "string \<Rightarrow> int \<Rightarrow> int \<Rightarrow> string" where
  "payment_ref prefix year n = prefix @ ''-'' @ str_int year @ ''-'' @ lpad6 (str_int n)"

text \<open>\<open>nextval\<close> is not undone when the transaction that called it fails.\<close>

definition next_ref :: "string \<Rightarrow> int \<Rightarrow> bank \<Rightarrow> string \<times> bank" where
  "next_ref prefix year b = (let n = bk_ref_seq b + 1 in (payment_ref prefix year n, b\<lparr>bk_ref_seq := n\<rparr>))"

definition payout_settle_key :: "string \<Rightarrow> string" where "payout_settle_key our_ref = ''payout-settle-'' @ our_ref"
definition payout_reverse_key :: "string \<Rightarrow> string" where "payout_reverse_key our_ref = ''payout-reverse-'' @ our_ref"
definition manual_settle_key :: "string \<Rightarrow> string" where "manual_settle_key our_ref = ''manual-payout-settle-'' @ our_ref"
definition manual_fail_key :: "int \<Rightarrow> string" where "manual_fail_key payment_id = ''manual-payout-fail-'' @ str_int payment_id"
definition payout_reject_key :: "int \<Rightarrow> string" where "payout_reject_key payment_id = ''payout-reject-'' @ str_int payment_id"
definition bonus_convert_key :: "int \<Rightarrow> string" where "bonus_convert_key bonus_id = ''bonus-convert-'' @ str_int bonus_id"
definition bonus_expire_key :: "int \<Rightarrow> string" where "bonus_expire_key bonus_id = ''bonus-expire-'' @ str_int bonus_id"
definition bonus_revoke_key :: "int \<Rightarrow> string" where "bonus_revoke_key bonus_id = ''bonus-revoke-'' @ str_int bonus_id"
definition referral_key :: "int \<Rightarrow> int \<Rightarrow> string" where
  "referral_key referrer_id user_id = ''referral-'' @ str_int referrer_id @ ''-'' @ str_int user_id"
definition welcome_key :: "int \<Rightarrow> int \<Rightarrow> int \<Rightarrow> string" where
  "welcome_key user_id rule_id n = ''welcome-'' @ str_int user_id @ ''-'' @ str_int rule_id @ ''-'' @ str_int n"
definition manual_grant_key :: "int \<Rightarrow> int \<Rightarrow> string \<Rightarrow> string" where
  "manual_grant_key admin_id user_id stamp = ''manual-grant-'' @ str_int admin_id @ ''-'' @ str_int user_id @ ''-'' @ stamp"

subsection \<open>A posting between two accounts\<close>

text \<open>
  The shape of every posting of the payments side: the account that pays and the account that receives are
  looked up, in this order, and one transaction moves the amount.
\<close>

definition transfer_args :: "string \<Rightarrow> money \<Rightarrow> string \<Rightarrow> int option \<Rightarrow> string option \<Rightarrow> string \<Rightarrow> int \<Rightarrow> int \<Rightarrow> post_args" where
  "transfer_args kind amount key payment memo created_by src dst =
     \<lparr>pa_kind = kind, pa_entries = [\<lparr>ent_account = src, ent_amount = - amount\<rparr>, \<lparr>ent_account = dst, ent_amount = amount\<rparr>],
      pa_key = key, pa_round = None, pa_payment = payment, pa_memo = memo, pa_by = created_by\<rparr>"

definition move_money :: "int \<Rightarrow> owner \<Rightarrow> owner \<Rightarrow> (int \<Rightarrow> int \<Rightarrow> post_args) \<Rightarrow> bank \<Rightarrow> (ledger_txn \<times> bank) result" where
  "move_money now src dst args b =
     (let (src_account, d1) = db_account (fst src) (snd src) (bk_db b);
          (dst_account, d2) = db_account (fst dst) (snd dst) d1
      in on_db b (db_post now (args (acc_id src_account) (acc_id dst_account)) d2))"

abbreviation locked_owner :: "int \<Rightarrow> owner" where "locked_owner u \<equiv> (Some u, ''user_locked'')"
abbreviation bonus_owner :: "int \<Rightarrow> owner" where "bonus_owner u \<equiv> (Some u, ''user_bonus'')"
abbreviation provider_owner :: owner where "provider_owner \<equiv> (None, ''provider_settlement'')"
abbreviation promo_owner :: owner where "promo_owner \<equiv> (None, ''promo_expense'')"

end
