(* ===== verification/Bonuses.thy ===== *)
theory Bonuses
  imports Bank
begin

text \<open>
  Bonuses: granting, converting, expiring and revoking (\<open>packages/core/bonuses.py\<close>), the referral and welcome
  rewards a deposit triggers (\<open>packages/core/referrals.py\<close>), and the sweep that converts a bonus once it
  is wagered off (\<open>services/payments/bonus_sweep.py\<close>).
\<close>

subsection \<open>Granting and taking back\<close>

definition new_bonus ::
    "int \<Rightarrow> int \<Rightarrow> money \<Rightarrow> money \<Rightarrow> int \<Rightarrow> int option \<Rightarrow> int option \<Rightarrow> int option \<Rightarrow> int option \<Rightarrow> bank \<Rightarrow> bonus" where
  "new_bonus now user_id amount wagering_required txn rule_id referral_of expires_at granted_by b =
     \<lparr>bn_id = int (length (bk_bonuses b)) + 1, bn_user = user_id, bn_rule = rule_id, bn_referral_of = referral_of,
      bn_amount = amount, bn_wagering_required = wagering_required, bn_wagering_progress = 0, bn_status = ''active'',
      bn_grant_txn = txn, bn_convert_txn = None, bn_expires_at = expires_at, bn_granted_by = granted_by, bn_created_at = now\<rparr>"

text \<open>The unique index lets a referred user be rewarded once.\<close>

definition insert_bonus :: "bonus \<Rightarrow> bank \<Rightarrow> (bonus \<times> bank) result" where
  "insert_bonus row b =
     bind_result (numeric18_2 (bn_amount row)) (\<lambda>amount.
     bind_result (numeric18_2 (bn_wagering_required row)) (\<lambda>wagering_required.
       if bn_referral_of row \<noteq> None \<and> (\<exists>x\<in>set (bk_bonuses b). bn_referral_of x = bn_referral_of row) then Inl UniqueViolation
       else let stored = row\<lparr>bn_amount := amount, bn_wagering_required := wagering_required\<rparr>
            in Inr (stored, b\<lparr>bk_bonuses := bk_bonuses b @ [stored]\<rparr>)))"

definition grant_bonus ::
    "int \<Rightarrow> int \<Rightarrow> string \<Rightarrow> money \<Rightarrow> money \<Rightarrow> int option \<Rightarrow> int option \<Rightarrow> int option \<Rightarrow> int option \<Rightarrow> string option \<Rightarrow> bank
      \<Rightarrow> (bonus \<times> bank) result" where
  "grant_bonus now user_id key amount wagering_required rule_id referral_of expires_at granted_by reason b =
     (case find_txn (bank_led b) key of
        Some t \<Rightarrow> (case find (\<lambda>x. bn_grant_txn x = txn_id t) (bk_bonuses b) of
                     None \<Rightarrow> Inl AssertionError | Some existing \<Rightarrow> Inr (existing, b))
      | None \<Rightarrow>
          bind_result (move_money now promo_owner (bonus_owner user_id) (transfer_args ''bonus_grant'' amount key None reason ''system'') b)
            (\<lambda>(txn, b1). insert_bonus (new_bonus now user_id amount wagering_required (txn_id txn) rule_id referral_of expires_at granted_by b1) b1))"

definition bonus_by_id :: "bank \<Rightarrow> int \<Rightarrow> bonus option" where
  "bonus_by_id b i = find (\<lambda>x. bn_id x = i) (bk_bonuses b)"

definition update_bonus :: "int \<Rightarrow> (bonus \<Rightarrow> bonus) \<Rightarrow> bank \<Rightarrow> bank" where
  "update_bonus i f b = b\<lparr>bk_bonuses := map (\<lambda>x. if bn_id x = i then f x else x) (bk_bonuses b)\<rparr>"

definition convert_bonus_to_cash :: "int \<Rightarrow> int \<Rightarrow> bank \<Rightarrow> (bool \<times> bank) result" where
  "convert_bonus_to_cash now bonus_id b =
     (case bonus_by_id b bonus_id of
        None \<Rightarrow> Inl BonusNotFound
      | Some row \<Rightarrow>
          if bn_status row \<noteq> ''active'' then Inr (False, b)
          else bind_result (move_money now (bonus_owner (bn_user row)) (cash_owner (bn_user row))
                 (transfer_args ''bonus_convert'' (bn_amount row) (bonus_convert_key bonus_id) None None ''system'') b)
               (\<lambda>(txn, b1). bind_result (bank_commit b (update_bonus bonus_id
                   (\<lambda>x. x\<lparr>bn_status := ''converted'', bn_convert_txn := Some (txn_id txn)\<rparr>) b1)) (\<lambda>b2. Inr (True, b2))))"

text \<open>Expiry and revocation: the same reversal into \<open>promo_expense\<close>, which is looked up first.\<close>

definition take_back :: "int \<Rightarrow> string \<Rightarrow> bonus \<Rightarrow> bank \<Rightarrow> (ledger_txn \<times> bank) result" where
  "take_back now key row b =
     (let (promo, d1) = db_account None ''promo_expense'' (bk_db b);
          (bonus_account, d2) = db_account (Some (bn_user row)) ''user_bonus'' d1
      in on_db b (db_post now (transfer_args ''bonus_grant'' (bn_amount row) key None None ''system''
           (acc_id bonus_account) (acc_id promo)) d2))"

definition expire_bonus :: "int \<Rightarrow> int \<Rightarrow> bank \<Rightarrow> (bool \<times> bank) result" where
  "expire_bonus now bonus_id b =
     (case bonus_by_id b bonus_id of
        None \<Rightarrow> Inl BonusNotFound
      | Some row \<Rightarrow>
          if bn_status row \<noteq> ''active'' then Inr (False, b)
          else bind_result (take_back now (bonus_expire_key bonus_id) row b) (\<lambda>(_, b1).
               bind_result (bank_commit b (update_bonus bonus_id (\<lambda>x. x\<lparr>bn_status := ''expired''\<rparr>) b1)) (\<lambda>b2. Inr (True, b2))))"

definition revoke_bonus :: "int \<Rightarrow> int \<Rightarrow> bank \<Rightarrow> (bool \<times> bank) result" where
  "revoke_bonus now bonus_id b =
     (case bonus_by_id b bonus_id of
        None \<Rightarrow> Inl BonusNotFound
      | Some row \<Rightarrow>
          if bn_status row \<noteq> ''active'' then Inr (False, b)
          else bind_result (take_back now (bonus_revoke_key bonus_id) row b) (\<lambda>(_, b1).
               bind_result (bank_commit b (update_bonus bonus_id (\<lambda>x. x\<lparr>bn_status := ''revoked''\<rparr>) b1)) (\<lambda>b2. Inr (True, b2))))"

text \<open>A goodwill grant by an admin; \<open>stamp\<close> is the clock's text in the key, \<open>0\<close> days mean no expiry.\<close>

definition grant_manual_bonus_admin ::
    "int \<Rightarrow> string \<Rightarrow> int \<Rightarrow> int \<Rightarrow> money \<Rightarrow> rat \<Rightarrow> int option \<Rightarrow> string \<Rightarrow> bank \<Rightarrow> (int \<times> bank) result" where
  "grant_manual_bonus_admin now stamp admin_id user_id amount wagering_multiplier expiry_days reason b =
     (let expires_at = (case expiry_days of None \<Rightarrow> None | Some n \<Rightarrow> if n = 0 then None else Some (now + hours_us (24 * n))) in
      bind_result (quantize_cent (dmul amount wagering_multiplier)) (\<lambda>wagering_required.
      bind_result (grant_bonus now user_id (manual_grant_key admin_id user_id stamp) amount wagering_required None None expires_at
          (Some admin_id) (Some reason) b) (\<lambda>(row, b1).
      bind_result (bank_commit b b1) (\<lambda>b2. Inr (bn_id row, b2)))))"

definition revoke_bonus_admin :: "int \<Rightarrow> int \<Rightarrow> bank \<Rightarrow> (bool \<times> bank) result" where
  "revoke_bonus_admin now bonus_id b = (case revoke_bonus now bonus_id b of Inl BonusNotFound \<Rightarrow> Inr (False, b) | r \<Rightarrow> r)"

subsection \<open>Rewards for a deposit\<close>

definition compute_reward_amount :: "bonus_rule \<Rightarrow> money \<Rightarrow> money result" where
  "compute_reward_amount rule deposit_amount =
     (if br_reward_type rule = ''flat'' then Inr (br_reward_amount rule)
      else bind_result (quantize_cent (ddiv (dmul deposit_amount (br_reward_percentage rule)) 100)) (\<lambda>amount.
        Inr (case br_reward_cap rule of None \<Rightarrow> amount | Some cap \<Rightarrow> min amount cap)))"

definition active_rule :: "int \<Rightarrow> string \<Rightarrow> bank \<Rightarrow> bonus_rule option" where
  "active_rule now trigger_type b =
     latest_by br_id (filter (\<lambda>r. br_trigger_type r = trigger_type \<and> br_is_active r
       \<and> (case br_starts_at r of None \<Rightarrow> True | Some s \<Rightarrow> s \<le> now) \<and> (case br_ends_at r of None \<Rightarrow> True | Some e \<Rightarrow> now \<le> e)) (bk_rules b))"

definition shares_a_payout_account :: "bank \<Rightarrow> int \<Rightarrow> int \<Rightarrow> bool" where
  "shares_a_payout_account b user_a user_b \<longleftrightarrow>
     (\<exists>x\<in>set (bk_methods b). \<exists>y\<in>set (bk_methods b). me_kind x = me_kind y \<and> me_account_ref x = me_account_ref y
        \<and> me_user x = user_a \<and> me_user y = user_b)"

definition expiry_from :: "int \<Rightarrow> int option \<Rightarrow> int option" where
  "expiry_from now days = map_option (\<lambda>n. now + hours_us (24 * n)) days"

definition grants_by_rule :: "bank \<Rightarrow> int \<Rightarrow> int \<Rightarrow> int" where
  "grants_by_rule b user_id rule_id = int (length (filter (\<lambda>x. bn_user x = user_id \<and> bn_rule x = Some rule_id) (bk_bonuses b)))"

definition maybe_grant_referral_bonus :: "int \<Rightarrow> int \<Rightarrow> money \<Rightarrow> bank \<Rightarrow> bank result" where
  "maybe_grant_referral_bonus now user_id deposit_amount b =
     (case Option.bind (profile_of b user_id) pf_referred_by of
        None \<Rightarrow> Inr b
      | Some referrer_id \<Rightarrow>
          if referrer_id = user_id then Inr b
          else if \<exists>x\<in>set (bk_bonuses b). bn_referral_of x = Some user_id then Inr b
          else (case active_rule now ''referral_reward'' b of
             None \<Rightarrow> Inr b
           | Some rule \<Rightarrow>
               if deposit_amount < br_min_qualifying_deposit rule then Inr b
               else if shares_a_payout_account b referrer_id user_id then Inr b
               else if br_max_grants_per_user rule \<le> grants_by_rule b referrer_id (br_id rule) then Inr b
               else bind_result (compute_reward_amount rule deposit_amount) (\<lambda>reward_amount.
                 if reward_amount \<le> 0 then Inr b
                 else bind_result (quantize_cent (dmul reward_amount (br_wagering_multiplier rule))) (\<lambda>wagering_required.
                   case grant_bonus now referrer_id (referral_key referrer_id user_id) reward_amount wagering_required (Some (br_id rule))
                       (Some user_id) (expiry_from now (br_expiry_days rule)) None (Some (''Referral reward for inviting user '' @ str_int user_id)) b of
                     Inl UniqueViolation \<Rightarrow> Inr b
                   | Inl x \<Rightarrow> Inl x
                   | Inr (_, b1) \<Rightarrow> Inr b1))))"

definition maybe_grant_welcome_bonus :: "int \<Rightarrow> int \<Rightarrow> money \<Rightarrow> bank \<Rightarrow> bank result" where
  "maybe_grant_welcome_bonus now user_id deposit_amount b =
     (case active_rule now ''welcome_bonus'' b of
        None \<Rightarrow> Inr b
      | Some rule \<Rightarrow>
          if deposit_amount < br_min_qualifying_deposit rule then Inr b
          else (let grants_so_far = grants_by_rule b user_id (br_id rule) in
            if br_max_grants_per_user rule \<le> grants_so_far then Inr b
            else bind_result (compute_reward_amount rule deposit_amount) (\<lambda>reward_amount.
              if reward_amount \<le> 0 then Inr b
              else bind_result (quantize_cent (dmul reward_amount (br_wagering_multiplier rule))) (\<lambda>wagering_required.
                bind_result (grant_bonus now user_id (welcome_key user_id (br_id rule) grants_so_far) reward_amount wagering_required
                    (Some (br_id rule)) None (expiry_from now (br_expiry_days rule)) None (Some ''Welcome bonus on first qualifying deposit'') b)
                  (\<lambda>(_, b1). Inr b1)))))"

text \<open>Both rewards, in the transaction that credits a deposit.\<close>

definition deposit_rewards :: "int \<Rightarrow> int \<Rightarrow> money \<Rightarrow> bank \<Rightarrow> bank result" where
  "deposit_rewards now user_id deposit_amount b =
     bind_result (maybe_grant_referral_bonus now user_id deposit_amount b) (maybe_grant_welcome_bonus now user_id deposit_amount)"

subsection \<open>Wagering\<close>

text \<open>Entries of the user's cash account since the grant in transactions of the two kinds, each with its transaction.\<close>

definition wager_rows :: "int \<Rightarrow> int \<Rightarrow> ledger \<Rightarrow> (entry_row \<times> ledger_txn) list" where
  "wager_rows user_id since l =
     concat (map (\<lambda>e. map (\<lambda>t. (e, t)) (filter (\<lambda>t. txn_id t = er_txn e \<and> (txn_kind t = ''stake'' \<or> txn_kind t = ''refund'')) (txns l)))
       (filter (\<lambda>e. since \<le> er_created_at e
           \<and> (\<exists>a\<in>set (accounts l). acc_id a = er_account e \<and> acc_user a = Some user_id \<and> acc_kind a = ''user_cash'')) (entry_rows l)))"

definition returns_a_stake_since :: "int \<Rightarrow> ledger \<Rightarrow> ledger_txn \<Rightarrow> int \<Rightarrow> bool" where
  "returns_a_stake_since since l t account \<longleftrightarrow>
     (\<exists>st\<in>set (txns l). \<exists>se\<in>set (entry_rows l). er_txn se = txn_id st \<and> er_account se = account
        \<and> txn_key st = stake_key_of_refund (txn_key t) \<and> txn_kind st = ''stake'' \<and> since \<le> er_created_at se)"

definition wagering_progress_for_user_since :: "int \<Rightarrow> int \<Rightarrow> ledger \<Rightarrow> money result" where
  "wagering_progress_for_user_since user_id since l =
     (let rows = wager_rows user_id since l in
      quantize_cent (sum_list (map (\<lambda>(e, t). - er_amount e) (filter (\<lambda>(e, t). txn_kind t = ''stake'') rows))
        - sum_list (map (\<lambda>(e, t). er_amount e)
            (filter (\<lambda>(e, t). txn_kind t = ''refund'' \<and> txn_round t \<noteq> None \<and> returns_a_stake_since since l t (er_account e)) rows))))"

text \<open>
  One row of the sweep: the progress is written and committed on its own, then the bonus is converted, or
  expired when its time is over. The row is as the sweep read it at its start.
\<close>

definition sweep_one_bonus :: "int \<Rightarrow> bonus \<Rightarrow> bank \<Rightarrow> unit result \<times> bank" where
  "sweep_one_bonus now row b =
     (case wagering_progress_for_user_since (bn_user row) (bn_created_at row) (bank_led b) of
        Inl x \<Rightarrow> (Inl x, b)
      | Inr progress \<Rightarrow>
          (case numeric18_2 progress of
             Inl x \<Rightarrow> (Inl x, b)
           | Inr stored \<Rightarrow>
               (let b1 = update_bonus (bn_id row) (\<lambda>x. x\<lparr>bn_wagering_progress := stored\<rparr>) b in
                if bn_wagering_required row \<le> progress then
                  (case convert_bonus_to_cash now (bn_id row) b1 of Inl x \<Rightarrow> (Inl x, b1) | Inr (_, b2) \<Rightarrow> (Inr (), b2))
                else (case bn_expires_at row of
                    None \<Rightarrow> (Inr (), b1)
                  | Some due \<Rightarrow>
                      if due \<le> now then (case expire_bonus now (bn_id row) b1 of Inl x \<Rightarrow> (Inl x, b1) | Inr (_, b2) \<Rightarrow> (Inr (), b2))
                      else (Inr (), b1)))))"

fun sweep_bonuses :: "int \<Rightarrow> bonus list \<Rightarrow> bank \<Rightarrow> unit result \<times> bank" where
  "sweep_bonuses now [] b = (Inr (), b)"
| "sweep_bonuses now (row # rows) b =
     (case sweep_one_bonus now row b of
        (Inl x, b1) \<Rightarrow> (Inl x, b1)
      | (Inr _, b1) \<Rightarrow> sweep_bonuses now rows b1)"

definition sweep_bonus_wagering :: "int \<Rightarrow> bank \<Rightarrow> unit result \<times> bank" where
  "sweep_bonus_wagering now b = sweep_bonuses now (filter (\<lambda>x. bn_status x = ''active'') (bk_bonuses b)) b"

end
