(* ===== verification/Deposits.thy ===== *)
theory Deposits
  imports Bonuses "HOL-Library.AList"
begin

text \<open>
  Deposits: requesting one, the crediting path that the webhook and the polling fallback share, and the
  comparison with the provider's report (\<open>services/payments/deposits.py\<close>); manual deposits
  (\<open>services/payments/manual.py\<close>) and their approval by admins (\<open>services/admin/queries.py\<close>). What the
  provider answers, and whether the rate limit lets a request through, are arguments.
\<close>

subsection \<open>The gates\<close>

definition check_deposit_rate_limit_and_minimum :: "bool \<Rightarrow> money \<Rightarrow> money \<Rightarrow> unit result" where
  "check_deposit_rate_limit_and_minimum allowed amount min_deposit =
     (if \<not> allowed then Inl (DepositRejected ''rate_limited'')
      else if amount < min_deposit then Inl (DepositRejected ''below_minimum'')
      else Inr ())"

definition COUNTED_DEPOSIT_STATUSES :: "string set" where
  "COUNTED_DEPOSIT_STATUSES = {''pending'', ''processing'', ''review'', ''approved'', ''succeeded''}"

definition deposited_today :: "int \<Rightarrow> int \<Rightarrow> bank \<Rightarrow> money" where
  "deposited_today now user_id b =
     sum_list (map pm_amount (filter (\<lambda>p. pm_user p = user_id \<and> pm_direction p = ''in'' \<and> pm_status p \<in> COUNTED_DEPOSIT_STATUSES
       \<and> day_start now \<le> pm_created_at p) (bk_payments b)))"

text \<open>The limits row is created on the way when the user has none; it is there even when the request is refused after.\<close>

definition check_deposit_eligibility :: "int \<Rightarrow> int \<Rightarrow> money \<Rightarrow> money \<Rightarrow> bank \<Rightarrow> unit result \<times> bank" where
  "check_deposit_eligibility now user_id amount daily_cap b =
     (case user_by_id (bk_db b) user_id of
        None \<Rightarrow> (Inl (DepositRejected ''unknown_user''), b)
      | Some u \<Rightarrow>
          if us_status u = ''self_excluded'' then (Inl (DepositRejected ''self_excluded''), b)
          else if us_status u = ''banned'' then (Inl (DepositRejected ''banned''), b)
          else (case get_or_create_limits user_id (bk_db b) of
              Inl x \<Rightarrow> (Inl x, b)
            | Inr (limits, d1) \<Rightarrow>
                (let b1 = b\<lparr>bk_db := d1\<rparr>;
                     effective_cap = (case effective_deposit_cap limits now of None \<Rightarrow> daily_cap | Some user_cap \<Rightarrow> min daily_cap user_cap) in
                 if (case cooloff_until limits of None \<Rightarrow> False | Some until \<Rightarrow> now < until) then (Inl (DepositRejected ''cooling_off''), b1)
                 else if effective_cap < deposited_today now user_id b1 + amount then (Inl (DepositRejected ''daily_cap''), b1)
                 else (Inr (), b1))))"

subsection \<open>Requesting a deposit\<close>

record deposit_intent =
  di_payment_id :: int
  di_our_ref :: string

text \<open>The row, before the provider is called; the limits row and the row commit on their own.\<close>

definition open_deposit :: "int \<Rightarrow> int \<Rightarrow> bool \<Rightarrow> string \<Rightarrow> int \<Rightarrow> money \<Rightarrow> money \<Rightarrow> money \<Rightarrow> bank \<Rightarrow> deposit_intent result \<times> bank" where
  "open_deposit now year allowed provider user_id amount min_deposit daily_cap b =
     (case check_deposit_rate_limit_and_minimum allowed amount min_deposit of
        Inl x \<Rightarrow> (Inl x, b)
      | Inr _ \<Rightarrow>
          (case check_deposit_eligibility now user_id amount daily_cap b of
             (Inl x, b1) \<Rightarrow> (Inl x, b1)
           | (Inr _, b1) \<Rightarrow>
               (let (our_ref, b2) = next_ref ''DEP'' year b1; row = new_payment now user_id ''in'' provider our_ref amount ''pending'' b2 in
                case insert_payment row b2 of
                  Inl x \<Rightarrow> (Inl x, b2)
                | Inr b3 \<Rightarrow> (Inr \<lparr>di_payment_id = pm_id row, di_our_ref = our_ref\<rparr>, b3))))"

text \<open>What the provider answers to the checkout: the text of its error, or its reference.\<close>

definition record_checkout :: "int \<Rightarrow> int \<Rightarrow> string + string \<Rightarrow> bank \<Rightarrow> bank" where
  "record_checkout now payment_id answer b =
     (case answer of
        Inl err \<Rightarrow> update_payment payment_id (\<lambda>p. p\<lparr>pm_status := ''failed'', pm_failure_reason := Some err, pm_updated_at := now\<rparr>) b
      | Inr provider_ref \<Rightarrow>
          update_payment payment_id (\<lambda>p. p\<lparr>pm_status := ''processing'', pm_provider_ref := Some provider_ref, pm_updated_at := now\<rparr>) b)"

definition create_deposit_intent ::
    "int \<Rightarrow> int \<Rightarrow> bool \<Rightarrow> string \<Rightarrow> (string \<Rightarrow> string + string) \<Rightarrow> int \<Rightarrow> money \<Rightarrow> money \<Rightarrow> money \<Rightarrow> bank \<Rightarrow> deposit_intent result \<times> bank" where
  "create_deposit_intent now year allowed provider checkout user_id amount min_deposit daily_cap b =
     (case open_deposit now year allowed provider user_id amount min_deposit daily_cap b of
        (Inl x, b1) \<Rightarrow> (Inl x, b1)
      | (Inr intent, b1) \<Rightarrow>
          (let answer = checkout (di_our_ref intent) in
           (case answer of Inl _ \<Rightarrow> Inl (DepositRejected ''provider_error'') | Inr _ \<Rightarrow> Inr intent,
            record_checkout now (di_payment_id intent) answer b1)))"

subsection \<open>Crediting\<close>

definition TERMINAL_FAILURE_STATUSES :: "string set" where
  "TERMINAL_FAILURE_STATUSES = {''failed'', ''cancelled''}"

definition credit_args :: "payment \<Rightarrow> int \<Rightarrow> int \<Rightarrow> post_args" where
  "credit_args p = transfer_args ''deposit'' (pm_amount p) (pm_our_ref p) (Some (pm_id p)) None ''system''"

definition credit_deposit :: "int \<Rightarrow> payment \<Rightarrow> bank \<Rightarrow> (ledger_txn \<times> bank) result" where
  "credit_deposit now p b = move_money now provider_owner (cash_owner (pm_user p)) (credit_args p) b"

definition apply_confirmed_status ::
    "int \<Rightarrow> string \<Rightarrow> string \<Rightarrow> string \<Rightarrow> string \<Rightarrow> money option \<Rightarrow> string \<Rightarrow> bank \<Rightarrow> (string \<times> bank) result" where
  "apply_confirmed_status now our_ref event_id provider_name status amount provider_ref b =
     (case payment_by_ref b our_ref of
        None \<Rightarrow> Inr (''not_found'', b)
      | Some payment \<Rightarrow>
          (let fresh = \<not> (\<exists>e\<in>set (bk_events b). pe_provider e = provider_name \<and> pe_event_id e = event_id);
               b1 = b\<lparr>bk_events := bk_events b @ [\<lparr>pe_payment = pm_id payment, pe_provider = provider_name, pe_event_id = event_id\<rparr>]\<rparr> in
           if \<not> fresh then Inr (''duplicate'', b)
           else if pm_status payment = ''succeeded'' then Inr (''duplicate'', b1)
           else if status \<noteq> ''succeeded'' then
             (if status \<notin> TERMINAL_FAILURE_STATUSES then Inr (''pending'', b1)
              else Inr (''not_succeeded'', update_payment (pm_id payment) (\<lambda>p. p\<lparr>pm_status := status, pm_updated_at := now\<rparr>) b1))
           else if amount \<noteq> Some (pm_amount payment) then
             Inr (''amount_mismatch'', update_payment (pm_id payment) (\<lambda>p. p\<lparr>pm_status := ''review'', pm_updated_at := now\<rparr>) b1)
           else bind_result (credit_deposit now payment b1) (\<lambda>(txn, b2).
             bind_result (deposit_rewards now (pm_user payment) (pm_amount payment)
               (update_payment (pm_id payment) (\<lambda>p. p\<lparr>pm_status := ''succeeded'', pm_provider_ref := Some provider_ref,
                  pm_ledger_txn := Some (txn_id txn), pm_updated_at := now\<rparr>) b2)) (\<lambda>b3.
             bind_result (bank_commit b b3) (\<lambda>b4. Inr (''credited'', b4))))))"

text \<open>What a provider says of a reference; an event carries it with the reference and an id of its own.\<close>

record status_result =
  sr_status :: string
  sr_amount :: "money option"
  sr_provider_ref :: "string option"

record verified_event =
  ve_event_id :: string
  ve_our_ref :: string
  ve_status :: string
  ve_amount :: money
  ve_provider_ref :: string

definition handle_webhook :: "int \<Rightarrow> string \<Rightarrow> verified_event result \<Rightarrow> bank \<Rightarrow> (string \<times> bank) result" where
  "handle_webhook now provider_name verified b =
     bind_result verified (\<lambda>event. apply_confirmed_status now (ve_our_ref event) (ve_event_id event) provider_name (ve_status event)
       (Some (ve_amount event)) (ve_provider_ref event) b)"

fun poll_rows :: "int \<Rightarrow> string \<Rightarrow> (string \<Rightarrow> status_result result) \<Rightarrow> string list \<Rightarrow> int \<Rightarrow> bank \<Rightarrow> int result \<times> bank" where
  "poll_rows now provider_name fetch_status [] credited b = (Inr credited, b)"
| "poll_rows now provider_name fetch_status (our_ref # refs) credited b =
     (case fetch_status our_ref of
        Inl x \<Rightarrow> (Inl x, b)
      | Inr r \<Rightarrow>
          (case apply_confirmed_status now our_ref (''poll:'' @ our_ref @ '':'' @ sr_status r) provider_name (sr_status r) (sr_amount r)
              (case sr_provider_ref r of None \<Rightarrow> our_ref | Some p \<Rightarrow> if p = [] then our_ref else p) b of
             Inl x \<Rightarrow> (Inl x, b)
           | Inr (outcome, b1) \<Rightarrow>
               poll_rows now provider_name fetch_status refs (if outcome = ''credited'' then credited + 1 else credited) b1))"

definition seconds_us :: "int \<Rightarrow> int" where "seconds_us s = s * 1000000"

definition poll_pending_deposits :: "int \<Rightarrow> string \<Rightarrow> (string \<Rightarrow> status_result result) \<Rightarrow> int \<Rightarrow> bank \<Rightarrow> int result \<times> bank" where
  "poll_pending_deposits now provider_name fetch_status older_than_seconds b =
     poll_rows now provider_name fetch_status (map pm_our_ref (filter (\<lambda>p. pm_direction p = ''in'' \<and> pm_status p = ''processing''
       \<and> pm_provider p = provider_name \<and> pm_updated_at p < now - seconds_us older_than_seconds) (bk_payments b))) 0 b"

subsection \<open>Comparison with the provider's report\<close>

record settlement_record =
  st_our_ref :: string
  st_amount :: money
  st_status :: string

datatype mismatch =
    MissingFromProviderReport string string money
  | StatusDisagreement string string money string money
  | AmountDisagreement string string money string money
  | MissingFromOurRecords string string money

text \<open>The report as a dictionary by reference (of two rows with one reference the last counts, in the place of the first).\<close>

definition report_by_ref :: "settlement_record list \<Rightarrow> (string \<times> settlement_record) list" where
  "report_by_ref report = fold (\<lambda>r m. AList.update (st_our_ref r) r m) report []"

text \<open>Our payments are triples of reference, status and amount.\<close>

fun match_payments :: "(string \<times> string \<times> money) list \<Rightarrow> (string \<times> settlement_record) list \<Rightarrow> mismatch list \<times> (string \<times> settlement_record) list" where
  "match_payments [] m = ([], m)"
| "match_payments ((r, s, a) # ps) m =
     (let (rest, left) = match_payments ps (AList.delete r m) in
      case map_of m r of
        None \<Rightarrow> (if s = ''succeeded'' then MissingFromProviderReport r s a # rest else rest, left)
      | Some row \<Rightarrow>
          (if (st_status row = ''succeeded'') \<noteq> (s = ''succeeded'') then StatusDisagreement r s a (st_status row) (st_amount row) # rest
           else if st_status row = ''succeeded'' \<and> st_amount row \<noteq> a then AmountDisagreement r s a (st_status row) (st_amount row) # rest
           else rest, left))"

definition reconcile_payments :: "(string \<times> string \<times> money) list \<Rightarrow> settlement_record list \<Rightarrow> mismatch list" where
  "reconcile_payments our_payments provider_report =
     (let (mismatches, left) = match_payments our_payments (report_by_ref provider_report) in
      mismatches @ map (\<lambda>(r, row). MissingFromOurRecords r (st_status row) (st_amount row)) (filter (\<lambda>(r, row). st_status row = ''succeeded'') left))"

fun fetch_report :: "(string \<Rightarrow> status_result result) \<Rightarrow> string list \<Rightarrow> settlement_record list result" where
  "fetch_report fetch_status [] = Inr []"
| "fetch_report fetch_status (r # refs) =
     bind_result (fetch_status r) (\<lambda>res. bind_result (fetch_report fetch_status refs) (\<lambda>rows.
       Inr (case sr_amount res of None \<Rightarrow> rows | Some a \<Rightarrow> \<lparr>st_our_ref = r, st_amount = a, st_status = sr_status res\<rparr> # rows)))"

definition run_provider_reconciliation :: "int \<Rightarrow> string \<Rightarrow> (string \<Rightarrow> status_result result) \<Rightarrow> int \<Rightarrow> bank \<Rightarrow> mismatch list result" where
  "run_provider_reconciliation now provider_name fetch_status since_hours b =
     (let rows = filter (\<lambda>p. pm_direction p = ''in'' \<and> pm_provider p = provider_name \<and> now - hours_us since_hours < pm_updated_at p) (bk_payments b) in
      bind_result (fetch_report fetch_status (map pm_our_ref rows)) (\<lambda>report.
        Inr (reconcile_payments (map (\<lambda>p. (pm_our_ref p, pm_status p, pm_amount p)) rows) report)))"

subsection \<open>Manual deposits\<close>

text \<open>One transaction: a refusal undoes the limits row too, but not the number taken from the sequence.\<close>

definition create_manual_deposit_request ::
    "int \<Rightarrow> int \<Rightarrow> bool \<Rightarrow> int \<Rightarrow> money \<Rightarrow> int \<Rightarrow> string \<Rightarrow> string option \<Rightarrow> money \<Rightarrow> money \<Rightarrow> bank \<Rightarrow> deposit_intent result \<times> bank" where
  "create_manual_deposit_request now year allowed user_id amount manual_destination_id external_reference receipt min_deposit daily_cap b =
     (case check_deposit_rate_limit_and_minimum allowed amount min_deposit of
        Inl x \<Rightarrow> (Inl x, b)
      | Inr _ \<Rightarrow>
          (case check_deposit_eligibility now user_id amount daily_cap b of
             (Inl x, _) \<Rightarrow> (Inl x, b)
           | (Inr _, b1) \<Rightarrow>
               if \<not> (\<exists>ds\<in>set (bk_destinations b1). ds_id ds = manual_destination_id \<and> ds_is_active ds)
               then (Inl (DepositRejected ''unknown_manual_destination''), b)
               else (let (our_ref, b2) = next_ref ''DEP'' year b1;
                         row = (new_payment now user_id ''in'' ''manual'' our_ref amount ''review'' b2)\<lparr>pm_destination := Some manual_destination_id,
                           pm_provider_ref := Some external_reference, pm_receipt := receipt\<rparr> in
                 case insert_payment row b2 of
                   Inl x \<Rightarrow> (Inl x, b\<lparr>bk_ref_seq := bk_ref_seq b2\<rparr>)
                 | Inr b3 \<Rightarrow> (Inr \<lparr>di_payment_id = pm_id row, di_our_ref = our_ref\<rparr>, b3))))"

definition attach_receipt_to_latest_pending_deposit :: "int \<Rightarrow> int \<Rightarrow> string \<Rightarrow> bank \<Rightarrow> int option \<times> bank" where
  "attach_receipt_to_latest_pending_deposit now user_id telegram_file_id b =
     (case latest_by pm_created_at (filter (\<lambda>p. pm_user p = user_id \<and> pm_direction p = ''in'' \<and> pm_provider p = ''manual''
         \<and> pm_status p = ''review'' \<and> pm_receipt p = None) (bk_payments b)) of
        None \<Rightarrow> (None, b)
      | Some p \<Rightarrow> (Some (pm_id p),
          update_payment (pm_id p) (\<lambda>p. p\<lparr>pm_receipt := Some telegram_file_id, pm_updated_at := now\<rparr>) b))"

subsection \<open>Two admins\<close>

text \<open>The gate's verdict: an outcome to return at once, or \<open>None\<close> to go on. A first approval is recorded.\<close>

definition apply_two_person_gate :: "payment option \<Rightarrow> int \<Rightarrow> int \<Rightarrow> money \<Rightarrow> bank \<Rightarrow> (string option \<times> bank) result" where
  "apply_two_person_gate row admin_id payment_id two_person_threshold b =
     (case row of
        None \<Rightarrow> Inr (Some ''no_op'', b)
      | Some p \<Rightarrow>
          if pm_status p \<noteq> ''review'' then Inr (Some ''no_op'', b)
          else if two_person_threshold \<le> pm_amount p then
            (case pm_first_approver p of
               None \<Rightarrow> Inr (Some ''awaiting_second_approval'', update_payment payment_id (\<lambda>p. p\<lparr>pm_first_approver := Some admin_id\<rparr>) b)
             | Some first \<Rightarrow> if first = admin_id then Inl SameAdminCannotProvideSecondApproval else Inr (None, b))
          else Inr (None, b))"

definition manual_payment :: "bank \<Rightarrow> int \<Rightarrow> string \<Rightarrow> payment option" where
  "manual_payment b payment_id direction =
     find (\<lambda>p. pm_id p = payment_id \<and> pm_direction p = direction \<and> pm_provider p = ''manual'') (bk_payments b)"

definition approve_manual_deposit_admin :: "int \<Rightarrow> int \<Rightarrow> int \<Rightarrow> money \<Rightarrow> bank \<Rightarrow> (string \<times> bank) result" where
  "approve_manual_deposit_admin now admin_id payment_id two_person_threshold b =
     (let row = manual_payment b payment_id ''in'' in
      bind_result (apply_two_person_gate row admin_id payment_id two_person_threshold b) (\<lambda>(gate_outcome, b1).
        case gate_outcome of
          Some outcome \<Rightarrow> Inr (outcome, b1)
        | None \<Rightarrow>
            (case row of
               None \<Rightarrow> Inl AssertionError
             | Some p \<Rightarrow>
                 bind_result (credit_deposit now p b1) (\<lambda>(txn, b2).
                 bind_result (deposit_rewards now (pm_user p) (pm_amount p)
                   (update_payment payment_id (\<lambda>p. p\<lparr>pm_status := ''succeeded'', pm_ledger_txn := Some (txn_id txn), pm_updated_at := now\<rparr>) b2)) (\<lambda>b3.
                 bind_result (bank_commit b b3) (\<lambda>b4. Inr (''credited'', b4)))))))"

definition reject_manual_deposit_admin :: "int \<Rightarrow> int \<Rightarrow> string \<Rightarrow> bank \<Rightarrow> bool \<times> bank" where
  "reject_manual_deposit_admin now payment_id reason b =
     (case manual_payment b payment_id ''in'' of
        None \<Rightarrow> (False, b)
      | Some p \<Rightarrow>
          if pm_status p \<noteq> ''review'' then (False, b)
          else (True, update_payment payment_id (\<lambda>p. p\<lparr>pm_status := ''rejected'', pm_failure_reason := Some reason, pm_updated_at := now\<rparr>) b))"

end
