(* ===== verification/Text_Match.thy ===== *)
theory Text_Match
  imports Responsible_Gaming
begin

text \<open>
  The part of Python's \<open>re\<close> the program uses, as a backtracking matcher: single characters of a class, greedy
  and lazy repetitions of a class, optional groups, word boundaries and the marks of a capturing group.
  A pattern is a list of items; a position is the text before it, backwards, and the text after it. The
  successes come in the order in which \<open>re\<close> tries them, so the first one is the match. Texts are ASCII.
\<close>

datatype item =
    One "char \<Rightarrow> bool"
  | Rep bool "char \<Rightarrow> bool" nat "nat option"
  | Opt "item list"
  | Mark
  | Boundary

type_synonym pattern_items = "item list"

subsection \<open>Characters\<close>

definition is_alpha :: "char \<Rightarrow> bool" where
  "is_alpha c = (let n = of_char c :: nat in 65 \<le> n \<and> n \<le> 90 \<or> 97 \<le> n \<and> n \<le> 122)"

definition is_alnum :: "char \<Rightarrow> bool" where
  "is_alnum c \<longleftrightarrow> is_alpha c \<or> is_digit c"

definition is_word :: "char \<Rightarrow> bool" where
  "is_word c \<longleftrightarrow> is_alnum c \<or> c = CHR ''_''"

definition not_newline :: "char \<Rightarrow> bool" where
  "not_newline c \<longleftrightarrow> (of_char c :: nat) \<noteq> 10"

definition upper_char :: "char \<Rightarrow> char" where
  "upper_char c = (let n = of_char c :: nat in if 97 \<le> n \<and> n \<le> 122 then char_of (n - 32) else c)"

definition upper :: "string \<Rightarrow> string" where "upper = map upper_char"
definition lower :: "string \<Rightarrow> string" where "lower = map lower_char"

definition strip :: "string \<Rightarrow> string" where
  "strip s = rev (dropWhile is_space (rev (dropWhile is_space s)))"

text \<open>A literal under \<open>re.IGNORECASE\<close>, and one exactly.\<close>

definition word_ci :: "string \<Rightarrow> item list" where
  "word_ci s = map (\<lambda>c. One (\<lambda>x. lower_char x = lower_char c)) s"

definition word :: "string \<Rightarrow> item list" where
  "word s = map (\<lambda>c. One (\<lambda>x. x = c)) s"

abbreviation spaces1 :: item where "spaces1 \<equiv> Rep False is_space 1 None"
abbreviation spaces0 :: item where "spaces0 \<equiv> Rep False is_space 0 None"

subsection \<open>Matching\<close>

definition boundary_at :: "string \<Rightarrow> string \<Rightarrow> bool" where
  "boundary_at left right \<longleftrightarrow>
     (case left of [] \<Rightarrow> False | c # _ \<Rightarrow> is_word c) \<noteq> (case right of [] \<Rightarrow> False | c # _ \<Rightarrow> is_word c)"

text \<open>How many characters a repetition may take, in the order they are tried.\<close>

definition rep_counts :: "bool \<Rightarrow> (char \<Rightarrow> bool) \<Rightarrow> nat \<Rightarrow> nat option \<Rightarrow> string \<Rightarrow> nat list" where
  "rep_counts lazy P lo hi right =
     (let n = length (takeWhile P right); top = (case hi of None \<Rightarrow> n | Some h \<Rightarrow> min h n); ks = [lo..<Suc top]
      in if lazy then ks else rev ks)"

fun item_size :: "item \<Rightarrow> nat" where
  "item_size (Opt xs) = Suc (sum_list (map item_size xs))"
| "item_size _ = 1"

text \<open>Each success is the list of its marks, a mark being how many characters came before it.\<close>

function matches :: "item list \<Rightarrow> string \<Rightarrow> string \<Rightarrow> nat list list" where
  "matches [] left right = [[]]"
| "matches (One P # r) left [] = []"
| "matches (One P # r) left (c # right) = (if P c then matches r (c # left) right else [])"
| "matches (Rep lazy P lo hi # r) left right =
     concat (map (\<lambda>k. matches r (rev (take k right) @ left) (drop k right)) (rep_counts lazy P lo hi right))"
| "matches (Opt xs # r) left right = matches (xs @ r) left right @ matches r left right"
| "matches (Mark # r) left right = map ((#) (length left)) (matches r left right)"
| "matches (Boundary # r) left right = (if boundary_at left right then matches r left right else [])"
  by pat_completeness auto
termination by (relation "measure (\<lambda>(r, _, _). sum_list (map item_size r))") auto

text \<open>\<open>re.search\<close>: the first position where the pattern matches.\<close>

fun search_from :: "item list \<Rightarrow> string \<Rightarrow> string \<Rightarrow> nat list option" where
  "search_from r left [] = (case matches r left [] of [] \<Rightarrow> None | m # _ \<Rightarrow> Some m)"
| "search_from r left (c # right) =
     (case matches r left (c # right) of [] \<Rightarrow> search_from r (c # left) right | m # _ \<Rightarrow> Some m)"

definition search :: "item list \<Rightarrow> string \<Rightarrow> nat list option" where
  "search r text = search_from r [] text"

definition slice :: "string \<Rightarrow> nat \<Rightarrow> nat \<Rightarrow> string" where
  "slice text i j = take (j - i) (drop i text)"

text \<open>The \<open>n\<close>-th group of a match, counted from zero.\<close>

definition group :: "string \<Rightarrow> nat list \<Rightarrow> nat \<Rightarrow> string" where
  "group text m n = slice text (m ! (2 * n)) (m ! Suc (2 * n))"

subsection \<open>Facts\<close>

lemma rep_counts_mem:
  assumes "k \<in> set (rep_counts lazy P lo hi right)"
  shows "lo \<le> k" "\<forall>c\<in>set (take k right). P c" "k \<le> length right" "\<And>h. hi = Some h \<Longrightarrow> k \<le> h"
proof -
  have k: "lo \<le> k" "k \<le> length (takeWhile P right)" "\<And>h. hi = Some h \<Longrightarrow> k \<le> h"
    using assms by (auto simp: rep_counts_def Let_def split: if_splits option.splits)
  then show "lo \<le> k" "\<And>h. hi = Some h \<Longrightarrow> k \<le> h" by simp_all
  show "k \<le> length right" using k(2) length_takeWhile_le order_trans by blast
  have "take k right = take k (takeWhile P right)" using k(2) by (metis takeWhile_eq_take take_take min_absorb1)
  then show "\<forall>c\<in>set (take k right). P c" using set_takeWhileD by (metis in_set_takeD)
qed

text \<open>A match splits where its pattern does.\<close>

lemma matches_append:
  assumes "ps \<in> set (matches (r @ s) left right)"
  shows "\<exists>qs k rs. k \<le> length right \<and> ps = qs @ rs \<and> qs \<in> set (matches r left right)
    \<and> rs \<in> set (matches s (rev (take k right) @ left) (drop k right))"
  using assms
proof (induction r left right arbitrary: ps rule: matches.induct)
  case (1 left right)
  then show ?case by (intro exI [of _ "[]"] exI [of _ 0] exI [of _ ps]) simp
next
  case (3 P r left c right)
  then have pc: "P c" "ps \<in> set (matches (r @ s) (c # left) right)" by (auto split: if_splits)
  from "3.IH" [OF this] obtain qs k rs where "k \<le> length right" "ps = qs @ rs" "qs \<in> set (matches r (c # left) right)"
      "rs \<in> set (matches s (rev (take k right) @ c # left) (drop k right))" by blast
  then show ?case using pc(1) by (intro exI [of _ qs] exI [of _ "Suc k"] exI [of _ rs]) simp
next
  case (4 lazy P lo hi r left right)
  then obtain j where j: "j \<in> set (rep_counts lazy P lo hi right)" "ps \<in> set (matches (r @ s) (rev (take j right) @ left) (drop j right))"
    by auto
  from "4.IH" [OF this] obtain qs k rs where k: "k \<le> length (drop j right)" "ps = qs @ rs"
      "qs \<in> set (matches r (rev (take j right) @ left) (drop j right))"
      "rs \<in> set (matches s (rev (take k (drop j right)) @ rev (take j right) @ left) (drop k (drop j right)))" by blast
  have jl: "j \<le> length right" using rep_counts_mem(3) [OF j(1)] .
  have "rev (take k (drop j right)) @ rev (take j right) = rev (take (j + k) right)" by (simp add: take_add)
  then have rs: "rs \<in> set (matches s (rev (take (j + k) right) @ left) (drop (j + k) right))"
    using k(4) by (metis append_assoc add.commute drop_drop)
  show ?case
    by (intro exI [of _ qs] exI [of _ "j + k"] exI [of _ rs] conjI rs k(2)) (use k(1,3) j(1) jl in auto)
next
  case (5 xs r left right)
  have ih: "\<exists>qs k rs. k \<le> length right \<and> ps = qs @ rs \<and> qs \<in> set (matches (xs @ r) left right)
      \<and> rs \<in> set (matches s (rev (take k right) @ left) (drop k right))" if "ps \<in> set (matches (xs @ r @ s) left right)"
    using "5.IH"(1) [of ps] that by simp
  have ih2: "\<exists>qs k rs. k \<le> length right \<and> ps = qs @ rs \<and> qs \<in> set (matches r left right)
      \<and> rs \<in> set (matches s (rev (take k right) @ left) (drop k right))" if "ps \<in> set (matches (r @ s) left right)"
    using "5.IH"(2) that by blast
  have "ps \<in> set (matches (xs @ r @ s) left right) \<or> ps \<in> set (matches (r @ s) left right)" using "5.prems" by simp
  then show ?case
  proof
    assume "ps \<in> set (matches (xs @ r @ s) left right)"
    from ih [OF this] show ?thesis by (elim exE conjE) (intro exI conjI, assumption+, simp, assumption)
  next
    assume "ps \<in> set (matches (r @ s) left right)"
    from ih2 [OF this] show ?thesis by (elim exE conjE) (intro exI conjI, assumption+, simp, assumption)
  qed
next
  case (6 r left right)
  then obtain qs' where "ps = length left # qs'" "qs' \<in> set (matches (r @ s) left right)" by auto
  from "6.IH" [OF this(2)] this(1) show ?case by (metis append_Cons image_eqI list.set_map matches.simps(6))
next
  case (7 r left right)
  then show ?case by (auto split: if_splits)
qed simp

end
