(* ===== verification/Telebirr_Parser.thy ===== *)
theory Telebirr_Parser
  imports Bank Text_Match
begin

text \<open>
  The parser of Telebirr's confirmation messages, \<open>services/payments/telebirr_parser.py\<close>: the patterns item by
  item as the source writes them, and the two templates. Messages are ASCII, on which NFKC normalization
  does nothing. A parse is \<open>Inr\<close> the evidence or \<open>Inl\<close> the reason of the failure; a time is in microseconds.
\<close>

definition PARSER_VERSION :: string where "PARSER_VERSION = ''telebirr-v2-received-and-transferred''"

subsection \<open>The patterns\<close>

definition MASKED_PHONE :: "item list" where
  "MASKED_PHONE = [Rep False is_digit 4 (Some 4), Rep False (\<lambda>c. c = CHR ''*'') 4 (Some 4), Rep False is_digit 4 (Some 4)]"

definition name_char :: "char \<Rightarrow> bool" where
  "name_char c \<longleftrightarrow> is_alpha c \<or> c \<in> {CHR ''.'', CHR ''-'', char_of (39 :: nat), CHR '' ''}"

definition NAME :: "item list" where
  "NAME = [One is_alpha, Rep True name_char 0 None]"

definition AMOUNT :: "item list" where
  "AMOUNT = [Rep False is_digit 1 None, Opt [One (\<lambda>c. c = CHR ''.''), Rep False is_digit 1 (Some 2)]]"

definition GREETING_RE :: "item list" where
  "GREETING_RE = word_ci ''Dear'' @ [spaces1, Mark, Rep True not_newline 1 None, Mark, spaces1] @ word_ci ''You have'' @ [Boundary]"

definition RECEIVED_AMOUNT_RE :: "item list" where
  "RECEIVED_AMOUNT_RE = word_ci ''received'' @ [spaces1] @ word_ci ''ETB'' @ [spaces0, Mark] @ AMOUNT @ [Mark]"

definition TRANSFERRED_AMOUNT_RE :: "item list" where
  "TRANSFERRED_AMOUNT_RE = word_ci ''transferred'' @ [spaces1] @ word_ci ''ETB'' @ [spaces0, Mark] @ AMOUNT @ [Mark]"

definition party_re :: "string \<Rightarrow> item list" where
  "party_re anchor = word_ci anchor @ [spaces1, Mark] @ NAME @ [Mark, spaces0] @ word ''('' @ [Mark] @ MASKED_PHONE @ [Mark] @ word '')''"

definition RECEIVED_SENDER_RE :: "item list" where "RECEIVED_SENDER_RE = party_re ''from''"
definition TRANSFERRED_RECIPIENT_RE :: "item list" where "TRANSFERRED_RECIPIENT_RE = party_re ''to''"

definition digits_group :: "nat \<Rightarrow> item list" where
  "digits_group n = [Mark, Rep False is_digit n (Some n), Mark]"

definition DATETIME_RE :: "item list" where
  "DATETIME_RE = [Boundary] @ word ''on'' @ [spaces1] @ digits_group 2 @ word ''/'' @ digits_group 2 @ word ''/'' @ digits_group 4
     @ [spaces1] @ digits_group 2 @ word '':'' @ digits_group 2 @ word '':'' @ digits_group 2"

definition REFERENCE_RE :: "item list" where
  "REFERENCE_RE = word_ci ''transaction number is'' @ [spaces1, Mark, Rep False is_alnum 6 (Some 20), Mark]"

definition FEE_RE :: "item list" where
  "FEE_RE = word_ci ''service fee is'' @ [spaces1] @ word_ci ''ETB'' @ [spaces0, Mark] @ AMOUNT @ [Mark]"

definition VAT_RE :: "item list" where
  "VAT_RE = word_ci ''VAT on the service fee is'' @ [spaces1] @ word_ci ''ETB'' @ [spaces0, Mark] @ AMOUNT @ [Mark]"

definition RECEIPT_URL_RE :: "item list" where
  "RECEIPT_URL_RE = [Mark] @ word ''http'' @ [Opt (word ''s'')] @ word ''://'' @ [Rep False (\<lambda>c. \<not> is_space c) 1 None, Mark]"

definition TRUSTED_RECEIPT_DOMAIN :: string where "TRUSTED_RECEIPT_DOMAIN = ''ethiotelecom.et''"

subsection \<open>Normalization\<close>

definition is_line_end :: "char \<Rightarrow> bool" where
  "is_line_end c = (of_char c \<in> {10, 11, 12, 13, 28, 29, 30, 133 :: nat})"

text \<open>\<open>str.splitlines()\<close>: a carriage return and a line feed end one line together, and nothing follows the last end.\<close>

fun split_lines :: "string \<Rightarrow> string \<Rightarrow> string list" where
  "split_lines [] w = (if w = [] then [] else [rev w])"
| "split_lines (c # cs) w =
     (if of_char c = (13 :: nat) \<and> cs \<noteq> [] \<and> of_char (hd cs) = (10 :: nat) then rev w # split_lines (tl cs) []
      else if is_line_end c then rev w # split_lines cs []
      else split_lines cs (c # w))"

text \<open>\<open>re.sub(r"\s+", " ", line)\<close>\<close>

fun collapse_spaces :: "bool \<Rightarrow> string \<Rightarrow> string" where
  "collapse_spaces in_space [] = []"
| "collapse_spaces in_space (c # cs) =
     (if is_space c then (if in_space then collapse_spaces True cs else CHR '' '' # collapse_spaces True cs)
      else c # collapse_spaces False cs)"

fun join_lines :: "string list \<Rightarrow> string" where
  "join_lines [] = []"
| "join_lines [x] = x"
| "join_lines (x # xs) = x @ [char_of (10 :: nat)] @ join_lines xs"

definition normalize_whitespace :: "string \<Rightarrow> string" where
  "normalize_whitespace raw = join_lines (map (\<lambda>line. strip (collapse_spaces False line)) (split_lines raw []))"

definition normalize_reference :: "string \<Rightarrow> string" where
  "normalize_reference raw = upper (strip raw)"

definition extract_reference :: "string \<Rightarrow> string option" where
  "extract_reference raw = map_option (\<lambda>m. normalize_reference (group raw m 0)) (search REFERENCE_RE raw)"

subsection \<open>Fields\<close>

definition is_leap :: "int \<Rightarrow> bool" where
  "is_leap y \<longleftrightarrow> y mod 4 = 0 \<and> (y mod 100 \<noteq> 0 \<or> y mod 400 = 0)"

definition days_in_month :: "int \<Rightarrow> int \<Rightarrow> int" where
  "days_in_month y m = (if m = 2 then (if is_leap y then 29 else 28) else if m \<in> {4, 6, 9, 11} then 30 else 31)"

text \<open>Days since the first of January 1970.\<close>

definition days_from_epoch :: "int \<Rightarrow> int \<Rightarrow> int \<Rightarrow> int" where
  "days_from_epoch y m d =
     365 * (y - 1) + (y - 1) div 4 - (y - 1) div 100 + (y - 1) div 400 + sum_list (map (days_in_month y) [1..m - 1]) + d - 719163"

definition parse_datetime :: "string \<Rightarrow> string + int" where
  "parse_datetime text =
     (case search DATETIME_RE text of
        None \<Rightarrow> Inl ''transaction_datetime_not_found''
      | Some m \<Rightarrow>
          (let v = (\<lambda>n. digits_value (group text m n)); day = v 0; month = v 1; year = v 2; hour = v 3; minute = v 4; second = v 5 in
           if 1 \<le> year \<and> 1 \<le> month \<and> month \<le> 12 \<and> 1 \<le> day \<and> day \<le> days_in_month year month \<and> hour < 24 \<and> minute < 60 \<and> second < 60
           then Inr ((((days_from_epoch year month day * 24 + hour - 3) * 60 + minute) * 60 + second) * 1000000)
           else Inl ''transaction_datetime_invalid''))"

definition parse_reference :: "string \<Rightarrow> string + string \<times> string" where
  "parse_reference text =
     (case search REFERENCE_RE text of
        None \<Rightarrow> Inl ''reference_not_found''
      | Some m \<Rightarrow> (let raw_reference = group text m 0 in Inr (raw_reference, normalize_reference raw_reference)))"

definition contains :: "string \<Rightarrow> string \<Rightarrow> bool" where
  "contains sub text \<longleftrightarrow> search (word sub) text \<noteq> None"

definition parse_receipt_url :: "string \<Rightarrow> string + string option" where
  "parse_receipt_url text =
     (case search RECEIPT_URL_RE text of
        None \<Rightarrow> Inr None
      | Some m \<Rightarrow>
          (let url = rev (dropWhile (\<lambda>c. c = CHR ''.'') (rev (group text m 0))) in
           if contains TRUSTED_RECEIPT_DOMAIN (lower url) then Inr (Some url) else Inl ''receipt_url_untrusted_domain''))"

text \<open>\<open>Decimal\<close> of digits with at most one point.\<close>

definition decimal_value :: "string \<Rightarrow> rat" where
  "decimal_value s =
     (let whole = takeWhile is_digit s; frac = drop 1 (dropWhile is_digit s) in
      of_int (digits_value whole) + of_int (digits_value frac) / 10 ^ length frac)"

definition parse_decimal :: "string \<Rightarrow> item list \<Rightarrow> string \<Rightarrow> string + money" where
  "parse_decimal text pattern failure_reason =
     (case search pattern text of None \<Rightarrow> Inl failure_reason | Some m \<Rightarrow> Inr (decimal_value (group text m 0)))"

text \<open>The name and the phone of the other party, and the name of the greeting.\<close>

definition parse_party :: "string \<Rightarrow> item list \<Rightarrow> string \<Rightarrow> string \<Rightarrow> string + string \<times> string" where
  "parse_party text pattern missing nameless =
     (case search pattern text of
        None \<Rightarrow> Inl missing
      | Some m \<Rightarrow> (let name = strip (group text m 0) in if name = [] then Inl nameless else Inr (name, group text m 1)))"

definition parse_greeting :: "string \<Rightarrow> string \<Rightarrow> string \<Rightarrow> string + string" where
  "parse_greeting text missing nameless =
     (case search GREETING_RE text of
        None \<Rightarrow> Inl missing
      | Some m \<Rightarrow> (let name = strip (group text m 0) in if name = [] then Inl nameless else Inr name))"

definition parse_optional :: "string \<Rightarrow> item list \<Rightarrow> string \<Rightarrow> string + money option" where
  "parse_optional text pattern failure_reason =
     (if search pattern text = None then Inr None else bind_result (parse_decimal text pattern failure_reason) (\<lambda>v. Inr (Some v)))"

subsection \<open>The two templates\<close>

definition parse_received :: "string \<Rightarrow> string + parsed_evidence" where
  "parse_received text =
     bind_result (parse_decimal text RECEIVED_AMOUNT_RE ''amount_not_found'') (\<lambda>amount.
     if amount \<le> 0 then Inl ''amount_not_positive''
     else bind_result (parse_party text RECEIVED_SENDER_RE ''sender_not_found'' ''sender_name_empty'') (\<lambda>(payer_name, payer_phone).
     bind_result (parse_reference text) (\<lambda>(raw_reference, external_reference).
     bind_result (parse_greeting text ''recipient_greeting_not_found'' ''recipient_greeting_empty'') (\<lambda>recipient_name.
     bind_result (parse_datetime text) (\<lambda>transaction_at.
       Inr \<lparr>pv_external_reference = external_reference, pv_raw_reference = raw_reference, pv_amount = amount, pv_fee = None,
            pv_vat = None, pv_payer_name = payer_name, pv_payer_phone = Some payer_phone, pv_recipient_name = recipient_name,
            pv_recipient_phone = None, pv_receipt_url = None, pv_transaction_at = transaction_at, pv_direction = ''received''\<rparr>)))))"

definition parse_transferred :: "string \<Rightarrow> string + parsed_evidence" where
  "parse_transferred text =
     bind_result (parse_decimal text TRANSFERRED_AMOUNT_RE ''amount_not_found'') (\<lambda>amount.
     if amount \<le> 0 then Inl ''amount_not_positive''
     else bind_result (parse_party text TRANSFERRED_RECIPIENT_RE ''recipient_not_found'' ''recipient_name_empty'') (\<lambda>(recipient_name, recipient_phone).
     bind_result (parse_reference text) (\<lambda>(raw_reference, external_reference).
     bind_result (parse_greeting text ''payer_greeting_not_found'' ''payer_greeting_empty'') (\<lambda>payer_name.
     bind_result (parse_datetime text) (\<lambda>transaction_at.
     bind_result (parse_optional text FEE_RE ''fee_not_parseable'') (\<lambda>fee.
     bind_result (parse_optional text VAT_RE ''vat_not_parseable'') (\<lambda>vat.
     bind_result (parse_receipt_url text) (\<lambda>receipt_url.
       Inr \<lparr>pv_external_reference = external_reference, pv_raw_reference = raw_reference, pv_amount = amount, pv_fee = fee,
            pv_vat = vat, pv_payer_name = payer_name, pv_payer_phone = None, pv_recipient_name = recipient_name,
            pv_recipient_phone = Some recipient_phone, pv_receipt_url = receipt_url, pv_transaction_at = transaction_at,
            pv_direction = ''transferred''\<rparr>))))))))"

definition parse_telebirr_sms :: "string \<Rightarrow> string + parsed_evidence" where
  "parse_telebirr_sms raw =
     (let text = normalize_whitespace raw;
          has_received = (search (word_ci ''you have received'') text \<noteq> None);
          has_transferred = (search (word_ci ''you have transferred'') text \<noteq> None) in
      if has_received \<and> \<not> has_transferred then parse_received text
      else if has_transferred \<and> \<not> has_received then parse_transferred text
      else Inl ''unrecognized_template'')"

end
