(* ===== verification/Telebirr.thy ===== *)
theory Telebirr
  imports Deposits Telebirr_Parser Sha256
begin

text \<open>
  Evidence of Telebirr payments: a forwarded message becomes one row of \<open>payment_evidence\<close>
  (\<open>services/payments/telebirr_ingest.py\<close>), a player turns an available row into a deposit
  (\<open>services/payments/telebirr_redemption.py\<close>), an admin moves a row between statuses
  (\<open>services/admin/queries.py\<close>), and a sweep looks for payments without exactly one row behind them
  (\<open>services/payments/telebirr_reconcile.py\<close>).
\<close>

subsection \<open>Who a message names as the recipient\<close>

definition mask_ethiopian_phone :: "string \<Rightarrow> string option" where
  "mask_ethiopian_phone raw =
     (let digits = filter is_digit raw;
          masked = (\<lambda>local. ''251'' @ take 1 local @ ''****'' @ drop (length local - 4) local) in
      if take 3 digits = ''251'' \<and> length digits = 12 then Some (masked (drop 3 digits))
      else if take 1 digits = ''0'' \<and> length digits = 10 then Some (masked (drop 1 digits))
      else if length digits = 9 then Some (masked digits)
      else None)"

definition name_matches_whole_word :: "string \<Rightarrow> string \<Rightarrow> bool" where
  "name_matches_whole_word haystack needle \<longleftrightarrow> search ([Boundary] @ word needle @ [Boundary]) haystack \<noteq> None"

definition recipient_row_matches :: "string \<Rightarrow> string option \<Rightarrow> destination \<Rightarrow> bool" where
  "recipient_row_matches normalized_recipient_name recipient_phone row =
     (let configured_name = lower (strip (ds_account_name row)) in
      case recipient_phone of
        None \<Rightarrow> configured_name = normalized_recipient_name
      | Some _ \<Rightarrow> (configured_name = normalized_recipient_name \<or> name_matches_whole_word normalized_recipient_name configured_name)
          \<and> mask_ethiopian_phone (ds_account_ref row) = recipient_phone)"

definition find_matching_recipient :: "bank \<Rightarrow> string \<Rightarrow> string option \<Rightarrow> int \<Rightarrow> bool" where
  "find_matching_recipient b recipient_name recipient_phone at_time \<longleftrightarrow>
     (\<exists>row\<in>set (bk_destinations b). ds_method_kind row = ''telebirr'' \<and> ds_is_active row
        \<and> (case ds_effective_from row of None \<Rightarrow> True | Some t \<Rightarrow> t \<le> at_time)
        \<and> (case ds_effective_until row of None \<Rightarrow> True | Some t \<Rightarrow> at_time \<le> t)
        \<and> recipient_row_matches (lower (strip recipient_name)) recipient_phone row)"

subsection \<open>Ingestion\<close>

record ingest_outcome =
  io_status :: string
  io_evidence_id :: "int option"
  io_reference :: "string option"
  io_reason :: "string option"

definition sha256_hex :: "string \<Rightarrow> string" where
  "sha256_hex raw = hexdigest (sha256 (ascii raw))"

definition evidence_by_ref :: "bank \<Rightarrow> string \<Rightarrow> evidence option" where
  "evidence_by_ref b r = find (\<lambda>v. ev_reference v = r) (bk_evidence b)"

definition evidence_by_id :: "bank \<Rightarrow> int \<Rightarrow> evidence option" where
  "evidence_by_id b i = find (\<lambda>v. ev_id v = i) (bk_evidence b)"

definition update_evidence :: "int \<Rightarrow> (evidence \<Rightarrow> evidence) \<Rightarrow> bank \<Rightarrow> bank" where
  "update_evidence i f b = b\<lparr>bk_evidence := map (\<lambda>v. if ev_id v = i then f v else v) (bk_evidence b)\<rparr>"

definition numeric_option :: "money option \<Rightarrow> money option result" where
  "numeric_option x = (case x of None \<Rightarrow> Inr None | Some a \<Rightarrow> bind_result (numeric18_2 a) (\<lambda>v. Inr (Some v)))"

text \<open>
  The insert: \<open>ON CONFLICT (external_reference) DO NOTHING\<close>, and a violation of the unique hash is caught, so
  both end without a row.
\<close>

definition insert_evidence :: "evidence \<Rightarrow> bank \<Rightarrow> (int option \<times> bank) result" where
  "insert_evidence row b =
     bind_result (numeric18_2 (ev_amount row)) (\<lambda>amount.
     bind_result (numeric_option (pv_fee (ev_parsed row))) (\<lambda>fee.
     bind_result (numeric_option (pv_vat (ev_parsed row))) (\<lambda>vat.
       if ev_source row \<notin> {''macrodroid'', ''telegram_agent''} then Inl CheckViolation
       else if evidence_by_ref b (ev_reference row) \<noteq> None then Inr (None, b)
       else if \<exists>v\<in>set (bk_evidence b). ev_hash v = ev_hash row then Inr (None, b)
       else Inr (Some (ev_id row), b\<lparr>bk_evidence := bk_evidence b @
         [row\<lparr>ev_parsed := (ev_parsed row)\<lparr>pv_amount := amount, pv_fee := fee, pv_vat := vat\<rparr>\<rparr>]\<rparr>))))"

definition ingest_sms_evidence :: "string \<Rightarrow> string \<Rightarrow> string \<Rightarrow> bank \<Rightarrow> (ingest_outcome \<times> bank) result" where
  "ingest_sms_evidence raw_sms source source_ref b =
     (case parse_telebirr_sms raw_sms of
        Inl reason \<Rightarrow> Inr (\<lparr>io_status = ''unparseable'', io_evidence_id = None, io_reference = None, io_reason = Some reason\<rparr>, b)
      | Inr parsed \<Rightarrow>
          (let evidence_hash = sha256_hex raw_sms;
               recipient_ok = find_matching_recipient b (pv_recipient_name parsed) (pv_recipient_phone parsed) (pv_transaction_at parsed);
               reject_reason = (if recipient_ok then None else Some ''recipient_not_recognized'');
               reference = Some (pv_external_reference parsed) in
           bind_result (insert_evidence
               \<lparr>ev_id = int (length (bk_evidence b)) + 1, ev_source = source, ev_source_ref = source_ref, ev_raw_sms = raw_sms,
                ev_hash = evidence_hash, ev_parsed = parsed, ev_status = (if recipient_ok then ''available'' else ''rejected''),
                ev_reject_reason = reject_reason, ev_redeemed_by = None, ev_payment = None, ev_parser_version = PARSER_VERSION\<rparr> b)
             (\<lambda>(inserted, b1).
               case inserted of
                 Some i \<Rightarrow> Inr (\<lparr>io_status = (if recipient_ok then ''ingested_available'' else ''ingested_rejected''),
                     io_evidence_id = Some i, io_reference = reference, io_reason = reject_reason\<rparr>, b1)
               | None \<Rightarrow>
                   (case evidence_by_ref b1 (pv_external_reference parsed) of
                      None \<Rightarrow> Inl AssertionError
                    | Some existing \<Rightarrow>
                        if ev_hash existing = evidence_hash then
                          Inr (\<lparr>io_status = ''duplicate'', io_evidence_id = Some (ev_id existing), io_reference = reference, io_reason = None\<rparr>, b1)
                        else Inr (\<lparr>io_status = ''conflicting_duplicate'', io_evidence_id = Some (ev_id existing), io_reference = reference,
                              io_reason = Some ''conflicting_resubmission''\<rparr>,
                            if ev_status existing \<in> {''redeemed'', ''disputed''} then b1
                            else update_evidence (ev_id existing)
                              (\<lambda>v. v\<lparr>ev_status := ''disputed'', ev_reject_reason := Some ''conflicting_resubmission''\<rparr>) b1)))))"

subsection \<open>Redemption\<close>

record redemption =
  ro_code :: string
  ro_amount :: "money option"
  ro_payment_id :: "int option"
  ro_our_ref :: "string option"

definition refused :: "string \<Rightarrow> redemption" where
  "refused code = \<lparr>ro_code = code, ro_amount = None, ro_payment_id = None, ro_our_ref = None\<rparr>"

definition STATUS_TO_CODE :: "string \<Rightarrow> string option" where
  "STATUS_TO_CODE s =
     (if s = ''blocked'' then Some ''PAYMENT_BLOCKED''
      else if s = ''disputed'' then Some ''PAYMENT_DISPUTED''
      else if s = ''expired'' then Some ''PAYMENT_EXPIRED'' else None)"

definition eligibility_rejection_code :: "int \<Rightarrow> int \<Rightarrow> money \<Rightarrow> money \<Rightarrow> bank \<Rightarrow> string option result \<times> bank" where
  "eligibility_rejection_code now user_id amount daily_cap b =
     (case check_deposit_eligibility now user_id amount daily_cap b of
        (Inr _, b1) \<Rightarrow> (Inr None, b1)
      | (Inl (DepositRejected why), b1) \<Rightarrow>
          (if why = ''unknown_user'' then (Inr (Some ''UNKNOWN_USER''), b1)
           else if why = ''self_excluded'' then (Inr (Some ''SELF_EXCLUDED''), b1)
           else if why = ''banned'' then (Inr (Some ''ACCOUNT_BANNED''), b1)
           else if why = ''cooling_off'' then (Inr (Some ''COOLING_OFF_ACTIVE''), b1)
           else if why = ''daily_cap'' then (Inr (Some ''DAILY_CAP_EXCEEDED''), b1)
           else (Inl (DepositRejected why), b1))
      | (Inl x, b1) \<Rightarrow> (Inl x, b1))"

text \<open>The part that moves money: the payment, its posting, the mark on the evidence, and the deposit rewards.\<close>

definition redeem_credit :: "int \<Rightarrow> int \<Rightarrow> int \<Rightarrow> evidence \<Rightarrow> bank \<Rightarrow> bank \<Rightarrow> (redemption \<times> bank) result" where
  "redeem_credit now year user_id v old b1 =
     (let (our_ref, b2) = next_ref ''DEP'' year b1;
          row = new_payment now user_id ''in'' ''telebirr_sms'' our_ref (ev_amount v) ''succeeded'' b2 in
      bind_result (insert_payment row b2) (\<lambda>b3.
      bind_result (credit_deposit now row b3) (\<lambda>(txn, b4).
      bind_result (deposit_rewards now user_id (ev_amount v)
          (update_evidence (ev_id v) (\<lambda>v. v\<lparr>ev_status := ''redeemed'', ev_redeemed_by := Some user_id, ev_payment := Some (pm_id row)\<rparr>)
            (update_payment (pm_id row) (\<lambda>p. p\<lparr>pm_ledger_txn := Some (txn_id txn), pm_updated_at := now\<rparr>) b4))) (\<lambda>b5.
      bind_result (bank_commit old b5) (\<lambda>b6.
        Inr (\<lparr>ro_code = ''PAYMENT_REDEEMED'', ro_amount = Some (ev_amount v), ro_payment_id = Some (pm_id row), ro_our_ref = Some our_ref\<rparr>, b6))))))"

definition redeem_evidence :: "int \<Rightarrow> int \<Rightarrow> bool \<Rightarrow> int \<Rightarrow> string \<Rightarrow> money \<Rightarrow> bank \<Rightarrow> redemption result \<times> bank" where
  "redeem_evidence now year allowed user_id reference daily_cap b =
     (let reference = strip reference; normalized = normalize_reference reference in
      if reference = [] then (Inr (refused ''INVALID_REFERENCE''), b)
      else if \<not> allowed then (Inr (refused ''RATE_LIMITED''), b)
      else case evidence_by_ref b normalized of
        None \<Rightarrow> (Inr (refused ''PAYMENT_NOT_FOUND''), b)
      | Some v \<Rightarrow>
          (case STATUS_TO_CODE (ev_status v) of
             Some code \<Rightarrow> (Inr (refused code), b)
           | None \<Rightarrow>
               if ev_status v = ''redeemed'' then
                 (if ev_redeemed_by v = Some user_id then
                    (case Option.bind (ev_payment v) (payment_by_id b) of
                       None \<Rightarrow> (Inl AssertionError, b)
                     | Some p \<Rightarrow> (Inr \<lparr>ro_code = ''PAYMENT_REDEEMED'', ro_amount = Some (pm_amount p), ro_payment_id = ev_payment v,
                         ro_our_ref = Some (pm_our_ref p)\<rparr>, b))
                  else (Inr (refused ''PAYMENT_ALREADY_REDEEMED''), b))
               else if ev_status v \<noteq> ''available'' then (Inl AssertionError, b)
               else (case eligibility_rejection_code now user_id (ev_amount v) daily_cap b of
                   (Inl x, _) \<Rightarrow> (Inl x, b)
                 | (Inr (Some code), b1) \<Rightarrow> (Inr (refused code), b1)
                 | (Inr None, b1) \<Rightarrow>
                     (case redeem_credit now year user_id v b b1 of
                        Inl x \<Rightarrow> (Inl x, b\<lparr>bk_ref_seq := bk_ref_seq b + 1\<rparr>)
                      | Inr (outcome, b2) \<Rightarrow> (Inr outcome, b2)))))"

subsection \<open>Admins and the standing check\<close>

definition EVIDENCE_TRANSITIONS :: "string \<Rightarrow> string set" where
  "EVIDENCE_TRANSITIONS s =
     (if s = ''available'' then {''blocked'', ''disputed''}
      else if s = ''blocked'' then {''disputed'', ''available''}
      else if s = ''disputed'' then {''available''}
      else if s = ''rejected'' then {''available''} else {})"

definition resolve_payment_evidence_admin :: "int \<Rightarrow> string \<Rightarrow> string \<Rightarrow> bank \<Rightarrow> (bool \<times> bank) result" where
  "resolve_payment_evidence_admin evidence_id to_status reason b =
     (case evidence_by_id b evidence_id of
        None \<Rightarrow> Inr (False, b)
      | Some v \<Rightarrow>
          if to_status \<notin> EVIDENCE_TRANSITIONS (ev_status v) then Inl InvalidEvidenceTransition
          else Inr (True, update_evidence evidence_id (\<lambda>v. v\<lparr>ev_status := to_status,
            ev_reject_reason := (if to_status \<noteq> ''available'' then Some reason else None)\<rparr>) b))"

record evidence_mismatch =
  em_payment_id :: int
  em_our_ref :: string
  em_evidence_count :: nat

definition evidence_count :: "bank \<Rightarrow> int \<Rightarrow> nat" where
  "evidence_count b payment_id = length (filter (\<lambda>v. ev_payment v = Some payment_id) (bk_evidence b))"

definition find_evidence_source_mismatches :: "bank \<Rightarrow> evidence_mismatch list" where
  "find_evidence_source_mismatches b =
     map (\<lambda>p. \<lparr>em_payment_id = pm_id p, em_our_ref = pm_our_ref p, em_evidence_count = evidence_count b (pm_id p)\<rparr>)
       (filter (\<lambda>p. pm_provider p = ''telebirr_sms'' \<and> evidence_count b (pm_id p) \<noteq> 1) (bk_payments b))"

record status_breakdown =
  sb_status :: string
  sb_count :: nat
  sb_amount :: money

definition evidence_statuses :: "string list" where
  "evidence_statuses = [''available'', ''blocked'', ''disputed'', ''expired'', ''redeemed'', ''rejected'']"

text \<open>Grouped by status, in the order of the statuses' names; a status no row has makes no group.\<close>

definition evidence_status_breakdown :: "bank \<Rightarrow> status_breakdown list" where
  "evidence_status_breakdown b =
     map (\<lambda>s. let rows = filter (\<lambda>v. ev_status v = s) (bk_evidence b) in
        \<lparr>sb_status = s, sb_count = length rows, sb_amount = sum_list (map ev_amount rows)\<rparr>)
       (filter (\<lambda>s. \<exists>v\<in>set (bk_evidence b). ev_status v = s) evidence_statuses)"

end
