(* ===== verification/Withdrawals.thy ===== *)
theory Withdrawals
  imports Deposits
begin

text \<open>
  Withdrawals: the request, which locks the money at once (\<open>services/payments/withdrawals.py\<close>), the payout
  worker (\<open>services/payments/payout_worker.py\<close>), and the decisions of admins (\<open>services/admin/queries.py\<close>). The
  Redis stream that feeds the worker is the scheduler's: any reference may be processed at any time and
  more than once. What the provider answers is an argument.
\<close>

definition STATUS_APPROVED :: string where "STATUS_APPROVED = ''approved''"
definition STATUS_REVIEW :: string where "STATUS_REVIEW = ''review''"

subsection \<open>The request\<close>

record withdrawal_terms =
  wt_min_withdraw :: money
  wt_auto_approve_limit :: money
  wt_kyc_threshold :: money
  wt_chargeback_window_minutes :: int
  wt_min_account_age_hours :: rat
  wt_max_withdrawals_per_day :: int
  wt_force_review :: bool

record withdrawal_intent =
  wi_payment_id :: int
  wi_our_ref :: string
  wi_status :: string

definition upsert_method :: "int \<Rightarrow> string \<Rightarrow> string \<Rightarrow> string \<Rightarrow> bank \<Rightarrow> int \<times> bank" where
  "upsert_method user_id kind account_ref holder_name b =
     (case find (\<lambda>x. me_user x = user_id \<and> me_kind x = kind \<and> me_account_ref x = account_ref) (bk_methods b) of
        Some x \<Rightarrow> (me_id x, b\<lparr>bk_methods := map (\<lambda>y. if me_id y = me_id x then y\<lparr>me_holder_name := holder_name\<rparr> else y) (bk_methods b)\<rparr>)
      | None \<Rightarrow> (int (length (bk_methods b)) + 1, b\<lparr>bk_methods := bk_methods b @
          [\<lparr>me_id = int (length (bk_methods b)) + 1, me_user = user_id, me_kind = kind, me_account_ref = account_ref, me_holder_name = holder_name\<rparr>]\<rparr>))"

definition user_payments :: "bank \<Rightarrow> int \<Rightarrow> string \<Rightarrow> (payment \<Rightarrow> bool) \<Rightarrow> payment list" where
  "user_payments b user_id direction P = filter (\<lambda>p. pm_user p = user_id \<and> pm_direction p = direction \<and> P p) (bk_payments b)"

text \<open>The rules that send a request to an admin.\<close>

definition failed_checks :: "int \<Rightarrow> withdrawal_terms \<Rightarrow> profile \<Rightarrow> int \<Rightarrow> money \<Rightarrow> bank \<Rightarrow> review_check list" where
  "failed_checks now terms user user_id amount b =
     (let lifetime_in = sum_list (map pm_amount (user_payments b user_id ''in'' (\<lambda>p. pm_status p = ''succeeded'')));
          lifetime_out = sum_list (map pm_amount (user_payments b user_id ''out'' (\<lambda>p. pm_status p = ''succeeded'')));
          recent = int (length (user_payments b user_id ''out'' (\<lambda>p. now - hours_us 24 < pm_created_at p)))
      in (if wt_auto_approve_limit terms < amount then [AmountOverLimit] else [])
       @ (if of_int (now - pf_created_at user) \<le> wt_min_account_age_hours terms * 3600 * 1000000 then [AccountTooYoung] else [])
       @ (if lifetime_in < lifetime_out then [WithdrewMoreThanDeposited] else [])
       @ (if wt_max_withdrawals_per_day terms \<le> recent then [TooManyWithdrawals] else []))"

definition lock_args :: "money \<Rightarrow> string \<Rightarrow> int \<Rightarrow> int \<Rightarrow> post_args" where
  "lock_args amount our_ref = transfer_args ''withdrawal'' amount our_ref None None ''system''"

text \<open>The checks before any money is touched.\<close>

definition withdrawal_gates :: "int \<Rightarrow> withdrawal_terms \<Rightarrow> int \<Rightarrow> money \<Rightarrow> bank \<Rightarrow> profile result" where
  "withdrawal_gates now terms user_id amount b =
     (if amount < wt_min_withdraw terms then Inl (WithdrawalRejected ''below_minimum'')
      else case (user_by_id (bk_db b) user_id, profile_of b user_id) of
        (Some u, Some user) \<Rightarrow>
          if us_is_simulated u then Inl (WithdrawalRejected ''simulated_player'')
          else if wt_kyc_threshold terms < amount \<and> pf_kyc_level user < 2 then Inl (WithdrawalRejected ''kyc_level_too_low'')
          else if user_payments b user_id ''in'' (\<lambda>p. pm_status p = ''succeeded''
              \<and> now - wt_chargeback_window_minutes terms * 60000000 < pm_created_at p) \<noteq> []
            then Inl (WithdrawalRejected ''recent_reversible_deposit'')
          else Inr user
      | _ \<Rightarrow> Inl (WithdrawalRejected ''unknown_user''))"

definition request_withdrawal ::
    "int \<Rightarrow> int \<Rightarrow> string \<Rightarrow> withdrawal_terms \<Rightarrow> int \<Rightarrow> money \<Rightarrow> string \<Rightarrow> string \<Rightarrow> string \<Rightarrow> bank \<Rightarrow> withdrawal_intent result \<times> bank" where
  "request_withdrawal now year provider terms user_id amount method_kind account_ref holder_name b =
     (case withdrawal_gates now terms user_id amount b of
        Inl x \<Rightarrow> (Inl x, b)
      | Inr user \<Rightarrow>
          (let (method_id, b1) = upsert_method user_id method_kind account_ref holder_name b;
               (our_ref, b2) = next_ref ''WD'' year b1;
               failed = b\<lparr>bk_ref_seq := bk_ref_seq b2\<rparr> in
           case move_money now (cash_owner user_id) (locked_owner user_id) (lock_args amount our_ref) b2 of
             Inl (InsufficientFunds a v) \<Rightarrow> (Inl (WithdrawalRejected ''insufficient_balance''), failed)
           | Inl x \<Rightarrow> (Inl x, failed)
           | Inr (txn, b3) \<Rightarrow>
               (let checks = failed_checks now terms user user_id amount b3;
                    status = (if checks = [] \<and> \<not> wt_force_review terms then STATUS_APPROVED else STATUS_REVIEW);
                    row = (new_payment now user_id ''out'' provider our_ref amount status b3)\<lparr>pm_method := Some method_id,
                      pm_ledger_txn := Some (txn_id txn), pm_review_reason := checks @ (if wt_force_review terms then [ManualRail] else [])\<rparr> in
                case bind_result (insert_payment row b3) (bank_commit b) of
                  Inl x \<Rightarrow> (Inl x, failed)
                | Inr b4 \<Rightarrow> (Inr \<lparr>wi_payment_id = pm_id row, wi_our_ref = our_ref, wi_status = status\<rparr>, b4))))"

text \<open>The payments the sweep enqueues again.\<close>

definition sweep_stuck_approved_payouts :: "int \<Rightarrow> int \<Rightarrow> bank \<Rightarrow> payment list" where
  "sweep_stuck_approved_payouts now older_than_seconds b =
     filter (\<lambda>p. pm_direction p = ''out'' \<and> pm_status p = STATUS_APPROVED \<and> pm_provider p \<noteq> ''manual''
       \<and> pm_updated_at p < now - seconds_us older_than_seconds) (bk_payments b)"

subsection \<open>The payout worker\<close>

definition PENDING_STATUSES :: "string set" where
  "PENDING_STATUSES = {''approved'', ''processing''}"

text \<open>The first transaction of a dispatch: the payment to pay out, now processing, or nothing to do.\<close>

definition claim_payout :: "int \<Rightarrow> string \<Rightarrow> string \<Rightarrow> bank \<Rightarrow> payment option \<times> bank" where
  "claim_payout now provider_name our_ref b =
     (case payment_by_ref b our_ref of
        None \<Rightarrow> (None, b)
      | Some payment \<Rightarrow>
          if pm_status payment \<notin> PENDING_STATUSES then (None, b)
          else if pm_provider payment \<noteq> provider_name then (None, b)
          else (Some payment, if pm_status payment = ''approved''
                 then update_payment (pm_id payment) (\<lambda>p. p\<lparr>pm_status := ''processing'', pm_updated_at := now\<rparr>) b else b))"

text \<open>The two endings. Neither looks at the status again.\<close>

definition settle_success :: "int \<Rightarrow> payment \<Rightarrow> string \<Rightarrow> bank \<Rightarrow> bank result" where
  "settle_success now p provider_ref b =
     bind_result (move_money now (locked_owner (pm_user p)) provider_owner
         (transfer_args ''payout'' (pm_amount p) (payout_settle_key (pm_our_ref p)) (Some (pm_id p)) None ''system'') b) (\<lambda>(txn, b1).
       bank_commit b (update_payment (pm_id p) (\<lambda>p. p\<lparr>pm_status := ''succeeded'', pm_provider_ref := Some provider_ref,
         pm_ledger_txn := Some (txn_id txn), pm_updated_at := now\<rparr>) b1))"

definition reverse_payout :: "int \<Rightarrow> payment \<Rightarrow> string \<Rightarrow> bank \<Rightarrow> bank result" where
  "reverse_payout now p reason b =
     bind_result (move_money now (locked_owner (pm_user p)) (cash_owner (pm_user p))
         (transfer_args ''refund'' (pm_amount p) (payout_reverse_key (pm_our_ref p)) (Some (pm_id p)) None ''system'') b) (\<lambda>(txn, b1).
       bank_commit b (update_payment (pm_id p) (\<lambda>p. p\<lparr>pm_status := ''failed'', pm_failure_reason := Some reason, pm_updated_at := now\<rparr>) b1))"

datatype payout_answer = PayoutRaised string | PayoutStatus string string

definition record_payout_ref :: "int \<Rightarrow> payment \<Rightarrow> string \<Rightarrow> bank \<Rightarrow> bank" where
  "record_payout_ref now p provider_ref b = update_payment (pm_id p) (\<lambda>p. p\<lparr>pm_provider_ref := Some provider_ref, pm_updated_at := now\<rparr>) b"

text \<open>The second transaction, on what the provider answered.\<close>

definition finish_payout :: "int \<Rightarrow> payment \<Rightarrow> payout_answer \<Rightarrow> bank \<Rightarrow> (string \<times> bank) result" where
  "finish_payout now p answer b =
     (case answer of
        PayoutRaised err \<Rightarrow> bind_result (reverse_payout now p err b) (\<lambda>b1. Inr (''failed'', b1))
      | PayoutStatus status provider_ref \<Rightarrow>
          if status = ''succeeded'' then bind_result (settle_success now p provider_ref b) (\<lambda>b1. Inr (''succeeded'', b1))
          else if status = ''processing'' then Inr (''processing'', record_payout_ref now p provider_ref b)
          else bind_result (reverse_payout now p (''provider reported status='' @ status) b) (\<lambda>b1. Inr (''failed'', b1)))"

definition process_one :: "int \<Rightarrow> string \<Rightarrow> (payment_method \<Rightarrow> money \<Rightarrow> string \<Rightarrow> payout_answer) \<Rightarrow> string \<Rightarrow> bank \<Rightarrow> string result \<times> bank" where
  "process_one now provider_name create_payout our_ref b =
     (case claim_payout now provider_name our_ref b of
        (None, b1) \<Rightarrow> (Inr ''skipped'', b1)
      | (Some p, b1) \<Rightarrow>
          (case find (\<lambda>x. Some (me_id x) = pm_method p) (bk_methods b1) of
             None \<Rightarrow> (Inl AssertionError, b1)
           | Some method \<Rightarrow>
               (case finish_payout now p (create_payout method (pm_amount p) our_ref) b1 of
                  Inl x \<Rightarrow> (Inl x, b1)
                | Inr (outcome, b2) \<Rightarrow> (Inr outcome, b2))))"

subsection \<open>Decisions of admins\<close>

definition out_payment :: "bank \<Rightarrow> int \<Rightarrow> payment option" where
  "out_payment b payment_id = find (\<lambda>p. pm_id p = payment_id \<and> pm_direction p = ''out'') (bk_payments b)"

definition approve_withdrawal_admin :: "int \<Rightarrow> int \<Rightarrow> bank \<Rightarrow> bool \<times> bank" where
  "approve_withdrawal_admin now payment_id b =
     (case find (\<lambda>p. pm_id p = payment_id \<and> pm_direction p = ''out'' \<and> pm_provider p \<noteq> ''manual'') (bk_payments b) of
        None \<Rightarrow> (False, b)
      | Some p \<Rightarrow> if pm_status p \<noteq> ''review'' then (False, b)
          else (True, update_payment payment_id (\<lambda>p. p\<lparr>pm_status := ''approved'', pm_updated_at := now\<rparr>) b))"

definition reject_withdrawal_admin :: "int \<Rightarrow> int \<Rightarrow> string \<Rightarrow> bank \<Rightarrow> (bool \<times> bank) result" where
  "reject_withdrawal_admin now payment_id reason b =
     (case out_payment b payment_id of
        None \<Rightarrow> Inr (False, b)
      | Some p \<Rightarrow>
          if pm_status p \<noteq> ''review'' then Inr (False, b)
          else bind_result (move_money now (locked_owner (pm_user p)) (cash_owner (pm_user p))
              (transfer_args ''refund'' (pm_amount p) (payout_reject_key payment_id) (Some payment_id) None ''system'') b) (\<lambda>(txn, b1).
            bind_result (bank_commit b (update_payment payment_id (\<lambda>p. p\<lparr>pm_status := ''rejected'', pm_failure_reason := Some reason,
              pm_updated_at := now\<rparr>) b1)) (\<lambda>b2. Inr (True, b2))))"

definition approve_manual_withdrawal_admin :: "int \<Rightarrow> int \<Rightarrow> int \<Rightarrow> money \<Rightarrow> bank \<Rightarrow> (string \<times> bank) result" where
  "approve_manual_withdrawal_admin now admin_id payment_id two_person_threshold b =
     (let row = manual_payment b payment_id ''out'' in
      bind_result (apply_two_person_gate row admin_id payment_id two_person_threshold b) (\<lambda>(gate_outcome, b1).
        case gate_outcome of
          Some outcome \<Rightarrow> Inr (outcome, b1)
        | None \<Rightarrow> Inr (''approved'', update_payment payment_id (\<lambda>p. p\<lparr>pm_status := ''approved'', pm_updated_at := now\<rparr>) b1)))"

definition settle_manual_withdrawal_admin :: "int \<Rightarrow> int \<Rightarrow> string \<Rightarrow> bank \<Rightarrow> (bool \<times> bank) result" where
  "settle_manual_withdrawal_admin now payment_id external_reference b =
     (case manual_payment b payment_id ''out'' of
        None \<Rightarrow> Inr (False, b)
      | Some p \<Rightarrow>
          if pm_status p \<noteq> ''approved'' then Inr (False, b)
          else bind_result (move_money now (locked_owner (pm_user p)) provider_owner
              (transfer_args ''payout'' (pm_amount p) (manual_settle_key (pm_our_ref p)) (Some payment_id) None ''system'') b) (\<lambda>(txn, b1).
            bind_result (bank_commit b (update_payment payment_id (\<lambda>p. p\<lparr>pm_status := ''succeeded'', pm_provider_ref := Some external_reference,
              pm_ledger_txn := Some (txn_id txn), pm_updated_at := now\<rparr>) b1)) (\<lambda>b2. Inr (True, b2))))"

definition fail_manual_withdrawal_admin :: "int \<Rightarrow> int \<Rightarrow> string \<Rightarrow> bank \<Rightarrow> (bool \<times> bank) result" where
  "fail_manual_withdrawal_admin now payment_id reason b =
     (case manual_payment b payment_id ''out'' of
        None \<Rightarrow> Inr (False, b)
      | Some p \<Rightarrow>
          if pm_status p \<noteq> ''approved'' then Inr (False, b)
          else bind_result (move_money now (locked_owner (pm_user p)) (cash_owner (pm_user p))
              (transfer_args ''refund'' (pm_amount p) (manual_fail_key payment_id) (Some payment_id) None ''system'') b) (\<lambda>(txn, b1).
            bind_result (bank_commit b (update_payment payment_id (\<lambda>p. p\<lparr>pm_status := ''failed'', pm_failure_reason := Some reason,
              pm_updated_at := now\<rparr>) b1)) (\<lambda>b2. Inr (True, b2))))"

text \<open>A correction of a balance by an admin, against \<open>house_float\<close>; the key carries the request's own id.\<close>

definition adjust_key :: "int \<Rightarrow> int \<Rightarrow> string \<Rightarrow> string" where
  "adjust_key admin_id user_id request_id = ''admin-adjust-'' @ str_int admin_id @ ''-'' @ str_int user_id @ ''-'' @ request_id"

definition adjust_balance :: "int \<Rightarrow> int \<Rightarrow> int \<Rightarrow> money \<Rightarrow> string \<Rightarrow> string \<Rightarrow> bank \<Rightarrow> (int \<times> bank) result" where
  "adjust_balance now admin_id user_id amount reason request_id b =
     (let key = adjust_key admin_id user_id request_id in
      case find_txn (bank_led b) key of
        Some t \<Rightarrow> Inr (txn_id t, b)
      | None \<Rightarrow>
          (let (cash, d1) = db_account (Some user_id) ''user_cash'' (bk_db b);
               (house_float, d2) = db_account None ''house_float'' d1 in
           bind_result (on_db b (db_post now (transfer_args ''adjustment'' amount key None (Some reason) (''admin:'' @ str_int admin_id)
             (acc_id house_float) (acc_id cash)) d2)) (\<lambda>(txn, b1).
           bind_result (bank_commit b b1) (\<lambda>b2. Inr (txn_id txn, b2)))))"

end
