(* ===== verification/Bank_Books.thy ===== *)
theory Bank_Books
  imports Telebirr Withdrawals Bingo_Book
begin

text \<open>
  The books of the payments side: what the rows of \<open>payments\<close> and \<open>bonuses\<close> say the accounts
  \<open>user_locked\<close>, \<open>provider_settlement\<close>, \<open>user_bonus\<close> and \<open>promo_expense\<close> must hold, and which idempotency keys
  the ledger has used. \<open>K\<close> is the set of used keys, \<open>paid\<close> tells of a payout's reference whether the provider
  pays it in the end.
\<close>

subsection \<open>One posting\<close>

text \<open>A posting under a key already used is a replay and moves nothing.\<close>

definition moved :: "ledger \<Rightarrow> owner \<Rightarrow> owner \<Rightarrow> money \<Rightarrow> string \<Rightarrow> ledger \<Rightarrow> bool" where
  "moved l src dst x key l' \<longleftrightarrow> ledger_ok l' \<and>
     (if key \<in> tkeys l then obal l' = obal l \<and> tkeys l' = tkeys l
      else obal l' = (obal l)(src := obal l src - x, dst := obal l dst + x) \<and> tkeys l' = insert key (tkeys l))"

lemma on_db_Inr: "on_db b r = Inr (x, b') \<longleftrightarrow> (\<exists>d. r = Inr (x, d) \<and> b' = b\<lparr>bk_db := d\<rparr>)"
  by (auto simp: on_db_def bind_result_Inr_iff)

lemma bank_commit_Inr: "bank_commit old b = Inr b' \<Longrightarrow> b' = b"
  by (auto simp: bank_commit_def bind_result_Inr_iff dest!: db_commit_Inr)

lemma bank_commit_ok: "ledger_ok (bank_led b) \<Longrightarrow> bank_commit old b = Inr b"
  by (simp add: bank_commit_def db_commit_ok)

lemma post_between:
  assumes ok: "ledger_ok (led d)" and acc: "acct_of (led d) src = Some i" "acct_of (led d) dst = Some j"
    and ne: "src \<noteq> dst" and x: "whole_cents x"
    and p: "pa_entries p = [\<lparr>ent_account = i, ent_amount = - x\<rparr>, \<lparr>ent_account = j, ent_amount = x\<rparr>]"
    and post: "db_post now p d = Inr (t, d')"
  shows "\<exists>l. d' = d\<lparr>led := l\<rparr> \<and> moved (led d) src dst x (pa_key p) l"
proof (cases "pa_key p \<in> tkeys (led d)")
  case True
  then have "find_txn (led d) (pa_key p) \<noteq> None" by (simp add: find_txn_None tkeys_def)
  then have "d' = d" using post by (auto simp: db_post_Inr post_def split: if_splits)
  then show ?thesis using True ok by (intro exI [of _ "led d"]) (simp add: moved_def)
next
  case False
  note tr = dbw.transfer [OF ok acc ne x False p post]
  show ?thesis using tr False by (intro exI [of _ "led d'"]) (simp add: moved_def tables_of_eq)
qed

lemma moved_after_lookup:
  assumes "same_money l l1" "moved l1 src dst x key l'" shows "moved l src dst x key l'"
proof -
  have "tkeys l1 = tkeys l" "obal l1 = obal l" using assms(1) by (simp_all add: same_money_def tkeys_def)
  then show ?thesis using assms(2) by (simp add: moved_def)
qed

lemma move_money_Inr:
  assumes mv: "move_money now src dst (transfer_args kind x key pay memo by) b = Inr (t, b')"
    and ok: "ledger_ok (bank_led b)" and ne: "src \<noteq> dst" and x: "whole_cents x"
  shows "\<exists>l. b' = b\<lparr>bk_db := (bk_db b)\<lparr>led := l\<rparr>\<rparr> \<and> moved (bank_led b) src dst x key l"
proof -
  obtain u k where src: "src = (u, k)" by force
  obtain u' k' where dst: "dst = (u', k')" by force
  obtain a d1 where a: "db_account u k (bk_db b) = (a, d1)" by force
  obtain c d2 where c: "db_account u' k' d1 = (c, d2)" by force
  obtain d3 where p: "db_post now (transfer_args kind x key pay memo by (acc_id a) (acc_id c)) d2 = Inr (t, d3)" "b' = b\<lparr>bk_db := d3\<rparr>"
    using mv by (auto simp: move_money_def src dst a c on_db_Inr)
  note g1 = db_account_spec [OF a ok]
  note g2 = db_account_spec [OF c g1(1)]
  have s: "acct_of (led d2) src = Some (acc_id a)" using g1(3) g2(2) by (simp add: same_money_def src)
  have d: "acct_of (led d2) dst = Some (acc_id c)" using g2(3) by (simp add: dst)
  obtain l where l: "d3 = d2\<lparr>led := l\<rparr>" "moved (led d2) src dst x key l"
    using post_between [OF g2(1) s d ne x _ p(1)] by (auto simp: transfer_args_def)
  have "d2\<lparr>led := l\<rparr> = (bk_db b)\<lparr>led := l\<rparr>" using g1(4) g2(4) by (metis db.surjective db.update_convs(1))
  moreover have "moved (bank_led b) src dst x key l"
    using moved_after_lookup [OF same_money_trans [OF g1(2) g2(2)] l(2)] .
  ultimately show ?thesis using p(2) l(1) by auto
qed

text \<open>The same with the destination looked up first.\<close>

lemma dst_first_Inr:
  assumes a: "db_account (fst dst) (snd dst) d0 = (a, d1)" and c: "db_account (fst src) (snd src) d1 = (c, d2)"
    and p: "db_post now (transfer_args kind x key pay memo by (acc_id c) (acc_id a)) d2 = Inr (t, d3)"
    and ok: "ledger_ok (led d0)" and ne: "src \<noteq> dst" and x: "whole_cents x"
  shows "\<exists>l. d3 = d0\<lparr>led := l\<rparr> \<and> moved (led d0) src dst x key l"
proof -
  note g1 = db_account_spec [OF a ok]
  note g2 = db_account_spec [OF c g1(1)]
  have keep: "acct_of (led d1) ow = Some n \<Longrightarrow> acct_of (led d2) ow = Some n" for ow n
    using g2(2) by (cases ow) (simp add: same_money_def)
  have d: "acct_of (led d2) dst = Some (acc_id a)" by (rule keep) (use g1(3) in simp)
  have s: "acct_of (led d2) src = Some (acc_id c)" using g2(3) by simp
  obtain l where l: "d3 = d2\<lparr>led := l\<rparr>" "moved (led d2) src dst x key l"
    using post_between [OF g2(1) s d ne x _ p] by (auto simp: transfer_args_def)
  have "d2\<lparr>led := l\<rparr> = d0\<lparr>led := l\<rparr>" using g1(4) g2(4) by (metis db.surjective db.update_convs(1))
  then show ?thesis using l(1) moved_after_lookup [OF same_money_trans [OF g1(2) g2(2)] l(2)] by auto
qed

lemma take_back_Inr:
  assumes tb: "take_back now key row b = Inr (t, b')" and ok: "ledger_ok (bank_led b)" and x: "whole_cents (bn_amount row)"
  shows "\<exists>l. b' = b\<lparr>bk_db := (bk_db b)\<lparr>led := l\<rparr>\<rparr> \<and> moved (bank_led b) (bonus_owner (bn_user row)) promo_owner (bn_amount row) key l"
proof -
  obtain a d1 where a: "db_account None ''promo_expense'' (bk_db b) = (a, d1)" by force
  obtain c d2 where c: "db_account (Some (bn_user row)) ''user_bonus'' d1 = (c, d2)" by force
  obtain d3 where p: "db_post now (transfer_args ''bonus_grant'' (bn_amount row) key None None ''system'' (acc_id c) (acc_id a)) d2 = Inr (t, d3)"
      "b' = b\<lparr>bk_db := d3\<rparr>"
    using tb by (auto simp: take_back_def a c on_db_Inr)
  show ?thesis
    using dst_first_Inr [where dst = promo_owner and src = "bonus_owner (bn_user row)", OF _ _ p(1) ok _ x] a c p(2) by auto
qed

subsection \<open>What a row owes\<close>

definition live_payout :: "payment \<Rightarrow> bool" where
  "live_payout p \<longleftrightarrow> pm_direction p = ''out'' \<and> pm_status p \<in> {''review'', ''approved'', ''processing''}"

text \<open>The keys under which a payout can end, and the one its status says it ended under.\<close>

definition ending_keys :: "payment \<Rightarrow> string set" where
  "ending_keys p = {payout_settle_key (pm_our_ref p), payout_reverse_key (pm_our_ref p), manual_settle_key (pm_our_ref p),
     manual_fail_key (pm_id p), payout_reject_key (pm_id p)}"

definition taken_ending :: "payment \<Rightarrow> string set" where
  "taken_ending p =
     (if pm_status p = ''succeeded'' then {if pm_provider p = ''manual'' then manual_settle_key (pm_our_ref p) else payout_settle_key (pm_our_ref p)}
      else if pm_status p = ''failed'' then {if pm_provider p = ''manual'' then manual_fail_key (pm_id p) else payout_reverse_key (pm_our_ref p)}
      else if pm_status p = ''rejected'' then {payout_reject_key (pm_id p)} else {})"

definition deposit_row_ok :: "string set \<Rightarrow> payment \<Rightarrow> bool" where
  "deposit_row_ok K p \<longleftrightarrow> pm_direction p = ''in'' \<and> take 4 (pm_our_ref p) = ''DEP-'' \<and> (pm_status p = ''succeeded'' \<longrightarrow> pm_our_ref p \<in> K)"

definition payout_row_ok :: "(string \<Rightarrow> bool) \<Rightarrow> string set \<Rightarrow> payment \<Rightarrow> bool" where
  "payout_row_ok paid K p \<longleftrightarrow> pm_direction p = ''out'' \<and> take 3 (pm_our_ref p) = ''WD-'' \<and> pm_our_ref p \<in> K
     \<and> pm_status p \<in> {''review'', ''approved'', ''processing'', ''succeeded'', ''failed'', ''rejected''}
     \<and> ending_keys p \<inter> K = taken_ending p
     \<and> (pm_provider p = ''manual'' \<longrightarrow> pm_status p \<noteq> ''processing'')
     \<and> (pm_provider p \<noteq> ''manual'' \<longrightarrow> (pm_status p = ''succeeded'' \<longrightarrow> paid (pm_our_ref p)) \<and> (pm_status p = ''failed'' \<longrightarrow> \<not> paid (pm_our_ref p)))"

definition payment_ok :: "(string \<Rightarrow> bool) \<Rightarrow> string set \<Rightarrow> payment \<Rightarrow> bool" where
  "payment_ok paid K p \<longleftrightarrow> whole_cents (pm_amount p) \<and> 0 < pm_amount p \<and> (deposit_row_ok K p \<or> payout_row_ok paid K p)"

text \<open>A key of a payment is used only when its row exists.\<close>

definition payment_keys_known :: "string set \<Rightarrow> payment list \<Rightarrow> bool" where
  "payment_keys_known K ps \<longleftrightarrow>
     (\<forall>r. payout_settle_key r \<in> K \<or> payout_reverse_key r \<in> K \<or> manual_settle_key r \<in> K \<longrightarrow> r \<in> pm_our_ref ` set ps)
     \<and> (\<forall>i. manual_fail_key i \<in> K \<or> payout_reject_key i \<in> K \<longrightarrow> i \<in> pm_id ` set ps)
     \<and> (\<forall>k\<in>K. take 4 k = ''DEP-'' \<or> take 3 k = ''WD-'' \<longrightarrow> k \<in> pm_our_ref ` set ps)"

definition payments_ok :: "(string \<Rightarrow> bool) \<Rightarrow> string set \<Rightarrow> payment list \<Rightarrow> bool" where
  "payments_ok paid K ps \<longleftrightarrow> map pm_id ps = map (\<lambda>n. int n + 1) [0..<length ps] \<and> distinct (map pm_our_ref ps)
     \<and> (\<forall>p\<in>set ps. payment_ok paid K p) \<and> payment_keys_known K ps"

definition bonus_keys :: "int \<Rightarrow> string set" where
  "bonus_keys i = {bonus_convert_key i, bonus_expire_key i, bonus_revoke_key i}"

definition bonus_ok :: "string set \<Rightarrow> bonus \<Rightarrow> bool" where
  "bonus_ok K x \<longleftrightarrow> whole_cents (bn_amount x) \<and> bn_status x \<in> {''active'', ''converted'', ''expired'', ''revoked''}
     \<and> (bn_status x = ''active'' \<longrightarrow> bonus_keys (bn_id x) \<inter> K = {})"

definition bonuses_ok :: "string set \<Rightarrow> bonus list \<Rightarrow> bool" where
  "bonuses_ok K xs \<longleftrightarrow> map bn_id xs = map (\<lambda>n. int n + 1) [0..<length xs] \<and> (\<forall>x\<in>set xs. bonus_ok K x)
     \<and> (\<forall>i. bonus_keys i \<inter> K \<noteq> {} \<longrightarrow> i \<in> bn_id ` set xs)"

subsection \<open>The four accounts\<close>

definition locked_for :: "int \<Rightarrow> payment list \<Rightarrow> money" where
  "locked_for u ps = sum_list (map (\<lambda>p. if live_payout p \<and> pm_user p = u then pm_amount p else 0) ps)"

text \<open>What the provider holds for the platform, seen from the platform: less what came in, plus what it paid out.\<close>

definition provider_flow :: "string set \<Rightarrow> payment list \<Rightarrow> money" where
  "provider_flow K ps = sum_list (map (\<lambda>p.
     if pm_direction p = ''in'' then (if pm_our_ref p \<in> K then - pm_amount p else 0)
     else if pm_status p = ''succeeded'' then pm_amount p else 0) ps)"

definition bonus_held :: "int \<Rightarrow> bonus list \<Rightarrow> money" where
  "bonus_held u xs = sum_list (map (\<lambda>x. if bn_status x = ''active'' \<and> bn_user x = u then bn_amount x else 0) xs)"

definition promo_spent :: "bonus list \<Rightarrow> money" where
  "promo_spent xs = sum_list (map (\<lambda>x. if bn_status x \<in> {''active'', ''converted''} then bn_amount x else 0) xs)"

definition books_match :: "(owner \<Rightarrow> money) \<Rightarrow> string set \<Rightarrow> payment list \<Rightarrow> bonus list \<Rightarrow> bool" where
  "books_match bal K ps xs \<longleftrightarrow>
     (\<forall>u. bal (locked_owner u) = locked_for u ps) \<and> bal provider_owner = provider_flow K ps
     \<and> (\<forall>u. bal (bonus_owner u) = bonus_held u xs) \<and> bal promo_owner = - promo_spent xs"

subsection \<open>Evidence\<close>

text \<open>
  A redeemed row names its user and its payment, whose amount and user are its own; no other row names a
  payment, and no two rows name the same one.
\<close>

definition evidence_row_ok :: "payment list \<Rightarrow> evidence \<Rightarrow> bool" where
  "evidence_row_ok ps v \<longleftrightarrow> whole_cents (ev_amount v) \<and>
     (if ev_status v = ''redeemed'' then \<exists>p\<in>set ps. ev_payment v = Some (pm_id p) \<and> ev_redeemed_by v = Some (pm_user p)
          \<and> pm_provider p = ''telebirr_sms'' \<and> pm_amount p = ev_amount v
      else ev_payment v = None \<and> ev_redeemed_by v = None)"

definition evidence_ok :: "payment list \<Rightarrow> evidence list \<Rightarrow> bool" where
  "evidence_ok ps vs \<longleftrightarrow> map ev_id vs = map (\<lambda>n. int n + 1) [0..<length vs] \<and> distinct (map ev_reference vs)
     \<and> (\<forall>v\<in>set vs. evidence_row_ok ps v)
     \<and> (\<forall>p\<in>set ps. length (filter (\<lambda>v. ev_payment v = Some (pm_id p)) vs) = (if pm_provider p = ''telebirr_sms'' then 1 else 0))"

definition rules_ok :: "bonus_rule list \<Rightarrow> bool" where
  "rules_ok rs \<longleftrightarrow> (\<forall>r\<in>set rs. whole_cents (br_reward_amount r) \<and> (\<forall>c. br_reward_cap r = Some c \<longrightarrow> whole_cents c))"

definition bank_ok :: "(string \<Rightarrow> bool) \<Rightarrow> bank \<Rightarrow> bool" where
  "bank_ok paid b \<longleftrightarrow> ledger_ok (bank_led b)
     \<and> payments_ok paid (tkeys (bank_led b)) (bk_payments b) \<and> bonuses_ok (tkeys (bank_led b)) (bk_bonuses b)
     \<and> books_match (obal (bank_led b)) (tkeys (bank_led b)) (bk_payments b) (bk_bonuses b)
     \<and> evidence_ok (bk_payments b) (bk_evidence b) \<and> rules_ok (bk_rules b)"

subsection \<open>Keys\<close>

lemma bank_key_inj [simp]:
  "payout_settle_key r = payout_settle_key s \<longleftrightarrow> r = s" "payout_reverse_key r = payout_reverse_key s \<longleftrightarrow> r = s"
  "manual_settle_key r = manual_settle_key s \<longleftrightarrow> r = s" "manual_fail_key i = manual_fail_key j \<longleftrightarrow> i = j"
  "payout_reject_key i = payout_reject_key j \<longleftrightarrow> i = j" "bonus_convert_key i = bonus_convert_key j \<longleftrightarrow> i = j"
  "bonus_expire_key i = bonus_expire_key j \<longleftrightarrow> i = j" "bonus_revoke_key i = bonus_revoke_key j \<longleftrightarrow> i = j"
  by (simp_all add: payout_settle_key_def payout_reverse_key_def manual_settle_key_def manual_fail_key_def payout_reject_key_def
      bonus_convert_key_def bonus_expire_key_def bonus_revoke_key_def str_int_inj)

lemmas bank_key_defs = payout_settle_key_def payout_reverse_key_def manual_settle_key_def manual_fail_key_def
  payout_reject_key_def bonus_convert_key_def bonus_expire_key_def bonus_revoke_key_def

lemma bank_keys_distinct [simp]:
  "payout_settle_key r \<noteq> payout_reverse_key s" "payout_reverse_key s \<noteq> payout_settle_key r"
  "payout_settle_key r \<noteq> manual_settle_key s" "manual_settle_key s \<noteq> payout_settle_key r"
  "payout_settle_key r \<noteq> manual_fail_key i" "manual_fail_key i \<noteq> payout_settle_key r"
  "payout_settle_key r \<noteq> payout_reject_key i" "payout_reject_key i \<noteq> payout_settle_key r"
  "payout_reverse_key r \<noteq> manual_settle_key s" "manual_settle_key s \<noteq> payout_reverse_key r"
  "payout_reverse_key r \<noteq> manual_fail_key i" "manual_fail_key i \<noteq> payout_reverse_key r"
  "payout_reverse_key r \<noteq> payout_reject_key i" "payout_reject_key i \<noteq> payout_reverse_key r"
  "manual_settle_key r \<noteq> manual_fail_key i" "manual_fail_key i \<noteq> manual_settle_key r"
  "manual_settle_key r \<noteq> payout_reject_key i" "payout_reject_key i \<noteq> manual_settle_key r"
  "manual_fail_key i \<noteq> payout_reject_key j" "payout_reject_key j \<noteq> manual_fail_key i"
  "bonus_convert_key i \<noteq> bonus_expire_key j" "bonus_expire_key j \<noteq> bonus_convert_key i"
  "bonus_convert_key i \<noteq> bonus_revoke_key j" "bonus_revoke_key j \<noteq> bonus_convert_key i"
  "bonus_expire_key i \<noteq> bonus_revoke_key j" "bonus_revoke_key j \<noteq> bonus_expire_key i"
  by (simp_all add: bank_key_defs)

text \<open>The key families the books look at, by their first characters.\<close>

definition payment_key :: "string \<Rightarrow> bool" where
  "payment_key k \<longleftrightarrow> take 4 k = ''DEP-'' \<or> take 3 k = ''WD-'' \<or> take 7 k = ''payout-'' \<or> take 14 k = ''manual-payout-''"

definition bonus_key :: "string \<Rightarrow> bool" where
  "bonus_key k \<longleftrightarrow> take 6 k = ''bonus-''"

lemma ending_is_payment_key:
  "payment_key (payout_settle_key r)" "payment_key (payout_reverse_key r)" "payment_key (manual_settle_key r)"
  "payment_key (manual_fail_key i)" "payment_key (payout_reject_key i)"
  by (simp_all add: payment_key_def bank_key_defs)

lemma bonus_keys_are: "k \<in> bonus_keys i \<Longrightarrow> bonus_key k"
  by (auto simp: bonus_keys_def bonus_key_def bank_key_defs)

lemma ending_keys_are: "k \<in> ending_keys p \<Longrightarrow> payment_key k"
  using ending_is_payment_key by (auto simp: ending_keys_def)

lemma payment_key_not_bonus: "payment_key k \<Longrightarrow> \<not> bonus_key k"
  by (cases k) (auto simp: payment_key_def bonus_key_def)

lemma ref_not_ending: "take 4 r = ''DEP-'' \<or> take 3 r = ''WD-'' \<Longrightarrow> r \<notin> ending_keys p"
  by (auto simp: ending_keys_def bank_key_defs)

end
