(* ===== verification/Tables.thy ===== *)
theory Tables
  imports Prelude
begin

text \<open>
  Tables whose rows are numbered as they come, and updates of the rows with one key: what the lemmas about the payments
  and the SMS control plane share.
\<close>

lemma numbered_distinct:
  assumes "map f xs = map (\<lambda>n. int n + 1) [0..<length xs]" shows "distinct (map f xs)"
  unfolding assms by (simp add: distinct_map inj_on_def)

lemma numbered_unique:
  assumes "map f xs = map (\<lambda>n. int n + 1) [0..<length xs]" "x \<in> set xs" "y \<in> set xs" "f x = f y" shows "x = y"
proof -
  have "inj_on f (set xs)" using numbered_distinct [OF assms(1)] unfolding distinct_map by blast
  then show ?thesis by (rule inj_onD) (use assms(2-4) in simp_all)
qed

lemma numbered_mem:
  assumes "map f xs = map (\<lambda>n. int n + 1) [0..<length xs]"
  shows "i \<in> f ` set xs \<longleftrightarrow> 1 \<le> i \<and> i \<le> int (length xs)"
proof -
  have "f ` set xs = (\<lambda>n. int n + 1) ` {0..<length xs}" using assms by (metis set_map set_upt)
  then show ?thesis by (auto intro: image_eqI [of _ _ "nat (i - 1)"])
qed

lemma numbered_append:
  assumes "map f xs = map (\<lambda>n. int n + 1) [0..<length xs]" "f x = int (length xs) + 1"
  shows "map f (xs @ [x]) = map (\<lambda>n. int n + 1) [0..<length (xs @ [x])]"
  using assms by simp

text \<open>An update of the rows with one key, seen through a column it keeps and row by row.\<close>

lemma column_kept:
  assumes "\<And>y. y \<in> set xs \<Longrightarrow> k y = i \<Longrightarrow> g (f y) = g y" shows "map g (map (\<lambda>y. if k y = i then f y else y) xs) = map g xs"
  using assms by (induction xs) auto

lemma updated_row_cases:
  assumes "y \<in> set (map (\<lambda>y. if k y = i then f y else y) xs)"
  obtains (hit) z where "z \<in> set xs" "k z = i" "y = f z" | (old) "y \<in> set xs" "k y \<noteq> i"
  using assms by (auto split: if_splits)

end
