(* ===== verification/Bank_Keeps.thy ===== *)
theory Bank_Keeps
  imports Bank_Books Tables
begin

text \<open>
  How the books change: one row updated, one row added, one key used. Each operation of the payments side is
  a combination of these.
\<close>

subsection \<open>Rows\<close>

lemma payments_okD:
  assumes "payments_ok paid K ps"
  shows "distinct (map pm_id ps)" "distinct (map pm_our_ref ps)" "\<And>p. p \<in> set ps \<Longrightarrow> payment_ok paid K p" "payment_keys_known K ps"
    "map pm_id ps = map (\<lambda>n. int n + 1) [0..<length ps]"
  using assms numbered_distinct [of pm_id ps] by (auto simp: payments_ok_def)

lemma payment_row_unique: "payments_ok paid K ps \<Longrightarrow> p \<in> set ps \<Longrightarrow> q \<in> set ps \<Longrightarrow> pm_id p = pm_id q \<Longrightarrow> p = q"
  using payments_okD(1) by (auto simp: distinct_map dest: inj_onD)

lemma payment_ref_unique: "payments_ok paid K ps \<Longrightarrow> p \<in> set ps \<Longrightarrow> q \<in> set ps \<Longrightarrow> pm_our_ref p = pm_our_ref q \<Longrightarrow> p = q"
  using payments_okD(2) by (auto simp: distinct_map dest: inj_onD)

lemma ending_keys_disjoint:
  assumes "payments_ok paid K ps" "p \<in> set ps" "q \<in> set ps" "p \<noteq> q" "e \<in> ending_keys p" shows "e \<notin> ending_keys q"
  using assms(5) payment_row_unique [OF assms(1-3)] payment_ref_unique [OF assms(1-3)] assms(4)
  by (auto simp: ending_keys_def)

lemma payment_ok_insert:
  assumes "payment_ok paid K q" "e \<notin> ending_keys q" shows "payment_ok paid (insert e K) q"
proof -
  have "ending_keys q \<inter> insert e K = ending_keys q \<inter> K" using assms(2) by auto
  then show ?thesis using assms(1) by (auto simp: payment_ok_def deposit_row_ok_def payout_row_ok_def)
qed

lemma known_insert_ending:
  assumes "payment_keys_known K ps" "p \<in> set ps" "e \<in> ending_keys p" shows "payment_keys_known (insert e K) ps"
proof -
  have "\<not> (take 4 e = ''DEP-'' \<or> take 3 e = ''WD-'')" using assms(3) ref_not_ending by blast
  then show ?thesis using assms by (auto simp: payment_keys_known_def ending_keys_def)
qed

lemma known_insert_ref:
  assumes "payment_keys_known K ps" "take 4 k = ''DEP-'' \<or> take 3 k = ''WD-''" "k \<in> pm_our_ref ` set ps"
  shows "payment_keys_known (insert k K) ps"
proof -
  have "k \<noteq> payout_settle_key r" "k \<noteq> payout_reverse_key r" "k \<noteq> manual_settle_key r" "k \<noteq> manual_fail_key i" "k \<noteq> payout_reject_key i" for r i
    using assms(2) by (auto simp: bank_key_defs)
  then show ?thesis using assms unfolding payment_keys_known_def by (metis insert_iff)
qed

lemma known_insert_other:
  assumes "payment_keys_known K ps" "\<not> payment_key k" shows "payment_keys_known (insert k K) ps"
proof -
  have "k \<noteq> payout_settle_key r" "k \<noteq> payout_reverse_key r" "k \<noteq> manual_settle_key r" "k \<noteq> manual_fail_key i" "k \<noteq> payout_reject_key i" for r i
    using assms(2) ending_is_payment_key by blast+
  then show ?thesis using assms unfolding payment_keys_known_def payment_key_def by (metis insert_iff)
qed

lemma known_append: "payment_keys_known K ps \<Longrightarrow> payment_keys_known K (ps @ [p])"
  by (auto simp: payment_keys_known_def)

text \<open>A key that is not of a payment changes nothing for the payments.\<close>

lemma payments_ok_other:
  assumes "payments_ok paid K ps" "\<not> payment_key k" shows "payments_ok paid (insert k K) ps"
  using assms known_insert_other [OF _ assms(2)] payment_ok_insert ending_keys_are
  unfolding payments_ok_def by blast

abbreviation set_payment :: "int \<Rightarrow> (payment \<Rightarrow> payment) \<Rightarrow> payment list \<Rightarrow> payment list" where
  "set_payment i f ps \<equiv> map (\<lambda>p. if pm_id p = i then f p else p) ps"

lemma payments_ok_update:
  assumes ok: "payments_ok paid K ps" and p: "p \<in> set ps" "pm_id p = i"
    and f: "pm_id (f p) = i" "pm_our_ref (f p) = pm_our_ref p" "payment_ok paid K' (f p)"
    and others: "\<And>q. q \<in> set ps \<Longrightarrow> q \<noteq> p \<Longrightarrow> payment_ok paid K' q" and known: "payment_keys_known K' ps"
  shows "payments_ok paid K' (set_payment i f ps)"
proof -
  have u: "q = p" if "q \<in> set ps" "pm_id q = i" for q using payment_row_unique [OF ok that(1) p(1)] that(2) p(2) by simp
  have ids: "map pm_id (set_payment i f ps) = map pm_id ps" by (rule column_kept) (metis u f(1) p(2))
  have refs: "map pm_our_ref (set_payment i f ps) = map pm_our_ref ps" by (rule column_kept) (metis u f(2))
  have rows: "payment_ok paid K' q" if "q \<in> set (set_payment i f ps)" for q
    using that
  proof (cases rule: updated_row_cases)
    case (hit z)
    then show ?thesis using u [OF hit(1,2)] f(3) by simp
  next
    case old
    then show ?thesis using others p(2) by blast
  qed
  have sets: "pm_id ` set (set_payment i f ps) = pm_id ` set ps" "pm_our_ref ` set (set_payment i f ps) = pm_our_ref ` set ps"
    using ids refs by (metis list.set_map)+
  have known': "payment_keys_known K' (set_payment i f ps)" using known unfolding payment_keys_known_def sets .
  show ?thesis
    unfolding payments_ok_def ids refs length_map
    by (intro conjI ballI payments_okD(2,5) [OF ok] rows known')
qed

lemma payments_ok_append:
  assumes ok: "payments_ok paid K ps" and p: "pm_id p = int (length ps) + 1" "pm_our_ref p \<notin> pm_our_ref ` set ps" "payment_ok paid K p"
  shows "payments_ok paid K (ps @ [p])"
  using payments_okD [OF ok] p known_append numbered_append [of pm_id ps p] unfolding payments_ok_def by auto

text \<open>No ending of a new payment is used yet.\<close>

lemma new_payment_endings:
  assumes ok: "payments_ok paid K ps" and p: "pm_id p = int (length ps) + 1" "pm_our_ref p \<notin> pm_our_ref ` set ps"
  shows "ending_keys p \<inter> K = {}"
proof -
  have "pm_id p \<notin> pm_id ` set ps" using numbered_mem [OF payments_okD(5) [OF ok]] p(1) by simp
  then show ?thesis using payments_okD(4) [OF ok] p(2) unfolding payment_keys_known_def ending_keys_def by auto
qed

subsection \<open>Sums\<close>

lemma locked_for_update:
  assumes "payments_ok paid K ps" "p \<in> set ps" "pm_id p = i"
  shows "locked_for u (set_payment i f ps) = locked_for u ps - (if live_payout p \<and> pm_user p = u then pm_amount p else 0)
    + (if live_payout (f p) \<and> pm_user (f p) = u then pm_amount (f p) else 0)"
  unfolding locked_for_def by (rule sum_list_upd [OF payments_okD(1) [OF assms(1)] assms(2,3)])

lemma provider_flow_update:
  assumes "payments_ok paid K' ps" "p \<in> set ps" "pm_id p = i"
  shows "provider_flow K (set_payment i f ps) = provider_flow K ps
    - (if pm_direction p = ''in'' then (if pm_our_ref p \<in> K then - pm_amount p else 0) else if pm_status p = ''succeeded'' then pm_amount p else 0)
    + (if pm_direction (f p) = ''in'' then (if pm_our_ref (f p) \<in> K then - pm_amount (f p) else 0)
       else if pm_status (f p) = ''succeeded'' then pm_amount (f p) else 0)"
  unfolding provider_flow_def by (rule sum_list_upd [OF payments_okD(1) [OF assms(1)] assms(2,3)])

lemma provider_flow_other:
  assumes "\<And>p. p \<in> set ps \<Longrightarrow> pm_direction p = ''in'' \<Longrightarrow> pm_our_ref p \<noteq> k"
  shows "provider_flow (insert k K) ps = provider_flow K ps"
  unfolding provider_flow_def using assms by (intro arg_cong [of _ _ sum_list] map_cong) auto

text \<open>The key of a deposit counts its amount once.\<close>

lemma provider_flow_credit:
  assumes "distinct (map pm_our_ref ps)" "p \<in> set ps" "pm_direction p = ''in''" "pm_our_ref p \<notin> K"
  shows "provider_flow (insert (pm_our_ref p) K) ps = provider_flow K ps - pm_amount p"
  using assms
proof (induction ps)
  case (Cons q ps)
  show ?case
  proof (cases "q = p")
    case True
    have "pm_our_ref p \<notin> pm_our_ref ` set ps" using Cons.prems(1) True by simp
    then have "provider_flow (insert (pm_our_ref p) K) ps = provider_flow K ps"
      by (intro provider_flow_other) (metis image_eqI)
    then show ?thesis using Cons.prems(3,4) True by (simp add: provider_flow_def)
  next
    case False
    then have "p \<in> set ps" "pm_our_ref q \<noteq> pm_our_ref p" using Cons.prems by force+
    then show ?thesis using Cons.IH Cons.prems by (simp add: provider_flow_def)
  qed
qed simp

lemma locked_for_append: "locked_for u (ps @ [p]) = locked_for u ps + (if live_payout p \<and> pm_user p = u then pm_amount p else 0)"
  by (simp add: locked_for_def)

lemma provider_flow_append:
  "provider_flow K (ps @ [p]) = provider_flow K ps + (if pm_direction p = ''in'' then (if pm_our_ref p \<in> K then - pm_amount p else 0)
     else if pm_status p = ''succeeded'' then pm_amount p else 0)"
  by (simp add: provider_flow_def)

subsection \<open>Bonuses\<close>

lemma bonuses_okD:
  assumes "bonuses_ok K xs"
  shows "distinct (map bn_id xs)" "\<And>x. x \<in> set xs \<Longrightarrow> bonus_ok K x" "map bn_id xs = map (\<lambda>n. int n + 1) [0..<length xs]"
    "\<And>i. bonus_keys i \<inter> K \<noteq> {} \<Longrightarrow> i \<in> bn_id ` set xs"
  using assms numbered_distinct [of bn_id xs] by (auto simp: bonuses_ok_def)

lemma bonus_row_unique: "bonuses_ok K xs \<Longrightarrow> x \<in> set xs \<Longrightarrow> y \<in> set xs \<Longrightarrow> bn_id x = bn_id y \<Longrightarrow> x = y"
  using bonuses_okD(1) by (auto simp: distinct_map dest: inj_onD)

lemma bonus_keys_disjoint: "i \<noteq> j \<Longrightarrow> e \<in> bonus_keys i \<Longrightarrow> e \<notin> bonus_keys j"
  by (auto simp: bonus_keys_def)

lemma bonuses_ok_other:
  assumes "bonuses_ok K xs" "\<not> bonus_key k" shows "bonuses_ok (insert k K) xs"
proof -
  have "bonus_keys i \<inter> insert k K = bonus_keys i \<inter> K" for i using assms(2) bonus_keys_are by auto
  then show ?thesis using assms(1) by (simp add: bonuses_ok_def bonus_ok_def)
qed

abbreviation set_bonus :: "int \<Rightarrow> (bonus \<Rightarrow> bonus) \<Rightarrow> bonus list \<Rightarrow> bonus list" where
  "set_bonus i f xs \<equiv> map (\<lambda>x. if bn_id x = i then f x else x) xs"

lemma bonuses_ok_update:
  assumes ok: "bonuses_ok K xs" and x: "x \<in> set xs" "bn_id x = i"
    and f: "bn_id (f x) = i" "bonus_ok K' (f x)" and K': "K' = K \<or> (\<exists>e\<in>bonus_keys i. K' = insert e K)"
  shows "bonuses_ok K' (set_bonus i f xs)"
proof -
  have u: "y = x" if "y \<in> set xs" "bn_id y = i" for y using bonus_row_unique [OF ok that(1) x(1)] that(2) x(2) by simp
  have ids: "map bn_id (set_bonus i f xs) = map bn_id xs" by (rule column_kept) (metis u f(1) x(2))
  have keys: "bonus_keys j \<inter> K' = bonus_keys j \<inter> K" if "j \<noteq> i" for j
    using K' bonus_keys_disjoint [OF that [symmetric]] by auto
  have rows: "bonus_ok K' y" if "y \<in> set (set_bonus i f xs)" for y
    using that
  proof (cases rule: updated_row_cases)
    case (hit z)
    then show ?thesis using u [OF hit(1,2)] f(2) by simp
  next
    case old
    then show ?thesis using bonuses_okD(2) [OF ok old(1)] keys [OF old(2)] by (simp add: bonus_ok_def)
  qed
  have mem: "j \<in> bn_id ` set (set_bonus i f xs)" if j: "bonus_keys j \<inter> K' \<noteq> {}" for j
  proof -
    have "j \<in> bn_id ` set xs"
    proof (cases "j = i")
      case True
      then show ?thesis using x by blast
    next
      case False
      then show ?thesis using j keys [OF False] bonuses_okD(4) [OF ok, of j] by simp
    qed
    then show ?thesis using ids by (metis list.set_map)
  qed
  show ?thesis
    unfolding bonuses_ok_def ids length_map
    by (intro conjI ballI allI impI bonuses_okD(3) [OF ok] rows mem)
qed

lemma bonuses_ok_append:
  assumes ok: "bonuses_ok K xs" and x: "bn_id x = int (length xs) + 1" "whole_cents (bn_amount x)" "bn_status x = ''active''"
  shows "bonuses_ok K (xs @ [x])"
proof -
  have "bn_id x \<notin> bn_id ` set xs" using numbered_mem [OF bonuses_okD(3) [OF ok]] x(1) by simp
  then have "bonus_keys (bn_id x) \<inter> K = {}" using bonuses_okD(4) [OF ok] by blast
  then have "bonus_ok K x" using x by (simp add: bonus_ok_def)
  then show ?thesis
    using ok numbered_append [of bn_id xs x, OF bonuses_okD(3) [OF ok] x(1)] unfolding bonuses_ok_def by auto
qed

lemma bonus_held_update:
  assumes "bonuses_ok K xs" "x \<in> set xs" "bn_id x = i"
  shows "bonus_held u (set_bonus i f xs) = bonus_held u xs - (if bn_status x = ''active'' \<and> bn_user x = u then bn_amount x else 0)
    + (if bn_status (f x) = ''active'' \<and> bn_user (f x) = u then bn_amount (f x) else 0)"
  unfolding bonus_held_def by (rule sum_list_upd [OF bonuses_okD(1) [OF assms(1)] assms(2,3)])

lemma promo_spent_update:
  assumes "bonuses_ok K xs" "x \<in> set xs" "bn_id x = i"
  shows "promo_spent (set_bonus i f xs) = promo_spent xs - (if bn_status x \<in> {''active'', ''converted''} then bn_amount x else 0)
    + (if bn_status (f x) \<in> {''active'', ''converted''} then bn_amount (f x) else 0)"
  unfolding promo_spent_def by (rule sum_list_upd [OF bonuses_okD(1) [OF assms(1)] assms(2,3)])

end
