(* ===== verification/Bank_Moves.thy ===== *)
theory Bank_Moves
  imports Bank_Keeps
begin

text \<open>
  The kinds of transactions of the payments side, each shown to keep \<open>bank_ok\<close>: a row changed without money, a
  payout ended, a deposit credited, a payment opened, a bonus granted or ended, money moved elsewhere.
\<close>

lemma bank_okD:
  assumes "bank_ok paid b"
  shows "ledger_ok (bank_led b)" "payments_ok paid (tkeys (bank_led b)) (bk_payments b)" "bonuses_ok (tkeys (bank_led b)) (bk_bonuses b)"
    "books_match (obal (bank_led b)) (tkeys (bank_led b)) (bk_payments b) (bk_bonuses b)" "evidence_ok (bk_payments b) (bk_evidence b)"
    "rules_ok (bk_rules b)"
  using assms by (simp_all add: bank_ok_def)

lemma bank_ok_fields [simp]:
  "bank_ok paid (b\<lparr>bk_ref_seq := n\<rparr>) = bank_ok paid b" "bank_ok paid (b\<lparr>bk_events := es\<rparr>) = bank_ok paid b"
  "bank_ok paid (b\<lparr>bk_methods := ms\<rparr>) = bank_ok paid b" "bank_ok paid (b\<lparr>bk_destinations := ds\<rparr>) = bank_ok paid b"
  "bank_ok paid (b\<lparr>bk_profiles := fs\<rparr>) = bank_ok paid b"
  by (simp_all add: bank_ok_def)

lemma bank_ok_same_ledger: "bank_ok paid b \<Longrightarrow> led d = bank_led b \<Longrightarrow> bank_ok paid (b\<lparr>bk_db := d\<rparr>)"
  by (simp add: bank_ok_def)

lemma bank_ok_replay:
  assumes "bank_ok paid b" "moved (bank_led b) src dst x key l" "key \<in> tkeys (bank_led b)"
  shows "bank_ok paid (b\<lparr>bk_db := (bk_db b)\<lparr>led := l\<rparr>\<rparr>)"
  using assms by (simp add: bank_ok_def moved_def)

subsection \<open>Payments\<close>

definition row_identity :: "payment \<Rightarrow> int \<times> int \<times> string \<times> string \<times> string \<times> money" where
  "row_identity p = (pm_id p, pm_user p, pm_direction p, pm_provider p, pm_our_ref p, pm_amount p)"

lemma row_identityD:
  assumes "row_identity q = row_identity p"
  shows "pm_id q = pm_id p" "pm_user q = pm_user p" "pm_direction q = pm_direction p" "pm_provider q = pm_provider p"
    "pm_our_ref q = pm_our_ref p" "pm_amount q = pm_amount p"
  using assms by (simp_all add: row_identity_def)

text \<open>The evidence sees of the payments their identity only.\<close>

lemma evidence_ok_identity:
  assumes "map row_identity ps' = map row_identity ps" shows "evidence_ok ps' vs = evidence_ok ps vs"
proof -
  have s: "row_identity ` set ps' = row_identity ` set ps" using assms by (metis list.set_map)
  have ex: "(\<exists>p\<in>set qs. ev_payment v = Some (pm_id p) \<and> ev_redeemed_by v = Some (pm_user p) \<and> pm_provider p = ''telebirr_sms'' \<and> pm_amount p = ev_amount v)
      \<longleftrightarrow> (\<exists>(i, u, d, k, r, a)\<in>row_identity ` set qs. ev_payment v = Some i \<and> ev_redeemed_by v = Some u \<and> k = ''telebirr_sms'' \<and> a = ev_amount v)"
    for v qs by (simp add: row_identity_def)
  have all: "(\<forall>p\<in>set qs. length (filter (\<lambda>v. ev_payment v = Some (pm_id p)) vs) = (if pm_provider p = ''telebirr_sms'' then 1 else 0))
      \<longleftrightarrow> (\<forall>(i, u, d, k, r, a)\<in>row_identity ` set qs. length (filter (\<lambda>v. ev_payment v = Some i) vs) = (if k = ''telebirr_sms'' then 1 else 0))"
    for qs by (simp add: row_identity_def)
  show ?thesis unfolding evidence_ok_def evidence_row_ok_def ex all s ..
qed

lemma identity_set_payment:
  assumes "payments_ok paid K ps" "p \<in> set ps" "pm_id p = i" "row_identity (f p) = row_identity p"
  shows "map row_identity (set_payment i f ps) = map row_identity ps"
  by (rule column_kept) (metis payment_row_unique [OF assms(1)] assms(2-4))

lemma evidence_ok_append:
  assumes ev: "evidence_ok ps vs" and num: "map pm_id ps = map (\<lambda>n. int n + 1) [0..<length ps]"
    and p: "pm_id p = int (length ps) + 1" "pm_provider p \<noteq> ''telebirr_sms''"
  shows "evidence_ok (ps @ [p]) vs"
proof -
  have new: "pm_id p \<notin> pm_id ` set ps" using numbered_mem [OF num] p(1) by simp
  have "ev_payment v \<noteq> Some (pm_id p)" if "v \<in> set vs" for v
  proof
    assume a: "ev_payment v = Some (pm_id p)"
    then have "\<exists>q\<in>set ps. ev_payment v = Some (pm_id q)"
      using ev that unfolding evidence_ok_def evidence_row_ok_def by (metis option.distinct(1))
    then show False using new a by auto
  qed
  then have none: "filter (\<lambda>v. ev_payment v = Some (pm_id p)) vs = []" by (simp add: filter_empty_conv)
  have rows: "\<forall>v\<in>set vs. evidence_row_ok (ps @ [p]) v" using ev by (auto simp: evidence_ok_def evidence_row_ok_def)
  show ?thesis using ev none p(2) rows by (auto simp: evidence_ok_def)
qed

text \<open>A row changes and no money moves.\<close>

lemma row_changed:
  assumes ok: "bank_ok paid b" and p: "p \<in> set (bk_payments b)" "pm_id p = i" and id: "row_identity (f p) = row_identity p"
    and row: "payment_ok paid (tkeys (bank_led b)) (f p)" and live: "live_payout (f p) = live_payout p"
    and out: "pm_direction p = ''out'' \<Longrightarrow> (pm_status (f p) = ''succeeded'') = (pm_status p = ''succeeded'')"
  shows "bank_ok paid (update_payment i f b)"
proof -
  let ?K = "tkeys (bank_led b)" and ?ps = "bk_payments b"
  note d = bank_okD [OF ok] and i = row_identityD [OF id]
  have pay: "payments_ok paid ?K (set_payment i f ?ps)"
    by (rule payments_ok_update [where f = f, OF d(2) p _ _ row]) (use i p payments_okD [OF d(2)] in auto)
  have dir: "pm_direction p = ''in'' \<or> pm_direction p = ''out''"
    using payments_okD(3) [OF d(2) p(1)] by (auto simp: payment_ok_def deposit_row_ok_def payout_row_ok_def)
  have "locked_for u (set_payment i f ?ps) = locked_for u ?ps" for u
    using locked_for_update [OF d(2) p] live i by simp
  moreover have "provider_flow ?K (set_payment i f ?ps) = provider_flow ?K ?ps"
    using provider_flow_update [OF d(2) p] out i dir by auto
  ultimately have books: "books_match (obal (bank_led b)) ?K (set_payment i f ?ps) (bk_bonuses b)"
    using d(4) by (simp add: books_match_def)
  show ?thesis
    using d(1,3,6) pay books d(5) evidence_ok_identity [OF identity_set_payment [where f = f, OF d(2) p id]]
    by (simp add: bank_ok_def update_payment_def)
qed

text \<open>A payout in flight ends: its money leaves \<open>user_locked\<close> under one of its keys.\<close>

lemma payout_ended:
  assumes ok: "bank_ok paid b" and p: "p \<in> set (bk_payments b)" "pm_id p = i" and id: "row_identity (f p) = row_identity p"
    and live: "live_payout p" and e: "e \<in> ending_keys p" "taken_ending (f p) = {e}"
    and st: "pm_status (f p) \<in> {''succeeded'', ''failed'', ''rejected''}"
    and verdict: "pm_provider p \<noteq> ''manual'' \<Longrightarrow>
      (pm_status (f p) = ''succeeded'' \<longrightarrow> paid (pm_our_ref p)) \<and> (pm_status (f p) = ''failed'' \<longrightarrow> \<not> paid (pm_our_ref p))"
    and mv: "moved (bank_led b) (locked_owner (pm_user p)) dst (pm_amount p) e l"
    and dst: "dst = (if pm_status (f p) = ''succeeded'' then provider_owner else cash_owner (pm_user p))"
  shows "bank_ok paid (update_payment i f (b\<lparr>bk_db := (bk_db b)\<lparr>led := l\<rparr>\<rparr>))"
proof -
  let ?K = "tkeys (bank_led b)" and ?ps = "bk_payments b"
  note d = bank_okD [OF ok] and r = row_identityD [OF id]
  have out: "pm_direction p = ''out''" using live by (simp add: live_payout_def)
  have prow: "payout_row_ok paid ?K p" "whole_cents (pm_amount p)" "0 < pm_amount p"
    using payments_okD(3) [OF d(2) p(1)] out by (auto simp: payment_ok_def deposit_row_ok_def)
  have "taken_ending p = {}" using live by (auto simp: live_payout_def taken_ending_def)
  then have fresh: "ending_keys p \<inter> ?K = {}" using prow(1) by (simp add: payout_row_ok_def)
  then have eK: "e \<notin> ?K" using e(1) by blast
  note m = mv [unfolded moved_def, simplified eK if_False]
  have lok: "ledger_ok l" and bal: "obal l = (obal (bank_led b))(locked_owner (pm_user p) := obal (bank_led b) (locked_owner (pm_user p)) - pm_amount p,
      dst := obal (bank_led b) dst + pm_amount p)" and K': "tkeys l = insert e ?K"
    using m by simp_all
  have notref: "\<not> (take 4 e = ''DEP-'' \<or> take 3 e = ''WD-'')" using e(1) ref_not_ending by blast
  have ek: "ending_keys (f p) = ending_keys p" using r by (simp add: ending_keys_def)
  have ends: "ending_keys (f p) \<inter> insert e ?K = taken_ending (f p)" unfolding ek e(2) using fresh e(1) by blast
  have ref: "take 3 (pm_our_ref p) = ''WD-''" "pm_our_ref p \<in> ?K" using prow(1) by (simp_all only: payout_row_ok_def)
  have st': "pm_status (f p) \<noteq> ''processing''"
    "pm_status (f p) \<in> {''review'', ''approved'', ''processing'', ''succeeded'', ''failed'', ''rejected''}"
    using st by (elim insertE emptyE; simp)+
  have "payout_row_ok paid (insert e ?K) (f p)"
    unfolding payout_row_ok_def ends r using ref st' verdict out by simp
  then have row: "payment_ok paid (insert e ?K) (f p)" using prow(2,3) r by (simp add: payment_ok_def)
  have pay: "payments_ok paid (insert e ?K) (set_payment i f ?ps)"
  proof (rule payments_ok_update [where f = f, OF d(2) p _ _ row])
    show "payment_ok paid (insert e ?K) q" if "q \<in> set ?ps" "q \<noteq> p" for q
      using payment_ok_insert [OF payments_okD(3) [OF d(2) that(1)]] ending_keys_disjoint [OF d(2) p(1) that(1) that(2) [symmetric] e(1)] by blast
    show "payment_keys_known (insert e ?K) ?ps" by (rule known_insert_ending [OF payments_okD(4) [OF d(2)] p(1) e(1)])
  qed (use r p in auto)
  have bon: "bonuses_ok (insert e ?K) (bk_bonuses b)"
    by (rule bonuses_ok_other [OF d(3)]) (use ending_keys_are [OF e(1)] payment_key_not_bonus in blast)
  have nlive: "\<not> live_payout (f p)" using st by (auto simp: live_payout_def)
  have nsucc: "pm_status p \<noteq> ''succeeded''" using live by (auto simp: live_payout_def)
  have lf: "locked_for u (set_payment i f ?ps) = locked_for u ?ps - (if pm_user p = u then pm_amount p else 0)" for u
    using locked_for_update [OF d(2) p] live nlive by simp
  have "provider_flow (insert e ?K) ?ps = provider_flow ?K ?ps"
  proof (rule provider_flow_other)
    show "pm_our_ref q \<noteq> e" if "q \<in> set ?ps" "pm_direction q = ''in''" for q
      using payments_okD(3) [OF d(2) that(1)] that(2) notref by (auto simp: payment_ok_def deposit_row_ok_def payout_row_ok_def)
  qed
  then have pf: "provider_flow (insert e ?K) (set_payment i f ?ps)
      = provider_flow ?K ?ps + (if pm_status (f p) = ''succeeded'' then pm_amount p else 0)"
    using provider_flow_update [OF d(2) p, of "insert e ?K" f] out nsucc r by simp
  have books: "books_match (obal l) (insert e ?K) (set_payment i f ?ps) (bk_bonuses b)"
    using d(4) lf pf by (auto simp: books_match_def bal dst)
  show ?thesis
    using lok pay bon books d(6) d(5) evidence_ok_identity [OF identity_set_payment [where f = f, OF d(2) p id]]
    by (simp add: bank_ok_def update_payment_def K')
qed

text \<open>A deposit is credited under its reference.\<close>

lemma deposit_credited:
  assumes ok: "bank_ok paid b" and p: "p \<in> set (bk_payments b)" "pm_direction p = ''in''"
    and mv: "moved (bank_led b) provider_owner (cash_owner (pm_user p)) (pm_amount p) (pm_our_ref p) l"
  shows "bank_ok paid (b\<lparr>bk_db := (bk_db b)\<lparr>led := l\<rparr>\<rparr>)" "pm_our_ref p \<in> tkeys l"
proof -
  let ?K = "tkeys (bank_led b)" and ?ps = "bk_payments b" and ?r = "pm_our_ref p"
  note d = bank_okD [OF ok]
  show "pm_our_ref p \<in> tkeys l" using mv by (auto simp: moved_def split: if_splits)
  show "bank_ok paid (b\<lparr>bk_db := (bk_db b)\<lparr>led := l\<rparr>\<rparr>)"
  proof (cases "?r \<in> ?K")
    case True
    show ?thesis by (rule bank_ok_replay [OF ok mv True])
  next
    case False
    have dep: "take 4 ?r = ''DEP-''"
      using payments_okD(3) [OF d(2) p(1)] p(2) by (auto simp: payment_ok_def deposit_row_ok_def payout_row_ok_def)
    have lok: "ledger_ok l" and K': "tkeys l = insert ?r ?K" and bal: "obal l = (obal (bank_led b))(
        provider_owner := obal (bank_led b) provider_owner - pm_amount p, cash_owner (pm_user p) := obal (bank_led b) (cash_owner (pm_user p)) + pm_amount p)"
      using mv False by (simp_all add: moved_def)
    have "payment_keys_known (insert ?r ?K) ?ps"
      by (rule known_insert_ref [OF payments_okD(4) [OF d(2)]]) (use dep p(1) in auto)
    then have pay: "payments_ok paid (insert ?r ?K) ?ps"
      using d(2) payment_ok_insert ref_not_ending dep unfolding payments_ok_def by blast
    have "\<not> bonus_key ?r" using dep payment_key_not_bonus unfolding payment_key_def by blast
    then have bon: "bonuses_ok (insert ?r ?K) (bk_bonuses b)" by (rule bonuses_ok_other [OF d(3)])
    have books: "books_match (obal l) (insert ?r ?K) ?ps (bk_bonuses b)"
      using d(4) provider_flow_credit [OF payments_okD(2) [OF d(2)] p False] by (auto simp: books_match_def bal)
    show ?thesis using lok pay bon books d(5,6) by (simp add: bank_ok_def K')
  qed
qed

text \<open>A payment is added; its reference may be used by the posting that comes with it.\<close>

lemma payment_added:
  assumes ok: "bank_ok paid b" and p: "pm_id p = new_payment_id b" "pm_our_ref p \<notin> pm_our_ref ` set (bk_payments b)"
    and row: "payment_ok paid K' p" and K': "K' = tkeys (bank_led b) \<or> K' = insert (pm_our_ref p) (tkeys (bank_led b))"
  shows "payments_ok paid K' (bk_payments b @ [p])" "bonuses_ok K' (bk_bonuses b)"
    "provider_flow K' (bk_payments b) = provider_flow (tkeys (bank_led b)) (bk_payments b)" "pm_our_ref p \<notin> tkeys (bank_led b)"
proof -
  let ?K = "tkeys (bank_led b)" and ?ps = "bk_payments b"
  note d = bank_okD [OF ok]
  have pre: "take 4 (pm_our_ref p) = ''DEP-'' \<or> take 3 (pm_our_ref p) = ''WD-''"
    using row by (auto simp: payment_ok_def deposit_row_ok_def payout_row_ok_def)
  show "pm_our_ref p \<notin> ?K" using payments_okD(4) [OF d(2)] pre p(2) unfolding payment_keys_known_def by blast
  have nb: "\<not> bonus_key (pm_our_ref p)" using pre payment_key_not_bonus unfolding payment_key_def by blast
  show "bonuses_ok K' (bk_bonuses b)" using K' d(3) bonuses_ok_other [OF d(3) nb] by auto
  have "provider_flow (insert (pm_our_ref p) ?K) ?ps = provider_flow ?K ?ps"
    by (rule provider_flow_other) (metis p(2) image_eqI)
  then show "provider_flow K' ?ps = provider_flow ?K ?ps" using K' by auto
  have known: "payment_keys_known K' (?ps @ [p])"
    using K' known_append [OF payments_okD(4) [OF d(2)], of p] known_insert_ref [OF _ pre, of ?K "?ps @ [p]"] by auto
  have rows: "payment_ok paid K' q" if "q \<in> set (?ps @ [p])" for q
  proof (cases "q = p")
    case False
    then have "payment_ok paid ?K q" using that payments_okD(3) [OF d(2)] by simp
    then show ?thesis using K' payment_ok_insert [of paid ?K q] ref_not_ending [OF pre] by blast
  qed (use row in simp)
  have num: "map pm_id (?ps @ [p]) = map (\<lambda>n. int n + 1) [0..<length (?ps @ [p])]"
    using numbered_append [OF payments_okD(5) [OF d(2)]] p(1) by (simp add: new_payment_id_def)
  have dist: "distinct (map pm_our_ref (?ps @ [p]))" using payments_okD(2) [OF d(2)] p(2) by simp
  show "payments_ok paid K' (?ps @ [p])"
    unfolding payments_ok_def by (intro conjI ballI num dist rows known)
qed

lemma new_endings:
  assumes "bank_ok paid b" "pm_id p = new_payment_id b" "pm_our_ref p \<notin> pm_our_ref ` set (bk_payments b)"
  shows "ending_keys p \<inter> tkeys (bank_led b) = {}"
  by (rule new_payment_endings [OF bank_okD(2) [OF assms(1)] _ assms(3)]) (use assms(2) in \<open>simp add: new_payment_id_def\<close>)

lemma deposit_opened:
  assumes ok: "bank_ok paid b" and p: "pm_id p = new_payment_id b" "pm_our_ref p \<notin> pm_our_ref ` set (bk_payments b)"
    and amount: "whole_cents (pm_amount p)" "0 < pm_amount p" and dep: "pm_direction p = ''in''" "take 4 (pm_our_ref p) = ''DEP-''"
    and st: "pm_status p \<noteq> ''succeeded''" and prov: "pm_provider p \<noteq> ''telebirr_sms''"
  shows "bank_ok paid (b\<lparr>bk_payments := bk_payments b @ [p]\<rparr>)"
proof -
  note d = bank_okD [OF ok]
  have row: "payment_ok paid (tkeys (bank_led b)) p" using amount dep st by (simp add: payment_ok_def deposit_row_ok_def)
  note a = payment_added [OF ok p row disjI1 [OF refl]]
  have books: "books_match (obal (bank_led b)) (tkeys (bank_led b)) (bk_payments b @ [p]) (bk_bonuses b)"
    using d(4) a(4) dep(1) by (simp add: books_match_def locked_for_append provider_flow_append live_payout_def)
  have ev: "evidence_ok (bk_payments b @ [p]) (bk_evidence b)"
    by (rule evidence_ok_append [OF d(5) payments_okD(5) [OF d(2)] _ prov]) (use p(1) in \<open>simp add: new_payment_id_def\<close>)
  show ?thesis using d(1,6) a(1,2) books ev by (simp add: bank_ok_def)
qed

lemma payout_opened:
  assumes ok: "bank_ok paid b" and p: "pm_id p = new_payment_id b" "pm_our_ref p \<notin> pm_our_ref ` set (bk_payments b)"
    and amount: "whole_cents (pm_amount p)" "0 < pm_amount p" and wd: "pm_direction p = ''out''" "take 3 (pm_our_ref p) = ''WD-''"
    and st: "pm_status p = ''review'' \<or> pm_status p = ''approved''" and prov: "pm_provider p \<noteq> ''telebirr_sms''"
    and mv: "moved (bank_led b) (cash_owner (pm_user p)) (locked_owner (pm_user p)) (pm_amount p) (pm_our_ref p) l"
  shows "bank_ok paid (b\<lparr>bk_db := (bk_db b)\<lparr>led := l\<rparr>, bk_payments := bk_payments b @ [p]\<rparr>)"
proof -
  let ?K = "tkeys (bank_led b)"
  note d = bank_okD [OF ok]
  have te: "taken_ending p = {}" "pm_status p \<in> {''review'', ''approved'', ''processing'', ''succeeded'', ''failed'', ''rejected''}"
      "pm_status p \<noteq> ''processing''" "pm_status p \<noteq> ''succeeded''" "pm_status p \<noteq> ''failed''"
    using st by (auto simp: taken_ending_def)
  have "pm_our_ref p \<notin> ending_keys p" using ref_not_ending wd(2) by blast
  then have ends: "ending_keys p \<inter> insert (pm_our_ref p) ?K = taken_ending p" unfolding te(1) using new_endings [OF ok p] by auto
  have "payout_row_ok paid (insert (pm_our_ref p) ?K) p"
    unfolding payout_row_ok_def ends using wd te(2-5) by simp
  then have row: "payment_ok paid (insert (pm_our_ref p) ?K) p" using amount by (simp add: payment_ok_def)
  note a = payment_added [OF ok p row disjI2 [OF refl]]
  have lok: "ledger_ok l" and K': "tkeys l = insert (pm_our_ref p) ?K" and bal: "obal l = (obal (bank_led b))(
      cash_owner (pm_user p) := obal (bank_led b) (cash_owner (pm_user p)) - pm_amount p,
      locked_owner (pm_user p) := obal (bank_led b) (locked_owner (pm_user p)) + pm_amount p)"
    using mv a(4) by (simp_all add: moved_def)
  have live: "live_payout p" using st wd(1) by (auto simp: live_payout_def)
  have books: "books_match (obal l) (insert (pm_our_ref p) ?K) (bk_payments b @ [p]) (bk_bonuses b)"
    using d(4) a(3) live te(4) wd(1) by (simp add: books_match_def locked_for_append provider_flow_append bal)
  have ev: "evidence_ok (bk_payments b @ [p]) (bk_evidence b)"
    by (rule evidence_ok_append [OF d(5) payments_okD(5) [OF d(2)] _ prov]) (use p(1) in \<open>simp add: new_payment_id_def\<close>)
  show ?thesis using lok d(6) a(1,2) books ev by (simp add: bank_ok_def K')
qed

text \<open>A deposit of the evidence: the row, its credit and the mark on the evidence together.\<close>

lemma evidence_redeemed:
  assumes ok: "bank_ok paid b" and p: "pm_id p = new_payment_id b" "pm_our_ref p \<notin> pm_our_ref ` set (bk_payments b)"
    and amount: "0 < pm_amount p" and dep: "pm_direction p = ''in''" "take 4 (pm_our_ref p) = ''DEP-''"
    and prov: "pm_provider p = ''telebirr_sms''"
    and v: "v \<in> set (bk_evidence b)" "ev_status v \<noteq> ''redeemed''" "ev_amount v = pm_amount p"
    and mv: "moved (bank_led b) provider_owner (cash_owner (pm_user p)) (pm_amount p) (pm_our_ref p) l"
  shows "bank_ok paid (update_evidence (ev_id v) (\<lambda>v. v\<lparr>ev_status := ''redeemed'', ev_redeemed_by := Some (pm_user p), ev_payment := Some (pm_id p)\<rparr>)
    (b\<lparr>bk_db := (bk_db b)\<lparr>led := l\<rparr>, bk_payments := bk_payments b @ [p]\<rparr>))"
proof -
  let ?K = "tkeys (bank_led b)" and ?ps = "bk_payments b" and ?vs = "bk_evidence b"
  let ?f = "\<lambda>v. v\<lparr>ev_status := ''redeemed'', ev_redeemed_by := Some (pm_user p), ev_payment := Some (pm_id p)\<rparr>"
  let ?vs' = "map (\<lambda>w. if ev_id w = ev_id v then ?f w else w) ?vs"
  note d = bank_okD [OF ok]
  have whole: "whole_cents (pm_amount p)" using d(5) v(1,3) by (auto simp: evidence_ok_def evidence_row_ok_def)
  have row: "payment_ok paid (insert (pm_our_ref p) ?K) p" using amount whole dep by (simp add: payment_ok_def deposit_row_ok_def)
  note a = payment_added [OF ok p row disjI2 [OF refl]]
  have lok: "ledger_ok l" and K': "tkeys l = insert (pm_our_ref p) ?K" and bal: "obal l = (obal (bank_led b))(
      provider_owner := obal (bank_led b) provider_owner - pm_amount p, cash_owner (pm_user p) := obal (bank_led b) (cash_owner (pm_user p)) + pm_amount p)"
    using mv a(4) by (simp_all add: moved_def)
  have books: "books_match (obal l) (insert (pm_our_ref p) ?K) (?ps @ [p]) (bk_bonuses b)"
    using d(4) a(3) dep(1) by (auto simp: books_match_def locked_for_append provider_flow_append live_payout_def bal)
  have num: "map ev_id ?vs = map (\<lambda>n. int n + 1) [0..<length ?vs]" and refs: "distinct (map ev_reference ?vs)"
    and rows: "\<And>w. w \<in> set ?vs \<Longrightarrow> evidence_row_ok ?ps w"
    and cnt: "\<And>q. q \<in> set ?ps \<Longrightarrow> length (filter (\<lambda>w. ev_payment w = Some (pm_id q)) ?vs) = (if pm_provider q = ''telebirr_sms'' then 1 else 0)"
    using d(5) unfolding evidence_ok_def by blast+
  have dist: "distinct (map ev_id ?vs)" by (rule numbered_distinct [OF num])
  have uniq: "w = v" if "w \<in> set ?vs" "ev_id w = ev_id v" for w
    using dist that v(1) by (auto simp: distinct_map dest: inj_onD)
  have free: "ev_payment v = None" using rows [OF v(1)] v(2) by (simp add: evidence_row_ok_def)
  have new: "pm_id p \<notin> pm_id ` set ?ps"
    using numbered_mem [OF payments_okD(5) [OF d(2)]] p(1) by (simp add: new_payment_id_def)
  have named: "ev_payment w \<noteq> Some (pm_id p)" if "w \<in> set ?vs" for w
  proof
    assume e: "ev_payment w = Some (pm_id p)"
    then have "\<exists>q\<in>set ?ps. ev_payment w = Some (pm_id q)"
      using rows [OF that] unfolding evidence_row_ok_def by (metis option.distinct(1))
    then show False using new e by auto
  qed
  have row': "evidence_row_ok (?ps @ [p]) w" if "w \<in> set ?vs'" for w
    using that
  proof (cases rule: updated_row_cases)
    case (hit z)
    then have "z = v" using uniq by blast
    then show ?thesis using hit(3) rows [OF v(1)] v(3) prov whole by (auto simp: evidence_row_ok_def)
  next
    case old
    then show ?thesis using rows [OF old(1)] by (auto simp: evidence_row_ok_def)
  qed
  have count: "sum_list (map (\<lambda>w. if ev_payment w = Some i then 1 else 0) ?vs')
      = sum_list (map (\<lambda>w. if ev_payment w = Some i then 1 else 0) ?vs) + (if i = pm_id p then 1 else 0 :: rat)" for i
    using sum_list_upd [OF dist v(1) refl, of "\<lambda>w. if ev_payment w = Some i then 1 else 0" ?f] free by simp
  have len: "sum_list (map (\<lambda>w. if Q w then 1 else 0 :: rat) ws) = of_nat (length (filter Q ws))" for Q :: "evidence \<Rightarrow> bool" and ws
    by (induction ws) auto
  have cnt': "length (filter (\<lambda>w. ev_payment w = Some i) ?vs') = length (filter (\<lambda>w. ev_payment w = Some i) ?vs) + (if i = pm_id p then 1 else 0)" for i
    using count [of i, unfolded len] by (simp split: if_splits)
  have none: "filter (\<lambda>w. ev_payment w = Some (pm_id p)) ?vs = []" using named by (simp add: filter_empty_conv)
  have cq: "length (filter (\<lambda>w. ev_payment w = Some (pm_id q)) ?vs') = (if pm_provider q = ''telebirr_sms'' then 1 else 0)"
    if "q \<in> set (?ps @ [p])" for q
  proof (cases "q = p")
    case True
    then show ?thesis using cnt' [of "pm_id p"] none prov by simp
  next
    case False
    then have q: "q \<in> set ?ps" using that by simp
    then have "pm_id q \<noteq> pm_id p" using new by (metis image_eqI)
    then show ?thesis using cnt' [of "pm_id q"] cnt [OF q] by simp
  qed
  have ids: "map ev_id ?vs' = map ev_id ?vs" "map ev_reference ?vs' = map ev_reference ?vs" by (rule column_kept, simp)+
  have ev: "evidence_ok (?ps @ [p]) ?vs'"
    unfolding evidence_ok_def ids length_map by (intro conjI ballI num refs row' cq)
  show ?thesis using lok d(6) a(1,2) books ev by (simp add: bank_ok_def K' update_evidence_def)
qed

subsection \<open>Bonuses and the rest\<close>

text \<open>Keys of neither a payment nor a bonus change nothing.\<close>

lemma other_keys:
  assumes keys: "\<And>k. payment_key k \<or> bonus_key k \<Longrightarrow> k \<in> K' \<longleftrightarrow> k \<in> K" and pay: "payments_ok paid K ps" and bon: "bonuses_ok K xs"
  shows "payments_ok paid K' ps" "bonuses_ok K' xs" "provider_flow K' ps = provider_flow K ps"
proof -
  have ref: "pm_our_ref p \<in> K' \<longleftrightarrow> pm_our_ref p \<in> K" if "p \<in> set ps" for p
    using payments_okD(3) [OF pay that] keys [of "pm_our_ref p"]
    by (auto simp: payment_ok_def deposit_row_ok_def payout_row_ok_def payment_key_def)
  have ends: "ending_keys p \<inter> K' = ending_keys p \<inter> K" for p using keys ending_keys_are by blast
  have bk: "bonus_keys i \<inter> K' = bonus_keys i \<inter> K" for i using keys bonus_keys_are by blast
  have row: "payment_ok paid K' p" if "p \<in> set ps" for p
    using payments_okD(3) [OF pay that] ref [OF that] ends [of p] by (simp add: payment_ok_def deposit_row_ok_def payout_row_ok_def)
  have ek: "payout_settle_key r \<in> K' \<longleftrightarrow> payout_settle_key r \<in> K" "payout_reverse_key r \<in> K' \<longleftrightarrow> payout_reverse_key r \<in> K"
    "manual_settle_key r \<in> K' \<longleftrightarrow> manual_settle_key r \<in> K" "manual_fail_key i \<in> K' \<longleftrightarrow> manual_fail_key i \<in> K"
    "payout_reject_key i \<in> K' \<longleftrightarrow> payout_reject_key i \<in> K" for r i
    using keys ending_is_payment_key by blast+
  have rk: "k \<in> K' \<longleftrightarrow> k \<in> K" if "take 4 k = ''DEP-'' \<or> take 3 k = ''WD-''" for k
    using keys [of k] that unfolding payment_key_def by blast
  have "payment_keys_known K' ps"
    using payments_okD(4) [OF pay] rk unfolding payment_keys_known_def ek by blast
  then show "payments_ok paid K' ps" using pay row unfolding payments_ok_def by blast
  show "bonuses_ok K' xs" using bon unfolding bonuses_ok_def bonus_ok_def bk .
  show "provider_flow K' ps = provider_flow K ps"
    unfolding provider_flow_def using ref by (intro arg_cong [of _ _ sum_list] map_cong) auto
qed

text \<open>The accounts the books explain.\<close>

definition book_owner :: "owner \<Rightarrow> bool" where
  "book_owner ow \<longleftrightarrow> (\<exists>u. ow = locked_owner u) \<or> ow = provider_owner \<or> (\<exists>u. ow = bonus_owner u) \<or> ow = promo_owner"

text \<open>What the rest of the platform may do to the ledger: anything that leaves these accounts and these keys alone.\<close>

definition books_untouched :: "ledger \<Rightarrow> ledger \<Rightarrow> bool" where
  "books_untouched l l' \<longleftrightarrow> ledger_ok l' \<and> (\<forall>ow. book_owner ow \<longrightarrow> obal l' ow = obal l ow)
     \<and> (\<forall>k. payment_key k \<or> bonus_key k \<longrightarrow> k \<in> tkeys l' \<longleftrightarrow> k \<in> tkeys l)"

lemma platform_moved:
  assumes ok: "bank_ok paid b" and l: "books_untouched (bank_led b) (led d)"
  shows "bank_ok paid (b\<lparr>bk_db := d\<rparr>)"
proof -
  note d = bank_okD [OF ok]
  have keys: "\<And>k. payment_key k \<or> bonus_key k \<Longrightarrow> k \<in> tkeys (led d) \<longleftrightarrow> k \<in> tkeys (bank_led b)" using l unfolding books_untouched_def by blast
  note o = other_keys [OF keys d(2,3)]
  have "books_match (obal (led d)) (tkeys (led d)) (bk_payments b) (bk_bonuses b)"
    using d(4) l o(3) by (auto simp: books_match_def books_untouched_def book_owner_def)
  then show ?thesis using l o(1,2) d(5,6) by (simp add: bank_ok_def books_untouched_def)
qed

lemma moved_untouched:
  assumes "moved l src dst x k l'" "\<not> payment_key k" "\<not> bonus_key k" "\<not> book_owner src" "\<not> book_owner dst"
  shows "books_untouched l l'"
  using assms by (auto simp: moved_def books_untouched_def split: if_splits)

lemma bonus_granted:
  assumes ok: "bank_ok paid b" and k: "\<not> payment_key k" "\<not> bonus_key k" "k \<notin> tkeys (bank_led b)"
    and x: "bn_id x = int (length (bk_bonuses b)) + 1" "whole_cents (bn_amount x)" "bn_status x = ''active''"
    and mv: "moved (bank_led b) promo_owner (bonus_owner (bn_user x)) (bn_amount x) k l"
  shows "bank_ok paid (b\<lparr>bk_db := (bk_db b)\<lparr>led := l\<rparr>, bk_bonuses := bk_bonuses b @ [x]\<rparr>)"
proof -
  note d = bank_okD [OF ok]
  have K': "tkeys l = insert k (tkeys (bank_led b))" and lok: "ledger_ok l" and bal: "obal l = (obal (bank_led b))(
      promo_owner := obal (bank_led b) promo_owner - bn_amount x, bonus_owner (bn_user x) := obal (bank_led b) (bonus_owner (bn_user x)) + bn_amount x)"
    using mv k(3) by (simp_all add: moved_def)
  have keys: "\<And>q. payment_key q \<or> bonus_key q \<Longrightarrow> q \<in> tkeys l \<longleftrightarrow> q \<in> tkeys (bank_led b)" using k(1,2) K' by auto
  note o = other_keys [OF keys d(2,3)]
  have books: "books_match (obal l) (tkeys l) (bk_payments b) (bk_bonuses b @ [x])"
    using d(4) o(3) x(3) by (auto simp: books_match_def bonus_held_def promo_spent_def bal)
  show ?thesis using lok o(1) bonuses_ok_append [OF o(2) x] books d(5,6) by (simp add: bank_ok_def)
qed

lemma bonus_ended:
  assumes ok: "bank_ok paid b" and x: "x \<in> set (bk_bonuses b)" "bn_id x = i" "bn_status x = ''active''" and e: "e \<in> bonus_keys i"
    and f: "bn_id (f x) = i" "bn_user (f x) = bn_user x" "bn_amount (f x) = bn_amount x"
    and st: "bn_status (f x) = ''converted'' \<and> dst = cash_owner (bn_user x) \<or> bn_status (f x) \<in> {''expired'', ''revoked''} \<and> dst = promo_owner"
    and mv: "moved (bank_led b) (bonus_owner (bn_user x)) dst (bn_amount x) e l"
  shows "bank_ok paid (update_bonus i f (b\<lparr>bk_db := (bk_db b)\<lparr>led := l\<rparr>\<rparr>))"
proof -
  let ?K = "tkeys (bank_led b)" and ?xs = "bk_bonuses b"
  note d = bank_okD [OF ok]
  have xo: "whole_cents (bn_amount x)" "bonus_keys i \<inter> ?K = {}" using bonuses_okD(2) [OF d(3) x(1)] x(2,3) by (auto simp: bonus_ok_def)
  have eK: "e \<notin> ?K" using xo(2) e by blast
  have K': "tkeys l = insert e ?K" and lok: "ledger_ok l" and bal: "obal l = (obal (bank_led b))(
      bonus_owner (bn_user x) := obal (bank_led b) (bonus_owner (bn_user x)) - bn_amount x, dst := obal (bank_led b) dst + bn_amount x)"
    using mv eK by (simp_all add: moved_def)
  have npk: "\<not> payment_key e" using bonus_keys_are [OF e] payment_key_not_bonus by blast
  have na: "bn_status (f x) \<noteq> ''active''" "bn_status (f x) \<in> {''active'', ''converted'', ''expired'', ''revoked''}" using st by auto
  have row: "bonus_ok (insert e ?K) (f x)" using xo(1) f(3) na by (simp add: bonus_ok_def)
  have bon: "bonuses_ok (insert e ?K) (set_bonus i f ?xs)"
    by (rule bonuses_ok_update [where f = f, OF d(3) x(1,2) f(1) row]) (use e in blast)
  have pay: "payments_ok paid (insert e ?K) (bk_payments b)" by (rule payments_ok_other [OF d(2) npk])
  have "provider_flow (insert e ?K) (bk_payments b) = provider_flow ?K (bk_payments b)"
  proof (rule provider_flow_other)
    show "pm_our_ref q \<noteq> e" if "q \<in> set (bk_payments b)" "pm_direction q = ''in''" for q
      using payments_okD(3) [OF d(2) that(1)] npk by (auto simp: payment_ok_def deposit_row_ok_def payout_row_ok_def payment_key_def)
  qed
  moreover have "bonus_held u (set_bonus i f ?xs) = bonus_held u ?xs - (if bn_user x = u then bn_amount x else 0)" for u
    using bonus_held_update [OF d(3) x(1,2), of u f] x(3) na(1) by simp
  moreover have "promo_spent (set_bonus i f ?xs) = promo_spent ?xs - (if dst = promo_owner then bn_amount x else 0)"
    using promo_spent_update [OF d(3) x(1,2), of f] x(3) f(3) st by auto
  ultimately have books: "books_match (obal l) (insert e ?K) (bk_payments b) (set_bonus i f ?xs)"
    using d(4) st by (auto simp: books_match_def bal)
  show ?thesis using lok pay bon books d(5,6) by (simp add: bank_ok_def update_bonus_def K')
qed

lemma bonus_row_changed:
  assumes ok: "bank_ok paid b"
    and f: "\<And>x. bn_id (f x) = bn_id x \<and> bn_user (f x) = bn_user x \<and> bn_amount (f x) = bn_amount x \<and> bn_status (f x) = bn_status x"
  shows "bank_ok paid (update_bonus i f b)"
proof -
  note d = bank_okD [OF ok]
  let ?xs' = "set_bonus i f (bk_bonuses b)"
  have ids: "map bn_id ?xs' = map bn_id (bk_bonuses b)" by (rule column_kept) (simp add: f)
  have rows: "bonus_ok (tkeys (bank_led b)) y" if "y \<in> set ?xs'" for y
    using that
  proof (cases rule: updated_row_cases)
    case (hit z)
    then show ?thesis using bonuses_okD(2) [OF d(3) hit(1)] f by (simp add: bonus_ok_def)
  next
    case old
    then show ?thesis using bonuses_okD(2) [OF d(3)] by blast
  qed
  have sets: "bn_id ` set ?xs' = bn_id ` set (bk_bonuses b)" using ids by (metis list.set_map)
  have bon: "bonuses_ok (tkeys (bank_led b)) ?xs'"
    unfolding bonuses_ok_def ids length_map sets
    by (intro conjI ballI allI impI bonuses_okD(3) [OF d(3)] rows bonuses_okD(4) [OF d(3)])
  have w: "sum_list (map g ?xs') = sum_list (map g (bk_bonuses b))" if "\<And>x. g (f x) = g x" for g :: "bonus \<Rightarrow> rat"
    using column_kept [of "bk_bonuses b" bn_id i g f] that by (simp del: map_map)
  have "bonus_held u ?xs' = bonus_held u (bk_bonuses b)" "promo_spent ?xs' = promo_spent (bk_bonuses b)" for u
    unfolding bonus_held_def promo_spent_def by (rule w, simp add: f)+
  then have "books_match (obal (bank_led b)) (tkeys (bank_led b)) (bk_payments b) ?xs'" using d(4) by (simp add: books_match_def)
  then show ?thesis using d bon by (simp add: bank_ok_def update_bonus_def)
qed

end
