(* ===== verification/Bank_Steps.thy ===== *)
theory Bank_Steps
  imports Bank_Moves
begin

text \<open>
  Each operation of the payments side keeps the books and what was decided before: \<open>bank_step_ok\<close> is proved of
  every transaction of \<open>Bonuses\<close>, \<open>Deposits\<close>, \<open>Withdrawals\<close> and \<open>Telebirr\<close>.
\<close>

subsection \<open>What stays\<close>

definition dispatched :: "payment \<Rightarrow> bool" where
  "dispatched p \<longleftrightarrow> pm_direction p = ''out'' \<and> pm_status p \<in> {''processing'', ''succeeded'', ''failed''}"

definition payout_over :: "payment \<Rightarrow> bool" where
  "payout_over p \<longleftrightarrow> pm_direction p = ''out'' \<and> pm_status p \<in> {''succeeded'', ''failed'', ''rejected''}"

text \<open>A payment keeps what identifies it; a payout given to the provider is not taken back, and one that is over stays as it ended.\<close>

definition payment_kept :: "payment \<Rightarrow> payment \<Rightarrow> bool" where
  "payment_kept p q \<longleftrightarrow> row_identity q = row_identity p \<and> (dispatched p \<longrightarrow> dispatched q) \<and> (payout_over p \<longrightarrow> pm_status q = pm_status p)"

definition payments_kept :: "payment list \<Rightarrow> payment list \<Rightarrow> bool" where
  "payments_kept ps qs \<longleftrightarrow> (\<forall>p\<in>set ps. \<exists>q\<in>set qs. payment_kept p q)"

definition evidence_kept :: "evidence list \<Rightarrow> evidence list \<Rightarrow> bool" where
  "evidence_kept vs ws \<longleftrightarrow> (\<forall>v\<in>set vs. ev_status v = ''redeemed'' \<longrightarrow> v \<in> set ws)"

definition bank_kept :: "bank \<Rightarrow> bank \<Rightarrow> bool" where
  "bank_kept b b' \<longleftrightarrow> payments_kept (bk_payments b) (bk_payments b') \<and> evidence_kept (bk_evidence b) (bk_evidence b')
     \<and> (\<forall>k\<in>tkeys (bank_led b). payment_key k \<or> bonus_key k \<longrightarrow> k \<in> tkeys (bank_led b'))"

lemma payment_kept_refl [simp]: "payment_kept p p"
  by (simp add: payment_kept_def)

lemma payment_kept_trans: "payment_kept p q \<Longrightarrow> payment_kept q r \<Longrightarrow> payment_kept p r"
  by (auto simp: payment_kept_def payout_over_def dest: row_identityD(3))

lemma payments_kept_append [simp]: "payments_kept ps (ps @ qs)"
  unfolding payments_kept_def using payment_kept_refl by (metis Un_iff set_append)

lemma payments_kept_refl [simp]: "payments_kept ps ps"
  using payments_kept_append [of ps "[]"] by simp

lemma evidence_kept_refl [simp]: "evidence_kept vs vs"
  by (simp add: evidence_kept_def)

lemma bank_kept_refl [simp]: "bank_kept b b"
  by (simp add: bank_kept_def)

lemma bank_kept_trans: "bank_kept b c \<Longrightarrow> bank_kept c d \<Longrightarrow> bank_kept b d"
  unfolding bank_kept_def payments_kept_def evidence_kept_def by (meson payment_kept_trans)


lemma payments_kept_update:
  assumes "payments_ok paid K ps" "p \<in> set ps" "pm_id p = i" "payment_kept p (f p)"
  shows "payments_kept ps (set_payment i f ps)"
  unfolding payments_kept_def
proof
  fix q assume q: "q \<in> set ps"
  show "\<exists>r\<in>set (set_payment i f ps). payment_kept q r"
  proof (cases "q = p")
    case True
    then show ?thesis using assms(3,4) q by (intro bexI [of _ "f p"]) auto
  next
    case False
    then have "pm_id q \<noteq> i" using payment_row_unique [OF assms(1) q assms(2)] assms(3) by metis
    then show ?thesis using q by (intro bexI [of _ q]) auto
  qed
qed

lemma moved_keys: "moved l src dst x k l' \<Longrightarrow> tkeys l \<subseteq> tkeys l'"
  by (auto simp: moved_def split: if_splits)

definition bank_step_ok :: "(string \<Rightarrow> bool) \<Rightarrow> bank \<Rightarrow> bank \<Rightarrow> bool" where
  "bank_step_ok paid b b' \<longleftrightarrow> bank_ok paid b' \<and> bank_kept b b'"

lemma bank_step_ok_refl: "bank_ok paid b \<Longrightarrow> bank_step_ok paid b b"
  by (simp add: bank_step_ok_def)

lemma bank_step_ok_trans: "bank_step_ok paid b c \<Longrightarrow> bank_step_ok paid c d \<Longrightarrow> bank_step_ok paid b d"
  using bank_kept_trans by (auto simp: bank_step_ok_def)

text \<open>The tables the books do not look at.\<close>

lemma bank_step_ok_fields [simp]:
  "bank_step_ok paid b (c\<lparr>bk_ref_seq := n\<rparr>) = bank_step_ok paid b c" "bank_step_ok paid b (c\<lparr>bk_events := es\<rparr>) = bank_step_ok paid b c"
  "bank_step_ok paid b (c\<lparr>bk_methods := ms\<rparr>) = bank_step_ok paid b c" "bank_step_ok paid b (c\<lparr>bk_profiles := fs\<rparr>) = bank_step_ok paid b c"
  "bank_step_ok paid b (c\<lparr>bk_destinations := ds\<rparr>) = bank_step_ok paid b c"
  by (simp_all add: bank_step_ok_def bank_kept_def)

lemma step_same_ledger: "bank_ok paid b \<Longrightarrow> led d = bank_led b \<Longrightarrow> bank_step_ok paid b (b\<lparr>bk_db := d\<rparr>)"
  by (simp add: bank_step_ok_def bank_ok_same_ledger) (simp add: bank_kept_def)

lemma step_row_changed:
  assumes ok: "bank_ok paid b" and p: "p \<in> set (bk_payments b)" "pm_id p = i" and id: "row_identity (f p) = row_identity p"
    and row: "payment_ok paid (tkeys (bank_led b)) (f p)" and live: "live_payout (f p) = live_payout p"
    and out: "pm_direction p = ''out'' \<Longrightarrow> pm_status (f p) = pm_status p \<or> pm_status p \<in> {''review'', ''approved''} \<and> pm_status (f p) \<noteq> ''succeeded''"
  shows "bank_step_ok paid b (update_payment i f b)"
proof -
  have dir: "pm_direction (f p) = pm_direction p" using row_identityD(3) [OF id] .
  have kept: "payment_kept p (f p)"
    using id dir out by (auto simp: payment_kept_def dispatched_def payout_over_def)
  have "bank_ok paid (update_payment i f b)" by (rule row_changed [where f = f, OF ok p id row live]) (use out in auto)
  moreover have "bank_kept b (update_payment i f b)"
    using payments_kept_update [where f = f, OF bank_okD(2) [OF ok] p kept] by (simp add: bank_kept_def update_payment_def)
  ultimately show ?thesis by (simp add: bank_step_ok_def)
qed

text \<open>A deposit's row is free to change while its status does not claim a credit that was not made.\<close>

lemma step_deposit_row:
  assumes ok: "bank_ok paid b" and p: "p \<in> set (bk_payments b)" "pm_id p = i" "pm_direction p = ''in''"
    and id: "row_identity (f p) = row_identity p" and st: "pm_status (f p) = ''succeeded'' \<longrightarrow> pm_our_ref p \<in> tkeys (bank_led b)"
  shows "bank_step_ok paid b (update_payment i f b)"
proof (rule step_row_changed [where f = f, OF ok p(1,2) id])
  note r = row_identityD [OF id]
  show "payment_ok paid (tkeys (bank_led b)) (f p)"
    using payments_okD(3) [OF bank_okD(2) [OF ok] p(1)] p(3) st r by (auto simp: payment_ok_def deposit_row_ok_def payout_row_ok_def)
qed (use p(3) row_identityD(3) [OF id] in \<open>auto simp: live_payout_def\<close>)

lemma step_payout_ended:
  assumes ok: "bank_ok paid b" and p: "p \<in> set (bk_payments b)" "pm_id p = i" and id: "row_identity (f p) = row_identity p"
    and live: "live_payout p" and e: "e \<in> ending_keys p" "taken_ending (f p) = {e}"
    and st: "pm_status (f p) \<in> {''succeeded'', ''failed'', ''rejected''}" "pm_status p = ''processing'' \<Longrightarrow> pm_status (f p) \<noteq> ''rejected''"
    and verdict: "pm_provider p \<noteq> ''manual'' \<Longrightarrow>
      (pm_status (f p) = ''succeeded'' \<longrightarrow> paid (pm_our_ref p)) \<and> (pm_status (f p) = ''failed'' \<longrightarrow> \<not> paid (pm_our_ref p))"
    and mv: "moved (bank_led b) (locked_owner (pm_user p)) dst (pm_amount p) e l"
    and dst: "dst = (if pm_status (f p) = ''succeeded'' then provider_owner else cash_owner (pm_user p))"
  shows "bank_step_ok paid b (update_payment i f (b\<lparr>bk_db := (bk_db b)\<lparr>led := l\<rparr>\<rparr>))"
proof -
  have out: "pm_direction (f p) = ''out''" using live row_identityD(3) [OF id] by (simp add: live_payout_def)
  have nover: "\<not> payout_over p" using live by (auto simp: live_payout_def payout_over_def)
  have dis: "dispatched (f p)" if "dispatched p"
  proof -
    have "pm_status p = ''processing''" using that live by (auto simp: dispatched_def live_payout_def)
    then show ?thesis using st out by (auto simp: dispatched_def)
  qed
  have "payment_kept p (f p)" using id dis nover by (simp add: payment_kept_def)
  then have "bank_kept b (update_payment i f (b\<lparr>bk_db := (bk_db b)\<lparr>led := l\<rparr>\<rparr>))"
    using payments_kept_update [where f = f, OF bank_okD(2) [OF ok] p] moved_keys [OF mv] by (auto simp: bank_kept_def update_payment_def)
  moreover have "bank_ok paid (update_payment i f (b\<lparr>bk_db := (bk_db b)\<lparr>led := l\<rparr>\<rparr>))"
    by (rule payout_ended [where f = f, OF ok p id live e st(1) verdict mv dst])
  ultimately show ?thesis by (simp add: bank_step_ok_def)
qed

lemma step_deposit_credited:
  assumes ok: "bank_ok paid b" and p: "p \<in> set (bk_payments b)" "pm_direction p = ''in''"
    and cr: "credit_deposit now p b = Inr (t, b')"
  shows "bank_step_ok paid b b'" "pm_our_ref p \<in> tkeys (bank_led b')" "bk_payments b' = bk_payments b" "bk_evidence b' = bk_evidence b"
proof -
  have w: "whole_cents (pm_amount p)" using payments_okD(3) [OF bank_okD(2) [OF ok] p(1)] by (simp add: payment_ok_def)
  obtain l where l: "b' = b\<lparr>bk_db := (bk_db b)\<lparr>led := l\<rparr>\<rparr>"
      "moved (bank_led b) provider_owner (cash_owner (pm_user p)) (pm_amount p) (pm_our_ref p) l"
    using move_money_Inr [OF cr [unfolded credit_deposit_def credit_args_def] bank_okD(1) [OF ok] _ w] by auto
  show "pm_our_ref p \<in> tkeys (bank_led b')" using deposit_credited(2) [OF ok p l(2)] l(1) by simp
  show "bk_payments b' = bk_payments b" "bk_evidence b' = bk_evidence b" using l(1) by simp_all
  show "bank_step_ok paid b b'"
    using deposit_credited(1) [OF ok p l(2)] moved_keys [OF l(2)] l(1) by (auto simp: bank_step_ok_def bank_kept_def)
qed

lemma step_platform:
  assumes "bank_ok paid b" "books_untouched (bank_led b) (led d)" shows "bank_step_ok paid b (b\<lparr>bk_db := d\<rparr>)"
  using platform_moved [OF assms] assms(2) by (auto simp: bank_step_ok_def bank_kept_def books_untouched_def)

subsection \<open>Bonuses\<close>

lemma numeric18_2_whole: "numeric18_2 x = Inr y \<Longrightarrow> whole_cents y" "numeric18_2 x = Inr y \<Longrightarrow> whole_cents x \<Longrightarrow> y = x"
  by (auto simp: numeric18_2_def split: if_splits)

lemma find_txn_fresh: "find_txn l k = None \<Longrightarrow> k \<notin> tkeys l"
  by (simp add: find_txn_None tkeys_def)

lemma bonus_by_id_in: "bonus_by_id b i = Some x \<Longrightarrow> x \<in> set (bk_bonuses b) \<and> bn_id x = i"
  by (auto simp: bonus_by_id_def find_Some_iff)

text \<open>A rewards key belongs to neither family of the books.\<close>

definition reward_key :: "string \<Rightarrow> bool" where
  "reward_key k \<longleftrightarrow> \<not> payment_key k \<and> \<not> bonus_key k"

lemma reward_keys [simp]:
  "reward_key (referral_key a c)" "reward_key (welcome_key a c n)" "reward_key (manual_grant_key a c s)" "reward_key (adjust_key a c s)"
  by (simp_all add: reward_key_def payment_key_def bonus_key_def referral_key_def welcome_key_def manual_grant_key_def adjust_key_def)

lemma grant_bonus_ok:
  assumes ok: "bank_ok paid b" and k: "reward_key key" and w: "whole_cents amount"
    and g: "grant_bonus now u key amount req rule ref expires by_admin reason b = Inr (x, b')"
  shows "bank_step_ok paid b b'"
proof (cases "find_txn (bank_led b) key")
  case (Some t)
  then show ?thesis using g bank_step_ok_refl [OF ok] by (auto simp: grant_bonus_def split: option.splits)
next
  case None
  obtain t b1 where m: "move_money now promo_owner (bonus_owner u) (transfer_args ''bonus_grant'' amount key None reason ''system'') b = Inr (t, b1)"
      "insert_bonus (new_bonus now u amount req (txn_id t) rule ref expires by_admin b1) b1 = Inr (x, b')"
    using g None by (auto simp: grant_bonus_def bind_result_Inr_iff)
  obtain l where l: "b1 = b\<lparr>bk_db := (bk_db b)\<lparr>led := l\<rparr>\<rparr>" "moved (bank_led b) promo_owner (bonus_owner u) amount key l"
    using move_money_Inr [OF m(1) bank_okD(1) [OF ok] _ w] by auto
  have x: "b' = b1\<lparr>bk_bonuses := bk_bonuses b1 @ [x]\<rparr>" "bn_id x = int (length (bk_bonuses b)) + 1" "bn_user x = u"
      "bn_amount x = amount" "bn_status x = ''active''"
    using m(2) numeric18_2_whole(2) [OF _ w] l(1)
    by (auto simp: insert_bonus_def new_bonus_def bind_result_Inr_iff Let_def split: if_splits)
  have "bank_ok paid (b\<lparr>bk_db := (bk_db b)\<lparr>led := l\<rparr>, bk_bonuses := bk_bonuses b @ [x]\<rparr>)"
    by (rule bonus_granted [OF ok _ _ find_txn_fresh [OF None]]) (use k x w l(2) in \<open>auto simp: reward_key_def\<close>)
  then show ?thesis using x(1) l(1) moved_keys [OF l(2)] by (auto simp: bank_step_ok_def bank_kept_def)
qed

lemma reward_whole:
  assumes "compute_reward_amount rule a = Inr r" "whole_cents (br_reward_amount rule)" "\<And>c. br_reward_cap rule = Some c \<Longrightarrow> whole_cents c"
  shows "whole_cents r"
proof (cases "br_reward_type rule = ''flat''")
  case False
  then obtain a1 where a1: "quantize_cent (ddiv (dmul a (br_reward_percentage rule)) 100) = Inr a1"
      "r = (case br_reward_cap rule of None \<Rightarrow> a1 | Some cap \<Rightarrow> min a1 cap)"
    using assms(1) by (auto simp: compute_reward_amount_def bind_result_Inr_iff)
  have "whole_cents a1" using a1(1) by (simp add: quantize_cent_def quantize_whole_cents)
  then show ?thesis using a1(2) assms(3) by (auto simp: min_def split: option.splits)
qed (use assms in \<open>simp add: compute_reward_amount_def\<close>)

end
