(* ===== verification/Bank_Ops.thy ===== *)
theory Bank_Ops
  imports Bank_Steps
begin

text \<open>
  The operations of the payments side one by one: \<open>bank_step_ok\<close> of bonuses, deposits, withdrawals and admins'
  decisions.
\<close>

subsection \<open>Bonuses\<close>

lemma reward_amount_ok:
  assumes ok: "bank_ok paid b" and ar: "active_rule now trigger b = Some rule" and r: "compute_reward_amount rule a = Inr amount"
  shows "whole_cents amount"
proof -
  have "rule \<in> set (bk_rules b)" using ar unfolding active_rule_def by (auto dest: latest_by_Some)
  then show ?thesis using bank_okD(6) [OF ok] reward_whole [OF r] by (auto simp: rules_ok_def)
qed

text \<open>A reward that is granted: some posting of whole cents from the promotions account, under a key of its own kind.\<close>

definition granted :: "bank \<Rightarrow> bank \<Rightarrow> bool" where
  "granted b b' \<longleftrightarrow> (\<exists>now u key amount req rule ref expires by_admin reason x. reward_key key \<and> whole_cents amount
     \<and> grant_bonus now u key amount req rule ref expires by_admin reason b = Inr (x, b'))"

lemma grantedI: "grant_bonus now u key amount req rule ref expires by_admin reason b = Inr (x, b') \<Longrightarrow> reward_key key \<Longrightarrow> whole_cents amount \<Longrightarrow> granted b b'"
  unfolding granted_def by blast

lemma granted_ok: "bank_ok paid b \<Longrightarrow> granted b b' \<Longrightarrow> bank_step_ok paid b b'"
  unfolding granted_def using grant_bonus_ok by blast

text \<open>A reward touches no payment, no evidence and nobody's cash.\<close>

lemma granted_cash:
  assumes ok: "ledger_ok (bank_led b)" and g: "granted b b'"
  shows "bk_payments b' = bk_payments b \<and> bk_evidence b' = bk_evidence b \<and> (\<forall>u. obal (bank_led b') (cash_owner u) = obal (bank_led b) (cash_owner u))"
proof -
  obtain now u key amount req rule ref expires by_admin reason x where w: "whole_cents amount"
      and gb: "grant_bonus now u key amount req rule ref expires by_admin reason b = Inr (x, b')" using g unfolding granted_def by blast
  show ?thesis
  proof (cases "find_txn (bank_led b) key")
    case (Some t)
    then show ?thesis using gb by (auto simp: grant_bonus_def split: option.splits)
  next
    case None
    obtain t b1 where m: "move_money now promo_owner (bonus_owner u) (transfer_args ''bonus_grant'' amount key None reason ''system'') b = Inr (t, b1)"
        "insert_bonus (new_bonus now u amount req (txn_id t) rule ref expires by_admin b1) b1 = Inr (x, b')"
      using gb None by (auto simp: grant_bonus_def bind_result_Inr_iff)
    obtain l where l: "b1 = b\<lparr>bk_db := (bk_db b)\<lparr>led := l\<rparr>\<rparr>" "moved (bank_led b) promo_owner (bonus_owner u) amount key l"
      using move_money_Inr [OF m(1) ok _ w] by auto
    have "b' = b1\<lparr>bk_bonuses := bk_bonuses b1 @ [x]\<rparr>"
      using m(2) by (auto simp: insert_bonus_def bind_result_Inr_iff Let_def split: if_splits)
    then show ?thesis using l by (auto simp: moved_def split: if_splits)
  qed
qed

lemma referral_grants:
  assumes ok: "bank_ok paid b" and g: "maybe_grant_referral_bonus now u a b = Inr b'" shows "b' = b \<or> granted b b'"
proof (cases "b' = b")
  case False
  obtain ref rule amount req where r: "active_rule now ''referral_reward'' b = Some rule" "compute_reward_amount rule a = Inr amount"
      and c: "(case grant_bonus now ref (referral_key ref u) amount req (Some (br_id rule)) (Some u) (expiry_from now (br_expiry_days rule)) None
         (Some (''Referral reward for inviting user '' @ str_int u)) b of Inl UniqueViolation \<Rightarrow> Inr b | Inl x \<Rightarrow> Inl x | Inr (_, b1) \<Rightarrow> Inr b1) = Inr b'"
    using g False by (auto simp: maybe_grant_referral_bonus_def bind_result_Inr_iff split: option.splits if_splits)
  obtain x where x: "grant_bonus now ref (referral_key ref u) amount req (Some (br_id rule)) (Some u) (expiry_from now (br_expiry_days rule)) None
         (Some (''Referral reward for inviting user '' @ str_int u)) b = Inr (x, b')"
    using c False by (auto split: sum.splits exc.splits)
  show ?thesis using grantedI [OF x _ reward_amount_ok [OF ok r]] by simp
qed simp

lemma welcome_grants:
  assumes ok: "bank_ok paid b" and g: "maybe_grant_welcome_bonus now u a b = Inr b'" shows "b' = b \<or> granted b b'"
proof (cases "b' = b")
  case False
  obtain rule amount req x n where r: "active_rule now ''welcome_bonus'' b = Some rule" "compute_reward_amount rule a = Inr amount"
      "grant_bonus now u (welcome_key u (br_id rule) n) amount req (Some (br_id rule)) None (expiry_from now (br_expiry_days rule)) None
         (Some ''Welcome bonus on first qualifying deposit'') b = Inr (x, b')"
    using g False by (auto simp: maybe_grant_welcome_bonus_def Let_def bind_result_Inr_iff split: option.splits if_splits)
  show ?thesis using grantedI [OF r(3) _ reward_amount_ok [OF ok r(1,2)]] by simp
qed simp

lemma rewards_granted:
  assumes ok: "bank_ok paid b" and g: "deposit_rewards now u a b = Inr b'"
  shows "bank_step_ok paid b b' \<and> bk_payments b' = bk_payments b \<and> bk_evidence b' = bk_evidence b
    \<and> (\<forall>v. obal (bank_led b') (cash_owner v) = obal (bank_led b) (cash_owner v))"
proof -
  have one: "bank_step_ok paid c d \<and> bk_payments d = bk_payments c \<and> bk_evidence d = bk_evidence c
      \<and> (\<forall>v. obal (bank_led d) (cash_owner v) = obal (bank_led c) (cash_owner v))" if "bank_ok paid c" "d = c \<or> granted c d" for c d
    using that bank_step_ok_refl granted_ok granted_cash [OF bank_okD(1)] by blast
  obtain b1 where b1: "maybe_grant_referral_bonus now u a b = Inr b1" "maybe_grant_welcome_bonus now u a b1 = Inr b'"
    using g by (auto simp: deposit_rewards_def bind_result_Inr_iff)
  note s1 = one [OF ok referral_grants [OF ok b1(1)]]
  have ok1: "bank_ok paid b1" using s1 by (simp add: bank_step_ok_def)
  show ?thesis using s1 one [OF ok1 welcome_grants [OF ok1 b1(2)]] bank_step_ok_trans by auto
qed

lemma rewards_ok: "bank_ok paid b \<Longrightarrow> deposit_rewards now u a b = Inr b' \<Longrightarrow> bank_step_ok paid b b'"
  using rewards_granted by blast

lemma bonus_end_kept: "moved (bank_led b) src dst x k l \<Longrightarrow> bank_kept b (update_bonus i f (b\<lparr>bk_db := (bk_db b)\<lparr>led := l\<rparr>\<rparr>))"
  using moved_keys [of "bank_led b" src dst x k l] by (auto simp: bank_kept_def update_bonus_def)

lemma convert_ok:
  assumes ok: "bank_ok paid b" and c: "convert_bonus_to_cash now i b = Inr (done, b')" shows "bank_step_ok paid b b'"
proof (cases "b' = b")
  case False
  obtain x t b1 where x: "bonus_by_id b i = Some x" "bn_status x = ''active''"
      and m: "move_money now (bonus_owner (bn_user x)) (cash_owner (bn_user x))
         (transfer_args ''bonus_convert'' (bn_amount x) (bonus_convert_key i) None None ''system'') b = Inr (t, b1)"
      and b': "bank_commit b (update_bonus i (\<lambda>x. x\<lparr>bn_status := ''converted'', bn_convert_txn := Some (txn_id t)\<rparr>) b1) = Inr b'"
    using c False by (auto simp: convert_bonus_to_cash_def bind_result_Inr_iff split: option.splits if_splits)
  note xi = bonus_by_id_in [OF x(1)]
  have w: "whole_cents (bn_amount x)" using bonuses_okD(2) [OF bank_okD(3) [OF ok]] xi by (auto simp: bonus_ok_def)
  obtain l where l: "b1 = b\<lparr>bk_db := (bk_db b)\<lparr>led := l\<rparr>\<rparr>"
      "moved (bank_led b) (bonus_owner (bn_user x)) (cash_owner (bn_user x)) (bn_amount x) (bonus_convert_key i) l"
    using move_money_Inr [OF m bank_okD(1) [OF ok] _ w] by auto
  have "bank_ok paid (update_bonus i (\<lambda>x. x\<lparr>bn_status := ''converted'', bn_convert_txn := Some (txn_id t)\<rparr>) (b\<lparr>bk_db := (bk_db b)\<lparr>led := l\<rparr>\<rparr>))"
    by (rule bonus_ended [OF ok _ _ x(2) _ _ _ _ _ l(2)]) (use xi in \<open>simp_all add: bonus_keys_def\<close>)
  then show ?thesis using bank_commit_Inr [OF b'] l(1) bonus_end_kept [OF l(2)] by (simp add: bank_step_ok_def)
qed (use bank_step_ok_refl [OF ok] in simp)

text \<open>Expiry and revocation end a bonus the same way.\<close>

lemma taken_back_ok:
  assumes ok: "bank_ok paid b" and x: "bonus_by_id b i = Some x" "bn_status x = ''active''"
    and k: "k \<in> bonus_keys i" and st: "st \<in> {''expired'', ''revoked''}"
    and tb: "take_back now k x b = Inr (t, b1)" and b': "bank_commit b (update_bonus i (\<lambda>x. x\<lparr>bn_status := st\<rparr>) b1) = Inr b'"
  shows "bank_step_ok paid b b'"
proof -
  note xi = bonus_by_id_in [OF x(1)]
  have w: "whole_cents (bn_amount x)" using bonuses_okD(2) [OF bank_okD(3) [OF ok]] xi by (auto simp: bonus_ok_def)
  obtain l where l: "b1 = b\<lparr>bk_db := (bk_db b)\<lparr>led := l\<rparr>\<rparr>"
      "moved (bank_led b) (bonus_owner (bn_user x)) promo_owner (bn_amount x) k l"
    using take_back_Inr [OF tb bank_okD(1) [OF ok] w] by auto
  have "bank_ok paid (update_bonus i (\<lambda>x. x\<lparr>bn_status := st\<rparr>) (b\<lparr>bk_db := (bk_db b)\<lparr>led := l\<rparr>\<rparr>))"
    by (rule bonus_ended [OF ok _ _ x(2) k _ _ _ _ l(2)]) (use xi st in simp_all)
  then show ?thesis using bank_commit_Inr [OF b'] l(1) bonus_end_kept [OF l(2)] by (simp add: bank_step_ok_def)
qed

lemma expire_ok:
  assumes ok: "bank_ok paid b" and c: "expire_bonus now i b = Inr (done, b')" shows "bank_step_ok paid b b'"
proof (cases "b' = b")
  case False
  obtain x t b1 where "bonus_by_id b i = Some x" "bn_status x = ''active''" "take_back now (bonus_expire_key i) x b = Inr (t, b1)"
      "bank_commit b (update_bonus i (\<lambda>x. x\<lparr>bn_status := ''expired''\<rparr>) b1) = Inr b'"
    using c False by (auto simp: expire_bonus_def bind_result_Inr_iff split: option.splits if_splits)
  then show ?thesis by (intro taken_back_ok [OF ok, of i x "bonus_expire_key i" "''expired''"]) (simp_all add: bonus_keys_def)
qed (use bank_step_ok_refl [OF ok] in simp)

lemma revoke_ok:
  assumes ok: "bank_ok paid b" and c: "revoke_bonus now i b = Inr (done, b')" shows "bank_step_ok paid b b'"
proof (cases "b' = b")
  case False
  obtain x t b1 where "bonus_by_id b i = Some x" "bn_status x = ''active''" "take_back now (bonus_revoke_key i) x b = Inr (t, b1)"
      "bank_commit b (update_bonus i (\<lambda>x. x\<lparr>bn_status := ''revoked''\<rparr>) b1) = Inr b'"
    using c False by (auto simp: revoke_bonus_def bind_result_Inr_iff split: option.splits if_splits)
  then show ?thesis by (intro taken_back_ok [OF ok, of i x "bonus_revoke_key i" "''revoked''"]) (simp_all add: bonus_keys_def)
qed (use bank_step_ok_refl [OF ok] in simp)

lemma revoke_admin_ok:
  assumes ok: "bank_ok paid b" and c: "revoke_bonus_admin now i b = Inr (done, b')" shows "bank_step_ok paid b b'"
  using c revoke_ok [OF ok, of now i] bank_step_ok_refl [OF ok]
  by (auto simp: revoke_bonus_admin_def split: sum.splits exc.splits)

lemma manual_grant_ok:
  assumes ok: "bank_ok paid b" and w: "whole_cents amount"
    and g: "grant_manual_bonus_admin now stamp adm u amount multiplier days reason b = Inr (i, b')"
  shows "bank_step_ok paid b b'"
proof -
  obtain req ex x b1 where "grant_bonus now u (manual_grant_key adm u stamp) amount req None None ex (Some adm) (Some reason) b = Inr (x, b1)"
      "bank_commit b b1 = Inr b'"
    using g by (auto simp: grant_manual_bonus_admin_def Let_def bind_result_Inr_iff)
  then show ?thesis using grant_bonus_ok [OF ok _ w] bank_commit_Inr by (metis reward_keys(3))
qed

lemma progress_ok: "bank_ok paid b \<Longrightarrow> bank_step_ok paid b (update_bonus i (\<lambda>x. x\<lparr>bn_wagering_progress := a\<rparr>) b)"
  using bonus_row_changed [of paid b "\<lambda>x. x\<lparr>bn_wagering_progress := a\<rparr>" i] by (simp add: bank_step_ok_def) (simp add: bank_kept_def update_bonus_def)

lemma sweep_one_ok:
  assumes ok: "bank_ok paid b" and s: "sweep_one_bonus now row b = (r, b')" shows "bank_step_ok paid b b'"
proof (cases "b' = b")
  case False
  obtain a where a: "b' = update_bonus (bn_id row) (\<lambda>x. x\<lparr>bn_wagering_progress := a\<rparr>) b
      \<or> (\<exists>z. convert_bonus_to_cash now (bn_id row) (update_bonus (bn_id row) (\<lambda>x. x\<lparr>bn_wagering_progress := a\<rparr>) b) = Inr (z, b'))
      \<or> (\<exists>z. expire_bonus now (bn_id row) (update_bonus (bn_id row) (\<lambda>x. x\<lparr>bn_wagering_progress := a\<rparr>) b) = Inr (z, b'))"
    using s False by (auto simp: sweep_one_bonus_def Let_def split: sum.splits if_splits option.splits)
  note p = progress_ok [OF ok, of "bn_id row" a]
  have ok1: "bank_ok paid (update_bonus (bn_id row) (\<lambda>x. x\<lparr>bn_wagering_progress := a\<rparr>) b)" using p by (simp add: bank_step_ok_def)
  show ?thesis
    using a p bank_step_ok_trans [OF p] convert_ok [OF ok1] expire_ok [OF ok1] by blast
qed (use bank_step_ok_refl [OF ok] in simp)

subsection \<open>Deposits\<close>

lemma payment_by_ref_in: "payment_by_ref b r = Some p \<Longrightarrow> p \<in> set (bk_payments b) \<and> pm_our_ref p = r"
  by (auto simp: payment_by_ref_def find_Some_iff)

lemma payment_by_id_in: "payment_by_id b i = Some p \<Longrightarrow> p \<in> set (bk_payments b) \<and> pm_id p = i"
  by (auto simp: payment_by_id_def find_Some_iff)

lemma manual_payment_in:
  "manual_payment b i dir = Some p \<Longrightarrow> p \<in> set (bk_payments b) \<and> pm_id p = i \<and> pm_direction p = dir \<and> pm_provider p = ''manual''"
  by (auto simp: manual_payment_def find_Some_iff)

lemma payment_ref_prefix:
  "take 4 (payment_ref ''DEP'' year n) = ''DEP-''" "take 3 (payment_ref ''WD'' year n) = ''WD-''"
  by (simp_all add: payment_ref_def)

text \<open>The eligibility check writes nothing but the user's row of limits.\<close>

lemma eligibility_same:
  assumes "check_deposit_eligibility now u a cap b = (r, b')"
  obtains d where "b' = b\<lparr>bk_db := d\<rparr>" "led d = bank_led b"
proof -
  have "\<exists>d. b' = b\<lparr>bk_db := d\<rparr> \<and> led d = bank_led b"
  proof (cases "b' = b")
    case True
    then show ?thesis by (intro exI [of _ "bk_db b"]) simp
  next
    case False
    then obtain lm d where d: "get_or_create_limits u (bk_db b) = Inr (lm, d)" "b' = b\<lparr>bk_db := d\<rparr>"
      using assms by (auto simp: check_deposit_eligibility_def Let_def split: option.splits if_splits sum.splits)
    then show ?thesis using get_or_create_limits_Inr(2) [OF d(1)] by (intro exI [of _ d]) simp
  qed
  then show thesis using that by blast
qed

lemma eligibility_ok:
  assumes "bank_ok paid b" "check_deposit_eligibility now u a cap b = (r, b')"
  shows "bank_step_ok paid b b'" "bk_payments b' = bk_payments b" "bk_evidence b' = bk_evidence b" "bank_led b' = bank_led b" "bk_ref_seq b' = bk_ref_seq b"
  by (rule eligibility_same [OF assms(2)], simp add: step_same_ledger [OF assms(1)])+

text \<open>What a successful insert tells of the row.\<close>

lemma insert_payment_Inr:
  assumes "insert_payment row b = Inr b'"
  obtains a where "b' = b\<lparr>bk_payments := bk_payments b @ [row\<lparr>pm_amount := a\<rparr>]\<rparr>" "whole_cents a" "0 < a"
    "pm_our_ref row \<notin> pm_our_ref ` set (bk_payments b)" "whole_cents (pm_amount row) \<longrightarrow> a = pm_amount row"
proof -
  obtain a where a: "numeric18_2 (pm_amount row) = Inr a" "0 < a" "\<not> (\<exists>p\<in>set (bk_payments b). pm_our_ref p = pm_our_ref row)"
      "b' = b\<lparr>bk_payments := bk_payments b @ [row\<lparr>pm_amount := a\<rparr>]\<rparr>"
    using assms by (auto simp: insert_payment_def bind_result_Inr_iff split: if_splits)
  show thesis by (rule that [OF a(4) numeric18_2_whole(1) [OF a(1)] a(2)]) (use a(3) numeric18_2_whole(2) [OF a(1)] in force)+
qed

text \<open>The row of a new deposit that is not credited yet.\<close>

lemma deposit_inserted_ok:
  assumes ok: "bank_ok paid b" and row: "pm_id row = new_payment_id b" "pm_direction row = ''in''" "take 4 (pm_our_ref row) = ''DEP-''"
      "pm_status row \<noteq> ''succeeded''" "pm_provider row \<noteq> ''telebirr_sms''"
    and i: "insert_payment row b = Inr b'"
  shows "bank_step_ok paid b b'"
proof -
  obtain a where a: "b' = b\<lparr>bk_payments := bk_payments b @ [row\<lparr>pm_amount := a\<rparr>]\<rparr>" "whole_cents a" "0 < a"
      "pm_our_ref row \<notin> pm_our_ref ` set (bk_payments b)" by (rule insert_payment_Inr [OF i])
  have "bank_ok paid b'" unfolding a(1) by (rule deposit_opened [OF ok]) (use row a(2-4) in simp_all)
  then show ?thesis using a(1) by (simp add: bank_step_ok_def bank_kept_def)
qed

lemma open_deposit_ok:
  assumes ok: "bank_ok paid b" and prov: "provider \<noteq> ''telebirr_sms''"
    and od: "open_deposit now year allowed provider u a lo cap b = (r, b')"
  shows "bank_step_ok paid b b'"
proof (cases "check_deposit_rate_limit_and_minimum allowed a lo")
  case (Inr z)
  obtain r1 b1 where e: "check_deposit_eligibility now u a cap b = (r1, b1)" by force
  note s1 = eligibility_ok(1) [OF ok e]
  have ok1: "bank_ok paid b1" using s1 by (simp add: bank_step_ok_def)
  show ?thesis
  proof (cases r1)
    case (Inl x)
    then show ?thesis using od Inr e s1 by (simp add: open_deposit_def)
  next
    case ro: (Inr z')
    define b2 where "b2 = b1\<lparr>bk_ref_seq := bk_ref_seq b1 + 1\<rparr>"
    define row where "row = new_payment now u ''in'' provider (payment_ref ''DEP'' year (bk_ref_seq b1 + 1)) a ''pending'' b2"
    have od': "(case insert_payment row b2 of Inl x \<Rightarrow> b' = b2 | Inr b3 \<Rightarrow> b' = b3)"
      using od Inr e ro by (auto simp: open_deposit_def next_ref_def Let_def b2_def row_def split: sum.splits)
    have ok2: "bank_ok paid b2" and s2: "bank_step_ok paid b b2" using ok1 s1 by (simp_all add: b2_def)
    show ?thesis
    proof (cases "insert_payment row b2")
      case (Inr b3)
      have "bank_step_ok paid b2 b3"
        by (rule deposit_inserted_ok [OF ok2 _ _ _ _ _ Inr]) (use prov in \<open>simp_all add: row_def new_payment_def payment_ref_prefix\<close>)
      then show ?thesis using od' Inr bank_step_ok_trans [OF s2] by simp
    qed (use od' s2 in simp)
  qed
qed (use od bank_step_ok_refl [OF ok] in \<open>simp add: open_deposit_def\<close>)

lemma record_checkout_ok:
  assumes ok: "bank_ok paid b" and p: "payment_by_id b i = Some p" "pm_direction p = ''in''"
  shows "bank_step_ok paid b (record_checkout now i answer b)"
  using payment_by_id_in [OF p(1)] p(2)
  by (cases answer) (auto simp: record_checkout_def row_identity_def intro!: step_deposit_row [OF ok, of p])

text \<open>A deposit credited and its rewards: the end of every path that accepts a deposit.\<close>

lemma credited_ok:
  assumes ok: "bank_ok paid b" and p: "p \<in> set (bk_payments b)" "pm_id p = i" "pm_direction p = ''in''"
    and cr: "credit_deposit now p b = Inr (t, b1)"
    and f: "\<And>q. row_identity (f q) = row_identity q"
    and rw: "deposit_rewards now u a (update_payment i f b1) = Inr b2" and cm: "bank_commit old b2 = Inr b'"
  shows "bank_step_ok paid b b'"
proof -
  note c = step_deposit_credited [OF ok p(1,3) cr]
  have ok1: "bank_ok paid b1" using c(1) by (simp add: bank_step_ok_def)
  have s2: "bank_step_ok paid b1 (update_payment i f b1)"
    by (rule step_deposit_row [where f = f, OF ok1 _ p(2,3) f]) (use c p(1) in simp_all)
  have s3: "bank_step_ok paid (update_payment i f b1) b2" by (rule rewards_ok [OF _ rw]) (use s2 in \<open>simp add: bank_step_ok_def\<close>)
  show ?thesis using bank_commit_Inr [OF cm] bank_step_ok_trans [OF c(1) bank_step_ok_trans [OF s2 s3]] by simp
qed

text \<open>The branches of a status report; the event is recorded in all but the first.\<close>

definition event_recorded :: "string \<Rightarrow> string \<Rightarrow> payment \<Rightarrow> bank \<Rightarrow> bank" where
  "event_recorded provider event p b = b\<lparr>bk_events := bk_events b @ [\<lparr>pe_payment = pm_id p, pe_provider = provider, pe_event_id = event\<rparr>]\<rparr>"

lemma apply_confirmed_cases:
  assumes "apply_confirmed_status now r event provider status amount pref b = Inr (outcome, b')" "payment_by_ref b r = Some p"
  obtains (kept) "outcome = ''duplicate''" "b' = b" | (recorded) "outcome = ''duplicate'' \<or> outcome = ''pending''" "b' = event_recorded provider event p b"
    | (failed) "outcome = ''not_succeeded''" "status \<noteq> ''succeeded''"
        "b' = update_payment (pm_id p) (\<lambda>p. p\<lparr>pm_status := status, pm_updated_at := now\<rparr>) (event_recorded provider event p b)"
    | (review) "outcome = ''amount_mismatch''"
        "b' = update_payment (pm_id p) (\<lambda>p. p\<lparr>pm_status := ''review'', pm_updated_at := now\<rparr>) (event_recorded provider event p b)"
    | (credited) t b2 b3 where "outcome = ''credited''" "status = ''succeeded''" "amount = Some (pm_amount p)" "pm_status p \<noteq> ''succeeded''"
        "credit_deposit now p (event_recorded provider event p b) = Inr (t, b2)"
        "deposit_rewards now (pm_user p) (pm_amount p) (update_payment (pm_id p) (\<lambda>p. p\<lparr>pm_status := ''succeeded'', pm_provider_ref := Some pref,
           pm_ledger_txn := Some (txn_id t), pm_updated_at := now\<rparr>) b2) = Inr b3" "bank_commit b b3 = Inr b'"
proof -
  let ?old = "\<exists>e\<in>set (bk_events b). pe_provider e = provider \<and> pe_event_id e = event"
  note ap = assms(1) [unfolded apply_confirmed_status_def assms(2) Let_def event_recorded_def [symmetric], simplified option.case]
  consider (old) ?old | (over) "\<not> ?old" "pm_status p = ''succeeded''"
    | (no) "\<not> ?old" "pm_status p \<noteq> ''succeeded''" "status \<noteq> ''succeeded''"
    | (wrong) "\<not> ?old" "pm_status p \<noteq> ''succeeded''" "status = ''succeeded''" "amount \<noteq> Some (pm_amount p)"
    | (right) "\<not> ?old" "pm_status p \<noteq> ''succeeded''" "status = ''succeeded''" "amount = Some (pm_amount p)" by blast
  then show thesis
  proof cases
    case old
    then show thesis using ap that(1) by simp
  next
    case over
    then show thesis using ap that(2) by simp
  next
    case no
    then show thesis using ap that(2,3) by (auto split: if_splits)
  next
    case wrong
    then show thesis using ap that(4) by simp
  next
    case right
    then show thesis using ap that(5) by (auto simp: bind_result_Inr_iff)
  qed
qed

lemma event_recorded_ok:
  assumes "bank_ok paid b"
  shows "bank_ok paid (event_recorded provider event p b)" "bank_step_ok paid b (event_recorded provider event p b)"
    "bk_payments (event_recorded provider event p b) = bk_payments b" "bank_led (event_recorded provider event p b) = bank_led b"
  using assms bank_step_ok_refl [OF assms] by (simp_all add: event_recorded_def)

lemma apply_confirmed_ok:
  assumes ok: "bank_ok paid b" and dir: "\<And>p. payment_by_ref b r = Some p \<Longrightarrow> pm_direction p = ''in''"
    and ap: "apply_confirmed_status now r ev prov status amount pref b = Inr (outcome, b')"
  shows "bank_step_ok paid b b'"
proof (cases "payment_by_ref b r")
  case None
  then show ?thesis using ap bank_step_ok_refl [OF ok] by (simp add: apply_confirmed_status_def)
next
  case (Some p)
  note pi = payment_by_ref_in [OF Some] and pd = dir [OF Some]
  note e = event_recorded_ok [OF ok, of prov ev p]
  have p1: "p \<in> set (bk_payments (event_recorded prov ev p b))" using pi e(3) by simp
  have row: "bank_step_ok paid b (update_payment (pm_id p) f (event_recorded prov ev p b))"
    if "\<And>q. row_identity (f q) = row_identity q" "pm_status (f p) \<noteq> ''succeeded''" for f
    by (rule bank_step_ok_trans [OF e(2) step_deposit_row [where f = f, OF e(1) p1 refl pd]]) (use that in simp_all)
  from ap Some show ?thesis
  proof (cases rule: apply_confirmed_cases)
    case failed
    show ?thesis unfolding failed(3) by (rule row) (use failed(2) in \<open>simp_all add: row_identity_def\<close>)
  next
    case review
    show ?thesis unfolding review(2) by (rule row) (simp_all add: row_identity_def)
  next
    case (credited t b2 b3)
    show ?thesis
      by (rule bank_step_ok_trans [OF e(2) credited_ok [OF e(1) p1 refl pd credited(5) _ credited(6,7)]])
        (simp add: row_identity_def)
  qed (use bank_step_ok_refl [OF ok] e(2) in simp_all)
qed

lemma manual_request_ok:
  assumes ok: "bank_ok paid b" and od: "create_manual_deposit_request now year allowed u a ds ext receipt lo cap b = (r, b')"
  shows "bank_step_ok paid b b'"
proof -
  obtain r1 b1 where e: "check_deposit_eligibility now u a cap b = (r1, b1)" by force
  note s1 = eligibility_ok(1) [OF ok e]
  define b2 where "b2 = b1\<lparr>bk_ref_seq := bk_ref_seq b1 + 1\<rparr>"
  define row where "row = (new_payment now u ''in'' ''manual'' (payment_ref ''DEP'' year (bk_ref_seq b1 + 1)) a ''review'' b2)
    \<lparr>pm_destination := Some ds, pm_provider_ref := Some ext, pm_receipt := receipt\<rparr>"
  have cases: "b' = b \<or> b' = b\<lparr>bk_ref_seq := bk_ref_seq b2\<rparr> \<or> insert_payment row b2 = Inr b'"
    using od e by (auto simp: create_manual_deposit_request_def next_ref_def Let_def b2_def row_def split: sum.splits if_splits)
  have ok2: "bank_ok paid b2" and s2: "bank_step_ok paid b b2" using s1 by (simp_all add: b2_def) (simp add: bank_step_ok_def)
  have ins: "bank_step_ok paid b2 b'" if "insert_payment row b2 = Inr b'"
    by (rule deposit_inserted_ok [OF ok2 _ _ _ _ _ that]) (simp_all add: row_def new_payment_def payment_ref_prefix new_payment_id_def)
  show ?thesis using cases ins bank_step_ok_trans [OF s2] bank_step_ok_refl [OF ok] by auto
qed

lemma attach_receipt_ok:
  assumes ok: "bank_ok paid b" shows "bank_step_ok paid b (snd (attach_receipt_to_latest_pending_deposit now u file b))"
proof -
  let ?P = "\<lambda>p. pm_user p = u \<and> pm_direction p = ''in'' \<and> pm_provider p = ''manual'' \<and> pm_status p = ''review'' \<and> pm_receipt p = None"
  show ?thesis
  proof (cases "latest_by pm_created_at (filter ?P (bk_payments b))")
    case None
    then show ?thesis using bank_step_ok_refl [OF ok] by (simp add: attach_receipt_to_latest_pending_deposit_def)
  next
    case (Some p)
    have p: "p \<in> set (bk_payments b)" "pm_direction p = ''in''" "pm_status p = ''review''" using latest_by_filter [OF Some] by auto
    have "bank_step_ok paid b (update_payment (pm_id p) (\<lambda>p. p\<lparr>pm_receipt := Some file, pm_updated_at := now\<rparr>) b)"
      by (rule step_deposit_row [OF ok p(1) refl p(2)]) (simp_all add: row_identity_def p(3))
    then show ?thesis using Some by (simp add: attach_receipt_to_latest_pending_deposit_def)
  qed
qed

end
