(* ===== verification/Bank_Payouts.thy ===== *)
theory Bank_Payouts
  imports Bank_Ops
begin

text \<open>
  The operations of the payments side, continued: \<open>bank_step_ok\<close> of withdrawals, of the payout worker, of the
  decisions of admins and of the Telebirr evidence.
\<close>

subsection \<open>Admins and manual payments\<close>

lemma first_approval_ok:
  assumes ok: "bank_ok paid b" and p: "p \<in> set (bk_payments b)" "pm_id p = i"
  shows "bank_step_ok paid b (update_payment i (\<lambda>p. p\<lparr>pm_first_approver := a\<rparr>) b)"
proof (rule step_row_changed [OF ok p])
  have same: "ending_keys (p\<lparr>pm_first_approver := a\<rparr>) = ending_keys p" "taken_ending (p\<lparr>pm_first_approver := a\<rparr>) = taken_ending p"
    by (simp_all add: ending_keys_def taken_ending_def)
  have "payment_ok paid (tkeys (bank_led b)) p" by (rule payments_okD(3) [OF bank_okD(2) [OF ok] p(1)])
  then show "payment_ok paid (tkeys (bank_led b)) (p\<lparr>pm_first_approver := a\<rparr>)"
    unfolding payment_ok_def deposit_row_ok_def payout_row_ok_def same by simp
qed (simp_all add: row_identity_def live_payout_def)

lemma gate_Inr:
  assumes "apply_two_person_gate (Some p) adm i limit b = Inr (outcome, b')" "outcome = None"
  shows "b' = b" "pm_status p = ''review''" "limit \<le> pm_amount p \<longrightarrow> (\<exists>first. pm_first_approver p = Some first \<and> first \<noteq> adm)"
  using assms by (auto simp: apply_two_person_gate_def split: if_splits option.splits)

lemma gate_ok:
  assumes ok: "bank_ok paid b" and g: "apply_two_person_gate (manual_payment b i dir) adm i limit b = Inr (outcome, b')"
  shows "bank_step_ok paid b b'"
proof (cases "b' = b")
  case False
  then obtain p where p: "manual_payment b i dir = Some p" "b' = update_payment i (\<lambda>p. p\<lparr>pm_first_approver := Some adm\<rparr>) b"
    using g by (auto simp: apply_two_person_gate_def split: if_splits option.splits)
  show ?thesis unfolding p(2) by (rule first_approval_ok [OF ok]) (use manual_payment_in [OF p(1)] in blast)+
qed (use bank_step_ok_refl [OF ok] in simp)

lemma approve_manual_deposit_ok:
  assumes ok: "bank_ok paid b" and ap: "approve_manual_deposit_admin now adm i limit b = Inr (outcome, b')"
  shows "bank_step_ok paid b b'"
proof -
  let ?row = "manual_payment b i ''in''"
  obtain g b1 where g: "apply_two_person_gate ?row adm i limit b = Inr (g, b1)"
    using ap by (auto simp: approve_manual_deposit_admin_def Let_def bind_result_Inr_iff)
  show ?thesis
  proof (cases g)
    case (Some x)
    then have "b' = b1" using ap g by (simp add: approve_manual_deposit_admin_def Let_def)
    then show ?thesis using gate_ok [OF ok g] by simp
  next
    case None
    then obtain p where p: "?row = Some p" using ap g by (cases ?row) (auto simp: approve_manual_deposit_admin_def apply_two_person_gate_def Let_def)
    have b1: "b1 = b" using gate_Inr(1) [OF g [unfolded p] None] .
    obtain t b2 b3 where c: "credit_deposit now p b = Inr (t, b2)"
        "deposit_rewards now (pm_user p) (pm_amount p) (update_payment i (\<lambda>p. p\<lparr>pm_status := ''succeeded'', pm_ledger_txn := Some (txn_id t),
          pm_updated_at := now\<rparr>) b2) = Inr b3" "bank_commit b b3 = Inr b'"
      using ap g None p b1 by (auto simp: approve_manual_deposit_admin_def Let_def bind_result_Inr_iff)
    note pi = manual_payment_in [OF p]
    show ?thesis by (rule credited_ok [OF ok _ _ _ c(1) _ c(2,3)]) (use pi in \<open>simp_all add: row_identity_def\<close>)
  qed
qed

lemma reject_manual_deposit_ok:
  assumes ok: "bank_ok paid b" shows "bank_step_ok paid b (snd (reject_manual_deposit_admin now i reason b))"
proof (cases "manual_payment b i ''in''")
  case (Some p)
  note pi = manual_payment_in [OF Some]
  have "bank_step_ok paid b (update_payment i (\<lambda>p. p\<lparr>pm_status := ''rejected'', pm_failure_reason := Some reason, pm_updated_at := now\<rparr>) b)"
    by (rule step_deposit_row [OF ok, of p]) (use pi in \<open>simp_all add: row_identity_def\<close>)
  then show ?thesis using Some bank_step_ok_refl [OF ok] by (simp add: reject_manual_deposit_admin_def)
qed (use bank_step_ok_refl [OF ok] in \<open>simp add: reject_manual_deposit_admin_def\<close>)

subsection \<open>Withdrawals\<close>

lemma gates_pass: "withdrawal_gates now terms u a b = Inr x \<Longrightarrow> wt_min_withdraw terms \<le> a"
  by (auto simp: withdrawal_gates_def split: if_splits)

text \<open>The branches of a request: refused at a gate, failed at the money or the row, or opened.\<close>

lemma request_cases:
  assumes rq: "request_withdrawal now year provider terms u a kind acc holder b = (r, b')"
  obtains (refused) x where "r = Inl x" "b' = b" | (failed) x n where "r = Inl x" "b' = b\<lparr>bk_ref_seq := n\<rparr>"
    | (opened) user mid b1 t b3 checks st row b4 where "withdrawal_gates now terms u a b = Inr user" "upsert_method u kind acc holder b = (mid, b1)"
        "move_money now (cash_owner u) (locked_owner u) (lock_args a (payment_ref ''WD'' year (bk_ref_seq b1 + 1))) (b1\<lparr>bk_ref_seq := bk_ref_seq b1 + 1\<rparr>) = Inr (t, b3)"
        "checks = failed_checks now terms user u a b3"
        "st = (if checks = [] \<and> \<not> wt_force_review terms then STATUS_APPROVED else STATUS_REVIEW)"
        "row = (new_payment now u ''out'' provider (payment_ref ''WD'' year (bk_ref_seq b1 + 1)) a st b3)\<lparr>pm_method := Some mid,
          pm_ledger_txn := Some (txn_id t), pm_review_reason := checks @ (if wt_force_review terms then [ManualRail] else [])\<rparr>"
        "insert_payment row b3 = Inr b4" "b' = b4"
        "r = Inr \<lparr>wi_payment_id = pm_id row, wi_our_ref = payment_ref ''WD'' year (bk_ref_seq b1 + 1), wi_status = st\<rparr>"
proof (cases "withdrawal_gates now terms u a b")
  case (Inl x)
  then have "r = Inl x" "b' = b" using rq by (simp_all add: request_withdrawal_def)
  then show ?thesis by (rule that(1))
next
  case (Inr user)
  obtain mid b1 where m: "upsert_method u kind acc holder b = (mid, b1)" by force
  let ?ref = "payment_ref ''WD'' year (bk_ref_seq b1 + 1)"
  define b2 where "b2 = b1\<lparr>bk_ref_seq := bk_ref_seq b1 + 1\<rparr>"
  have nr: "next_ref ''WD'' year b1 = (?ref, b2)" by (simp add: next_ref_def b2_def Let_def)
  show ?thesis
  proof (cases "move_money now (cash_owner u) (locked_owner u) (lock_args a ?ref) b2")
    case (Inl x)
    then have "(\<exists>y. r = Inl y) \<and> b' = b\<lparr>bk_ref_seq := bk_ref_seq b2\<rparr>"
      using rq Inr m nr by (cases x) (auto simp: request_withdrawal_def Let_def)
    then show ?thesis using that(2) by blast
  next
    case mv: (Inr tb)
    obtain t b3 where tb: "tb = (t, b3)" by force
    define checks where "checks = failed_checks now terms user u a b3"
    define st where "st = (if checks = [] \<and> \<not> wt_force_review terms then STATUS_APPROVED else STATUS_REVIEW)"
    define row where "row = (new_payment now u ''out'' provider ?ref a st b3)\<lparr>pm_method := Some mid,
      pm_ledger_txn := Some (txn_id t), pm_review_reason := checks @ (if wt_force_review terms then [ManualRail] else [])\<rparr>"
    have e: "(case bind_result (insert_payment row b3) (bank_commit b) of Inl x \<Rightarrow> (Inl x, b\<lparr>bk_ref_seq := bk_ref_seq b2\<rparr>)
        | Inr b4 \<Rightarrow> (Inr \<lparr>wi_payment_id = pm_id row, wi_our_ref = ?ref, wi_status = st\<rparr>, b4)) = (r, b')"
      unfolding row_def st_def checks_def rq [symmetric] using Inr m nr mv tb by (simp add: request_withdrawal_def Let_def)
    show ?thesis
    proof (cases "bind_result (insert_payment row b3) (bank_commit b)")
      case (Inl x)
      then have "r = Inl x" "b' = b\<lparr>bk_ref_seq := bk_ref_seq b2\<rparr>" using e by simp_all
      then show ?thesis by (rule that(2))
    next
      case ins: (Inr b4)
      then obtain b4' where i: "insert_payment row b3 = Inr b4'" "b4 = b4'" using bank_commit_Inr by (auto simp: bind_result_Inr_iff)
      have r: "r = Inr \<lparr>wi_payment_id = pm_id row, wi_our_ref = ?ref, wi_status = st\<rparr>" "b' = b4'" using e ins i(2) by simp_all
      show ?thesis
        by (rule that(3) [OF Inr m mv [unfolded b2_def tb] checks_def st_def row_def i(1) r(2,1)])
    qed
  qed
qed

lemma request_ok:
  assumes ok: "bank_ok paid b" and prov: "provider \<noteq> ''telebirr_sms''" and w: "whole_cents a"
    and rq: "request_withdrawal now year provider terms u a kind acc holder b = (r, b')"
  shows "bank_step_ok paid b b'"
  using rq
proof (cases rule: request_cases)
  case (opened user mid b1 t b3 checks st row b4)
  let ?ref = "payment_ref ''WD'' year (bk_ref_seq b1 + 1)"
  define b2 where "b2 = b1\<lparr>bk_ref_seq := bk_ref_seq b1 + 1\<rparr>"
  have mb: "\<exists>ms. b1 = b\<lparr>bk_methods := ms\<rparr>" using opened(2) by (auto simp: upsert_method_def split: option.splits)
  then have ok2: "bank_ok paid b2" and s2: "bank_step_ok paid b b2" using ok bank_step_ok_refl [OF ok] by (auto simp: b2_def)
  obtain l where l: "b3 = b2\<lparr>bk_db := (bk_db b2)\<lparr>led := l\<rparr>\<rparr>" "moved (bank_led b2) (cash_owner u) (locked_owner u) a ?ref l"
    using move_money_Inr [OF opened(3) [unfolded lock_args_def, folded b2_def] bank_okD(1) [OF ok2] _ w] by auto
  obtain am where i: "b4 = b3\<lparr>bk_payments := bk_payments b3 @ [row\<lparr>pm_amount := am\<rparr>]\<rparr>" "whole_cents am" "0 < am"
      "pm_our_ref row \<notin> pm_our_ref ` set (bk_payments b3)" "whole_cents (pm_amount row) \<longrightarrow> am = pm_amount row"
    by (rule insert_payment_Inr [OF opened(7)])
  have row: "pm_user row = u" "pm_our_ref row = ?ref" "pm_amount row = a" "pm_id row = new_payment_id b3" "pm_direction row = ''out''"
    "pm_provider row = provider" "pm_status row = ''review'' \<or> pm_status row = ''approved''"
    by (simp_all add: opened(5,6) new_payment_def STATUS_APPROVED_def STATUS_REVIEW_def)
  have am: "am = a" using i(5) w row(3) by simp
  have "bank_ok paid (b2\<lparr>bk_db := (bk_db b2)\<lparr>led := l\<rparr>, bk_payments := bk_payments b2 @ [row\<lparr>pm_amount := am\<rparr>]\<rparr>)"
    by (rule payout_opened [OF ok2]) (use row i(2-4) l am prov in \<open>simp_all add: new_payment_id_def payment_ref_prefix\<close>)
  then have "bank_ok paid b'" using i(1) l(1) opened(8) by simp
  moreover have "bank_kept b2 b'" using i(1) l(1) opened(8) moved_keys [OF l(2)] by (auto simp: bank_kept_def)
  ultimately show ?thesis using bank_step_ok_trans [OF s2] by (simp add: bank_step_ok_def)
qed (use bank_step_ok_refl [OF ok] in simp_all)

subsection \<open>Decisions on payouts\<close>

lemma live_row_kept:
  assumes "payout_row_ok paid K p" "live_payout p" "row_identity q = row_identity p" "live_payout q"
    and "pm_provider p = ''manual'' \<Longrightarrow> pm_status q \<noteq> ''processing''"
  shows "payout_row_ok paid K q"
proof -
  note r = row_identityD [OF assms(3)]
  have te: "taken_ending p = {}" "taken_ending q = {}" using assms(2,4) by (auto simp: live_payout_def taken_ending_def)
  have ek: "ending_keys q = ending_keys p" using r by (simp add: ending_keys_def)
  have st: "pm_status q \<in> {''review'', ''approved'', ''processing'', ''succeeded'', ''failed'', ''rejected''}"
    "pm_status q \<noteq> ''succeeded''" "pm_status q \<noteq> ''failed''" using assms(4) by (auto simp: live_payout_def)
  have "ending_keys p \<inter> K = {}" "take 3 (pm_our_ref p) = ''WD-''" "pm_our_ref p \<in> K" "pm_direction p = ''out''"
    using assms(1) te(1) unfolding payout_row_ok_def by simp_all
  then show ?thesis unfolding payout_row_ok_def te ek r using assms(5) st by simp
qed

text \<open>A payout in flight moves on to another status of a payout in flight.\<close>

lemma live_changed_ok:
  assumes ok: "bank_ok paid b" and p: "p \<in> set (bk_payments b)" "pm_id p = i" and id: "row_identity (f p) = row_identity p"
    and live: "live_payout p" "live_payout (f p)" "pm_provider p = ''manual'' \<Longrightarrow> pm_status (f p) \<noteq> ''processing''"
    and fwd: "pm_status p = ''processing'' \<Longrightarrow> pm_status (f p) = ''processing''"
  shows "bank_step_ok paid b (update_payment i f b)"
proof (rule step_row_changed [where f = f, OF ok p id])
  have out: "pm_direction p = ''out''" using live(1) by (simp add: live_payout_def)
  have pk: "payment_ok paid (tkeys (bank_led b)) p" by (rule payments_okD(3) [OF bank_okD(2) [OF ok] p(1)])
  then have "payout_row_ok paid (tkeys (bank_led b)) p" using out by (simp add: payment_ok_def deposit_row_ok_def)
  from live_row_kept [OF this live(1) id live(2,3)] show "payment_ok paid (tkeys (bank_led b)) (f p)"
    using pk row_identityD(6) [OF id] by (simp add: payment_ok_def)
  show "live_payout (f p) = live_payout p" using live by simp
  show "pm_status (f p) = pm_status p \<or> pm_status p \<in> {''review'', ''approved''} \<and> pm_status (f p) \<noteq> ''succeeded''"
    using live fwd by (auto simp: live_payout_def)
qed

lemma find_in: "find P xs = Some x \<Longrightarrow> x \<in> set xs \<and> P x"
  by (auto simp: find_Some_iff)

lemma approve_withdrawal_ok:
  assumes ok: "bank_ok paid b" shows "bank_step_ok paid b (snd (approve_withdrawal_admin now i b))"
proof -
  let ?P = "\<lambda>p. pm_id p = i \<and> pm_direction p = ''out'' \<and> pm_provider p \<noteq> ''manual''"
  show ?thesis
  proof (cases "find ?P (bk_payments b)")
    case (Some p)
    note pi = find_in [OF Some]
    have "bank_step_ok paid b (update_payment i (\<lambda>p. p\<lparr>pm_status := ''approved'', pm_updated_at := now\<rparr>) b)" if "pm_status p = ''review''"
      by (rule live_changed_ok [OF ok, of p]) (use pi that in \<open>simp_all add: row_identity_def live_payout_def\<close>)
    then show ?thesis using Some bank_step_ok_refl [OF ok] by (simp add: approve_withdrawal_admin_def)
  qed (use bank_step_ok_refl [OF ok] in \<open>simp add: approve_withdrawal_admin_def\<close>)
qed

lemma approve_manual_withdrawal_ok:
  assumes ok: "bank_ok paid b" and ap: "approve_manual_withdrawal_admin now adm i limit b = Inr (outcome, b')"
  shows "bank_step_ok paid b b'"
proof -
  let ?row = "manual_payment b i ''out''"
  obtain g b1 where g: "apply_two_person_gate ?row adm i limit b = Inr (g, b1)"
    using ap by (auto simp: approve_manual_withdrawal_admin_def Let_def bind_result_Inr_iff)
  show ?thesis
  proof (cases g)
    case (Some x)
    then have "b' = b1" using ap g by (simp add: approve_manual_withdrawal_admin_def Let_def)
    then show ?thesis using gate_ok [OF ok g] by simp
  next
    case None
    then obtain p where p: "?row = Some p" using g by (cases ?row) (auto simp: apply_two_person_gate_def)
    note ga = gate_Inr [OF g [unfolded p] None] and pi = manual_payment_in [OF p]
    have "b' = update_payment i (\<lambda>p. p\<lparr>pm_status := ''approved'', pm_updated_at := now\<rparr>) b"
      using ap g None ga(1) by (auto simp: approve_manual_withdrawal_admin_def Let_def)
    moreover have "bank_step_ok paid b (update_payment i (\<lambda>p. p\<lparr>pm_status := ''approved'', pm_updated_at := now\<rparr>) b)"
      by (rule live_changed_ok [OF ok, of p]) (use pi ga(2) in \<open>simp_all add: row_identity_def live_payout_def\<close>)
    ultimately show ?thesis by simp
  qed
qed

lemma end_amount_whole: "bank_ok paid b \<Longrightarrow> p \<in> set (bk_payments b) \<Longrightarrow> whole_cents (pm_amount p)"
  using payments_okD(3) [OF bank_okD(2)] by (auto simp: payment_ok_def)

text \<open>The one shape of every ending: the posting, then the row.\<close>

lemma ending_ok:
  assumes ok: "bank_ok paid b" and p: "p \<in> set (bk_payments b)" "pm_id p = i" and live: "live_payout p"
    and mv: "move_money now (locked_owner (pm_user p)) dst (transfer_args kind (pm_amount p) e pay None by_whom) b = Inr (t, b1)"
    and e: "e \<in> ending_keys p" "taken_ending (f p) = {e}" and id: "row_identity (f p) = row_identity p"
    and st: "pm_status (f p) \<in> {''succeeded'', ''failed'', ''rejected''}" "pm_status p = ''processing'' \<Longrightarrow> pm_status (f p) \<noteq> ''rejected''"
    and verdict: "pm_provider p \<noteq> ''manual'' \<Longrightarrow>
      (pm_status (f p) = ''succeeded'' \<longrightarrow> paid (pm_our_ref p)) \<and> (pm_status (f p) = ''failed'' \<longrightarrow> \<not> paid (pm_our_ref p))"
    and dst: "dst = (if pm_status (f p) = ''succeeded'' then provider_owner else cash_owner (pm_user p))"
    and cm: "bank_commit old (update_payment i f b1) = Inr b'"
  shows "bank_step_ok paid b b'"
proof -
  obtain l where l: "b1 = b\<lparr>bk_db := (bk_db b)\<lparr>led := l\<rparr>\<rparr>" "moved (bank_led b) (locked_owner (pm_user p)) dst (pm_amount p) e l"
    using move_money_Inr [OF mv bank_okD(1) [OF ok] _ end_amount_whole [OF ok p(1)]] dst by (auto split: if_splits)
  show ?thesis
    using step_payout_ended [where f = f, OF ok p id live e st verdict l(2) dst] bank_commit_Inr [OF cm] l(1) by simp
qed

lemma reject_withdrawal_ok:
  assumes ok: "bank_ok paid b" and rj: "reject_withdrawal_admin now i reason b = Inr (done, b')"
  shows "bank_step_ok paid b b'"
proof (cases "b' = b")
  case False
  obtain p t b1 where p: "out_payment b i = Some p" "pm_status p = ''review''"
      and m: "move_money now (locked_owner (pm_user p)) (cash_owner (pm_user p))
        (transfer_args ''refund'' (pm_amount p) (payout_reject_key i) (Some i) None ''system'') b = Inr (t, b1)"
      and c: "bank_commit b (update_payment i (\<lambda>p. p\<lparr>pm_status := ''rejected'', pm_failure_reason := Some reason, pm_updated_at := now\<rparr>) b1) = Inr b'"
    using rj False by (auto simp: reject_withdrawal_admin_def bind_result_Inr_iff split: option.splits if_splits)
  note pi = find_in [OF p(1) [unfolded out_payment_def]]
  show ?thesis
    by (rule ending_ok [OF ok _ _ _ m _ _ _ _ _ _ _ c])
      (use pi p(2) in \<open>simp_all add: live_payout_def ending_keys_def taken_ending_def row_identity_def\<close>)
qed (use bank_step_ok_refl [OF ok] in simp)

lemma settle_manual_ok:
  assumes ok: "bank_ok paid b" and rj: "settle_manual_withdrawal_admin now i ext b = Inr (done, b')"
  shows "bank_step_ok paid b b'"
proof (cases "b' = b")
  case False
  obtain p t b1 where p: "manual_payment b i ''out'' = Some p" "pm_status p = ''approved''"
      and m: "move_money now (locked_owner (pm_user p)) provider_owner
        (transfer_args ''payout'' (pm_amount p) (manual_settle_key (pm_our_ref p)) (Some i) None ''system'') b = Inr (t, b1)"
      and c: "bank_commit b (update_payment i (\<lambda>p. p\<lparr>pm_status := ''succeeded'', pm_provider_ref := Some ext,
        pm_ledger_txn := Some (txn_id t), pm_updated_at := now\<rparr>) b1) = Inr b'"
    using rj False by (auto simp: settle_manual_withdrawal_admin_def bind_result_Inr_iff split: option.splits if_splits)
  note pi = manual_payment_in [OF p(1)]
  show ?thesis
    by (rule ending_ok [OF ok _ _ _ m _ _ _ _ _ _ _ c])
      (use pi p(2) in \<open>simp_all add: live_payout_def ending_keys_def taken_ending_def row_identity_def\<close>)
qed (use bank_step_ok_refl [OF ok] in simp)

lemma fail_manual_ok:
  assumes ok: "bank_ok paid b" and rj: "fail_manual_withdrawal_admin now i reason b = Inr (done, b')"
  shows "bank_step_ok paid b b'"
proof (cases "b' = b")
  case False
  obtain p t b1 where p: "manual_payment b i ''out'' = Some p" "pm_status p = ''approved''"
      and m: "move_money now (locked_owner (pm_user p)) (cash_owner (pm_user p))
        (transfer_args ''refund'' (pm_amount p) (manual_fail_key i) (Some i) None ''system'') b = Inr (t, b1)"
      and c: "bank_commit b (update_payment i (\<lambda>p. p\<lparr>pm_status := ''failed'', pm_failure_reason := Some reason, pm_updated_at := now\<rparr>) b1) = Inr b'"
    using rj False by (auto simp: fail_manual_withdrawal_admin_def bind_result_Inr_iff split: option.splits if_splits)
  note pi = manual_payment_in [OF p(1)]
  show ?thesis
    by (rule ending_ok [OF ok _ _ _ m _ _ _ _ _ _ _ c])
      (use pi p(2) in \<open>simp_all add: live_payout_def ending_keys_def taken_ending_def row_identity_def\<close>)
qed (use bank_step_ok_refl [OF ok] in simp)

end
