(* ===== verification/Bank_Dispatch.thy ===== *)
theory Bank_Dispatch
  imports Bank_Payouts Telebirr Withdrawals
begin

text \<open>
  The operations of the payments side, concluded: \<open>bank_step_ok\<close> of the payout worker, which answers for a
  payment it read some time ago, of the corrections by admins, and of the Telebirr evidence.
\<close>

subsection \<open>The payout worker\<close>

lemma claim_payout_ok:
  assumes ok: "bank_ok paid b" and dir: "\<And>p. payment_by_ref b r = Some p \<Longrightarrow> pm_direction p = ''out''"
    and prov: "provider_name \<noteq> ''manual''" and c: "claim_payout now provider_name r b = (claimed, b')"
  shows "bank_step_ok paid b b'"
    "claimed = Some p \<Longrightarrow> pm_provider p \<noteq> ''manual'' \<and> (\<exists>q\<in>set (bk_payments b'). row_identity q = row_identity p \<and> dispatched q)"
proof -
  consider (none) "claimed = None" "b' = b"
    | (again) p where "payment_by_ref b r = Some p" "pm_status p = ''processing''" "pm_provider p = provider_name" "claimed = Some p" "b' = b"
    | (first) p where "payment_by_ref b r = Some p" "pm_status p = ''approved''" "pm_provider p = provider_name" "claimed = Some p"
        "b' = update_payment (pm_id p) (\<lambda>p. p\<lparr>pm_status := ''processing'', pm_updated_at := now\<rparr>) b"
    using c by (auto simp: claim_payout_def PENDING_STATUSES_def split: option.splits if_splits)
  then have "bank_step_ok paid b b' \<and> (\<forall>p. claimed = Some p \<longrightarrow> pm_provider p \<noteq> ''manual''
      \<and> (\<exists>q\<in>set (bk_payments b'). row_identity q = row_identity p \<and> dispatched q))"
  proof cases
    case none
    then show ?thesis using bank_step_ok_refl [OF ok] by simp
  next
    case (again p)
    then show ?thesis
      using bank_step_ok_refl [OF ok] payment_by_ref_in [OF again(1)] dir [OF again(1)] prov by (auto simp: dispatched_def)
  next
    case (first p)
    let ?f = "\<lambda>p. p\<lparr>pm_status := ''processing'', pm_updated_at := now\<rparr>"
    note pi = payment_by_ref_in [OF first(1)] and d = dir [OF first(1)]
    have "bank_step_ok paid b (update_payment (pm_id p) ?f b)"
      by (rule live_changed_ok [OF ok, of p]) (use pi d first(2,3) prov in \<open>simp_all add: row_identity_def live_payout_def\<close>)
    moreover have "?f p \<in> set (bk_payments b')" using pi first(5) by (force simp: update_payment_def)
    moreover have "row_identity (?f p) = row_identity p" "dispatched (?f p)" using d by (simp_all add: row_identity_def dispatched_def)
    ultimately show ?thesis using first(3,4,5) prov by blast
  qed
  then show "bank_step_ok paid b b'"
    "claimed = Some p \<Longrightarrow> pm_provider p \<noteq> ''manual'' \<and> (\<exists>q\<in>set (bk_payments b'). row_identity q = row_identity p \<and> dispatched q)" by blast+
qed

text \<open>A payout that is over and whose ending is repeated: the key is taken, so no money moves, and the row says what it said.\<close>

lemma ending_repeated_ok:
  assumes ok: "bank_ok paid b" and q: "q \<in> set (bk_payments b)" "pm_id q = i" and id: "row_identity (f q) = row_identity q"
    and over: "payout_over q" and st: "pm_status (f q) = pm_status q"
    and mv: "moved (bank_led b) src dst a e l" "e \<in> tkeys (bank_led b)"
  shows "bank_step_ok paid b (update_payment i f (b\<lparr>bk_db := (bk_db b)\<lparr>led := l\<rparr>\<rparr>))"
proof -
  let ?b = "b\<lparr>bk_db := (bk_db b)\<lparr>led := l\<rparr>\<rparr>"
  note r = row_identityD [OF id]
  have ok1: "bank_ok paid ?b" by (rule bank_ok_replay [OF ok mv])
  have k: "tkeys l = tkeys (bank_led b)" using mv by (simp add: moved_def)
  have s1: "bank_step_ok paid b ?b" using ok1 k by (simp add: bank_step_ok_def bank_kept_def)
  have te: "ending_keys (f q) = ending_keys q" "taken_ending (f q) = taken_ending q"
    using r st by (simp_all add: ending_keys_def taken_ending_def)
  have "payment_ok paid (tkeys (bank_led ?b)) q" by (rule payments_okD(3) [OF bank_okD(2) [OF ok1]]) (use q(1) in simp)
  then have row: "payment_ok paid (tkeys (bank_led ?b)) (f q)"
    unfolding payment_ok_def deposit_row_ok_def payout_row_ok_def te r st by simp
  have "bank_step_ok paid ?b (update_payment i f ?b)"
    by (rule step_row_changed [where f = f, OF ok1 _ q(2) id row]) (use q(1) r(3) st in \<open>simp_all add: live_payout_def\<close>)
  then show ?thesis by (rule bank_step_ok_trans [OF s1])
qed

lemma verdict_ok:
  assumes ok: "bank_ok paid b" and q: "q \<in> set (bk_payments b)" "row_identity q = row_identity p" "dispatched q" "pm_provider p \<noteq> ''manual''"
    and mv: "move_money now (locked_owner (pm_user p)) dst (transfer_args kind (pm_amount p) e pay None by_whom) b = Inr (t, b1)"
    and f: "\<And>x. row_identity (f x) = row_identity x" "\<And>x. pm_status (f x) = st"
    and st: "st = ''succeeded'' \<and> paid (pm_our_ref p) \<and> e = payout_settle_key (pm_our_ref p) \<and> dst = provider_owner
      \<or> st = ''failed'' \<and> \<not> paid (pm_our_ref p) \<and> e = payout_reverse_key (pm_our_ref p) \<and> dst = cash_owner (pm_user p)"
    and cm: "bank_commit old (update_payment (pm_id p) f b1) = Inr b'"
  shows "bank_step_ok paid b b'"
proof -
  note r = row_identityD [OF q(2)]
  have w: "whole_cents (pm_amount p)" using end_amount_whole [OF ok q(1)] r by simp
  obtain l where l: "b1 = b\<lparr>bk_db := (bk_db b)\<lparr>led := l\<rparr>\<rparr>" "moved (bank_led b) (locked_owner (pm_user p)) dst (pm_amount p) e l"
    using move_money_Inr [OF mv bank_okD(1) [OF ok] _ w] st by auto
  have b': "b' = update_payment (pm_id p) f (b\<lparr>bk_db := (bk_db b)\<lparr>led := l\<rparr>\<rparr>)" using bank_commit_Inr [OF cm] l(1) by simp
  have prov: "pm_provider q \<noteq> ''manual''" using r q(4) by simp
  have te: "taken_ending (f q) = {e}"
    using st row_identityD [OF f(1) [of q]] prov r by (auto simp: taken_ending_def f(2))
  have pk: "payout_row_ok paid (tkeys (bank_led b)) q"
    using payments_okD(3) [OF bank_okD(2) [OF ok] q(1)] q(3) by (simp add: payment_ok_def deposit_row_ok_def dispatched_def)
  have e: "e \<in> ending_keys q" using st r by (auto simp: ending_keys_def)
  show ?thesis
  proof (cases "pm_status q = ''processing''")
    case True
    then have live: "live_payout q" using q(3) by (simp add: live_payout_def dispatched_def)
    show ?thesis unfolding b'
      by (rule step_payout_ended [where f = f and dst = dst, OF ok q(1) r(1) f(1) live e te])
        (use st f(2) l(2) r in auto)
  next
    case False
    then have over: "payout_over q" using q(3) by (auto simp: payout_over_def dispatched_def)
    have same: "pm_status q = st" using pk st q(3) False prov r by (auto simp: payout_row_ok_def dispatched_def)
    then have "taken_ending q = {e}" using te f(2) row_identityD [OF f(1) [of q]] by (auto simp: taken_ending_def split: if_splits)
    then have "e \<in> tkeys (bank_led b)" using pk by (auto simp: payout_row_ok_def)
    then show ?thesis unfolding b'
      by (intro ending_repeated_ok [where f = f, OF ok q(1) r(1) f(1) over _ l(2)]) (use same f(2) in simp_all)
  qed
qed

text \<open>What the provider answers agrees with what it did: paid when it says so, not paid when it fails or refuses.\<close>

definition answer_true :: "(string \<Rightarrow> bool) \<Rightarrow> payment \<Rightarrow> payout_answer \<Rightarrow> bool" where
  "answer_true paid p answer \<longleftrightarrow>
     (case answer of
        PayoutRaised _ \<Rightarrow> \<not> paid (pm_our_ref p)
      | PayoutStatus s _ \<Rightarrow> if s = ''succeeded'' then paid (pm_our_ref p) else if s = ''processing'' then True else \<not> paid (pm_our_ref p))"

lemma record_ref_ok:
  assumes ok: "bank_ok paid b" and q: "q \<in> set (bk_payments b)" "row_identity q = row_identity p"
  shows "bank_step_ok paid b (record_payout_ref now p ref b)"
proof -
  let ?f = "\<lambda>p. p\<lparr>pm_provider_ref := Some ref, pm_updated_at := now\<rparr>"
  have te: "ending_keys (?f q) = ending_keys q" "taken_ending (?f q) = taken_ending q" by (simp_all add: ending_keys_def taken_ending_def)
  have "payment_ok paid (tkeys (bank_led b)) q" by (rule payments_okD(3) [OF bank_okD(2) [OF ok] q(1)])
  then have "payment_ok paid (tkeys (bank_led b)) (?f q)"
    unfolding payment_ok_def deposit_row_ok_def payout_row_ok_def te by simp
  then show ?thesis unfolding record_payout_ref_def
    by (rule step_row_changed [OF ok q(1) row_identityD(1) [OF q(2)], of ?f, rotated]) (simp_all add: row_identity_def live_payout_def)
qed

lemma finish_payout_ok:
  assumes ok: "bank_ok paid b" and q: "q \<in> set (bk_payments b)" "row_identity q = row_identity p" "dispatched q" "pm_provider p \<noteq> ''manual''"
    and a: "answer_true paid p answer" and fin: "finish_payout now p answer b = Inr (outcome, b')"
  shows "bank_step_ok paid b b'"
proof -
  have rev: "bank_step_ok paid b b''" if rv: "reverse_payout now p err b = Inr b''" and np: "\<not> paid (pm_our_ref p)" for err b''
  proof -
    let ?f = "\<lambda>p. p\<lparr>pm_status := ''failed'', pm_failure_reason := Some err, pm_updated_at := now\<rparr>"
    obtain t b1 where m: "move_money now (locked_owner (pm_user p)) (cash_owner (pm_user p))
        (transfer_args ''refund'' (pm_amount p) (payout_reverse_key (pm_our_ref p)) (Some (pm_id p)) None ''system'') b = Inr (t, b1)"
      "bank_commit b (update_payment (pm_id p) ?f b1) = Inr b''" using rv by (auto simp: reverse_payout_def bind_result_Inr_iff)
    show ?thesis
      by (rule verdict_ok [where f = ?f and st = "''failed''", OF ok q m(1) _ _ _ m(2)]) (use np in \<open>simp_all add: row_identity_def\<close>)
  qed
  have set: "bank_step_ok paid b b''" if rv: "settle_success now p ref b = Inr b''" and np: "paid (pm_our_ref p)" for ref b''
  proof -
    obtain t b1 where m: "move_money now (locked_owner (pm_user p)) provider_owner
        (transfer_args ''payout'' (pm_amount p) (payout_settle_key (pm_our_ref p)) (Some (pm_id p)) None ''system'') b = Inr (t, b1)"
      "bank_commit b (update_payment (pm_id p) (\<lambda>p. p\<lparr>pm_status := ''succeeded'', pm_provider_ref := Some ref,
         pm_ledger_txn := Some (txn_id t), pm_updated_at := now\<rparr>) b1) = Inr b''" using rv by (auto simp: settle_success_def bind_result_Inr_iff)
    show ?thesis
      by (rule verdict_ok [where st = "''succeeded''", OF ok q m(1) _ _ _ m(2)]) (use np in \<open>simp_all add: row_identity_def\<close>)
  qed
  show ?thesis
  proof (cases answer)
    case (PayoutRaised err)
    then show ?thesis using fin a rev by (auto simp: finish_payout_def answer_true_def bind_result_Inr_iff)
  next
    case (PayoutStatus s ref)
    then show ?thesis using fin a rev set record_ref_ok [OF ok q(1,2), of now ref]
      by (auto simp: finish_payout_def answer_true_def bind_result_Inr_iff split: if_splits)
  qed
qed

end
