(* ===== verification/Bank_Evidence.thy ===== *)
theory Bank_Evidence
  imports Bank_Dispatch
begin

text \<open>
  Corrections of balances and the Telebirr evidence: \<open>bank_step_ok\<close> of \<open>adjust_balance\<close>, of ingestion, of an
  admin's move of an evidence row, and of a redemption.
\<close>

subsection \<open>Corrections\<close>

lemma adjust_balance_ok:
  assumes ok: "bank_ok paid b" and w: "whole_cents a" and aj: "adjust_balance now adm u a reason req b = Inr (i, b')"
  shows "bank_step_ok paid b b'"
proof (cases "find_txn (bank_led b) (adjust_key adm u req)")
  case (Some t)
  then show ?thesis using aj bank_step_ok_refl [OF ok] by (simp add: adjust_balance_def Let_def)
next
  case None
  obtain c d1 where c: "db_account (Some u) ''user_cash'' (bk_db b) = (c, d1)" by force
  obtain h d2 where h: "db_account None ''house_float'' d1 = (h, d2)" by force
  obtain t d3 where p: "db_post now (transfer_args ''adjustment'' a (adjust_key adm u req) None (Some reason) (''admin:'' @ str_int adm) (acc_id h) (acc_id c)) d2 = Inr (t, d3)"
      "bank_commit b (b\<lparr>bk_db := d3\<rparr>) = Inr b'"
    using aj None c h by (auto simp: adjust_balance_def Let_def bind_result_Inr_iff on_db_Inr)
  obtain l where l: "d3 = (bk_db b)\<lparr>led := l\<rparr>" "moved (bank_led b) (None, ''house_float'') (cash_owner u) a (adjust_key adm u req) l"
    using dst_first_Inr [where dst = "cash_owner u" and src = "(None, ''house_float'')", OF _ _ p(1) bank_okD(1) [OF ok] _ w] c h by auto
  have "books_untouched (bank_led b) l"
    by (rule moved_untouched [OF l(2)]) (use reward_keys(4) [of adm u req] in \<open>auto simp: reward_key_def book_owner_def\<close>)
  then show ?thesis using step_platform [OF ok, of d3] l(1) bank_commit_Inr [OF p(2)] by simp
qed

subsection \<open>Evidence rows\<close>

lemma evidence_okD:
  assumes "evidence_ok ps vs"
  shows "map ev_id vs = map (\<lambda>n. int n + 1) [0..<length vs]" "distinct (map ev_reference vs)" "v \<in> set vs \<Longrightarrow> evidence_row_ok ps v"
    "p \<in> set ps \<Longrightarrow> length (filter (\<lambda>v. ev_payment v = Some (pm_id p)) vs) = (if pm_provider p = ''telebirr_sms'' then 1 else 0)"
  using assms by (simp_all add: evidence_ok_def)

lemma evidence_added:
  assumes ev: "evidence_ok ps vs" and v: "ev_id v = int (length vs) + 1" "ev_reference v \<notin> ev_reference ` set vs" "whole_cents (ev_amount v)"
    "ev_status v \<noteq> ''redeemed''" "ev_payment v = None" "ev_redeemed_by v = None"
  shows "evidence_ok ps (vs @ [v])"
  using evidence_okD [OF ev] v by (simp add: evidence_ok_def evidence_row_ok_def)

text \<open>A row that is not redeemed changes its status, not to \<open>redeemed\<close>.\<close>

lemma evidence_moved:
  assumes ev: "evidence_ok ps vs" and v: "v \<in> set vs" "ev_id v = i" "ev_status v \<noteq> ''redeemed''" and st: "st \<noteq> ''redeemed''"
  shows "evidence_ok ps (map (\<lambda>v. if ev_id v = i then v\<lparr>ev_status := st, ev_reject_reason := why\<rparr> else v) vs)"
proof -
  let ?f = "\<lambda>v. if ev_id v = i then v\<lparr>ev_status := st, ev_reject_reason := why\<rparr> else v"
  note d = evidence_okD [OF ev]
  have only: "x = v" if "x \<in> set vs" "ev_id x = i" for x
    using d(1) that v(1,2) by (auto dest: numbered_unique)
  have cols: "map ev_id (map ?f vs) = map ev_id vs" "map ev_reference (map ?f vs) = map ev_reference vs"
    "\<And>k. filter (\<lambda>v. ev_payment v = Some k) (map ?f vs) = map ?f (filter (\<lambda>v. ev_payment v = Some k) vs)"
    by (simp_all add: comp_def filter_map cong: if_cong)
  have rows: "evidence_row_ok ps (?f x)" if "x \<in> set vs" for x
    using d(3) [OF that] only [OF that] v(3) st by (auto simp: evidence_row_ok_def)
  have "\<forall>x\<in>set (map ?f vs). evidence_row_ok ps x" unfolding set_map using rows by blast
  then show ?thesis unfolding evidence_ok_def cols using d(1,2,4) by (simp del: set_map)
qed

lemma evidence_step_ok:
  assumes ok: "bank_ok paid b" and v: "v \<in> set (bk_evidence b)" "ev_id v = i" "ev_status v \<noteq> ''redeemed''" and st: "st \<noteq> ''redeemed''"
  shows "bank_step_ok paid b (update_evidence i (\<lambda>v. v\<lparr>ev_status := st, ev_reject_reason := why\<rparr>) b)"
proof -
  note d = bank_okD [OF ok]
  have only: "x \<in> set (bk_evidence b) \<Longrightarrow> ev_id x = i \<Longrightarrow> x = v" for x
    using evidence_okD(1) [OF d(5)] v(1,2) by (auto dest: numbered_unique)
  have "bank_ok paid (update_evidence i (\<lambda>v. v\<lparr>ev_status := st, ev_reject_reason := why\<rparr>) b)"
    using d evidence_moved [OF d(5) v st] by (simp add: bank_ok_def update_evidence_def)
  moreover have "evidence_kept (bk_evidence b) (map (\<lambda>v. if ev_id v = i then v\<lparr>ev_status := st, ev_reject_reason := why\<rparr> else v) (bk_evidence b))"
    unfolding evidence_kept_def using only v(3) by force
  ultimately show ?thesis by (simp add: bank_step_ok_def bank_kept_def update_evidence_def)
qed

lemma evidence_by_id_in: "evidence_by_id b i = Some v \<Longrightarrow> v \<in> set (bk_evidence b) \<and> ev_id v = i"
  by (auto simp: evidence_by_id_def find_Some_iff)

lemma evidence_by_ref_in: "evidence_by_ref b r = Some v \<Longrightarrow> v \<in> set (bk_evidence b) \<and> ev_reference v = r"
  by (auto simp: evidence_by_ref_def find_Some_iff)

lemma transitions_not_redeemed: "t \<in> EVIDENCE_TRANSITIONS s \<Longrightarrow> s \<noteq> ''redeemed'' \<and> t \<noteq> ''redeemed''"
  by (auto simp: EVIDENCE_TRANSITIONS_def split: if_splits)

lemma resolve_evidence_ok:
  assumes ok: "bank_ok paid b" and rs: "resolve_payment_evidence_admin i st reason b = Inr (done, b')"
  shows "bank_step_ok paid b b'"
proof (cases "evidence_by_id b i")
  case None
  then show ?thesis using rs bank_step_ok_refl [OF ok] by (simp add: resolve_payment_evidence_admin_def)
next
  case (Some v)
  then have t: "st \<in> EVIDENCE_TRANSITIONS (ev_status v)"
    and b': "b' = update_evidence i (\<lambda>v. v\<lparr>ev_status := st, ev_reject_reason := (if st \<noteq> ''available'' then Some reason else None)\<rparr>) b"
    using rs by (auto simp: resolve_payment_evidence_admin_def split: if_splits)
  note e = evidence_by_id_in [OF Some]
  show ?thesis unfolding b' by (rule evidence_step_ok [OF ok]) (use e transitions_not_redeemed [OF t] in auto)
qed

lemma insert_evidence_ok:
  assumes ok: "bank_ok paid b" and row: "ev_id row = int (length (bk_evidence b)) + 1" "ev_status row \<noteq> ''redeemed''" "ev_payment row = None" "ev_redeemed_by row = None"
    and ins: "insert_evidence row b = Inr (i, b')"
  shows "bank_step_ok paid b b'"
proof (cases "b' = b")
  case False
  then obtain a fee vat where a: "numeric18_2 (ev_amount row) = Inr a" "evidence_by_ref b (ev_reference row) = None"
      "b' = b\<lparr>bk_evidence := bk_evidence b @ [row\<lparr>ev_parsed := (ev_parsed row)\<lparr>pv_amount := a, pv_fee := fee, pv_vat := vat\<rparr>\<rparr>]\<rparr>"
    using ins by (auto simp: insert_evidence_def bind_result_Inr_iff split: if_splits)
  note d = bank_okD [OF ok]
  have "ev_reference row \<notin> ev_reference ` set (bk_evidence b)"
    using a(2) by (auto simp: evidence_by_ref_def find_None_iff)
  then have "bank_ok paid b'"
    using d evidence_added [OF d(5), of "row\<lparr>ev_parsed := (ev_parsed row)\<lparr>pv_amount := a, pv_fee := fee, pv_vat := vat\<rparr>\<rparr>"] row numeric18_2_whole(1) [OF a(1)]
    by (simp add: bank_ok_def a(3))
  then show ?thesis using a(3) by (simp add: bank_step_ok_def bank_kept_def evidence_kept_def)
qed (use bank_step_ok_refl [OF ok] in simp)

lemma ingest_ok:
  assumes ok: "bank_ok paid b" and ig: "ingest_sms_evidence raw source sref b = Inr (outcome, b')"
  shows "bank_step_ok paid b b'"
proof (cases "parse_telebirr_sms raw")
  case (Inl x)
  then show ?thesis using ig bank_step_ok_refl [OF ok] by (simp add: ingest_sms_evidence_def)
next
  case (Inr parsed)
  define rec where "rec = find_matching_recipient b (pv_recipient_name parsed) (pv_recipient_phone parsed) (pv_transaction_at parsed)"
  define row where "row = \<lparr>ev_id = int (length (bk_evidence b)) + 1, ev_source = source, ev_source_ref = sref, ev_raw_sms = raw,
    ev_hash = sha256_hex raw, ev_parsed = parsed, ev_status = (if rec then ''available'' else ''rejected''),
    ev_reject_reason = (if rec then None else Some ''recipient_not_recognized''), ev_redeemed_by = None, ev_payment = None, ev_parser_version = PARSER_VERSION\<rparr>"
  obtain i b1 where ins: "insert_evidence row b = Inr (i, b1)"
      and b': "b' = b1 \<or> (\<exists>v. evidence_by_ref b1 (pv_external_reference parsed) = Some v \<and> ev_status v \<notin> {''redeemed'', ''disputed''}
        \<and> b' = update_evidence (ev_id v) (\<lambda>v. v\<lparr>ev_status := ''disputed'', ev_reject_reason := Some ''conflicting_resubmission''\<rparr>) b1)"
    using ig Inr
    by (auto simp: ingest_sms_evidence_def Let_def bind_result_Inr_iff row_def rec_def split: option.splits if_splits)
  have s1: "bank_step_ok paid b b1" by (rule insert_evidence_ok [OF ok _ _ _ _ ins]) (simp_all add: row_def)
  have ok1: "bank_ok paid b1" using s1 by (simp add: bank_step_ok_def)
  show ?thesis using b'
  proof
    assume "\<exists>v. evidence_by_ref b1 (pv_external_reference parsed) = Some v \<and> ev_status v \<notin> {''redeemed'', ''disputed''}
        \<and> b' = update_evidence (ev_id v) (\<lambda>v. v\<lparr>ev_status := ''disputed'', ev_reject_reason := Some ''conflicting_resubmission''\<rparr>) b1"
    then obtain v where v: "evidence_by_ref b1 (pv_external_reference parsed) = Some v" "ev_status v \<noteq> ''redeemed''"
        "b' = update_evidence (ev_id v) (\<lambda>v. v\<lparr>ev_status := ''disputed'', ev_reject_reason := Some ''conflicting_resubmission''\<rparr>) b1" by blast
    have "bank_step_ok paid b1 b'" unfolding v(3)
      by (rule evidence_step_ok [OF ok1 _ refl v(2)]) (use evidence_by_ref_in [OF v(1)] in simp_all)
    then show ?thesis by (rule bank_step_ok_trans [OF s1])
  qed (use s1 in simp)
qed

subsection \<open>Redemption\<close>

lemma redeemed_step_ok:
  assumes ok: "bank_ok paid b" and p: "pm_id p = new_payment_id b" "pm_our_ref p \<notin> pm_our_ref ` set (bk_payments b)"
    and dep: "0 < pm_amount p" "pm_direction p = ''in''" "take 4 (pm_our_ref p) = ''DEP-''" "pm_provider p = ''telebirr_sms''"
    and v: "v \<in> set (bk_evidence b)" "ev_status v \<noteq> ''redeemed''" "ev_amount v = pm_amount p"
    and mv: "moved (bank_led b) provider_owner (cash_owner (pm_user p)) (pm_amount p) (pm_our_ref p) l"
  shows "bank_step_ok paid b (update_evidence (ev_id v) (\<lambda>v. v\<lparr>ev_status := ''redeemed'', ev_redeemed_by := Some (pm_user p), ev_payment := Some (pm_id p)\<rparr>)
    (b\<lparr>bk_db := (bk_db b)\<lparr>led := l\<rparr>, bk_payments := bk_payments b @ [p]\<rparr>))"
proof -
  have only: "x \<in> set (bk_evidence b) \<Longrightarrow> ev_id x = ev_id v \<Longrightarrow> x = v" for x
    using evidence_okD(1) [OF bank_okD(5) [OF ok]] v(1) by (auto dest: numbered_unique)
  have "evidence_kept (bk_evidence b) (map (\<lambda>x. if ev_id x = ev_id v then x\<lparr>ev_status := ''redeemed'', ev_redeemed_by := Some (pm_user p),
      ev_payment := Some (pm_id p)\<rparr> else x) (bk_evidence b))"
    unfolding evidence_kept_def using only v(2) by force
  then show ?thesis
    using evidence_redeemed [OF ok p dep v mv] moved_keys [OF mv] by (auto simp: bank_step_ok_def bank_kept_def update_evidence_def)
qed

lemma redeem_credit_ok:
  assumes ok: "bank_ok paid b1" and v: "v \<in> set (bk_evidence b1)" "ev_status v \<noteq> ''redeemed''"
    and rd: "redeem_credit now year u v old b1 = Inr (outcome, b')"
  shows "bank_step_ok paid b1 b'"
proof -
  define b2 where "b2 = b1\<lparr>bk_ref_seq := bk_ref_seq b1 + 1\<rparr>"
  define row where "row = new_payment now u ''in'' ''telebirr_sms'' (payment_ref ''DEP'' year (bk_ref_seq b1 + 1)) (ev_amount v) ''succeeded'' b2"
  have row: "pm_id row = new_payment_id b2" "pm_our_ref row = payment_ref ''DEP'' year (bk_ref_seq b1 + 1)" "pm_direction row = ''in''"
    "pm_amount row = ev_amount v" "pm_user row = u" "pm_provider row = ''telebirr_sms''"
    by (simp_all add: row_def new_payment_def)
  let ?g = "\<lambda>v. v\<lparr>ev_status := ''redeemed'', ev_redeemed_by := Some u, ev_payment := Some (pm_id row)\<rparr>"
  obtain b3 t b4 b5 where s: "insert_payment row b2 = Inr b3" "credit_deposit now row b3 = Inr (t, b4)"
      "deposit_rewards now u (ev_amount v) (update_evidence (ev_id v) ?g
        (update_payment (pm_id row) (\<lambda>p. p\<lparr>pm_ledger_txn := Some (txn_id t), pm_updated_at := now\<rparr>) b4)) = Inr b5" "bank_commit old b5 = Inr b'"
    using rd by (auto simp: redeem_credit_def next_ref_def Let_def bind_result_Inr_iff b2_def row_def)
  have ok2: "bank_ok paid b2" and s2: "bank_step_ok paid b1 b2" using ok bank_step_ok_refl [OF ok] by (simp_all add: b2_def)
  have v2: "v \<in> set (bk_evidence b2)" using v(1) by (simp add: b2_def)
  have w: "whole_cents (ev_amount v)" using evidence_okD(3) [OF bank_okD(5) [OF ok] v(1)] by (simp add: evidence_row_ok_def)
  obtain am where am: "b3 = b2\<lparr>bk_payments := bk_payments b2 @ [row\<lparr>pm_amount := am\<rparr>]\<rparr>" "0 < am"
      "pm_our_ref row \<notin> pm_our_ref ` set (bk_payments b2)" "whole_cents (pm_amount row) \<longrightarrow> am = pm_amount row"
    by (rule insert_payment_Inr [OF s(1)])
  have b3: "b3 = b2\<lparr>bk_payments := bk_payments b2 @ [row]\<rparr>" using am(1,4) w row(4) by simp
  obtain l where l: "b4 = b3\<lparr>bk_db := (bk_db b3)\<lparr>led := l\<rparr>\<rparr>"
      "moved (bank_led b3) provider_owner (cash_owner (pm_user row)) (pm_amount row) (pm_our_ref row) l"
    using move_money_Inr [OF s(2) [unfolded credit_deposit_def credit_args_def]] bank_okD(1) [OF ok2] w row(4) b3 by auto
  define p where "p = row\<lparr>pm_ledger_txn := Some (txn_id t), pm_updated_at := now\<rparr>"
  have new: "pm_id row \<notin> pm_id ` set (bk_payments b2)"
    using numbered_mem [OF payments_okD(5) [OF bank_okD(2) [OF ok2]]] row(1) by (simp add: new_payment_id_def)
  have old: "pm_id x \<noteq> pm_id row" if "x \<in> set (bk_payments b2)" for x using new that by (metis imageI)
  have upd: "set_payment (pm_id row) (\<lambda>p. p\<lparr>pm_ledger_txn := Some (txn_id t), pm_updated_at := now\<rparr>) (bk_payments b2 @ [row]) = bk_payments b2 @ [p]"
    using old by (simp add: p_def map_idI)
  have b5: "update_evidence (ev_id v) ?g (update_payment (pm_id row) (\<lambda>p. p\<lparr>pm_ledger_txn := Some (txn_id t), pm_updated_at := now\<rparr>) b4)
      = update_evidence (ev_id v) ?g (b2\<lparr>bk_db := (bk_db b2)\<lparr>led := l\<rparr>, bk_payments := bk_payments b2 @ [p]\<rparr>)"
    using upd by (simp add: l(1) b3 update_payment_def)
  have "bank_step_ok paid b2 (update_evidence (ev_id v) ?g (b2\<lparr>bk_db := (bk_db b2)\<lparr>led := l\<rparr>, bk_payments := bk_payments b2 @ [p]\<rparr>))"
  proof -
    have same: "pm_id p = pm_id row" "pm_user p = u" "pm_our_ref p = pm_our_ref row" "pm_amount p = ev_amount v"
      "pm_direction p = ''in''" "pm_provider p = ''telebirr_sms''" by (simp_all add: p_def row)
    have pos: "0 < pm_amount p" using am(2,4) w row(4) same(4) by simp
    have mv: "moved (bank_led b2) provider_owner (cash_owner (pm_user p)) (pm_amount p) (pm_our_ref p) l"
      using l(2) row(4,5) same(2,3,4) by (simp add: b3)
    have ref: "take 4 (pm_our_ref p) = ''DEP-''" using same(3) row(2) by (simp add: payment_ref_prefix)
    have id: "pm_id p = new_payment_id b2" "pm_our_ref p \<notin> pm_our_ref ` set (bk_payments b2)" using same(1,3) row(1) am(3) by simp_all
    show ?thesis
      using redeemed_step_ok [OF ok2 id pos same(5) ref same(6) v2 v(2) same(4) [symmetric] mv] unfolding same(1,2) .
  qed
  note s3 = bank_step_ok_trans [OF s2 this]
  have "bank_step_ok paid (update_evidence (ev_id v) ?g (b2\<lparr>bk_db := (bk_db b2)\<lparr>led := l\<rparr>, bk_payments := bk_payments b2 @ [p]\<rparr>)) b5"
    by (rule rewards_ok [OF _ s(3) [unfolded b5]]) (use s3 in \<open>simp add: bank_step_ok_def\<close>)
  then show ?thesis using bank_step_ok_trans [OF s3] bank_commit_Inr [OF s(4)] by simp
qed

lemma redeem_ok:
  assumes ok: "bank_ok paid b" and rd: "redeem_evidence now year allowed u r cap b = (outcome, b')"
  shows "bank_step_ok paid b b'"
proof (cases "b' = b \<or> b' = b\<lparr>bk_ref_seq := bk_ref_seq b + 1\<rparr>")
  case False
  obtain v r1 b1 where v: "evidence_by_ref b (normalize_reference (strip r)) = Some v" "ev_status v = ''available''"
      and e: "eligibility_rejection_code now u (ev_amount v) cap b = (r1, b1)"
      and d: "b' = b1 \<or> (\<exists>out. redeem_credit now year u v b b1 = Inr (out, b'))"
    using rd False
    by (auto simp: redeem_evidence_def Let_def split: option.splits if_splits sum.splits prod.splits)
  obtain r2 where e2: "check_deposit_eligibility now u (ev_amount v) cap b = (r2, b1)"
    using e by (cases "check_deposit_eligibility now u (ev_amount v) cap b")
      (auto simp: eligibility_rejection_code_def split: sum.splits exc.splits if_splits)
  note s1 = eligibility_ok [OF ok e2]
  have ok1: "bank_ok paid b1" using s1(1) by (simp add: bank_step_ok_def)
  have "bank_step_ok paid b1 b'" if "redeem_credit now year u v b b1 = Inr (out, b')" for out
    by (rule redeem_credit_ok [OF ok1 _ _ that]) (use evidence_by_ref_in [OF v(1)] v(2) s1(3) in simp_all)
  then show ?thesis using d s1(1) bank_step_ok_trans [OF s1(1)] by blast
qed (use bank_step_ok_refl [OF ok] in auto)

text \<open>The standing check finds nothing.\<close>

lemma no_mismatches: "bank_ok paid b \<Longrightarrow> find_evidence_source_mismatches b = []"
  using evidence_okD(4) [OF bank_okD(5)] by (auto simp: find_evidence_source_mismatches_def evidence_count_def filter_empty_conv split: if_splits)

end
