(* ===== verification/Bank_System.thy ===== *)
theory Bank_System
  imports Bank_Evidence Runs
begin

text \<open>
  The payments side as a whole. A state is the bank and the payouts that workers have claimed and not
  finished; \<open>bank_step\<close> is one transaction, by any player, webhook, poller, worker or admin, at any time and
  in any order, and \<open>bp_elsewhere\<close> is what the rest of the platform may do to the ledger in between. A
  claimed payout may be finished late, twice (two workers, or a retry after a crash), or never.
  \<open>paid r\<close> says whether the provider has paid the withdrawal \<open>r\<close> out.
\<close>

type_synonym bank_state = "bank \<times> payment list"

inductive bank_step :: "(string \<Rightarrow> bool) \<Rightarrow> bank_state \<Rightarrow> bank_state \<Rightarrow> bool" for paid :: "string \<Rightarrow> bool" where
  bp_elsewhere: "books_untouched (bank_led b) (led d) \<Longrightarrow> bank_step paid (b, fs) (b\<lparr>bk_db := d\<rparr>, fs)"
| bp_profiles: "bank_step paid (b, fs) (b\<lparr>bk_profiles := ps, bk_destinations := ds\<rparr>, fs)"
| bp_rules: "rules_ok rs \<Longrightarrow> bank_step paid (b, fs) (b\<lparr>bk_rules := rs\<rparr>, fs)"
| bp_deposit: "provider \<noteq> ''telebirr_sms'' \<Longrightarrow> open_deposit now year allowed provider u a lo cap b = (r, b') \<Longrightarrow> bank_step paid (b, fs) (b', fs)"
| bp_checkout: "payment_by_id b i = Some p \<Longrightarrow> pm_direction p = ''in'' \<Longrightarrow> bank_step paid (b, fs) (record_checkout now i answer b, fs)"
| bp_confirmed: "(\<And>p. payment_by_ref b ref = Some p \<Longrightarrow> pm_direction p = ''in'') \<Longrightarrow>
    apply_confirmed_status now ref event provider status amount pref b = Inr (outcome, b') \<Longrightarrow> bank_step paid (b, fs) (b', fs)"
| bp_manual: "create_manual_deposit_request now year allowed u a dest ext receipt lo cap b = (r, b') \<Longrightarrow> bank_step paid (b, fs) (b', fs)"
| bp_receipt: "bank_step paid (b, fs) (snd (attach_receipt_to_latest_pending_deposit now u file b), fs)"
| bp_approve_deposit: "approve_manual_deposit_admin now adm i limit b = Inr (outcome, b') \<Longrightarrow> bank_step paid (b, fs) (b', fs)"
| bp_reject_deposit: "bank_step paid (b, fs) (snd (reject_manual_deposit_admin now i reason b), fs)"
| bp_withdraw: "provider \<noteq> ''telebirr_sms'' \<Longrightarrow> whole_cents a \<Longrightarrow>
    request_withdrawal now year provider terms u a kind account holder b = (r, b') \<Longrightarrow> bank_step paid (b, fs) (b', fs)"
| bp_claim: "(\<And>p. payment_by_ref b ref = Some p \<Longrightarrow> pm_direction p = ''out'') \<Longrightarrow> provider \<noteq> ''manual'' \<Longrightarrow>
    claim_payout now provider ref b = (claimed, b') \<Longrightarrow> bank_step paid (b, fs) (b', fs @ (case claimed of None \<Rightarrow> [] | Some p \<Rightarrow> [p]))"
| bp_finish: "p \<in> set fs \<Longrightarrow> answer_true paid p answer \<Longrightarrow> finish_payout now p answer b = Inr (outcome, b') \<Longrightarrow> bank_step paid (b, fs) (b', fs)"
| bp_crash: "bank_step paid (b, fs) (b, filter Q fs)"
| bp_approve: "bank_step paid (b, fs) (snd (approve_withdrawal_admin now i b), fs)"
| bp_reject: "reject_withdrawal_admin now i reason b = Inr (z, b') \<Longrightarrow> bank_step paid (b, fs) (b', fs)"
| bp_approve_manual: "approve_manual_withdrawal_admin now adm i limit b = Inr (outcome, b') \<Longrightarrow> bank_step paid (b, fs) (b', fs)"
| bp_settle_manual: "settle_manual_withdrawal_admin now i ext b = Inr (z, b') \<Longrightarrow> bank_step paid (b, fs) (b', fs)"
| bp_fail_manual: "fail_manual_withdrawal_admin now i reason b = Inr (z, b') \<Longrightarrow> bank_step paid (b, fs) (b', fs)"
| bp_adjust: "whole_cents a \<Longrightarrow> adjust_balance now adm u a reason req b = Inr (t, b') \<Longrightarrow> bank_step paid (b, fs) (b', fs)"
| bp_sweep_bonus: "sweep_one_bonus now row b = (z', b') \<Longrightarrow> bank_step paid (b, fs) (b', fs)"
| bp_convert: "convert_bonus_to_cash now i b = Inr (z, b') \<Longrightarrow> bank_step paid (b, fs) (b', fs)"
| bp_expire: "expire_bonus now i b = Inr (z, b') \<Longrightarrow> bank_step paid (b, fs) (b', fs)"
| bp_revoke: "revoke_bonus_admin now i b = Inr (z, b') \<Longrightarrow> bank_step paid (b, fs) (b', fs)"
| bp_grant: "whole_cents a \<Longrightarrow> grant_manual_bonus_admin now stamp adm u a multiplier days reason b = Inr (i, b') \<Longrightarrow> bank_step paid (b, fs) (b', fs)"
| bp_ingest: "ingest_sms_evidence raw source sref b = Inr (io, b') \<Longrightarrow> bank_step paid (b, fs) (b', fs)"
| bp_redeem: "redeem_evidence now year allowed u ref cap b = (ro, b') \<Longrightarrow> bank_step paid (b, fs) (b', fs)"
| bp_resolve: "resolve_payment_evidence_admin i status reason b = Inr (z, b') \<Longrightarrow> bank_step paid (b, fs) (b', fs)"

inductive_cases bank_stepE: "bank_step paid s t"

text \<open>The payouts that are claimed are on their way in the table, or over.\<close>

definition in_flight_ok :: "bank \<Rightarrow> payment list \<Rightarrow> bool" where
  "in_flight_ok b fs \<longleftrightarrow> (\<forall>p\<in>set fs. pm_provider p \<noteq> ''manual'' \<and> (\<exists>q\<in>set (bk_payments b). row_identity q = row_identity p \<and> dispatched q))"

definition bank_good :: "(string \<Rightarrow> bool) \<Rightarrow> bank_state \<Rightarrow> bool" where
  "bank_good paid s \<longleftrightarrow> bank_ok paid (fst s) \<and> in_flight_ok (fst s) (snd s)"

lemma in_flight_kept: "in_flight_ok b fs \<Longrightarrow> bank_kept b b' \<Longrightarrow> in_flight_ok b' fs"
  unfolding in_flight_ok_def bank_kept_def payments_kept_def payment_kept_def by metis

lemma bank_step_one:
  assumes "bank_step paid (b, fs) (b', fs')" and good: "bank_good paid (b, fs)"
  shows "bank_step_ok paid b b' \<and> in_flight_ok b' fs'"
proof -
  have ok: "bank_ok paid b" and fl: "in_flight_ok b fs" using good by (simp_all add: bank_good_def)
  have keep: "bank_step_ok paid b c \<Longrightarrow> bank_step_ok paid b c \<and> in_flight_ok c fs" for c
    using in_flight_kept [OF fl] by (simp add: bank_step_ok_def)
  note same = bank_step_ok_refl [OF ok]
  show ?thesis using assms(1)
  proof cases
    case (bp_elsewhere d)
    then show ?thesis using keep [OF step_platform [OF ok]] by simp
  next
    case (bp_profiles ps ds)
    then show ?thesis using keep [of b'] same by simp
  next
    case (bp_rules rs)
    then have "bank_step_ok paid b b'" using ok by (simp add: bank_step_ok_def bank_ok_def bank_kept_def)
    then show ?thesis using keep bp_rules by simp
  next
    case (bp_deposit provider now year allowed u a lo cap r)
    then show ?thesis using keep [OF open_deposit_ok [OF ok]] by simp
  next
    case (bp_checkout i p now answer)
    then show ?thesis using keep [OF record_checkout_ok [OF ok]] by simp
  next
    case (bp_confirmed ref now event provider status amount pref outcome)
    have "bank_step_ok paid b b'" by (rule apply_confirmed_ok [OF ok _ bp_confirmed(3)]) (rule bp_confirmed(2))
    then show ?thesis using keep bp_confirmed(1) by simp
  next
    case (bp_withdraw provider a now year terms u kind account holder r)
    then show ?thesis using keep [OF request_ok [OF ok]] by simp
  next
    case (bp_claim ref provider now claimed)
    note c = claim_payout_ok [OF ok bp_claim(2,3,4)]
    show ?thesis using keep [OF c(1)] c(2) bp_claim(1) by (cases claimed) (auto simp: in_flight_ok_def)
  next
    case (bp_finish p answer now outcome)
    then obtain q where q: "q \<in> set (bk_payments b)" "row_identity q = row_identity p" "dispatched q" "pm_provider p \<noteq> ''manual''"
      using fl by (auto simp: in_flight_ok_def)
    show ?thesis using keep [OF finish_payout_ok [OF ok q bp_finish(3,4)]] bp_finish(1) by simp
  next
    case (bp_crash Q)
    then show ?thesis using same fl by (auto simp: in_flight_ok_def)
  next
    case (bp_adjust a now adm u reason req t)
    then show ?thesis using keep [OF adjust_balance_ok [OF ok]] by simp
  next
    case (bp_grant a now stamp adm u multiplier days reason i)
    then show ?thesis using keep [OF manual_grant_ok [OF ok]] by simp
  next
    case bp_manual
    show ?thesis using keep [OF manual_request_ok [OF ok bp_manual(2)]] bp_manual(1) by simp
  next
    case bp_approve_deposit
    show ?thesis using keep [OF approve_manual_deposit_ok [OF ok bp_approve_deposit(2)]] bp_approve_deposit(1) by simp
  next
    case bp_reject
    show ?thesis using keep [OF reject_withdrawal_ok [OF ok bp_reject(2)]] bp_reject(1) by simp
  next
    case bp_approve_manual
    show ?thesis using keep [OF approve_manual_withdrawal_ok [OF ok bp_approve_manual(2)]] bp_approve_manual(1) by simp
  next
    case bp_settle_manual
    show ?thesis using keep [OF settle_manual_ok [OF ok bp_settle_manual(2)]] bp_settle_manual(1) by simp
  next
    case bp_fail_manual
    show ?thesis using keep [OF fail_manual_ok [OF ok bp_fail_manual(2)]] bp_fail_manual(1) by simp
  next
    case bp_sweep_bonus
    show ?thesis using keep [OF sweep_one_ok [OF ok bp_sweep_bonus(2)]] bp_sweep_bonus(1) by simp
  next
    case bp_convert
    show ?thesis using keep [OF convert_ok [OF ok bp_convert(2)]] bp_convert(1) by simp
  next
    case bp_expire
    show ?thesis using keep [OF expire_ok [OF ok bp_expire(2)]] bp_expire(1) by simp
  next
    case bp_revoke
    show ?thesis using keep [OF revoke_admin_ok [OF ok bp_revoke(2)]] bp_revoke(1) by simp
  next
    case bp_ingest
    show ?thesis using keep [OF ingest_ok [OF ok bp_ingest(2)]] bp_ingest(1) by simp
  next
    case bp_redeem
    show ?thesis using keep [OF redeem_ok [OF ok bp_redeem(2)]] bp_redeem(1) by simp
  next
    case bp_resolve
    show ?thesis using keep [OF resolve_evidence_ok [OF ok bp_resolve(2)]] bp_resolve(1) by simp
  next
    case bp_receipt
    show ?thesis unfolding bp_receipt by (rule keep [OF attach_receipt_ok [OF ok]])
  next
    case bp_reject_deposit
    show ?thesis unfolding bp_reject_deposit by (rule keep [OF reject_manual_deposit_ok [OF ok]])
  next
    case bp_approve
    show ?thesis unfolding bp_approve by (rule keep [OF approve_withdrawal_ok [OF ok]])
  qed
qed

interpretation bank: stepping "bank_step paid" "bank_good paid" "\<lambda>s t. bank_kept (fst s) (fst t)" for paid
proof unfold_locales
  fix s t assume "bank_step paid s t" "bank_good paid s"
  then show "bank_good paid t" "bank_kept (fst s) (fst t)"
    using bank_step_one [of paid "fst s" "snd s" "fst t" "snd t"] by (simp_all add: bank_good_def bank_step_ok_def)
qed (use bank_kept_trans in auto)

subsection \<open>The beginning\<close>

text \<open>No payment, bonus or evidence yet, and no key and no money of theirs in the ledger.\<close>

definition bank_start :: "bank \<Rightarrow> bool" where
  "bank_start b \<longleftrightarrow> ledger_ok (bank_led b) \<and> bk_payments b = [] \<and> bk_bonuses b = [] \<and> bk_evidence b = [] \<and> rules_ok (bk_rules b)
     \<and> (\<forall>k\<in>tkeys (bank_led b). \<not> payment_key k \<and> \<not> bonus_key k) \<and> (\<forall>ow. book_owner ow \<longrightarrow> obal (bank_led b) ow = 0)"

lemma bank_start_good: "bank_start b \<Longrightarrow> bank_good paid (b, [])"
proof -
  assume s: "bank_start b"
  have no: "\<not> payment_key k" if "k \<in> tkeys (bank_led b)" for k using s that by (simp add: bank_start_def)
  have ref: "payment_key k" if "take 4 k = ''DEP-'' \<or> take 3 k = ''WD-''" for k using that by (auto simp: payment_key_def)
  have pk: "payment_keys_known (tkeys (bank_led b)) []"
    unfolding payment_keys_known_def using no ending_is_payment_key ref by blast
  have bk: "bonus_keys i \<inter> tkeys (bank_led b) = {}" for i using s bonus_keys_are by (auto simp: bank_start_def)
  have bal: "books_match (obal (bank_led b)) (tkeys (bank_led b)) [] []"
    using s by (auto simp: bank_start_def books_match_def book_owner_def locked_for_def provider_flow_def bonus_held_def promo_spent_def)
  show ?thesis
    using s pk bk bal by (simp add: bank_good_def in_flight_ok_def bank_ok_def bank_start_def payments_ok_def bonuses_ok_def evidence_ok_def)
qed

lemma bank_reached:
  assumes "bank_start b0" "(bank_step paid)\<^sup>*\<^sup>* (b0, []) s" shows "bank_good paid s"
  by (rule bank.run_good [OF assms(2) bank_start_good [OF assms(1)]])

end
