(* ===== verification/Bank_Demo.thy ===== *)
theory Bank_Demo
  imports Bank_System
begin

text \<open>
  One concrete desk that the witnesses run: player 7 deposits 100 through a provider, asks for 40 back, and the payout
  worker claims the withdrawal, which the provider pays.
\<close>

definition desk :: bank where
  "desk = \<lparr>bk_db = empty_db\<lparr>users := [\<lparr>us_id = 7, us_status = ''active'', us_is_simulated = False, us_display_name = ''P''\<rparr>]\<rparr>,
     bk_profiles = [\<lparr>pf_user = 7, pf_kyc_level = 0, pf_created_at = 0, pf_referred_by = None\<rparr>], bk_methods = [], bk_destinations = [],
     bk_payments = [], bk_events = [], bk_evidence = [], bk_rules = [], bk_bonuses = [], bk_ref_seq = 0\<rparr>"

definition desk_terms :: withdrawal_terms where
  "desk_terms = \<lparr>wt_min_withdraw = 10, wt_auto_approve_limit = 50, wt_kyc_threshold = 1000, wt_chargeback_window_minutes = 0,
     wt_min_account_age_hours = 0, wt_max_withdrawals_per_day = 5, wt_force_review = False\<rparr>"

definition deposit_call where "deposit_call = open_deposit 1 2026 True ''chapa'' 7 100 10 1000 desk"
definition desk1 where "desk1 = snd deposit_call"
definition desk2 where "desk2 = record_checkout 2 1 (Inr ''c'') desk1"
definition confirm_call where
  "confirm_call = apply_confirmed_status 3 ''DEP-2026-000001'' ''e'' ''chapa'' ''succeeded'' (Some 100) ''c'' desk2"
definition desk3 where "desk3 = (case confirm_call of Inr (_, b) \<Rightarrow> b | Inl _ \<Rightarrow> desk)"
definition withdraw_call where "withdraw_call = request_withdrawal 4 2026 ''chapa'' desk_terms 7 40 ''telebirr'' ''0911'' ''P'' desk3"
definition desk4 where "desk4 = snd withdraw_call"
definition claim_call where "claim_call = claim_payout 5 ''chapa'' ''WD-2026-000002'' desk4"
definition desk5 where "desk5 = snd claim_call"
definition desk_payout :: payment where "desk_payout = the (fst claim_call)"
definition finish_call where "finish_call = finish_payout 6 desk_payout (PayoutStatus ''succeeded'' ''x'') desk5"
definition desk6 where "desk6 = (case finish_call of Inr (_, b) \<Rightarrow> b | Inl _ \<Rightarrow> desk)"

lemma desk_facts:
  "map_option pm_direction (payment_by_id desk1 1) = Some ''in''"
  "map_option pm_direction (payment_by_ref desk2 ''DEP-2026-000001'') = Some ''in''"
  "map_option pm_direction (payment_by_ref desk4 ''WD-2026-000002'') = Some ''out''"
  "map pm_status (bk_payments desk4) = [''succeeded'', ''approved'']"
  by code_simp+

lemma desk_confirmed: "confirm_call = Inr (''credited'', desk3)"
proof -
  have "(case confirm_call of Inr (x, b) \<Rightarrow> x = ''credited'' | Inl _ \<Rightarrow> False)" by code_simp
  then obtain b where c: "confirm_call = Inr (''credited'', b)" by (auto split: sum.splits prod.splits)
  show ?thesis unfolding desk3_def c by simp
qed

lemma desk_claimed: "claim_call = (Some desk_payout, desk5)"
proof -
  have "fst claim_call \<noteq> None" by code_simp
  then show ?thesis by (cases claim_call) (auto simp: desk_payout_def desk5_def)
qed

lemma desk_finished: "finish_call = Inr (''succeeded'', desk6)"
proof -
  have "(case finish_call of Inr (x, b) \<Rightarrow> x = ''succeeded'' | Inl _ \<Rightarrow> False)" by code_simp
  then obtain b where c: "finish_call = Inr (''succeeded'', b)" by (auto split: sum.splits prod.splits)
  show ?thesis unfolding desk6_def c by simp
qed

lemma desk_payout: "pm_our_ref desk_payout = ''WD-2026-000002'' \<and> pm_user desk_payout = 7 \<and> pm_amount desk_payout = 40"
  by code_simp

lemma desk_ends:
  "(let b = desk6 in (map (obal (bank_led b)) [cash_owner 7, locked_owner 7, provider_owner], map pm_status (bk_payments b)))
    = ([60, 0, -60], [''succeeded'', ''succeeded''])"
  by code_simp

lemma desk_start: "bank_start desk"
proof -
  have "tkeys (bank_led desk) = {}" "obal (bank_led desk) = (\<lambda>ow. 0)"
    by (simp_all add: desk_def empty_db_def empty_ledger_def tkeys_def obal_def acct_of_def find_account_def fun_eq_iff)
  then show ?thesis
    using ledger_ok_empty by (simp add: bank_start_def desk_def empty_db_def rules_ok_def)
qed

text \<open>The desk up to the claimed payout, whatever the provider then does; and to its end when it pays.\<close>

lemma desk_run2: "(bank_step paid)\<^sup>*\<^sup>* (desk, []) (desk2, [])"
proof -
  have 1: "bank_step paid (desk, []) (desk1, [])"
    by (rule bp_deposit [of "''chapa''" 1 2026 True 7 100 10 1000 desk "fst deposit_call"]) (simp_all add: desk1_def deposit_call_def [symmetric])
  obtain p where p: "payment_by_id desk1 1 = Some p" "pm_direction p = ''in''" using desk_facts(1) by auto
  have 2: "bank_step paid (desk1, []) (desk2, [])" unfolding desk2_def by (rule bp_checkout [OF p])
  show ?thesis using 1 2 by (auto intro: rtranclp.rtrancl_into_rtrancl)
qed

lemma desk_run3: "(bank_step paid)\<^sup>*\<^sup>* (desk, []) (desk3, [])"
proof -
  have "bank_step paid (desk2, []) (desk3, [])"
    by (rule bp_confirmed [OF _ desk_confirmed [unfolded confirm_call_def]]) (use desk_facts(2) in auto)
  then show ?thesis using desk_run2 [of paid] by (auto intro: rtranclp.rtrancl_into_rtrancl)
qed

lemma desk_run5: "(bank_step paid)\<^sup>*\<^sup>* (desk, []) (desk5, [desk_payout])"
proof -
  have 4: "bank_step paid (desk3, []) (desk4, [])"
    by (rule bp_withdraw [of "''chapa''" 40 4 2026 desk_terms 7 "''telebirr''" "''0911''" "''P''" desk3 "fst withdraw_call"])
      (simp_all add: desk4_def withdraw_call_def [symmetric] whole_cents_def)
  have 5: "bank_step paid (desk4, []) (desk5, [] @ (case Some desk_payout of None \<Rightarrow> [] | Some p \<Rightarrow> [p]))"
    by (rule bp_claim [OF _ _ desk_claimed [unfolded claim_call_def]]) (use desk_facts(3) in auto)
  show ?thesis
    using desk_run3 [of paid] 4 5 by (auto intro: rtranclp.rtrancl_into_rtrancl)
qed

lemma desk_run6:
  assumes "paid ''WD-2026-000002''" shows "(bank_step paid)\<^sup>*\<^sup>* (desk5, [desk_payout]) (desk6, [desk_payout])"
  by (rule r_into_rtranclp, rule bp_finish [OF _ _ desk_finished [unfolded finish_call_def]])
    (use assms desk_payout in \<open>simp_all add: answer_true_def\<close>)

end
