(* ===== verification/Bank_Effects.thy ===== *)
theory Bank_Effects
  imports Bank_System
begin

text \<open>
  What single operations of the payments side do, on every branch: a status from a provider, a request to
  withdraw, an admin's approval.
\<close>

subsection \<open>A confirmed deposit\<close>

lemma ref_is_payment_key: "bank_ok paid b \<Longrightarrow> p \<in> set (bk_payments b) \<Longrightarrow> payment_key (pm_our_ref p)"
  using payments_okD(3) [OF bank_okD(2)] by (auto simp: payment_ok_def deposit_row_ok_def payout_row_ok_def payment_key_def)

lemma apply_confirmed_effect:
  assumes ok: "bank_ok paid b" and p: "payment_by_ref b r = Some p" "pm_direction p = ''in''"
    and ap: "apply_confirmed_status now r event provider status amount pref b = Inr (outcome, b')"
  shows "outcome = ''credited'' \<and> status = ''succeeded'' \<and> amount = Some (pm_amount p) \<and> pm_status p \<noteq> ''succeeded''
      \<and> (\<forall>v. obal (bank_led b') (cash_owner v) = obal (bank_led b) (cash_owner v)
          + (if v = pm_user p \<and> r \<notin> tkeys (bank_led b) then pm_amount p else 0))
      \<and> r \<in> tkeys (bank_led b') \<and> (\<forall>q\<in>set (bk_payments b'). pm_our_ref q = r \<longrightarrow> pm_status q = ''succeeded'')
    \<or> outcome \<in> {''duplicate'', ''pending'', ''not_succeeded'', ''amount_mismatch''} \<and> bank_led b' = bank_led b"
proof -
  note pi = payment_by_ref_in [OF p(1)]
  define b1 where "b1 = event_recorded provider event p b"
  note e = event_recorded_ok [OF ok, of provider event p, folded b1_def]
  from ap p(1) show ?thesis
  proof (cases rule: apply_confirmed_cases)
    case credited': (credited t b2 b3)
    note credited = credited' [folded b1_def]
    let ?f = "\<lambda>t p. p\<lparr>pm_status := ''succeeded'', pm_provider_ref := Some pref, pm_ledger_txn := Some (txn_id t), pm_updated_at := now\<rparr>"
    have ok1: "bank_ok paid b1" and p1: "p \<in> set (bk_payments b1)" using e(1,3) pi by simp_all
    note c = step_deposit_credited [OF ok1 p1 p(2) credited(5)]
    have ok2: "bank_ok paid b2" using c(1) by (simp add: bank_step_ok_def)
    have w: "whole_cents (pm_amount p)" by (rule end_amount_whole [OF ok1 p1])
    obtain l where l: "b2 = b1\<lparr>bk_db := (bk_db b1)\<lparr>led := l\<rparr>\<rparr>"
        "moved (bank_led b1) provider_owner (cash_owner (pm_user p)) (pm_amount p) (pm_our_ref p) l"
      using move_money_Inr [OF credited(5) [unfolded credit_deposit_def credit_args_def] bank_okD(1) [OF ok1] _ w] by auto
    have cash: "obal (bank_led b2) (cash_owner v) = obal (bank_led b) (cash_owner v)
        + (if v = pm_user p \<and> r \<notin> tkeys (bank_led b) then pm_amount p else 0)" for v
      using l pi e(4) by (auto simp: moved_def split: if_splits)
    have "bank_step_ok paid b2 (update_payment (pm_id p) (?f t) b2)"
      by (rule step_deposit_row [OF ok2 _ refl p(2)]) (use c p1 in \<open>simp_all add: row_identity_def\<close>)
    then have ok3: "bank_ok paid (update_payment (pm_id p) (?f t) b2)" by (simp add: bank_step_ok_def)
    note rw = rewards_granted [OF ok3 credited(6)]
    have b': "b' = b3" by (rule bank_commit_Inr [OF credited(7)])
    have rows: "pm_status q = ''succeeded''" if "q \<in> set (bk_payments b')" "pm_our_ref q = r" for q
    proof -
      have q: "q \<in> set (set_payment (pm_id p) (?f t) (bk_payments b1))" using that(1) rw c(3) by (simp add: b' update_payment_def)
      then show ?thesis
      proof (cases rule: updated_row_cases)
        case (old)
        then have "q = p" using payment_ref_unique [OF bank_okD(2) [OF ok1] _ p1] that(2) pi by simp
        then show ?thesis using old by simp
      qed simp
    qed
    have "payment_key r" using ref_is_payment_key [OF ok] pi by blast
    then have key: "r \<in> tkeys (bank_led b')"
      using c(2) pi rw by (simp add: b' bank_step_ok_def bank_kept_def update_payment_def)
    show ?thesis using credited(1-4) cash rw rows key by (simp add: b' update_payment_def)
  qed (use e(4) in \<open>auto simp: update_payment_def b1_def\<close>)
qed

subsection \<open>A request to withdraw\<close>

lemma withdrawal_gatesD:
  assumes "withdrawal_gates now terms u a b = Inr user"
  shows "wt_min_withdraw terms \<le> a" "\<exists>x. user_by_id (bk_db b) u = Some x \<and> \<not> us_is_simulated x" "profile_of b u = Some user"
    "a \<le> wt_kyc_threshold terms \<or> 2 \<le> pf_kyc_level user"
    "user_payments b u ''in'' (\<lambda>p. pm_status p = ''succeeded'' \<and> now - wt_chargeback_window_minutes terms * 60000000 < pm_created_at p) = []"
  using assms by (auto simp: withdrawal_gates_def split: if_splits option.splits)

text \<open>
  A request that is taken moves the amount from the player's cash to the locked account and nothing else; it
  waits for an admin exactly when a rule sends it there. One that is refused moves nothing.
\<close>

lemma request_withdrawal_effect:
  assumes ok: "bank_ok paid b" and w: "whole_cents a"
    and rq: "request_withdrawal now year provider terms u a kind acc holder b = (r, b')"
  shows "case r of
      Inl x \<Rightarrow> bank_led b' = bank_led b \<and> bk_payments b' = bk_payments b
    | Inr intent \<Rightarrow> (\<exists>p. bk_payments b' = bk_payments b @ [p] \<and> wi_payment_id intent = pm_id p \<and> wi_our_ref intent = pm_our_ref p
        \<and> wi_status intent = pm_status p \<and> pm_user p = u \<and> pm_amount p = a \<and> 0 < a \<and> pm_direction p = ''out''
        \<and> pm_our_ref p \<in> tkeys (bank_led b')
        \<and> (pm_status p = ''approved'' \<and> pm_review_reason p = [] \<or> pm_status p = ''review'' \<and> pm_review_reason p \<noteq> [])
        \<and> (wt_auto_approve_limit terms < a \<or> wt_force_review terms \<longrightarrow> pm_status p = ''review'')
        \<and> (\<exists>user. withdrawal_gates now terms u a b = Inr user)
        \<and> obal (bank_led b') = (obal (bank_led b))
             (cash_owner u := obal (bank_led b) (cash_owner u) - a, locked_owner u := obal (bank_led b) (locked_owner u) + a))"
  using rq
proof (cases rule: request_cases)
  case (opened user mid b1 t b3 checks st row b4)
  define b2 where "b2 = b1\<lparr>bk_ref_seq := bk_ref_seq b1 + 1\<rparr>"
  obtain ms where b1: "b1 = b\<lparr>bk_methods := ms\<rparr>" using opened(2) by (auto simp: upsert_method_def split: option.splits)
  obtain l where l: "b3 = b2\<lparr>bk_db := (bk_db b2)\<lparr>led := l\<rparr>\<rparr>"
      "moved (bank_led b2) (cash_owner u) (locked_owner u) a (payment_ref ''WD'' year (bk_ref_seq b1 + 1)) l"
    using move_money_Inr [OF opened(3) [unfolded lock_args_def]] bank_okD(1) [OF ok] w by (auto simp: b2_def b1)
  obtain am where i: "b4 = b3\<lparr>bk_payments := bk_payments b3 @ [row\<lparr>pm_amount := am\<rparr>]\<rparr>" "0 < am" "whole_cents (pm_amount row) \<longrightarrow> am = pm_amount row"
      "pm_our_ref row \<notin> pm_our_ref ` set (bk_payments b3)"
    using insert_payment_Inr [OF opened(7)] by metis
  have am: "am = a" using i(3) w opened(6) by (simp add: new_payment_def)
  have led: "bank_led b2 = bank_led b" "bk_payments b2 = bk_payments b" by (simp_all add: b2_def b1)
  have "payment_keys_known (tkeys (bank_led b)) (bk_payments b)" using bank_okD(2) [OF ok] by (simp add: payments_ok_def)
  then have fresh: "payment_ref ''WD'' year (bk_ref_seq b1 + 1) \<notin> tkeys (bank_led b)"
    using i(4) l(1) led payment_ref_prefix(2) unfolding payment_keys_known_def opened(6) by (auto simp: new_payment_def)
  have over: "wt_auto_approve_limit terms < a \<Longrightarrow> checks \<noteq> []" using opened(4) by (simp add: failed_checks_def Let_def)
  show ?thesis
    using opened(1,5,6,9) over l i(1,2) am led fresh
    by (auto simp: opened(8) new_payment_def moved_def STATUS_APPROVED_def STATUS_REVIEW_def split: if_splits)
qed simp_all

subsection \<open>Two admins\<close>

lemma two_person_gate_cases:
  assumes "apply_two_person_gate (Some p) adm i limit b = r"
  shows "case r of
      Inl x \<Rightarrow> x = SameAdminCannotProvideSecondApproval \<and> limit \<le> pm_amount p \<and> pm_first_approver p = Some adm
    | Inr (None, b') \<Rightarrow> b' = b \<and> pm_status p = ''review'' \<and> (pm_amount p < limit \<or> (\<exists>other. pm_first_approver p = Some other \<and> other \<noteq> adm))
    | Inr (Some outcome, b') \<Rightarrow> bank_led b' = bank_led b
        \<and> (outcome = ''no_op'' \<and> pm_status p \<noteq> ''review'' \<and> b' = b
           \<or> outcome = ''awaiting_second_approval'' \<and> pm_first_approver p = None \<and> limit \<le> pm_amount p
               \<and> b' = update_payment i (\<lambda>p. p\<lparr>pm_first_approver := Some adm\<rparr>) b)"
  unfolding assms [symmetric] by (auto simp: apply_two_person_gate_def update_payment_def split: option.splits)

end
