(* ===== verification/Bank_Safety.thy ===== *)
theory Bank_Safety
  imports Bank_Demo Bank_Effects
begin

text \<open>
  What the invariant of the payments side means for money, players and admins: properties of every
  interleaving of requests, webhooks, workers, admins and the rest of the platform.
\<close>

subsection \<open>The books\<close>

text \<open>C4. Every account of the payments side is at every moment exactly what its rows owe, in whatever order players,
  webhooks, pollers, payout workers, admins and the games ran: a player's locked account holds the withdrawals
  that are not over, the provider's account holds what came in less what was paid out, a player's bonus account holds the
  active bonuses, and the promotions account has paid the bonuses that are active or converted.\<close>

theorem payments_books_match:
  assumes "bank_start b0" "(bank_step paid)\<^sup>*\<^sup>* (b0, []) (b, fs)"
  shows "ledger_ok (bank_led b)
    \<and> obal (bank_led b) (locked_owner u) = sum_list (map pm_amount (filter (\<lambda>p. pm_user p = u \<and> pm_direction p = ''out''
        \<and> pm_status p \<in> {''review'', ''approved'', ''processing''}) (bk_payments b)))
    \<and> obal (bank_led b) provider_owner
        = sum_list (map pm_amount (filter (\<lambda>p. pm_direction p = ''out'' \<and> pm_status p = ''succeeded'') (bk_payments b)))
        - sum_list (map pm_amount (filter (\<lambda>p. pm_direction p = ''in'' \<and> pm_our_ref p \<in> tkeys (bank_led b)) (bk_payments b)))
    \<and> obal (bank_led b) (bonus_owner u) = sum_list (map bn_amount (filter (\<lambda>x. bn_user x = u \<and> bn_status x = ''active'') (bk_bonuses b)))
    \<and> obal (bank_led b) promo_owner = - sum_list (map bn_amount (filter (\<lambda>x. bn_status x \<in> {''active'', ''converted''}) (bk_bonuses b)))"
proof -
  have ok: "bank_ok paid b" using bank_reached [OF assms] by (simp add: bank_good_def)
  note m = bank_okD(4) [OF ok, unfolded books_match_def]
  have dirs: "pm_direction p = ''in'' \<or> pm_direction p = ''out''" if "p \<in> set (bk_payments b)" for p
    using payments_okD(3) [OF bank_okD(2) [OF ok] that] by (auto simp: payment_ok_def deposit_row_ok_def payout_row_ok_def)
  have flow: "provider_flow K ps = sum_list (map pm_amount (filter (\<lambda>p. pm_direction p = ''out'' \<and> pm_status p = ''succeeded'') ps))
      - sum_list (map pm_amount (filter (\<lambda>p. pm_direction p = ''in'' \<and> pm_our_ref p \<in> K) ps))"
    if "\<forall>p\<in>set ps. pm_direction p = ''in'' \<or> pm_direction p = ''out''" for K ps
    using that by (induction ps) (auto simp: provider_flow_def)
  have locked: "locked_for u ps = sum_list (map pm_amount (filter (\<lambda>p. pm_user p = u \<and> pm_direction p = ''out''
      \<and> pm_status p \<in> {''review'', ''approved'', ''processing''}) ps))" for ps
    by (induction ps) (auto simp: locked_for_def live_payout_def)
  have held: "bonus_held u xs = sum_list (map bn_amount (filter (\<lambda>x. bn_user x = u \<and> bn_status x = ''active'') xs))"
    and spent: "promo_spent xs = sum_list (map bn_amount (filter (\<lambda>x. bn_status x \<in> {''active'', ''converted''}) xs))" for xs
    by (induction xs) (auto simp: bonus_held_def promo_spent_def)
  show ?thesis using bank_okD(1) [OF ok] m flow dirs locked held spent by simp
qed

theorem payments_books_match_witness:
  "\<exists>b fs. (bank_step (\<lambda>r. True))\<^sup>*\<^sup>* (desk, []) (b, fs) \<and> map pm_status (bk_payments b) = [''succeeded'', ''succeeded'']
     \<and> obal (bank_led b) provider_owner
        = sum_list (map pm_amount (filter (\<lambda>p. pm_direction p = ''out'' \<and> pm_status p = ''succeeded'') (bk_payments b)))
        - sum_list (map pm_amount (filter (\<lambda>p. pm_direction p = ''in'' \<and> pm_our_ref p \<in> tkeys (bank_led b)) (bk_payments b)))"
proof -
  have run: "(bank_step (\<lambda>r. True))\<^sup>*\<^sup>* (desk, []) (desk6, [desk_payout])" using desk_run5 desk_run6 by (rule rtranclp_trans) simp
  show ?thesis using run payments_books_match [OF desk_start run, of 7] desk_ends by (auto simp: Let_def)
qed

subsection \<open>Payouts\<close>



subsection \<open>Deposits\<close>

text \<open>C6. A deposit is credited once: a status report credits exactly when it says succeeded, with exactly the amount
  asked for, of a deposit that has not succeeded; the player's cash then grows by this amount and nobody else's cash changes; and
  no later report of any provider for the same reference, whatever happened in between, moves anybody's cash again.\<close>

theorem deposit_credited_once:
  assumes "bank_good paid (b, fs)" "payment_by_ref b r = Some p" "pm_direction p = ''in''"
    and "apply_confirmed_status now r event provider status amount pref b = Inr (''credited'', b1)"
    and "(bank_step paid)\<^sup>*\<^sup>* (b1, fs) (c, gs)"
    and "apply_confirmed_status now' r event' provider' status' amount' pref' c = Inr (outcome, c')"
  shows "status = ''succeeded'' \<and> amount = Some (pm_amount p) \<and> pm_status p \<noteq> ''succeeded''
    \<and> (\<forall>v. obal (bank_led b1) (cash_owner v) = obal (bank_led b) (cash_owner v) + (if v = pm_user p \<and> r \<notin> tkeys (bank_led b) then pm_amount p else 0))
    \<and> (\<forall>v. obal (bank_led c') (cash_owner v) = obal (bank_led c) (cash_owner v))"
proof -
  have ok: "bank_ok paid b" using assms(1) by (simp add: bank_good_def)
  have e: "status = ''succeeded'' \<and> amount = Some (pm_amount p) \<and> pm_status p \<noteq> ''succeeded''"
    "\<forall>v. obal (bank_led b1) (cash_owner v) = obal (bank_led b) (cash_owner v) + (if v = pm_user p \<and> r \<notin> tkeys (bank_led b) then pm_amount p else 0)"
    "r \<in> tkeys (bank_led b1)"
    using apply_confirmed_effect [OF ok assms(2-4)] by simp_all
  have step: "bank_step paid (b, fs) (b1, fs)" by (rule bp_confirmed [OF _ assms(4)]) (use assms(2,3) in simp)
  have good1: "bank_good paid (b1, fs)" by (rule bank.run_good [OF r_into_rtranclp [of "bank_step paid", OF step] assms(1)])
  have good2: "bank_good paid (c, gs)" by (rule bank.run_good [OF assms(5) good1])
  note pi = payment_by_ref_in [OF assms(2)]
  have kept: "bank_kept b1 c" "bank_kept b c"
    using bank.run_kept [OF assms(5) good1] bank.run_kept [OF converse_rtranclp_into_rtranclp [of "bank_step paid", OF step assms(5)] assms(1)] by simp_all
  have key: "r \<in> tkeys (bank_led c)"
    using e(3) kept(1) ref_is_payment_key [OF ok] pi unfolding bank_kept_def by blast
  have ok2: "bank_ok paid c" using good2 by (simp add: bank_good_def)
  obtain q where q: "q \<in> set (bk_payments c)" "payment_kept p q" using kept(2) pi unfolding bank_kept_def payments_kept_def by blast
  have id: "row_identity q = row_identity p" using q(2) by (simp add: payment_kept_def)
  have "pm_our_ref q = r" using row_identityD(5) [OF id] pi by simp
  then have "payment_by_ref c r \<noteq> None" using q(1) unfolding payment_by_ref_def find_None_iff by blast
  then obtain x where x: "payment_by_ref c r = Some x" by blast
  have "x = q" by (rule payment_ref_unique [OF bank_okD(2) [OF ok2] _ q(1)]) (use payment_by_ref_in [OF x] row_identityD(5) [OF id] pi in simp_all)
  then have "pm_direction x = ''in''" using row_identityD(3) [OF id] assms(3) by simp
  from apply_confirmed_effect [OF ok2 x this assms(6)] key
  have "\<forall>v. obal (bank_led c') (cash_owner v) = obal (bank_led c) (cash_owner v)" by (elim disjE conjE) simp_all
  then show ?thesis using e(1,2) by (intro conjI) simp_all
qed

theorem deposit_credited_once_witness:
  "\<exists>p b. payment_by_ref desk2 ''DEP-2026-000001'' = Some p
     \<and> apply_confirmed_status 3 ''DEP-2026-000001'' ''e'' ''chapa'' ''succeeded'' (Some 100) ''c'' desk2 = Inr (''credited'', b)
     \<and> 100 = pm_amount p \<and> (\<forall>v. v \<noteq> pm_user p \<longrightarrow> obal (bank_led b) (cash_owner v) = obal (bank_led desk2) (cash_owner v))"
proof -
  obtain p where p: "payment_by_ref desk2 ''DEP-2026-000001'' = Some p" "pm_direction p = ''in''" using desk_facts(2) by auto
  have good: "bank_good (\<lambda>r. True) (desk2, [])" by (rule bank_reached [OF desk_start desk_run2])
  have again: "\<exists>c. apply_confirmed_status 9 ''DEP-2026-000001'' ''e'' ''chapa'' ''succeeded'' (Some 100) ''c'' desk3 = Inr (''duplicate'', c)"
  proof -
    have "(case apply_confirmed_status 9 ''DEP-2026-000001'' ''e'' ''chapa'' ''succeeded'' (Some 100) ''c'' desk3 of Inr (x, c) \<Rightarrow> x = ''duplicate'' | Inl _ \<Rightarrow> False)"
      by code_simp
    then show ?thesis by (auto split: sum.splits prod.splits)
  qed
  then obtain c where c: "apply_confirmed_status 9 ''DEP-2026-000001'' ''e'' ''chapa'' ''succeeded'' (Some 100) ''c'' desk3 = Inr (''duplicate'', c)" by blast
  note d = deposit_credited_once [OF good p desk_confirmed [unfolded confirm_call_def] rtranclp.rtrancl_refl c]
  show ?thesis using p desk_confirmed [unfolded confirm_call_def] d by auto
qed

end
