(* ===== verification/Bank_Outcomes.thy ===== *)
theory Bank_Outcomes
  imports Bank_Demo Bank_Effects
begin

text \<open>
  What single operations of the payments side promise to players and admins: a request to withdraw, a payment
  with Telebirr evidence, an approval by two admins.
\<close>

subsection \<open>Requests\<close>



subsection \<open>Evidence\<close>

lemma redeemed_again:
  assumes "evidence_ok ps (bk_evidence b)" "v \<in> set (bk_evidence b)" "ev_status v = ''redeemed''" "normalize_reference (strip r) = ev_reference v"
  shows "snd (redeem_evidence now year allowed u r cap b) = b"
proof -
  have "evidence_by_ref b (ev_reference v) = Some v"
  proof -
    have "evidence_by_ref b (ev_reference v) \<noteq> None" using assms(2) by (auto simp: evidence_by_ref_def find_None_iff)
    then obtain x where x: "evidence_by_ref b (ev_reference v) = Some x" by blast
    then have "x = v" using evidence_by_ref_in [OF x] assms(2) evidence_okD(2) [OF assms(1)] by (auto simp: distinct_map dest: inj_onD)
    then show ?thesis using x by simp
  qed
  then show ?thesis using assms(3,4)
    by (auto simp: redeem_evidence_def Let_def STATUS_TO_CODE_def split: option.splits if_splits)
qed

text \<open>C7. A Telebirr payment is redeemed once: over any run from a consistent state a redeemed evidence row never changes
  again and stands for exactly one payment, of the player who redeemed it and of the amount of the message; no other row
  stands for this payment; whoever presents the reference again gets nothing; and the standing check for payments
  without exactly one row of evidence finds nothing.\<close>

theorem evidence_redeemed_once:
  assumes "bank_good paid s" "(bank_step paid)\<^sup>*\<^sup>* s t" "v \<in> set (bk_evidence (fst s))" "ev_status v = ''redeemed''"
  shows "v \<in> set (bk_evidence (fst t))
    \<and> (\<exists>p\<in>set (bk_payments (fst t)). ev_payment v = Some (pm_id p) \<and> ev_redeemed_by v = Some (pm_user p) \<and> pm_amount p = ev_amount v
         \<and> (\<forall>w\<in>set (bk_evidence (fst t)). ev_payment w = Some (pm_id p) \<longrightarrow> w = v))
    \<and> (\<forall>now year allowed u r cap. normalize_reference (strip r) = ev_reference v
         \<longrightarrow> snd (redeem_evidence now year allowed u r cap (fst t)) = fst t)
    \<and> find_evidence_source_mismatches (fst t) = []"
proof -
  have ok: "bank_ok paid (fst t)" using bank.run_good [OF assms(2,1)] by (simp add: bank_good_def)
  note ev = bank_okD(5) [OF ok]
  have v: "v \<in> set (bk_evidence (fst t))"
    using bank.run_kept [OF assms(2,1)] assms(3,4) unfolding bank_kept_def evidence_kept_def by blast
  obtain p where p: "p \<in> set (bk_payments (fst t))" "ev_payment v = Some (pm_id p)" "ev_redeemed_by v = Some (pm_user p)"
      "pm_provider p = ''telebirr_sms''" "pm_amount p = ev_amount v"
    using evidence_okD(3) [OF ev v] assms(4) by (auto simp: evidence_row_ok_def)
  have one: "length (filter (\<lambda>w. ev_payment w = Some (pm_id p)) (bk_evidence (fst t))) = 1" using evidence_okD(4) [OF ev p(1)] p(4) by simp
  have only: "w = v" if "w \<in> set (bk_evidence (fst t))" "ev_payment w = Some (pm_id p)" for w
  proof -
    obtain x where x: "filter (\<lambda>w. ev_payment w = Some (pm_id p)) (bk_evidence (fst t)) = [x]" using one by (auto simp: length_Suc_conv)
    have "w \<in> set [x]" "v \<in> set [x]" unfolding x [symmetric] using that v p(2) by simp_all
    then show ?thesis by simp
  qed
  show ?thesis using v p only redeemed_again [OF ev v assms(4)] no_mismatches [OF ok] by blast
qed

definition desk_note :: evidence where
  "desk_note = \<lparr>ev_id = 1, ev_source = ''telegram_agent'', ev_source_ref = ''s'', ev_raw_sms = ''m'', ev_hash = ''h'',
     ev_parsed = \<lparr>pv_external_reference = ''ABC'', pv_raw_reference = ''ABC'', pv_amount = 50, pv_fee = None, pv_vat = None, pv_payer_name = ''P'',
       pv_payer_phone = None, pv_recipient_name = ''R'', pv_recipient_phone = None, pv_receipt_url = None, pv_transaction_at = 0, pv_direction = ''in''\<rparr>,
     ev_status = ''available'', ev_reject_reason = None, ev_redeemed_by = None, ev_payment = None, ev_parser_version = ''v''\<rparr>"

definition noted_desk where "noted_desk = desk\<lparr>bk_evidence := [desk_note]\<rparr>"
definition redeemed_desk where "redeemed_desk = snd (redeem_evidence 1 2026 True 7 '' abc'' 1000 noted_desk)"

lemma noted_good: "bank_good paid (noted_desk, [])"
proof -
  have ok: "bank_ok paid desk" using bank_start_good [OF desk_start] by (simp add: bank_good_def)
  have none: "bk_payments desk = []" "bk_evidence desk = []" by (simp_all add: desk_def)
  have "evidence_ok (bk_payments desk) ([] @ [desk_note])"
    by (rule evidence_added) (use none in \<open>simp_all add: desk_note_def evidence_ok_def whole_cents_def\<close>)
  then show ?thesis using ok by (simp add: bank_good_def bank_ok_def noted_desk_def in_flight_ok_def)
qed

theorem evidence_redeemed_once_witness:
  "\<exists>v. v \<in> set (bk_evidence redeemed_desk) \<and> ev_redeemed_by v = Some 7
     \<and> (\<exists>p\<in>set (bk_payments redeemed_desk). ev_payment v = Some (pm_id p) \<and> pm_amount p = 50)"
proof -
  let ?yes = "\<lambda>r :: string. True"
  have "bank_step ?yes (noted_desk, []) (redeemed_desk, [])" unfolding redeemed_desk_def
    by (rule bp_redeem [of 1 2026 True 7 "'' abc''" 1000 noted_desk "fst (redeem_evidence 1 2026 True 7 '' abc'' 1000 noted_desk)"]) simp
  from bank.run_good [OF r_into_rtranclp [of "bank_step ?yes", OF this] noted_good] have good: "bank_good ?yes (redeemed_desk, [])" .
  have "list_ex (\<lambda>v. ev_status v = ''redeemed'' \<and> ev_redeemed_by v = Some 7 \<and> ev_amount v = 50) (bk_evidence redeemed_desk)" by code_simp
  then obtain v where v: "v \<in> set (bk_evidence redeemed_desk)" "ev_status v = ''redeemed''" "ev_redeemed_by v = Some 7" "ev_amount v = 50"
    by (auto simp: list_ex_iff)
  show ?thesis using evidence_redeemed_once [OF good rtranclp.rtrancl_refl, of v] v by auto
qed

subsection \<open>Two admins\<close>

text \<open>An admin presses the button; an approval that raises changes nothing.\<close>

definition press_approve :: "int \<Rightarrow> int \<Rightarrow> money \<Rightarrow> int \<Rightarrow> bank \<Rightarrow> bank" where
  "press_approve adm i limit now b = (case approve_manual_deposit_admin now adm i limit b of Inl _ \<Rightarrow> b | Inr (_, b') \<Rightarrow> b')"

definition alone :: "int \<Rightarrow> int \<Rightarrow> money \<Rightarrow> bank \<Rightarrow> bool" where
  "alone adm i limit b \<longleftrightarrow> (\<exists>p. manual_payment b i ''in'' = Some p \<and> limit \<le> pm_amount p \<and> pm_first_approver p \<in> {None, Some adm})"

lemma first_approver_recorded:
  assumes "manual_payment b i dir = Some p"
  shows "manual_payment (update_payment i (\<lambda>p. p\<lparr>pm_first_approver := Some adm\<rparr>) b) i dir = Some (p\<lparr>pm_first_approver := Some adm\<rparr>)"
proof -
  have "find (\<lambda>p. pm_id p = i \<and> pm_direction p = dir \<and> pm_provider p = ''manual'')
      (map (\<lambda>p. if pm_id p = i then p\<lparr>pm_first_approver := Some adm\<rparr> else p) ps) = Some (p\<lparr>pm_first_approver := Some adm\<rparr>)"
    if "find (\<lambda>p. pm_id p = i \<and> pm_direction p = dir \<and> pm_provider p = ''manual'') ps = Some p" for ps
    using that by (induction ps) (auto split: if_splits)
  then show ?thesis using assms by (simp add: manual_payment_def update_payment_def)
qed

lemma alone_step:
  assumes "alone adm i limit b"
  shows "alone adm i limit (press_approve adm i limit now b) \<and> bank_led (press_approve adm i limit now b) = bank_led b"
proof -
  obtain p where p: "manual_payment b i ''in'' = Some p" "limit \<le> pm_amount p" "pm_first_approver p \<in> {None, Some adm}"
    using assms unfolding alone_def by blast
  consider "pm_status p \<noteq> ''review''" | "pm_status p = ''review''" "pm_first_approver p = None" | "pm_status p = ''review''" "pm_first_approver p = Some adm"
    using p(3) by auto
  then show ?thesis
  proof cases
    case 1
    then have "press_approve adm i limit now b = b"
      using p by (simp add: press_approve_def approve_manual_deposit_admin_def apply_two_person_gate_def)
    then show ?thesis using assms by simp
  next
    case 2
    then have "press_approve adm i limit now b = update_payment i (\<lambda>p. p\<lparr>pm_first_approver := Some adm\<rparr>) b"
      using p by (simp add: press_approve_def approve_manual_deposit_admin_def apply_two_person_gate_def)
    then show ?thesis using first_approver_recorded [OF p(1), of adm] p(2) by (simp add: alone_def update_payment_def)
  next
    case 3
    then have "press_approve adm i limit now b = b"
      using p by (simp add: press_approve_def approve_manual_deposit_admin_def apply_two_person_gate_def)
    then show ?thesis using assms by simp
  qed
qed

lemma alone_run: "alone adm i limit b \<Longrightarrow> bank_led (fold (press_approve adm i limit) nows b) = bank_led b"
proof (induction nows arbitrary: b)
  case (Cons now nows)
  note s = alone_step [OF Cons.prems, of now]
  show ?case using Cons.IH [of "press_approve adm i limit now b"] s by simp
qed simp

text \<open>C17. Two admins for the large amounts: at or above the threshold one admin alone moves no money, however often the
  approval of a deposit is pressed; a deposit is credited, or a withdrawal approved, only when the payment waits for review
  and another admin has approved it before; and the second of two different admins is not refused by the gate.\<close>

theorem two_person_approval:
  assumes "manual_payment b i dir = Some p" "limit \<le> pm_amount p"
  shows "(dir = ''in'' \<longrightarrow> pm_first_approver p \<in> {None, Some adm} \<longrightarrow> bank_led (fold (press_approve adm i limit) nows b) = bank_led b)
    \<and> (dir = ''in'' \<longrightarrow> approve_manual_deposit_admin now adm i limit b = Inr (''credited'', b')
         \<longrightarrow> pm_status p = ''review'' \<and> (\<exists>other. pm_first_approver p = Some other \<and> other \<noteq> adm))
    \<and> (dir = ''out'' \<longrightarrow> approve_manual_withdrawal_admin now adm i limit b = Inr (''approved'', b')
         \<longrightarrow> pm_status p = ''review'' \<and> (\<exists>other. pm_first_approver p = Some other \<and> other \<noteq> adm))
    \<and> (pm_status p = ''review'' \<longrightarrow> pm_first_approver p = Some other \<longrightarrow> other \<noteq> adm
         \<longrightarrow> apply_two_person_gate (Some p) adm i limit b = Inr (None, b))"
proof (intro conjI impI)
  assume d: "dir = ''in''" "pm_first_approver p \<in> {None, Some adm}"
  have "alone adm i limit b" unfolding alone_def using assms d by blast
  then show "bank_led (fold (press_approve adm i limit) nows b) = bank_led b" by (rule alone_run)
next
  assume "dir = ''in''" "approve_manual_deposit_admin now adm i limit b = Inr (''credited'', b')"
  then have "\<exists>b1. apply_two_person_gate (Some p) adm i limit b = Inr (None, b1)"
    using assms(1) by (auto simp: approve_manual_deposit_admin_def bind_result_Inr_iff apply_two_person_gate_def split: if_splits option.splits)
  then show "pm_status p = ''review''" "\<exists>other. pm_first_approver p = Some other \<and> other \<noteq> adm"
    using gate_Inr(2,3) [where outcome = None] assms(2) by blast+
next
  assume "dir = ''out''" "approve_manual_withdrawal_admin now adm i limit b = Inr (''approved'', b')"
  then have "\<exists>b1. apply_two_person_gate (Some p) adm i limit b = Inr (None, b1)"
    using assms(1) by (auto simp: approve_manual_withdrawal_admin_def bind_result_Inr_iff apply_two_person_gate_def split: if_splits option.splits)
  then show "pm_status p = ''review''" "\<exists>other. pm_first_approver p = Some other \<and> other \<noteq> adm"
    using gate_Inr(2,3) [where outcome = None] assms(2) by blast+
qed (use assms(2) in \<open>simp add: apply_two_person_gate_def\<close>)

definition desk_manual :: payment where
  "desk_manual = (new_payment 0 7 ''in'' ''manual'' ''DEP-2026-000001'' 500 ''review'' desk)\<lparr>pm_first_approver := Some 3\<rparr>"

theorem two_person_approval_witness:
  "bank_led (fold (press_approve 3 1 100) [5, 6, 7] (desk\<lparr>bk_payments := [desk_manual]\<rparr>)) = bank_led desk
   \<and> apply_two_person_gate (Some desk_manual) 4 1 100 desk = Inr (None, desk)"
proof -
  have m: "manual_payment (desk\<lparr>bk_payments := [desk_manual]\<rparr>) 1 ''in'' = Some desk_manual"
    by (simp add: manual_payment_def desk_manual_def new_payment_def new_payment_id_def desk_def)
  have p: "pm_amount desk_manual = 500" "pm_first_approver desk_manual = Some 3" "pm_status desk_manual = ''review''"
    by (simp_all add: desk_manual_def new_payment_def)
  show ?thesis
    using two_person_approval [OF m, of 100 3 "[5, 6, 7]"] two_person_approval [OF m, of 100 4] p
    by (simp add: apply_two_person_gate_def)
qed

end
