(* ===== verification/Sms.thy ===== *)
theory Sms
  imports Text_Match Sha256 Keys Tables
begin

text \<open>
  The SMS control plane (\<open>packages/core/sms\<close>): the tables of the migrations \<open>a2ac063da449\<close>, \<open>fb759e477bcd\<close> and
  \<open>198d7fa10f43\<close>, the templates, the audience of a campaign, the suppression list and the delivery nodes.
  The characters of a message are a list of code points. Timestamps nothing reads, audit rows and metrics are left out;
  the entropy of a credential is an argument.
\<close>

type_synonym utext = "nat list"

subsection \<open>Templates\<close>

text \<open>White space of a regular expression on a Unicode text.\<close>

definition space_point :: "nat \<Rightarrow> bool" where
  "space_point c \<longleftrightarrow> 9 \<le> c \<and> c \<le> 13 \<or> 28 \<le> c \<and> c \<le> 32 \<or> c \<in> {133, 160, 5760, 8232, 8233, 8239, 8287, 12288} \<or> 8192 \<le> c \<and> c \<le> 8202"

definition name_start :: "nat \<Rightarrow> bool" where
  "name_start c \<longleftrightarrow> 65 \<le> c \<and> c \<le> 90 \<or> 97 \<le> c \<and> c \<le> 122 \<or> c = 95"

definition name_point :: "nat \<Rightarrow> bool" where
  "name_point c \<longleftrightarrow> name_start c \<or> 48 \<le> c \<and> c \<le> 57"

text \<open>
  \<open>VARIABLE_PATTERN\<close> at the front of a text: the name and what follows. The classes of the pattern are
  disjoint, so the greedy match is the only one.
\<close>

definition placeholder_at :: "utext \<Rightarrow> (utext \<times> utext) option" where
  "placeholder_at xs =
     (if take 2 xs = [123, 123] then
        (let ys = dropWhile space_point (drop 2 xs) in
         case ys of
           [] \<Rightarrow> None
         | c # _ \<Rightarrow>
             if \<not> name_start c then None
             else (let zs = dropWhile space_point (dropWhile name_point ys) in
                   if take 2 zs = [125, 125] then Some (takeWhile name_point ys, drop 2 zs) else None))
      else None)"

lemma placeholder_shorter: "placeholder_at xs = Some (v, rest) \<Longrightarrow> length rest < length xs"
proof -
  assume p: "placeholder_at xs = Some (v, rest)"
  let ?ys = "dropWhile space_point (drop 2 xs)"
  have "rest = drop 2 (dropWhile space_point (dropWhile name_point ?ys))" and x: "take 2 xs = [123, 123]"
    using p by (auto simp: placeholder_at_def Let_def split: if_splits list.splits)
  then have "length rest \<le> length ?ys"
    by (metis diff_le_self length_drop length_dropWhile_le order_trans)
  also have "\<dots> \<le> length xs - 2" by (metis length_drop length_dropWhile_le)
  also have "\<dots> < length xs" using x by (cases xs) auto
  finally show ?thesis .
qed

datatype piece = Plain nat | Slot utext

function pieces :: "utext \<Rightarrow> piece list" where
  "pieces [] = []"
| "pieces (c # cs) = (case placeholder_at (c # cs) of Some (v, rest) \<Rightarrow> Slot v # pieces rest | None \<Rightarrow> Plain c # pieces cs)"
  by pat_completeness auto
termination by (relation "measure length") (auto dest: placeholder_shorter)

fun slots :: "piece list \<Rightarrow> utext list" where
  "slots [] = []"
| "slots (Plain c # ps) = slots ps"
| "slots (Slot v # ps) = v # slots ps"

text \<open>A dictionary keeps the first place of each key.\<close>

definition first_places :: "'a list \<Rightarrow> 'a list" where
  "first_places ks = fold (\<lambda>k seen. if k \<in> set seen then seen else seen @ [k]) ks []"

definition extract_variables :: "utext \<Rightarrow> utext list" where
  "extract_variables body = first_places (slots (pieces body))"

datatype sms_error =
    MissingVariables "utext list"
  | InvalidAudienceFilter
  | CampaignNotFound int
  | InvalidTransition int string
  | MessageNotFound int
  | NotOwnedByNode int int
  | NodeNotFound int
  | CsvImportError
  | CsvReaderError
  | SmsAttributeError
  | SmsUniqueViolation
  | SmsCheckViolation
  | SmsForeignKeyViolation
  | SmsAssertionError
  | SmsTypeError

type_synonym 'a sms_result = "sms_error + 'a"

definition render_template :: "utext \<Rightarrow> (utext \<times> utext) list \<Rightarrow> utext sms_result" where
  "render_template body variables =
     (let missing = filter (\<lambda>v. map_of variables v = None) (extract_variables body) in
      if missing \<noteq> [] then Inl (MissingVariables missing)
      else Inr (concat (map (\<lambda>p. case p of Plain c \<Rightarrow> [c] | Slot v \<Rightarrow> the (map_of variables v)) (pieces body))))"

definition GSM7_BASIC_SET :: "nat list" where
  "GSM7_BASIC_SET =
    [64, 163, 36, 165, 232, 233, 249, 236, 242, 199, 10, 216, 248, 13, 197, 229, 916, 95, 934, 915, 923, 937, 928, 936,
     931, 920, 926, 32, 198, 230, 223, 201, 32, 33, 34, 35, 164, 37, 38, 39, 40, 41, 42, 43, 44, 45, 46, 47,
     48, 49, 50, 51, 52, 53, 54, 55, 56, 57, 58, 59, 60, 61, 62, 63, 161, 65, 66, 67, 68, 69, 70, 71,
     72, 73, 74, 75, 76, 77, 78, 79, 80, 81, 82, 83, 84, 85, 86, 87, 88, 89, 90, 196, 214, 209, 220, 167,
     191, 97, 98, 99, 100, 101, 102, 103, 104, 105, 106, 107, 108, 109, 110, 111, 112, 113, 114, 115, 116, 117, 118, 119,
     120, 121, 122, 228, 246, 241, 252, 224]"

definition SEGMENT_LIMIT_GSM7_SINGLE :: int where "SEGMENT_LIMIT_GSM7_SINGLE = 160"
definition SEGMENT_LIMIT_GSM7_MULTI :: int where "SEGMENT_LIMIT_GSM7_MULTI = 153"
definition SEGMENT_LIMIT_UCS2_SINGLE :: int where "SEGMENT_LIMIT_UCS2_SINGLE = 70"
definition SEGMENT_LIMIT_UCS2_MULTI :: int where "SEGMENT_LIMIT_UCS2_MULTI = 67"

definition is_gsm7 :: "utext \<Rightarrow> bool" where
  "is_gsm7 txt \<longleftrightarrow> (\<forall>c\<in>set txt. c \<in> set GSM7_BASIC_SET)"

definition count_segments :: "utext \<Rightarrow> int" where
  "count_segments txt =
     (if txt = [] then 1
      else let n = int (length txt) in
        if is_gsm7 txt then (if n \<le> SEGMENT_LIMIT_GSM7_SINGLE then 1 else - ((- n) div SEGMENT_LIMIT_GSM7_MULTI))
        else if n \<le> SEGMENT_LIMIT_UCS2_SINGLE then 1 else - ((- n) div SEGMENT_LIMIT_UCS2_MULTI))"

subsection \<open>Rows\<close>

datatype json = JNull | JBool bool | JNum rat | JText utext | JArray "json list" | JObject "(string \<times> json) list"

record contact =
  ct_id :: int
  ct_tenant :: int
  ct_phone :: utext
  ct_display_name :: "utext option"
  ct_attributes :: "(string \<times> json) list"
  ct_opted_out :: bool

record suppression =
  sp_tenant :: int
  sp_phone :: utext
  sp_reason :: string
  sp_note :: "string option"

record sms_template =
  tp_id :: int
  tp_tenant :: int
  tp_name :: string
  tp_body :: utext
  tp_variables :: "utext list"

record campaign =
  cp_id :: int
  cp_tenant :: int
  cp_name :: string
  cp_template :: "int option"
  cp_body_override :: "utext option"
  cp_status :: string
  cp_audience :: json
  cp_recipient_count :: "int option"
  cp_scheduled_at :: "int option"
  cp_started_at :: "int option"
  cp_completed_at :: "int option"
  cp_created_by :: int
  cp_fleet_group :: "string option"
  cp_import_job :: "int option"

record campaign_event =
  ce_campaign :: int
  ce_from :: "string option"
  ce_to :: string
  ce_admin :: "int option"
  ce_reason :: "string option"

record delivery_node =
  dn_id :: int
  dn_tenant :: int
  dn_name :: string
  dn_fleet_group :: string
  dn_token_hash :: string
  dn_status :: string
  dn_health_score :: int
  dn_last_heartbeat :: "int option"
  dn_app_version :: "string option"
  dn_max_jobs :: int
  dn_protocol_version :: int

record sms_message =
  ms_id :: int
  ms_tenant :: int
  ms_campaign :: "int option"
  ms_contact :: "int option"
  ms_phone :: utext
  ms_body :: utext
  ms_segments :: int
  ms_priority :: string
  ms_status :: string
  ms_node :: "int option"
  ms_assigned_at :: "int option"
  ms_attempts :: int
  ms_last_error :: "string option"
  ms_key :: string
  ms_created_at :: int

record attempt =
  at_message :: int
  at_node :: int
  at_number :: int
  at_outcome :: string
  at_error :: "string option"
  at_response :: "string option"

record import_row =
  ir_job :: int
  ir_number :: int
  ir_raw_phone :: utext
  ir_phone :: "utext option"
  ir_body :: "utext option"
  ir_status :: string
  ir_error :: "string option"

record import_job =
  ij_id :: int
  ij_tenant :: int
  ij_campaign :: "int option"
  ij_format :: string
  ij_status :: string
  ij_key :: string
  ij_total :: int
  ij_valid :: int
  ij_invalid :: int
  ij_duplicate :: int
  ij_suppressed :: int

record sms =
  sm_contacts :: "contact list"
  sm_suppressions :: "suppression list"
  sm_templates :: "sms_template list"
  sm_campaigns :: "campaign list"
  sm_events :: "campaign_event list"
  sm_nodes :: "delivery_node list"
  sm_messages :: "sms_message list"
  sm_attempts :: "attempt list"
  sm_jobs :: "import_job list"
  sm_rows :: "import_row list"

subsection \<open>Suppressions\<close>

definition is_suppressed :: "sms \<Rightarrow> int \<Rightarrow> utext \<Rightarrow> bool" where
  "is_suppressed s tenant phone \<longleftrightarrow> (\<exists>x\<in>set (sm_suppressions s). sp_tenant x = tenant \<and> sp_phone x = phone)"

definition SUPPRESSION_REASONS :: "string set" where
  "SUPPRESSION_REASONS = {''opt_out'', ''manual'', ''bounce'', ''complaint''}"

definition add_suppression :: "int \<Rightarrow> utext \<Rightarrow> string \<Rightarrow> string option \<Rightarrow> sms \<Rightarrow> sms sms_result" where
  "add_suppression tenant phone reason note s =
     (if reason \<notin> SUPPRESSION_REASONS then Inl SmsCheckViolation
      else if is_suppressed s tenant phone then
        Inr (s\<lparr>sm_suppressions := map (\<lambda>x. if sp_tenant x = tenant \<and> sp_phone x = phone then x\<lparr>sp_reason := reason, sp_note := note\<rparr> else x)
          (sm_suppressions s)\<rparr>)
      else Inr (s\<lparr>sm_suppressions := sm_suppressions s @ [\<lparr>sp_tenant = tenant, sp_phone = phone, sp_reason = reason, sp_note = note\<rparr>]\<rparr>))"

definition remove_suppression :: "int \<Rightarrow> utext \<Rightarrow> sms \<Rightarrow> bool \<times> sms" where
  "remove_suppression tenant phone s =
     (is_suppressed s tenant phone,
      s\<lparr>sm_suppressions := filter (\<lambda>x. \<not> (sp_tenant x = tenant \<and> sp_phone x = phone)) (sm_suppressions s)\<rparr>)"

subsection \<open>Contacts and the audience of a campaign\<close>

definition upsert_contact :: "int \<Rightarrow> utext \<Rightarrow> (contact \<Rightarrow> contact) \<Rightarrow> contact \<Rightarrow> sms \<Rightarrow> int \<times> sms" where
  "upsert_contact tenant phone change row s =
     (case find (\<lambda>c. ct_tenant c = tenant \<and> ct_phone c = phone) (sm_contacts s) of
        Some c \<Rightarrow> (ct_id c, s\<lparr>sm_contacts := map (\<lambda>x. if ct_id x = ct_id c then change x else x) (sm_contacts s)\<rparr>)
      | None \<Rightarrow> (let i = int (length (sm_contacts s)) + 1 in (i, s\<lparr>sm_contacts := sm_contacts s @ [row\<lparr>ct_id := i, ct_tenant := tenant, ct_phone := phone\<rparr>]\<rparr>)))"

definition create_contact :: "int \<Rightarrow> utext \<Rightarrow> utext option \<Rightarrow> (string \<times> json) list \<Rightarrow> sms \<Rightarrow> int \<times> sms" where
  "create_contact tenant phone display_name attributes s =
     upsert_contact tenant phone (\<lambda>c. c\<lparr>ct_display_name := display_name, ct_attributes := attributes\<rparr>)
       \<lparr>ct_id = 0, ct_tenant = tenant, ct_phone = phone, ct_display_name = display_name, ct_attributes = attributes, ct_opted_out = False\<rparr> s"

definition get_or_create_import_contact :: "int \<Rightarrow> utext \<Rightarrow> int \<Rightarrow> sms \<Rightarrow> int \<times> sms" where
  "get_or_create_import_contact tenant phone job_id s =
     upsert_contact tenant phone id
       \<lparr>ct_id = 0, ct_tenant = tenant, ct_phone = phone, ct_display_name = None,
        ct_attributes = [(''imported_via_job'', JNum (of_int job_id))], ct_opted_out = False\<rparr> s"

record recipient =
  rp_contact :: int
  rp_phone :: utext
  rp_display_name :: "utext option"

definition MAX_ATTRIBUTE_FILTER_KEYS :: nat where "MAX_ATTRIBUTE_FILTER_KEYS = 20"

fun scalar_json :: "json \<Rightarrow> bool" where
  "scalar_json (JText _) \<longleftrightarrow> True" | "scalar_json (JNum _) \<longleftrightarrow> True" | "scalar_json (JBool _) \<longleftrightarrow> True" | "scalar_json _ \<longleftrightarrow> False"

definition audience_attributes :: "json \<Rightarrow> json option" where
  "audience_attributes f = (case f of JObject kvs \<Rightarrow> map_of kvs ''attributes'' | _ \<Rightarrow> None)"

definition validate_audience_filter :: "json \<Rightarrow> json sms_result" where
  "validate_audience_filter f =
     (case f of
        JObject kvs \<Rightarrow>
          if \<exists>(k, v)\<in>set kvs. k \<noteq> ''attributes'' then Inl InvalidAudienceFilter
          else (case audience_attributes f of
              None \<Rightarrow> Inr f
            | Some JNull \<Rightarrow> Inr f
            | Some (JObject ats) \<Rightarrow>
                if MAX_ATTRIBUTE_FILTER_KEYS < length ats then Inl InvalidAudienceFilter
                else if \<exists>(k, v)\<in>set ats. \<not> scalar_json v then Inl InvalidAudienceFilter
                else Inr f
            | Some _ \<Rightarrow> Inl InvalidAudienceFilter)
      | _ \<Rightarrow> Inl InvalidAudienceFilter)"

text \<open>Containment of a flat object of scalars in the attributes of a contact.\<close>

definition contains_attributes :: "(string \<times> json) list \<Rightarrow> (string \<times> json) list \<Rightarrow> bool" where
  "contains_attributes have wanted \<longleftrightarrow> (\<forall>(k, v)\<in>set wanted. map_of have k = Some v)"

definition in_audience :: "sms \<Rightarrow> int \<Rightarrow> json \<Rightarrow> contact \<Rightarrow> bool" where
  "in_audience s tenant f c \<longleftrightarrow> ct_tenant c = tenant \<and> \<not> ct_opted_out c
     \<and> (case audience_attributes f of Some (JObject ats) \<Rightarrow> contains_attributes (ct_attributes c) ats | _ \<Rightarrow> True)
     \<and> \<not> is_suppressed s (ct_tenant c) (ct_phone c)"

text \<open>Contacts are numbered as they come, so the table is in the order of the ids.\<close>

definition resolve_recipients :: "int \<Rightarrow> json \<Rightarrow> sms \<Rightarrow> recipient list sms_result" where
  "resolve_recipients tenant f s =
     bind_result (validate_audience_filter f) (\<lambda>f.
       Inr (map (\<lambda>c. \<lparr>rp_contact = ct_id c, rp_phone = ct_phone c, rp_display_name = ct_display_name c\<rparr>)
         (filter (in_audience s tenant f) (sm_contacts s))))"

definition create_template :: "int \<Rightarrow> string \<Rightarrow> utext \<Rightarrow> sms \<Rightarrow> (int \<times> sms) sms_result" where
  "create_template tenant name body s =
     (if \<exists>t\<in>set (sm_templates s). tp_tenant t = tenant \<and> tp_name t = name then Inl SmsUniqueViolation
      else let i = int (length (sm_templates s)) + 1 in
        Inr (i, s\<lparr>sm_templates := sm_templates s @ [\<lparr>tp_id = i, tp_tenant = tenant, tp_name = name, tp_body = body,
          tp_variables = extract_variables body\<rparr>]\<rparr>))"

subsection \<open>Delivery nodes\<close>

definition minutes_us :: "int \<Rightarrow> int" where "minutes_us n = n * 60000000"
definition HEARTBEAT_STALE_AFTER :: int where "HEARTBEAT_STALE_AFTER = minutes_us 5"
definition DEGRADED_HEALTH_THRESHOLD :: int where "DEGRADED_HEALTH_THRESHOLD = 50"

definition display_status :: "int \<Rightarrow> delivery_node \<Rightarrow> string" where
  "display_status now node =
     (if dn_status node \<noteq> ''active'' then dn_status node
      else case dn_last_heartbeat node of
        None \<Rightarrow> ''offline''
      | Some t \<Rightarrow> if HEARTBEAT_STALE_AFTER < now - t then ''offline''
          else if dn_health_score node < DEGRADED_HEALTH_THRESHOLD then ''degraded'' else ''active'')"

definition hash_token :: "string \<Rightarrow> string" where
  "hash_token raw_token = hexdigest (sha256 (ascii raw_token))"

definition node_by_id :: "sms \<Rightarrow> int \<Rightarrow> delivery_node option" where
  "node_by_id s i = find (\<lambda>n. dn_id n = i) (sm_nodes s)"

definition update_node :: "int \<Rightarrow> (delivery_node \<Rightarrow> delivery_node) \<Rightarrow> sms \<Rightarrow> sms" where
  "update_node i f s = s\<lparr>sm_nodes := map (\<lambda>n. if dn_id n = i then f n else n) (sm_nodes s)\<rparr>"

definition create_node :: "int \<Rightarrow> string \<Rightarrow> string \<Rightarrow> string \<Rightarrow> sms \<Rightarrow> (delivery_node \<times> sms) sms_result" where
  "create_node tenant name fleet_group raw_token s =
     (if \<exists>n\<in>set (sm_nodes s). dn_tenant n = tenant \<and> dn_name n = name \<or> dn_token_hash n = hash_token raw_token then Inl SmsUniqueViolation
      else let node = \<lparr>dn_id = int (length (sm_nodes s)) + 1, dn_tenant = tenant, dn_name = name, dn_fleet_group = fleet_group,
             dn_token_hash = hash_token raw_token, dn_status = ''pending'', dn_health_score = 0, dn_last_heartbeat = None,
             dn_app_version = None, dn_max_jobs = 1, dn_protocol_version = 1\<rparr>
           in Inr (node, s\<lparr>sm_nodes := sm_nodes s @ [node]\<rparr>))"

definition change_node :: "int \<Rightarrow> (delivery_node \<Rightarrow> delivery_node) \<Rightarrow> sms \<Rightarrow> sms sms_result" where
  "change_node node_id f s = (case node_by_id s node_id of None \<Rightarrow> Inl (NodeNotFound node_id) | Some _ \<Rightarrow> Inr (update_node node_id f s))"

definition rotate_token :: "int \<Rightarrow> string \<Rightarrow> sms \<Rightarrow> sms sms_result" where
  "rotate_token node_id raw_token = change_node node_id (\<lambda>n. n\<lparr>dn_token_hash := hash_token raw_token\<rparr>)"

definition set_node_status :: "string \<Rightarrow> int \<Rightarrow> sms \<Rightarrow> sms sms_result" where
  "set_node_status status node_id = change_node node_id (\<lambda>n. n\<lparr>dn_status := status\<rparr>)"

definition approve_node :: "int \<Rightarrow> sms \<Rightarrow> sms sms_result" where "approve_node = set_node_status ''active''"
definition disable_node :: "int \<Rightarrow> sms \<Rightarrow> sms sms_result" where "disable_node = set_node_status ''disabled''"
definition set_maintenance :: "int \<Rightarrow> sms \<Rightarrow> sms sms_result" where "set_maintenance = set_node_status ''maintenance''"
definition resume_node :: "int \<Rightarrow> sms \<Rightarrow> sms sms_result" where "resume_node = set_node_status ''active''"
definition drain_node :: "int \<Rightarrow> sms \<Rightarrow> sms sms_result" where "drain_node = set_node_status ''draining''"
definition revoke_node :: "int \<Rightarrow> sms \<Rightarrow> sms sms_result" where "revoke_node = set_node_status ''revoked''"

definition authenticate_node :: "string \<Rightarrow> sms \<Rightarrow> delivery_node option" where
  "authenticate_node raw_token s =
     (case find (\<lambda>n. dn_token_hash n = hash_token raw_token) (sm_nodes s) of
        None \<Rightarrow> None
      | Some n \<Rightarrow> if dn_status n = ''revoked'' then None else Some n)"

text \<open>A heartbeat of an unknown node updates no row; \<open>max_concurrent_jobs\<close> has to be positive.\<close>

definition record_heartbeat :: "int \<Rightarrow> int \<Rightarrow> string option \<Rightarrow> int option \<Rightarrow> int option \<Rightarrow> sms \<Rightarrow> sms sms_result" where
  "record_heartbeat now node_id app_version max_jobs protocol s =
     (if (case max_jobs of None \<Rightarrow> False | Some m \<Rightarrow> m \<le> 0) \<and> node_by_id s node_id \<noteq> None then Inl SmsCheckViolation
      else Inr (update_node node_id (\<lambda>n. n\<lparr>dn_last_heartbeat := Some now, dn_app_version := app_version,
        dn_max_jobs := (case max_jobs of None \<Rightarrow> dn_max_jobs n | Some m \<Rightarrow> m),
        dn_protocol_version := (case protocol of None \<Rightarrow> dn_protocol_version n | Some m \<Rightarrow> m)\<rparr>) s))"

definition IN_FLIGHT :: "string set" where "IN_FLIGHT = {''assigned'', ''sending''}"

definition current_assigned_count :: "sms \<Rightarrow> int \<Rightarrow> int" where
  "current_assigned_count s node_id = int (length (filter (\<lambda>m. ms_node m = Some node_id \<and> ms_status m \<in> IN_FLIGHT) (sm_messages s)))"

text \<open>
  \<open>round\<close> of a ratio: to the nearest integer, a tie to the even one. \<open>70 * k / n\<close> for at most 20 attempts is a
  double whose distance from a tie is never lost in the rounding.
\<close>

definition round_ratio :: "rat \<Rightarrow> int" where
  "round_ratio x = (let f = \<lfloor>x\<rfloor>; r = x - of_int f in if r < 1 / 2 then f else if 1 / 2 < r then f + 1 else if even f then f else f + 1)"

definition health_score :: "int \<Rightarrow> delivery_node \<Rightarrow> attempt list \<Rightarrow> int" where
  "health_score now node attempts =
     (if (case dn_last_heartbeat node of None \<Rightarrow> True | Some t \<Rightarrow> HEARTBEAT_STALE_AFTER < now - t) then 0
      else let recent = take 20 (rev (filter (\<lambda>a. at_node a = dn_id node) attempts)) in
        if recent = [] then 70
        else round_ratio (30 + 70 * of_nat (length (filter (\<lambda>a. at_outcome a = ''delivered'') recent)) / of_nat (length recent)))"

definition compute_and_store_health_score :: "int \<Rightarrow> int \<Rightarrow> sms \<Rightarrow> (int \<times> sms) sms_result" where
  "compute_and_store_health_score now node_id s =
     (case node_by_id s node_id of
        None \<Rightarrow> Inl (NodeNotFound node_id)
      | Some node \<Rightarrow> (let score = health_score now node (sm_attempts s) in
          Inr (score, update_node node_id (\<lambda>n. n\<lparr>dn_health_score := score\<rparr>) s)))"

end
