(* ===== verification/Sms_Import.thy ===== *)
theory Sms_Import
  imports Sms
begin

text \<open>
  The bulk import of recipients (\<open>packages/core/sms/csv_import.py\<close>, \<open>packages/core/phone.py\<close>): the CSV file is read
  by Python's \<open>csv\<close> module in its default dialect, its header checked, each data row normalized, validated,
  checked for duplicates and suppressions, and stored. What the decoding of the upload gives is an argument.
\<close>

subsection \<open>Phone numbers\<close>

text \<open>The zeros of the decimal digits of Unicode; each script has its ten digits in a row.\<close>

definition DECIMAL_ZEROS :: "nat list" where
  "DECIMAL_ZEROS =
    [48, 1632, 1776, 1984, 2406, 2534, 2662, 2790, 2918, 3046, 3174, 3302, 3430, 3558, 3664, 3792, 3872, 4160,
     4240, 6112, 6160, 6470, 6608, 6784, 6800, 6992, 7088, 7232, 7248, 42528, 43216, 43264, 43472, 43504, 43600, 44016,
     65296, 66720, 68912, 69734, 69872, 69942, 70096, 70384, 70736, 70864, 71248, 71360, 71472, 71904, 72016, 72784, 73040, 73120,
     92768, 92864, 93008, 120782, 120792, 120802, 120812, 120822, 123200, 123632, 125264, 130032]"

definition decimal_point :: "nat \<Rightarrow> bool" where
  "decimal_point c \<longleftrightarrow> (\<exists>z\<in>set DECIMAL_ZEROS. z \<le> c \<and> c \<le> z + 9)"

definition points :: "string \<Rightarrow> utext" where "points = map of_char"

definition normalize_ethiopian_phone :: "utext \<Rightarrow> utext option" where
  "normalize_ethiopian_phone raw =
     (let digits = filter decimal_point raw;
          national = (if take 3 digits = points ''251'' then drop 3 digits else if take 1 digits = points ''0'' then drop 1 digits else digits) in
      if length national \<noteq> 9 \<or> take 1 national \<notin> {points ''7'', points ''9''} then None else Some (points ''+251'' @ national))"

subsection \<open>The CSV reader\<close>

datatype csv_state = StartRecord | StartField | InField | InQuoted | QuoteInQuoted | EatNewline

record csv_reader =
  cr_state :: csv_state
  cr_field :: utext
  cr_fields :: "utext list"

definition new_record :: csv_reader where
  "new_record = \<lparr>cr_state = StartRecord, cr_field = [], cr_fields = []\<rparr>"

definition save_field :: "csv_state \<Rightarrow> csv_reader \<Rightarrow> csv_reader" where
  "save_field st r = r\<lparr>cr_state := st, cr_field := [], cr_fields := cr_fields r @ [cr_field r]\<rparr>"

definition add_point :: "csv_state \<Rightarrow> nat \<Rightarrow> csv_reader \<Rightarrow> csv_reader" where
  "add_point st c r = r\<lparr>cr_state := st, cr_field := cr_field r @ [c]\<rparr>"

text \<open>One character, or the end of a line as \<open>None\<close>. A bare carriage return inside a line is the one error of the dialect.\<close>

definition newline_point :: "nat \<Rightarrow> bool" where "newline_point c \<longleftrightarrow> c = 10 \<or> c = 13"

fun start_field :: "nat option \<Rightarrow> csv_reader \<Rightarrow> csv_reader option" where
  "start_field None r = Some (save_field StartRecord r)"
| "start_field (Some c) r =
     (if newline_point c then Some (save_field EatNewline r)
      else if c = 34 then Some (r\<lparr>cr_state := InQuoted\<rparr>)
      else if c = 44 then Some (save_field StartField r)
      else Some (add_point InField c r))"

definition csv_char :: "nat option \<Rightarrow> csv_reader \<Rightarrow> csv_reader option" where
  "csv_char e r =
     (case cr_state r of
        StartRecord \<Rightarrow> (case e of None \<Rightarrow> Some r | Some c \<Rightarrow> if newline_point c then Some (r\<lparr>cr_state := EatNewline\<rparr>) else start_field e r)
      | StartField \<Rightarrow> start_field e r
      | InField \<Rightarrow> (case e of
            None \<Rightarrow> Some (save_field StartRecord r)
          | Some c \<Rightarrow> if newline_point c then Some (save_field EatNewline r)
              else if c = 44 then Some (save_field StartField r) else Some (add_point InField c r))
      | InQuoted \<Rightarrow> (case e of
            None \<Rightarrow> Some r
          | Some c \<Rightarrow> if c = 34 then Some (r\<lparr>cr_state := QuoteInQuoted\<rparr>) else Some (add_point InQuoted c r))
      | QuoteInQuoted \<Rightarrow> (case e of
            None \<Rightarrow> Some (save_field StartRecord r)
          | Some c \<Rightarrow> if c = 34 then Some (add_point InQuoted c r)
              else if c = 44 then Some (save_field StartField r)
              else if newline_point c then Some (save_field EatNewline r) else Some (add_point InField c r))
      | EatNewline \<Rightarrow> (case e of None \<Rightarrow> Some (r\<lparr>cr_state := StartRecord\<rparr>) | Some c \<Rightarrow> if newline_point c then Some r else None))"

text \<open>The lines of a \<open>StringIO\<close>: after every line feed, and at the end of a last line without one, the reader sees the end of a line.\<close>

fun line_events :: "utext \<Rightarrow> nat option list" where
  "line_events [] = []"
| "line_events [c] = (if c = 10 then [Some c, None] else [Some c, None])"
| "line_events (c # d # cs) = (if c = 10 then Some c # None # line_events (d # cs) else Some c # line_events (d # cs))"

text \<open>Records are complete when a line ends in the start state; what is left in a field at the end of the file is a last record.\<close>

fun csv_records :: "nat option list \<Rightarrow> csv_reader \<Rightarrow> utext list list sms_result" where
  "csv_records [] r = (if cr_field r \<noteq> [] \<or> cr_state r = InQuoted then Inr [cr_fields r @ [cr_field r]] else Inr [])"
| "csv_records (e # es) r =
     (case csv_char e r of
        None \<Rightarrow> Inl CsvReaderError
      | Some r1 \<Rightarrow>
          if e = None \<and> cr_state r1 = StartRecord then bind_result (csv_records es new_record) (\<lambda>rows. Inr (cr_fields r1 # rows))
          else csv_records es r1)"

subsection \<open>Header and rows\<close>

definition strip_points :: "utext \<Rightarrow> utext" where
  "strip_points s = rev (dropWhile space_point (rev (dropWhile space_point s)))"

text \<open>Lower case, as far as a name in ASCII can tell.\<close>

definition lower_point :: "nat \<Rightarrow> nat" where "lower_point c = (if 65 \<le> c \<and> c \<le> 90 then c + 32 else c)"

definition column_name :: "utext \<Rightarrow> utext" where "column_name k = map lower_point (strip_points k)"

definition REQUIRED_COLUMNS :: "string \<Rightarrow> utext list" where
  "REQUIRED_COLUMNS format = (if format = ''phone_message'' then [points ''phone_number'', points ''message''] else [points ''phone_number''])"

definition check_header :: "string \<Rightarrow> utext list list \<Rightarrow> (utext list \<times> utext list list) sms_result" where
  "check_header format records =
     (case records of
        [] \<Rightarrow> Inl CsvImportError
      | fieldnames # rows \<Rightarrow>
          if \<exists>c\<in>set (REQUIRED_COLUMNS format). c \<notin> column_name ` (set fieldnames - {[]}) then Inl CsvImportError
          else Inr (fieldnames, filter (\<lambda>r. r \<noteq> []) rows))"

text \<open>
  The dictionary of a data row: a column has the place of its first and the value of its last occurrence in the header.
  Then the names are normalized, and of the columns whose names become equal the last one wins, which is
  the first in the list here. A row longer than the header has a list under the key \<open>None\<close>, which has no \<open>strip\<close>.
\<close>

definition dict_items :: "(utext \<times> utext) list \<Rightarrow> (utext \<times> utext) list" where
  "dict_items kvs = map (\<lambda>k. (k, case map_of (rev kvs) k of None \<Rightarrow> [] | Some v \<Rightarrow> v)) (first_places (map fst kvs))"

definition normalized_row :: "utext list \<Rightarrow> utext list \<Rightarrow> (utext \<times> utext) list sms_result" where
  "normalized_row fieldnames row =
     (if length fieldnames < length row then Inl SmsAttributeError
      else Inr (rev (map (\<lambda>(k, v). (column_name k, strip_points v))
        (dict_items (zip fieldnames (row @ replicate (length fieldnames - length row) []))))))"

text \<open>The reason of an invalid row, without the count of segments it quotes.\<close>

record parsed_row =
  pr_number :: int
  pr_raw_phone :: utext
  pr_phone :: "utext option"
  pr_body :: "utext option"
  pr_status :: string
  pr_error :: "string option"

definition MAX_CSV_ROWS :: int where "MAX_CSV_ROWS = 50000"
definition MAX_MESSAGE_SEGMENTS :: int where "MAX_MESSAGE_SEGMENTS = 10"

definition validate_row :: "string \<Rightarrow> utext set \<Rightarrow> int \<Rightarrow> (utext \<times> utext) list \<Rightarrow> utext set \<Rightarrow> parsed_row \<times> utext set" where
  "validate_row format suppressed row_number row seen_phones =
     (let raw_phone = (case map_of row (points ''phone_number'') of None \<Rightarrow> [] | Some v \<Rightarrow> v);
          message_body = (if format = ''phone_message'' then map_of row (points ''message'') else None);
          mk = (\<lambda>phone status why. \<lparr>pr_number = row_number, pr_raw_phone = raw_phone, pr_phone = phone, pr_body = message_body, pr_status = status, pr_error = why\<rparr>) in
      if raw_phone = [] then (mk None ''invalid'' (Some ''blank/missing phone number''), seen_phones)
      else case normalize_ethiopian_phone raw_phone of
        None \<Rightarrow> (mk None ''invalid'' (Some ''not a recognizable Ethiopian phone number''), seen_phones)
      | Some normalized \<Rightarrow>
          if format = ''phone_message'' \<and> (message_body = None \<or> message_body = Some [])
          then (mk (Some normalized) ''invalid'' (Some ''blank/missing message''), seen_phones)
          else if format = ''phone_message'' \<and> MAX_MESSAGE_SEGMENTS < count_segments (the message_body)
          then (mk (Some normalized) ''invalid'' (Some ''over the segment limit''), seen_phones)
          else if normalized \<in> seen_phones then (mk (Some normalized) ''duplicate'' (Some ''duplicate phone number within this file''), seen_phones)
          else if normalized \<in> suppressed then (mk (Some normalized) ''suppressed'' (Some ''phone number is on the suppression list''), insert normalized seen_phones)
          else (mk (Some normalized) ''valid'' None, insert normalized seen_phones))"

fun validated_rows :: "string \<Rightarrow> utext set \<Rightarrow> utext list \<Rightarrow> utext list list \<Rightarrow> int \<Rightarrow> utext set \<Rightarrow> parsed_row list sms_result" where
  "validated_rows format suppressed fieldnames [] row_number seen = (if row_number = 0 then Inl CsvImportError else Inr [])"
| "validated_rows format suppressed fieldnames (r # rs) row_number seen =
     (if MAX_CSV_ROWS < row_number + 1 then Inl CsvImportError
      else bind_result (normalized_row fieldnames r) (\<lambda>row.
        let (parsed, seen1) = validate_row format suppressed (row_number + 1) row seen in
        bind_result (validated_rows format suppressed fieldnames rs (row_number + 1) seen1) (\<lambda>rest. Inr (parsed # rest))))"

definition validate_csv_text :: "utext sms_result \<Rightarrow> string \<Rightarrow> utext set \<Rightarrow> parsed_row list sms_result" where
  "validate_csv_text decoded format suppressed =
     bind_result decoded (\<lambda>txt.
     bind_result (csv_records (line_events txt) new_record) (\<lambda>records.
     bind_result (check_header format records) (\<lambda>(fieldnames, rows). validated_rows format suppressed fieldnames rows 0 {})))"

subsection \<open>Jobs\<close>

definition job_by_id :: "sms \<Rightarrow> int \<Rightarrow> import_job option" where
  "job_by_id s i = find (\<lambda>j. ij_id j = i) (sm_jobs s)"

definition count_rows :: "string \<Rightarrow> parsed_row list \<Rightarrow> int" where
  "count_rows status rows = int (length (filter (\<lambda>r. pr_status r = status) rows))"

text \<open>
  Idempotent on the tenant and the client's key. A file with too many rows raises, and the caller's transaction
  takes the job and its rows back with it.
\<close>

definition create_import_job :: "int \<Rightarrow> utext sms_result \<Rightarrow> string \<Rightarrow> string \<Rightarrow> sms \<Rightarrow> (import_job \<times> sms) sms_result" where
  "create_import_job tenant decoded format key s =
     (case find (\<lambda>j. ij_tenant j = tenant \<and> ij_key j = key) (sm_jobs s) of
        Some j \<Rightarrow> Inr (j, s)
      | None \<Rightarrow>
          bind_result (validate_csv_text decoded format (sp_phone ` set (filter (\<lambda>x. sp_tenant x = tenant) (sm_suppressions s)))) (\<lambda>rows.
            let i = int (length (sm_jobs s)) + 1;
                job = \<lparr>ij_id = i, ij_tenant = tenant, ij_campaign = None, ij_format = format, ij_status = ''completed'', ij_key = key,
                  ij_total = int (length rows), ij_valid = count_rows ''valid'' rows, ij_invalid = count_rows ''invalid'' rows,
                  ij_duplicate = count_rows ''duplicate'' rows, ij_suppressed = count_rows ''suppressed'' rows\<rparr> in
            Inr (job, s\<lparr>sm_jobs := sm_jobs s @ [job], sm_rows := sm_rows s @ map (\<lambda>r. \<lparr>ir_job = i, ir_number = pr_number r, ir_raw_phone = pr_raw_phone r,
              ir_phone = pr_phone r, ir_body = pr_body r, ir_status = pr_status r, ir_error = pr_error r\<rparr>) rows\<rparr>)))"

definition get_import_summary :: "sms \<Rightarrow> int \<Rightarrow> int option \<Rightarrow> import_job sms_result" where
  "get_import_summary s job_id tenant =
     (case job_by_id s job_id of
        None \<Rightarrow> Inl CsvImportError
      | Some j \<Rightarrow> if (case tenant of None \<Rightarrow> True | Some t \<Rightarrow> ij_tenant j = t) then Inr j else Inl CsvImportError)"

definition list_import_rows :: "sms \<Rightarrow> int \<Rightarrow> int \<Rightarrow> string option \<Rightarrow> nat \<Rightarrow> nat \<Rightarrow> import_row list sms_result" where
  "list_import_rows s job_id tenant status limit offset =
     bind_result (get_import_summary s job_id (Some tenant)) (\<lambda>j.
       Inr (take limit (drop offset (filter (\<lambda>r. ir_job r = ij_id j \<and> (case status of None \<Rightarrow> True | Some st \<Rightarrow> ir_status r = st)) (sm_rows s)))))"

text \<open>All pages of a job's valid rows, in the order of their numbers.\<close>

definition import_recipients :: "sms \<Rightarrow> int \<Rightarrow> import_row list" where
  "import_recipients s job_id = filter (\<lambda>r. ir_job r = job_id \<and> ir_status r = ''valid'') (sm_rows s)"

end
