(* ===== verification/Sms_Campaigns.thy ===== *)
theory Sms_Campaigns
  imports Sms_Import
begin

text \<open>
  The life of a campaign (\<open>packages/core/sms/campaigns.py\<close>): every transition is guarded by the status it may
  start from and leaves an event; starting a campaign queues one message for each recipient. An operation that raises
  is taken back by the transaction of its caller, so an error carries no state.
\<close>

subsection \<open>Reading and creating\<close>

definition campaign_by_id :: "sms \<Rightarrow> int \<Rightarrow> campaign option" where
  "campaign_by_id s i = find (\<lambda>c. cp_id c = i) (sm_campaigns s)"

definition get_campaign :: "sms \<Rightarrow> int \<Rightarrow> campaign sms_result" where
  "get_campaign s i = (case campaign_by_id s i of None \<Rightarrow> Inl (CampaignNotFound i) | Some c \<Rightarrow> Inr c)"

definition list_campaigns :: "sms \<Rightarrow> int \<Rightarrow> campaign list" where
  "list_campaigns s tenant = rev (filter (\<lambda>c. cp_tenant c = tenant) (sm_campaigns s))"

definition template_body :: "sms \<Rightarrow> (sms_template \<Rightarrow> bool) \<Rightarrow> int \<Rightarrow> utext option" where
  "template_body s Q i = map_option tp_body (find (\<lambda>t. tp_id t = i \<and> Q t) (sm_templates s))"

definition record_campaign_event :: "int \<Rightarrow> string option \<Rightarrow> string \<Rightarrow> int option \<Rightarrow> string option \<Rightarrow> sms \<Rightarrow> sms" where
  "record_campaign_event i from_status to_status admin reason s =
     s\<lparr>sm_events := sm_events s @ [\<lparr>ce_campaign = i, ce_from = from_status, ce_to = to_status, ce_admin = admin, ce_reason = reason\<rparr>]\<rparr>"

definition create_campaign ::
  "int \<Rightarrow> string \<Rightarrow> int option \<Rightarrow> utext option \<Rightarrow> json \<Rightarrow> int \<Rightarrow> string option \<Rightarrow> int option \<Rightarrow> sms \<Rightarrow> (campaign \<times> sms) sms_result" where
  "create_campaign tenant name template_id body_override filter_json admin fleet job s =
     bind_result (validate_audience_filter filter_json) (\<lambda>f.
       let format = (case job of None \<Rightarrow> None | Some j \<Rightarrow> map_option ij_format (find (\<lambda>x. ij_id x = j \<and> ij_tenant x = tenant) (sm_jobs s)));
           bodyless = (template_id = None \<and> body_override = None);
           c = \<lparr>cp_id = int (length (sm_campaigns s)) + 1, cp_tenant = tenant, cp_name = name, cp_template = template_id, cp_body_override = body_override,
             cp_status = ''draft'', cp_audience = f, cp_recipient_count = None, cp_scheduled_at = None, cp_started_at = None,
             cp_completed_at = None, cp_created_by = admin, cp_fleet_group = fleet, cp_import_job = job\<rparr> in
       if job \<noteq> None \<and> (format = None \<or> format = Some ''phone_only'' \<and> bodyless) then Inl InvalidAudienceFilter
       else if job = None \<and> bodyless then Inl InvalidAudienceFilter
       else if (case template_id of None \<Rightarrow> False | Some t \<Rightarrow> template_body s (\<lambda>_. True) t = None) then Inl SmsForeignKeyViolation
       else let s1 = record_campaign_event (cp_id c) None ''draft'' (Some admin) None (s\<lparr>sm_campaigns := sm_campaigns s @ [c]\<rparr>) in
         Inr (c, case job of None \<Rightarrow> s1 | Some j \<Rightarrow> s1\<lparr>sm_jobs := map (\<lambda>x. if ij_id x = j then x\<lparr>ij_campaign := Some (cp_id c)\<rparr> else x) (sm_jobs s1)\<rparr>))"

subsection \<open>Transitions\<close>

definition update_campaign :: "int \<Rightarrow> (campaign \<Rightarrow> campaign) \<Rightarrow> sms \<Rightarrow> sms" where
  "update_campaign i f s = s\<lparr>sm_campaigns := map (\<lambda>c. if cp_id c = i then f c else c) (sm_campaigns s)\<rparr>"

text \<open>\<open>extra\<close> is what a transition sets besides the status.\<close>

definition transition ::
  "int \<Rightarrow> string list \<Rightarrow> string \<Rightarrow> int option \<Rightarrow> string option \<Rightarrow> (campaign \<Rightarrow> campaign) \<Rightarrow> sms \<Rightarrow> (campaign \<times> sms) sms_result" where
  "transition i allowed_from to_status admin reason extra s =
     (case campaign_by_id s i of
        None \<Rightarrow> Inl (CampaignNotFound i)
      | Some c \<Rightarrow>
          if cp_status c \<notin> set allowed_from then Inl (InvalidTransition i (cp_status c))
          else let s1 = record_campaign_event i (Some (cp_status c)) to_status admin reason (update_campaign i (\<lambda>c. extra (c\<lparr>cp_status := to_status\<rparr>)) s) in
            bind_result (get_campaign s1 i) (\<lambda>c1. Inr (c1, s1)))"

definition schedule_campaign :: "int \<Rightarrow> int \<Rightarrow> int \<Rightarrow> sms \<Rightarrow> (campaign \<times> sms) sms_result" where
  "schedule_campaign i admin scheduled_at =
     transition i [''ready''] ''scheduled'' (Some admin) None (\<lambda>c. c\<lparr>cp_scheduled_at := Some scheduled_at\<rparr>)"

definition pause_campaign :: "int \<Rightarrow> int \<Rightarrow> sms \<Rightarrow> (campaign \<times> sms) sms_result" where
  "pause_campaign i admin = transition i [''running''] ''paused'' (Some admin) None id"

definition resume_campaign :: "int \<Rightarrow> int \<Rightarrow> sms \<Rightarrow> (campaign \<times> sms) sms_result" where
  "resume_campaign i admin = transition i [''paused''] ''running'' (Some admin) None id"

definition update_messages :: "(sms_message \<Rightarrow> bool) \<Rightarrow> (sms_message \<Rightarrow> sms_message) \<Rightarrow> sms \<Rightarrow> sms" where
  "update_messages Q f s = s\<lparr>sm_messages := map (\<lambda>m. if Q m then f m else m) (sm_messages s)\<rparr>"

definition cancel_campaign :: "int \<Rightarrow> int \<Rightarrow> string \<Rightarrow> sms \<Rightarrow> (campaign \<times> sms) sms_result" where
  "cancel_campaign i admin reason s =
     bind_result (transition i [''draft'', ''ready'', ''scheduled'', ''running'', ''paused''] ''cancelled'' (Some admin) (Some reason) id s) (\<lambda>(c, s1).
       Inr (c, update_messages (\<lambda>m. ms_campaign m = Some i \<and> ms_status m = ''queued'') (\<lambda>m. m\<lparr>ms_status := ''cancelled''\<rparr>) s1))"

subsection \<open>Validation\<close>

definition effective_body :: "campaign \<Rightarrow> utext option \<Rightarrow> utext sms_result" where
  "effective_body c tbody =
     (case cp_body_override c of Some b \<Rightarrow> Inr b | None \<Rightarrow> (case tbody of Some b \<Rightarrow> Inr b | None \<Rightarrow> Inl SmsAssertionError))"

definition display_variables :: "utext option \<Rightarrow> (utext \<times> utext) list" where
  "display_variables name = [(points ''display_name'', case name of None \<Rightarrow> [] | Some d \<Rightarrow> d)]"

definition resolvable_import_recipient_count :: "campaign \<Rightarrow> sms \<Rightarrow> int sms_result" where
  "resolvable_import_recipient_count c s =
     (case cp_import_job c of
        None \<Rightarrow> Inl SmsAssertionError
      | Some j \<Rightarrow>
          bind_result (get_import_summary s j None) (\<lambda>summary.
            let tbody = (case cp_template c of None \<Rightarrow> None | Some t \<Rightarrow> template_body s (\<lambda>x. tp_tenant x = cp_tenant c) t) in
            if ij_format summary = ''phone_message'' then Inr (ij_valid summary)
            else if cp_template c \<noteq> None \<and> tbody = None then Inr 0
            else bind_result (effective_body c tbody) (\<lambda>b.
              Inr (case render_template b (display_variables None) of Inl _ \<Rightarrow> 0 | Inr _ \<Rightarrow> ij_valid summary))))"

fun count_resolvable :: "campaign \<Rightarrow> utext option \<Rightarrow> recipient list \<Rightarrow> int sms_result" where
  "count_resolvable c tbody [] = Inr 0"
| "count_resolvable c tbody (r # rs) =
     bind_result (effective_body c tbody) (\<lambda>b.
     bind_result (count_resolvable c tbody rs) (\<lambda>n.
       Inr (case render_template b (display_variables (rp_display_name r)) of Inl _ \<Rightarrow> n | Inr _ \<Rightarrow> n + 1)))"

definition validate_campaign :: "int \<Rightarrow> int \<Rightarrow> sms \<Rightarrow> (campaign \<times> sms) sms_result" where
  "validate_campaign i admin s =
     bind_result (transition i [''draft'', ''failed''] ''validating'' (Some admin) None id s) (\<lambda>(c, s1).
       let finish = (\<lambda>n. if n = 0 then transition i [''validating''] ''failed'' (Some admin) (Some ''no resolvable recipients'') id s1
             else transition i [''validating''] ''ready'' (Some admin) None (\<lambda>c. c\<lparr>cp_recipient_count := Some n\<rparr>) s1);
           tbody = (case cp_template c of None \<Rightarrow> None | Some t \<Rightarrow> template_body s1 (\<lambda>x. tp_tenant x = cp_tenant c) t) in
       if cp_import_job c \<noteq> None then bind_result (resolvable_import_recipient_count c s1) finish
       else if cp_template c \<noteq> None \<and> tbody = None
       then transition i [''validating''] ''failed'' (Some admin) (Some ''template not found'') id s1
       else bind_result (resolve_recipients (cp_tenant c) (cp_audience c) s1) (\<lambda>rs.
            bind_result (count_resolvable c tbody rs) finish))"

subsection \<open>Starting\<close>

definition campaign_key :: "int \<Rightarrow> int \<Rightarrow> string" where
  "campaign_key i contact_id = ''campaign:'' @ str_int i @ '':'' @ str_int contact_id"

text \<open>\<open>INSERT ... ON CONFLICT (idempotency_key) DO NOTHING\<close>, counting what was created.\<close>

definition insert_message :: "int \<Rightarrow> campaign \<Rightarrow> int \<Rightarrow> utext \<Rightarrow> utext \<Rightarrow> bool \<Rightarrow> nat \<times> sms \<Rightarrow> nat \<times> sms" where
  "insert_message now c contact_id phone rendered suppressed ns =
     (let (n, s) = ns; key = campaign_key (cp_id c) contact_id in
      if \<exists>m\<in>set (sm_messages s). ms_key m = key then (n, s)
      else (n + 1, s\<lparr>sm_messages := sm_messages s @ [\<lparr>ms_id = int (length (sm_messages s)) + 1, ms_tenant = cp_tenant c, ms_campaign = Some (cp_id c),
        ms_contact = Some contact_id, ms_phone = phone, ms_body = rendered, ms_segments = count_segments rendered, ms_priority = ''normal'',
        ms_status = (if suppressed then ''suppressed'' else ''queued''), ms_node = None, ms_assigned_at = None, ms_attempts = 0,
        ms_last_error = None, ms_key = key, ms_created_at = now\<rparr>]\<rparr>))"

definition enqueue_recipient :: "int \<Rightarrow> campaign \<Rightarrow> utext option \<Rightarrow> recipient \<Rightarrow> nat \<times> sms \<Rightarrow> (nat \<times> sms) sms_result" where
  "enqueue_recipient now c tbody r ns =
     bind_result (effective_body c tbody) (\<lambda>b.
       Inr (case render_template b (display_variables (rp_display_name r)) of
          Inl _ \<Rightarrow> ns
        | Inr rendered \<Rightarrow> insert_message now c (rp_contact r) (rp_phone r) rendered (is_suppressed (snd ns) (cp_tenant c) (rp_phone r)) ns))"

definition enqueue_import_row :: "int \<Rightarrow> campaign \<Rightarrow> utext option \<Rightarrow> string \<Rightarrow> int \<Rightarrow> import_row \<Rightarrow> nat \<times> sms \<Rightarrow> (nat \<times> sms) sms_result" where
  "enqueue_import_row now c tbody format job r ns =
     (case ir_phone r of
        None \<Rightarrow> Inl SmsAssertionError
      | Some phone \<Rightarrow>
          let send = (\<lambda>rendered.
                let (contact_id, s1) = get_or_create_import_contact (cp_tenant c) phone job (snd ns) in
                insert_message now c contact_id phone rendered (is_suppressed (snd ns) (cp_tenant c) phone) (fst ns, s1)) in
          if format = ''phone_message'' then (case ir_body r of None \<Rightarrow> Inl SmsAssertionError | Some b \<Rightarrow> Inr (send b))
          else bind_result (effective_body c tbody) (\<lambda>b.
            Inr (case render_template b (display_variables None) of Inl _ \<Rightarrow> ns | Inr rendered \<Rightarrow> send rendered)))"

text \<open>The template of a campaign that starts must exist.\<close>

definition start_template :: "campaign \<Rightarrow> sms \<Rightarrow> utext option sms_result" where
  "start_template c s =
     (case cp_template c of
        None \<Rightarrow> Inr None
      | Some t \<Rightarrow> (case template_body s (\<lambda>_. True) t of None \<Rightarrow> Inl SmsAssertionError | Some b \<Rightarrow> Inr (Some b)))"

definition enqueue_import_messages :: "int \<Rightarrow> campaign \<Rightarrow> int \<Rightarrow> sms \<Rightarrow> (nat \<times> sms) sms_result" where
  "enqueue_import_messages now c job s =
     bind_result (get_import_summary s job None) (\<lambda>summary.
     bind_result (start_template c s) (\<lambda>tbody.
       fold_result (enqueue_import_row now c tbody (ij_format summary) job) (import_recipients s job) (0, s)))"

definition enqueue_audience :: "int \<Rightarrow> campaign \<Rightarrow> sms \<Rightarrow> (nat \<times> sms) sms_result" where
  "enqueue_audience now c s =
     bind_result (start_template c s) (\<lambda>tbody.
     bind_result (resolve_recipients (cp_tenant c) (cp_audience c) s) (\<lambda>rs.
       fold_result (enqueue_recipient now c tbody) rs (0, s)))"

definition start_campaign :: "int \<Rightarrow> int \<Rightarrow> int \<Rightarrow> sms \<Rightarrow> ((campaign \<times> nat) \<times> sms) sms_result" where
  "start_campaign now i admin s =
     (case campaign_by_id s i of
        None \<Rightarrow> Inl (CampaignNotFound i)
      | Some c \<Rightarrow>
          if cp_status c \<notin> {''running'', ''ready'', ''scheduled''} then Inl (InvalidTransition i (cp_status c))
          else let s1 = (if cp_status c = ''running'' then s
                 else record_campaign_event i (Some (cp_status c)) ''running'' (Some admin) None
                   (update_campaign i (\<lambda>c. c\<lparr>cp_status := ''running'', cp_started_at := Some now\<rparr>) s)) in
            bind_result (get_campaign s1 i) (\<lambda>c1.
            bind_result (case cp_import_job c1 of Some j \<Rightarrow> enqueue_import_messages now c1 j s1 | None \<Rightarrow> enqueue_audience now c1 s1) (\<lambda>(n, s2).
              Inr ((c1, n), s2))))"

subsection \<open>Completion\<close>

definition NON_TERMINAL :: "string set" where
  "NON_TERMINAL = {''queued'', ''assigned'', ''sending'', ''unknown''}"

definition has_message :: "sms \<Rightarrow> int \<Rightarrow> string set \<Rightarrow> bool" where
  "has_message s i statuses \<longleftrightarrow> (\<exists>m\<in>set (sm_messages s). ms_campaign m = Some i \<and> ms_status m \<in> statuses)"

definition maybe_complete_campaign :: "int \<Rightarrow> int \<Rightarrow> sms \<Rightarrow> (campaign option \<times> sms) sms_result" where
  "maybe_complete_campaign now i s =
     (case campaign_by_id s i of
        None \<Rightarrow> Inr (None, s)
      | Some c \<Rightarrow>
          if cp_status c \<noteq> ''running'' \<or> has_message s i NON_TERMINAL then Inr (None, s)
          else bind_result (transition i [''running'']
              (if has_message s i {''failed'', ''dead_letter''} then ''completed_with_errors'' else ''completed'') None None
              (\<lambda>c. c\<lparr>cp_completed_at := Some now\<rparr>) s) (\<lambda>(c1, s1). Inr (Some c1, s1)))"

end
