(* ===== verification/Sms_Messages.thy ===== *)
theory Sms_Messages
  imports Sms_Campaigns "HOL-Library.Product_Lexorder"
begin

text \<open>
  The delivery of messages (\<open>packages/core/sms/messages.py\<close>): nodes claim queued messages, start them and report
  what happened; a sweep takes back what a node left lying. \<open>busy\<close> are the rows another transaction holds a lock on,
  which \<open>SKIP LOCKED\<close> passes over.
\<close>

definition RETRYABLE_ERROR_CLASSES :: "string set" where
  "RETRYABLE_ERROR_CLASSES = {''temporary'', ''network'', ''timeout'', ''node_failure'', ''unknown''}"

definition MAX_DELIVERY_ATTEMPTS :: int where "MAX_DELIVERY_ATTEMPTS = 3"
definition IN_FLIGHT_TIMEOUT :: int where "IN_FLIGHT_TIMEOUT = minutes_us 5"
definition CLAIM_CANDIDATE_SHORTLIST_SIZE :: nat where "CLAIM_CANDIDATE_SHORTLIST_SIZE = 20"

definition priority_rank :: "string \<Rightarrow> nat" where
  "priority_rank p = (if p = ''critical'' then 0 else if p = ''high'' then 1 else if p = ''normal'' then 2 else 3)"

definition message_by_id :: "sms \<Rightarrow> int \<Rightarrow> sms_message option" where
  "message_by_id s i = find (\<lambda>m. ms_id m = i) (sm_messages s)"

definition update_message :: "int \<Rightarrow> (sms_message \<Rightarrow> sms_message) \<Rightarrow> sms \<Rightarrow> sms" where
  "update_message i = update_messages (\<lambda>m. ms_id m = i)"

subsection \<open>Claiming\<close>

text \<open>A message of no campaign is always offered; a campaign can be paused, or bound to a fleet.\<close>

definition offered :: "sms \<Rightarrow> int \<Rightarrow> string \<Rightarrow> sms_message \<Rightarrow> bool" where
  "offered s tenant fleet m \<longleftrightarrow> ms_tenant m = tenant
     \<and> (case Option.bind (ms_campaign m) (campaign_by_id s) of
          None \<Rightarrow> True
        | Some c \<Rightarrow> cp_status c \<noteq> ''paused'' \<and> (cp_fleet_group c = None \<or> cp_fleet_group c = Some fleet))"

text \<open>
  \<open>ROW_NUMBER() OVER (PARTITION BY campaign_id ORDER BY created_at)\<close> over all offered messages; rows of one time come
  in the order of their ids, a choice the query leaves open.
\<close>

definition campaign_seq :: "sms \<Rightarrow> int \<Rightarrow> string \<Rightarrow> sms_message \<Rightarrow> nat" where
  "campaign_seq s tenant fleet m =
     length (filter (\<lambda>x. offered s tenant fleet x \<and> ms_campaign x = ms_campaign m
       \<and> (ms_created_at x < ms_created_at m \<or> ms_created_at x = ms_created_at m \<and> ms_id x \<le> ms_id m)) (sm_messages s))"

text \<open>In the order by priority, then by place in the campaign, then by id.\<close>

definition claim_rank :: "sms \<Rightarrow> int \<Rightarrow> string \<Rightarrow> sms_message \<Rightarrow> nat \<times> nat \<times> int" where
  "claim_rank s tenant fleet m = (priority_rank (ms_priority m), campaign_seq s tenant fleet m, ms_id m)"

definition claim_candidates :: "sms \<Rightarrow> int \<Rightarrow> string \<Rightarrow> int list" where
  "claim_candidates s tenant fleet =
     map ms_id (take CLAIM_CANDIDATE_SHORTLIST_SIZE (sort_key (claim_rank s tenant fleet)
       (filter (\<lambda>m. offered s tenant fleet m \<and> ms_status m = ''queued'') (sm_messages s))))"

definition still_queued :: "int set \<Rightarrow> sms \<Rightarrow> int \<Rightarrow> bool" where
  "still_queued busy s i \<longleftrightarrow> i \<notin> busy \<and> (\<exists>m\<in>set (sm_messages s). ms_id m = i \<and> ms_status m = ''queued'')"

text \<open>The claim proper: the first candidate that is still queued and not locked.\<close>

definition claim_from :: "int \<Rightarrow> int \<Rightarrow> int set \<Rightarrow> int list \<Rightarrow> sms \<Rightarrow> (sms_message option \<times> sms) sms_result" where
  "claim_from now node_id busy candidate_ids s =
     (case find (still_queued busy s) candidate_ids of
        None \<Rightarrow> Inr (None, s)
      | Some i \<Rightarrow>
          let s1 = update_message i (\<lambda>m. m\<lparr>ms_status := ''assigned'', ms_node := Some node_id, ms_assigned_at := Some now, ms_attempts := ms_attempts m + 1\<rparr>) s in
          case message_by_id s1 i of
            None \<Rightarrow> Inr (None, s)
          | Some m \<Rightarrow>
              if \<exists>a\<in>set (sm_attempts s1). at_message a = i \<and> at_number a = ms_attempts m then Inl SmsUniqueViolation
              else Inr (Some m, s1\<lparr>sm_attempts := sm_attempts s1 @ [\<lparr>at_message = i, at_node = node_id, at_number = ms_attempts m,
                at_outcome = ''accepted'', at_error = None, at_response = None\<rparr>]\<rparr>))"

definition claim_next_message :: "int \<Rightarrow> int \<Rightarrow> delivery_node \<Rightarrow> int set \<Rightarrow> sms \<Rightarrow> (sms_message option \<times> sms) sms_result" where
  "claim_next_message now tenant node busy s =
     (if dn_max_jobs node \<le> current_assigned_count s (dn_id node) then Inr (None, s)
      else claim_from now (dn_id node) busy (claim_candidates s tenant (dn_fleet_group node)) s)"

text \<open>The node's request: only an active node is given work.\<close>

definition node_fetch_job :: "int \<Rightarrow> delivery_node \<Rightarrow> int set \<Rightarrow> sms \<Rightarrow> (sms_message option \<times> sms) sms_result" where
  "node_fetch_job now node busy s =
     (if dn_status node \<noteq> ''active'' then Inr (None, s) else claim_next_message now (dn_tenant node) node busy s)"

subsection \<open>Starting and reporting\<close>

definition update_attempt :: "int \<Rightarrow> int \<Rightarrow> (attempt \<Rightarrow> attempt) \<Rightarrow> sms \<Rightarrow> sms" where
  "update_attempt i n f s = s\<lparr>sm_attempts := map (\<lambda>a. if at_message a = i \<and> at_number a = n then f a else a) (sm_attempts s)\<rparr>"

definition start_message :: "int \<Rightarrow> int \<Rightarrow> sms \<Rightarrow> (sms_message \<times> sms) sms_result" where
  "start_message i node_id s =
     (case message_by_id s i of
        None \<Rightarrow> Inl (MessageNotFound i)
      | Some m \<Rightarrow>
          if ms_node m \<noteq> Some node_id \<or> ms_status m \<noteq> ''assigned'' then Inl (NotOwnedByNode i node_id)
          else Inr (m\<lparr>ms_status := ''sending''\<rparr>,
            update_attempt i (ms_attempts m) (\<lambda>a. a\<lparr>at_outcome := ''started''\<rparr>) (update_message i (\<lambda>m. m\<lparr>ms_status := ''sending''\<rparr>) s)))"

definition can_retry :: "sms_message \<Rightarrow> string option \<Rightarrow> bool" where
  "can_retry m error_class \<longleftrightarrow> ms_attempts m < MAX_DELIVERY_ATTEMPTS
     \<and> (case error_class of None \<Rightarrow> True | Some e \<Rightarrow> e \<in> RETRYABLE_ERROR_CLASSES)"

definition complete_after :: "int \<Rightarrow> int option \<Rightarrow> bool \<Rightarrow> sms \<Rightarrow> sms sms_result" where
  "complete_after now campaign_id ended s =
     (case campaign_id of
        Some c \<Rightarrow> if ended then bind_result (maybe_complete_campaign now c s) (\<lambda>(x, s1). Inr s1) else Inr s
      | None \<Rightarrow> Inr s)"

definition report_result :: "int \<Rightarrow> int \<Rightarrow> int \<Rightarrow> string \<Rightarrow> string option \<Rightarrow> string option \<Rightarrow> sms \<Rightarrow> (sms_message \<times> sms) sms_result" where
  "report_result now i node_id outcome error_class response s =
     (case message_by_id s i of
        None \<Rightarrow> Inl (MessageNotFound i)
      | Some m \<Rightarrow>
          if ms_node m \<noteq> Some node_id then Inl (NotOwnedByNode i node_id)
          else
            let new_status = (if outcome = ''delivered'' then ''delivered'' else if can_retry m error_class then ''queued'' else ''dead_letter'');
                settle = (\<lambda>m. m\<lparr>ms_status := new_status, ms_node := None, ms_last_error := error_class\<rparr>);
                s1 = update_attempt i (ms_attempts m) (\<lambda>a. a\<lparr>at_outcome := outcome, at_error := error_class, at_response := response\<rparr>) s in
            bind_result (complete_after now (ms_campaign m) (new_status \<in> {''delivered'', ''dead_letter''}) (update_message i settle s1)) (\<lambda>s2.
              Inr (settle m, s2)))"

subsection \<open>The sweep\<close>

definition upsert_attempt :: "sms_message \<Rightarrow> int \<Rightarrow> sms \<Rightarrow> sms" where
  "upsert_attempt m node_id s =
     (if \<exists>a\<in>set (sm_attempts s). at_message a = ms_id m \<and> at_number a = ms_attempts m
      then update_attempt (ms_id m) (ms_attempts m) (\<lambda>a. a\<lparr>at_outcome := ''unknown'', at_error := Some ''timeout''\<rparr>) s
      else s\<lparr>sm_attempts := sm_attempts s @ [\<lparr>at_message = ms_id m, at_node = node_id, at_number = ms_attempts m, at_outcome = ''unknown'',
        at_error = Some ''timeout'', at_response = None\<rparr>]\<rparr>)"

definition reconcile_one :: "int \<Rightarrow> sms_message \<Rightarrow> sms \<Rightarrow> sms sms_result" where
  "reconcile_one now m s =
     (case ms_node m of
        None \<Rightarrow> Inl SmsAssertionError
      | Some node_id \<Rightarrow>
          let new_status = (if ms_attempts m < MAX_DELIVERY_ATTEMPTS then ''queued'' else ''dead_letter'') in
          complete_after now (ms_campaign m) (new_status = ''dead_letter'')
            (update_message (ms_id m) (\<lambda>m. m\<lparr>ms_status := new_status, ms_node := None, ms_last_error := Some ''timeout''\<rparr>) (upsert_attempt m node_id s)))"

definition stale :: "int \<Rightarrow> sms_message \<Rightarrow> bool" where
  "stale cutoff m \<longleftrightarrow> ms_status m \<in> IN_FLIGHT \<and> (case ms_assigned_at m of None \<Rightarrow> False | Some t \<Rightarrow> t < cutoff)"

definition reconcile_stale_in_flight :: "int \<Rightarrow> int \<Rightarrow> int \<Rightarrow> int set \<Rightarrow> sms \<Rightarrow> (nat \<times> sms) sms_result" where
  "reconcile_stale_in_flight now tenant stale_after busy s =
     (let rows = filter (\<lambda>m. ms_tenant m = tenant \<and> stale (now - stale_after) m \<and> ms_id m \<notin> busy) (sm_messages s) in
      bind_result (fold_result (reconcile_one now) rows s) (\<lambda>s1. Inr (length rows, s1)))"

definition list_messages :: "sms \<Rightarrow> int \<Rightarrow> int option \<Rightarrow> string option \<Rightarrow> nat \<Rightarrow> sms_message list" where
  "list_messages s tenant campaign_id status limit =
     take limit (rev (filter (\<lambda>m. ms_tenant m = tenant \<and> (campaign_id = None \<or> ms_campaign m = campaign_id)
       \<and> (case status of None \<Rightarrow> True | Some st \<Rightarrow> ms_status m = st)) (sm_messages s)))"

end
