(* ===== verification/Sms_Keeps.thy ===== *)
theory Sms_Keeps
  imports Sms_Messages
begin

text \<open>
  What always holds of the tables of the SMS control plane, what never changes in them, and how the basic changes keep both:
  a campaign moved on, messages moved on with their attempts, a message or a contact added.
\<close>

subsection \<open>Messages and attempts\<close>

definition TERMINAL :: "string set" where
  "TERMINAL = {''delivered'', ''dead_letter'', ''suppressed'', ''cancelled''}"

definition message_ok :: "sms_message \<Rightarrow> bool" where
  "message_ok m \<longleftrightarrow> ms_status m \<in> insert ''queued'' IN_FLIGHT \<union> TERMINAL
     \<and> (ms_node m \<noteq> None \<longleftrightarrow> ms_status m \<in> IN_FLIGHT)
     \<and> 0 \<le> ms_attempts m \<and> ms_attempts m \<le> MAX_DELIVERY_ATTEMPTS
     \<and> (ms_status m = ''queued'' \<longrightarrow> ms_attempts m < MAX_DELIVERY_ATTEMPTS)
     \<and> (ms_status m \<in> IN_FLIGHT \<union> {''delivered'', ''dead_letter''} \<longrightarrow> 1 \<le> ms_attempts m)
     \<and> (ms_status m = ''suppressed'' \<longrightarrow> ms_attempts m = 0)
     \<and> ms_segments m = count_segments (ms_body m)"

text \<open>Only the last attempt of a message can be open, while the message is in flight, or have delivered it.\<close>

definition attempt_fits :: "sms_message \<Rightarrow> attempt \<Rightarrow> bool" where
  "attempt_fits m a \<longleftrightarrow> at_outcome a \<in> {''accepted'', ''started'', ''delivered'', ''failed'', ''unknown''}
     \<and> (at_outcome a = ''delivered'' \<longleftrightarrow> at_number a = ms_attempts m \<and> ms_status m = ''delivered'')
     \<and> (at_outcome a \<in> {''accepted'', ''started''} \<longleftrightarrow> at_number a = ms_attempts m \<and> ms_status m \<in> IN_FLIGHT)
     \<and> (at_number a = ms_attempts m \<and> ms_status m \<in> IN_FLIGHT \<longrightarrow> ms_node m = Some (at_node a) \<and> (at_outcome a = ''accepted'' \<longleftrightarrow> ms_status m = ''assigned''))"

definition attempts_of :: "attempt list \<Rightarrow> int \<Rightarrow> attempt list" where
  "attempts_of ats i = filter (\<lambda>a. at_message a = i) ats"

definition attempts_fit :: "sms_message \<Rightarrow> attempt list \<Rightarrow> bool" where
  "attempts_fit m ats \<longleftrightarrow> map at_number ats = [1..ms_attempts m] \<and> (\<forall>a\<in>set ats. attempt_fits m a)"

subsection \<open>Campaigns\<close>

definition STARTED :: "string set" where
  "STARTED = {''running'', ''paused'', ''completed'', ''completed_with_errors'', ''cancelled''}"

definition ENDED :: "string set" where
  "ENDED = {''completed'', ''completed_with_errors'', ''cancelled''}"

text \<open>The life of a campaign, as the head of \<open>campaigns.py\<close> draws it.\<close>

definition LIFECYCLE :: "(string option \<times> string) set" where
  "LIFECYCLE = {(None, ''draft''), (Some ''draft'', ''validating''), (Some ''failed'', ''validating''), (Some ''validating'', ''ready''),
     (Some ''validating'', ''failed''), (Some ''ready'', ''scheduled''), (Some ''ready'', ''running''), (Some ''scheduled'', ''running''),
     (Some ''running'', ''paused''), (Some ''paused'', ''running''), (Some ''running'', ''completed''), (Some ''running'', ''completed_with_errors''),
     (Some ''draft'', ''cancelled''), (Some ''ready'', ''cancelled''), (Some ''scheduled'', ''cancelled''), (Some ''running'', ''cancelled''),
     (Some ''paused'', ''cancelled'')}"

fun life :: "string option \<Rightarrow> campaign_event list \<Rightarrow> string \<Rightarrow> bool" where
  "life before [] now \<longleftrightarrow> before = Some now"
| "life before (e # es) now \<longleftrightarrow> ce_from e = before \<and> (before, ce_to e) \<in> LIFECYCLE \<and> life (Some (ce_to e)) es now"

lemma life_append: "life before es x \<Longrightarrow> ce_from e = Some x \<Longrightarrow> (Some x, ce_to e) \<in> LIFECYCLE \<Longrightarrow> life before (es @ [e]) (ce_to e)"
  by (induction es arbitrary: before) auto

definition events_of :: "campaign_event list \<Rightarrow> int \<Rightarrow> campaign_event list" where
  "events_of es i = filter (\<lambda>e. ce_campaign e = i) es"

definition statuses_of :: "sms_message list \<Rightarrow> int \<Rightarrow> string set" where
  "statuses_of ms i = ms_status ` {m \<in> set ms. ms_campaign m = Some i}"

definition campaign_ok :: "sms_message list \<Rightarrow> campaign_event list \<Rightarrow> campaign \<Rightarrow> bool" where
  "campaign_ok ms es c \<longleftrightarrow> life None (events_of es (cp_id c)) (cp_status c)
     \<and> (cp_status c = ''completed'' \<longrightarrow> statuses_of ms (cp_id c) \<subseteq> {''delivered'', ''suppressed''})
     \<and> (cp_status c = ''completed_with_errors'' \<longrightarrow> statuses_of ms (cp_id c) \<subseteq> {''delivered'', ''suppressed'', ''dead_letter''}
          \<and> ''dead_letter'' \<in> statuses_of ms (cp_id c))"

text \<open>A message belongs to a campaign that has started and to a contact with its number; its key says which.\<close>

definition placed :: "campaign list \<Rightarrow> contact list \<Rightarrow> sms_message \<Rightarrow> bool" where
  "placed cs ks m \<longleftrightarrow> (\<exists>c\<in>set cs. \<exists>k\<in>set ks. ms_campaign m = Some (cp_id c) \<and> ms_tenant m = cp_tenant c \<and> cp_status c \<in> STARTED
     \<and> (ms_status m = ''cancelled'' \<longrightarrow> cp_status c = ''cancelled'')
     \<and> ms_contact m = Some (ct_id k) \<and> ms_tenant m = ct_tenant k \<and> ms_phone m = ct_phone k \<and> ms_key m = campaign_key (cp_id c) (ct_id k))"

subsection \<open>The invariant\<close>

definition contacts_ok :: "contact list \<Rightarrow> bool" where
  "contacts_ok ks \<longleftrightarrow> map ct_id ks = map (\<lambda>n. int n + 1) [0..<length ks] \<and> distinct (map (\<lambda>k. (ct_tenant k, ct_phone k)) ks)"

definition messages_ok :: "campaign list \<Rightarrow> contact list \<Rightarrow> attempt list \<Rightarrow> sms_message list \<Rightarrow> bool" where
  "messages_ok cs ks ats ms \<longleftrightarrow> map ms_id ms = map (\<lambda>n. int n + 1) [0..<length ms] \<and> distinct (map ms_key ms)
     \<and> (\<forall>m\<in>set ms. message_ok m \<and> placed cs ks m \<and> attempts_fit m (attempts_of ats (ms_id m)))
     \<and> (\<forall>a\<in>set ats. at_message a \<in> ms_id ` set ms)"

definition campaigns_ok :: "sms_message list \<Rightarrow> campaign_event list \<Rightarrow> campaign list \<Rightarrow> bool" where
  "campaigns_ok ms es cs \<longleftrightarrow> map cp_id cs = map (\<lambda>n. int n + 1) [0..<length cs] \<and> (\<forall>c\<in>set cs. campaign_ok ms es c)
     \<and> (\<forall>e\<in>set es. ce_campaign e \<in> cp_id ` set cs)"

definition sms_ok :: "sms \<Rightarrow> bool" where
  "sms_ok s \<longleftrightarrow> contacts_ok (sm_contacts s) \<and> messages_ok (sm_campaigns s) (sm_contacts s) (sm_attempts s) (sm_messages s)
     \<and> campaigns_ok (sm_messages s) (sm_events s) (sm_campaigns s)"

subsection \<open>What is kept\<close>

definition message_identity :: "sms_message \<Rightarrow> sms_message" where
  "message_identity m = m\<lparr>ms_status := [], ms_node := None, ms_assigned_at := None, ms_attempts := 0, ms_last_error := None\<rparr>"

definition message_kept :: "sms_message \<Rightarrow> sms_message \<Rightarrow> bool" where
  "message_kept m n \<longleftrightarrow> message_identity n = message_identity m \<and> ms_attempts m \<le> ms_attempts n
     \<and> (ms_status m \<in> TERMINAL \<longrightarrow> ms_status n = ms_status m \<and> ms_attempts n = ms_attempts m)"

definition campaign_identity :: "campaign \<Rightarrow> campaign" where
  "campaign_identity c = c\<lparr>cp_status := [], cp_recipient_count := None, cp_scheduled_at := None, cp_started_at := None, cp_completed_at := None\<rparr>"

definition campaign_kept :: "campaign \<Rightarrow> campaign \<Rightarrow> bool" where
  "campaign_kept c d \<longleftrightarrow> campaign_identity d = campaign_identity c \<and> (cp_status c \<in> ENDED \<longrightarrow> cp_status d = cp_status c)
     \<and> (cp_status c \<in> STARTED \<longrightarrow> cp_status d \<in> STARTED)"

definition contact_kept :: "contact \<Rightarrow> contact \<Rightarrow> bool" where
  "contact_kept k l \<longleftrightarrow> ct_id l = ct_id k \<and> ct_tenant l = ct_tenant k \<and> ct_phone l = ct_phone k"

text \<open>The rows of a table are carried over one by one; new ones may follow.\<close>

definition rows_kept :: "('a \<Rightarrow> 'a \<Rightarrow> bool) \<Rightarrow> 'a list \<Rightarrow> 'a list \<Rightarrow> bool" where
  "rows_kept R xs ys \<longleftrightarrow> length xs \<le> length ys \<and> list_all2 R xs (take (length xs) ys)"

definition sms_kept :: "sms \<Rightarrow> sms \<Rightarrow> bool" where
  "sms_kept s t \<longleftrightarrow> rows_kept message_kept (sm_messages s) (sm_messages t) \<and> rows_kept campaign_kept (sm_campaigns s) (sm_campaigns t)
     \<and> rows_kept contact_kept (sm_contacts s) (sm_contacts t) \<and> take (length (sm_events s)) (sm_events t) = sm_events s"

lemma rows_keptD: "rows_kept R xs ys \<Longrightarrow> x \<in> set xs \<Longrightarrow> \<exists>y\<in>set ys. R x y"
  unfolding rows_kept_def by (metis in_set_conv_nth in_set_takeD list_all2_conv_all_nth)

lemma rows_kept_refl: "(\<And>x. R x x) \<Longrightarrow> rows_kept R xs xs"
  by (simp add: rows_kept_def list.rel_refl)

lemma rows_kept_trans:
  assumes "rows_kept R xs ys" "rows_kept R ys zs" and tr: "\<And>x y z. R x y \<Longrightarrow> R y z \<Longrightarrow> R x z" shows "rows_kept R xs zs"
proof -
  have "list_all2 R (take (length xs) ys) (take (length xs) zs)"
    using assms(1,2) list_all2_takeI [of R ys "take (length ys) zs" "length xs"] by (simp add: rows_kept_def min_def)
  then have "list_all2 R xs (take (length xs) zs)" using assms(1) list_all2_trans [of R R R] tr unfolding rows_kept_def by blast
  then show ?thesis using assms(1,2) by (simp add: rows_kept_def)
qed

lemma rows_kept_map: "(\<And>x. x \<in> set xs \<Longrightarrow> R x (f x)) \<Longrightarrow> rows_kept R xs (map f xs)"
  by (simp add: rows_kept_def list_all2_conv_all_nth)

lemma rows_kept_append: "(\<And>x. R x x) \<Longrightarrow> rows_kept R xs (xs @ ys)"
  by (simp add: rows_kept_def list.rel_refl)

lemma message_kept_refl [simp]: "message_kept m m" by (simp add: message_kept_def)
lemma campaign_kept_refl [simp]: "campaign_kept c c" by (simp add: campaign_kept_def)
lemma contact_kept_refl [simp]: "contact_kept k k" by (simp add: contact_kept_def)

lemma sms_kept_refl: "sms_kept s s"
  by (simp add: sms_kept_def rows_kept_refl)

lemma sms_kept_trans: "sms_kept s t \<Longrightarrow> sms_kept t u \<Longrightarrow> sms_kept s u"
proof -
  assume st: "sms_kept s t" and tu: "sms_kept t u"
  have ev: "take (length (sm_events s)) (sm_events u) = sm_events s"
    using st tu unfolding sms_kept_def by (metis take_take min.absorb1 length_take min.cobounded2 min_def)
  have "rows_kept message_kept (sm_messages s) (sm_messages u)"
    by (rule rows_kept_trans [of _ _ "sm_messages t"]) (use st tu in \<open>simp_all add: sms_kept_def message_kept_def\<close>)
  moreover have "rows_kept campaign_kept (sm_campaigns s) (sm_campaigns u)"
    by (rule rows_kept_trans [of _ _ "sm_campaigns t"]) (use st tu in \<open>simp_all add: sms_kept_def campaign_kept_def\<close>)
  moreover have "rows_kept contact_kept (sm_contacts s) (sm_contacts u)"
    by (rule rows_kept_trans [of _ _ "sm_contacts t"]) (use st tu in \<open>simp_all add: sms_kept_def contact_kept_def\<close>)
  ultimately show ?thesis using ev by (simp add: sms_kept_def)
qed

definition sms_step_ok :: "sms \<Rightarrow> sms \<Rightarrow> bool" where
  "sms_step_ok s t \<longleftrightarrow> sms_ok t \<and> sms_kept s t"

lemma sms_step_ok_refl: "sms_ok s \<Longrightarrow> sms_step_ok s s" by (simp add: sms_step_ok_def sms_kept_refl)

lemma sms_step_ok_trans: "sms_step_ok s t \<Longrightarrow> sms_step_ok t u \<Longrightarrow> sms_step_ok s u"
  using sms_kept_trans by (auto simp: sms_step_ok_def)

end
