(* ===== verification/Sms_Moves.thy ===== *)
theory Sms_Moves
  imports Sms_Keeps
begin

text \<open>The basic changes of the SMS tables and the invariant: each operation is a combination of these.\<close>

lemma sms_okD:
  assumes "sms_ok s"
  shows "contacts_ok (sm_contacts s)" "messages_ok (sm_campaigns s) (sm_contacts s) (sm_attempts s) (sm_messages s)"
    "campaigns_ok (sm_messages s) (sm_events s) (sm_campaigns s)"
  using assms by (simp_all add: sms_ok_def)

lemma messages_okD:
  assumes "messages_ok cs ks ats ms"
  shows "map ms_id ms = map (\<lambda>n. int n + 1) [0..<length ms]" "distinct (map ms_key ms)" "\<And>m. m \<in> set ms \<Longrightarrow> message_ok m"
    "\<And>m. m \<in> set ms \<Longrightarrow> placed cs ks m" "\<And>m. m \<in> set ms \<Longrightarrow> attempts_fit m (attempts_of ats (ms_id m))"
    "\<And>a. a \<in> set ats \<Longrightarrow> at_message a \<in> ms_id ` set ms"
  using assms by (simp_all add: messages_ok_def)

lemma campaigns_okD:
  assumes "campaigns_ok ms es cs"
  shows "map cp_id cs = map (\<lambda>n. int n + 1) [0..<length cs]" "\<And>c. c \<in> set cs \<Longrightarrow> campaign_ok ms es c"
    "\<And>e. e \<in> set es \<Longrightarrow> ce_campaign e \<in> cp_id ` set cs"
  using assms by (simp_all add: campaigns_ok_def)

lemma message_identityD:
  assumes "message_identity n = message_identity m"
  shows "ms_id n = ms_id m" "ms_tenant n = ms_tenant m" "ms_campaign n = ms_campaign m" "ms_contact n = ms_contact m" "ms_phone n = ms_phone m"
    "ms_body n = ms_body m" "ms_segments n = ms_segments m" "ms_priority n = ms_priority m" "ms_key n = ms_key m" "ms_created_at n = ms_created_at m"
  using assms by (auto simp: message_identity_def sms_message.ext_inject dest!: arg_cong [of _ _ "\<lambda>m. (ms_id m, ms_tenant m, ms_campaign m, ms_contact m,
    ms_phone m, ms_body m, ms_segments m, ms_priority m, ms_key m, ms_created_at m)"])

lemma campaign_identityD:
  assumes "campaign_identity d = campaign_identity c"
  shows "cp_id d = cp_id c" "cp_tenant d = cp_tenant c" "cp_name d = cp_name c" "cp_template d = cp_template c"
    "cp_body_override d = cp_body_override c" "cp_audience d = cp_audience c" "cp_fleet_group d = cp_fleet_group c" "cp_import_job d = cp_import_job c"
  using assms by (auto simp: campaign_identity_def dest!: arg_cong [of _ _ "\<lambda>c. (cp_id c, cp_tenant c, cp_name c, cp_template c,
    cp_body_override c, cp_audience c, cp_fleet_group c, cp_import_job c)"])

lemma campaign_of: "sms_ok s \<Longrightarrow> campaign_by_id s i = Some c \<Longrightarrow> c \<in> set (sm_campaigns s) \<and> cp_id c = i"
  by (auto simp: campaign_by_id_def find_Some_iff)

lemma campaign_unique: "sms_ok s \<Longrightarrow> c \<in> set (sm_campaigns s) \<Longrightarrow> d \<in> set (sm_campaigns s) \<Longrightarrow> cp_id c = cp_id d \<Longrightarrow> c = d"
  using numbered_unique [OF campaigns_okD(1) [OF sms_okD(3)]] by blast

lemma message_unique: "sms_ok s \<Longrightarrow> m \<in> set (sm_messages s) \<Longrightarrow> n \<in> set (sm_messages s) \<Longrightarrow> ms_id m = ms_id n \<Longrightarrow> m = n"
  using numbered_unique [OF messages_okD(1) [OF sms_okD(2)]] by blast

lemma message_of: "message_by_id s i = Some m \<Longrightarrow> m \<in> set (sm_messages s) \<and> ms_id m = i"
  by (auto simp: message_by_id_def find_Some_iff)

text \<open>Only what a table holds counts, not the rest of the state.\<close>

lemma sms_ok_rest:
  assumes "sms_ok s" "sm_contacts t = sm_contacts s" "sm_messages t = sm_messages s" "sm_attempts t = sm_attempts s"
    "sm_campaigns t = sm_campaigns s" "sm_events t = sm_events s"
  shows "sms_step_ok s t"
  using assms by (simp add: sms_step_ok_def sms_ok_def sms_kept_def rows_kept_refl)

subsection \<open>Messages\<close>

text \<open>The campaign of a message that is not over has not completed, so no change of such a message can break it.\<close>

definition message_moves :: "campaign list \<Rightarrow> sms_message \<Rightarrow> sms_message \<Rightarrow> bool" where
  "message_moves cs m n \<longleftrightarrow> n = m \<or> message_identity n = message_identity m \<and> message_ok n \<and> ms_status m \<notin> TERMINAL \<and> ms_attempts m \<le> ms_attempts n
     \<and> (ms_status n = ''cancelled'' \<longrightarrow> (\<forall>c\<in>set cs. ms_campaign m = Some (cp_id c) \<longrightarrow> cp_status c = ''cancelled''))"

lemma message_movesD: "message_moves cs m n \<Longrightarrow> message_identity n = message_identity m \<and> message_kept m n"
  by (auto simp: message_moves_def message_kept_def)

lemma placed_moves: "placed cs ks m \<Longrightarrow> message_moves cs m n \<Longrightarrow> placed cs ks n"
proof -
  assume p: "placed cs ks m" and v: "message_moves cs m n"
  note i = message_identityD [OF conjunct1 [OF message_movesD [OF v]]]
  obtain c k where ck: "c \<in> set cs" "k \<in> set ks" "ms_campaign m = Some (cp_id c)" "ms_tenant m = cp_tenant c" "cp_status c \<in> STARTED"
    "ms_status m = ''cancelled'' \<longrightarrow> cp_status c = ''cancelled''"
    "ms_contact m = Some (ct_id k)" "ms_tenant m = ct_tenant k" "ms_phone m = ct_phone k" "ms_key m = campaign_key (cp_id c) (ct_id k)"
    using p unfolding placed_def by blast
  have "ms_status n = ''cancelled'' \<longrightarrow> cp_status c = ''cancelled''" using v ck(1,3,6) by (auto simp: message_moves_def)
  then show ?thesis using ck i unfolding placed_def by metis
qed

lemma statuses_moves:
  assumes "\<And>m. m \<in> set ms \<Longrightarrow> message_moves cs m (g m)" "statuses_of ms i \<subseteq> TERMINAL"
  shows "statuses_of (map g ms) i = statuses_of ms i"
proof -
  have same: "ms_campaign (g m) = ms_campaign m" if "m \<in> set ms" for m
    using message_identityD(3) message_movesD [OF assms(1) [OF that]] by blast
  moreover have "g m = m" if "m \<in> set ms" "ms_campaign m = Some i" for m
    using assms(1) [OF that(1)] assms(2) that by (auto simp: message_moves_def statuses_of_def)
  ultimately show ?thesis unfolding statuses_of_def by (auto simp: image_iff) (metis)+
qed

lemma campaign_moves:
  assumes ok: "campaign_ok ms es c" and st: "\<And>i. statuses_of ms i \<subseteq> TERMINAL \<Longrightarrow> statuses_of ms' i = statuses_of ms i"
  shows "campaign_ok ms' es c"
proof -
  have "cp_status c = ''completed'' \<or> cp_status c = ''completed_with_errors'' \<Longrightarrow> statuses_of ms' (cp_id c) = statuses_of ms (cp_id c)"
    using ok by (intro st) (auto simp: campaign_ok_def TERMINAL_def)
  then show ?thesis using ok unfolding campaign_ok_def by metis
qed

lemma messages_update_ok:
  assumes ok: "sms_ok s" and t: "t = s\<lparr>sm_messages := map g (sm_messages s), sm_attempts := ats\<rparr>"
    and g: "\<And>m. m \<in> set (sm_messages s) \<Longrightarrow> message_moves (sm_campaigns s) m (g m)"
    and fit: "\<And>m. m \<in> set (sm_messages s) \<Longrightarrow> attempts_fit (g m) (attempts_of ats (ms_id m))"
    and known: "\<And>a. a \<in> set ats \<Longrightarrow> at_message a \<in> ms_id ` set (sm_messages s)"
  shows "sms_step_ok s t"
proof -
  note d = messages_okD [OF sms_okD(2) [OF ok]] and e = campaigns_okD [OF sms_okD(3) [OF ok]]
  have i: "ms_id (g m) = ms_id m" "ms_key (g m) = ms_key m" if "m \<in> set (sm_messages s)" for m
    using message_identityD message_movesD [OF g [OF that]] by blast+
  have ids: "map ms_id (map g (sm_messages s)) = map ms_id (sm_messages s)" "map ms_key (map g (sm_messages s)) = map ms_key (sm_messages s)"
    using i by simp_all
  have ok1: "message_ok (g m)" if "m \<in> set (sm_messages s)" for m using g [OF that] d(3) [OF that] by (auto simp: message_moves_def)
  have pl: "placed (sm_campaigns s) (sm_contacts s) (g m)" if "m \<in> set (sm_messages s)" for m by (rule placed_moves [OF d(4) [OF that] g [OF that]])
  have known1: "\<And>a. a \<in> set ats \<Longrightarrow> at_message a \<in> ms_id ` set (map g (sm_messages s))"
    using known ids(1) by (metis set_map)
  have ms: "messages_ok (sm_campaigns s) (sm_contacts s) ats (map g (sm_messages s))"
    unfolding messages_ok_def ids using d(1,2) ok1 pl fit i(1) known1 by simp
  have cs: "campaigns_ok (map g (sm_messages s)) (sm_events s) (sm_campaigns s)"
    unfolding campaigns_ok_def using e(1,3) campaign_moves [OF e(2) statuses_moves [OF g]] by simp
  have "rows_kept message_kept (sm_messages s) (map g (sm_messages s))" by (rule rows_kept_map) (use message_movesD g in blast)
  then show ?thesis using ms cs sms_okD(1) [OF ok] unfolding t sms_step_ok_def sms_ok_def sms_kept_def by (simp add: rows_kept_refl)
qed

text \<open>A message that stays in the table unchanged, and one whose last attempt is settled.\<close>

lemma attempts_of_other:
  assumes "\<And>a. at_message (f a) = at_message a" "i \<noteq> j"
  shows "attempts_of (map (\<lambda>a. if at_message a = i \<and> at_number a = n then f a else a) ats) j = attempts_of ats j"
  using assms unfolding attempts_of_def by (induction ats) auto

lemma attempts_of_same:
  assumes "\<And>a. at_message (f a) = at_message a"
  shows "attempts_of (map (\<lambda>a. if at_message a = i \<and> at_number a = n then f a else a) ats) i
    = map (\<lambda>a. if at_number a = n then f a else a) (attempts_of ats i)"
  using assms unfolding attempts_of_def by (induction ats) auto

lemma last_attempt:
  assumes "attempts_fit m ats" "1 \<le> ms_attempts m" shows "\<exists>a\<in>set ats. at_number a = ms_attempts m"
proof -
  have "at_number ` set ats = {1..ms_attempts m}" using assms(1) unfolding attempts_fit_def by (metis set_map set_upto)
  then have "ms_attempts m \<in> at_number ` set ats" using assms(2) by simp
  then show ?thesis by force
qed

lemma attempts_fit_settled:
  assumes fit: "attempts_fit m ats" and same: "ms_attempts n = ms_attempts m" and f: "\<And>a. at_number (f a) = at_number a"
    and fl: "\<And>a. a \<in> set ats \<Longrightarrow> at_number a = ms_attempts m \<Longrightarrow> attempt_fits m a \<Longrightarrow> attempt_fits n (f a)"
  shows "attempts_fit n (map (\<lambda>a. if at_number a = ms_attempts m then f a else a) ats)"
proof -
  have nums: "map at_number (map (\<lambda>a. if at_number a = ms_attempts m then f a else a) ats) = map at_number ats" using f by simp
  have "attempt_fits n a" if "a \<in> set ats" "at_number a \<noteq> ms_attempts m" for a
    using fit that same by (auto simp: attempts_fit_def attempt_fits_def)
  then show ?thesis using fit fl same unfolding attempts_fit_def nums by auto
qed

lemma attempts_fit_next:
  assumes fit: "attempts_fit m ats" and q: "ms_status m = ''queued''" and m: "0 \<le> ms_attempts m"
    and n: "ms_attempts n = ms_attempts m + 1" "ms_status n = ''assigned''" "ms_node n = Some (at_node a)"
    and a: "at_number a = ms_attempts m + 1" "at_outcome a = ''accepted''"
  shows "attempts_fit n (ats @ [a])"
proof -
  have nums: "map at_number (ats @ [a]) = [1..ms_attempts n]" using fit n(1) a(1) m by (simp add: attempts_fit_def upto_rec2)
  have "attempt_fits n x" if "x \<in> set ats" for x
  proof -
    have "at_number x \<in> set [1..ms_attempts m]" using fit that unfolding attempts_fit_def by (metis image_eqI set_map)
    moreover have "attempt_fits m x" using fit that by (simp add: attempts_fit_def)
    ultimately show ?thesis using q n(1) by (auto simp: attempt_fits_def IN_FLIGHT_def)
  qed
  moreover have "attempt_fits n a" using n a by (simp add: attempt_fits_def IN_FLIGHT_def)
  ultimately show ?thesis using nums by (simp add: attempts_fit_def)
qed

lemma insert_message_row_ok:
  assumes ok: "sms_ok s" and t: "t = s\<lparr>sm_messages := sm_messages s @ [m]\<rparr>" and id: "ms_id m = int (length (sm_messages s)) + 1"
    and key: "ms_key m \<notin> ms_key ` set (sm_messages s)" and m: "message_ok m" "placed (sm_campaigns s) (sm_contacts s) m" "ms_attempts m = 0"
    and run: "\<And>c. c \<in> set (sm_campaigns s) \<Longrightarrow> ms_campaign m = Some (cp_id c) \<Longrightarrow> cp_status c = ''running''"
  shows "sms_step_ok s t"
proof -
  note d = messages_okD [OF sms_okD(2) [OF ok]] and e = campaigns_okD [OF sms_okD(3) [OF ok]]
  have "ms_id m \<notin> ms_id ` set (sm_messages s)" using numbered_mem [OF d(1)] id by simp
  then have none: "attempts_of (sm_attempts s) (ms_id m) = []" unfolding attempts_of_def filter_empty_conv using d(6) by metis
  have ms: "messages_ok (sm_campaigns s) (sm_contacts s) (sm_attempts s) (sm_messages s @ [m])"
    unfolding messages_ok_def using d numbered_append [OF d(1) id] key m none by (auto simp: attempts_fit_def)
  have "campaign_ok (sm_messages s @ [m]) (sm_events s) c" if c: "c \<in> set (sm_campaigns s)" for c
  proof (cases "ms_campaign m = Some (cp_id c)")
    case True
    then show ?thesis using e(2) [OF c] run [OF c] by (simp add: campaign_ok_def)
  next
    case False
    then have "statuses_of (sm_messages s @ [m]) (cp_id c) = statuses_of (sm_messages s) (cp_id c)" by (auto simp: statuses_of_def)
    then show ?thesis using e(2) [OF c] by (simp add: campaign_ok_def)
  qed
  then have "campaigns_ok (sm_messages s @ [m]) (sm_events s) (sm_campaigns s)" using e(1,3) by (simp add: campaigns_ok_def)
  then show ?thesis using ms sms_okD(1) [OF ok] unfolding t sms_step_ok_def sms_ok_def sms_kept_def
    by (simp add: rows_kept_refl rows_kept_append)
qed

subsection \<open>Campaigns\<close>

lemma events_of_append: "events_of (es @ [e]) i = events_of es i @ (if ce_campaign e = i then [e] else [])"
  by (simp add: events_of_def)

lemma campaign_step_kept:
  assumes "(Some (cp_status c), cp_status d) \<in> LIFECYCLE" "campaign_identity d = campaign_identity c" shows "campaign_kept c d"
  using assms by (auto simp: campaign_kept_def LIFECYCLE_def ENDED_def STARTED_def)

lemma campaign_update_ok:
  assumes ok: "sms_ok s" and c: "c \<in> set (sm_campaigns s)" and life: "(Some (cp_status c), cp_status (g c)) \<in> LIFECYCLE"
    and same: "campaign_identity (g c) = campaign_identity c"
    and e: "ce_campaign e = cp_id c" "ce_from e = Some (cp_status c)" "ce_to e = cp_status (g c)"
    and t: "t = s\<lparr>sm_campaigns := map (\<lambda>x. if cp_id x = cp_id c then g x else x) (sm_campaigns s), sm_events := sm_events s @ [e]\<rparr>"
    and over: "cp_status (g c) = ''completed'' \<Longrightarrow> statuses_of (sm_messages s) (cp_id c) \<subseteq> {''delivered'', ''suppressed''}"
      "cp_status (g c) = ''completed_with_errors'' \<Longrightarrow> statuses_of (sm_messages s) (cp_id c) \<subseteq> {''delivered'', ''suppressed'', ''dead_letter''}
        \<and> ''dead_letter'' \<in> statuses_of (sm_messages s) (cp_id c)"
  shows "sms_step_ok s t"
proof -
  let ?f = "\<lambda>x. if cp_id x = cp_id c then g x else x"
  note d = messages_okD [OF sms_okD(2) [OF ok]] and v = campaigns_okD [OF sms_okD(3) [OF ok]]
  have f: "?f x = (if x = c then g c else x)" if "x \<in> set (sm_campaigns s)" for x using campaign_unique [OF ok that c] by auto
  have kept: "campaign_kept x (?f x)" if "x \<in> set (sm_campaigns s)" for x using f [OF that] campaign_step_kept [where c = c and d = "g c", OF life same] by simp
  have id: "cp_id (?f x) = cp_id x \<and> cp_tenant (?f x) = cp_tenant x" if "x \<in> set (sm_campaigns s)" for x
    using f [OF that] campaign_identityD [OF same] by auto
  have ids: "map cp_id (map ?f (sm_campaigns s)) = map cp_id (sm_campaigns s)" using id by simp
  have nc: "cp_status c \<noteq> ''cancelled''" using life by (auto simp: LIFECYCLE_def)
  have "placed (map ?f (sm_campaigns s)) (sm_contacts s) m" if m: "m \<in> set (sm_messages s)" for m
  proof -
    obtain x k where x: "x \<in> set (sm_campaigns s)" "k \<in> set (sm_contacts s)" "ms_campaign m = Some (cp_id x)" "ms_tenant m = cp_tenant x" "cp_status x \<in> STARTED"
      "ms_status m = ''cancelled'' \<longrightarrow> cp_status x = ''cancelled''"
      "ms_contact m = Some (ct_id k)" "ms_tenant m = ct_tenant k" "ms_phone m = ct_phone k" "ms_key m = campaign_key (cp_id x) (ct_id k)"
      using d(4) [OF m] unfolding placed_def by blast
    obtain y where y: "y = ?f x" by blast
    have "cp_status y \<in> STARTED" "ms_status m = ''cancelled'' \<longrightarrow> cp_status y = ''cancelled''"
      using kept [OF x(1)] x(5,6) unfolding y by (auto simp: campaign_kept_def ENDED_def)
    moreover have "y \<in> set (map ?f (sm_campaigns s))" using x(1) unfolding y by (simp add: image_eqI [of _ _ x])
    moreover have "cp_id y = cp_id x" "cp_tenant y = cp_tenant x" using id [OF x(1)] unfolding y by simp_all
    ultimately show ?thesis unfolding placed_def by (intro bexI [of _ y] bexI [OF _ x(2)]) (use x in simp_all)
  qed
  then have ms: "messages_ok (map ?f (sm_campaigns s)) (sm_contacts s) (sm_attempts s) (sm_messages s)" using d unfolding messages_ok_def by simp
  have okx: "campaign_ok (sm_messages s) (sm_events s @ [e]) (?f x)" if x: "x \<in> set (sm_campaigns s)" for x
  proof (cases "x = c")
    case True
    have "life None (events_of (sm_events s @ [e]) (cp_id c)) (cp_status (g c))"
      using life_append [of None "events_of (sm_events s) (cp_id c)" "cp_status c" e] v(2) [OF c] life e by (simp add: events_of_append campaign_ok_def)
    then show ?thesis using True over campaign_identityD(1) [OF same] by (simp add: campaign_ok_def)
  next
    case False
    then have "cp_id x \<noteq> cp_id c" using campaign_unique [OF ok x c] by blast
    then show ?thesis using v(2) [OF x] e(1) by (simp add: campaign_ok_def events_of_append)
  qed
  have "cp_id ` set (map ?f (sm_campaigns s)) = cp_id ` set (sm_campaigns s)" using arg_cong [OF ids, of set] by (simp only: set_map)
  then have known: "\<forall>x\<in>set (sm_events s @ [e]). ce_campaign x \<in> cp_id ` set (map ?f (sm_campaigns s))"
    using v(3) e(1) imageI [OF c, of cp_id] by simp
  have cs: "campaigns_ok (sm_messages s) (sm_events s @ [e]) (map ?f (sm_campaigns s))"
  proof -
    have "\<forall>x\<in>set (map ?f (sm_campaigns s)). campaign_ok (sm_messages s) (sm_events s @ [e]) x" using okx by (simp only: set_map ball_simps) blast
    then show ?thesis unfolding campaigns_ok_def ids using v(1) known by (simp only: length_map)
  qed
  have "rows_kept campaign_kept (sm_campaigns s) (map ?f (sm_campaigns s))" by (rule rows_kept_map) (rule kept)
  then show ?thesis using ms cs sms_okD(1) [OF ok] unfolding t sms_step_ok_def sms_ok_def sms_kept_def by (simp add: rows_kept_refl)
qed

lemma campaign_append_ok:
  assumes ok: "sms_ok s" and c: "cp_id c = int (length (sm_campaigns s)) + 1" "cp_status c = ''draft''"
    and e: "ce_campaign e = cp_id c" "ce_from e = None" "ce_to e = ''draft''"
    and t: "t = s\<lparr>sm_campaigns := sm_campaigns s @ [c], sm_events := sm_events s @ [e]\<rparr>"
  shows "sms_step_ok s t"
proof -
  note d = messages_okD [OF sms_okD(2) [OF ok]] and v = campaigns_okD [OF sms_okD(3) [OF ok]]
  have new: "cp_id c \<notin> cp_id ` set (sm_campaigns s)" using numbered_mem [OF v(1)] c(1) by simp
  have "events_of (sm_events s) (cp_id c) = []" unfolding events_of_def filter_empty_conv using v(3) new by metis
  then have okc: "campaign_ok (sm_messages s) (sm_events s @ [e]) c" using c e by (simp add: campaign_ok_def events_of_append LIFECYCLE_def)
  have "campaign_ok (sm_messages s) (sm_events s @ [e]) x" if x: "x \<in> set (sm_campaigns s)" for x
  proof -
    have "cp_id x \<noteq> cp_id c" using new x by (metis image_eqI)
    then show ?thesis using v(2) [OF x] e(1) by (simp add: campaign_ok_def events_of_append)
  qed
  then have cs: "campaigns_ok (sm_messages s) (sm_events s @ [e]) (sm_campaigns s @ [c])"
    using okc numbered_append [OF v(1) c(1)] v(3) e(1) unfolding campaigns_ok_def by auto
  have "placed (sm_campaigns s @ [c]) (sm_contacts s) m" if "m \<in> set (sm_messages s)" for m
    using d(4) [OF that] unfolding placed_def by (metis UnI1 set_append)
  then have "messages_ok (sm_campaigns s @ [c]) (sm_contacts s) (sm_attempts s) (sm_messages s)" using d unfolding messages_ok_def by simp
  then show ?thesis using cs sms_okD(1) [OF ok] unfolding t sms_step_ok_def sms_ok_def sms_kept_def by (simp add: rows_kept_refl rows_kept_append)
qed

subsection \<open>Contacts\<close>

lemma placed_contacts: "placed cs ks m \<Longrightarrow> rows_kept contact_kept ks ls \<Longrightarrow> placed cs ls m"
proof -
  assume p: "placed cs ks m" and r: "rows_kept contact_kept ks ls"
  obtain c k where ck: "c \<in> set cs" "k \<in> set ks" "ms_campaign m = Some (cp_id c)" "ms_tenant m = cp_tenant c" "cp_status c \<in> STARTED"
    "ms_status m = ''cancelled'' \<longrightarrow> cp_status c = ''cancelled''"
    "ms_contact m = Some (ct_id k)" "ms_tenant m = ct_tenant k" "ms_phone m = ct_phone k" "ms_key m = campaign_key (cp_id c) (ct_id k)"
    using p unfolding placed_def by blast
  obtain l where "l \<in> set ls" "contact_kept k l" using rows_keptD [OF r ck(2)] by blast
  then show ?thesis using ck unfolding placed_def contact_kept_def by metis
qed

lemma contacts_change_ok:
  assumes ok: "sms_ok s" and t: "t = s\<lparr>sm_contacts := ks\<rparr>" and ks: "contacts_ok ks" "rows_kept contact_kept (sm_contacts s) ks"
  shows "sms_step_ok s t"
proof -
  have "messages_ok (sm_campaigns s) ks (sm_attempts s) (sm_messages s)"
    using messages_okD [OF sms_okD(2) [OF ok]] placed_contacts [OF _ ks(2)] unfolding messages_ok_def by blast
  then show ?thesis using ks sms_okD(3) [OF ok] unfolding t sms_step_ok_def sms_ok_def sms_kept_def by (simp add: rows_kept_refl)
qed

lemma upsert_contact_ok:
  assumes ok: "sms_ok s" and u: "upsert_contact tenant phone change row s = (i, t)"
    and ch: "\<And>c. contact_kept c (change c)"
  shows "sms_step_ok s t" "\<exists>k\<in>set (sm_contacts t). ct_id k = i \<and> ct_tenant k = tenant \<and> ct_phone k = phone"
    "sm_campaigns t = sm_campaigns s" "sm_messages t = sm_messages s" "sm_suppressions t = sm_suppressions s" "sm_attempts t = sm_attempts s"
proof -
  note c = sms_okD(1) [OF ok, unfolded contacts_ok_def]
  let ?found = "find (\<lambda>c. ct_tenant c = tenant \<and> ct_phone c = phone) (sm_contacts s)"
  have *: "sms_step_ok s t \<and> (\<exists>k\<in>set (sm_contacts t). ct_id k = i \<and> ct_tenant k = tenant \<and> ct_phone k = phone)
    \<and> sm_campaigns t = sm_campaigns s \<and> sm_messages t = sm_messages s \<and> sm_suppressions t = sm_suppressions s \<and> sm_attempts t = sm_attempts s"
  proof (cases ?found)
    case None
    let ?k = "row\<lparr>ct_id := int (length (sm_contacts s)) + 1, ct_tenant := tenant, ct_phone := phone\<rparr>"
    have t: "t = s\<lparr>sm_contacts := sm_contacts s @ [?k]\<rparr>" and i: "i = ct_id ?k" using u None by (auto simp: upsert_contact_def Let_def)
    have ks: "contacts_ok (sm_contacts s @ [?k])"
      using c numbered_append [OF conjunct1 [OF c], of ?k] None unfolding contacts_ok_def by (auto simp: find_None_iff)
    have kept: "rows_kept contact_kept (sm_contacts s) (sm_contacts s @ [?k])" by (rule rows_kept_append) simp
    have "\<exists>k\<in>set (sm_contacts t). ct_id k = i \<and> ct_tenant k = tenant \<and> ct_phone k = phone" unfolding t i by simp
    then show ?thesis using contacts_change_ok [OF ok t ks kept] t by simp
  next
    case (Some k)
    let ?f = "\<lambda>x. if ct_id x = ct_id k then change x else x"
    have k: "k \<in> set (sm_contacts s)" "ct_tenant k = tenant" "ct_phone k = phone" using Some by (auto simp: find_Some_iff)
    have t: "t = s\<lparr>sm_contacts := map ?f (sm_contacts s)\<rparr>" and i: "i = ct_id k" using u Some by (auto simp: upsert_contact_def)
    have f: "contact_kept x (?f x)" for x using ch by simp
    have ks: "contacts_ok (map ?f (sm_contacts s))"
      using c f unfolding contacts_ok_def contact_kept_def by (simp add: comp_def)
    have kept: "rows_kept contact_kept (sm_contacts s) (map ?f (sm_contacts s))" by (rule rows_kept_map) (rule f)
    have "\<exists>x\<in>set (sm_contacts t). ct_id x = i \<and> ct_tenant x = tenant \<and> ct_phone x = phone"
      using k f [of k] unfolding t i contact_kept_def by (intro bexI [of _ "?f k"]) auto
    then show ?thesis using contacts_change_ok [OF ok t ks kept] t by simp
  qed
  show "sms_step_ok s t" "\<exists>k\<in>set (sm_contacts t). ct_id k = i \<and> ct_tenant k = tenant \<and> ct_phone k = phone"
    "sm_campaigns t = sm_campaigns s" "sm_messages t = sm_messages s" "sm_suppressions t = sm_suppressions s" "sm_attempts t = sm_attempts s"
    using * by simp_all
qed

end
