(* ===== verification/Sms_Ops.thy ===== *)
theory Sms_Ops
  imports Sms_Moves
begin

text \<open>Every operation of the SMS control plane keeps the invariant and what must not change.\<close>

subsection \<open>Transitions\<close>

lemma find_mapped: "(\<And>x. P (f x) = P x) \<Longrightarrow> find P (map f xs) = map_option f (find P xs)"
  by (induction xs) auto

lemma campaign_by_id_updated:
  assumes "\<And>c. cp_id (f c) = cp_id c" "sm_campaigns t = map (\<lambda>c. if cp_id c = i then f c else c) (sm_campaigns s)"
  shows "campaign_by_id t i = map_option f (campaign_by_id s i)"
proof -
  have "find (\<lambda>c. cp_id c = i) (sm_campaigns t) = map_option (\<lambda>c. if cp_id c = i then f c else c) (find (\<lambda>c. cp_id c = i) (sm_campaigns s))"
    unfolding assms(2) by (rule find_mapped) (simp add: assms(1))
  then show ?thesis
  proof (cases "find (\<lambda>c. cp_id c = i) (sm_campaigns s)")
    case (Some c)
    then have "cp_id c = i" by (auto simp: find_Some_iff)
    then show ?thesis using Some \<open>find _ (sm_campaigns t) = _\<close> by (simp add: campaign_by_id_def)
  qed (simp add: campaign_by_id_def)
qed

definition keeps_identity :: "(campaign \<Rightarrow> campaign) \<Rightarrow> bool" where
  "keeps_identity f \<longleftrightarrow> (\<forall>c. campaign_identity (f c) = campaign_identity c \<and> cp_status (f c) = cp_status c)"

lemma transition_cases:
  assumes "transition i allowed st admin reason extra s = Inr (d, t)" "keeps_identity extra"
  obtains c where "campaign_by_id s i = Some c" "cp_status c \<in> set allowed" "d = extra (c\<lparr>cp_status := st\<rparr>)"
    "t = s\<lparr>sm_campaigns := map (\<lambda>x. if cp_id x = i then extra (x\<lparr>cp_status := st\<rparr>) else x) (sm_campaigns s),
       sm_events := sm_events s @ [\<lparr>ce_campaign = i, ce_from = Some (cp_status c), ce_to = st, ce_admin = admin, ce_reason = reason\<rparr>]\<rparr>"
    "campaign_by_id t i = Some d"
proof -
  obtain c where c: "campaign_by_id s i = Some c" "cp_status c \<in> set allowed"
    using assms(1) by (auto simp: transition_def split: option.splits if_splits)
  let ?t = "s\<lparr>sm_campaigns := map (\<lambda>x. if cp_id x = i then extra (x\<lparr>cp_status := st\<rparr>) else x) (sm_campaigns s),
       sm_events := sm_events s @ [\<lparr>ce_campaign = i, ce_from = Some (cp_status c), ce_to = st, ce_admin = admin, ce_reason = reason\<rparr>]\<rparr>"
  have id: "cp_id (extra (x\<lparr>cp_status := st\<rparr>)) = cp_id x" for x
    using campaign_identityD(1) [of "extra (x\<lparr>cp_status := st\<rparr>)" x] assms(2) by (simp add: keeps_identity_def campaign_identity_def)
  have g: "campaign_by_id ?t i = Some (extra (c\<lparr>cp_status := st\<rparr>))"
    using campaign_by_id_updated [where s = s and t = ?t and i = i and f = "\<lambda>x. extra (x\<lparr>cp_status := st\<rparr>)", OF id] c(1) by simp
  have "Inr (d, t) = (Inr (extra (c\<lparr>cp_status := st\<rparr>), ?t) :: (campaign \<times> sms) sms_result)"
    using assms(1) c g by (simp add: transition_def record_campaign_event_def update_campaign_def get_campaign_def Let_def)
  then show thesis using that [OF c] g by simp
qed

lemma transition_ok:
  assumes ok: "sms_ok s" and tr: "transition i allowed st admin reason extra s = Inr (d, t)" and extra: "keeps_identity extra"
    and life: "\<And>x. x \<in> set allowed \<Longrightarrow> (Some x, st) \<in> LIFECYCLE"
    and over: "st = ''completed'' \<Longrightarrow> statuses_of (sm_messages s) i \<subseteq> {''delivered'', ''suppressed''}"
      "st = ''completed_with_errors'' \<Longrightarrow> statuses_of (sm_messages s) i \<subseteq> {''delivered'', ''suppressed'', ''dead_letter''}
        \<and> ''dead_letter'' \<in> statuses_of (sm_messages s) i"
  shows "sms_step_ok s t"
proof -
  obtain c where c: "campaign_by_id s i = Some c" "cp_status c \<in> set allowed"
    and t: "t = s\<lparr>sm_campaigns := map (\<lambda>x. if cp_id x = i then extra (x\<lparr>cp_status := st\<rparr>) else x) (sm_campaigns s),
       sm_events := sm_events s @ [\<lparr>ce_campaign = i, ce_from = Some (cp_status c), ce_to = st, ce_admin = admin, ce_reason = reason\<rparr>]\<rparr>"
    by (rule transition_cases [OF tr extra])
  note m = campaign_of [OF ok c(1)]
  have st: "cp_status (extra (c\<lparr>cp_status := st\<rparr>)) = st" "campaign_identity (extra (c\<lparr>cp_status := st\<rparr>)) = campaign_identity c"
    using extra by (simp_all add: keeps_identity_def campaign_identity_def)
  show ?thesis
    by (rule campaign_update_ok [OF ok conjunct1 [OF m], where g = "\<lambda>x. extra (x\<lparr>cp_status := st\<rparr>)"
        and e = "\<lparr>ce_campaign = i, ce_from = Some (cp_status c), ce_to = st, ce_admin = admin, ce_reason = reason\<rparr>"])
      (use m t st life [OF c(2)] over in simp_all)
qed

lemma transition_total:
  assumes "campaign_by_id s i = Some c" "cp_status c \<in> set allowed" "keeps_identity extra"
  shows "\<exists>d t. transition i allowed st admin reason extra s = Inr (d, t)"
proof -
  have id: "cp_id (extra (x\<lparr>cp_status := st\<rparr>)) = cp_id x" for x
    using campaign_identityD(1) [of "extra (x\<lparr>cp_status := st\<rparr>)" x] assms(3) by (simp add: keeps_identity_def campaign_identity_def)
  have "campaign_by_id (record_campaign_event i (Some (cp_status c)) st admin reason (update_campaign i (\<lambda>c. extra (c\<lparr>cp_status := st\<rparr>)) s)) i
      = Some (extra (c\<lparr>cp_status := st\<rparr>))"
    using campaign_by_id_updated [where s = s and i = i and f = "\<lambda>x. extra (x\<lparr>cp_status := st\<rparr>)", OF id] assms(1)
    by (simp add: record_campaign_event_def update_campaign_def)
  then show ?thesis using assms(1,2) by (simp add: transition_def get_campaign_def Let_def)
qed

lemma keeps_identity_simps [simp]:
  "keeps_identity id" "keeps_identity (\<lambda>c. c\<lparr>cp_scheduled_at := x\<rparr>)" "keeps_identity (\<lambda>c. c\<lparr>cp_recipient_count := n\<rparr>)"
  "keeps_identity (\<lambda>c. c\<lparr>cp_completed_at := x\<rparr>)"
  by (simp_all add: keeps_identity_def campaign_identity_def)

lemma schedule_ok: "sms_ok s \<Longrightarrow> schedule_campaign i admin at' s = Inr (d, t) \<Longrightarrow> sms_step_ok s t"
  unfolding schedule_campaign_def by (erule (1) transition_ok) (simp_all add: LIFECYCLE_def)

lemma pause_ok: "sms_ok s \<Longrightarrow> pause_campaign i admin s = Inr (d, t) \<Longrightarrow> sms_step_ok s t"
  unfolding pause_campaign_def by (erule (1) transition_ok) (simp_all add: LIFECYCLE_def)

lemma resume_ok: "sms_ok s \<Longrightarrow> resume_campaign i admin s = Inr (d, t) \<Longrightarrow> sms_step_ok s t"
  unfolding resume_campaign_def by (erule (1) transition_ok) (simp_all add: LIFECYCLE_def)

lemma validate_ok:
  assumes ok: "sms_ok s" and v: "validate_campaign i admin s = Inr (d, t)" shows "sms_step_ok s t"
proof -
  obtain c s1 where v1: "transition i [''draft'', ''failed''] ''validating'' (Some admin) None id s = Inr (c, s1)"
    using v by (auto simp: validate_campaign_def bind_result_Inr_iff)
  have one: "sms_step_ok s s1" by (rule transition_ok [OF ok v1]) (auto simp: LIFECYCLE_def)
  have fail: "sms_step_ok s1 t" if "transition i [''validating''] ''failed'' (Some admin) r id s1 = Inr (d, t)" for r
    by (rule transition_ok [OF _ that]) (use one in \<open>auto simp: LIFECYCLE_def sms_step_ok_def\<close>)
  have ready: "sms_step_ok s1 t" if "transition i [''validating''] ''ready'' (Some admin) None (\<lambda>c. c\<lparr>cp_recipient_count := Some n\<rparr>) s1 = Inr (d, t)" for n
    by (rule transition_ok [OF _ that]) (use one in \<open>auto simp: LIFECYCLE_def sms_step_ok_def\<close>)
  have "sms_step_ok s1 t"
    using v v1 fail ready by (auto simp: validate_campaign_def bind_result_Inr_iff Let_def split: if_splits)
  then show ?thesis by (rule sms_step_ok_trans [OF one])
qed

lemma create_campaign_ok:
  assumes ok: "sms_ok s" and c: "create_campaign tenant name tpl body f admin fleet job s = Inr (d, t)" shows "sms_step_ok s t"
proof -
  let ?e = "\<lparr>ce_campaign = cp_id d, ce_from = None, ce_to = ''draft'', ce_admin = Some admin, ce_reason = None\<rparr>"
  let ?s1 = "s\<lparr>sm_campaigns := sm_campaigns s @ [d], sm_events := sm_events s @ [?e]\<rparr>"
  have d: "cp_id d = int (length (sm_campaigns s)) + 1" "cp_status d = ''draft''"
    and t: "t = (case job of None \<Rightarrow> ?s1 | Some j \<Rightarrow> ?s1\<lparr>sm_jobs := map (\<lambda>x. if ij_id x = j then x\<lparr>ij_campaign := Some (cp_id d)\<rparr> else x) (sm_jobs s)\<rparr>)"
    using c by (auto simp: create_campaign_def bind_result_Inr_iff Let_def record_campaign_event_def split: if_splits option.splits)
  have one: "sms_step_ok s ?s1" by (rule campaign_append_ok [OF ok d, of ?e]) simp_all
  have "sms_step_ok ?s1 t" by (rule sms_ok_rest) (use one t in \<open>auto simp: sms_step_ok_def split: option.splits\<close>)
  then show ?thesis by (rule sms_step_ok_trans [OF one])
qed

subsection \<open>Cancelling\<close>

lemma message_still:
  "sms_ok s \<Longrightarrow> m \<in> set (sm_messages s) \<Longrightarrow> message_moves cs m m \<and> attempts_fit m (attempts_of (sm_attempts s) (ms_id m))"
  using messages_okD(5) [OF sms_okD(2)] by (simp add: message_moves_def)

lemma cancel_ok:
  assumes ok: "sms_ok s" and c: "cancel_campaign i admin reason s = Inr (d, t)" shows "sms_step_ok s t"
proof -
  obtain s1 where tr: "transition i [''draft'', ''ready'', ''scheduled'', ''running'', ''paused''] ''cancelled'' (Some admin) (Some reason) id s = Inr (d, s1)"
    and t: "t = update_messages (\<lambda>m. ms_campaign m = Some i \<and> ms_status m = ''queued'') (\<lambda>m. m\<lparr>ms_status := ''cancelled''\<rparr>) s1"
    using c by (auto simp: cancel_campaign_def bind_result_Inr_iff)
  have one: "sms_step_ok s s1" by (rule transition_ok [OF ok tr]) (auto simp: LIFECYCLE_def)
  then have ok1: "sms_ok s1" by (simp add: sms_step_ok_def)
  obtain d' where d: "campaign_by_id s1 i = Some d" "cp_status d = ''cancelled''" by (rule transition_cases [OF tr]) auto
  have can: "cp_status x = ''cancelled''" if "x \<in> set (sm_campaigns s1)" "cp_id x = i" for x
    using campaign_unique [OF ok1 that(1), of d] campaign_of [OF ok1 d(1)] that(2) d(2) by simp
  let ?g = "\<lambda>m. if ms_campaign m = Some i \<and> ms_status m = ''queued'' then m\<lparr>ms_status := ''cancelled''\<rparr> else m"
  note v = messages_okD [OF sms_okD(2) [OF ok1]]
  have moves: "message_moves (sm_campaigns s1) m (?g m)" if m: "m \<in> set (sm_messages s1)" for m
    using v(3) [OF m] can by (auto simp: message_moves_def message_identity_def message_ok_def IN_FLIGHT_def TERMINAL_def)
  have fit: "attempts_fit (?g m) (attempts_of (sm_attempts s1) (ms_id m))" if m: "m \<in> set (sm_messages s1)" for m
  proof (cases "ms_campaign m = Some i \<and> ms_status m = ''queued''")
    case True
    then have "attempt_fits (?g m) a" if "attempt_fits m a" for a using that by (simp add: attempt_fits_def IN_FLIGHT_def) blast
    then show ?thesis using v(5) [OF m] True by (simp add: attempts_fit_def)
  qed (use v(5) [OF m] in auto)
  have "sms_step_ok s1 t"
    by (rule messages_update_ok [where g = ?g and ats = "sm_attempts s1", OF ok1 _ moves fit v(6)]) (simp_all add: t update_messages_def)
  then show ?thesis by (rule sms_step_ok_trans [OF one])
qed

subsection \<open>Starting\<close>

lemma insert_message_ok:
  assumes ok: "sms_ok s" and c: "c \<in> set (sm_campaigns s)" "cp_status c = ''running''"
    and k: "k \<in> set (sm_contacts s)" "ct_id k = contact_id" "ct_tenant k = cp_tenant c" "ct_phone k = phone"
    and t: "insert_message now c contact_id phone rendered hushed (n, s) = (n', t)"
  shows "sms_step_ok s t \<and> sm_campaigns t = sm_campaigns s \<and> sm_suppressions t = sm_suppressions s"
proof (cases "\<exists>m\<in>set (sm_messages s). ms_key m = campaign_key (cp_id c) contact_id")
  case True
  then show ?thesis using t sms_step_ok_refl [OF ok] by (simp add: insert_message_def)
next
  case False
  let ?m = "\<lparr>ms_id = int (length (sm_messages s)) + 1, ms_tenant = cp_tenant c, ms_campaign = Some (cp_id c),
        ms_contact = Some contact_id, ms_phone = phone, ms_body = rendered, ms_segments = count_segments rendered, ms_priority = ''normal'',
        ms_status = (if hushed then ''suppressed'' else ''queued''), ms_node = None, ms_assigned_at = None, ms_attempts = 0,
        ms_last_error = None, ms_key = campaign_key (cp_id c) contact_id, ms_created_at = now\<rparr>"
  have t: "t = s\<lparr>sm_messages := sm_messages s @ [?m]\<rparr>" using t False unfolding insert_message_def Let_def by auto
  have mok: "message_ok ?m" by (simp add: message_ok_def IN_FLIGHT_def TERMINAL_def MAX_DELIVERY_ATTEMPTS_def)
  have pl: "placed (sm_campaigns s) (sm_contacts s) ?m"
    unfolding placed_def by (rule bexI [OF _ c(1)], rule bexI [OF _ k(1)]) (use c k in \<open>simp add: STARTED_def\<close>)
  have "sms_step_ok s t"
    by (rule insert_message_row_ok [OF ok t _ _ mok pl]) (use False campaign_unique [OF ok _ c(1)] c(2) in auto)
  then show ?thesis using t by simp
qed

text \<open>What the loops over the recipients keep: the campaign and the list of suppressions stay as they were.\<close>

definition enqueued :: "sms \<Rightarrow> nat \<times> sms \<Rightarrow> bool" where
  "enqueued s0 ns \<longleftrightarrow> sms_step_ok s0 (snd ns) \<and> sm_campaigns (snd ns) = sm_campaigns s0 \<and> sm_suppressions (snd ns) = sm_suppressions s0"

lemma enqueue_audience_ok:
  assumes ok: "sms_ok s" and c: "c \<in> set (sm_campaigns s)" "cp_status c = ''running''" and q: "enqueue_audience now c s = Inr nt"
  shows "enqueued s nt"
proof -
  obtain tbody rs where rs: "resolve_recipients (cp_tenant c) (cp_audience c) s = Inr rs"
    and f: "fold_result (enqueue_recipient now c tbody) rs (0, s) = Inr nt"
    using q by (auto simp: enqueue_audience_def bind_result_Inr_iff)
  have origin: "\<exists>k\<in>set (sm_contacts s). ct_id k = rp_contact r \<and> ct_tenant k = cp_tenant c \<and> ct_phone k = rp_phone r" if "r \<in> set rs" for r
    using rs that by (clarsimp simp: resolve_recipients_def bind_result_Inr_iff in_audience_def) (rule bexI, simp_all)
  have one: "enqueued s ns'" if r: "r \<in> set rs" "enqueued s ns" "enqueue_recipient now c tbody r ns = Inr ns'" for r ns ns'
  proof -
    obtain b where b: "(case render_template b (display_variables (rp_display_name r)) of Inl _ \<Rightarrow> ns
        | Inr rendered \<Rightarrow> insert_message now c (rp_contact r) (rp_phone r) rendered (is_suppressed (snd ns) (cp_tenant c) (rp_phone r)) ns) = ns'"
      using r(3) by (auto simp: enqueue_recipient_def bind_result_Inr_iff)
    show ?thesis
    proof (cases "render_template b (display_variables (rp_display_name r))")
      case (Inl e)
      then show ?thesis using b r(2) by simp
    next
      case (Inr rendered)
      have s: "sms_ok (snd ns)" "sms_kept s (snd ns)" using r(2) by (simp_all add: enqueued_def sms_step_ok_def)
      obtain k0 where k0: "k0 \<in> set (sm_contacts s)" "ct_id k0 = rp_contact r" "ct_tenant k0 = cp_tenant c" "ct_phone k0 = rp_phone r"
        using origin [OF r(1)] by blast
      have "rows_kept contact_kept (sm_contacts s) (sm_contacts (snd ns))" using s(2) by (simp add: sms_kept_def)
      then obtain k where k: "k \<in> set (sm_contacts (snd ns))" "contact_kept k0 k" using rows_keptD k0(1) by metis
      have kk: "ct_id k = rp_contact r" "ct_tenant k = cp_tenant c" "ct_phone k = rp_phone r" using k(2) k0 by (simp_all add: contact_kept_def)
      have c1: "c \<in> set (sm_campaigns (snd ns))" using r(2) c(1) by (simp add: enqueued_def)
      have "insert_message now c (rp_contact r) (rp_phone r) rendered (is_suppressed (snd ns) (cp_tenant c) (rp_phone r)) (fst ns, snd ns) = (fst ns', snd ns')"
        using b Inr by simp
      from insert_message_ok [OF s(1) c1 c(2) k(1) kk this] show ?thesis using r(2) sms_step_ok_trans by (auto simp: enqueued_def)
    qed
  qed
  have start: "enqueued s (0, s)" using sms_step_ok_refl [OF ok] by (simp add: enqueued_def)
  show ?thesis by (rule fold_result_invariant [where P = "enqueued s", OF f start]) (rule one)
qed

lemma import_contact_ok:
  assumes "sms_ok s" "get_or_create_import_contact tenant phone job s = (i, t)"
  shows "sms_step_ok s t" "\<exists>k\<in>set (sm_contacts t). ct_id k = i \<and> ct_tenant k = tenant \<and> ct_phone k = phone"
    "sm_campaigns t = sm_campaigns s" "sm_suppressions t = sm_suppressions s"
  using upsert_contact_ok [OF assms(1) assms(2) [unfolded get_or_create_import_contact_def]] by simp_all

lemma enqueue_import_row_ok:
  assumes en: "enqueued s ns" and c: "c \<in> set (sm_campaigns s)" "cp_status c = ''running''"
    and q: "enqueue_import_row now c tbody format job r ns = Inr ns'"
  shows "enqueued s ns'"
proof -
  obtain phone where p: "ir_phone r = Some phone" using q by (auto simp: enqueue_import_row_def split: option.splits)
  have send: "enqueued s ns'"
    if "(case get_or_create_import_contact (cp_tenant c) phone job (snd ns) of (contact_id, s1) \<Rightarrow>
        insert_message now c contact_id phone rendered (is_suppressed (snd ns) (cp_tenant c) phone) (fst ns, s1)) = ns'" for rendered
  proof -
    obtain i s1 where g: "get_or_create_import_contact (cp_tenant c) phone job (snd ns) = (i, s1)" by fastforce
    have ok: "sms_ok (snd ns)" using en by (simp add: enqueued_def sms_step_ok_def)
    note u = import_contact_ok [OF ok g]
    obtain k where k: "k \<in> set (sm_contacts s1)" "ct_id k = i" "ct_tenant k = cp_tenant c" "ct_phone k = phone" using u(2) by blast
    have c1: "c \<in> set (sm_campaigns s1)" using en c(1) u(3) by (simp add: enqueued_def)
    have ok1: "sms_ok s1" using u(1) by (simp add: sms_step_ok_def)
    have "insert_message now c i phone rendered (is_suppressed (snd ns) (cp_tenant c) phone) (fst ns, s1) = (fst ns', snd ns')" using that g by simp
    from insert_message_ok [OF ok1 c1 c(2) k this] show ?thesis using en u sms_step_ok_trans by (auto simp: enqueued_def)
  qed
  show ?thesis
  proof (cases "format = ''phone_message''")
    case True
    then show ?thesis using q p send by (auto simp: enqueue_import_row_def split: option.splits)
  next
    case False
    then have b: "bind_result (effective_body c tbody) (\<lambda>b. Inr (case render_template b (display_variables None) of Inl _ \<Rightarrow> ns | Inr rendered \<Rightarrow>
        (case get_or_create_import_contact (cp_tenant c) phone job (snd ns) of (contact_id, s1) \<Rightarrow>
        insert_message now c contact_id phone rendered (is_suppressed (snd ns) (cp_tenant c) phone) (fst ns, s1)))) = Inr ns'"
      using q p by (simp add: enqueue_import_row_def Let_def)
    obtain body where eb: "effective_body c tbody = Inr body" using b by (cases "effective_body c tbody") simp_all
    show ?thesis
    proof (cases "render_template body (display_variables None)")
      case (Inl e)
      then show ?thesis using b eb en by simp
    next
      case (Inr rendered)
      then show ?thesis using b eb by (intro send [of rendered]) simp
    qed
  qed
qed

lemma enqueue_import_ok:
  assumes ok: "sms_ok s" and c: "c \<in> set (sm_campaigns s)" "cp_status c = ''running''" and q: "enqueue_import_messages now c job s = Inr nt"
  shows "enqueued s nt"
proof -
  obtain tbody format where f: "fold_result (enqueue_import_row now c tbody format job) (import_recipients s job) (0, s) = Inr nt"
    using q by (auto simp: enqueue_import_messages_def bind_result_Inr_iff)
  have start: "enqueued s (0, s)" using sms_step_ok_refl [OF ok] by (simp add: enqueued_def)
  show ?thesis by (rule fold_result_invariant [where P = "enqueued s", OF f start]) (rule enqueue_import_row_ok [OF _ c])
qed

lemma start_cases:
  assumes ok: "sms_ok s" and q: "start_campaign now i admin s = Inr ((d, n), t)"
  obtains s1 where "sms_step_ok s s1" "d \<in> set (sm_campaigns s1)" "cp_id d = i" "cp_status d = ''running''" "sm_messages s1 = sm_messages s"
    "sm_suppressions s1 = sm_suppressions s" "sm_contacts s1 = sm_contacts s"
    "(case cp_import_job d of Some j \<Rightarrow> enqueue_import_messages now d j s1 | None \<Rightarrow> enqueue_audience now d s1) = Inr (n, t)"
proof -
  obtain c where c: "campaign_by_id s i = Some c" "cp_status c \<in> {''running'', ''ready'', ''scheduled''}"
    using q by (auto simp: start_campaign_def split: option.splits if_splits)
  note m = campaign_of [OF ok c(1)]
  let ?f = "\<lambda>c. c\<lparr>cp_status := ''running'', cp_started_at := Some now\<rparr>"
  let ?s1 = "if cp_status c = ''running'' then s else record_campaign_event i (Some (cp_status c)) ''running'' (Some admin) None (update_campaign i ?f s)"
  have q2: "bind_result (get_campaign ?s1 i) (\<lambda>c1.
            bind_result (case cp_import_job c1 of Some j \<Rightarrow> enqueue_import_messages now c1 j ?s1 | None \<Rightarrow> enqueue_audience now c1 ?s1) (\<lambda>(n, s2).
              Inr ((c1, n), s2))) = Inr ((d, n), t)"
    using q c(2) unfolding start_campaign_def c(1) option.case(2) Let_def by (simp only: if_not_P simp_thms)
  then have d: "campaign_by_id ?s1 i = Some d"
    and en: "(case cp_import_job d of Some j \<Rightarrow> enqueue_import_messages now d j ?s1 | None \<Rightarrow> enqueue_audience now d ?s1) = Inr (n, t)"
    by (auto simp: bind_result_Inr_iff get_campaign_def split: option.splits)
  have one: "sms_step_ok s ?s1"
  proof (cases "cp_status c = ''running''")
    case False
    let ?e = "\<lparr>ce_campaign = i, ce_from = Some (cp_status c), ce_to = ''running'', ce_admin = Some admin, ce_reason = None\<rparr>"
    show ?thesis
      by (rule campaign_update_ok [OF ok conjunct1 [OF m], where g = ?f and e = ?e])
        (use m c(2) False in \<open>auto simp: record_campaign_event_def update_campaign_def LIFECYCLE_def campaign_identity_def\<close>)
  qed (use sms_step_ok_refl [OF ok] in simp)
  then have ok1: "sms_ok ?s1" by (simp add: sms_step_ok_def)
  have run: "cp_status d = ''running''"
  proof (cases "cp_status c = ''running''")
    case True
    then show ?thesis using d c(1) by simp
  next
    case False
    have "campaign_by_id ?s1 i = map_option ?f (campaign_by_id s i)"
      by (rule campaign_by_id_updated) (use False in \<open>simp_all add: record_campaign_event_def update_campaign_def\<close>)
    then have "d = ?f c" using d c(1) by simp
    then show ?thesis by simp
  qed
  show thesis
    by (rule that [OF one _ _ run _ _ _ en]) (use campaign_of [OF ok1 d] in \<open>auto simp: record_campaign_event_def update_campaign_def\<close>)
qed

lemma start_ok:
  assumes ok: "sms_ok s" and q: "start_campaign now i admin s = Inr ((d, n), t)"
  shows "sms_step_ok s t"
proof -
  obtain s1 where s1: "sms_step_ok s s1" "d \<in> set (sm_campaigns s1)" "cp_status d = ''running''"
    and en: "(case cp_import_job d of Some j \<Rightarrow> enqueue_import_messages now d j s1 | None \<Rightarrow> enqueue_audience now d s1) = Inr (n, t)"
    by (rule start_cases [OF ok q])
  have ok1: "sms_ok s1" using s1(1) by (simp add: sms_step_ok_def)
  have "enqueued s1 (n, t)"
    using en enqueue_import_ok [OF ok1 s1(2,3)] enqueue_audience_ok [OF ok1 s1(2,3)] by (auto split: option.splits)
  then show ?thesis using sms_step_ok_trans [OF s1(1)] by (simp add: enqueued_def)
qed

end
