(* ===== verification/Sms_Delivery.thy ===== *)
theory Sms_Delivery
  imports Sms_Ops
begin

text \<open>Claiming, starting, reporting and sweeping keep the invariant, and never fail on a state that satisfies it.\<close>

subsection \<open>Claiming\<close>

lemma message_status: "sms_ok s \<Longrightarrow> m \<in> set (sm_messages s) \<Longrightarrow> ms_status m \<in> insert ''queued'' IN_FLIGHT \<union> TERMINAL"
  using messages_okD(3) [OF sms_okD(2)] unfolding message_ok_def by blast

lemma find_message:
  assumes "sms_ok s" "m \<in> set (sm_messages s)" shows "message_by_id s (ms_id m) = Some m"
proof -
  have "message_by_id s (ms_id m) \<noteq> None" using assms(2) by (auto simp: message_by_id_def find_None_iff)
  then obtain x where x: "message_by_id s (ms_id m) = Some x" by blast
  then show ?thesis using message_of [OF x] message_unique [OF assms(1) _ assms(2), of x] by simp
qed

definition claimed_by :: "int \<Rightarrow> int \<Rightarrow> sms_message \<Rightarrow> sms_message" where
  "claimed_by now node_id m = m\<lparr>ms_status := ''assigned'', ms_node := Some node_id, ms_assigned_at := Some now, ms_attempts := ms_attempts m + 1\<rparr>"

definition accepted_attempt :: "int \<Rightarrow> sms_message \<Rightarrow> attempt" where
  "accepted_attempt node_id m = \<lparr>at_message = ms_id m, at_node = node_id, at_number = ms_attempts m + 1, at_outcome = ''accepted'', at_error = None, at_response = None\<rparr>"

lemma claim_from_cases:
  assumes ok: "sms_ok s"
  obtains (none) "find (still_queued busy s) ids = None" "claim_from now node_id busy ids s = Inr (None, s)"
  | (claim) m where "m \<in> set (sm_messages s)" "ms_status m = ''queued''" "ms_id m \<in> set ids" "ms_id m \<notin> busy"
      "find (still_queued busy s) ids = Some (ms_id m)"
      "claim_from now node_id busy ids s = Inr (Some (claimed_by now node_id m),
        s\<lparr>sm_messages := map (\<lambda>x. if ms_id x = ms_id m then claimed_by now node_id x else x) (sm_messages s),
          sm_attempts := sm_attempts s @ [accepted_attempt node_id m]\<rparr>)"
proof (cases "find (still_queued busy s) ids")
  case None
  then show thesis using none by (simp add: claim_from_def)
next
  case (Some i)
  then have "still_queued busy s i" "i \<in> set ids" by (auto simp: find_Some_iff)
  then obtain m where m: "m \<in> set (sm_messages s)" "ms_id m = i" "ms_status m = ''queued''" "i \<notin> busy" by (auto simp: still_queued_def)
  let ?f = "\<lambda>x. if ms_id x = i then claimed_by now node_id x else x"
  have id: "ms_id (?f x) = ms_id x" for x by (simp add: claimed_by_def)
  have "find (\<lambda>m. ms_id m = i) (map ?f (sm_messages s)) = map_option ?f (find (\<lambda>m. ms_id m = i) (sm_messages s))"
    by (rule find_mapped) (simp only: id)
  then have found: "find (\<lambda>m. ms_id m = i) (map ?f (sm_messages s)) = Some (claimed_by now node_id m)"
    using find_message [OF ok m(1)] m(2) by (simp add: message_by_id_def)
  have up: "update_message i (\<lambda>m. m\<lparr>ms_status := ''assigned'', ms_node := Some node_id, ms_assigned_at := Some now, ms_attempts := ms_attempts m + 1\<rparr>) s
    = s\<lparr>sm_messages := map ?f (sm_messages s)\<rparr>"
    by (simp add: update_message_def update_messages_def claimed_by_def [abs_def])
  have fit: "attempts_fit m (attempts_of (sm_attempts s) i)" using messages_okD(5) [OF sms_okD(2) [OF ok] m(1)] m(2) by simp
  have "a \<notin> set (sm_attempts s) \<or> at_message a \<noteq> i \<or> at_number a \<noteq> ms_attempts m + 1" for a
  proof (rule ccontr)
    assume "\<not> ?thesis"
    then have "ms_attempts m + 1 \<in> set (map at_number (attempts_of (sm_attempts s) i))" by (auto simp: attempts_of_def intro: image_eqI [of _ _ a])
    moreover have "set (map at_number (attempts_of (sm_attempts s) i)) = {1..ms_attempts m}" using fit unfolding attempts_fit_def by (metis set_upto)
    ultimately show False by simp
  qed
  then have fresh: "\<not> (\<exists>a\<in>set (sm_attempts s). at_message a = i \<and> at_number a = ms_attempts (claimed_by now node_id m))"
    by (auto simp: claimed_by_def)
  have "claim_from now node_id busy ids s = Inr (Some (claimed_by now node_id m),
      s\<lparr>sm_messages := map ?f (sm_messages s), sm_attempts := sm_attempts s @ [accepted_attempt node_id m]\<rparr>)"
    using fresh m(2) by (simp add: claim_from_def Some up message_by_id_def found Let_def accepted_attempt_def) (simp add: claimed_by_def)
  then show thesis using claim [OF m(1,3)] m Some \<open>i \<in> set ids\<close> by simp
qed

lemma claim_from_ok:
  assumes ok: "sms_ok s" and c: "claim_from now node_id busy ids s = Inr (x, t)" shows "sms_step_ok s t"
proof (cases rule: claim_from_cases [OF ok, of busy ids now node_id, case_names none claim])
  case none
  then show ?thesis using c sms_step_ok_refl [OF ok] by simp
next
  case (claim m)
  let ?g = "\<lambda>x. if ms_id x = ms_id m then claimed_by now node_id x else x"
  let ?ats = "sm_attempts s @ [accepted_attempt node_id m]"
  note v = messages_okD [OF sms_okD(2) [OF ok]]
  have t: "t = s\<lparr>sm_messages := map ?g (sm_messages s), sm_attempts := ?ats\<rparr>" using c claim(6) by simp
  have g: "?g y = (if y = m then claimed_by now node_id m else y)" if "y \<in> set (sm_messages s)" for y
    using message_unique [OF ok that claim(1)] by auto
  have mok: "message_ok (claimed_by now node_id m)"
    using v(3) [OF claim(1)] claim(2) by (simp add: message_ok_def claimed_by_def IN_FLIGHT_def TERMINAL_def MAX_DELIVERY_ATTEMPTS_def)
  have moves: "message_moves (sm_campaigns s) y (?g y)" if y: "y \<in> set (sm_messages s)" for y
  proof (cases "y = m")
    case True
    have "message_moves (sm_campaigns s) m (claimed_by now node_id m)"
      using mok claim(2) by (simp add: message_moves_def TERMINAL_def claimed_by_def message_identity_def)
    then show ?thesis using True by simp
  qed (simp add: g [OF y] message_moves_def)
  have fit: "attempts_fit (?g y) (attempts_of ?ats (ms_id y))" if y: "y \<in> set (sm_messages s)" for y
  proof (cases "y = m")
    case True
    have "attempts_fit (claimed_by now node_id m) (attempts_of (sm_attempts s) (ms_id m) @ [accepted_attempt node_id m])"
      by (rule attempts_fit_next [OF v(5) [OF claim(1)] claim(2)])
        (use v(3) [OF claim(1)] in \<open>simp_all add: claimed_by_def accepted_attempt_def message_ok_def\<close>)
    then show ?thesis using True by (simp add: attempts_of_def accepted_attempt_def)
  next
    case False
    then have "ms_id y \<noteq> ms_id m" using message_unique [OF ok y claim(1)] by blast
    then show ?thesis using v(5) [OF y] by (simp add: attempts_of_def accepted_attempt_def)
  qed
  have known: "at_message a \<in> ms_id ` set (sm_messages s)" if "a \<in> set ?ats" for a
    using that v(6) claim(1) by (auto simp: accepted_attempt_def)
  show ?thesis by (rule messages_update_ok [where g = ?g, OF ok t moves fit known])
qed

subsection \<open>A message in flight is settled\<close>

text \<open>The one change behind a start, a report and the sweep: the message and its last attempt change together.\<close>

definition settle_attempt :: "sms_message \<Rightarrow> (sms_message \<Rightarrow> sms_message) \<Rightarrow> (attempt \<Rightarrow> attempt) \<Rightarrow> sms \<Rightarrow> sms" where
  "settle_attempt m g f s = update_message (ms_id m) g (update_attempt (ms_id m) (ms_attempts m) f s)"

lemma settle_attempt_ok:
  assumes ok: "sms_ok s" and m: "m \<in> set (sm_messages s)" "ms_status m \<in> IN_FLIGHT"
    and g: "message_identity (g m) = message_identity m" "ms_attempts (g m) = ms_attempts m" "message_ok (g m)" "ms_status (g m) \<noteq> ''cancelled''"
    and f: "\<And>a. at_message (f a) = at_message a" "\<And>a. at_number (f a) = at_number a"
    and fits: "\<And>a. at_number a = ms_attempts m \<Longrightarrow> attempt_fits m a \<Longrightarrow> attempt_fits (g m) (f a)"
  shows "sms_step_ok s (settle_attempt m g f s)"
proof -
  let ?g = "\<lambda>x. if ms_id x = ms_id m then g x else x"
  let ?ats = "map (\<lambda>a. if at_message a = ms_id m \<and> at_number a = ms_attempts m then f a else a) (sm_attempts s)"
  note v = messages_okD [OF sms_okD(2) [OF ok]]
  have t: "settle_attempt m g f s = s\<lparr>sm_messages := map ?g (sm_messages s), sm_attempts := ?ats\<rparr>"
    by (simp add: settle_attempt_def update_message_def update_messages_def update_attempt_def)
  have moves: "message_moves (sm_campaigns s) y (?g y)" if y: "y \<in> set (sm_messages s)" for y
  proof (cases "y = m")
    case True
    then show ?thesis using g m(2) by (auto simp: message_moves_def TERMINAL_def IN_FLIGHT_def)
  next
    case False
    then have "ms_id y \<noteq> ms_id m" using message_unique [OF ok y m(1)] by blast
    then show ?thesis by (simp add: message_moves_def)
  qed
  have fit: "attempts_fit (?g y) (attempts_of ?ats (ms_id y))" if y: "y \<in> set (sm_messages s)" for y
  proof (cases "y = m")
    case True
    have "attempts_fit (g m) (map (\<lambda>a. if at_number a = ms_attempts m then f a else a) (attempts_of (sm_attempts s) (ms_id m)))"
      by (rule attempts_fit_settled [OF v(5) [OF m(1)] g(2) f(2) fits])
    then show ?thesis using True attempts_of_same [where f = f, OF f(1)] by simp
  next
    case False
    then have "ms_id m \<noteq> ms_id y" using message_unique [OF ok y m(1)] by metis
    then show ?thesis using v(5) [OF y] attempts_of_other [where f = f, OF f(1)] by simp
  qed
  have known: "at_message a \<in> ms_id ` set (sm_messages s)" if "a \<in> set ?ats" for a
  proof -
    have "at_message (if at_message a = ms_id m \<and> at_number a = ms_attempts m then f a else a) = at_message a" for a using f(1) by simp
    then have "map at_message ?ats = map at_message (sm_attempts s)" by simp
    then have "at_message ` set ?ats = at_message ` set (sm_attempts s)" by (metis set_map)
    then have "at_message a \<in> at_message ` set (sm_attempts s)" using that by blast
    then show ?thesis using v(6) by auto
  qed
  show ?thesis by (rule messages_update_ok [where g = ?g, OF ok t moves fit known])
qed

subsection \<open>Completing a campaign\<close>

lemma statuses_of_iff: "st \<in> statuses_of ms i \<longleftrightarrow> (\<exists>m\<in>set ms. ms_campaign m = Some i \<and> ms_status m = st)"
  unfolding statuses_of_def image_iff by blast

lemma statuses_without_open:
  assumes ok: "sms_ok s" and c: "campaign_by_id s i = Some c" "cp_status c = ''running''" and no: "\<not> has_message s i NON_TERMINAL"
  shows "statuses_of (sm_messages s) i \<subseteq> {''delivered'', ''suppressed'', ''dead_letter''}"
proof
  fix st assume "st \<in> statuses_of (sm_messages s) i"
  then obtain m where m: "m \<in> set (sm_messages s)" "ms_campaign m = Some i" "st = ms_status m" by (auto simp: statuses_of_def)
  have "st \<noteq> ''cancelled''"
  proof
    assume "st = ''cancelled''"
    then obtain d where "d \<in> set (sm_campaigns s)" "cp_id d = i" "cp_status d = ''cancelled''"
      using messages_okD(4) [OF sms_okD(2) [OF ok] m(1)] m(2,3) by (auto simp: placed_def)
    then show False using campaign_unique [OF ok, of d c] campaign_of [OF ok c(1)] c(2) by simp
  qed
  moreover have "st \<notin> NON_TERMINAL" using no m by (auto simp: has_message_def)
  ultimately show "st \<in> {''delivered'', ''suppressed'', ''dead_letter''}"
    using message_status [OF ok m(1)] m(3) by (auto simp: NON_TERMINAL_def IN_FLIGHT_def TERMINAL_def)
qed

lemma maybe_complete_ok:
  assumes ok: "sms_ok s"
  shows "\<exists>x t. maybe_complete_campaign now i s = Inr (x, t) \<and> sms_step_ok s t \<and> sm_messages t = sm_messages s \<and> sm_attempts t = sm_attempts s"
proof (cases "\<exists>c. campaign_by_id s i = Some c \<and> cp_status c = ''running'' \<and> \<not> has_message s i NON_TERMINAL")
  case False
  then have "maybe_complete_campaign now i s = Inr (None, s)"
    unfolding maybe_complete_campaign_def by (cases "campaign_by_id s i") (auto split: if_splits)
  then show ?thesis using sms_step_ok_refl [OF ok] by simp
next
  case True
  then obtain c where c: "campaign_by_id s i = Some c" "cp_status c = ''running''" "\<not> has_message s i NON_TERMINAL" by blast
  let ?st = "if has_message s i {''failed'', ''dead_letter''} then ''completed_with_errors'' else ''completed''"
  let ?x = "\<lambda>c. c\<lparr>cp_completed_at := Some now\<rparr>"
  obtain d t where tr: "transition i [''running''] ?st None None ?x s = Inr (d, t)"
    using transition_total [OF c(1), of "[''running'']" ?x ?st None None] c(2) by auto
  have mc: "maybe_complete_campaign now i s = Inr (Some d, t)" using c tr by (simp add: maybe_complete_campaign_def)
  note sub = statuses_without_open [OF ok c]
  have dead: "has_message s i {''failed'', ''dead_letter''} \<longleftrightarrow> ''dead_letter'' \<in> statuses_of (sm_messages s) i"
  proof -
    have "''failed'' \<notin> statuses_of (sm_messages s) i" using sub by auto
    moreover have "has_message s i {''failed'', ''dead_letter''} \<longleftrightarrow> ''failed'' \<in> statuses_of (sm_messages s) i \<or> ''dead_letter'' \<in> statuses_of (sm_messages s) i"
      unfolding has_message_def statuses_of_iff by auto
    ultimately show ?thesis by blast
  qed
  have step: "sms_step_ok s t"
    by (rule transition_ok [OF ok tr]) (use sub dead in \<open>auto simp: LIFECYCLE_def split: if_splits\<close>)
  obtain e where "t = s\<lparr>sm_campaigns := map (\<lambda>x. if cp_id x = i then ?x (x\<lparr>cp_status := ?st\<rparr>) else x) (sm_campaigns s), sm_events := sm_events s @ [e]\<rparr>"
    by (rule transition_cases [OF tr]) auto
  then show ?thesis using mc step by simp
qed

lemma complete_after_ok:
  assumes ok: "sms_ok s"
  shows "\<exists>t. complete_after now ci ended s = Inr t \<and> sms_step_ok s t \<and> sm_messages t = sm_messages s \<and> sm_attempts t = sm_attempts s"
proof (cases "ci = None \<or> \<not> ended")
  case True
  then show ?thesis using sms_step_ok_refl [OF ok] by (cases ci) (auto simp: complete_after_def)
next
  case False
  then obtain i where i: "ci = Some i" "ended" by auto
  then show ?thesis using maybe_complete_ok [OF ok, of now i] by (auto simp: complete_after_def)
qed

subsection \<open>Starting and reporting\<close>

lemma in_flight_node: "sms_ok s \<Longrightarrow> m \<in> set (sm_messages s) \<Longrightarrow> ms_node m \<noteq> None \<longleftrightarrow> ms_status m \<in> IN_FLIGHT"
  using messages_okD(3) [OF sms_okD(2)] by (simp add: message_ok_def)

lemma start_message_ok:
  assumes ok: "sms_ok s" and q: "start_message i node_id s = Inr (x, t)" shows "sms_step_ok s t"
proof -
  let ?g = "\<lambda>m. m\<lparr>ms_status := ''sending''\<rparr>"
  let ?f = "\<lambda>a. a\<lparr>at_outcome := ''started''\<rparr>"
  obtain m where m: "message_by_id s i = Some m" "ms_node m = Some node_id" "ms_status m = ''assigned''"
    and t: "t = update_attempt i (ms_attempts m) ?f (update_message i ?g s)"
    using q by (auto simp: start_message_def split: option.splits if_splits)
  note mm = message_of [OF m(1)]
  have t': "t = settle_attempt m ?g ?f s" using t mm by (simp add: settle_attempt_def update_message_def update_messages_def update_attempt_def)
  show ?thesis unfolding t'
    by (rule settle_attempt_ok [OF ok conjunct1 [OF mm]])
      (use m messages_okD(3) [OF sms_okD(2) [OF ok] conjunct1 [OF mm]] in
        \<open>simp_all add: IN_FLIGHT_def TERMINAL_def message_identity_def message_ok_def attempt_fits_def\<close>)
qed

text \<open>What a report or the sweep makes of a message: over if it was delivered or cannot be retried, queued otherwise.\<close>

definition ended_as :: "string \<Rightarrow> string option \<Rightarrow> sms_message \<Rightarrow> sms_message" where
  "ended_as st error_class m = m\<lparr>ms_status := st, ms_node := None, ms_last_error := error_class\<rparr>"

lemma ended_ok:
  assumes ok: "sms_ok s" and m: "m \<in> set (sm_messages s)" "ms_status m \<in> IN_FLIGHT"
    and st: "outcome = ''delivered'' \<and> st = ''delivered'' \<or> outcome \<in> {''failed'', ''unknown''} \<and> (st = ''dead_letter'' \<or> st = ''queued'' \<and> ms_attempts m < MAX_DELIVERY_ATTEMPTS)"
    and f: "\<And>a. at_message (f a) = at_message a" "\<And>a. at_number (f a) = at_number a" "\<And>a. at_outcome (f a) = outcome"
  shows "sms_step_ok s (settle_attempt m (ended_as st error_class) f s)"
proof (rule settle_attempt_ok [OF ok m])
  have mok: "message_ok m" using messages_okD(3) [OF sms_okD(2) [OF ok] m(1)] .
  show "message_ok (ended_as st error_class m)"
    using mok m(2) st by (auto simp: message_ok_def ended_as_def IN_FLIGHT_def TERMINAL_def)
  show "attempt_fits (ended_as st error_class m) (f a)" if "at_number a = ms_attempts m" "attempt_fits m a" for a
    using that st f by (auto simp: attempt_fits_def ended_as_def IN_FLIGHT_def)
qed (use st f in \<open>auto simp: ended_as_def message_identity_def\<close>)

definition reported :: "sms_message \<Rightarrow> string \<Rightarrow> string option \<Rightarrow> string" where
  "reported m outcome error_class =
     (if outcome = ''delivered'' then ''delivered'' else if can_retry m error_class then ''queued'' else ''dead_letter'')"

lemma report_ok:
  assumes ok: "sms_ok s" and m: "m \<in> set (sm_messages s)" "ms_node m = Some node_id" and out: "outcome \<in> {''delivered'', ''failed'', ''unknown''}"
  shows "\<exists>t. report_result now (ms_id m) node_id outcome error_class response s = Inr (ended_as (reported m outcome error_class) error_class m, t)
    \<and> sms_step_ok s t \<and> sm_messages t = map (\<lambda>x. if ms_id x = ms_id m then ended_as (reported m outcome error_class) error_class x else x) (sm_messages s)"
proof -
  let ?st = "reported m outcome error_class"
  let ?f = "\<lambda>a. a\<lparr>at_outcome := outcome, at_error := error_class, at_response := response\<rparr>"
  let ?s1 = "settle_attempt m (ended_as ?st error_class) ?f s"
  have fl: "ms_status m \<in> IN_FLIGHT" using in_flight_node [OF ok m(1)] m(2) by simp
  have step: "sms_step_ok s ?s1"
    by (rule ended_ok [OF ok m(1) fl, where outcome = outcome]) (use out in \<open>auto simp: reported_def can_retry_def\<close>)
  then have ok1: "sms_ok ?s1" by (simp add: sms_step_ok_def)
  obtain t where t: "complete_after now (ms_campaign m) (?st \<in> {''delivered'', ''dead_letter''}) ?s1 = Inr t" "sms_step_ok ?s1 t" "sm_messages t = sm_messages ?s1"
    using complete_after_ok [OF ok1] by blast
  have "report_result now (ms_id m) node_id outcome error_class response s = Inr (ended_as ?st error_class m, t)"
    using find_message [OF ok m(1)] m(2) t(1)
    by (simp add: report_result_def Let_def reported_def ended_as_def [abs_def] settle_attempt_def)
  moreover have "sm_messages t = map (\<lambda>x. if ms_id x = ms_id m then ended_as ?st error_class x else x) (sm_messages s)"
    using t(3) by (simp add: settle_attempt_def update_message_def update_messages_def update_attempt_def)
  ultimately show ?thesis using sms_step_ok_trans [OF step t(2)] by blast
qed

lemma report_result_ok:
  assumes ok: "sms_ok s" and out: "outcome \<in> {''delivered'', ''failed'', ''unknown''}"
    and q: "report_result now i node_id outcome error_class response s = Inr (x, t)"
  shows "sms_step_ok s t"
proof -
  obtain m where m: "message_by_id s i = Some m" "ms_node m = Some node_id" using q by (auto simp: report_result_def split: option.splits if_splits)
  note mm = message_of [OF m(1)]
  obtain u where "report_result now (ms_id m) node_id outcome error_class response s = Inr (ended_as (reported m outcome error_class) error_class m, u)"
    "sms_step_ok s u"
    using report_ok [OF ok conjunct1 [OF mm] m(2) out] by blast
  then show ?thesis using q conjunct2 [OF mm] by simp
qed

subsection \<open>The sweep\<close>

definition swept :: "sms_message \<Rightarrow> sms_message" where
  "swept m = ended_as (if ms_attempts m < MAX_DELIVERY_ATTEMPTS then ''queued'' else ''dead_letter'') (Some ''timeout'') m"

lemma reconcile_one_ok:
  assumes ok: "sms_ok s" and m: "m \<in> set (sm_messages s)" "ms_status m \<in> IN_FLIGHT"
  shows "\<exists>t. reconcile_one now m s = Inr t \<and> sms_step_ok s t \<and> sm_messages t = map (\<lambda>x. if x = m then swept m else x) (sm_messages s)"
proof -
  let ?st = "if ms_attempts m < MAX_DELIVERY_ATTEMPTS then ''queued'' else ''dead_letter''"
  let ?f = "\<lambda>a. a\<lparr>at_outcome := ''unknown'', at_error := Some ''timeout''\<rparr>"
  let ?s1 = "settle_attempt m (ended_as ?st (Some ''timeout'')) ?f s"
  obtain node_id where n: "ms_node m = Some node_id" using in_flight_node [OF ok m(1)] m(2) by auto
  have mok: "1 \<le> ms_attempts m" using messages_okD(3) [OF sms_okD(2) [OF ok] m(1)] m(2) by (auto simp: message_ok_def)
  obtain a where "a \<in> set (attempts_of (sm_attempts s) (ms_id m))" "at_number a = ms_attempts m"
    using last_attempt [OF messages_okD(5) [OF sms_okD(2) [OF ok] m(1)] mok] by blast
  then have up: "upsert_attempt m node_id s = update_attempt (ms_id m) (ms_attempts m) ?f s"
    by (auto simp: upsert_attempt_def attempts_of_def)
  have step: "sms_step_ok s ?s1" by (rule ended_ok [OF ok m, where outcome = "''unknown''"]) auto
  then have ok1: "sms_ok ?s1" by (simp add: sms_step_ok_def)
  obtain t where t: "complete_after now (ms_campaign m) (?st = ''dead_letter'') ?s1 = Inr t" "sms_step_ok ?s1 t" "sm_messages t = sm_messages ?s1"
    using complete_after_ok [OF ok1] by blast
  have "reconcile_one now m s = Inr t" using t(1) n up by (simp add: reconcile_one_def Let_def ended_as_def [abs_def] settle_attempt_def)
  moreover have "sm_messages t = map (\<lambda>x. if x = m then swept m else x) (sm_messages s)"
  proof -
    have "sm_messages t = map (\<lambda>x. if ms_id x = ms_id m then ended_as ?st (Some ''timeout'') x else x) (sm_messages s)"
      unfolding t(3) by (simp add: settle_attempt_def update_message_def update_messages_def update_attempt_def)
    also have "\<dots> = map (\<lambda>x. if x = m then swept m else x) (sm_messages s)"
      by (rule map_cong [OF refl]) (use message_unique [OF ok _ m(1)] in \<open>auto simp: swept_def\<close>)
    finally show ?thesis .
  qed
  ultimately show ?thesis using sms_step_ok_trans [OF step t(2)] by blast
qed

lemma reconcile_rows_ok:
  assumes "sms_ok s" "set rows \<subseteq> set (sm_messages s)" "distinct rows" "\<And>m. m \<in> set rows \<Longrightarrow> ms_status m \<in> IN_FLIGHT"
  shows "\<exists>t. fold_result (reconcile_one now) rows s = Inr t \<and> sms_step_ok s t
    \<and> sm_messages t = map (\<lambda>x. if x \<in> set rows then swept x else x) (sm_messages s)"
  using assms
proof (induction rows arbitrary: s)
  case Nil
  then show ?case using sms_step_ok_refl by simp
next
  case (Cons m rows)
  obtain s1 where s1: "reconcile_one now m s = Inr s1" "sms_step_ok s s1" "sm_messages s1 = map (\<lambda>x. if x = m then swept m else x) (sm_messages s)"
    using reconcile_one_ok [OF Cons.prems(1), of m now] Cons.prems(2,4) by auto
  have ok1: "sms_ok s1" using s1(2) by (simp add: sms_step_ok_def)
  have sub: "set rows \<subseteq> set (sm_messages s1)" using Cons.prems(2,3) s1(3) by auto
  obtain t where t: "fold_result (reconcile_one now) rows s1 = Inr t" "sms_step_ok s1 t"
    "sm_messages t = map (\<lambda>x. if x \<in> set rows then swept x else x) (sm_messages s1)"
    using Cons.IH [OF ok1 sub] Cons.prems(3,4) by auto
  have "swept m \<notin> set rows"
  proof
    assume "swept m \<in> set rows"
    then have "ms_status (swept m) \<in> IN_FLIGHT" using Cons.prems(4) by simp
    then show False by (auto simp: swept_def ended_as_def IN_FLIGHT_def split: if_splits)
  qed
  then have "sm_messages t = map (\<lambda>x. if x \<in> set (m # rows) then swept x else x) (sm_messages s)"
    using t(3) s1(3) Cons.prems(3) by auto
  then show ?case using s1 t sms_step_ok_trans by auto
qed

lemma reconcile_ok:
  assumes ok: "sms_ok s"
  shows "\<exists>t. reconcile_stale_in_flight now tenant stale_after busy s
      = Inr (length (filter (\<lambda>m. ms_tenant m = tenant \<and> stale (now - stale_after) m \<and> ms_id m \<notin> busy) (sm_messages s)), t)
    \<and> sms_step_ok s t
    \<and> sm_messages t = map (\<lambda>m. if ms_tenant m = tenant \<and> stale (now - stale_after) m \<and> ms_id m \<notin> busy then swept m else m) (sm_messages s)"
proof -
  let ?Q = "\<lambda>m. ms_tenant m = tenant \<and> stale (now - stale_after) m \<and> ms_id m \<notin> busy"
  have "distinct (map ms_id (sm_messages s))" by (rule numbered_distinct [OF messages_okD(1) [OF sms_okD(2) [OF ok]]])
  then have "distinct (filter ?Q (sm_messages s))" by (simp add: distinct_map)
  moreover have "set (filter ?Q (sm_messages s)) \<subseteq> set (sm_messages s)" by simp
  moreover have "ms_status m \<in> IN_FLIGHT" if "m \<in> set (filter ?Q (sm_messages s))" for m using that by (simp add: stale_def)
  ultimately obtain t where t: "fold_result (reconcile_one now) (filter ?Q (sm_messages s)) s = Inr t" "sms_step_ok s t"
    "sm_messages t = map (\<lambda>x. if x \<in> set (filter ?Q (sm_messages s)) then swept x else x) (sm_messages s)"
    using reconcile_rows_ok [OF ok] by blast
  have "sm_messages t = map (\<lambda>m. if ?Q m then swept m else m) (sm_messages s)" using t(3) by simp
  then show ?thesis using t(1,2) by (simp add: reconcile_stale_in_flight_def)
qed

end
