(* ===== verification/Sms_System.thy ===== *)
theory Sms_System
  imports Sms_Delivery Runs
begin

text \<open>
  The SMS control plane as a whole: \<open>sms_step\<close> is one request or one sweep, by any admin or any node, at any time and in any
  order. A claim works from any list of candidates: what a node reads before it claims may be out of date by then.
\<close>

inductive sms_step :: "sms \<Rightarrow> sms \<Rightarrow> bool" where
  sp_contact: "create_contact tenant phone name ats s = (i, t) \<Longrightarrow> sms_step s t"
| sp_suppress: "add_suppression tenant phone reason note s = Inr t \<Longrightarrow> sms_step s t"
| sp_unsuppress: "remove_suppression tenant phone s = (was, t) \<Longrightarrow> sms_step s t"
| sp_template: "create_template tenant name body s = Inr (i, t) \<Longrightarrow> sms_step s t"
| sp_import: "create_import_job tenant decoded format key s = Inr (j, t) \<Longrightarrow> sms_step s t"
| sp_create: "create_campaign tenant name tpl body f admin fleet job s = Inr (c, t) \<Longrightarrow> sms_step s t"
| sp_validate: "validate_campaign i admin s = Inr (c, t) \<Longrightarrow> sms_step s t"
| sp_schedule: "schedule_campaign i admin when' s = Inr (c, t) \<Longrightarrow> sms_step s t"
| sp_start: "start_campaign now i admin s = Inr (cn, t) \<Longrightarrow> sms_step s t"
| sp_pause: "pause_campaign i admin s = Inr (c, t) \<Longrightarrow> sms_step s t"
| sp_resume: "resume_campaign i admin s = Inr (c, t) \<Longrightarrow> sms_step s t"
| sp_cancel: "cancel_campaign i admin reason s = Inr (c, t) \<Longrightarrow> sms_step s t"
| sp_node: "create_node tenant name fleet token s = Inr (n, t) \<Longrightarrow> sms_step s t"
| sp_node_status: "set_node_status st i s = Inr t \<Longrightarrow> sms_step s t"
| sp_node_token: "rotate_token i token s = Inr t \<Longrightarrow> sms_step s t"
| sp_heartbeat: "record_heartbeat now i version jobs protocol s = Inr t \<Longrightarrow> sms_step s t"
| sp_health: "compute_and_store_health_score now i s = Inr (score, t) \<Longrightarrow> sms_step s t"
| sp_claim: "node_by_id s node_id \<noteq> None \<Longrightarrow> claim_from now node_id busy ids s = Inr (m, t) \<Longrightarrow> sms_step s t"
| sp_begin: "start_message i node_id s = Inr (m, t) \<Longrightarrow> sms_step s t"
| sp_report: "outcome \<in> {''delivered'', ''failed'', ''unknown''} \<Longrightarrow> report_result now i node_id outcome error_class response s = Inr (m, t) \<Longrightarrow> sms_step s t"
| sp_sweep: "reconcile_stale_in_flight now tenant after busy s = Inr (n, t) \<Longrightarrow> sms_step s t"

lemma rest_only:
  assumes "sms_ok s" "sm_contacts t = sm_contacts s \<and> sm_messages t = sm_messages s \<and> sm_attempts t = sm_attempts s
    \<and> sm_campaigns t = sm_campaigns s \<and> sm_events t = sm_events s"
  shows "sms_step_ok s t"
  using assms by (intro sms_ok_rest) simp_all

lemma node_change_rest:
  "change_node i f s = Inr t \<Longrightarrow> sm_contacts t = sm_contacts s \<and> sm_messages t = sm_messages s \<and> sm_attempts t = sm_attempts s
    \<and> sm_campaigns t = sm_campaigns s \<and> sm_events t = sm_events s"
  by (auto simp: change_node_def update_node_def split: option.splits)

lemma sms_step_one: assumes "sms_step s t" and ok: "sms_ok s" shows "sms_step_ok s t"
  using assms(1)
proof cases
  case (sp_contact tenant phone name ats i)
  show ?thesis by (rule upsert_contact_ok(1) [OF ok sp_contact [unfolded create_contact_def]]) (simp add: contact_kept_def)
next
  case sp_suppress
  then show ?thesis by (intro rest_only [OF ok]) (auto simp: add_suppression_def split: if_splits)
next
  case sp_unsuppress
  then show ?thesis by (intro rest_only [OF ok]) (auto simp: remove_suppression_def)
next
  case sp_template
  then show ?thesis by (intro rest_only [OF ok]) (auto simp: create_template_def Let_def split: if_splits)
next
  case sp_import
  then show ?thesis by (intro rest_only [OF ok]) (auto simp: create_import_job_def bind_result_Inr_iff Let_def split: option.splits)
next
  case sp_create
  then show ?thesis by (rule create_campaign_ok [OF ok])
next
  case sp_validate
  then show ?thesis by (rule validate_ok [OF ok])
next
  case sp_schedule
  then show ?thesis by (rule schedule_ok [OF ok])
next
  case (sp_start now i admin cn)
  then show ?thesis using start_ok [OF ok] by (cases cn) simp
next
  case sp_pause
  then show ?thesis by (rule pause_ok [OF ok])
next
  case sp_resume
  then show ?thesis by (rule resume_ok [OF ok])
next
  case sp_cancel
  then show ?thesis by (rule cancel_ok [OF ok])
next
  case sp_node
  then show ?thesis by (intro rest_only [OF ok]) (auto simp: create_node_def Let_def split: if_splits)
next
  case sp_node_status
  then show ?thesis by (intro rest_only [OF ok] node_change_rest) (simp add: set_node_status_def)
next
  case sp_node_token
  then show ?thesis by (intro rest_only [OF ok] node_change_rest) (simp add: rotate_token_def)
next
  case sp_heartbeat
  then show ?thesis by (intro rest_only [OF ok]) (auto simp: record_heartbeat_def update_node_def split: if_splits)
next
  case sp_health
  then show ?thesis by (intro rest_only [OF ok]) (auto simp: compute_and_store_health_score_def update_node_def Let_def split: option.splits)
next
  case sp_claim
  show ?thesis by (rule claim_from_ok [OF ok sp_claim(2)])
next
  case sp_begin
  then show ?thesis by (rule start_message_ok [OF ok])
next
  case sp_report
  then show ?thesis by (intro report_result_ok [OF ok])
next
  case (sp_sweep now tenant after busy n)
  then show ?thesis using reconcile_ok [OF ok, of now tenant after busy] by auto
qed

interpretation sms: stepping sms_step sms_ok sms_kept
proof
  show "sms_step s t \<Longrightarrow> sms_ok s \<Longrightarrow> sms_ok t" for s t using sms_step_one by (simp add: sms_step_ok_def)
  show "sms_step s t \<Longrightarrow> sms_ok s \<Longrightarrow> sms_kept s t" for s t using sms_step_one by (simp add: sms_step_ok_def)
qed (rule sms_kept_refl, rule sms_kept_trans)

lemma message_remains: "sms_kept s t \<Longrightarrow> m \<in> set (sm_messages s) \<Longrightarrow> \<exists>n\<in>set (sm_messages t). message_kept m n"
  by (rule rows_keptD) (simp_all add: sms_kept_def)

lemma campaign_remains: "sms_kept s t \<Longrightarrow> c \<in> set (sm_campaigns s) \<Longrightarrow> \<exists>d\<in>set (sm_campaigns t). campaign_kept c d"
  by (rule rows_keptD) (simp_all add: sms_kept_def)

text \<open>At the start there are no contacts, no campaigns and no messages.\<close>

definition sms_start :: "sms \<Rightarrow> bool" where
  "sms_start s \<longleftrightarrow> sm_contacts s = [] \<and> sm_campaigns s = [] \<and> sm_events s = [] \<and> sm_messages s = [] \<and> sm_attempts s = []"

lemma sms_start_ok: "sms_start s \<Longrightarrow> sms_ok s"
  by (simp add: sms_start_def sms_ok_def contacts_ok_def messages_ok_def campaigns_ok_def)

lemma sms_reached: "sms_start s0 \<Longrightarrow> sms_step\<^sup>*\<^sup>* s0 s \<Longrightarrow> sms_ok s"
  by (rule sms.run_good [OF _ sms_start_ok])

end
