(* ===== verification/Sms_Recipients.thy ===== *)
theory Sms_Recipients
  imports Sms_System
begin

text \<open>
  Who gets a message: what the check of a CSV file lets through, what starting a campaign queues, and which message a
  node is given next.
\<close>

subsection \<open>The rows of an import\<close>

definition ethiopian :: "utext \<Rightarrow> bool" where
  "ethiopian p \<longleftrightarrow> (\<exists>n. p = points ''+251'' @ n \<and> length n = 9 \<and> list_all decimal_point n \<and> take 1 n \<in> {points ''7'', points ''9''})"

lemma normalized_ethiopian: assumes "normalize_ethiopian_phone raw = Some p" shows "ethiopian p"
proof -
  let ?ds = "filter decimal_point raw"
  obtain n where n: "p = points ''+251'' @ n" "length n = 9" "take 1 n \<in> {points ''7'', points ''9''}" "n \<in> {drop 3 ?ds, drop 1 ?ds, ?ds}"
    using assms by (auto simp: normalize_ethiopian_phone_def Let_def split: if_splits)
  have "set n \<subseteq> set ?ds" using n(4) set_drop_subset by fastforce
  then have "list_all decimal_point n" by (auto simp: list_all_iff)
  then show ?thesis using n(1-3) by (auto simp: ethiopian_def)
qed

definition row_checked :: "string \<Rightarrow> utext set \<Rightarrow> parsed_row \<Rightarrow> bool" where
  "row_checked format suppressed r \<longleftrightarrow> pr_status r \<in> {''valid'', ''invalid'', ''duplicate'', ''suppressed''}
     \<and> (pr_status r = ''valid'' \<longrightarrow> (\<exists>p. pr_phone r = Some p \<and> ethiopian p \<and> p \<notin> suppressed)
       \<and> (format = ''phone_message'' \<longrightarrow> (\<exists>b. pr_body r = Some b \<and> b \<noteq> [] \<and> count_segments b \<le> MAX_MESSAGE_SEGMENTS)))"

lemma validate_row_checked:
  assumes "validate_row format suppressed n row seen = (r, seen')"
  shows "row_checked format suppressed r" "pr_number r = n" "seen \<subseteq> seen'"
    "pr_status r = ''valid'' \<Longrightarrow> the (pr_phone r) \<notin> seen \<and> the (pr_phone r) \<in> seen'"
  using assms normalized_ethiopian
  by (auto simp: validate_row_def row_checked_def Let_def not_less split: if_splits option.splits)

lemma validated_rows_checked:
  assumes "validated_rows format suppressed names rs n seen = Inr ps"
  shows "list_all (row_checked format suppressed) ps \<and> map pr_number ps = [n + 1..n + int (length ps)] \<and> (ps = [] \<longrightarrow> n \<noteq> 0)
    \<and> distinct (map pr_phone (filter (\<lambda>r. pr_status r = ''valid'') ps)) \<and> (\<forall>r\<in>set ps. pr_status r = ''valid'' \<longrightarrow> the (pr_phone r) \<notin> seen)
    \<and> (ps \<noteq> [] \<longrightarrow> n + int (length ps) \<le> MAX_CSV_ROWS)"
  using assms
proof (induction rs arbitrary: n seen ps)
  case Nil
  then show ?case by (auto split: if_splits)
next
  case (Cons r rs)
  obtain row where row: "n + 1 \<le> MAX_CSV_ROWS" "normalized_row names r = Inr row"
    using Cons.prems by (auto simp: bind_result_Inr_iff split: if_splits)
  obtain p seen1 where p: "validate_row format suppressed (n + 1) row seen = (p, seen1)" by fastforce
  then obtain rest where r: "n + 1 \<le> MAX_CSV_ROWS" "validate_row format suppressed (n + 1) row seen = (p, seen1)"
    "validated_rows format suppressed names rs (n + 1) seen1 = Inr rest" "ps = p # rest"
    using Cons.prems row by (auto simp: bind_result_Inr_iff split: if_splits)
  note v = validate_row_checked [OF r(2)] and h = Cons.IH [OF r(3)]
  have nums: "map pr_number ps = [n + 1..n + int (length ps)]"
  proof -
    have "[n + 1..n + int (length ps)] = (n + 1) # [n + 1 + 1..n + 1 + int (length rest)]"
      unfolding r(4) by (simp add: upto_rec1 algebra_simps)
    then show ?thesis using h v(2) unfolding r(4) by simp
  qed
  have new: "pr_phone p \<notin> pr_phone ` set (filter (\<lambda>r. pr_status r = ''valid'') rest)" if "pr_status p = ''valid''"
  proof
    assume "pr_phone p \<in> pr_phone ` set (filter (\<lambda>r. pr_status r = ''valid'') rest)"
    then obtain q where "q \<in> set rest" "pr_status q = ''valid''" "pr_phone q = pr_phone p" by auto
    then show False using h v(4) [OF that] by auto
  qed
  have "n + int (length ps) \<le> MAX_CSV_ROWS" using h r(1,4) by (cases rest) auto
  moreover have "\<forall>q\<in>set ps. pr_status q = ''valid'' \<longrightarrow> the (pr_phone q) \<notin> seen" using h v(3,4) r(4) by auto
  moreover have "distinct (map pr_phone (filter (\<lambda>r. pr_status r = ''valid'') ps))" using h new r(4) by simp
  moreover have "list_all (row_checked format suppressed) ps" using h v(1) r(4) by simp
  ultimately show ?case using nums r(4) by simp
qed

lemma counts_add_up:
  assumes "list_all (row_checked format suppressed) ps"
  shows "count_rows ''valid'' ps + count_rows ''invalid'' ps + count_rows ''duplicate'' ps + count_rows ''suppressed'' ps = int (length ps)"
  using assms by (induction ps) (auto simp: count_rows_def row_checked_def)

definition imported :: "sms \<Rightarrow> int \<Rightarrow> string \<Rightarrow> string \<Rightarrow> parsed_row list \<Rightarrow> import_job" where
  "imported s tenant format key ps = \<lparr>ij_id = int (length (sm_jobs s)) + 1, ij_tenant = tenant, ij_campaign = None, ij_format = format,
     ij_status = ''completed'', ij_key = key, ij_total = int (length ps), ij_valid = count_rows ''valid'' ps, ij_invalid = count_rows ''invalid'' ps,
     ij_duplicate = count_rows ''duplicate'' ps, ij_suppressed = count_rows ''suppressed'' ps\<rparr>"

definition stored_row :: "int \<Rightarrow> parsed_row \<Rightarrow> import_row" where
  "stored_row i r = \<lparr>ir_job = i, ir_number = pr_number r, ir_raw_phone = pr_raw_phone r, ir_phone = pr_phone r, ir_body = pr_body r,
     ir_status = pr_status r, ir_error = pr_error r\<rparr>"

lemma import_cases:
  assumes "create_import_job tenant decoded format key s = Inr (job, t)" "find (\<lambda>j. ij_tenant j = tenant \<and> ij_key j = key) (sm_jobs s) = None"
  shows "\<exists>ps. validate_csv_text decoded format (sp_phone ` set (filter (\<lambda>x. sp_tenant x = tenant) (sm_suppressions s))) = Inr ps
    \<and> job = imported s tenant format key ps \<and> t = s\<lparr>sm_jobs := sm_jobs s @ [job], sm_rows := sm_rows s @ map (stored_row (ij_id job)) ps\<rparr>"
proof -
  obtain ps where "validate_csv_text decoded format (sp_phone ` set (filter (\<lambda>x. sp_tenant x = tenant) (sm_suppressions s))) = Inr ps"
    using assms by (cases "validate_csv_text decoded format (sp_phone ` set (filter (\<lambda>x. sp_tenant x = tenant) (sm_suppressions s)))")
      (simp_all add: create_import_job_def)
  then show ?thesis using assms by (auto simp: create_import_job_def Let_def imported_def stored_row_def [abs_def])
qed

subsection \<open>Queueing\<close>

definition message_keys :: "sms \<Rightarrow> string set" where "message_keys s = ms_key ` set (sm_messages s)"

lemma message_keys_iff: "key \<in> message_keys s \<longleftrightarrow> (\<exists>m\<in>set (sm_messages s). ms_key m = key)"
  unfolding message_keys_def image_iff by blast

definition queued_for :: "sms \<Rightarrow> campaign \<Rightarrow> sms_message \<Rightarrow> bool" where
  "queued_for s c m \<longleftrightarrow> ms_campaign m = Some (cp_id c) \<and> ms_tenant m = cp_tenant c \<and> ms_attempts m = 0
     \<and> ms_status m = (if is_suppressed s (cp_tenant c) (ms_phone m) then ''suppressed'' else ''queued'') \<and> ms_segments m = count_segments (ms_body m)"

text \<open>The loops only add contacts and messages, and count the messages.\<close>

definition grown :: "sms \<Rightarrow> campaign \<Rightarrow> nat \<times> sms \<Rightarrow> bool" where
  "grown s c ns \<longleftrightarrow> (\<exists>ks new. snd ns = s\<lparr>sm_contacts := ks, sm_messages := sm_messages s @ new\<rparr> \<and> length new = fst ns \<and> (\<forall>m\<in>set new. queued_for s c m))"

lemma grown_start: "grown s c (0, s)"
  unfolding grown_def by (rule exI [of _ "sm_contacts s"], rule exI [of _ "[]"]) simp

lemma grown_suppressions: "grown s c ns \<Longrightarrow> is_suppressed (snd ns) tenant phone = is_suppressed s tenant phone"
  by (auto simp: grown_def is_suppressed_def)

lemma grown_contacts: "grown s c (n, u) \<Longrightarrow> grown s c (n, u\<lparr>sm_contacts := ks\<rparr>)"
proof -
  assume "grown s c (n, u)"
  then obtain ks0 new where "u = s\<lparr>sm_contacts := ks0, sm_messages := sm_messages s @ new\<rparr>" "length new = n" "\<forall>m\<in>set new. queued_for s c m"
    by (auto simp: grown_def)
  then show ?thesis unfolding grown_def by (intro exI [of _ ks] exI [of _ new]) simp
qed

lemma insert_message_grown:
  assumes "grown s c ns" "insert_message now c k phone body (is_suppressed s (cp_tenant c) phone) ns = ns'"
  shows "grown s c ns'" "message_keys (snd ns) \<subseteq> message_keys (snd ns')" "campaign_key (cp_id c) k \<in> message_keys (snd ns')"
    "sm_contacts (snd ns') = sm_contacts (snd ns)"
proof -
  obtain n u where ns: "ns = (n, u)" by fastforce
  obtain ks new where u: "u = s\<lparr>sm_contacts := ks, sm_messages := sm_messages s @ new\<rparr>" "length new = n" "\<forall>m\<in>set new. queued_for s c m"
    using assms(1) ns by (auto simp: grown_def)
  let ?seen = "\<exists>m\<in>set (sm_messages u). ms_key m = campaign_key (cp_id c) k"
  let ?m = "\<lparr>ms_id = int (length (sm_messages u)) + 1, ms_tenant = cp_tenant c, ms_campaign = Some (cp_id c),
        ms_contact = Some k, ms_phone = phone, ms_body = body, ms_segments = count_segments body, ms_priority = ''normal'',
        ms_status = (if is_suppressed s (cp_tenant c) phone then ''suppressed'' else ''queued''), ms_node = None, ms_assigned_at = None, ms_attempts = 0,
        ms_last_error = None, ms_key = campaign_key (cp_id c) k, ms_created_at = now\<rparr>"
  have ns': "ns' = (if ?seen then (n, u) else (n + 1, u\<lparr>sm_messages := sm_messages u @ [?m]\<rparr>))"
    using assms(2) ns by (auto simp: insert_message_def Let_def)
  have q: "queued_for s c ?m" by (simp add: queued_for_def)
  show "grown s c ns'"
  proof (cases ?seen)
    case True
    then show ?thesis using assms(1) ns ns' by simp
  next
    case False
    have "grown s c (n + 1, u\<lparr>sm_messages := sm_messages u @ [?m]\<rparr>)"
      unfolding grown_def by (rule exI [of _ ks], rule exI [of _ "new @ [?m]"]) (use u q in simp)
    then show ?thesis using ns' False by simp
  qed
  show "message_keys (snd ns) \<subseteq> message_keys (snd ns')" "campaign_key (cp_id c) k \<in> message_keys (snd ns')"
    "sm_contacts (snd ns') = sm_contacts (snd ns)"
    unfolding subset_iff message_keys_iff using ns ns' by auto
qed

lemma insert_message_again:
  "campaign_key (cp_id c) k \<in> message_keys (snd ns) \<Longrightarrow> insert_message now c k phone body hushed ns = ns"
  unfolding message_keys_iff by (cases ns) (simp add: insert_message_def Let_def)

text \<open>A loop whose every round leaves its mark, and marks stay: then all marks are set at the end.\<close>

lemma fold_result_marks:
  assumes "fold_result f xs u = Inr v" "P u"
    and "\<And>x u v. x \<in> set xs \<Longrightarrow> P u \<Longrightarrow> f x u = Inr v \<Longrightarrow> P v"
    and "\<And>x u v. x \<in> set xs \<Longrightarrow> P u \<Longrightarrow> f x u = Inr v \<Longrightarrow> A x v"
    and "\<And>x y u v. y \<in> set xs \<Longrightarrow> P u \<Longrightarrow> f y u = Inr v \<Longrightarrow> A x u \<Longrightarrow> A x v"
  shows "\<forall>x\<in>set xs. A x v"
  using assms
proof (induction xs arbitrary: u)
  case (Cons x xs)
  obtain w where w: "f x u = Inr w" "fold_result f xs w = Inr v" using Cons.prems(1) by (auto simp: bind_result_Inr_iff)
  have pw: "P w" by (rule Cons.prems(3) [OF _ Cons.prems(2) w(1)]) simp
  have start: "P w \<and> A x w" using pw Cons.prems(4) [OF _ Cons.prems(2) w(1)] by simp
  have "P v \<and> A x v"
  proof (rule fold_result_invariant [where P = "\<lambda>u. P u \<and> A x u", OF w(2) start])
    fix y a b assume y: "y \<in> set xs" "P a \<and> A x a" "f y a = Inr b"
    have y1: "y \<in> set (x # xs)" using y(1) by simp
    show "P b \<and> A x b"
      using Cons.prems(3) [OF y1 conjunct1 [OF y(2)] y(3)] Cons.prems(5) [OF y1 conjunct1 [OF y(2)] y(3) conjunct2 [OF y(2)]] by simp
  qed
  moreover have "\<forall>y\<in>set xs. A y v"
  proof (rule Cons.IH [OF w(2) pw])
    show "P b" if "y \<in> set xs" "P a" "f y a = Inr b" for y a b by (rule Cons.prems(3) [OF _ that(2,3)]) (use that in simp)
    show "A y b" if "y \<in> set xs" "P a" "f y a = Inr b" for y a b by (rule Cons.prems(4) [OF _ that(2,3)]) (use that in simp)
    show "A z b" if "y \<in> set xs" "P a" "f y a = Inr b" "A z a" for z y a b by (rule Cons.prems(5) [OF _ that(2-4)]) (use that in simp)
  qed
  ultimately show ?case by simp
qed simp

lemma fold_result_fixed: "(\<And>x. x \<in> set xs \<Longrightarrow> f x u = Inr u) \<Longrightarrow> fold_result f xs u = Inr u"
  by (induction xs) auto

definition has_mark :: "campaign \<Rightarrow> utext option \<Rightarrow> utext option \<Rightarrow> int \<Rightarrow> sms \<Rightarrow> bool" where
  "has_mark c tbody name k s \<longleftrightarrow> (\<exists>b. effective_body c tbody = Inr b
     \<and> (case render_template b (display_variables name) of Inl _ \<Rightarrow> True | Inr _ \<Rightarrow> campaign_key (cp_id c) k \<in> message_keys s))"

lemma enqueue_recipient_marks:
  assumes "grown s c ns" "enqueue_recipient now c tbody r ns = Inr ns'"
  shows "grown s c ns'" "has_mark c tbody (rp_display_name r) (rp_contact r) (snd ns')" "message_keys (snd ns) \<subseteq> message_keys (snd ns')"
    "sm_contacts (snd ns') = sm_contacts (snd ns)"
proof -
  obtain b where b: "effective_body c tbody = Inr b"
    and ns': "ns' = (case render_template b (display_variables (rp_display_name r)) of Inl _ \<Rightarrow> ns
      | Inr rendered \<Rightarrow> insert_message now c (rp_contact r) (rp_phone r) rendered (is_suppressed s (cp_tenant c) (rp_phone r)) ns)"
    using assms(2) unfolding enqueue_recipient_def bind_result_Inr_iff grown_suppressions [OF assms(1)] sum.inject by blast
  have "grown s c ns' \<and> has_mark c tbody (rp_display_name r) (rp_contact r) (snd ns') \<and> message_keys (snd ns) \<subseteq> message_keys (snd ns')
    \<and> sm_contacts (snd ns') = sm_contacts (snd ns)"
  proof (cases "render_template b (display_variables (rp_display_name r))")
    case (Inl e)
    then show ?thesis using b ns' assms(1) by (simp add: has_mark_def)
  next
    case (Inr rendered)
    then have "insert_message now c (rp_contact r) (rp_phone r) rendered (is_suppressed s (cp_tenant c) (rp_phone r)) ns = ns'" using ns' by simp
    from insert_message_grown [OF assms(1) this] show ?thesis using b Inr by (simp add: has_mark_def)
  qed
  then show "grown s c ns'" "has_mark c tbody (rp_display_name r) (rp_contact r) (snd ns')" "message_keys (snd ns) \<subseteq> message_keys (snd ns')"
    "sm_contacts (snd ns') = sm_contacts (snd ns)" by simp_all
qed

lemma has_mark_mono: "has_mark c tbody name k u \<Longrightarrow> message_keys u \<subseteq> message_keys v \<Longrightarrow> has_mark c tbody name k v"
  by (auto simp: has_mark_def split: sum.splits)

lemma start_template_same: "template_body t = template_body s \<Longrightarrow> start_template c t = start_template c s"
  by (cases "cp_template c") (simp_all add: start_template_def)

lemma audience_twice:
  assumes q: "enqueue_audience now c s = Inr (n, t)"
  shows "grown s c (n, t)" "enqueue_audience now' c t = Inr (0, t)"
proof -
  obtain tbody rs where tb: "start_template c s = Inr tbody" and rs: "resolve_recipients (cp_tenant c) (cp_audience c) s = Inr rs"
    and f: "fold_result (enqueue_recipient now c tbody) rs (0, s) = Inr (n, t)"
    using q by (auto simp: enqueue_audience_def bind_result_Inr_iff)
  let ?P = "\<lambda>ns. grown s c ns \<and> sm_contacts (snd ns) = sm_contacts s"
  have P: "?P (n, t)"
    by (rule fold_result_invariant [where P = ?P, OF f]) (use grown_start enqueue_recipient_marks in \<open>auto dest: enqueue_recipient_marks(1,4)\<close>)
  then show "grown s c (n, t)" by simp
  have marks: "\<forall>r\<in>set rs. has_mark c tbody (rp_display_name r) (rp_contact r) (snd (n, t))"
  proof (rule fold_result_marks [where P = "grown s c" and A = "\<lambda>r ns. has_mark c tbody (rp_display_name r) (rp_contact r) (snd ns)", OF f grown_start])
    show "grown s c v" if "grown s c u" "enqueue_recipient now c tbody x u = Inr v" for x u v by (rule enqueue_recipient_marks(1) [OF that])
    show "has_mark c tbody (rp_display_name x) (rp_contact x) (snd v)" if "grown s c u" "enqueue_recipient now c tbody x u = Inr v" for x u v
      by (rule enqueue_recipient_marks(2) [OF that])
    show "has_mark c tbody (rp_display_name x) (rp_contact x) (snd v)"
      if "grown s c u" "enqueue_recipient now c tbody y u = Inr v" "has_mark c tbody (rp_display_name x) (rp_contact x) (snd u)" for x y u v
      by (rule has_mark_mono [OF that(3) enqueue_recipient_marks(3) [OF that(1,2)]])
  qed
  have again: "enqueue_recipient now' c tbody r (0, t) = Inr (0, t)" if r: "r \<in> set rs" for r
  proof -
    obtain b where b: "effective_body c tbody = Inr b" "case render_template b (display_variables (rp_display_name r)) of Inl _ \<Rightarrow> True
      | Inr _ \<Rightarrow> campaign_key (cp_id c) (rp_contact r) \<in> message_keys t"
      using marks r by (auto simp: has_mark_def)
    then show ?thesis using insert_message_again [of c "rp_contact r" "(0, t)"]
      by (cases "render_template b (display_variables (rp_display_name r))") (simp_all add: enqueue_recipient_def)
  qed
  obtain new where t: "t = s\<lparr>sm_contacts := sm_contacts t, sm_messages := sm_messages s @ new\<rparr>" using P by (auto simp: grown_def)
  have "sm_suppressions t = sm_suppressions s" by (subst t) simp
  then have "in_audience t = in_audience s" by (simp add: fun_eq_iff in_audience_def is_suppressed_def)
  then have rs1: "resolve_recipients (cp_tenant c) (cp_audience c) t = Inr rs" using rs P by (simp add: resolve_recipients_def)
  have "sm_templates t = sm_templates s" by (subst t) simp
  then have "template_body t = template_body s" by (simp add: fun_eq_iff template_body_def)
  then have tb1: "start_template c t = Inr tbody" using tb start_template_same by metis
  have "fold_result (enqueue_recipient now' c tbody) rs (0, t) = Inr (0, t)" by (rule fold_result_fixed) (rule again)
  then show "enqueue_audience now' c t = Inr (0, t)" using tb1 rs1 by (simp add: enqueue_audience_def)
qed

text \<open>The same for the rows of an import, which also add contacts: a contact is found again under its number.\<close>

definition contact_at :: "sms \<Rightarrow> int \<Rightarrow> utext \<Rightarrow> contact option" where
  "contact_at s tenant phone = find (\<lambda>k. ct_tenant k = tenant \<and> ct_phone k = phone) (sm_contacts s)"

lemma find_append_Some: "find P xs = Some x \<Longrightarrow> find P (xs @ ys) = Some x"
  by (induction xs) auto

lemma find_append_None: "find P xs = None \<Longrightarrow> find P (xs @ ys) = find P ys"
  by (induction xs) auto

lemma import_contact:
  "get_or_create_import_contact tenant phone job u = (i, v) \<Longrightarrow>
    (\<exists>ks. v = u\<lparr>sm_contacts := sm_contacts u @ ks\<rparr>) \<and> (\<exists>k. contact_at v tenant phone = Some k \<and> ct_id k = i)"
  "contact_at u tenant phone = Some k \<Longrightarrow> get_or_create_import_contact tenant phone job u = (ct_id k, u)"
proof -
  show again: "contact_at u tenant phone = Some k \<Longrightarrow> get_or_create_import_contact tenant phone job u = (ct_id k, u)" for k
    by (simp add: get_or_create_import_contact_def upsert_contact_def contact_at_def cong: if_cong)
  assume g: "get_or_create_import_contact tenant phone job u = (i, v)"
  show "(\<exists>ks. v = u\<lparr>sm_contacts := sm_contacts u @ ks\<rparr>) \<and> (\<exists>k. contact_at v tenant phone = Some k \<and> ct_id k = i)"
  proof (cases "contact_at u tenant phone")
    case None
    then obtain k where k: "v = u\<lparr>sm_contacts := sm_contacts u @ [k]\<rparr>" "ct_id k = i" "ct_tenant k = tenant" "ct_phone k = phone"
      using g by (auto simp: get_or_create_import_contact_def upsert_contact_def contact_at_def Let_def)
    then have "contact_at v tenant phone = Some k" using None by (simp add: contact_at_def find_append_None)
    then show ?thesis using k(1,2) by blast
  next
    case (Some k)
    then have v: "v = u" "ct_id k = i" using again [OF Some] g by simp_all
    show ?thesis unfolding v(1) by (rule conjI, rule exI [of _ "[]"], simp) (use Some v(2) in simp)
  qed
qed

text \<open>What a row sends, if anything: its own text, or the campaign's text with no name.\<close>

definition row_text :: "campaign \<Rightarrow> utext option \<Rightarrow> string \<Rightarrow> import_row \<Rightarrow> utext option sms_result" where
  "row_text c tbody format r =
     (if ir_phone r = None then Inl SmsAssertionError
      else if format = ''phone_message'' then (case ir_body r of None \<Rightarrow> Inl SmsAssertionError | Some b \<Rightarrow> Inr (Some b))
      else bind_result (effective_body c tbody) (\<lambda>b. Inr (case render_template b (display_variables None) of Inl _ \<Rightarrow> None | Inr x \<Rightarrow> Some x)))"

lemma enqueue_import_row_alt:
  "enqueue_import_row now c tbody format job r ns = bind_result (row_text c tbody format r) (\<lambda>x. Inr (case x of None \<Rightarrow> ns
    | Some rendered \<Rightarrow> let (contact_id, s1) = get_or_create_import_contact (cp_tenant c) (the (ir_phone r)) job (snd ns) in
        insert_message now c contact_id (the (ir_phone r)) rendered (is_suppressed (snd ns) (cp_tenant c) (the (ir_phone r))) (fst ns, s1)))"
proof (cases "ir_phone r")
  case None
  then show ?thesis by (simp add: enqueue_import_row_def row_text_def)
next
  case (Some phone)
  show ?thesis
  proof (cases "format = ''phone_message''")
    case True
    then show ?thesis using Some by (cases "ir_body r") (simp_all add: enqueue_import_row_def row_text_def Let_def)
  next
    case False
    then show ?thesis using Some
      by (cases "effective_body c tbody") (simp_all add: enqueue_import_row_def row_text_def Let_def split: sum.splits)
  qed
qed

definition row_mark :: "campaign \<Rightarrow> utext option \<Rightarrow> string \<Rightarrow> import_row \<Rightarrow> sms \<Rightarrow> bool" where
  "row_mark c tbody format r s \<longleftrightarrow> (\<exists>x. row_text c tbody format r = Inr x \<and> (x \<noteq> None \<longrightarrow>
     (\<exists>k. contact_at s (cp_tenant c) (the (ir_phone r)) = Some k \<and> campaign_key (cp_id c) (ct_id k) \<in> message_keys s)))"

definition adds_to :: "sms \<Rightarrow> sms \<Rightarrow> bool" where
  "adds_to u v \<longleftrightarrow> (\<exists>ks. sm_contacts v = sm_contacts u @ ks) \<and> message_keys u \<subseteq> message_keys v"

lemma row_mark_mono: "row_mark c tbody format r u \<Longrightarrow> adds_to u v \<Longrightarrow> row_mark c tbody format r v"
proof -
  assume "row_mark c tbody format r u" and a: "adds_to u v"
  then obtain x where x: "row_text c tbody format r = Inr x" "x \<noteq> None \<longrightarrow>
     (\<exists>k. contact_at u (cp_tenant c) (the (ir_phone r)) = Some k \<and> campaign_key (cp_id c) (ct_id k) \<in> message_keys u)"
    by (auto simp: row_mark_def)
  have "contact_at v tenant phone = Some k" if "contact_at u tenant phone = Some k" for tenant phone k
    using that a by (auto simp: contact_at_def adds_to_def find_append_Some)
  then have "x \<noteq> None \<longrightarrow> (\<exists>k. contact_at v (cp_tenant c) (the (ir_phone r)) = Some k \<and> campaign_key (cp_id c) (ct_id k) \<in> message_keys v)"
    using x(2) a unfolding adds_to_def by blast
  then show ?thesis using x(1) by (simp add: row_mark_def)
qed

lemma enqueue_row_marks:
  assumes g: "grown s c ns" and q: "enqueue_import_row now c tbody format job r ns = Inr ns'"
  shows "grown s c ns'" "row_mark c tbody format r (snd ns')" "adds_to (snd ns) (snd ns')"
proof -
  let ?phone = "the (ir_phone r)"
  obtain x where x: "row_text c tbody format r = Inr x"
    and ns': "ns' = (case x of None \<Rightarrow> ns | Some rendered \<Rightarrow> let (contact_id, s1) = get_or_create_import_contact (cp_tenant c) ?phone job (snd ns) in
        insert_message now c contact_id ?phone rendered (is_suppressed s (cp_tenant c) ?phone) (fst ns, s1))"
    using q unfolding enqueue_import_row_alt bind_result_Inr_iff grown_suppressions [OF g] sum.inject by blast
  have "grown s c ns' \<and> row_mark c tbody format r (snd ns') \<and> adds_to (snd ns) (snd ns')"
  proof (cases x)
    case None
    then show ?thesis using g x ns' by (simp add: row_mark_def adds_to_def)
  next
    case (Some rendered)
    obtain i s1 where gc: "get_or_create_import_contact (cp_tenant c) ?phone job (snd ns) = (i, s1)" by fastforce
    obtain ks k where s1: "s1 = (snd ns)\<lparr>sm_contacts := sm_contacts (snd ns) @ ks\<rparr>" "contact_at s1 (cp_tenant c) ?phone = Some k" "ct_id k = i"
      using import_contact(1) [OF gc] by blast
    have g1: "grown s c (fst ns, s1)" unfolding s1(1) by (rule grown_contacts) (use g in simp)
    have im: "insert_message now c i ?phone rendered (is_suppressed s (cp_tenant c) ?phone) (fst ns, s1) = ns'" using ns' Some gc by simp
    note v = insert_message_grown [OF g1 im]
    have "contact_at (snd ns') (cp_tenant c) ?phone = Some k" using s1(2) v(4) by (simp add: contact_at_def)
    then have "row_mark c tbody format r (snd ns')" using x v(3) s1(3) by (auto simp: row_mark_def)
    moreover have "adds_to (snd ns) (snd ns')" using v(2,4) s1(1) by (simp add: adds_to_def message_keys_def)
    ultimately show ?thesis using v(1) by simp
  qed
  then show "grown s c ns'" "row_mark c tbody format r (snd ns')" "adds_to (snd ns) (snd ns')" by simp_all
qed

lemma import_twice:
  assumes q: "enqueue_import_messages now c job s = Inr (n, t)"
  shows "grown s c (n, t)" "enqueue_import_messages now' c job t = Inr (0, t)"
proof -
  obtain summary tbody where su: "get_import_summary s job None = Inr summary" and tb: "start_template c s = Inr tbody"
    and f: "fold_result (enqueue_import_row now c tbody (ij_format summary) job) (import_recipients s job) (0, s) = Inr (n, t)"
    using q by (auto simp: enqueue_import_messages_def bind_result_Inr_iff)
  let ?format = "ij_format summary"
  show gr: "grown s c (n, t)"
    by (rule fold_result_invariant [where P = "grown s c", OF f grown_start]) (rule enqueue_row_marks(1))
  have marks: "\<forall>r\<in>set (import_recipients s job). row_mark c tbody ?format r (snd (n, t))"
  proof (rule fold_result_marks [where P = "grown s c" and A = "\<lambda>r ns. row_mark c tbody ?format r (snd ns)", OF f grown_start])
    show "grown s c v" if "grown s c u" "enqueue_import_row now c tbody ?format job x u = Inr v" for x u v by (rule enqueue_row_marks(1) [OF that])
    show "row_mark c tbody ?format x (snd v)" if "grown s c u" "enqueue_import_row now c tbody ?format job x u = Inr v" for x u v
      by (rule enqueue_row_marks(2) [OF that])
    show "row_mark c tbody ?format x (snd v)"
      if "grown s c u" "enqueue_import_row now c tbody ?format job y u = Inr v" "row_mark c tbody ?format x (snd u)" for x y u v
      by (rule row_mark_mono [OF that(3) enqueue_row_marks(3) [OF that(1,2)]])
  qed
  have again: "enqueue_import_row now' c tbody ?format job r (0, t) = Inr (0, t)" if r: "r \<in> set (import_recipients s job)" for r
  proof -
    obtain x where x: "row_text c tbody ?format r = Inr x" "x \<noteq> None \<longrightarrow>
        (\<exists>k. contact_at t (cp_tenant c) (the (ir_phone r)) = Some k \<and> campaign_key (cp_id c) (ct_id k) \<in> message_keys t)"
      using marks r by (auto simp: row_mark_def)
    show ?thesis
    proof (cases x)
      case (Some rendered)
      then obtain k where "contact_at t (cp_tenant c) (the (ir_phone r)) = Some k" "campaign_key (cp_id c) (ct_id k) \<in> message_keys t" using x(2) by auto
      then show ?thesis using x(1) Some insert_message_again [of c "ct_id k" "(0, t)"]
        by (simp add: enqueue_import_row_alt import_contact(2))
    qed (use x in \<open>simp add: enqueue_import_row_alt\<close>)
  qed
  obtain ks new where t: "t = s\<lparr>sm_contacts := ks, sm_messages := sm_messages s @ new\<rparr>" using gr by (auto simp: grown_def)
  have "template_body t = template_body s" by (simp add: t fun_eq_iff template_body_def)
  then have tb1: "start_template c t = Inr tbody" using tb start_template_same by metis
  have su1: "get_import_summary t job None = Inr summary" using su by (simp add: t get_import_summary_def job_by_id_def)
  have rows: "import_recipients t job = import_recipients s job" by (simp add: t import_recipients_def)
  have "fold_result (enqueue_import_row now' c tbody ?format job) (import_recipients s job) (0, t) = Inr (0, t)" by (rule fold_result_fixed) (rule again)
  then show "enqueue_import_messages now' c job t = Inr (0, t)" using tb1 su1 rows by (simp add: enqueue_import_messages_def)
qed

text \<open>Starting a campaign: what it queues, and that starting it again queues nothing.\<close>

lemma start_twice:
  assumes ok: "sms_ok s" and q: "start_campaign now i admin s = Inr ((d, n), t)"
  shows "cp_status d = ''running''" "cp_id d = i" "start_campaign now' i admin' t = Inr ((d, 0), t)"
    "\<exists>new. sm_messages t = sm_messages s @ new \<and> length new = n \<and> (\<forall>m\<in>set new. queued_for s d m)"
proof -
  obtain s1 where s1: "sms_step_ok s s1" "d \<in> set (sm_campaigns s1)" "cp_id d = i" "cp_status d = ''running''" "sm_messages s1 = sm_messages s"
    "sm_suppressions s1 = sm_suppressions s"
    and en: "(case cp_import_job d of Some j \<Rightarrow> enqueue_import_messages now d j s1 | None \<Rightarrow> enqueue_audience now d s1) = Inr (n, t)"
    by (rule start_cases [OF ok q])
  have gr: "grown s1 d (n, t)" and again: "(case cp_import_job d of Some j \<Rightarrow> enqueue_import_messages now' d j t | None \<Rightarrow> enqueue_audience now' d t) = Inr (0, t)"
    using en audience_twice import_twice by (auto split: option.splits)
  show "cp_status d = ''running''" "cp_id d = i" by (fact s1)+
  obtain ks new where t: "t = s1\<lparr>sm_contacts := ks, sm_messages := sm_messages s1 @ new\<rparr>" "length new = n" "\<forall>m\<in>set new. queued_for s1 d m"
    using gr by (auto simp: grown_def)
  have "queued_for s1 d m = queued_for s d m" for m using s1(6) by (simp add: queued_for_def is_suppressed_def)
  moreover have "sm_messages t = sm_messages s @ new" using t(1) s1(5) by simp
  ultimately show "\<exists>new. sm_messages t = sm_messages s @ new \<and> length new = n \<and> (\<forall>m\<in>set new. queued_for s d m)" using t(2,3) by blast
  have ok1: "sms_ok s1" using s1(1) by (simp add: sms_step_ok_def)
  have "campaign_by_id s1 i \<noteq> None" using s1(2,3) by (auto simp: campaign_by_id_def find_None_iff)
  then obtain e where e: "campaign_by_id s1 i = Some e" by blast
  have "e = d" using campaign_unique [OF ok1 conjunct1 [OF campaign_of [OF ok1 e]] s1(2)] campaign_of [OF ok1 e] s1(3) by simp
  then have "campaign_by_id t i = Some d" using e t(1) by (simp add: campaign_by_id_def)
  then show "start_campaign now' i admin' t = Inr ((d, 0), t)" using again s1(4) by (simp add: start_campaign_def get_campaign_def)
qed

subsection \<open>The next message\<close>

lemma sorted_first:
  assumes "xs \<noteq> []" shows "\<exists>m tl. sort_key f xs = m # tl \<and> m \<in> set xs \<and> (\<forall>y\<in>set xs. f m \<le> f y)"
proof -
  have "length (sort_key f xs) \<noteq> 0" using assms by simp
  then obtain m tl where m: "sort_key f xs = m # tl" by (cases "sort_key f xs") auto
  have set: "set (m # tl) = set xs" using arg_cong [OF m, of set] by simp
  have "sorted (map f (m # tl))" using sorted_sort_key [of f xs] m by simp
  then have "\<forall>y\<in>set (m # tl). f m \<le> f y" by simp
  then show ?thesis using m set by (metis list.set_intros(1))
qed

definition eligible :: "sms \<Rightarrow> delivery_node \<Rightarrow> sms_message \<Rightarrow> bool" where
  "eligible s node m \<longleftrightarrow> m \<in> set (sm_messages s) \<and> ms_status m = ''queued'' \<and> offered s (dn_tenant node) (dn_fleet_group node) m"

lemma claim_first:
  assumes ok: "sms_ok s" and room: "current_assigned_count s (dn_id node) < dn_max_jobs node" and x: "eligible s node x"
  shows "\<exists>m. eligible s node m \<and> (\<forall>y. eligible s node y \<longrightarrow> claim_rank s (dn_tenant node) (dn_fleet_group node) m \<le> claim_rank s (dn_tenant node) (dn_fleet_group node) y)
    \<and> claim_next_message now (dn_tenant node) node {} s = Inr (Some (claimed_by now (dn_id node) m),
        s\<lparr>sm_messages := map (\<lambda>x. if ms_id x = ms_id m then claimed_by now (dn_id node) x else x) (sm_messages s),
          sm_attempts := sm_attempts s @ [accepted_attempt (dn_id node) m]\<rparr>)"
proof -
  let ?r = "claim_rank s (dn_tenant node) (dn_fleet_group node)"
  let ?xs = "filter (\<lambda>m. offered s (dn_tenant node) (dn_fleet_group node) m \<and> ms_status m = ''queued'') (sm_messages s)"
  let ?ids = "claim_candidates s (dn_tenant node) (dn_fleet_group node)"
  have mem: "y \<in> set ?xs \<longleftrightarrow> eligible s node y" for y by (auto simp: eligible_def)
  have "x \<in> set ?xs" using x mem by blast
  then have "?xs \<noteq> []" by (metis empty_iff empty_set)
  then obtain m tl where tl: "sort_key ?r ?xs = m # tl" and m0: "m \<in> set ?xs" and least0: "\<forall>y\<in>set ?xs. ?r m \<le> ?r y"
    using sorted_first [of ?xs ?r] by blast
  have m: "eligible s node m" using m0 mem by blast
  have least: "?r m \<le> ?r y" if "eligible s node y" for y using least0 mem that by blast
  have "?ids = ms_id m # map ms_id (take 19 tl)"
    unfolding claim_candidates_def tl by (simp add: CLAIM_CANDIDATE_SHORTLIST_SIZE_def)
  moreover have "still_queued {} s (ms_id m)" using m by (auto simp: still_queued_def eligible_def)
  ultimately have found: "find (still_queued {} s) ?ids = Some (ms_id m)" by simp
  have "claim_next_message now (dn_tenant node) node {} s = Inr (Some (claimed_by now (dn_id node) m),
        s\<lparr>sm_messages := map (\<lambda>x. if ms_id x = ms_id m then claimed_by now (dn_id node) x else x) (sm_messages s),
          sm_attempts := sm_attempts s @ [accepted_attempt (dn_id node) m]\<rparr>)"
  proof (cases rule: claim_from_cases [OF ok, of "{}" ?ids now "dn_id node", case_names none claim])
    case none
    then show ?thesis using found by simp
  next
    case (claim y)
    have "y = m" using message_unique [OF ok claim(1)] claim(5) found m by (auto simp: eligible_def)
    then show ?thesis using claim(6) room by (simp add: claim_next_message_def)
  qed
  then show ?thesis using m least by blast
qed

lemma assigned_count_claimed:
  assumes ok: "sms_ok s" and m: "m \<in> set (sm_messages s)" "ms_status m = ''queued''"
    and t: "sm_messages t = map (\<lambda>x. if ms_id x = ms_id m then claimed_by now node_id x else x) (sm_messages s)"
  shows "current_assigned_count t node_id = current_assigned_count s node_id + 1"
proof -
  let ?Q = "\<lambda>x. ms_node x = Some node_id \<and> ms_status x \<in> IN_FLIGHT"
  let ?g = "\<lambda>x. if ms_id x = ms_id m then claimed_by now node_id x else x"
  have dist: "distinct (sm_messages s)"
    using numbered_distinct [OF messages_okD(1) [OF sms_okD(2) [OF ok]]] by (simp add: distinct_map)
  have q: "?Q (?g x) \<longleftrightarrow> x = m \<or> ?Q x" if "x \<in> set (sm_messages s)" for x
    using message_unique [OF ok that m(1)] by (auto simp: claimed_by_def IN_FLIGHT_def)
  have nq: "\<not> ?Q m" using m(2) by (simp add: IN_FLIGHT_def)
  have "length (filter ?Q (map ?g (sm_messages s))) = length (filter (\<lambda>x. ?Q (?g x)) (sm_messages s))" by (simp add: filter_map comp_def)
  also have "\<dots> = length (filter (\<lambda>x. x = m \<or> ?Q x) (sm_messages s))" by (rule arg_cong [of _ _ length], rule filter_cong [OF refl], rule q)
  also have "\<dots> = card (insert m {x \<in> set (sm_messages s). ?Q x})"
    unfolding distinct_length_filter [OF dist] by (rule arg_cong [of _ _ card]) (use m(1) in auto)
  also have "\<dots> = Suc (card {x \<in> set (sm_messages s). ?Q x})" using nq by (simp add: card_insert_disjoint)
  also have "card {x \<in> set (sm_messages s). ?Q x} = length (filter ?Q (sm_messages s))"
    unfolding distinct_length_filter [OF dist] by (rule arg_cong [of _ _ card]) auto
  finally show ?thesis unfolding current_assigned_count_def t by simp
qed

end
