(* ===== verification/Sms_Demo.thy ===== *)
theory Sms_Demo
  imports Sms_System
begin

text \<open>A run of the SMS control plane: two contacts, one campaign, one node; a message fails once and is delivered, the other is lost.\<close>

definition demo_node :: delivery_node where
  "demo_node = \<lparr>dn_id = 1, dn_tenant = 1, dn_name = ''gateway'', dn_fleet_group = ''default'', dn_token_hash = ''digest'',
     dn_status = ''active'', dn_health_score = 70, dn_last_heartbeat = Some 0, dn_app_version = None, dn_max_jobs = 2, dn_protocol_version = 1\<rparr>"

definition demo_phone :: "int \<Rightarrow> utext" where
  "demo_phone i = (if i = 1 then points ''+251911111111'' else points ''+251922222222'')"

definition demo_contact :: "int \<Rightarrow> contact" where
  "demo_contact i = \<lparr>ct_id = i, ct_tenant = 1, ct_phone = demo_phone i, ct_display_name = None, ct_attributes = [], ct_opted_out = False\<rparr>"

definition demo_campaign :: "string \<Rightarrow> int option \<Rightarrow> int option \<Rightarrow> int option \<Rightarrow> campaign" where
  "demo_campaign st n started over = \<lparr>cp_id = 1, cp_tenant = 1, cp_name = ''news'', cp_template = None, cp_body_override = Some (points ''Hi''),
     cp_status = st, cp_audience = JObject [], cp_recipient_count = n, cp_scheduled_at = None, cp_started_at = started,
     cp_completed_at = over, cp_created_by = 9, cp_fleet_group = None, cp_import_job = None\<rparr>"

definition demo_event :: "string option \<Rightarrow> string \<Rightarrow> int option \<Rightarrow> campaign_event" where
  "demo_event a b adm = \<lparr>ce_campaign = 1, ce_from = a, ce_to = b, ce_admin = adm, ce_reason = None\<rparr>"

definition demo_message :: "int \<Rightarrow> string \<Rightarrow> int option \<Rightarrow> int option \<Rightarrow> int \<Rightarrow> string option \<Rightarrow> sms_message" where
  "demo_message i st node since n err = \<lparr>ms_id = i, ms_tenant = 1, ms_campaign = Some 1, ms_contact = Some i, ms_phone = demo_phone i,
     ms_body = points ''Hi'', ms_segments = 1, ms_priority = ''normal'', ms_status = st, ms_node = node, ms_assigned_at = since,
     ms_attempts = n, ms_last_error = err, ms_key = campaign_key 1 i, ms_created_at = 100\<rparr>"

definition demo_attempt :: "int \<Rightarrow> int \<Rightarrow> string \<Rightarrow> string option \<Rightarrow> attempt" where
  "demo_attempt i n out err = \<lparr>at_message = i, at_node = 1, at_number = n, at_outcome = out, at_error = err, at_response = None\<rparr>"

definition demo_sms :: "contact list \<Rightarrow> campaign list \<Rightarrow> campaign_event list \<Rightarrow> sms_message list \<Rightarrow> attempt list \<Rightarrow> sms" where
  "demo_sms ks cs es ms ats = \<lparr>sm_contacts = ks, sm_suppressions = [], sm_templates = [], sm_campaigns = cs, sm_events = es, sm_nodes = [demo_node],
     sm_messages = ms, sm_attempts = ats, sm_jobs = [], sm_rows = []\<rparr>"

definition running_demo :: "sms_message list \<Rightarrow> attempt list \<Rightarrow> sms" where
  "running_demo = demo_sms [demo_contact 1, demo_contact 2] [demo_campaign ''running'' (Some 2) (Some 100) None]
     [demo_event None ''draft'' (Some 9), demo_event (Some ''draft'') ''validating'' (Some 9), demo_event (Some ''validating'') ''ready'' (Some 9),
      demo_event (Some ''ready'') ''running'' (Some 9)]"

definition sms0 :: sms where "sms0 = demo_sms [] [] [] [] []"
definition sms1 :: sms where "sms1 = demo_sms [demo_contact 1] [] [] [] []"
definition sms2 :: sms where "sms2 = demo_sms [demo_contact 1, demo_contact 2] [] [] [] []"
definition sms3 :: sms where
  "sms3 = demo_sms [demo_contact 1, demo_contact 2] [demo_campaign ''draft'' None None None] [demo_event None ''draft'' (Some 9)] [] []"
definition sms4 :: sms where
  "sms4 = demo_sms [demo_contact 1, demo_contact 2] [demo_campaign ''ready'' (Some 2) None None]
    [demo_event None ''draft'' (Some 9), demo_event (Some ''draft'') ''validating'' (Some 9), demo_event (Some ''validating'') ''ready'' (Some 9)] [] []"
definition sms5 :: sms where
  "sms5 = running_demo [demo_message 1 ''queued'' None None 0 None, demo_message 2 ''queued'' None None 0 None] []"
definition sms6 :: sms where
  "sms6 = running_demo [demo_message 1 ''assigned'' (Some 1) (Some 200) 1 None, demo_message 2 ''queued'' None None 0 None]
    [demo_attempt 1 1 ''accepted'' None]"
definition sms7 :: sms where
  "sms7 = running_demo [demo_message 1 ''sending'' (Some 1) (Some 200) 1 None, demo_message 2 ''queued'' None None 0 None]
    [demo_attempt 1 1 ''started'' None]"
definition sms8 :: sms where
  "sms8 = running_demo [demo_message 1 ''queued'' None (Some 200) 1 (Some ''network''), demo_message 2 ''queued'' None None 0 None]
    [demo_attempt 1 1 ''failed'' (Some ''network'')]"
definition sms9 :: sms where
  "sms9 = running_demo [demo_message 1 ''assigned'' (Some 1) (Some 400) 2 (Some ''network''), demo_message 2 ''queued'' None None 0 None]
    [demo_attempt 1 1 ''failed'' (Some ''network''), demo_attempt 1 2 ''accepted'' None]"
definition sms10 :: sms where
  "sms10 = running_demo [demo_message 1 ''delivered'' None (Some 400) 2 None, demo_message 2 ''queued'' None None 0 None]
    [demo_attempt 1 1 ''failed'' (Some ''network''), demo_attempt 1 2 ''delivered'' None]"
definition sms11 :: sms where
  "sms11 = running_demo [demo_message 1 ''delivered'' None (Some 400) 2 None, demo_message 2 ''assigned'' (Some 1) (Some 600) 1 None]
    [demo_attempt 1 1 ''failed'' (Some ''network''), demo_attempt 1 2 ''delivered'' None, demo_attempt 2 1 ''accepted'' None]"
definition sms12 :: sms where
  "sms12 = demo_sms [demo_contact 1, demo_contact 2] [demo_campaign ''completed_with_errors'' (Some 2) (Some 100) (Some 700)]
    [demo_event None ''draft'' (Some 9), demo_event (Some ''draft'') ''validating'' (Some 9), demo_event (Some ''validating'') ''ready'' (Some 9),
     demo_event (Some ''ready'') ''running'' (Some 9), demo_event (Some ''running'') ''completed_with_errors'' None]
    [demo_message 1 ''delivered'' None (Some 400) 2 None, demo_message 2 ''dead_letter'' None (Some 600) 1 (Some ''permanent'')]
    [demo_attempt 1 1 ''failed'' (Some ''network''), demo_attempt 1 2 ''delivered'' None, demo_attempt 2 1 ''failed'' (Some ''permanent'')]"

definition state_of :: "('a \<times> sms) sms_result \<Rightarrow> sms option" where
  "state_of r = (case r of Inr (x, t) \<Rightarrow> Some t | Inl e \<Rightarrow> None)"

lemma state_ofD: "state_of r = Some t \<Longrightarrow> \<exists>x. r = Inr (x, t)"
  by (auto simp: state_of_def split: sum.splits)

lemma demo_contacts:
  "create_contact 1 (demo_phone 1) None [] sms0 = (1, sms1)" "create_contact 1 (demo_phone 2) None [] sms1 = (2, sms2)"
  by code_simp+

lemma demo_create: "state_of (create_campaign 1 ''news'' None (Some (points ''Hi'')) (JObject []) 9 None None sms2) = Some sms3" by code_simp
lemma demo_validate: "state_of (validate_campaign 1 9 sms3) = Some sms4" by code_simp
lemma sms_demo_start: "start_campaign 100 1 9 sms4 = Inr ((demo_campaign ''running'' (Some 2) (Some 100) None, 2), sms5)" by code_simp
lemma demo_claim1: "state_of (claim_from 200 1 {} [1, 2] sms5) = Some sms6" by code_simp
lemma demo_begin: "state_of (start_message 1 1 sms6) = Some sms7" by code_simp
lemma demo_failed: "state_of (report_result 300 1 1 ''failed'' (Some ''network'') None sms7) = Some sms8" by code_simp
lemma demo_claim2: "state_of (claim_from 400 1 {} [1, 2] sms8) = Some sms9" by code_simp
lemma demo_delivered: "state_of (report_result 500 1 1 ''delivered'' None None sms9) = Some sms10" by code_simp
lemma demo_claim3: "state_of (claim_from 600 1 {} [2] sms10) = Some sms11" by code_simp
lemma demo_lost: "state_of (report_result 700 2 1 ''failed'' (Some ''permanent'') None sms11) = Some sms12" by code_simp
lemma demo_has_node: "node_by_id sms5 1 \<noteq> None" "node_by_id sms8 1 \<noteq> None" "node_by_id sms10 1 \<noteq> None" by code_simp+

lemma sms0_start: "sms_start sms0"
  by (simp add: sms_start_def sms0_def demo_sms_def)

lemma demo_run_start: "sms_step\<^sup>*\<^sup>* sms0 sms5"
proof -
  have "sms_step sms0 sms1" by (rule sp_contact [OF demo_contacts(1)])
  moreover have "sms_step sms1 sms2" by (rule sp_contact [OF demo_contacts(2)])
  moreover have "sms_step sms2 sms3" using state_ofD [OF demo_create] sp_create by metis
  moreover have "sms_step sms3 sms4" using state_ofD [OF demo_validate] sp_validate by metis
  moreover have "sms_step sms4 sms5" by (rule sp_start [OF sms_demo_start])
  ultimately show ?thesis by (meson rtranclp.rtrancl_refl rtranclp.rtrancl_into_rtrancl)
qed

lemma demo_run_retry: "sms_step\<^sup>*\<^sup>* sms5 sms9"
proof -
  have "sms_step sms5 sms6" using state_ofD [OF demo_claim1] sp_claim [OF demo_has_node(1)] by metis
  moreover have "sms_step sms6 sms7" using state_ofD [OF demo_begin] sp_begin by metis
  moreover have "sms_step sms7 sms8" using state_ofD [OF demo_failed] sp_report [of "''failed''"] by fast
  moreover have "sms_step sms8 sms9" using state_ofD [OF demo_claim2] sp_claim [OF demo_has_node(2)] by metis
  ultimately show ?thesis by (meson rtranclp.rtrancl_refl rtranclp.rtrancl_into_rtrancl)
qed

lemma demo_run_end: "sms_step\<^sup>*\<^sup>* sms9 sms12"
proof -
  have "sms_step sms9 sms10" using state_ofD [OF demo_delivered] sp_report [of "''delivered''"] by fast
  moreover have "sms_step sms10 sms11" using state_ofD [OF demo_claim3] sp_claim [OF demo_has_node(3)] by metis
  moreover have "sms_step sms11 sms12" using state_ofD [OF demo_lost] sp_report [of "''failed''"] by fast
  ultimately show ?thesis by (meson rtranclp.rtrancl_refl rtranclp.rtrancl_into_rtrancl)
qed

end
