(* ===== verification/Sms_Safety.thy ===== *)
theory Sms_Safety
  imports Sms_Recipients Sms_Demo
begin

text \<open>What the SMS control plane guarantees, for every order of requests, reports and sweeps.\<close>

subsection \<open>Messages\<close>



text \<open>C19. A campaign sends one message to a phone number and not more, however often it is started, resumed or fed from a
  file, and whoever else queues at the same time: two of its messages with one number are the same message; and every
  message goes to the number of its contact, for a campaign of the same tenant that has been started.\<close>

theorem one_message_per_number:
  assumes "sms_start s0" "sms_step\<^sup>*\<^sup>* s0 s" "m \<in> set (sm_messages s)"
  shows "(\<forall>n\<in>set (sm_messages s). ms_campaign n = ms_campaign m \<and> ms_phone n = ms_phone m \<longrightarrow> n = m)
    \<and> (\<exists>c\<in>set (sm_campaigns s). ms_campaign m = Some (cp_id c) \<and> ms_tenant m = cp_tenant c \<and> cp_status c \<notin> {''draft'', ''validating'', ''ready'', ''scheduled'', ''failed''})
    \<and> (\<exists>k\<in>set (sm_contacts s). ms_contact m = Some (ct_id k) \<and> ms_tenant m = ct_tenant k \<and> ms_phone m = ct_phone k)"
proof -
  have ok: "sms_ok s" by (rule sms_reached [OF assms(1,2)])
  note v = messages_okD [OF sms_okD(2) [OF ok]]
  obtain c k where m: "c \<in> set (sm_campaigns s)" "k \<in> set (sm_contacts s)" "ms_campaign m = Some (cp_id c)" "ms_tenant m = cp_tenant c"
    "cp_status c \<in> STARTED" "ms_contact m = Some (ct_id k)" "ms_tenant m = ct_tenant k" "ms_phone m = ct_phone k" "ms_key m = campaign_key (cp_id c) (ct_id k)"
    using v(4) [OF assms(3)] unfolding placed_def by blast
  have "n = m" if n: "n \<in> set (sm_messages s)" "ms_campaign n = ms_campaign m" "ms_phone n = ms_phone m" for n
  proof -
    obtain d l where d: "d \<in> set (sm_campaigns s)" "l \<in> set (sm_contacts s)" "ms_campaign n = Some (cp_id d)" "ms_tenant n = cp_tenant d"
      "ms_tenant n = ct_tenant l" "ms_phone n = ct_phone l" "ms_key n = campaign_key (cp_id d) (ct_id l)"
      using v(4) [OF n(1)] unfolding placed_def by blast
    have "d = c" using campaign_unique [OF ok d(1) m(1)] d(3) m(3) n(2) by simp
    then have same: "(ct_tenant l, ct_phone l) = (ct_tenant k, ct_phone k)" using d m n(3) by simp
    have "inj_on (\<lambda>k. (ct_tenant k, ct_phone k)) (set (sm_contacts s))"
      using sms_okD(1) [OF ok] by (simp add: contacts_ok_def distinct_map)
    then have "l = k" using same d(2) m(2) by (rule inj_onD)
    then have "ms_key n = ms_key m" using d(7) m(9) \<open>d = c\<close> by simp
    moreover have "inj_on ms_key (set (sm_messages s))" using v(2) by (simp add: distinct_map)
    ultimately show ?thesis using n(1) assms(3) by (simp add: inj_on_def)
  qed
  moreover have "cp_status c \<notin> {''draft'', ''validating'', ''ready'', ''scheduled'', ''failed''}" using m(5) by (auto simp: STARTED_def)
  ultimately show ?thesis using m by blast
qed

theorem one_message_per_number_witness:
  "let m = demo_message 1 ''queued'' None None 0 None in m \<in> set (sm_messages sms5)
    \<and> (\<forall>n\<in>set (sm_messages sms5). ms_campaign n = ms_campaign m \<and> ms_phone n = ms_phone m \<longrightarrow> n = m)"
proof -
  have m: "demo_message 1 ''queued'' None None 0 None \<in> set (sm_messages sms5)" by (simp add: sms5_def running_demo_def demo_sms_def)
  show ?thesis unfolding Let_def by (intro conjI m) (rule conjunct1 [OF one_message_per_number [OF sms0_start demo_run_start m]])
qed

subsection \<open>Campaigns\<close>

text \<open>C34. The trail of events of a campaign is its life: from the draft, every event starts where the one before it ended and is a
  transition of the lifecycle, and the last one ends in the status of the campaign. A campaign that has not been started has no
  messages; one that has completed has only delivered and suppressed messages, or lost ones too if it says so; and once
  it has completed or was cancelled it stays so, with its events kept.\<close>

theorem campaign_life:
  assumes "sms_start s0" "sms_step\<^sup>*\<^sup>* s0 s" "sms_step\<^sup>*\<^sup>* s t" "c \<in> set (sm_campaigns s)"
  shows "life None (filter (\<lambda>e. ce_campaign e = cp_id c) (sm_events s)) (cp_status c)
    \<and> (cp_status c \<in> {''draft'', ''ready'', ''scheduled'', ''failed''} \<longrightarrow> \<not> (\<exists>m\<in>set (sm_messages s). ms_campaign m = Some (cp_id c)))
    \<and> (\<forall>m\<in>set (sm_messages s). ms_campaign m = Some (cp_id c) \<longrightarrow>
         (cp_status c = ''completed'' \<longrightarrow> ms_status m \<in> {''delivered'', ''suppressed''})
       \<and> (cp_status c = ''completed_with_errors'' \<longrightarrow> ms_status m \<in> {''delivered'', ''suppressed'', ''dead_letter''}))
    \<and> (cp_status c = ''completed_with_errors'' \<longrightarrow> (\<exists>m\<in>set (sm_messages s). ms_campaign m = Some (cp_id c) \<and> ms_status m = ''dead_letter''))
    \<and> (\<exists>d\<in>set (sm_campaigns t). campaign_identity d = campaign_identity c
       \<and> (cp_status c \<in> {''completed'', ''completed_with_errors'', ''cancelled''} \<longrightarrow> cp_status d = cp_status c))
    \<and> take (length (sm_events s)) (sm_events t) = sm_events s"
proof -
  have ok: "sms_ok s" by (rule sms_reached [OF assms(1,2)])
  have kept: "sms_kept s t" by (rule sms.run_kept [OF assms(3) ok])
  then obtain d where d: "d \<in> set (sm_campaigns t)" "campaign_kept c d" using campaign_remains [OF _ assms(4)] by blast
  have co: "campaign_ok (sm_messages s) (sm_events s) c" by (rule campaigns_okD(2) [OF sms_okD(3) [OF ok] assms(4)])
  have none: False if st: "cp_status c \<in> {''draft'', ''ready'', ''scheduled'', ''failed''}" and m: "m \<in> set (sm_messages s)" "ms_campaign m = Some (cp_id c)" for m
  proof -
    obtain e where e: "e \<in> set (sm_campaigns s)" "ms_campaign m = Some (cp_id e)" "cp_status e \<in> STARTED"
      using messages_okD(4) [OF sms_okD(2) [OF ok] m(1)] unfolding placed_def by blast
    have "cp_id e = cp_id c" using e(2) m(2) by simp
    then have "e = c" by (rule campaign_unique [OF ok e(1) assms(4)])
    then show False using e(3) st by (auto simp: STARTED_def)
  qed
  have life: "life None (filter (\<lambda>e. ce_campaign e = cp_id c) (sm_events s)) (cp_status c)" using co by (simp add: campaign_ok_def events_of_def)
  have over: "(cp_status c = ''completed'' \<longrightarrow> ms_status m \<in> {''delivered'', ''suppressed''})
       \<and> (cp_status c = ''completed_with_errors'' \<longrightarrow> ms_status m \<in> {''delivered'', ''suppressed'', ''dead_letter''})"
    if "m \<in> set (sm_messages s)" "ms_campaign m = Some (cp_id c)" for m
  proof -
    have "ms_status m \<in> statuses_of (sm_messages s) (cp_id c)" using that by (auto simp: statuses_of_def)
    then show ?thesis using co unfolding campaign_ok_def by blast
  qed
  have lost: "\<exists>m\<in>set (sm_messages s). ms_campaign m = Some (cp_id c) \<and> ms_status m = ''dead_letter''" if "cp_status c = ''completed_with_errors''"
    using co that by (simp add: campaign_ok_def statuses_of_iff)
  show ?thesis
    by (intro conjI impI ballI life lost)
      (use none over d kept in \<open>auto simp: campaign_kept_def sms_kept_def ENDED_def\<close>)
qed

theorem campaign_life_witness:
  "let c = demo_campaign ''completed_with_errors'' (Some 2) (Some 100) (Some 700) in c \<in> set (sm_campaigns sms12)
    \<and> life None (filter (\<lambda>e. ce_campaign e = 1) (sm_events sms12)) ''completed_with_errors''
    \<and> (\<exists>m\<in>set (sm_messages sms12). ms_campaign m = Some 1 \<and> ms_status m = ''dead_letter'')"
proof -
  let ?c = "demo_campaign ''completed_with_errors'' (Some 2) (Some 100) (Some 700)"
  have c: "?c \<in> set (sm_campaigns sms12)" by (simp add: sms12_def demo_sms_def)
  have run: "sms_step\<^sup>*\<^sup>* sms0 sms12" using rtranclp_trans [OF rtranclp_trans [OF demo_run_start demo_run_retry] demo_run_end] .
  note p = campaign_life [OF sms0_start run rtranclp.rtrancl_refl c]
  have "cp_id ?c = 1" "cp_status ?c = ''completed_with_errors''" by (simp_all add: demo_campaign_def)
  then show ?thesis using p c unfolding Let_def by simp
qed

text \<open>C37. Starting a campaign queues exactly the messages it reports: each new message is for this campaign and its tenant, unattempted,
  with its segments counted, and held back if and only if its number is on the suppression list at that moment. Starting it
  again, for instance after a timeout, reports no new message and changes nothing at all.\<close>

theorem start_campaign_effect:
  assumes "sms_start s0" "sms_step\<^sup>*\<^sup>* s0 s" "start_campaign now i admin s = Inr ((c, n), t)"
  shows "cp_id c = i \<and> cp_status c = ''running'' \<and> start_campaign now' i admin' t = Inr ((c, 0), t)
    \<and> (\<exists>new. sm_messages t = sm_messages s @ new \<and> length new = n \<and> (\<forall>m\<in>set new. ms_campaign m = Some i \<and> ms_tenant m = cp_tenant c
       \<and> ms_attempts m = 0 \<and> ms_segments m = count_segments (ms_body m)
       \<and> ms_status m = (if is_suppressed s (cp_tenant c) (ms_phone m) then ''suppressed'' else ''queued'')))"
proof -
  have ok: "sms_ok s" by (rule sms_reached [OF assms(1,2)])
  note v = start_twice [OF ok assms(3)]
  show ?thesis using v(1,2,4) v(3) [of now' admin'] unfolding queued_for_def by blast
qed

theorem start_campaign_effect_witness:
  "start_campaign 100 1 9 sms4 = Inr ((demo_campaign ''running'' (Some 2) (Some 100) None, 2), sms5)
   \<and> start_campaign 150 1 9 sms5 = Inr ((demo_campaign ''running'' (Some 2) (Some 100) None, 0), sms5)"
proof -
  have run: "sms_step\<^sup>*\<^sup>* sms0 sms4"
  proof -
    have "sms_step sms0 sms1" by (rule sp_contact [OF demo_contacts(1)])
    moreover have "sms_step sms1 sms2" by (rule sp_contact [OF demo_contacts(2)])
    moreover have "sms_step sms2 sms3" using state_ofD [OF demo_create] sp_create by metis
    moreover have "sms_step sms3 sms4" using state_ofD [OF demo_validate] sp_validate by metis
    ultimately show ?thesis by (meson rtranclp.rtrancl_refl rtranclp.rtrancl_into_rtrancl)
  qed
  show ?thesis using sms_demo_start start_campaign_effect [OF sms0_start run sms_demo_start, of 150 9] by simp
qed

subsection \<open>Nodes\<close>



text \<open>C35. No message stays with a node that has gone silent: the sweep never fails and reports how many messages it took back; each
  message of the tenant that was in flight for too long, and on which nobody else holds a lock, is queued again, or given up after
  its last attempt; no other message changes, and none in flight for too long is left over.\<close>

theorem sweep_frees_messages:
  assumes "sms_start s0" "sms_step\<^sup>*\<^sup>* s0 s"
  shows "\<exists>t. reconcile_stale_in_flight now tenant stale_after busy s
      = Inr (length (filter (\<lambda>m. ms_tenant m = tenant \<and> stale (now - stale_after) m \<and> ms_id m \<notin> busy) (sm_messages s)), t)
    \<and> sm_messages t = map (\<lambda>m. if ms_tenant m = tenant \<and> stale (now - stale_after) m \<and> ms_id m \<notin> busy
        then m\<lparr>ms_status := (if ms_attempts m < MAX_DELIVERY_ATTEMPTS then ''queued'' else ''dead_letter''), ms_node := None, ms_last_error := Some ''timeout''\<rparr>
        else m) (sm_messages s)
    \<and> \<not> (\<exists>m\<in>set (sm_messages t). ms_tenant m = tenant \<and> stale (now - stale_after) m \<and> ms_id m \<notin> busy)"
proof -
  have ok: "sms_ok s" by (rule sms_reached [OF assms])
  let ?Q = "\<lambda>m. ms_tenant m = tenant \<and> stale (now - stale_after) m \<and> ms_id m \<notin> busy"
  obtain t where t: "reconcile_stale_in_flight now tenant stale_after busy s = Inr (length (filter ?Q (sm_messages s)), t)"
    "sm_messages t = map (\<lambda>m. if ?Q m then swept m else m) (sm_messages s)"
    using reconcile_ok [OF ok] by blast
  have free: "\<not> stale cut (swept m)" for m cut by (simp add: stale_def swept_def ended_as_def IN_FLIGHT_def)
  have "\<not> ?Q m" if "m \<in> set (sm_messages t)" for m using that free unfolding t(2) by auto
  then show ?thesis using t unfolding swept_def ended_as_def by blast
qed

theorem sweep_frees_messages_witness:
  "\<exists>t. reconcile_stale_in_flight 400000000 1 IN_FLIGHT_TIMEOUT {} sms9 = Inr (1, t) \<and> map ms_status (sm_messages t) = [''queued'', ''queued'']"
proof -
  have run: "sms_step\<^sup>*\<^sup>* sms0 sms9" using demo_run_start demo_run_retry by (rule rtranclp_trans)
  note p = sweep_frees_messages [OF sms0_start run, of 400000000 1 IN_FLIGHT_TIMEOUT "{}"]
  have ms: "sm_messages sms9 = [demo_message 1 ''assigned'' (Some 1) (Some 400) 2 (Some ''network''), demo_message 2 ''queued'' None None 0 None]"
    by (simp add: sms9_def running_demo_def demo_sms_def)
  have "stale (400000000 - IN_FLIGHT_TIMEOUT) (demo_message 1 ''assigned'' (Some 1) (Some 400) 2 (Some ''network''))"
    "\<not> stale (400000000 - IN_FLIGHT_TIMEOUT) (demo_message 2 ''queued'' None None 0 None)" by code_simp+
  then show ?thesis using p unfolding ms by (auto simp: demo_message_def MAX_DELIVERY_ATTEMPTS_def)
qed

subsection \<open>Imports\<close>


lemma ascii_decimal: "48 \<le> c \<Longrightarrow> c \<le> 57 \<Longrightarrow> decimal_point c"
  by (simp add: decimal_point_def DECIMAL_ZEROS_def)


end
