(* ===== verification/Spec2Isabelle.thy ===== *)
theory Spec2Isabelle
  imports Game_Safety Foundations Keno_Safety Keno_Contracts Bank_Safety Bank_Outcomes Sms_Safety
begin

text \<open>
  igame is a real-money gaming platform for Telegram: bingo rooms and a Keno table over a double-entry
  ledger in PostgreSQL. This development models the part of it that decides who wins and where money goes,
  and proves that it does so correctly.

  The program and the model. Services run as processes over one database: the bingo engine
  (\<open>services/engine/round_engine.py\<close>, one per room), the Keno engine (\<open>services/engine/keno_round_engine.py\<close>),
  ticket placement, responsible gaming and the ledger (\<open>packages/core\<close>). The database is the record
  \<open>db\<close> of theory Database: one field per table, one record per row, the ledger inside it. A transaction
  is a function \<open>db \<Rightarrow> db result\<close>: an exception is \<open>Inl\<close> and leaves the database as it was, a commit is
  checked by \<open>db_commit\<close>, which is the deferred trigger that refuses unbalanced postings. Row locks make the
  transactions serial, so what can interleave is whole transactions; the memory of an engine is a record
  of its own (\<open>engine\<close>, \<open>keno_engine\<close>), and an operation is a function on memory and database. Clocks,
  random seeds, what a lock answers and what a sleep finds are arguments. Money is \<open>rat\<close> in whole cents and
  goes through Python's 28-digit decimal arithmetic (Decimal\_Arith) wherever the code multiplies, divides or
  quantizes; ids are \<open>int\<close>, bytes are \<open>8 word\<close>, strings are \<open>string\<close>.

  The theories, bottom up.

  \<^item> Prelude: named collections, the error type \<open>exc\<close> and the result monad, whole cents, tables as lists.
  \<^item> Decimal\_Arith: the decimal context, square root and \<open>Fraction\<close> to \<open>Decimal\<close>, with their error bounds.
  \<^item> Sha256, Bingo\_Draw: SHA-256, HMAC, the byte stream, rejection sampling, the shuffle of \<open>bingo.py\<close>.
  \<^item> Bingo: cards, patterns and the win rule. Settlement: \<open>settlement.py\<close>.
  \<^item> Ledger, Wallet: \<open>ledger.py\<close>, and the locale \<open>wallet\<close> by which the games use it. Keys: the idempotency keys.
  \<^item> Responsible\_Gaming: \<open>responsible_gaming.py\<close>. Database: the other tables. Refunds: \<open>refunds.py\<close>.
  \<^item> Round\_Engine: \<open>round_engine.py\<close>, every operation and phase of a room. Round\_Money: its transactions as
    movements of balances. Bingo\_Book: the abstract book of rounds and cards, with its step relation.
    Bingo\_Engine\_Inv, Bingo\_Ops, Bingo\_Play, Bingo\_Settle: every operation keeps the invariant that ties the
    memory of an engine to the database and refines the book. Bingo\_System: any number of engines interleaved with crashes,
    recovery and the rest of the platform. Bingo\_Demo: the game the witnesses run.
  \<^item> Keno: \<open>keno.py\<close>, the mathematics and the draw. Keno\_Exposure, Keno\_Config, Keno\_Tickets, Keno\_Autoplay, Keno\_Tiers:
    the modules of the same names. Keno\_Engine, Keno\_Settle: \<open>keno_round_engine.py\<close>.
    Keno\_Book, Keno\_Money, Keno\_Placing, Keno\_Payout, Keno\_Finish: what the transactions do to tickets and balances.
    Runs: the locale \<open>stepping\<close> of systems that move by steps. Keno\_System: the step relation of
    all Keno transactions and its invariant. Keno\_Refinement: the engine's operations are runs of that relation.
    Keno\_Demo: the table the witnesses run.
  \<^item> Bank: the tables of the payments side around the database of the games. Bonuses, Deposits, Withdrawals: requests, webhooks and
    polling, the payout worker, manual payments with two admins, rewards and wagering. Text\_Match, Telebirr\_Parser, Telebirr: the
    messages of the mobile wallet, read by patterns, stored as evidence and redeemed.
    Bank\_Books: what each account owes by the rows. Bank\_Keeps, Bank\_Moves, Bank\_Steps: how rows and balances may
    change together. Bank\_Ops, Bank\_Payouts, Bank\_Dispatch, Bank\_Evidence: every transaction changes them so.
    Bank\_System: all of them interleaved, with payouts that workers finish late, twice or never. Bank\_Effects: what single
    operations do. Bank\_Demo: the desk the witnesses run.
  \<^item> Sms: the tables of the SMS control plane, templates, audiences, suppressions and nodes. Sms\_Import: phone numbers, the CSV
    reader and the import of recipients. Sms\_Campaigns, Sms\_Messages: \<open>campaigns.py\<close> and \<open>messages.py\<close>.
    Sms\_Keeps: the invariant. Sms\_Moves, Sms\_Ops, Sms\_Delivery: every operation keeps it. Sms\_System: all requests, reports and
    sweeps interleaved. Sms\_Recipients: who gets a message and which one is next. Sms\_Demo: the run of the witnesses.
  \<^item> Tables: numbered tables and updates by key, shared by the payments and the SMS side.
  \<^item> Foundations, Game\_Safety, Keno\_Fairness, Keno\_Safety, Keno\_Outcomes, Keno\_Contracts, Bank\_Safety, Bank\_Outcomes, Sms\_Safety: the properties.

  What the lemmas show. The ledger keeps its books balanced, its history append-only and its postings
  idempotent, and no player's account goes below zero. A bingo stake is in escrow exactly while its round
  lives; a round ends once, settled to its winners to the cent or refunded in full. A Keno ticket is accepted only within
  the limits, is settled or refunded once for exactly what its paytable gives, and over every interleaving the cash of a player
  differs from the start by exactly what the ticket rows say. The draws are permutations or selections fixed by a seed committed
  beforehand, unbiased by rejection sampling, and verifiable afterwards. The prices of the paytables stay under the house edge.
  On the payments side the accounts hold at every moment what the rows owe, a deposit is credited once, a payout ends once and
  as the provider ended it, a Telebirr message is redeemed once, and large manual payments take two admins.
  An SMS campaign sends at most one message to a number, each attempted at most three times and never left with a silent node;
  its events are its life, and a completed campaign has nothing open.

  Bounds and fuel. The draws read a byte stream whose block counter has four bytes; the model stops there with
  \<open>OverflowError\<close> as the code does, and the theorems on termination ask only for enough usable bytes in the
  stream. Columns \<open>numeric(18,2)\<close> and \<open>numeric(24,6)\<close> raise outside their range. Settlement of Keno asks multipliers
  below a thousand million and a jackpot pool below 10 to the 26 so that no product leaves the decimal context.

  Not modelled: HTTP, WebSocket, Telegram and Redis I/O and the text of messages; metrics, logging and tracing;
  read-only reporting queries; the entropy of seeds and the generation of the card pool (inputs); the lease behind a room's or
  the Keno lock (the engines see it as a flag that may fall at any time). Of the admin console the decisions that
  move money are modelled. Each of the three systems of money lets the rest of the platform change the ledger in any
  way that keeps it consistent and leaves its own accounts and keys alone. That a provider's answer is true is an assumption
  (\<open>answer_true\<close>) on the steps of the payout worker.
\<close>

end
